(* ===== verification/Prelude.thy ===== *)
theory Prelude
  imports Main "HOL-Library.Word" "HOL-Library.Monad_Syntax" "HOL-Library.Finite_Map"
begin

text \<open>
  Shared vocabulary of the development: machine integer widths, the reading of Rust's
  panics, \<open>Result\<close>s, slices and hash containers, and the generic lemmas and
  \<^theory_text>\<open>named_theorems\<close> collections that the component theories rest on.

  Conventions used by every theory.
  \<^item> \<open>u8\<close>, \<open>u32\<close>, \<open>u64\<close> are machine words; \<open>usize\<close> values that are lengths or positions
    are \<open>nat\<close>, and a cast \<open>as u32\<close> is \<open>word_of_nat\<close>, which wraps exactly as the cast truncates.
  \<^item> A Rust call that may panic (an index out of range, an \<open>expect\<close>) has an \<open>option\<close> result
    in the model: \<open>None\<close> is the panic. A Rust \<open>Option\<close> inside such a call is a nested option.
  \<^item> A Rust \<open>Result<T, E>\<close> is the sum \<open>'e + 't\<close>, \<open>Inl\<close> the error.
  \<^item> \<open>FxHashMap\<close> and \<open>FxHashSet\<close> are finite maps (\<open>fmap\<close>) and finite sets (\<open>fset\<close>); \<open>Arc\<close>s around
    immutable data are transparent.
\<close>

type_synonym u8 = "8 word"
type_synonym u32 = "32 word"
type_synonym u64 = "64 word"

named_theorems layered_defs \<open>definitions of the layered containers\<close>
named_theorems layered_simps \<open>observations of the layered containers under their invariants\<close>
named_theorems store_defs \<open>definitions of the arena's accessors and append helpers\<close>
named_theorems row_simps \<open>the arena's operations seen on its list of rows\<close>
named_theorems intern_defs \<open>definitions of the interner's constructors\<close>

subsection \<open>Slices and panicking iteration\<close>

text \<open>\<open>slice::get\<close>: a checked read.\<close>

definition nth_opt :: "'a list \<Rightarrow> nat \<Rightarrow> 'a option" where
  "nth_opt xs i = (if i < length xs then Some (xs ! i) else None)"

lemma nth_opt_append:
  "nth_opt (xs @ ys) i = (if i < length xs then nth_opt xs i else nth_opt ys (i - length xs))"
  by (auto simp: nth_opt_def nth_append)

lemma nth_opt_Nil [simp]: "nth_opt [] i = None"
  by (simp add: nth_opt_def)

lemma nth_opt_Cons_0 [simp]: "nth_opt (x # xs) 0 = Some x"
  by (simp add: nth_opt_def)

lemma nth_opt_Cons_Suc [simp]: "nth_opt (x # xs) (Suc i) = nth_opt xs i"
  by (simp add: nth_opt_def)

lemma nth_opt_eq_None: "nth_opt xs i = None \<longleftrightarrow> length xs \<le> i"
  by (simp add: nth_opt_def)

lemma nth_opt_eq_Some: "nth_opt xs i = Some x \<longleftrightarrow> i < length xs \<and> xs ! i = x"
  by (simp add: nth_opt_def)

lemma nth_opt_map: "nth_opt (map f xs) i = map_option f (nth_opt xs i)"
  by (simp add: nth_opt_def)

lemma nth_opt_update:
  "nth_opt (xs[i := x]) j = (if i = j \<and> j < length xs then Some x else nth_opt xs j)"
  by (auto simp: nth_opt_def)

lemma nth_opt_snoc: "nth_opt (xs @ [x]) (length xs) = Some x"
  by (simp add: nth_opt_def)

text \<open>\<open>Iterator::find\<close> with a predicate that may panic: evaluation stops at the first hit.\<close>

fun find_m :: "('a \<Rightarrow> bool option) \<Rightarrow> 'a list \<Rightarrow> 'a option option" where
  "find_m p [] = Some None"
| "find_m p (x # xs) =
     (case p x of None \<Rightarrow> None | Some True \<Rightarrow> Some (Some x) | Some False \<Rightarrow> find_m p xs)"

text \<open>\<open>Iterator::all\<close> and \<open>Iterator::any\<close> with a predicate that may panic.\<close>

fun all_m :: "('a \<Rightarrow> bool option) \<Rightarrow> 'a list \<Rightarrow> bool option" where
  "all_m p [] = Some True"
| "all_m p (x # xs) =
     (case p x of None \<Rightarrow> None | Some True \<Rightarrow> all_m p xs | Some False \<Rightarrow> Some False)"

lemma find_m_cong [fundef_cong]:
  "xs = ys \<Longrightarrow> (\<And>x. x \<in> set ys \<Longrightarrow> p x = q x) \<Longrightarrow> find_m p xs = find_m q ys"
  by (induction ys arbitrary: xs) (auto split: option.splits bool.splits)

lemma all_m_cong [fundef_cong]:
  "xs = ys \<Longrightarrow> (\<And>x. x \<in> set ys \<Longrightarrow> p x = q x) \<Longrightarrow> all_m p xs = all_m q ys"
  by (induction ys arbitrary: xs) (auto split: option.splits bool.splits)

lemma find_m_total:
  "(\<And>x. x \<in> set xs \<Longrightarrow> p x = Some (q x)) \<Longrightarrow> find_m p xs = Some (find q xs)"
  by (induction xs) (auto split: bool.splits)

lemma all_m_total:
  "(\<And>x. x \<in> set xs \<Longrightarrow> p x = Some (q x)) \<Longrightarrow> all_m p xs = Some (list_all q xs)"
  by (induction xs) (auto split: bool.splits)

lemma find_Some_iff_unique:
  "find q xs = Some x \<Longrightarrow> x \<in> set xs \<and> q x"
  by (induction xs) (auto split: if_splits)

lemma find_None_all: "find q xs = None \<longleftrightarrow> (\<forall>x \<in> set xs. \<not> q x)"
  by (induction xs) auto

subsection \<open>Results\<close>

text \<open>The \<open>?\<close> operator: continue with the value, return the error at once.\<close>

definition and_then :: "'e + 'a \<Rightarrow> ('a \<Rightarrow> 'e + 'b) \<Rightarrow> 'e + 'b" where
  "and_then r f = (case r of Inl e \<Rightarrow> Inl e | Inr a \<Rightarrow> f a)"

lemma and_then_simps [simp]:
  "and_then (Inl e) f = Inl e" "and_then (Inr a) f = f a"
  by (simp_all add: and_then_def)

lemma and_then_eq_Inr: "and_then r f = Inr b \<longleftrightarrow> (\<exists>a. r = Inr a \<and> f a = Inr b)"
  by (cases r) simp_all

subsection \<open>Hash containers\<close>

lemma fmap_eq_empty_iff: "m = fmempty \<longleftrightarrow> (\<forall>k. fmlookup m k = None)"
  by (metis fmap_ext fmempty_lookup)

lemma fset_fmdom_empty [simp]: "fset (fmdom m) = {} \<longleftrightarrow> m = fmempty"
  by (auto simp: fmap_eq_empty_iff fmlookup_dom_iff [symmetric])

lemma fmdom_eq_fempty [simp]: "fmdom m = {||} \<longleftrightarrow> m = fmempty"
  by (metis fset_fmdom_empty bot_fset.rep_eq fmdom_empty)

lemma fmdom_lookup: "k |\<in>| fmdom m \<longleftrightarrow> fmlookup m k \<noteq> None"
  by (auto simp: fmlookup_dom_iff)

text \<open>\<open>HashMap::len\<close>.\<close>

definition fmsize :: "('k, 'v) fmap \<Rightarrow> nat" where
  "fmsize m = fcard (fmdom m)"

lemma fmsize_card: "fmsize m = card {k. fmlookup m k \<noteq> None}"
proof -
  have "{k. fmlookup m k \<noteq> None} = fset (fmdom m)" by (auto simp: fmlookup_dom_iff)
  then show ?thesis by (simp add: fmsize_def fcard.rep_eq)
qed

subsection \<open>Casts to \<open>u32\<close>\<close>

lemma unat_of_len_u32: "n < 2 ^ 32 \<Longrightarrow> unat (word_of_nat n :: u32) = n"
  by (simp add: unat_of_nat take_bit_nat_eq_self)

lemma u32_of_nat_inject:
  "m < 2 ^ 32 \<Longrightarrow> n < 2 ^ 32 \<Longrightarrow> (word_of_nat m = (word_of_nat n :: u32)) = (m = n)"
  by (metis unat_of_len_u32)

lemma u32_less_unat: "(a :: u32) < b \<longleftrightarrow> unat a < unat b"
  by (rule word_less_nat_alt)

subsection \<open>Canonical lists: sorted without repetition\<close>

definition strict_sorted :: "'a::linorder list \<Rightarrow> bool" where
  "strict_sorted xs \<longleftrightarrow> sorted xs \<and> distinct xs"

lemma strict_sorted_unique:
  "strict_sorted xs \<Longrightarrow> strict_sorted ys \<Longrightarrow> set xs = set ys \<Longrightarrow> xs = ys"
  by (simp add: strict_sorted_def sorted_distinct_set_unique)

lemma sorted_remdups_adj_distinct: "sorted xs \<Longrightarrow> distinct (remdups_adj xs)"
  by (induction xs rule: remdups_adj.induct) (auto simp: not_less order_antisym)

text \<open>\<open>sort_unstable\<close> followed by \<open>dedup\<close> yields the canonical list of the members.\<close>

lemma strict_sorted_sort_dedup: "strict_sorted (remdups_adj (sort xs))"
  by (simp add: strict_sorted_def sorted_remdups_adj_distinct)

lemma set_sort_dedup: "set (remdups_adj (sort xs)) = set xs"
  by simp

end
