(* ===== verification/Core_Span.thy ===== *)
theory Core_Span
  imports Prelude
begin

text \<open>
  Crate \<^verbatim>\<open>typokat-core\<close>, module \<^verbatim>\<open>span.rs\<close>: byte spans and the line index that turns byte
  offsets into the 1-based positions diagnostics print. The source text is its list of UTF-8
  bytes. The main lemma states the binary search over line starts against a direct reading of
  the text.
\<close>

record span =
  span_start :: u32
  span_end :: u32

definition span_new :: "u32 \<Rightarrow> u32 \<Rightarrow> span" where
  "span_new s e = \<lparr>span_start = s, span_end = e\<rparr>"

text \<open>\<open>Span::range\<close>: the half-open range as positions.\<close>

definition span_range :: "span \<Rightarrow> nat \<times> nat" where
  "span_range sp = (unat (span_start sp), unat (span_end sp))"

record line_col =
  lc_line :: u32
  lc_column :: u32

record line_index =
  line_starts :: "u32 list"
  li_len :: u32

definition newline :: u8 where
  "newline = 10"

definition line_index_new :: "u8 list \<Rightarrow> line_index" where
  "line_index_new source =
     \<lparr>line_starts = 0 # map (\<lambda>(i, b). word_of_nat (i + 1))
        (filter (\<lambda>(i, b). b = newline) (enumerate 0 source)),
      li_len = word_of_nat (length source)\<rparr>"

text \<open>
  \<open>slice::partition_point\<close>: the length of the prefix on which the predicate holds, for a slice
  partitioned by it.
\<close>

definition partition_point :: "('a \<Rightarrow> bool) \<Rightarrow> 'a list \<Rightarrow> nat" where
  "partition_point p xs = length (takeWhile p xs)"

text \<open>\<open>None\<close> is the panic of \<open>line_starts[line - 1]\<close>.\<close>

definition line_col_at :: "line_index \<Rightarrow> u32 \<Rightarrow> line_col option" where
  "line_col_at idx off =
     (let off = min off (li_len idx);
          line = max (partition_point (\<lambda>st. st \<le> off) (line_starts idx)) 1
      in do {
        line_start \<leftarrow> nth_opt (line_starts idx) (line - 1);
        Some \<lparr>lc_line = word_of_nat line, lc_column = off - line_start + 1\<rparr>
      })"

definition line_of :: "line_index \<Rightarrow> u32 \<Rightarrow> u32 option" where
  "line_of idx off = map_option lc_line (line_col_at idx off)"

subsection \<open>The index against the text\<close>

text \<open>Positions of the newlines below \<open>n\<close>.\<close>

definition newlines_upto :: "u8 list \<Rightarrow> nat \<Rightarrow> nat list" where
  "newlines_upto s n = filter (\<lambda>i. s ! i = newline) [0..<n]"

lemma newlines_upto_Suc:
  "newlines_upto s (Suc n) = newlines_upto s n @ (if s ! n = newline then [n] else [])"
  by (simp add: newlines_upto_def)

lemma newlines_upto_less: "i \<in> set (newlines_upto s n) \<Longrightarrow> i < n"
  by (auto simp: newlines_upto_def)

lemma newlines_upto_split:
  assumes "n \<le> m"
  shows "newlines_upto s m = newlines_upto s n @ filter (\<lambda>i. s ! i = newline) [n..<m]"
proof -
  have "[0..<m] = [0..<n] @ [n..<m]"
    using assms upt_add_eq_append [of 0 n "m - n"] by simp
  then show ?thesis by (simp add: newlines_upto_def)
qed

lemma line_starts_new:
  "line_starts (line_index_new s) =
     map word_of_nat (0 # map Suc (newlines_upto s (length s)))"
proof -
  have "map fst (filter (\<lambda>(i, b). b = newline) (enumerate 0 s)) = newlines_upto s (length s)"
  proof (induction s rule: rev_induct)
    case Nil
    then show ?case by (simp add: newlines_upto_def)
  next
    case (snoc x xs)
    have "newlines_upto (xs @ [x]) (length xs) = newlines_upto xs (length xs)"
      by (auto simp: newlines_upto_def nth_append intro: filter_cong)
    with snoc show ?case by (simp add: enumerate_append_eq newlines_upto_Suc)
  qed
  from arg_cong [OF this, of "map (\<lambda>i. word_of_nat (Suc i))"]
  show ?thesis by (simp add: line_index_new_def comp_def case_prod_unfold)
qed

lemma count_newlines_upto:
  "n \<le> length s \<Longrightarrow> length (newlines_upto s n) = count_list (take n s) newline"
  by (induction n) (auto simp: newlines_upto_Suc take_Suc_conv_app_nth newlines_upto_def)

lemma last_line_start:
  "n \<le> length s \<Longrightarrow>
     last (0 # map Suc (newlines_upto s n)) + length (takeWhile (\<lambda>b. b \<noteq> newline) (rev (take n s))) = n"
proof (induction n)
  case 0
  then show ?case by (simp add: newlines_upto_def)
next
  case (Suc n)
  then show ?case
    by (cases "newlines_upto s n = []") (auto simp: newlines_upto_Suc take_Suc_conv_app_nth split: if_splits)
qed

lemma u32_distance: "a + c = m \<Longrightarrow> word_of_nat m - word_of_nat a + 1 = (word_of_nat (1 + c) :: u32)"
  by auto

lemma takeWhile_starts:
  assumes "n \<le> length s" "length s < 2 ^ 32"
  shows "takeWhile (\<lambda>st. st \<le> (word_of_nat n :: u32)) (line_starts (line_index_new s)) =
    map word_of_nat (0 # map Suc (newlines_upto s n))"
proof -
  let ?rest = "filter (\<lambda>i. s ! i = newline) [n..<length s]"
  have le: "((word_of_nat (Suc i) :: u32) \<le> word_of_nat n) = (Suc i \<le> n)"
    if "i < length s" for i
    using that assms by (simp only: word_le_nat_alt unat_of_len_u32)
  have inside: "\<forall>x \<in> set (map word_of_nat (0 # map Suc (newlines_upto s n))). x \<le> (word_of_nat n :: u32)"
    using assms le newlines_upto_less by fastforce
  have outside: "takeWhile (\<lambda>st. st \<le> (word_of_nat n :: u32)) (map word_of_nat (map Suc ?rest)) = []"
  proof (cases ?rest)
    case (Cons a xs)
    then have "a \<in> set ?rest" by simp
    then have "n \<le> a" "a < length s" by auto
    with Cons le [of a] show ?thesis by simp
  qed simp
  have "line_starts (line_index_new s) =
      map word_of_nat (0 # map Suc (newlines_upto s n)) @ map word_of_nat (map Suc ?rest)"
    by (simp add: line_starts_new newlines_upto_split [OF assms(1)])
  then show ?thesis
    using inside outside by (metis (no_types, lifting) append_Nil2 takeWhile_append2)
qed

text \<open>
  C37: for a text shorter than \<open>2^32 - 1\<close> bytes, \<open>LineIndex::line_col\<close> never panics and returns,
  for the offset clamped to the text, one plus the number of newlines before it and one plus the
  distance in bytes to the last newline before it.
\<close>

theorem line_col_correct:
  assumes "length s < 2 ^ 32 - 1"
  defines "n off \<equiv> min (unat off) (length s)"
  shows "line_col_at (line_index_new s) off =
    Some \<lparr>lc_line = word_of_nat (1 + count_list (take (n off) s) newline),
          lc_column = word_of_nat (1 + length (takeWhile (\<lambda>b. b \<noteq> newline) (rev (take (n off) s))))\<rparr>"
proof -
  have len: "length s < 2 ^ 32" using assms by simp
  define m where "m = n off"
  have m: "m \<le> length s" by (simp add: m_def n_def)
  have off: "min off (li_len (line_index_new s)) = word_of_nat m"
    using len by (simp add: line_index_new_def m_def n_def min_def word_le_nat_alt unat_of_len_u32)
  let ?pre = "0 # map Suc (newlines_upto s m)"
  let ?col = "length (takeWhile (\<lambda>b. b \<noteq> newline) (rev (take m s)))"
  have tw: "takeWhile (\<lambda>st. st \<le> (word_of_nat m :: u32)) (line_starts (line_index_new s)) = map word_of_nat ?pre"
    by (rule takeWhile_starts [OF m len])
  have pp: "partition_point (\<lambda>st. st \<le> (word_of_nat m :: u32)) (line_starts (line_index_new s)) = length ?pre"
    by (simp only: partition_point_def tw length_map)
  have nth: "nth_opt (line_starts (line_index_new s)) (length (newlines_upto s m)) =
      Some (word_of_nat (last ?pre))"
  proof -
    have "line_starts (line_index_new s) =
        map word_of_nat ?pre @ map word_of_nat (map Suc (filter (\<lambda>i. s ! i = newline) [m..<length s]))"
      by (simp add: line_starts_new newlines_upto_split [OF m])
    moreover have "nth_opt ?pre (length (newlines_upto s m)) = Some (last ?pre)"
      by (simp add: nth_opt_eq_Some last_conv_nth)
    ultimately show ?thesis by (simp only: nth_opt_append nth_opt_map) simp
  qed
  have col: "word_of_nat m - word_of_nat (last ?pre) + 1 = (word_of_nat (1 + ?col) :: u32)"
    by (rule u32_distance [OF last_line_start [OF m]])
  have line: "max (length ?pre) 1 = 1 + count_list (take m s) newline"
    using count_newlines_upto [OF m] by simp
  have idx: "1 + count_list (take m s) newline - 1 = length (newlines_upto s m)"
    using count_newlines_upto [OF m] by simp
  show ?thesis
    unfolding line_col_at_def Let_def off pp line idx nth Option.bind.bind_lunit m_def [symmetric] col
    by simp
qed

theorem line_col_correct_witness:
  "length [97, 98, newline, 99, 100] < 2 ^ 32 - 1 \<and>
   line_col_at (line_index_new [97, 98, newline, 99, 100]) 4 = Some \<lparr>lc_line = 2, lc_column = 2\<rparr>"
  using line_col_correct [of "[97, 98, newline, 99, 100]" 4] by (simp add: newline_def)

end
