(* ===== verification/Layered.thy ===== *)
theory Layered
  imports Prelude
begin

text \<open>
  Crate \<^verbatim>\<open>typokat-types\<close>, module \<^verbatim>\<open>types/layered.rs\<close>: containers with an immutable sealed prefix
  and an isolated mutable suffix. \<open>LayeredVec\<close>, its double-ended iterator, \<open>LayeredMap\<close> and
  \<open>LayeredSet\<close>, each with its invariant, what every operation observes and keeps, and two
  interfaces as locales: an append-only indexed sequence and a map whose sealed entries refuse
  writes. Test-only counters of the source are left out: they never influence a result.
\<close>

section \<open>LayeredVec\<close>

record 'a layered_vec =
  lv_base :: "'a list"
  lv_overrides :: "(nat, 'a) fmap"
  lv_local :: "'a list"
  lv_sealed :: bool
  lv_prefix_overrides_enabled :: bool

definition lv_default :: "'a layered_vec" where [layered_defs]:
  "lv_default = \<lparr>lv_base = [], lv_overrides = fmempty, lv_local = [], lv_sealed = False,
     lv_prefix_overrides_enabled = False\<rparr>"

definition lv_from_vec :: "'a list \<Rightarrow> 'a layered_vec" where [layered_defs]:
  "lv_from_vec xs = \<lparr>lv_base = [], lv_overrides = fmempty, lv_local = xs, lv_sealed = False,
     lv_prefix_overrides_enabled = False\<rparr>"

definition lv_len :: "'a layered_vec \<Rightarrow> nat" where [layered_defs]:
  "lv_len v = length (lv_base v) + length (lv_local v)"

definition lv_is_empty :: "'a layered_vec \<Rightarrow> bool" where [layered_defs]:
  "lv_is_empty v \<longleftrightarrow> lv_len v = 0"

definition lv_base_len :: "'a layered_vec \<Rightarrow> nat" where [layered_defs]:
  "lv_base_len v = length (lv_base v)"

definition lv_local_len :: "'a layered_vec \<Rightarrow> nat" where [layered_defs]:
  "lv_local_len v = length (lv_local v)"

definition lv_enable_prefix_overrides :: "'a layered_vec \<Rightarrow> 'a layered_vec" where [layered_defs]:
  "lv_enable_prefix_overrides v = v\<lparr>lv_prefix_overrides_enabled := True\<rparr>"

definition lv_get :: "'a layered_vec \<Rightarrow> nat \<Rightarrow> 'a option" where [layered_defs]:
  "lv_get v i =
     (if i < length (lv_base v)
      then (case fmlookup (lv_overrides v) i of Some x \<Rightarrow> Some x | None \<Rightarrow> nth_opt (lv_base v) i)
      else nth_opt (lv_local v) (i - length (lv_base v)))"

text \<open>
  \<open>get_mut_local\<close> hands out a mutable reference: the model returns the value behind it and the
  write-back. Taking the reference into the prefix installs an override even when nothing is
  written, which is the write-back of the value itself.
\<close>

definition lv_get_mut_local ::
    "'a layered_vec \<Rightarrow> nat \<Rightarrow> ('a \<times> ('a \<Rightarrow> 'a layered_vec)) option" where [layered_defs]:
  "lv_get_mut_local v i =
     (if i < length (lv_base v) then
        if \<not> lv_prefix_overrides_enabled v then None
        else do {
          value \<leftarrow> nth_opt (lv_base v) i;
          let current = (case fmlookup (lv_overrides v) i of Some x \<Rightarrow> x | None \<Rightarrow> value);
          Some (current, \<lambda>x. v\<lparr>lv_overrides := fmupd i x (lv_overrides v)\<rparr>)
        }
      else do {
        current \<leftarrow> nth_opt (lv_local v) (i - length (lv_base v));
        Some (current, \<lambda>x. v\<lparr>lv_local := (lv_local v)[i - length (lv_base v) := x]\<rparr>)
      })"

definition lv_push_local :: "'a layered_vec \<Rightarrow> 'a \<Rightarrow> nat \<times> 'a layered_vec" where [layered_defs]:
  "lv_push_local v x = (lv_len v, v\<lparr>lv_local := lv_local v @ [x]\<rparr>)"

definition lv_clear_local :: "'a layered_vec \<Rightarrow> 'a layered_vec" where [layered_defs]:
  "lv_clear_local v = v\<lparr>lv_overrides := fmempty, lv_local := []\<rparr>"

definition lv_freeze_as_base :: "'a layered_vec \<Rightarrow> string + 'a layered_vec" where [layered_defs]:
  "lv_freeze_as_base v =
     (if lv_sealed v \<or> lv_base v \<noteq> [] \<or> lv_overrides v \<noteq> fmempty
      then Inl ''layered vector is already sealed''
      else Inr (v\<lparr>lv_base := lv_local v, lv_local := [], lv_overrides := fmempty, lv_sealed := True,
        lv_prefix_overrides_enabled := False\<rparr>))"

definition lv_fork_delta :: "'a layered_vec \<Rightarrow> string + 'a layered_vec" where [layered_defs]:
  "lv_fork_delta v =
     (if \<not> lv_sealed v then Inl ''layered vector base is not sealed''
      else if lv_local v \<noteq> [] \<or> lv_overrides v \<noteq> fmempty
      then Inl ''layered vector has an unpublished suffix''
      else Inr \<lparr>lv_base = lv_base v, lv_overrides = fmempty, lv_local = [], lv_sealed = True,
        lv_prefix_overrides_enabled = False\<rparr>)"

definition lv_fork_sparse_delta :: "'a layered_vec \<Rightarrow> string + 'a layered_vec" where [layered_defs]:
  "lv_fork_sparse_delta v =
     and_then (lv_fork_delta v) (\<lambda>delta. Inr (delta\<lparr>lv_prefix_overrides_enabled := True\<rparr>))"

text \<open>\<open>Index::index\<close>: \<open>None\<close> is the panic of its \<open>expect\<close>.\<close>

definition lv_index :: "'a layered_vec \<Rightarrow> nat \<Rightarrow> 'a option" where [layered_defs]:
  "lv_index v i = lv_get v i"

subsection \<open>The double-ended iterator\<close>

record 'a layered_iter =
  li_base :: "(nat \<times> 'a) list"
  li_overrides :: "(nat, 'a) fmap"
  li_local :: "'a list"

definition lv_iter :: "'a layered_vec \<Rightarrow> 'a layered_iter" where
  "lv_iter v = \<lparr>li_base = enumerate 0 (lv_base v), li_overrides = lv_overrides v,
     li_local = lv_local v\<rparr>"

definition li_shadow :: "'a layered_iter \<Rightarrow> nat \<times> 'a \<Rightarrow> 'a" where
  "li_shadow it p = (case fmlookup (li_overrides it) (fst p) of Some x \<Rightarrow> x | None \<Rightarrow> snd p)"

definition li_next :: "'a layered_iter \<Rightarrow> ('a \<times> 'a layered_iter) option" where
  "li_next it =
     (case li_base it of
        p # ps \<Rightarrow> Some (li_shadow it p, it\<lparr>li_base := ps\<rparr>)
      | [] \<Rightarrow> (case li_local it of
          x # xs \<Rightarrow> Some (x, it\<lparr>li_local := xs\<rparr>)
        | [] \<Rightarrow> None))"

definition li_next_back :: "'a layered_iter \<Rightarrow> ('a \<times> 'a layered_iter) option" where
  "li_next_back it =
     (if li_local it \<noteq> [] then Some (last (li_local it), it\<lparr>li_local := butlast (li_local it)\<rparr>)
      else if li_base it \<noteq> []
      then Some (li_shadow it (last (li_base it)), it\<lparr>li_base := butlast (li_base it)\<rparr>)
      else None)"

definition li_size_hint :: "'a layered_iter \<Rightarrow> nat" where
  "li_size_hint it = length (li_base it) + length (li_local it)"

subsection \<open>The sequence a layered vector denotes\<close>

definition lv_list :: "'a layered_vec \<Rightarrow> 'a list" where
  "lv_list v = map (\<lambda>(i, x). case fmlookup (lv_overrides v) i of Some y \<Rightarrow> y | None \<Rightarrow> x)
     (enumerate 0 (lv_base v)) @ lv_local v"

text \<open>
  Overrides only shadow rows of the prefix and only exist in a sparse epoch, and an unsealed
  vector has no prefix.
\<close>

definition lv_inv :: "'a layered_vec \<Rightarrow> bool" where
  "lv_inv v \<longleftrightarrow> (\<forall>i. i |\<in>| fmdom (lv_overrides v) \<longrightarrow> i < length (lv_base v)) \<and>
     (\<not> lv_sealed v \<longrightarrow> lv_base v = []) \<and>
     (lv_overrides v \<noteq> fmempty \<longrightarrow> lv_prefix_overrides_enabled v)"

lemma length_lv_list [layered_simps]: "length (lv_list v) = lv_len v"
  by (simp add: lv_list_def lv_len_def)

lemma lv_get_list: "lv_get v i = nth_opt (lv_list v) i"
  by (auto simp: lv_get_def lv_list_def nth_opt_def nth_append nth_enumerate_eq split: option.splits)

lemma lv_list_push: "lv_list (snd (lv_push_local v x)) = lv_list v @ [x]"
  by (simp add: lv_list_def lv_push_local_def)

lemma lv_inv_push: "lv_inv v \<Longrightarrow> lv_inv (snd (lv_push_local v x))"
  by (simp add: lv_inv_def lv_push_local_def)

lemma lv_inv_default [simp]: "lv_inv lv_default"
  by (simp add: lv_inv_def lv_default_def)

lemma lv_list_default [simp]: "lv_list lv_default = []"
  by (simp add: lv_list_def lv_default_def)

lemma lv_get_mut_get: "lv_get_mut_local v i = Some (x, put) \<Longrightarrow> lv_get v i = Some x"
  by (auto simp: lv_get_mut_local_def lv_get_def bind_eq_Some_conv split: if_splits option.splits)

lemma lv_get_mut_list:
  "lv_get_mut_local v i = Some (x, put) \<Longrightarrow> lv_list (put y) = (lv_list v)[i := y]"
proof -
  assume "lv_get_mut_local v i = Some (x, put)"
  then consider
      (prefix) "i < length (lv_base v)" "put = (\<lambda>x. v\<lparr>lv_overrides := fmupd i x (lv_overrides v)\<rparr>)"
    | (suffix) "\<not> i < length (lv_base v)"
        "put = (\<lambda>x. v\<lparr>lv_local := (lv_local v)[i - length (lv_base v) := x]\<rparr>)"
    by (auto simp: lv_get_mut_local_def Let_def bind_eq_Some_conv split: if_splits)
  then show ?thesis
  proof cases
    case prefix
    show ?thesis
      by (rule nth_equalityI)
        (auto simp: prefix lv_list_def nth_append nth_list_update nth_enumerate_eq split: option.splits)
  next
    case suffix
    then show ?thesis by (simp add: lv_list_def list_update_append)
  qed
qed

lemma lv_get_mut_inv: "lv_inv v \<Longrightarrow> lv_get_mut_local v i = Some (x, put) \<Longrightarrow> lv_inv (put y)"
  by (auto simp: lv_get_mut_local_def Let_def lv_inv_def bind_eq_Some_conv split: if_splits)

lemma lv_get_mut_defined:
  "lv_get_mut_local v i \<noteq> None \<longleftrightarrow>
     i < lv_len v \<and> (lv_base_len v \<le> i \<or> lv_prefix_overrides_enabled v)"
  by (auto simp: lv_get_mut_local_def Let_def layered_defs nth_opt_def)

lemma lv_freeze_list: "lv_inv v \<Longrightarrow> lv_freeze_as_base v = Inr w \<Longrightarrow>
    lv_list w = lv_list v \<and> lv_base w = lv_list v \<and> lv_local w = [] \<and> lv_inv w \<and> lv_sealed w \<and>
    \<not> lv_prefix_overrides_enabled w \<and> lv_overrides w = fmempty"
  by (auto simp: lv_freeze_as_base_def lv_list_def lv_inv_def map_snd_enumerate [unfolded map_eq_conv]
      case_prod_unfold split: if_splits)

lemma lv_freeze_defined: "lv_inv v \<Longrightarrow> \<not> lv_sealed v \<Longrightarrow> \<exists>w. lv_freeze_as_base v = Inr w"
  by (auto simp: lv_freeze_as_base_def lv_inv_def)

lemma lv_fork_list: "lv_fork_delta v = Inr w \<Longrightarrow>
    lv_list w = lv_list v \<and> lv_base w = lv_base v \<and> lv_local w = [] \<and> lv_inv w \<and> lv_sealed w"
  by (auto simp: lv_fork_delta_def lv_list_def lv_inv_def split: if_splits)

subsection \<open>Interface: an append-only indexed sequence\<close>

locale append_sequence =
  fixes len :: "'v \<Rightarrow> nat"
    and get :: "'v \<Rightarrow> nat \<Rightarrow> 'a option"
    and push :: "'v \<Rightarrow> 'a \<Rightarrow> nat \<times> 'v"
    and items :: "'v \<Rightarrow> 'a list"
    and inv :: "'v \<Rightarrow> bool"
  assumes len_items: "inv v \<Longrightarrow> len v = length (items v)"
    and get_items: "inv v \<Longrightarrow> get v i = nth_opt (items v) i"
    and push_index: "inv v \<Longrightarrow> fst (push v x) = len v"
    and push_items: "inv v \<Longrightarrow> items (snd (push v x)) = items v @ [x]"
    and push_inv: "inv v \<Longrightarrow> inv (snd (push v x))"
begin

lemma get_pushed: "inv v \<Longrightarrow> get (snd (push v x)) (fst (push v x)) = Some x"
  by (simp add: get_items push_inv push_items push_index len_items nth_opt_snoc)

lemma get_kept: "inv v \<Longrightarrow> get v i = Some y \<Longrightarrow> get (snd (push v x)) i = Some y"
  by (auto simp: get_items push_inv push_items nth_opt_append nth_opt_eq_Some)

lemma len_push: "inv v \<Longrightarrow> len (snd (push v x)) = Suc (len v)"
  by (simp add: len_items push_inv push_items)

lemma get_defined: "inv v \<Longrightarrow> get v i \<noteq> None \<longleftrightarrow> i < len v"
  by (simp add: get_items len_items nth_opt_def)

text \<open>A whole batch of appends: every earlier row keeps its position and value.\<close>

lemma pushes_items:
  "inv v \<Longrightarrow> inv (fold (\<lambda>x w. snd (push w x)) xs v) \<and>
     items (fold (\<lambda>x w. snd (push w x)) xs v) = items v @ xs"
  by (induction xs arbitrary: v) (auto simp: push_inv push_items)

end

interpretation lvec: append_sequence lv_len lv_get lv_push_local lv_list lv_inv
  by unfold_locales
    (simp_all add: length_lv_list lv_get_list lv_list_push lv_inv_push lv_push_local_def [THEN arg_cong [of _ _ fst]])

subsection \<open>The iterator yields the sequence from both ends\<close>

definition li_items :: "'a layered_iter \<Rightarrow> 'a list" where
  "li_items it = map (li_shadow it) (li_base it) @ li_local it"

lemma li_shadow_base [simp]: "li_shadow (it\<lparr>li_base := b\<rparr>) = li_shadow it"
  by (simp add: li_shadow_def fun_eq_iff)

lemma li_shadow_local [simp]: "li_shadow (it\<lparr>li_local := l\<rparr>) = li_shadow it"
  by (simp add: li_shadow_def fun_eq_iff)

lemma li_items_iter: "li_items (lv_iter v) = lv_list v"
  by (auto simp: li_items_def lv_iter_def lv_list_def li_shadow_def split: option.splits)

lemma map_butlast_last: "xs \<noteq> [] \<Longrightarrow> map f (butlast xs) @ [f (last xs)] = map f xs"
  by (induction xs rule: rev_induct) simp_all

lemma li_next_Some: "li_next it = Some (x, it') \<Longrightarrow> li_items it = x # li_items it'"
  by (auto simp: li_next_def li_items_def split: list.splits)

lemma li_next_None: "li_next it = None \<longleftrightarrow> li_items it = []"
  by (auto simp: li_next_def li_items_def split: list.splits)

lemma li_next_back_Some: "li_next_back it = Some (x, it') \<Longrightarrow> li_items it = li_items it' @ [x]"
  by (auto simp: li_next_back_def li_items_def map_butlast_last split: if_splits)

lemma li_next_back_None: "li_next_back it = None \<longleftrightarrow> li_items it = []"
  by (auto simp: li_next_back_def li_items_def split: if_splits)

text \<open>
  A consumer that draws from either end, one request at a time (\<open>True\<close> the front): what it got
  from the front, what it got from the back in the order drawn, and the iterator left over.
\<close>

fun li_draw :: "bool list \<Rightarrow> 'a layered_iter \<Rightarrow> 'a list \<times> 'a list \<times> 'a layered_iter" where
  "li_draw [] it = ([], [], it)"
| "li_draw (front # rs) it =
     (case (if front then li_next it else li_next_back it) of
        None \<Rightarrow> li_draw rs it
      | Some (x, it') \<Rightarrow> (case li_draw rs it' of (fs, bs, it'') \<Rightarrow>
          if front then (x # fs, bs, it'') else (fs, x # bs, it'')))"

lemma li_draw_items: "li_draw rs it = (fs, bs, it') \<Longrightarrow> li_items it = fs @ li_items it' @ rev bs"
proof (induction rs arbitrary: it fs bs)
  case Nil
  then show ?case by simp
next
  case (Cons r rs)
  then show ?case
    by (cases r) (auto split: option.splits prod.splits dest!: li_next_Some li_next_back_Some)
qed

lemma li_size_hint_items: "li_size_hint it = length (li_items it)"
  by (simp add: li_size_hint_def li_items_def)

section \<open>LayeredMap\<close>

record ('k, 'v) layered_map =
  lm_base :: "('k, 'v) fmap"
  lm_overrides :: "('k, 'v) fmap"
  lm_removed :: "'k fset"
  lm_local :: "('k, 'v) fmap"
  lm_sealed :: bool
  lm_prefix_overrides_enabled :: bool

definition lm_default :: "('k, 'v) layered_map" where [layered_defs]:
  "lm_default = \<lparr>lm_base = fmempty, lm_overrides = fmempty, lm_removed = {||}, lm_local = fmempty,
     lm_sealed = False, lm_prefix_overrides_enabled = False\<rparr>"

definition lm_from :: "('k, 'v) fmap \<Rightarrow> ('k, 'v) layered_map" where [layered_defs]:
  "lm_from m = \<lparr>lm_base = fmempty, lm_overrides = fmempty, lm_removed = {||}, lm_local = m,
     lm_sealed = False, lm_prefix_overrides_enabled = False\<rparr>"

text \<open>\<open>saturating_sub\<close> on \<open>usize\<close> is truncated subtraction on \<open>nat\<close>.\<close>

definition lm_len :: "('k, 'v) layered_map \<Rightarrow> nat" where [layered_defs]:
  "lm_len m = (fmsize (lm_base m) - fcard (lm_removed m)) + fmsize (lm_local m)"

definition lm_is_empty :: "('k, 'v) layered_map \<Rightarrow> bool" where [layered_defs]:
  "lm_is_empty m \<longleftrightarrow> lm_len m = 0"

definition lm_enable_prefix_overrides :: "('k, 'v) layered_map \<Rightarrow> ('k, 'v) layered_map" where [layered_defs]:
  "lm_enable_prefix_overrides m = m\<lparr>lm_prefix_overrides_enabled := True\<rparr>"

definition lm_get :: "('k, 'v) layered_map \<Rightarrow> 'k \<Rightarrow> 'v option" where [layered_defs]:
  "lm_get m k =
     (case fmlookup (lm_overrides m) k of
        Some v \<Rightarrow> Some v
      | None \<Rightarrow>
          (case (if k |\<in>| lm_removed m then None else fmlookup (lm_base m) k) of
             Some v \<Rightarrow> Some v
           | None \<Rightarrow> fmlookup (lm_local m) k))"

definition lm_contains_key :: "('k, 'v) layered_map \<Rightarrow> 'k \<Rightarrow> bool" where [layered_defs]:
  "lm_contains_key m k \<longleftrightarrow>
     (k |\<notin>| lm_removed m \<and> k |\<in>| fmdom (lm_base m)) \<or> k |\<in>| fmdom (lm_local m)"

definition lm_insert_local ::
    "('k, 'v) layered_map \<Rightarrow> 'k \<Rightarrow> 'v \<Rightarrow> string + 'v option \<times> ('k, 'v) layered_map" where [layered_defs]:
  "lm_insert_local m k v =
     (if k |\<in>| fmdom (lm_base m) then
        if lm_prefix_overrides_enabled m then
          let previous = (if k |\<notin>| lm_removed m
             then (case fmlookup (lm_overrides m) k of Some x \<Rightarrow> Some x | None \<Rightarrow> fmlookup (lm_base m) k)
             else None)
          in Inr (previous, m\<lparr>lm_removed := lm_removed m |-| {|k|},
                             lm_overrides := fmupd k v (lm_overrides m)\<rparr>)
        else Inl ''layered map cannot replace a sealed entry''
      else Inr (fmlookup (lm_local m) k, m\<lparr>lm_local := fmupd k v (lm_local m)\<rparr>))"

definition lm_insert_append_only ::
    "('k, 'v) layered_map \<Rightarrow> 'k \<Rightarrow> 'v \<Rightarrow> 'v option \<times> ('k, 'v) layered_map" where [layered_defs]:
  "lm_insert_append_only m k v =
     (case lm_get m k of
        Some existing \<Rightarrow> (Some existing, m)
      | None \<Rightarrow> (case fmlookup (lm_base m) k of
          Some sealed \<Rightarrow> (Some sealed, m)
        | None \<Rightarrow> (fmlookup (lm_local m) k, m\<lparr>lm_local := fmupd k v (lm_local m)\<rparr>)))"

definition lm_remove_local ::
    "('k, 'v) layered_map \<Rightarrow> 'k \<Rightarrow> string + 'v option \<times> ('k, 'v) layered_map" where [layered_defs]:
  "lm_remove_local m k =
     (if k |\<in>| fmdom (lm_base m) then Inl ''layered map cannot remove a sealed entry''
      else Inr (fmlookup (lm_local m) k, m\<lparr>lm_local := fmdrop k (lm_local m)\<rparr>))"

definition lm_remove_visible ::
    "('k, 'v) layered_map \<Rightarrow> 'k \<Rightarrow> string + 'v option \<times> ('k, 'v) layered_map" where [layered_defs]:
  "lm_remove_visible m k =
     (if lm_prefix_overrides_enabled m \<and> k |\<in>| fmdom (lm_base m)
      then Inr (lm_get m k, m\<lparr>lm_overrides := fmdrop k (lm_overrides m),
                              lm_removed := finsert k (lm_removed m)\<rparr>)
      else lm_remove_local m k)"

text \<open>
  \<open>get_or_insert_local_with\<close> returns a mutable reference: the model returns the value behind it,
  the state in which the entry exists, and the write-back into that state.
\<close>

definition lm_get_or_insert_local_with ::
    "('k, 'v) layered_map \<Rightarrow> 'k \<Rightarrow> 'v \<Rightarrow>
     string + 'v \<times> ('k, 'v) layered_map \<times> ('v \<Rightarrow> ('k, 'v) layered_map)" where [layered_defs]:
  "lm_get_or_insert_local_with m k dflt =
     (if k |\<in>| fmdom (lm_base m) then
        if lm_prefix_overrides_enabled m then
          let inherited = (if k |\<in>| lm_removed m then dflt
                else (case fmlookup (lm_base m) k of Some x \<Rightarrow> x | None \<Rightarrow> dflt));
              m' = m\<lparr>lm_removed := lm_removed m |-| {|k|}\<rparr>;
              current = (case fmlookup (lm_overrides m') k of Some x \<Rightarrow> x | None \<Rightarrow> inherited);
              put = (\<lambda>x. m'\<lparr>lm_overrides := fmupd k x (lm_overrides m')\<rparr>)
          in Inr (current, put current, put)
        else Inl ''layered map cannot replace a sealed entry''
      else
        let current = (case fmlookup (lm_local m) k of Some x \<Rightarrow> x | None \<Rightarrow> dflt);
            put = (\<lambda>x. m\<lparr>lm_local := fmupd k x (lm_local m)\<rparr>)
        in Inr (current, put current, put))"

text \<open>
  \<open>iter\<close>: the visible entries. The order of a hash map's iteration is unspecified, so the result
  is the finite map of the entries produced; \<open>lm_iter_layers\<close> keeps the three disjoint runs.
\<close>

definition lm_iter_layers :: "('k, 'v) layered_map \<Rightarrow> ('k, 'v) fmap list" where [layered_defs]:
  "lm_iter_layers m =
     [fmfilter (\<lambda>k. k |\<notin>| fmdom (lm_overrides m) \<and> k |\<notin>| lm_removed m) (lm_base m),
      lm_overrides m, lm_local m]"

definition lm_iter :: "('k, 'v) layered_map \<Rightarrow> ('k, 'v) fmap" where [layered_defs]:
  "lm_iter m = fold (\<lambda>layer acc. acc ++\<^sub>f layer) (lm_iter_layers m) fmempty"

definition lm_changed_layers :: "('k, 'v) layered_map \<Rightarrow> ('k, 'v) fmap list" where [layered_defs]:
  "lm_changed_layers m = [lm_overrides m, lm_local m]"

definition lm_clear_local :: "('k, 'v) layered_map \<Rightarrow> ('k, 'v) layered_map" where [layered_defs]:
  "lm_clear_local m = m\<lparr>lm_overrides := fmempty, lm_removed := {||}, lm_local := fmempty\<rparr>"

definition lm_freeze_as_base :: "('k, 'v) layered_map \<Rightarrow> string + ('k, 'v) layered_map" where [layered_defs]:
  "lm_freeze_as_base m =
     (if lm_sealed m \<or> lm_base m \<noteq> fmempty \<or> lm_overrides m \<noteq> fmempty \<or> lm_removed m \<noteq> {||}
      then Inl ''layered map is already sealed''
      else Inr (m\<lparr>lm_base := lm_local m, lm_local := fmempty, lm_sealed := True,
        lm_prefix_overrides_enabled := False\<rparr>))"

definition lm_fork_delta :: "('k, 'v) layered_map \<Rightarrow> string + ('k, 'v) layered_map" where [layered_defs]:
  "lm_fork_delta m =
     (if \<not> lm_sealed m then Inl ''layered map base is not sealed''
      else if lm_local m \<noteq> fmempty \<or> lm_overrides m \<noteq> fmempty \<or> lm_removed m \<noteq> {||}
      then Inl ''layered map has an unpublished suffix''
      else Inr \<lparr>lm_base = lm_base m, lm_overrides = fmempty, lm_removed = {||}, lm_local = fmempty,
        lm_sealed = True, lm_prefix_overrides_enabled = False\<rparr>)"

definition lm_fork_sparse_delta :: "('k, 'v) layered_map \<Rightarrow> string + ('k, 'v) layered_map" where [layered_defs]:
  "lm_fork_sparse_delta m =
     and_then (lm_fork_delta m) (\<lambda>delta. Inr (delta\<lparr>lm_prefix_overrides_enabled := True\<rparr>))"

text \<open>\<open>Extend::extend\<close>: refused entries are skipped silently.\<close>

fun lm_extend :: "('k, 'v) layered_map \<Rightarrow> ('k \<times> 'v) list \<Rightarrow> ('k, 'v) layered_map" where
  "lm_extend m [] = m"
| "lm_extend m ((k, v) # rest) =
     lm_extend (case lm_insert_local m k v of Inl _ \<Rightarrow> m | Inr (_, m') \<Rightarrow> m') rest"

text \<open>
  Overrides and removals concern prefix keys only and exclude each other, local keys are not
  prefix keys, an unsealed map has no prefix, and the prefix is only shadowed in a sparse epoch.
\<close>

definition lm_ok :: "('k, 'v) layered_map \<Rightarrow> 'k \<Rightarrow> bool" where
  "lm_ok m k \<longleftrightarrow>
     (fmlookup (lm_overrides m) k \<noteq> None \<longrightarrow>
        fmlookup (lm_base m) k \<noteq> None \<and> k |\<notin>| lm_removed m \<and> lm_prefix_overrides_enabled m) \<and>
     (k |\<in>| lm_removed m \<longrightarrow> fmlookup (lm_base m) k \<noteq> None \<and> lm_prefix_overrides_enabled m) \<and>
     (fmlookup (lm_local m) k \<noteq> None \<longrightarrow> fmlookup (lm_base m) k = None) \<and>
     (\<not> lm_sealed m \<longrightarrow> fmlookup (lm_base m) k = None)"

definition lm_inv :: "('k, 'v) layered_map \<Rightarrow> bool" where
  "lm_inv m \<longleftrightarrow> (\<forall>k. lm_ok m k)"

lemma lm_okD: "lm_inv m \<Longrightarrow> lm_ok m k"
  by (simp add: lm_inv_def)

lemma lm_inv_default [simp]: "lm_inv lm_default"
  by (simp add: lm_inv_def lm_ok_def lm_default_def)

lemma lm_get_default [simp]: "lm_get lm_default k = None"
  by (simp add: lm_get_def lm_default_def)

lemma lm_contains_key_get: "lm_inv m \<Longrightarrow> lm_contains_key m k \<longleftrightarrow> lm_get m k \<noteq> None"
  using lm_okD [of m k]
  by (auto simp: lm_ok_def lm_contains_key_def lm_get_def fmdom_lookup split: option.splits)

text \<open>
  Every write has one of three effects: an override of a prefix entry, the removal of a prefix
  entry, or a change of the local layer at a key the prefix does not own.
\<close>

abbreviation lm_override :: "('k, 'v) layered_map \<Rightarrow> 'k \<Rightarrow> 'v \<Rightarrow> ('k, 'v) layered_map" where
  "lm_override m k v \<equiv>
     m\<lparr>lm_removed := lm_removed m |-| {|k|}, lm_overrides := fmupd k v (lm_overrides m)\<rparr>"

abbreviation lm_unlink :: "('k, 'v) layered_map \<Rightarrow> 'k \<Rightarrow> ('k, 'v) layered_map" where
  "lm_unlink m k \<equiv> m\<lparr>lm_overrides := fmdrop k (lm_overrides m), lm_removed := finsert k (lm_removed m)\<rparr>"

lemma lm_override_effect:
  assumes "lm_inv m" "fmlookup (lm_base m) k \<noteq> None" "lm_prefix_overrides_enabled m"
  shows "lm_get (lm_override m k v) = (lm_get m)(k := Some v)" and "lm_inv (lm_override m k v)"
proof -
  show "lm_get (lm_override m k v) = (lm_get m)(k := Some v)"
    by (auto simp: fun_eq_iff lm_get_def split: option.splits)
  have "lm_ok (lm_override m k v) j" for j
    using assms(2,3) lm_okD [OF assms(1), of j] by (cases "j = k") (auto simp: lm_ok_def)
  then show "lm_inv (lm_override m k v)" by (simp add: lm_inv_def)
qed

lemma lm_unlink_effect:
  assumes "lm_inv m" "fmlookup (lm_base m) k \<noteq> None" "lm_prefix_overrides_enabled m"
  shows "lm_get (lm_unlink m k) = (lm_get m)(k := None)" and "lm_inv (lm_unlink m k)"
proof -
  have "fmlookup (lm_local m) k = None"
    using lm_okD [OF assms(1), of k] assms(2) by (auto simp: lm_ok_def)
  then show "lm_get (lm_unlink m k) = (lm_get m)(k := None)"
    by (auto simp: fun_eq_iff lm_get_def split: option.splits)
  have "lm_ok (lm_unlink m k) j" for j
    using assms(2,3) lm_okD [OF assms(1), of j] by (cases "j = k") (auto simp: lm_ok_def)
  then show "lm_inv (lm_unlink m k)" by (simp add: lm_inv_def)
qed

lemma lm_local_effect:
  assumes "lm_inv m" "fmlookup (lm_base m) k = None"
  shows "lm_get m k = fmlookup (lm_local m) k"
    and "lm_get (m\<lparr>lm_local := fmupd k v (lm_local m)\<rparr>) = (lm_get m)(k := Some v)"
    and "lm_get (m\<lparr>lm_local := fmdrop k (lm_local m)\<rparr>) = (lm_get m)(k := None)"
    and "lm_inv (m\<lparr>lm_local := fmupd k v (lm_local m)\<rparr>)"
    and "lm_inv (m\<lparr>lm_local := fmdrop k (lm_local m)\<rparr>)"
proof -
  have ov: "fmlookup (lm_overrides m) k = None"
    using lm_okD [OF assms(1), of k] assms(2) by (auto simp: lm_ok_def)
  then show "lm_get m k = fmlookup (lm_local m) k"
    by (simp add: lm_get_def assms(2))
  show "lm_get (m\<lparr>lm_local := fmupd k v (lm_local m)\<rparr>) = (lm_get m)(k := Some v)"
    and "lm_get (m\<lparr>lm_local := fmdrop k (lm_local m)\<rparr>) = (lm_get m)(k := None)"
    using ov by (auto simp: fun_eq_iff lm_get_def assms(2) split: option.splits)
  have "lm_ok (m\<lparr>lm_local := fmupd k v (lm_local m)\<rparr>) j" "lm_ok (m\<lparr>lm_local := fmdrop k (lm_local m)\<rparr>) j" for j
    using assms(2) lm_okD [OF assms(1), of j] by (cases "j = k"; auto simp: lm_ok_def)+
  then show "lm_inv (m\<lparr>lm_local := fmupd k v (lm_local m)\<rparr>)"
    and "lm_inv (m\<lparr>lm_local := fmdrop k (lm_local m)\<rparr>)"
    by (simp_all add: lm_inv_def)
qed

lemma lm_get_prefix:
  assumes "lm_inv m" "fmlookup (lm_base m) k \<noteq> None"
  shows "lm_get m k = (if k |\<in>| lm_removed m then None
    else case fmlookup (lm_overrides m) k of Some x \<Rightarrow> Some x | None \<Rightarrow> fmlookup (lm_base m) k)"
  using lm_okD [OF assms(1), of k] assms(2) by (auto simp: lm_ok_def lm_get_def split: option.splits)

lemma lm_insert_get:
  assumes "lm_inv m" "lm_insert_local m k v = Inr (prev, m')"
  shows "lm_get m' = (lm_get m)(k := Some v) \<and> prev = lm_get m k \<and> lm_inv m'"
proof (cases "fmlookup (lm_base m) k = None")
  case True
  with assms(2) have "prev = fmlookup (lm_local m) k" "m' = m\<lparr>lm_local := fmupd k v (lm_local m)\<rparr>"
    by (simp_all add: lm_insert_local_def fmdom_lookup)
  then show ?thesis using lm_local_effect [OF assms(1) True] by simp
next
  case False
  with assms(2) have "lm_prefix_overrides_enabled m" "m' = lm_override m k v" "prev = lm_get m k"
    using lm_get_prefix [OF assms(1) False]
    by (auto simp: lm_insert_local_def fmdom_lookup Let_def split: if_splits)
  then show ?thesis using lm_override_effect [OF assms(1) False] by simp
qed

lemma lm_insert_refused:
  "(\<exists>e. lm_insert_local m k v = Inl e) \<longleftrightarrow>
     fmlookup (lm_base m) k \<noteq> None \<and> \<not> lm_prefix_overrides_enabled m"
  by (auto simp: lm_insert_local_def Let_def fmdom_lookup)

lemma lm_remove_visible_get:
  assumes "lm_inv m" "lm_remove_visible m k = Inr (prev, m')"
  shows "lm_get m' = (lm_get m)(k := None) \<and> prev = lm_get m k \<and> lm_inv m'"
proof (cases "fmlookup (lm_base m) k = None")
  case True
  with assms(2) have "prev = fmlookup (lm_local m) k" "m' = m\<lparr>lm_local := fmdrop k (lm_local m)\<rparr>"
    by (simp_all add: lm_remove_visible_def lm_remove_local_def fmdom_lookup)
  then show ?thesis using lm_local_effect [OF assms(1) True] by simp
next
  case False
  with assms(2) have "lm_prefix_overrides_enabled m" "m' = lm_unlink m k" "prev = lm_get m k"
    by (auto simp: lm_remove_visible_def lm_remove_local_def fmdom_lookup split: if_splits)
  then show ?thesis using lm_unlink_effect [OF assms(1) False] by simp
qed

lemma lm_remove_local_visible:
  "lm_remove_local m k = Inr r \<Longrightarrow> lm_remove_visible m k = Inr r"
  by (auto simp: lm_remove_local_def lm_remove_visible_def split: if_splits)

lemmas lm_remove_get = lm_remove_visible_get [OF _ lm_remove_local_visible]

lemma lm_get_or_insert_get:
  assumes "lm_inv m" "lm_get_or_insert_local_with m k d = Inr (x, m', put)"
  shows "x = (case lm_get m k of Some y \<Rightarrow> y | None \<Rightarrow> d) \<and> m' = put x \<and>
    lm_get (put y) = (lm_get m)(k := Some y) \<and> lm_inv (put y)"
proof (cases "fmlookup (lm_base m) k = None")
  case True
  with assms(2) have "x = (case fmlookup (lm_local m) k of Some y \<Rightarrow> y | None \<Rightarrow> d)"
      "put = (\<lambda>x. m\<lparr>lm_local := fmupd k x (lm_local m)\<rparr>)" "m' = put x"
    by (auto simp: lm_get_or_insert_local_with_def fmdom_lookup Let_def)
  then show ?thesis using lm_local_effect [OF assms(1) True] by simp
next
  case False
  then have "put = lm_override m k" "m' = put x" "lm_prefix_overrides_enabled m"
      "x = (case fmlookup (lm_overrides m) k of Some y \<Rightarrow> y | None \<Rightarrow>
         if k |\<in>| lm_removed m then d else the (fmlookup (lm_base m) k))"
    using assms(2)
    by (auto simp: lm_get_or_insert_local_with_def fmdom_lookup Let_def split: if_splits option.splits)
  moreover have "k |\<in>| lm_removed m \<Longrightarrow> fmlookup (lm_overrides m) k = None"
    using lm_okD [OF assms(1), of k] by (auto simp: lm_ok_def)
  ultimately show ?thesis
    using False lm_get_prefix [OF assms(1) False] lm_override_effect [OF assms(1) False]
    by (auto split: option.splits)
qed

text \<open>\<open>iter\<close> enumerates exactly the entries \<open>get\<close> sees, each in one of three disjoint layers.\<close>

lemma lm_iter_get:
  assumes "lm_inv m"
  shows "lm_get m k = Some v \<longleftrightarrow> (\<exists>layer \<in> set (lm_iter_layers m). fmlookup layer k = Some v)"
  using lm_okD [OF assms, of k]
  by (auto simp: lm_ok_def lm_iter_layers_def lm_get_def fmdom_lookup split: option.splits if_splits)

lemma lm_iter_disjoint:
  assumes "lm_inv m" "i < length (lm_iter_layers m)" "j < length (lm_iter_layers m)"
    "fmlookup (lm_iter_layers m ! i) k \<noteq> None" "fmlookup (lm_iter_layers m ! j) k \<noteq> None"
  shows "i = j"
  using assms(2-) lm_okD [OF assms(1), of k]
  by (auto simp: lm_ok_def lm_iter_layers_def less_Suc_eq_0_disj fmdom_lookup split: if_splits)

lemma lm_iter_lookup: "lm_inv m \<Longrightarrow> fmlookup (lm_iter m) = lm_get m"
proof
  fix k
  assume "lm_inv m"
  from lm_okD [OF this, of k] show "fmlookup (lm_iter m) k = lm_get m k"
    by (auto simp: lm_ok_def lm_iter_def lm_iter_layers_def lm_get_def fmdom_lookup
        split: option.splits if_splits)
qed

lemma lm_len_card: "lm_inv m \<Longrightarrow> lm_len m = card {k. lm_get m k \<noteq> None}"
proof -
  assume inv: "lm_inv m"
  let ?B = "fset (fmdom (lm_base m))" and ?R = "fset (lm_removed m)" and ?L = "fset (fmdom (lm_local m))"
  have "{k. lm_get m k \<noteq> None} = (?B - ?R) \<union> ?L"
    using lm_contains_key_get [OF inv] by (auto simp: lm_contains_key_def)
  moreover have "(?B - ?R) \<inter> ?L = {}" "?R \<subseteq> ?B"
    using lm_okD [OF inv] by (auto simp: lm_ok_def fmdom_lookup)
  ultimately have "card {k. lm_get m k \<noteq> None} = card (?B - ?R) + card ?L"
    by (simp add: card_Un_disjoint)
  also have "card (?B - ?R) = card ?B - card ?R"
    using \<open>?R \<subseteq> ?B\<close> by (simp add: card_Diff_subset)
  finally show ?thesis by (simp add: lm_len_def fmsize_def fcard.rep_eq)
qed

lemma lm_freeze_get: "lm_inv m \<Longrightarrow> lm_freeze_as_base m = Inr w \<Longrightarrow>
    lm_get w = lm_get m \<and> lm_inv w \<and> lm_sealed w \<and> lm_local w = fmempty \<and> \<not> lm_prefix_overrides_enabled w"
  by (auto simp: lm_freeze_as_base_def lm_get_def lm_inv_def lm_ok_def fun_eq_iff
      split: if_splits option.splits)

lemma lm_freeze_defined: "lm_inv m \<Longrightarrow> \<not> lm_sealed m \<Longrightarrow> \<exists>w. lm_freeze_as_base m = Inr w"
proof -
  assume "lm_inv m" "\<not> lm_sealed m"
  then have "lm_ok m k" "fmlookup (lm_base m) k = None" for k by (auto simp: lm_inv_def lm_ok_def)
  then have "lm_base m = fmempty" "lm_overrides m = fmempty" "lm_removed m = {||}"
    by (auto simp: fmap_eq_empty_iff lm_ok_def fset_eq_iff)
  with \<open>\<not> lm_sealed m\<close> show ?thesis by (simp add: lm_freeze_as_base_def)
qed

lemma lm_fork_get: "lm_fork_delta m = Inr w \<Longrightarrow>
    lm_get w = lm_get m \<and> lm_inv w \<and> lm_sealed w \<and> lm_base w = lm_base m \<and> lm_local w = fmempty"
  by (auto simp: lm_fork_delta_def lm_get_def lm_inv_def lm_ok_def fun_eq_iff split: if_splits option.splits)

subsection \<open>Interface: a map whose sealed entries refuse writes\<close>

locale guarded_map =
  fixes get :: "'m \<Rightarrow> 'k \<Rightarrow> 'v option"
    and insert :: "'m \<Rightarrow> 'k \<Rightarrow> 'v \<Rightarrow> 'e + 'v option \<times> 'm"
    and remove :: "'m \<Rightarrow> 'k \<Rightarrow> 'e + 'v option \<times> 'm"
    and inv :: "'m \<Rightarrow> bool"
  assumes insert_law: "inv m \<Longrightarrow> insert m k v = Inr (prev, m') \<Longrightarrow>
      get m' = (get m)(k := Some v) \<and> prev = get m k \<and> inv m'"
    and remove_law: "inv m \<Longrightarrow> remove m k = Inr (prev, m') \<Longrightarrow>
      get m' = (get m)(k := None) \<and> prev = get m k \<and> inv m'"
begin

lemma get_inserted: "inv m \<Longrightarrow> insert m k v = Inr (prev, m') \<Longrightarrow> get m' k = Some v"
  using insert_law by fastforce

lemma get_other: "inv m \<Longrightarrow> insert m k v = Inr (prev, m') \<Longrightarrow> j \<noteq> k \<Longrightarrow> get m' j = get m j"
  using insert_law by fastforce

lemma remove_inserted:
  assumes "inv m" "insert m k v = Inr (prev, m')" "remove m' k = Inr (prev', m'')" "get m k = None"
  shows "get m'' = get m" and "prev' = Some v"
  using insert_law [OF assms(1,2)] remove_law [of m' k prev' m''] assms(3,4) by (auto simp: fun_eq_iff)

end

interpretation lmap: guarded_map lm_get lm_insert_local lm_remove_local lm_inv
  by unfold_locales (rule lm_insert_get lm_remove_get, assumption+)+

interpretation lmap_sparse: guarded_map lm_get lm_insert_local lm_remove_visible lm_inv
  by unfold_locales (rule lm_insert_get lm_remove_visible_get, assumption+)+

section \<open>LayeredSet\<close>

record 'a layered_set =
  ls_base :: "'a fset"
  ls_local :: "'a fset"
  ls_sealed :: bool

definition ls_default :: "'a layered_set" where [layered_defs]:
  "ls_default = \<lparr>ls_base = {||}, ls_local = {||}, ls_sealed = False\<rparr>"

definition ls_contains :: "'a layered_set \<Rightarrow> 'a \<Rightarrow> bool" where [layered_defs]:
  "ls_contains s x \<longleftrightarrow> x |\<in>| ls_base s \<or> x |\<in>| ls_local s"

definition ls_insert_local :: "'a layered_set \<Rightarrow> 'a \<Rightarrow> string + bool \<times> 'a layered_set" where [layered_defs]:
  "ls_insert_local s x =
     (if x |\<in>| ls_base s then Inl ''layered set cannot replace a sealed entry''
      else Inr (x |\<notin>| ls_local s, s\<lparr>ls_local := finsert x (ls_local s)\<rparr>))"

definition ls_items :: "'a layered_set \<Rightarrow> 'a fset" where [layered_defs]:
  "ls_items s = ls_base s |\<union>| ls_local s"

definition ls_freeze_as_base :: "'a layered_set \<Rightarrow> string + 'a layered_set" where [layered_defs]:
  "ls_freeze_as_base s =
     (if ls_sealed s \<or> ls_base s \<noteq> {||} then Inl ''layered set is already sealed''
      else Inr (s\<lparr>ls_base := ls_local s, ls_local := {||}, ls_sealed := True\<rparr>))"

definition ls_fork_delta :: "'a layered_set \<Rightarrow> string + 'a layered_set" where [layered_defs]:
  "ls_fork_delta s =
     (if \<not> ls_sealed s then Inl ''layered set base is not sealed''
      else if ls_local s \<noteq> {||} then Inl ''layered set has an unpublished suffix''
      else Inr \<lparr>ls_base = ls_base s, ls_local = {||}, ls_sealed = True\<rparr>)"

definition ls_inv :: "'a layered_set \<Rightarrow> bool" where
  "ls_inv s \<longleftrightarrow> ls_base s |\<inter>| ls_local s = {||} \<and> (\<not> ls_sealed s \<longrightarrow> ls_base s = {||})"

lemma ls_inv_default [simp]: "ls_inv ls_default"
  by (simp add: ls_inv_def ls_default_def)

lemma ls_contains_default [simp]: "\<not> ls_contains ls_default x"
  by (simp add: ls_contains_def ls_default_def)

lemma ls_insert_contains:
  "ls_inv s \<Longrightarrow> ls_insert_local s x = Inr (fresh, s') \<Longrightarrow>
     ls_inv s' \<and> (fresh \<longleftrightarrow> \<not> ls_contains s x) \<and> ls_contains s' = (ls_contains s)(x := True)"
  by (auto simp: ls_insert_local_def ls_inv_def ls_contains_def fun_eq_iff split: if_splits)

lemma ls_insert_refused: "(\<exists>e. ls_insert_local s x = Inl e) \<longleftrightarrow> x |\<in>| ls_base s"
  by (auto simp: ls_insert_local_def)

lemma ls_freeze_contains: "ls_inv s \<Longrightarrow> ls_freeze_as_base s = Inr w \<Longrightarrow>
    ls_contains w = ls_contains s \<and> ls_inv w \<and> ls_sealed w \<and> ls_local w = {||}"
  by (auto simp: ls_freeze_as_base_def ls_contains_def ls_inv_def fun_eq_iff split: if_splits)

lemma ls_freeze_defined: "ls_inv s \<Longrightarrow> \<not> ls_sealed s \<Longrightarrow> \<exists>w. ls_freeze_as_base s = Inr w"
  by (simp add: ls_freeze_as_base_def ls_inv_def)

lemma ls_fork_contains: "ls_fork_delta s = Inr w \<Longrightarrow>
    ls_contains w = ls_contains s \<and> ls_inv w \<and> ls_sealed w \<and> ls_base w = ls_base s"
  by (auto simp: ls_fork_delta_def ls_contains_def ls_inv_def fun_eq_iff split: if_splits)

section \<open>Properties\<close>

text \<open>
  A layered vector is its visible sequence. Reading is indexing, appending extends it, a write
  through \<open>get_mut_local\<close> changes one element (and is offered exactly for a local index, or any index
  when overrides are enabled), sealing and forking leave it alone, and a fork starts with an empty
  local layer over the same base.
\<close>

theorem layered_vec_refines_list:
  assumes inv: "lv_inv v"
  shows "lv_get v i = nth_opt (lv_list v) i \<and> lv_len v = length (lv_list v) \<and>
    lv_list (snd (lv_push_local v x)) = lv_list v @ [x] \<and> lv_inv (snd (lv_push_local v x)) \<and>
    (lv_get_mut_local v i \<noteq> None \<longleftrightarrow> i < lv_len v \<and> (lv_base_len v \<le> i \<or> lv_prefix_overrides_enabled v)) \<and>
    (\<forall>y put. lv_get_mut_local v i = Some (y, put) \<longrightarrow>
       lv_get v i = Some y \<and> lv_list (put z) = (lv_list v)[i := z] \<and> lv_inv (put z)) \<and>
    (\<forall>w. lv_freeze_as_base v = Inr w \<longrightarrow> lv_list w = lv_list v \<and> lv_inv w \<and> lv_sealed w) \<and>
    (\<forall>w. lv_fork_delta v = Inr w \<longrightarrow> lv_list w = lv_list v \<and> lv_inv w \<and> lv_base w = lv_base v \<and> lv_local w = [])"
proof (intro conjI)
  show "\<forall>y put. lv_get_mut_local v i = Some (y, put) \<longrightarrow>
      lv_get v i = Some y \<and> lv_list (put z) = (lv_list v)[i := z] \<and> lv_inv (put z)"
    by (intro allI impI conjI lv_get_mut_get, assumption)
      (erule lv_get_mut_list lv_get_mut_inv [OF inv])+
  show "\<forall>w. lv_freeze_as_base v = Inr w \<longrightarrow> lv_list w = lv_list v \<and> lv_inv w \<and> lv_sealed w"
    by (intro allI impI) (drule lv_freeze_list [OF inv], blast)
  show "\<forall>w. lv_fork_delta v = Inr w \<longrightarrow> lv_list w = lv_list v \<and> lv_inv w \<and> lv_base w = lv_base v \<and> lv_local w = []"
    by (intro allI impI) (drule lv_fork_list, blast)
qed (rule lv_get_list length_lv_list [symmetric] lv_list_push lv_inv_push [OF inv] lv_get_mut_defined)+

theorem layered_vec_refines_list_witness:
  "lv_inv (lv_from_vec [7, 8 :: nat]) \<and> lv_get (lv_from_vec [7, 8 :: nat]) 1 = Some 8 \<and>
    lv_list (snd (lv_push_local (lv_from_vec [7, 8 :: nat]) 9)) = [7, 8, 9]"
proof -
  have v: "lv_inv (lv_from_vec [7, 8 :: nat])" "lv_list (lv_from_vec [7, 8 :: nat]) = [7, 8]"
    by (simp_all add: lv_inv_def lv_from_vec_def lv_list_def)
  then show ?thesis using layered_vec_refines_list [OF v(1), of 1 9] by (simp add: nth_opt_def)
qed

text \<open>
  the double-ended iterator of a layered vector yields the visible sequence: whatever the
  interleaving of draws from the two ends, what came from the front, what is left and what came
  from the back (reversed) make up the sequence, and the size hint is what is left.
\<close>

theorem layered_iter_draws:
  "case li_draw ends (lv_iter v) of (fronts, rears, rest) \<Rightarrow>
     lv_list v = fronts @ li_items rest @ rev rears \<and>
     li_size_hint rest = lv_len v - length fronts - length rears"
proof -
  obtain fronts rears rest where d: "li_draw ends (lv_iter v) = (fronts, rears, rest)" by (metis prod_cases3)
  from li_draw_items [OF d] have l: "lv_list v = fronts @ li_items rest @ rev rears" by (simp add: li_items_iter)
  then have "lv_len v = length fronts + length (li_items rest) + length rears"
    by (simp flip: length_lv_list)
  then show ?thesis using d l by (simp add: li_size_hint_items)
qed

text \<open>
  C36: a layered map is a map. An insert that is accepted sets exactly its key and returns the value
  that was visible, a removal (of a local key, or of any key in sparse mode) unsets exactly its key,
  an insert is refused exactly when it would replace a sealed entry without overrides, and iteration
  enumerates every visible entry once.
\<close>

theorem layered_map_refines_map:
  assumes inv: "lm_inv m"
  shows "(\<forall>prev m'. lm_insert_local m k v = Inr (prev, m') \<longrightarrow> lm_get m' = (lm_get m)(k \<mapsto> v) \<and> prev = lm_get m k \<and> lm_inv m') \<and>
    ((\<exists>e. lm_insert_local m k v = Inl e) \<longleftrightarrow> fmlookup (lm_base m) k \<noteq> None \<and> \<not> lm_prefix_overrides_enabled m) \<and>
    (\<forall>prev m'. lm_remove_visible m k = Inr (prev, m') \<longrightarrow> lm_get m' = (lm_get m)(k := None) \<and> prev = lm_get m k \<and> lm_inv m') \<and>
    fmlookup (lm_iter m) = lm_get m \<and> lm_len m = card {k. lm_get m k \<noteq> None} \<and>
    (lm_contains_key m k \<longleftrightarrow> lm_get m k \<noteq> None)"
  using lm_insert_get [OF inv, of k v] lm_insert_refused [of m k v] lm_remove_visible_get [OF inv, of k]
    lm_iter_lookup [OF inv] lm_len_card [OF inv] lm_contains_key_get [OF inv, of k] by blast

theorem layered_map_refines_map_witness:
  "lm_inv (lm_default :: (nat, nat) layered_map) \<and>
   (\<exists>m'. lm_insert_local lm_default (1 :: nat) (2 :: nat) = Inr (None, m') \<and> lm_get m' 1 = Some 2 \<and> lm_get m' 3 = None)"
proof -
  have "\<not> (\<exists>e. lm_insert_local lm_default (1 :: nat) (2 :: nat) = Inl e)"
    using layered_map_refines_map [OF lm_inv_default, of "1 :: nat" "2 :: nat"] by (auto simp: lm_default_def)
  then obtain prev m' where m': "lm_insert_local lm_default (1 :: nat) (2 :: nat) = Inr (prev, m')"
    by (cases "lm_insert_local lm_default (1 :: nat) (2 :: nat)") auto
  then show ?thesis using layered_map_refines_map [OF lm_inv_default, of "1 :: nat" "2 :: nat"] by auto
qed

end
