(* ===== verification/Repr.thy ===== *)
theory Repr
  imports Prelude "HOL-Library.Char_ord" "HOL-Library.List_Lexorder"
begin

text \<open>
  Crate \<^verbatim>\<open>typokat-types\<close>, module \<^verbatim>\<open>types/repr.rs\<close>: the payloads of the type arena. A struct is a
  record, an enum a datatype with the source's variants (prefixed, since many names are HOL's),
  \<open>String\<close> its UTF-8 bytes as a \<open>string\<close>. A number literal is its \<open>f64\<close> bit pattern, and the
  derived \<open>PartialEq\<close> on it is IEEE equality, not equality of bit patterns.
\<close>

type_synonym type_id = u32
type_synonym class_id = u32
type_synonym type_param_id = u32
type_synonym declared_recipe_id = u32

section \<open>Tags and intrinsics\<close>

datatype type_tag =
    Tag_Intrinsic | Tag_Literal | Tag_Object | Tag_Union | Tag_Intersection | Tag_Function
     | Tag_TypeParam | Tag_Array | Tag_Tuple | Tag_Readonly | Tag_Conditional
     | Tag_Instantiation | Tag_Infer | Tag_Mapped | Tag_MappedValue | Tag_Template | Tag_Keyof
     | Tag_ClassInstance | Tag_DeferredIndexedAccess | Tag_Declared

fun discriminant :: "type_tag \<Rightarrow> u8" where
  "discriminant Tag_Intrinsic = 0"
| "discriminant Tag_Literal = 1"
| "discriminant Tag_Object = 2"
| "discriminant Tag_Union = 3"
| "discriminant Tag_Intersection = 4"
| "discriminant Tag_Function = 5"
| "discriminant Tag_TypeParam = 6"
| "discriminant Tag_Array = 7"
| "discriminant Tag_Tuple = 8"
| "discriminant Tag_Readonly = 9"
| "discriminant Tag_Conditional = 10"
| "discriminant Tag_Instantiation = 11"
| "discriminant Tag_Infer = 12"
| "discriminant Tag_Mapped = 13"
| "discriminant Tag_MappedValue = 14"
| "discriminant Tag_Template = 15"
| "discriminant Tag_Keyof = 16"
| "discriminant Tag_ClassInstance = 17"
| "discriminant Tag_DeferredIndexedAccess = 18"
| "discriminant Tag_Declared = 19"

definition has_side_table :: "type_tag \<Rightarrow> bool" where
  "has_side_table t \<longleftrightarrow> t \<noteq> Tag_Intrinsic"

datatype intrinsic_kind =
    Kind_Error | Kind_Any | Kind_Unknown | Kind_Never | Kind_Void | Kind_Null | Kind_Undefined
     | Kind_Boolean | Kind_Number | Kind_String | Kind_Uppercase | Kind_Lowercase
     | Kind_Capitalize | Kind_Uncapitalize | Kind_ThisType | Kind_OmitThisParameter
     | Kind_Object | Kind_BigInt | Kind_Symbol

text \<open>\<open>IntrinsicKind::ALL\<close>: the canonical interning order.\<close>

definition intrinsic_all :: "intrinsic_kind list" where
  "intrinsic_all =
     [Kind_Error, Kind_Any, Kind_Unknown, Kind_Never, Kind_Void, Kind_Null, Kind_Undefined
     , Kind_Boolean, Kind_Number, Kind_String, Kind_Uppercase, Kind_Lowercase, Kind_Capitalize
     , Kind_Uncapitalize, Kind_ThisType, Kind_OmitThisParameter, Kind_Object, Kind_BigInt
     , Kind_Symbol]"

text \<open>\<open>kind as u32\<close>.\<close>

fun intrinsic_code :: "intrinsic_kind \<Rightarrow> u32" where
  "intrinsic_code Kind_Error = 0"
| "intrinsic_code Kind_Any = 1"
| "intrinsic_code Kind_Unknown = 2"
| "intrinsic_code Kind_Never = 3"
| "intrinsic_code Kind_Void = 4"
| "intrinsic_code Kind_Null = 5"
| "intrinsic_code Kind_Undefined = 6"
| "intrinsic_code Kind_Boolean = 7"
| "intrinsic_code Kind_Number = 8"
| "intrinsic_code Kind_String = 9"
| "intrinsic_code Kind_Uppercase = 10"
| "intrinsic_code Kind_Lowercase = 11"
| "intrinsic_code Kind_Capitalize = 12"
| "intrinsic_code Kind_Uncapitalize = 13"
| "intrinsic_code Kind_ThisType = 14"
| "intrinsic_code Kind_OmitThisParameter = 15"
| "intrinsic_code Kind_Object = 16"
| "intrinsic_code Kind_BigInt = 17"
| "intrinsic_code Kind_Symbol = 18"

fun display_name :: "intrinsic_kind \<Rightarrow> string" where
  "display_name Kind_Error = ''any''"
| "display_name Kind_Any = ''any''"
| "display_name Kind_Unknown = ''unknown''"
| "display_name Kind_Never = ''never''"
| "display_name Kind_Void = ''void''"
| "display_name Kind_Null = ''null''"
| "display_name Kind_Undefined = ''undefined''"
| "display_name Kind_Boolean = ''boolean''"
| "display_name Kind_Number = ''number''"
| "display_name Kind_String = ''string''"
| "display_name Kind_Uppercase = ''Uppercase''"
| "display_name Kind_Lowercase = ''Lowercase''"
| "display_name Kind_Capitalize = ''Capitalize''"
| "display_name Kind_Uncapitalize = ''Uncapitalize''"
| "display_name Kind_ThisType = ''ThisType''"
| "display_name Kind_OmitThisParameter = ''OmitThisParameter''"
| "display_name Kind_Object = ''object''"
| "display_name Kind_BigInt = ''bigint''"
| "display_name Kind_Symbol = ''symbol''"

text \<open>The payload of an intrinsic row determines its kind, and \<open>ALL\<close> lists the kinds in code order.\<close>

lemma intrinsic_code_inject: "intrinsic_code a = intrinsic_code b \<longleftrightarrow> a = b"
  by (cases a; cases b; simp)

lemma find_intrinsic_code [simp]: "find (\<lambda>k. intrinsic_code k = intrinsic_code kind) intrinsic_all = Some kind"
  by (cases kind) (simp_all add: intrinsic_all_def)

lemma intrinsic_all_complete: "set intrinsic_all = UNIV" "distinct intrinsic_all"
proof -
  have "k \<in> set intrinsic_all" for k by (cases k) (simp_all add: intrinsic_all_def)
  then show "set intrinsic_all = UNIV" by blast
  show "distinct intrinsic_all" by (simp add: intrinsic_all_def)
qed

lemma intrinsic_all_code: "i < 19 \<Longrightarrow> intrinsic_code (intrinsic_all ! i) = word_of_nat i"
  by (auto simp: intrinsic_all_def less_Suc_eq numeral_eq_Suc)

type_synonym type_flags = u32

definition flags_empty :: type_flags where
  "flags_empty = 0"

definition flags_contains_error :: type_flags where
  "flags_contains_error = push_bit 0 1"

definition flags_contains :: "type_flags \<Rightarrow> type_flags \<Rightarrow> bool" where
  "flags_contains self other \<longleftrightarrow> and self other = other"

section \<open>Literals\<close>

type_synonym f64 = u64

text \<open>An \<open>f64\<close> is a NaN when its exponent bits are all set and its mantissa is not zero.\<close>

definition f64_mantissa :: "f64 \<Rightarrow> u64" where
  "f64_mantissa x = and x 0xFFFFFFFFFFFFF"

definition f64_exponent :: "f64 \<Rightarrow> u64" where
  "f64_exponent x = and (drop_bit 52 x) 0x7FF"

definition f64_is_nan :: "f64 \<Rightarrow> bool" where
  "f64_is_nan x \<longleftrightarrow> f64_exponent x = 0x7FF \<and> f64_mantissa x \<noteq> 0"

definition f64_is_zero :: "f64 \<Rightarrow> bool" where
  "f64_is_zero x \<longleftrightarrow> x = 0 \<or> x = 0x8000000000000000"

text \<open>\<open>==\<close> on \<open>f64\<close>: a NaN differs from everything, the two zeros are equal.\<close>

definition f64_eq :: "f64 \<Rightarrow> f64 \<Rightarrow> bool" where
  "f64_eq x y \<longleftrightarrow>
     \<not> f64_is_nan x \<and> \<not> f64_is_nan y \<and> (x = y \<or> f64_is_zero x \<and> f64_is_zero y)"

datatype well_known_symbol =
    Sym_Iterator | Sym_ToStringTag | Sym_AsyncIterator | Sym_Species | Sym_ToPrimitive
     | Sym_Replace | Sym_Unscopables | Sym_Split | Sym_Search | Sym_Match | Sym_MatchAll
     | Sym_HasInstance

fun symbol_name :: "well_known_symbol \<Rightarrow> string" where
  "symbol_name Sym_Iterator = ''iterator''"
| "symbol_name Sym_ToStringTag = ''toStringTag''"
| "symbol_name Sym_AsyncIterator = ''asyncIterator''"
| "symbol_name Sym_Species = ''species''"
| "symbol_name Sym_ToPrimitive = ''toPrimitive''"
| "symbol_name Sym_Replace = ''replace''"
| "symbol_name Sym_Unscopables = ''unscopables''"
| "symbol_name Sym_Split = ''split''"
| "symbol_name Sym_Search = ''search''"
| "symbol_name Sym_Match = ''match''"
| "symbol_name Sym_MatchAll = ''matchAll''"
| "symbol_name Sym_HasInstance = ''hasInstance''"

text \<open>Declaration order: the derived \<open>Ord\<close> and the derived \<open>Hash\<close> both use it.\<close>

fun symbol_index :: "well_known_symbol \<Rightarrow> nat" where
  "symbol_index Sym_Iterator = 0"
| "symbol_index Sym_ToStringTag = 1"
| "symbol_index Sym_AsyncIterator = 2"
| "symbol_index Sym_Species = 3"
| "symbol_index Sym_ToPrimitive = 4"
| "symbol_index Sym_Replace = 5"
| "symbol_index Sym_Unscopables = 6"
| "symbol_index Sym_Split = 7"
| "symbol_index Sym_Search = 8"
| "symbol_index Sym_Match = 9"
| "symbol_index Sym_MatchAll = 10"
| "symbol_index Sym_HasInstance = 11"

lemma symbol_index_inject: "symbol_index a = symbol_index b \<longleftrightarrow> a = b"
  by (cases a; cases b; simp)

instantiation well_known_symbol :: linorder
begin

definition less_eq_well_known_symbol :: "well_known_symbol \<Rightarrow> well_known_symbol \<Rightarrow> bool" where
  "less_eq_well_known_symbol a b \<longleftrightarrow> symbol_index a \<le> symbol_index b"

definition less_well_known_symbol :: "well_known_symbol \<Rightarrow> well_known_symbol \<Rightarrow> bool" where
  "less_well_known_symbol a b \<longleftrightarrow> symbol_index a < symbol_index b"

instance
  by standard
    (auto simp: less_eq_well_known_symbol_def less_well_known_symbol_def symbol_index_inject [symmetric])

end

datatype literal_value =
    Lit_Number f64 | Lit_String string | Lit_Boolean bool | Lit_WellKnownSymbol well_known_symbol

text \<open>The derived \<open>PartialEq\<close>.\<close>

fun literal_eq :: "literal_value \<Rightarrow> literal_value \<Rightarrow> bool" where
  "literal_eq (Lit_Number x) (Lit_Number y) = f64_eq x y"
| "literal_eq (Lit_String x) (Lit_String y) = (x = y)"
| "literal_eq (Lit_Boolean x) (Lit_Boolean y) = (x = y)"
| "literal_eq (Lit_WellKnownSymbol x) (Lit_WellKnownSymbol y) = (x = y)"
| "literal_eq _ _ = False"

fun base_kind :: "literal_value \<Rightarrow> intrinsic_kind" where
  "base_kind (Lit_Number _) = Kind_Number"
| "base_kind (Lit_String _) = Kind_String"
| "base_kind (Lit_Boolean _) = Kind_Boolean"
| "base_kind (Lit_WellKnownSymbol _) = Kind_Symbol"

definition literal_is_nan :: "literal_value \<Rightarrow> bool" where
  "literal_is_nan l \<longleftrightarrow> (case l of Lit_Number x \<Rightarrow> f64_is_nan x | _ \<Rightarrow> False)"

lemma f64_zero_not_nan [simp]: "f64_is_zero x \<Longrightarrow> \<not> f64_is_nan x"
  by (auto simp: f64_is_zero_def f64_is_nan_def f64_mantissa_def)

lemma literal_eq_refl: "literal_eq l l \<longleftrightarrow> \<not> literal_is_nan l"
  by (cases l) (auto simp: literal_is_nan_def f64_eq_def)

lemma literal_eq_sym: "literal_eq a b \<Longrightarrow> literal_eq b a"
  by (cases a; cases b) (auto simp: f64_eq_def)

lemma literal_eq_trans: "literal_eq a b \<Longrightarrow> literal_eq b c \<Longrightarrow> literal_eq a c"
  by (cases a; cases b; cases c) (auto simp: f64_eq_def)

section \<open>Properties and objects\<close>

datatype visibility = Vis_Public | Vis_Private | Vis_Protected

datatype property_key = Key_String string | Key_WellKnownSymbol well_known_symbol

fun key_as_string :: "property_key \<Rightarrow> string option" where
  "key_as_string (Key_String name) = Some name"
| "key_as_string (Key_WellKnownSymbol _) = None"

fun key_as_well_known_symbol :: "property_key \<Rightarrow> well_known_symbol option" where
  "key_as_well_known_symbol (Key_String _) = None"
| "key_as_well_known_symbol (Key_WellKnownSymbol s) = Some s"

text \<open>\<open>Display\<close>.\<close>

fun key_display :: "property_key \<Rightarrow> string" where
  "key_display (Key_String name) = name"
| "key_display (Key_WellKnownSymbol s) = ''[Symbol.'' @ symbol_name s @ '']''"

text \<open>The derived \<open>Ord\<close>: strings bytewise, before all symbols.\<close>

instantiation property_key :: linorder
begin

fun less_eq_property_key :: "property_key \<Rightarrow> property_key \<Rightarrow> bool" where
  "less_eq_property_key (Key_String a) (Key_String b) = (a \<le> b)"
| "less_eq_property_key (Key_String a) (Key_WellKnownSymbol b) = True"
| "less_eq_property_key (Key_WellKnownSymbol a) (Key_String b) = False"
| "less_eq_property_key (Key_WellKnownSymbol a) (Key_WellKnownSymbol b) = (a \<le> b)"

definition less_property_key :: "property_key \<Rightarrow> property_key \<Rightarrow> bool" where
  "less_property_key a b \<longleftrightarrow> a \<le> b \<and> \<not> b \<le> a"

instance
proof
  fix x y z :: property_key
  show "(x < y) = (x \<le> y \<and> \<not> y \<le> x)" by (rule less_property_key_def)
  show "x \<le> x" by (cases x) simp_all
  show "x \<le> y \<Longrightarrow> y \<le> z \<Longrightarrow> x \<le> z" by (cases x; cases y; cases z) auto
  show "x \<le> y \<Longrightarrow> y \<le> x \<Longrightarrow> x = y" by (cases x; cases y) auto
  show "x \<le> y \<or> y \<le> x" by (cases x; cases y) auto
qed

end

record property_type =
  pr_key :: property_key
  pr_ty :: type_id
  pr_write_ty :: "type_id option"
  pr_optional :: bool
  pr_visibility :: visibility
  pr_declaring_class :: "class_id option"
  pr_readonly :: bool
  pr_is_accessor :: bool

definition property_public :: "string \<Rightarrow> type_id \<Rightarrow> property_type" where
  "property_public name ty = \<lparr>pr_key = Key_String name, pr_ty = ty, pr_write_ty = None,
     pr_optional = False, pr_visibility = Vis_Public, pr_declaring_class = None,
     pr_readonly = False, pr_is_accessor = False\<rparr>"

definition property_well_known_symbol :: "well_known_symbol \<Rightarrow> type_id \<Rightarrow> property_type" where
  "property_well_known_symbol s ty = \<lparr>pr_key = Key_WellKnownSymbol s, pr_ty = ty,
     pr_write_ty = None, pr_optional = False, pr_visibility = Vis_Public,
     pr_declaring_class = None, pr_readonly = False, pr_is_accessor = False\<rparr>"

record object_type =
  ob_properties :: "property_type list"
  ob_string_index :: "type_id option"
  ob_number_index :: "type_id option"
  ob_call_signatures :: "type_id list"
  ob_construct_signatures :: "type_id list"

definition object_default :: object_type where
  "object_default = \<lparr>ob_properties = [], ob_string_index = None, ob_number_index = None,
     ob_call_signatures = [], ob_construct_signatures = []\<rparr>"

definition object_property :: "object_type \<Rightarrow> string \<Rightarrow> property_type option" where
  "object_property ob name =
     find (\<lambda>p. key_as_string (pr_key p) = Some name) (ob_properties ob)"

definition object_property_by_key :: "object_type \<Rightarrow> property_key \<Rightarrow> property_type option" where
  "object_property_by_key ob key = find (\<lambda>p. pr_key p = key) (ob_properties ob)"

section \<open>Functions\<close>

record parameter_type =
  pa_name :: string
  pa_ty :: type_id
  pa_optional :: bool
  pa_has_default :: bool
  pa_rest :: bool

definition parameter_required :: "string \<Rightarrow> type_id \<Rightarrow> parameter_type" where
  "parameter_required name ty =
     \<lparr>pa_name = name, pa_ty = ty, pa_optional = False, pa_has_default = False, pa_rest = False\<rparr>"

definition parameter_optional :: "string \<Rightarrow> type_id \<Rightarrow> parameter_type" where
  "parameter_optional name ty =
     \<lparr>pa_name = name, pa_ty = ty, pa_optional = True, pa_has_default = False, pa_rest = False\<rparr>"

definition parameter_defaulted :: "string \<Rightarrow> type_id \<Rightarrow> parameter_type" where
  "parameter_defaulted name ty =
     \<lparr>pa_name = name, pa_ty = ty, pa_optional = True, pa_has_default = True, pa_rest = False\<rparr>"

definition parameter_rest :: "string \<Rightarrow> type_id \<Rightarrow> parameter_type" where
  "parameter_rest name ty =
     \<lparr>pa_name = name, pa_ty = ty, pa_optional = False, pa_has_default = False, pa_rest = True\<rparr>"

definition is_required_fixed :: "parameter_type \<Rightarrow> bool" where
  "is_required_fixed p \<longleftrightarrow> \<not> pa_rest p \<and> \<not> pa_optional p"

definition is_fixed :: "parameter_type \<Rightarrow> bool" where
  "is_fixed p \<longleftrightarrow> \<not> pa_rest p"

record type_param_type =
  tp_id :: type_param_id
  tp_name :: string

record generic_type_param =
  gp_id :: type_param_id
  gp_constraint :: "type_id option"
  gp_default :: "type_id option"

record function_type =
  fn_type_params :: "generic_type_param list"
  fn_receiver :: "type_id option"
  fn_params :: "parameter_type list"
  fn_ret :: type_id

definition required_param_count :: "function_type \<Rightarrow> nat" where
  "required_param_count f = length (filter is_required_fixed (fn_params f))"

definition total_fixed_param_count :: "function_type \<Rightarrow> nat" where
  "total_fixed_param_count f = length (filter is_fixed (fn_params f))"

definition fixed_params :: "function_type \<Rightarrow> parameter_type list" where
  "fixed_params f = filter is_fixed (fn_params f)"

definition rest_param :: "function_type \<Rightarrow> parameter_type option" where
  "rest_param f = find pa_rest (fn_params f)"

definition has_rest_param :: "function_type \<Rightarrow> bool" where
  "has_rest_param f \<longleftrightarrow> rest_param f \<noteq> None"

lemma required_le_total: "required_param_count f \<le> total_fixed_param_count f"
proof -
  have "length (filter is_required_fixed ps) \<le> length (filter is_fixed ps)" for ps
    by (induction ps) (auto simp: is_required_fixed_def is_fixed_def)
  then show ?thesis by (simp add: required_param_count_def total_fixed_param_count_def)
qed

section \<open>Composite and computed types\<close>

record tuple_rest_type =
  tr_position :: nat
  tr_ty :: type_id

record tuple_type =
  tu_elements :: "type_id list"
  tu_rest :: "tuple_rest_type option"

definition tuple_fixed :: "type_id list \<Rightarrow> tuple_type" where
  "tuple_fixed es = \<lparr>tu_elements = es, tu_rest = None\<rparr>"

definition tuple_with_rest :: "type_id list \<Rightarrow> tuple_rest_type \<Rightarrow> tuple_type" where
  "tuple_with_rest es r = \<lparr>tu_elements = es, tu_rest = Some r\<rparr>"

definition tuple_fixed_len :: "tuple_type \<Rightarrow> nat" where
  "tuple_fixed_len t = length (tu_elements t)"

definition tuple_has_rest :: "tuple_type \<Rightarrow> bool" where
  "tuple_has_rest t \<longleftrightarrow> tu_rest t \<noteq> None"

record conditional_type =
  co_check :: type_id
  co_extends_ty :: type_id
  co_true_branch :: type_id
  co_false_branch :: type_id
  co_infer_count :: u32
  co_distributive :: bool
  co_poisoned :: bool

record instantiation_type =
  in_base :: type_id
  in_args :: "(type_param_id \<times> type_id) list"

record class_instance_type =
  ci_class :: class_id
  ci_args :: "type_id list"

record deferred_indexed_access_type =
  di_object :: type_id
  di_index :: type_id

datatype declared_recipe_node =
    Recipe_Type type_id
  | Recipe_Array declared_recipe_id
  | Recipe_Tuple "declared_recipe_id list" "(nat \<times> declared_recipe_id) option"
  | Recipe_Readonly declared_recipe_id
  | Recipe_Application type_id "type_param_id list" "declared_recipe_id list"

record declared_type_recipe =
  dr_node :: declared_recipe_node
  dr_free_params :: "type_param_id list"

record declared_type =
  de_recipe :: declared_recipe_id
  de_mapper :: "(type_param_id \<times> type_id) list"

datatype modifier_op = Mod_Keep | Mod_Add | Mod_Remove

fun modifier_apply :: "modifier_op \<Rightarrow> bool \<Rightarrow> bool" where
  "modifier_apply Mod_Keep source = source"
| "modifier_apply Mod_Add source = True"
| "modifier_apply Mod_Remove source = False"

fun modifier_code :: "modifier_op \<Rightarrow> u8" where
  "modifier_code Mod_Keep = 0"
| "modifier_code Mod_Add = 1"
| "modifier_code Mod_Remove = 2"

record template_type =
  te_texts :: "string list"
  te_holes :: "type_id list"

record mapped_type =
  ma_homomorphic :: bool
  ma_key_source :: type_id
  ma_value_template :: type_id
  ma_modifiers_source :: "type_id option"
  ma_optional_modifier :: modifier_op
  ma_readonly_modifier :: modifier_op

end
