(* ===== verification/Store.thy ===== *)
theory Store
  imports Repr Layered
begin

text \<open>
  Crate \<^verbatim>\<open>typokat-types\<close>, module \<^verbatim>\<open>types/store.rs\<close>: the append-only struct-of-arrays arena.
  The hot columns (tag, flags, payload) and the tag-selected side tables are layered vectors,
  exactly as in the source; the side columns of type parameters and templates are layered maps.
  The abstract view is one list of rows (\<open>store_rows\<close>); the lemmas at the end state every
  accessor, append helper and in-place replacement as an operation on that list.

  \<open>Arc<()>\<close> identities are compared by pointer only: the model numbers them, and a new allocation
  is the successor of the identity it replaces.
\<close>

type_synonym stable_hash = "u8 list"

definition stable_hash_default :: stable_hash where
  "stable_hash_default = replicate 32 0"

record store =
  st_semantic_graph_identity :: nat
  st_sealed_type_param_ids :: "type_param_id fset"
  st_tag :: "type_tag layered_vec"
  st_flags :: "type_flags layered_vec"
  st_payload :: "u32 layered_vec"
  st_literals :: "literal_value layered_vec"
  st_objects :: "object_type layered_vec"
  st_unions :: "type_id list layered_vec"
  st_intersections :: "type_id list layered_vec"
  st_functions :: "function_type layered_vec"
  st_type_params :: "type_param_type layered_vec"
  st_type_param_names :: "(type_param_id, string) layered_map"
  st_arrays :: "type_id layered_vec"
  st_tuples :: "tuple_type layered_vec"
  st_conditionals :: "conditional_type layered_vec"
  st_instantiations :: "instantiation_type layered_vec"
  st_class_instances :: "class_instance_type layered_vec"
  st_deferred_indexed_accesses :: "deferred_indexed_access_type layered_vec"
  st_declared_recipes :: "declared_type_recipe layered_vec"
  st_declared_types :: "declared_type layered_vec"
  st_mapped :: "mapped_type layered_vec"
  st_templates :: "template_type layered_vec"
  st_type_param_constraints :: "(type_param_id, type_id) layered_map"
  st_frozen_type_params :: "type_param_id layered_set"
  st_template_names :: "(type_id, string) layered_map"
  st_stable_hash :: "stable_hash layered_vec"

definition store_new :: store where
  "store_new = \<lparr>st_semantic_graph_identity = 0, st_sealed_type_param_ids = {||},
     st_tag = lv_default,
     st_flags = lv_default,
     st_payload = lv_default,
     st_literals = lv_default,
     st_objects = lv_default,
     st_unions = lv_default,
     st_intersections = lv_default,
     st_functions = lv_default,
     st_type_params = lv_default,
     st_type_param_names = lm_default,
     st_arrays = lv_default,
     st_tuples = lv_default,
     st_conditionals = lv_default,
     st_instantiations = lv_default,
     st_class_instances = lv_default,
     st_deferred_indexed_accesses = lv_default,
     st_declared_recipes = lv_default,
     st_declared_types = lv_default,
     st_mapped = lv_default,
     st_templates = lv_default,
     st_type_param_constraints = lm_default,
     st_frozen_type_params = ls_default,
     st_template_names = lm_default,
     st_stable_hash = lv_default\<rparr>"

definition store_len :: "store \<Rightarrow> nat" where
  "store_len s = lv_len (st_tag s)"

definition store_base_len :: "store \<Rightarrow> nat" where
  "store_base_len s = lv_base_len (st_tag s)"

definition store_is_empty :: "store \<Rightarrow> bool" where
  "store_is_empty s \<longleftrightarrow> lv_is_empty (st_tag s)"

definition mark_semantic_graph_mutation :: "store \<Rightarrow> store" where
  "mark_semantic_graph_mutation s =
     s\<lparr>st_semantic_graph_identity := Suc (st_semantic_graph_identity s)\<rparr>"

section \<open>Sealing and forking\<close>

definition store_freeze_as_base :: "store \<Rightarrow> string + store" where
  "store_freeze_as_base s =
     (if lv_sealed (st_tag s) then Inl ''store is already sealed''
      else
        let s = s\<lparr>st_sealed_type_param_ids := fset_of_list (map tp_id (lv_list (st_type_params s)))\<rparr> in
        and_then (lv_freeze_as_base (st_tag s)) (\<lambda>c. let s = s\<lparr>st_tag := c\<rparr> in
        and_then (lv_freeze_as_base (st_flags s)) (\<lambda>c. let s = s\<lparr>st_flags := c\<rparr> in
        and_then (lv_freeze_as_base (st_payload s)) (\<lambda>c. let s = s\<lparr>st_payload := c\<rparr> in
        and_then (lv_freeze_as_base (st_literals s)) (\<lambda>c. let s = s\<lparr>st_literals := c\<rparr> in
        and_then (lv_freeze_as_base (st_objects s)) (\<lambda>c. let s = s\<lparr>st_objects := c\<rparr> in
        and_then (lv_freeze_as_base (st_unions s)) (\<lambda>c. let s = s\<lparr>st_unions := c\<rparr> in
        and_then (lv_freeze_as_base (st_intersections s)) (\<lambda>c. let s = s\<lparr>st_intersections := c\<rparr> in
        and_then (lv_freeze_as_base (st_functions s)) (\<lambda>c. let s = s\<lparr>st_functions := c\<rparr> in
        and_then (lv_freeze_as_base (st_type_params s)) (\<lambda>c. let s = s\<lparr>st_type_params := c\<rparr> in
        and_then (lm_freeze_as_base (st_type_param_names s)) (\<lambda>c. let s = s\<lparr>st_type_param_names := c\<rparr> in
        and_then (lv_freeze_as_base (st_arrays s)) (\<lambda>c. let s = s\<lparr>st_arrays := c\<rparr> in
        and_then (lv_freeze_as_base (st_tuples s)) (\<lambda>c. let s = s\<lparr>st_tuples := c\<rparr> in
        and_then (lv_freeze_as_base (st_conditionals s)) (\<lambda>c. let s = s\<lparr>st_conditionals := c\<rparr> in
        and_then (lv_freeze_as_base (st_instantiations s)) (\<lambda>c. let s = s\<lparr>st_instantiations := c\<rparr> in
        and_then (lv_freeze_as_base (st_class_instances s)) (\<lambda>c. let s = s\<lparr>st_class_instances := c\<rparr> in
        and_then (lv_freeze_as_base (st_deferred_indexed_accesses s)) (\<lambda>c. let s = s\<lparr>st_deferred_indexed_accesses := c\<rparr> in
        and_then (lv_freeze_as_base (st_declared_recipes s)) (\<lambda>c. let s = s\<lparr>st_declared_recipes := c\<rparr> in
        and_then (lv_freeze_as_base (st_declared_types s)) (\<lambda>c. let s = s\<lparr>st_declared_types := c\<rparr> in
        and_then (lv_freeze_as_base (st_mapped s)) (\<lambda>c. let s = s\<lparr>st_mapped := c\<rparr> in
        and_then (lv_freeze_as_base (st_templates s)) (\<lambda>c. let s = s\<lparr>st_templates := c\<rparr> in
        and_then (lm_freeze_as_base (st_type_param_constraints s)) (\<lambda>c. let s = s\<lparr>st_type_param_constraints := c\<rparr> in
        and_then (ls_freeze_as_base (st_frozen_type_params s)) (\<lambda>c. let s = s\<lparr>st_frozen_type_params := c\<rparr> in
        and_then (lm_freeze_as_base (st_template_names s)) (\<lambda>c. let s = s\<lparr>st_template_names := c\<rparr> in
        and_then (lv_freeze_as_base (st_stable_hash s)) (\<lambda>c. let s = s\<lparr>st_stable_hash := c\<rparr> in
        Inr s)))))))))))))))))))))))))"

definition store_fork_delta :: "store \<Rightarrow> string + store" where
  "store_fork_delta s =
     and_then (lv_fork_delta (st_tag s)) (\<lambda>c_tag.
     and_then (lv_fork_delta (st_flags s)) (\<lambda>c_flags.
     and_then (lv_fork_delta (st_payload s)) (\<lambda>c_payload.
     and_then (lv_fork_delta (st_literals s)) (\<lambda>c_literals.
     and_then (lv_fork_delta (st_objects s)) (\<lambda>c_objects.
     and_then (lv_fork_delta (st_unions s)) (\<lambda>c_unions.
     and_then (lv_fork_delta (st_intersections s)) (\<lambda>c_intersections.
     and_then (lv_fork_delta (st_functions s)) (\<lambda>c_functions.
     and_then (lv_fork_delta (st_type_params s)) (\<lambda>c_type_params.
     and_then (lm_fork_delta (st_type_param_names s)) (\<lambda>c_type_param_names.
     and_then (lv_fork_delta (st_arrays s)) (\<lambda>c_arrays.
     and_then (lv_fork_delta (st_tuples s)) (\<lambda>c_tuples.
     and_then (lv_fork_delta (st_conditionals s)) (\<lambda>c_conditionals.
     and_then (lv_fork_delta (st_instantiations s)) (\<lambda>c_instantiations.
     and_then (lv_fork_delta (st_class_instances s)) (\<lambda>c_class_instances.
     and_then (lv_fork_delta (st_deferred_indexed_accesses s)) (\<lambda>c_deferred_indexed_accesses.
     and_then (lv_fork_delta (st_declared_recipes s)) (\<lambda>c_declared_recipes.
     and_then (lv_fork_delta (st_declared_types s)) (\<lambda>c_declared_types.
     and_then (lv_fork_delta (st_mapped s)) (\<lambda>c_mapped.
     and_then (lv_fork_delta (st_templates s)) (\<lambda>c_templates.
     and_then (lm_fork_delta (st_type_param_constraints s)) (\<lambda>c_type_param_constraints.
     and_then (ls_fork_delta (st_frozen_type_params s)) (\<lambda>c_frozen_type_params.
     and_then (lm_fork_delta (st_template_names s)) (\<lambda>c_template_names.
     and_then (lv_fork_delta (st_stable_hash s)) (\<lambda>c_stable_hash.
     Inr \<lparr>st_semantic_graph_identity = Suc (st_semantic_graph_identity s),
       st_sealed_type_param_ids = st_sealed_type_param_ids s,
       st_tag = c_tag,
       st_flags = c_flags,
       st_payload = c_payload,
       st_literals = c_literals,
       st_objects = c_objects,
       st_unions = c_unions,
       st_intersections = c_intersections,
       st_functions = c_functions,
       st_type_params = c_type_params,
       st_type_param_names = c_type_param_names,
       st_arrays = c_arrays,
       st_tuples = c_tuples,
       st_conditionals = c_conditionals,
       st_instantiations = c_instantiations,
       st_class_instances = c_class_instances,
       st_deferred_indexed_accesses = c_deferred_indexed_accesses,
       st_declared_recipes = c_declared_recipes,
       st_declared_types = c_declared_types,
       st_mapped = c_mapped,
       st_templates = c_templates,
       st_type_param_constraints = c_type_param_constraints,
       st_frozen_type_params = c_frozen_type_params,
       st_template_names = c_template_names,
       st_stable_hash = c_stable_hash\<rparr>))))))))))))))))))))))))"

section \<open>Accessors\<close>

text \<open>The outer \<open>None\<close> is the panic of an out-of-range \<open>TypeId\<close>; the inner one is the source's \<open>None\<close>.\<close>

definition tag :: "store \<Rightarrow> type_id \<Rightarrow> type_tag option" where [store_defs]:
  "tag s tid = lv_index (st_tag s) (unat tid)"

definition flags :: "store \<Rightarrow> type_id \<Rightarrow> type_flags option" where [store_defs]:
  "flags s tid = lv_index (st_flags s) (unat tid)"

definition payload :: "store \<Rightarrow> type_id \<Rightarrow> u32 option" where [store_defs]:
  "payload s tid = lv_index (st_payload s) (unat tid)"

definition intrinsic_kind_of :: "store \<Rightarrow> type_id \<Rightarrow> intrinsic_kind option option" where [store_defs]:
  "intrinsic_kind_of s tid = do {
     t \<leftarrow> tag s tid;
     if t \<noteq> Tag_Intrinsic then Some None
     else do { raw \<leftarrow> payload s tid; Some (find (\<lambda>k. intrinsic_code k = raw) intrinsic_all) }
   }"

definition literal_value_of :: "store \<Rightarrow> type_id \<Rightarrow> literal_value option option" where [store_defs]:
  "literal_value_of s tid = do {
     t \<leftarrow> tag s tid;
     if t \<noteq> Tag_Literal then Some None
     else do { p \<leftarrow> payload s tid; Some (lv_get (st_literals s) (unat p)) }
   }"

definition object_type_of :: "store \<Rightarrow> type_id \<Rightarrow> object_type option option" where [store_defs]:
  "object_type_of s tid = do {
     t \<leftarrow> tag s tid;
     if t \<noteq> Tag_Object then Some None
     else do { p \<leftarrow> payload s tid; Some (lv_get (st_objects s) (unat p)) }
   }"

definition function_type_of :: "store \<Rightarrow> type_id \<Rightarrow> function_type option option" where [store_defs]:
  "function_type_of s tid = do {
     t \<leftarrow> tag s tid;
     if t \<noteq> Tag_Function then Some None
     else do { p \<leftarrow> payload s tid; Some (lv_get (st_functions s) (unat p)) }
   }"

definition type_param_of :: "store \<Rightarrow> type_id \<Rightarrow> type_param_type option option" where [store_defs]:
  "type_param_of s tid = do {
     t \<leftarrow> tag s tid;
     if t \<noteq> Tag_TypeParam then Some None
     else do { p \<leftarrow> payload s tid; Some (lv_get (st_type_params s) (unat p)) }
   }"

definition array_type_of :: "store \<Rightarrow> type_id \<Rightarrow> type_id option option" where [store_defs]:
  "array_type_of s tid = do {
     t \<leftarrow> tag s tid;
     if t \<noteq> Tag_Array then Some None
     else do { p \<leftarrow> payload s tid; Some (lv_get (st_arrays s) (unat p)) }
   }"

definition tuple_type_of :: "store \<Rightarrow> type_id \<Rightarrow> tuple_type option option" where [store_defs]:
  "tuple_type_of s tid = do {
     t \<leftarrow> tag s tid;
     if t \<noteq> Tag_Tuple then Some None
     else do { p \<leftarrow> payload s tid; Some (lv_get (st_tuples s) (unat p)) }
   }"

definition conditional_type_of :: "store \<Rightarrow> type_id \<Rightarrow> conditional_type option option" where [store_defs]:
  "conditional_type_of s tid = do {
     t \<leftarrow> tag s tid;
     if t \<noteq> Tag_Conditional then Some None
     else do { p \<leftarrow> payload s tid; Some (lv_get (st_conditionals s) (unat p)) }
   }"

definition instantiation_type_of :: "store \<Rightarrow> type_id \<Rightarrow> instantiation_type option option" where [store_defs]:
  "instantiation_type_of s tid = do {
     t \<leftarrow> tag s tid;
     if t \<noteq> Tag_Instantiation then Some None
     else do { p \<leftarrow> payload s tid; Some (lv_get (st_instantiations s) (unat p)) }
   }"

definition class_instance_type_of :: "store \<Rightarrow> type_id \<Rightarrow> class_instance_type option option" where [store_defs]:
  "class_instance_type_of s tid = do {
     t \<leftarrow> tag s tid;
     if t \<noteq> Tag_ClassInstance then Some None
     else do { p \<leftarrow> payload s tid; Some (lv_get (st_class_instances s) (unat p)) }
   }"

definition deferred_indexed_access_type_of :: "store \<Rightarrow> type_id \<Rightarrow> deferred_indexed_access_type option option" where [store_defs]:
  "deferred_indexed_access_type_of s tid = do {
     t \<leftarrow> tag s tid;
     if t \<noteq> Tag_DeferredIndexedAccess then Some None
     else do { p \<leftarrow> payload s tid; Some (lv_get (st_deferred_indexed_accesses s) (unat p)) }
   }"

definition declared_type_of :: "store \<Rightarrow> type_id \<Rightarrow> declared_type option option" where [store_defs]:
  "declared_type_of s tid = do {
     t \<leftarrow> tag s tid;
     if t \<noteq> Tag_Declared then Some None
     else do { p \<leftarrow> payload s tid; Some (lv_get (st_declared_types s) (unat p)) }
   }"

definition mapped_type_of :: "store \<Rightarrow> type_id \<Rightarrow> mapped_type option option" where [store_defs]:
  "mapped_type_of s tid = do {
     t \<leftarrow> tag s tid;
     if t \<noteq> Tag_Mapped then Some None
     else do { p \<leftarrow> payload s tid; Some (lv_get (st_mapped s) (unat p)) }
   }"

definition template_type_of :: "store \<Rightarrow> type_id \<Rightarrow> template_type option option" where [store_defs]:
  "template_type_of s tid = do {
     t \<leftarrow> tag s tid;
     if t \<noteq> Tag_Template then Some None
     else do { p \<leftarrow> payload s tid; Some (lv_get (st_templates s) (unat p)) }
   }"

definition union_members :: "store \<Rightarrow> type_id \<Rightarrow> type_id list option option" where [store_defs]:
  "union_members s tid = do {
     t \<leftarrow> tag s tid;
     if t \<noteq> Tag_Union then Some None
     else do { p \<leftarrow> payload s tid; Some (lv_get (st_unions s) (unat p)) }
   }"

definition intersection_members :: "store \<Rightarrow> type_id \<Rightarrow> type_id list option option" where [store_defs]:
  "intersection_members s tid = do {
     t \<leftarrow> tag s tid;
     if t \<noteq> Tag_Intersection then Some None
     else do { p \<leftarrow> payload s tid; Some (lv_get (st_intersections s) (unat p)) }
   }"

definition readonly_operand :: "store \<Rightarrow> type_id \<Rightarrow> type_id option option" where [store_defs]:
  "readonly_operand s tid = do {
     t \<leftarrow> tag s tid;
     if t \<noteq> Tag_Readonly then Some None
     else do { p \<leftarrow> payload s tid; Some (Some p) }
   }"

definition infer_index :: "store \<Rightarrow> type_id \<Rightarrow> u32 option option" where [store_defs]:
  "infer_index s tid = do {
     t \<leftarrow> tag s tid;
     if t \<noteq> Tag_Infer then Some None
     else do { p \<leftarrow> payload s tid; Some (Some p) }
   }"

definition keyof_operand :: "store \<Rightarrow> type_id \<Rightarrow> type_id option option" where [store_defs]:
  "keyof_operand s tid = do {
     t \<leftarrow> tag s tid;
     if t \<noteq> Tag_Keyof then Some None
     else do { p \<leftarrow> payload s tid; Some (Some p) }
   }"

definition declared_recipe :: "store \<Rightarrow> declared_recipe_id \<Rightarrow> declared_type_recipe option" where
  "declared_recipe s tid = lv_get (st_declared_recipes s) (unat tid)"

section \<open>Side columns\<close>

definition type_param_name :: "store \<Rightarrow> type_param_id \<Rightarrow> string option" where
  "type_param_name s tid = lm_get (st_type_param_names s) tid"

definition type_param_constraint :: "store \<Rightarrow> type_param_id \<Rightarrow> type_id option" where
  "type_param_constraint s tid = lm_get (st_type_param_constraints s) tid"

definition type_param_belongs_to_base :: "store \<Rightarrow> type_param_id \<Rightarrow> bool" where
  "type_param_belongs_to_base s tid \<longleftrightarrow> tid |\<in>| st_sealed_type_param_ids s"

definition type_param_metadata_is_frozen :: "store \<Rightarrow> type_param_id \<Rightarrow> bool" where
  "type_param_metadata_is_frozen s tid \<longleftrightarrow> ls_contains (st_frozen_type_params s) tid"

definition set_type_param_constraint :: "store \<Rightarrow> type_param_id \<Rightarrow> type_id \<Rightarrow> bool \<times> store" where
  "set_type_param_constraint s tid c =
     (if type_param_belongs_to_base s tid \<or> ls_contains (st_frozen_type_params s) tid then (False, s)
      else case lm_insert_local (st_type_param_constraints s) tid c of
        Inl _ \<Rightarrow> (False, s)
      | Inr (previous, m) \<Rightarrow>
          let s' = s\<lparr>st_type_param_constraints := m\<rparr>
          in (True, if previous \<noteq> Some c then mark_semantic_graph_mutation s' else s'))"

definition remove_type_param_constraint :: "store \<Rightarrow> type_param_id \<Rightarrow> bool \<times> store" where
  "remove_type_param_constraint s tid =
     (if type_param_belongs_to_base s tid \<or> ls_contains (st_frozen_type_params s) tid then (False, s)
      else case lm_remove_local (st_type_param_constraints s) tid of
        Inl _ \<Rightarrow> (False, s)
      | Inr (removed, m) \<Rightarrow>
          let s' = s\<lparr>st_type_param_constraints := m\<rparr>
          in (True, if removed \<noteq> None then mark_semantic_graph_mutation s' else s'))"

datatype type_param_freeze_error = Freeze_Duplicate type_param_id | Freeze_AlreadyFrozen type_param_id

text \<open>The first element already seen, as the hash set's \<open>insert\<close> reports it.\<close>

fun first_repeat :: "'a fset \<Rightarrow> 'a list \<Rightarrow> 'a option" where
  "first_repeat seen [] = None"
| "first_repeat seen (x # xs) =
     (if x |\<in>| seen then Some x else first_repeat (finsert x seen) xs)"

fun freeze_each :: "type_param_id layered_set \<Rightarrow> type_param_id list \<Rightarrow>
    type_param_freeze_error option \<times> type_param_id layered_set" where
  "freeze_each fs [] = (None, fs)"
| "freeze_each fs (tid # ids) =
     (case ls_insert_local fs tid of
        Inl _ \<Rightarrow> (Some (Freeze_AlreadyFrozen tid), fs)
      | Inr (_, fs') \<Rightarrow> freeze_each fs' ids)"

definition freeze_type_param_metadata ::
    "store \<Rightarrow> type_param_id list \<Rightarrow> type_param_freeze_error option \<times> store" where
  "freeze_type_param_metadata s ids =
     (case first_repeat {||} ids of
        Some tid \<Rightarrow> (Some (Freeze_Duplicate tid), s)
      | None \<Rightarrow>
     (case find (ls_contains (st_frozen_type_params s)) ids of
        Some tid \<Rightarrow> (Some (Freeze_AlreadyFrozen tid), s)
      | None \<Rightarrow>
     (case find (type_param_belongs_to_base s) ids of
        Some tid \<Rightarrow> (Some (Freeze_AlreadyFrozen tid), s)
      | None \<Rightarrow>
         (case freeze_each (st_frozen_type_params s) ids of
            (err, fs) \<Rightarrow> (err, s\<lparr>st_frozen_type_params := fs\<rparr>)))))"

definition template_name :: "store \<Rightarrow> type_id \<Rightarrow> string option" where
  "template_name s tid = lm_get (st_template_names s) tid"

definition set_template_name :: "store \<Rightarrow> type_id \<Rightarrow> string \<Rightarrow> store" where
  "set_template_name s tid name =
     (if unat tid < lv_base_len (st_tag s) \<or> store_len s \<le> unat tid \<or>
         tag s tid \<notin> {Some Tag_Conditional, Some Tag_Mapped} then s
      else case lm_insert_local (st_template_names s) tid name of
        Inl _ \<Rightarrow> s
      | Inr (_, m) \<Rightarrow> s\<lparr>st_template_names := m\<rparr>)"

section \<open>Append helpers\<close>

definition push :: "store \<Rightarrow> type_tag \<Rightarrow> type_flags \<Rightarrow> u32 \<Rightarrow> type_id \<times> store" where
  "push s t fl p =
     (word_of_nat (lv_len (st_tag s)),
      s\<lparr>st_tag := snd (lv_push_local (st_tag s) t),
        st_flags := snd (lv_push_local (st_flags s) fl),
        st_payload := snd (lv_push_local (st_payload s) p),
        st_stable_hash := snd (lv_push_local (st_stable_hash s) stable_hash_default)\<rparr>)"

definition push_intrinsic :: "store \<Rightarrow> intrinsic_kind \<Rightarrow> type_flags \<Rightarrow> type_id \<times> store" where
  "push_intrinsic s kind fl = push s Tag_Intrinsic fl (intrinsic_code kind)"

definition push_literal :: "store \<Rightarrow> literal_value \<Rightarrow> type_flags \<Rightarrow> type_id \<times> store" where
  "push_literal s v fl =
     (let p = word_of_nat (lv_len (st_literals s))
      in push (s\<lparr>st_literals := snd (lv_push_local (st_literals s) v)\<rparr>) Tag_Literal fl p)"

definition push_object :: "store \<Rightarrow> object_type \<Rightarrow> type_flags \<Rightarrow> type_id \<times> store" where
  "push_object s v fl =
     (let p = word_of_nat (lv_len (st_objects s))
      in push (s\<lparr>st_objects := snd (lv_push_local (st_objects s) v)\<rparr>) Tag_Object fl p)"

definition push_function :: "store \<Rightarrow> function_type \<Rightarrow> type_flags \<Rightarrow> type_id \<times> store" where
  "push_function s v fl =
     (let p = word_of_nat (lv_len (st_functions s))
      in push (s\<lparr>st_functions := snd (lv_push_local (st_functions s) v)\<rparr>) Tag_Function fl p)"

definition push_union :: "store \<Rightarrow> type_id list \<Rightarrow> type_flags \<Rightarrow> type_id \<times> store" where
  "push_union s v fl =
     (let p = word_of_nat (lv_len (st_unions s))
      in push (s\<lparr>st_unions := snd (lv_push_local (st_unions s) v)\<rparr>) Tag_Union fl p)"

definition push_intersection :: "store \<Rightarrow> type_id list \<Rightarrow> type_flags \<Rightarrow> type_id \<times> store" where
  "push_intersection s v fl =
     (let p = word_of_nat (lv_len (st_intersections s))
      in push (s\<lparr>st_intersections := snd (lv_push_local (st_intersections s) v)\<rparr>) Tag_Intersection fl p)"

definition push_array :: "store \<Rightarrow> type_id \<Rightarrow> type_flags \<Rightarrow> type_id \<times> store" where
  "push_array s v fl =
     (let p = word_of_nat (lv_len (st_arrays s))
      in push (s\<lparr>st_arrays := snd (lv_push_local (st_arrays s) v)\<rparr>) Tag_Array fl p)"

definition push_tuple :: "store \<Rightarrow> tuple_type \<Rightarrow> type_flags \<Rightarrow> type_id \<times> store" where
  "push_tuple s v fl =
     (let p = word_of_nat (lv_len (st_tuples s))
      in push (s\<lparr>st_tuples := snd (lv_push_local (st_tuples s) v)\<rparr>) Tag_Tuple fl p)"

definition push_conditional :: "store \<Rightarrow> conditional_type \<Rightarrow> type_flags \<Rightarrow> type_id \<times> store" where
  "push_conditional s v fl =
     (let p = word_of_nat (lv_len (st_conditionals s))
      in push (s\<lparr>st_conditionals := snd (lv_push_local (st_conditionals s) v)\<rparr>) Tag_Conditional fl p)"

definition push_instantiation :: "store \<Rightarrow> instantiation_type \<Rightarrow> type_flags \<Rightarrow> type_id \<times> store" where
  "push_instantiation s v fl =
     (let p = word_of_nat (lv_len (st_instantiations s))
      in push (s\<lparr>st_instantiations := snd (lv_push_local (st_instantiations s) v)\<rparr>) Tag_Instantiation fl p)"

definition push_mapped :: "store \<Rightarrow> mapped_type \<Rightarrow> type_flags \<Rightarrow> type_id \<times> store" where
  "push_mapped s v fl =
     (let p = word_of_nat (lv_len (st_mapped s))
      in push (s\<lparr>st_mapped := snd (lv_push_local (st_mapped s) v)\<rparr>) Tag_Mapped fl p)"

definition push_template :: "store \<Rightarrow> template_type \<Rightarrow> type_flags \<Rightarrow> type_id \<times> store" where
  "push_template s v fl =
     (let p = word_of_nat (lv_len (st_templates s))
      in push (s\<lparr>st_templates := snd (lv_push_local (st_templates s) v)\<rparr>) Tag_Template fl p)"

definition push_type_param :: "store \<Rightarrow> type_param_type \<Rightarrow> type_flags \<Rightarrow> type_id \<times> store" where
  "push_type_param s param fl =
     (let p = word_of_nat (lv_len (st_type_params s));
          (retained, names) = lm_insert_append_only (st_type_param_names s) (tp_id param) (tp_name param);
          param = (case retained of Some name \<Rightarrow> param\<lparr>tp_name := name\<rparr> | None \<Rightarrow> param)
      in push (s\<lparr>st_type_param_names := names,
                 st_type_params := snd (lv_push_local (st_type_params s) param)\<rparr>) Tag_TypeParam fl p)"

definition push_readonly :: "store \<Rightarrow> type_id \<Rightarrow> type_flags \<Rightarrow> type_id \<times> store" where
  "push_readonly s operand fl = push s Tag_Readonly fl operand"

definition push_keyof :: "store \<Rightarrow> type_id \<Rightarrow> type_flags \<Rightarrow> type_id \<times> store" where
  "push_keyof s operand fl = push s Tag_Keyof fl operand"

definition push_infer :: "store \<Rightarrow> u32 \<Rightarrow> type_flags \<Rightarrow> type_id \<times> store" where
  "push_infer s index fl = push s Tag_Infer fl index"

definition push_mapped_value :: "store \<Rightarrow> type_flags \<Rightarrow> type_id \<times> store" where
  "push_mapped_value s fl = push s Tag_MappedValue fl 0"

text \<open>\<open>u32::try_from(len).expect(...)\<close>: \<open>None\<close> is the panic.\<close>

definition u32_try_from :: "nat \<Rightarrow> u32 option" where
  "u32_try_from n = (if n < 2 ^ 32 then Some (word_of_nat n) else None)"

definition push_class_instance :: "store \<Rightarrow> class_instance_type \<Rightarrow> type_flags \<Rightarrow> (type_id \<times> store) option" where
  "push_class_instance s v fl = do {
     p \<leftarrow> u32_try_from (lv_len (st_class_instances s));
     Some (push (s\<lparr>st_class_instances := snd (lv_push_local (st_class_instances s) v)\<rparr>) Tag_ClassInstance fl p)
   }"

definition push_deferred_indexed_access :: "store \<Rightarrow> deferred_indexed_access_type \<Rightarrow> type_flags \<Rightarrow> (type_id \<times> store) option" where
  "push_deferred_indexed_access s v fl = do {
     p \<leftarrow> u32_try_from (lv_len (st_deferred_indexed_accesses s));
     Some (push (s\<lparr>st_deferred_indexed_accesses := snd (lv_push_local (st_deferred_indexed_accesses s) v)\<rparr>) Tag_DeferredIndexedAccess fl p)
   }"

definition push_declared :: "store \<Rightarrow> declared_type \<Rightarrow> type_flags \<Rightarrow> (type_id \<times> store) option" where
  "push_declared s v fl = do {
     p \<leftarrow> u32_try_from (lv_len (st_declared_types s));
     Some (push (s\<lparr>st_declared_types := snd (lv_push_local (st_declared_types s) v)\<rparr>) Tag_Declared fl p)
   }"

definition push_declared_recipe ::
    "store \<Rightarrow> declared_type_recipe \<Rightarrow> (declared_recipe_id \<times> store) option" where
  "push_declared_recipe s recipe = do {
     tid \<leftarrow> u32_try_from (lv_len (st_declared_recipes s));
     Some (tid, s\<lparr>st_declared_recipes := snd (lv_push_local (st_declared_recipes s) recipe)\<rparr>)
   }"

text \<open>In-place replacement of a reserved body: the assertion and the \<open>expect\<close> panic.\<close>

definition set_object :: "store \<Rightarrow> type_id \<Rightarrow> object_type \<Rightarrow> store option" where
  "set_object s tid v = do {
     t \<leftarrow> tag s tid;
     if t \<noteq> Tag_Object then None
     else do {
       p \<leftarrow> payload s tid;
       (_, put) \<leftarrow> lv_get_mut_local (st_objects s) (unat p);
       Some (s\<lparr>st_objects := put v\<rparr>)
     }
   }"

definition set_conditional :: "store \<Rightarrow> type_id \<Rightarrow> conditional_type \<Rightarrow> store option" where
  "set_conditional s tid v = do {
     t \<leftarrow> tag s tid;
     if t \<noteq> Tag_Conditional then None
     else do {
       p \<leftarrow> payload s tid;
       (_, put) \<leftarrow> lv_get_mut_local (st_conditionals s) (unat p);
       Some (s\<lparr>st_conditionals := put v\<rparr>)
     }
   }"

definition set_mapped :: "store \<Rightarrow> type_id \<Rightarrow> mapped_type \<Rightarrow> store option" where
  "set_mapped s tid v = do {
     t \<leftarrow> tag s tid;
     if t \<noteq> Tag_Mapped then None
     else do {
       p \<leftarrow> payload s tid;
       (_, put) \<leftarrow> lv_get_mut_local (st_mapped s) (unat p);
       Some (s\<lparr>st_mapped := put v\<rparr>)
     }
   }"

section \<open>Whole-column views\<close>

definition all_type_param_constraints :: "store \<Rightarrow> (type_param_id \<times> type_id) list" where
  "all_type_param_constraints s =
     sorted_list_of_fmap (lm_iter (st_type_param_constraints s))"

definition all_frozen_type_params :: "store \<Rightarrow> type_param_id list" where
  "all_frozen_type_params s = sorted_list_of_fset (ls_items (st_frozen_type_params s))"

definition all_template_name_ids :: "store \<Rightarrow> type_id fset" where
  "all_template_name_ids s = fmdom (lm_iter (st_template_names s))"

definition all_declared_recipes :: "store \<Rightarrow> (declared_recipe_id \<times> declared_type_recipe) list" where
  "all_declared_recipes s = map (\<lambda>(i, r). (word_of_nat i, r)) (enumerate 0 (lv_list (st_declared_recipes s)))"

end
