(* ===== verification/Store_Rows.thy ===== *)
theory Store_Rows
  imports Store
begin

text \<open>
  The abstract view of the arena of \<^verbatim>\<open>types/store.rs\<close>: one list of typed rows. \<open>store_inv\<close> is
  the representation invariant of the columns and side tables; under it every accessor is a lookup
  in the list, every append helper appends one row, every in-place replacement updates one row, and
  sealing and forking keep the list.
\<close>


datatype ty_row =
    Row_Intrinsic intrinsic_kind
  | Row_Literal literal_value
  | Row_Object object_type
  | Row_Union "type_id list"
  | Row_Intersection "type_id list"
  | Row_Function function_type
  | Row_TypeParam type_param_type
  | Row_Array type_id
  | Row_Tuple tuple_type
  | Row_Readonly type_id
  | Row_Conditional conditional_type
  | Row_Instantiation instantiation_type
  | Row_Infer u32
  | Row_Mapped mapped_type
  | Row_MappedValue
  | Row_Template template_type
  | Row_Keyof type_id
  | Row_ClassInstance class_instance_type
  | Row_DeferredIndexedAccess deferred_indexed_access_type
  | Row_Declared declared_type

text \<open>The side table a tag selects, as rows; the inline tags have none.\<close>

fun side_rows :: "store \<Rightarrow> type_tag \<Rightarrow> ty_row list option" where
  "side_rows s Tag_Literal = Some (map Row_Literal (lv_list (st_literals s)))"
| "side_rows s Tag_Object = Some (map Row_Object (lv_list (st_objects s)))"
| "side_rows s Tag_Union = Some (map Row_Union (lv_list (st_unions s)))"
| "side_rows s Tag_Intersection = Some (map Row_Intersection (lv_list (st_intersections s)))"
| "side_rows s Tag_Function = Some (map Row_Function (lv_list (st_functions s)))"
| "side_rows s Tag_TypeParam = Some (map Row_TypeParam (lv_list (st_type_params s)))"
| "side_rows s Tag_Array = Some (map Row_Array (lv_list (st_arrays s)))"
| "side_rows s Tag_Tuple = Some (map Row_Tuple (lv_list (st_tuples s)))"
| "side_rows s Tag_Conditional = Some (map Row_Conditional (lv_list (st_conditionals s)))"
| "side_rows s Tag_Instantiation = Some (map Row_Instantiation (lv_list (st_instantiations s)))"
| "side_rows s Tag_Mapped = Some (map Row_Mapped (lv_list (st_mapped s)))"
| "side_rows s Tag_Template = Some (map Row_Template (lv_list (st_templates s)))"
| "side_rows s Tag_ClassInstance = Some (map Row_ClassInstance (lv_list (st_class_instances s)))"
| "side_rows s Tag_DeferredIndexedAccess = Some (map Row_DeferredIndexedAccess (lv_list (st_deferred_indexed_accesses s)))"
| "side_rows s Tag_Declared = Some (map Row_Declared (lv_list (st_declared_types s)))"
| "side_rows s _ = None"

text \<open>How much of the side table belongs to the frozen base.\<close>

fun side_base :: "store \<Rightarrow> type_tag \<Rightarrow> nat option" where
  "side_base s Tag_Literal = Some (lv_base_len (st_literals s))"
| "side_base s Tag_Object = Some (lv_base_len (st_objects s))"
| "side_base s Tag_Union = Some (lv_base_len (st_unions s))"
| "side_base s Tag_Intersection = Some (lv_base_len (st_intersections s))"
| "side_base s Tag_Function = Some (lv_base_len (st_functions s))"
| "side_base s Tag_TypeParam = Some (lv_base_len (st_type_params s))"
| "side_base s Tag_Array = Some (lv_base_len (st_arrays s))"
| "side_base s Tag_Tuple = Some (lv_base_len (st_tuples s))"
| "side_base s Tag_Conditional = Some (lv_base_len (st_conditionals s))"
| "side_base s Tag_Instantiation = Some (lv_base_len (st_instantiations s))"
| "side_base s Tag_Mapped = Some (lv_base_len (st_mapped s))"
| "side_base s Tag_Template = Some (lv_base_len (st_templates s))"
| "side_base s Tag_ClassInstance = Some (lv_base_len (st_class_instances s))"
| "side_base s Tag_DeferredIndexedAccess = Some (lv_base_len (st_deferred_indexed_accesses s))"
| "side_base s Tag_Declared = Some (lv_base_len (st_declared_types s))"
| "side_base s _ = None"

text \<open>The inline tags decode the payload itself.\<close>

fun inline_row :: "type_tag \<Rightarrow> u32 \<Rightarrow> ty_row option" where
  "inline_row Tag_Intrinsic p = map_option Row_Intrinsic (find (\<lambda>k. intrinsic_code k = p) intrinsic_all)"
| "inline_row Tag_Readonly p = Some (Row_Readonly p)"
| "inline_row Tag_Infer p = Some (Row_Infer p)"
| "inline_row Tag_MappedValue p = Some Row_MappedValue"
| "inline_row Tag_Keyof p = Some (Row_Keyof p)"
| "inline_row _ p = None"

definition row_of :: "store \<Rightarrow> type_tag \<Rightarrow> u32 \<Rightarrow> ty_row option" where
  "row_of s t p = (case side_rows s t of Some rs \<Rightarrow> nth_opt rs (unat p) | None \<Rightarrow> inline_row t p)"

text \<open>The pair of hot attributes that determine a row.\<close>

definition cell :: "store \<Rightarrow> nat \<Rightarrow> (type_tag \<times> u32) option" where
  "cell s i = do { t \<leftarrow> lv_get (st_tag s) i; p \<leftarrow> lv_get (st_payload s) i; Some (t, p) }"

definition row_at :: "store \<Rightarrow> nat \<Rightarrow> ty_row option" where
  "row_at s i = do { (t, p) \<leftarrow> cell s i; row_of s t p }"

definition store_rows :: "store \<Rightarrow> ty_row list" where
  "store_rows s = map (\<lambda>i. the (row_at s i)) [0..<store_len s]"

text \<open>A column of the arena is never sparse, and all columns are sealed together.\<close>

definition column_inv :: "bool \<Rightarrow> 'a layered_vec \<Rightarrow> bool" where
  "column_inv sealed v \<longleftrightarrow> lv_inv v \<and> \<not> lv_prefix_overrides_enabled v \<and> lv_sealed v = sealed"

definition tables_inv :: "bool \<Rightarrow> store \<Rightarrow> bool" where
  "tables_inv b s \<longleftrightarrow>
     column_inv b (st_literals s) \<and>
     column_inv b (st_objects s) \<and>
     column_inv b (st_unions s) \<and>
     column_inv b (st_intersections s) \<and>
     column_inv b (st_functions s) \<and>
     column_inv b (st_type_params s) \<and>
     column_inv b (st_arrays s) \<and>
     column_inv b (st_tuples s) \<and>
     column_inv b (st_conditionals s) \<and>
     column_inv b (st_instantiations s) \<and>
     column_inv b (st_mapped s) \<and>
     column_inv b (st_templates s) \<and>
     column_inv b (st_class_instances s) \<and>
     column_inv b (st_deferred_indexed_accesses s) \<and>
     column_inv b (st_declared_types s) \<and>
     column_inv b (st_declared_recipes s)"

definition plain_map :: "bool \<Rightarrow> ('k, 'v) layered_map \<Rightarrow> bool" where
  "plain_map sealed m \<longleftrightarrow> lm_inv m \<and> \<not> lm_prefix_overrides_enabled m \<and> lm_sealed m = sealed"

definition side_maps_inv :: "bool \<Rightarrow> store \<Rightarrow> bool" where
  "side_maps_inv b s \<longleftrightarrow>
     plain_map b (st_type_param_names s) \<and> plain_map b (st_type_param_constraints s) \<and>
     plain_map b (st_template_names s) \<and>
     ls_inv (st_frozen_type_params s) \<and> ls_sealed (st_frozen_type_params s) = b"

definition columns_inv :: "bool \<Rightarrow> store \<Rightarrow> bool" where
  "columns_inv b s \<longleftrightarrow>
     column_inv b (st_tag s) \<and> column_inv b (st_flags s) \<and>
     column_inv b (st_payload s) \<and> column_inv b (st_stable_hash s) \<and>
     lv_len (st_flags s) = lv_len (st_tag s) \<and> lv_len (st_payload s) = lv_len (st_tag s) \<and>
     lv_len (st_stable_hash s) = lv_len (st_tag s) \<and> lv_base_len (st_payload s) = lv_base_len (st_tag s)"

text \<open>
  Every row decodes, no two rows share a side-table entry, a side table is no longer than the
  arena (each entry belongs to the row that appended it), and a row is frozen exactly when its
  side-table entry is.
\<close>

definition rows_inv :: "store \<Rightarrow> bool" where
  "rows_inv s \<longleftrightarrow>
     (\<forall>i < store_len s. row_at s i \<noteq> None) \<and>
     (\<forall>i j t p. cell s i = Some (t, p) \<longrightarrow> cell s j = Some (t, p) \<longrightarrow> side_rows s t \<noteq> None \<longrightarrow> i = j) \<and>
     (\<forall>t rs. side_rows s t = Some rs \<longrightarrow> length rs \<le> store_len s) \<and>
     (\<forall>i t p b. cell s i = Some (t, p) \<longrightarrow> side_base s t = Some b \<longrightarrow>
        (unat p < b \<longleftrightarrow> i < store_base_len s))"

definition store_inv :: "store \<Rightarrow> bool" where
  "store_inv s \<longleftrightarrow> columns_inv (lv_sealed (st_tag s)) s \<and> tables_inv (lv_sealed (st_tag s)) s \<and>
     side_maps_inv (lv_sealed (st_tag s)) s \<and> rows_inv s"

lemma cell_defined: "columns_inv b s \<Longrightarrow> (\<exists>t p. cell s i = Some (t, p)) = (i < store_len s)"
  by (auto simp: cell_def columns_inv_def store_len_def lv_get_list nth_opt_def length_lv_list)

lemma cell_None: "columns_inv b s \<Longrightarrow> (cell s i = None) = (store_len s \<le> i)"
  using cell_defined [of b s i] by (cases "cell s i") auto

lemma length_store_rows [simp]: "length (store_rows s) = store_len s"
  by (simp add: store_rows_def)

lemma row_at_rows: "store_inv s \<Longrightarrow> nth_opt (store_rows s) i = row_at s i"
proof (cases "i < store_len s")
  case True
  assume "store_inv s"
  with True obtain r where "row_at s i = Some r" by (auto simp: store_inv_def rows_inv_def)
  with True show ?thesis by (simp add: store_rows_def nth_opt_eq_Some)
next
  case False
  assume "store_inv s"
  with False have "cell s i = None" using cell_None by (auto simp: store_inv_def)
  with False show ?thesis by (simp add: nth_opt_eq_None row_at_def nth_opt_def)
qed

lemma lv_len_default [simp]: "lv_len lv_default = 0" "lv_base_len lv_default = 0"
  by (simp_all add: layered_defs)

lemma side_rows_new: "side_rows store_new t = Some rs \<Longrightarrow> rs = []"
  by (cases t) (simp_all add: store_new_def)

lemma store_inv_new [simp]: "store_inv store_new" "store_rows store_new = []" "store_len store_new = 0"
proof -
  show len: "store_len store_new = 0" by (simp add: store_len_def store_new_def layered_defs)
  have cell: "cell store_new i = None" for i
    by (simp add: cell_def store_new_def layered_defs)
  have sealed: "lm_sealed lm_default = False" "ls_sealed ls_default = False" "lv_sealed lv_default = False"
      "lv_prefix_overrides_enabled lv_default = False" "lm_prefix_overrides_enabled lm_default = False"
    by (simp_all add: layered_defs)
  have "rows_inv store_new" using side_rows_new by (auto simp: rows_inv_def len cell)
  then show "store_inv store_new"
    by (simp add: store_inv_def columns_inv_def tables_inv_def side_maps_inv_def column_inv_def
        plain_map_def store_new_def sealed)
  show "store_rows store_new = []" by (simp add: store_rows_def len)
qed

section \<open>Appending a row\<close>

lemma column_push [row_simps]:
  "column_inv b v \<Longrightarrow> column_inv b (snd (lv_push_local v x))"
  "lv_len (snd (lv_push_local v x)) = Suc (lv_len v)"
  "lv_base_len (snd (lv_push_local v x)) = lv_base_len v"
  "lv_sealed (snd (lv_push_local v x)) = lv_sealed v"
  "lv_list (snd (lv_push_local v x)) = lv_list v @ [x]"
  "lv_get (snd (lv_push_local v x)) i = (if i = lv_len v then Some x else lv_get v i)"
  by (simp_all add: column_inv_def lv_inv_push lv_list_push)
     (auto simp: layered_defs nth_opt_def nth_append split: option.splits)

lemma row_of_less: "row_of s t p = Some r \<Longrightarrow> side_rows s t = Some rs \<Longrightarrow> unat p < length rs"
  by (auto simp: row_of_def nth_opt_eq_Some)

lemma side_base_le:
  "side_base s t = Some b \<Longrightarrow> \<exists>rs. side_rows s t = Some rs \<and> b \<le> length rs"
  by (cases t) (auto simp: length_lv_list layered_defs)

lemma side_base_rows: "side_rows s t = None \<longleftrightarrow> side_base s t = None"
  by (cases t) simp_all

text \<open>The state after the side table has taken the value and before the hot columns are pushed.\<close>

definition table_grown :: "store \<Rightarrow> store \<Rightarrow> type_tag \<Rightarrow> u32 \<Rightarrow> ty_row \<Rightarrow> bool" where
  "table_grown s s1 t p r \<longleftrightarrow>
     st_tag s1 = st_tag s \<and> st_flags s1 = st_flags s \<and> st_payload s1 = st_payload s \<and>
     st_stable_hash s1 = st_stable_hash s \<and> tables_inv (lv_sealed (st_tag s)) s1 \<and>
     side_maps_inv (lv_sealed (st_tag s)) s1 \<and> side_base s1 = side_base s \<and>
     (case side_rows s t of
        None \<Rightarrow> side_rows s1 = side_rows s \<and> inline_row t p = Some r
      | Some rs \<Rightarrow> side_rows s1 = (side_rows s)(t := Some (rs @ [r])) \<and> p = word_of_nat (length rs))"

text \<open>What an append does to the arena.\<close>

definition row_appended :: "store \<Rightarrow> type_id \<Rightarrow> store \<Rightarrow> ty_row \<Rightarrow> bool" where
  "row_appended s tid s' r \<longleftrightarrow>
     store_inv s' \<and> store_rows s' = store_rows s @ [r] \<and> tid = word_of_nat (store_len s) \<and>
     store_base_len s' = store_base_len s \<and> lv_sealed (st_tag s') = lv_sealed (st_tag s)"

lemma row_of_grown:
  assumes "table_grown s s1 t p r" "row_of s t' p' = Some r'"
  shows "row_of s1 t' p' = Some r'"
proof (cases "side_rows s t")
  case None
  with assms show ?thesis by (simp add: table_grown_def row_of_def)
next
  case (Some rs)
  with assms show ?thesis
    by (auto simp: table_grown_def row_of_def nth_opt_append nth_opt_eq_Some split: option.splits if_splits)
qed

lemma grown_payload:
  assumes "table_grown s s1 t p r" "rows_inv s" "store_len s < 2 ^ 32" "side_rows s t = Some rs"
  shows "unat p = length rs"
proof -
  from assms have "length rs \<le> store_len s" "p = word_of_nat (length rs)"
    by (auto simp: rows_inv_def table_grown_def)
  with assms(3) show ?thesis by (metis unat_of_len_u32 order_le_less_trans)
qed

lemma row_of_grown_new:
  assumes "table_grown s s1 t p r" "rows_inv s" "store_len s < 2 ^ 32"
  shows "row_of s1 t p = Some r"
proof (cases "side_rows s t")
  case None
  with assms show ?thesis by (simp add: table_grown_def row_of_def)
next
  case (Some rs)
  with grown_payload [OF assms] assms(1) show ?thesis
    by (simp add: table_grown_def row_of_def nth_opt_snoc)
qed

lemma cell_push:
  "columns_inv b s \<Longrightarrow> st_tag s1 = st_tag s \<Longrightarrow> st_payload s1 = st_payload s \<Longrightarrow>
   cell (snd (push s1 t fl p)) i = (if i = store_len s then Some (t, p) else cell s i)"
  by (auto simp: cell_def push_def row_simps columns_inv_def store_len_def)

lemma all_tags: "(\<forall>t. P t) \<longleftrightarrow> list_all P
   [Tag_Intrinsic, Tag_Literal, Tag_Object, Tag_Union, Tag_Intersection, Tag_Function, Tag_TypeParam, Tag_Array,
    Tag_Tuple, Tag_Readonly, Tag_Conditional, Tag_Instantiation, Tag_Infer, Tag_Mapped, Tag_MappedValue,
    Tag_Template, Tag_Keyof, Tag_ClassInstance, Tag_DeferredIndexedAccess, Tag_Declared]"
  (is "?l \<longleftrightarrow> ?r")
proof
  show "?l \<Longrightarrow> ?r" by simp
  assume ?r
  then show ?l by (intro allI, case_tac t) simp_all
qed

lemma side_push [row_simps]:
  "side_rows (snd (push s t fl p)) = side_rows s" "side_base (snd (push s t fl p)) = side_base s"
  by (rule ext, case_tac x) (simp_all add: push_def, rule ext, case_tac x, simp_all)

lemma store_len_push [row_simps]:
  "store_len (snd (push s t fl p)) = Suc (store_len s)"
  "store_base_len (snd (push s t fl p)) = store_base_len s"
  "lv_sealed (st_tag (snd (push s t fl p))) = lv_sealed (st_tag s)"
  by (simp_all add: store_len_def store_base_len_def push_def row_simps)

lemma push_columns:
  "columns_inv b s \<Longrightarrow> columns_inv b (snd (push s t fl p))"
  "tables_inv b s \<Longrightarrow> tables_inv b (snd (push s t fl p))"
  "side_maps_inv b s \<Longrightarrow> side_maps_inv b (snd (push s t fl p))"
  by (simp_all add: columns_inv_def tables_inv_def side_maps_inv_def push_def row_simps)

lemma push_row:
  assumes inv: "store_inv s" and len: "store_len s < 2 ^ 32" and g: "table_grown s s1 t p r"
  shows "row_appended s (fst (push s1 t fl p)) (snd (push s1 t fl p)) r"
proof -
  let ?s = "snd (push s1 t fl p)"
  have cols: "columns_inv (lv_sealed (st_tag s)) s" and rows: "rows_inv s"
    using inv by (auto simp: store_inv_def)
  have eqs: "st_tag s1 = st_tag s" "st_payload s1 = st_payload s"
      "st_flags s1 = st_flags s" "st_stable_hash s1 = st_stable_hash s"
      "store_len s1 = store_len s" "store_base_len s1 = store_base_len s"
    using g by (auto simp: table_grown_def store_len_def store_base_len_def)
  note c = cell_push [OF cols eqs(1,2), of t fl p]
  have ro: "row_of ?s = row_of s1" by (simp add: row_of_def row_simps fun_eq_iff)
  have old: "row_at ?s i = row_at s i" if "i < store_len s" for i
  proof -
    from that rows obtain r' where "row_at s i = Some r'" by (auto simp: rows_inv_def)
    moreover then have "row_at ?s i = Some r'"
      using that row_of_grown [OF g] by (auto simp: row_at_def c ro bind_eq_Some_conv)
    ultimately show ?thesis by simp
  qed
  have new: "row_at ?s (store_len s) = Some r"
    using row_of_grown_new [OF g rows len] by (simp add: row_at_def c ro)
  have below: "unat p' < length rs" "i < store_len s"
    if "cell s i = Some (t, p')" "side_rows s t = Some rs" for i p' rs
  proof -
    show "i < store_len s" using cell_defined [OF cols] that by blast
    with rows obtain r' where "row_at s i = Some r'" by (auto simp: rows_inv_def)
    with that show "unat p' < length rs" by (auto simp: row_at_def row_of_less)
  qed
  have fresh: "unat p = length rs" if "side_rows s t = Some rs" for rs
    using grown_payload [OF g rows len that] .
  have "rows_inv ?s"
    unfolding rows_inv_def
  proof (intro conjI allI impI)
    fix i assume "i < store_len ?s"
    then show "row_at ?s i \<noteq> None" using old new rows
      by (cases "i < store_len s") (auto simp: row_simps eqs rows_inv_def less_Suc_eq)
  next
    fix i j t' p' assume a: "cell ?s i = Some (t', p')" "cell ?s j = Some (t', p')" "side_rows ?s t' \<noteq> None"
    then have "side_rows s t' \<noteq> None" using g by (auto simp: row_simps table_grown_def split: option.splits if_splits)
    with a show "i = j" using rows below fresh
      by (auto simp: c rows_inv_def split: if_splits) (metis less_irrefl option.exhaust)+
  next
    fix t' rs assume "side_rows ?s t' = Some rs"
    then obtain rs' where "side_rows s t' = Some rs'" "length rs \<le> Suc (length rs')" using g
      by (auto simp: row_simps table_grown_def split: option.splits if_splits)
    with rows show "length rs \<le> store_len ?s" by (fastforce simp: row_simps eqs rows_inv_def)
  next
    fix i t' p' b assume a: "cell ?s i = Some (t', p')" "side_base ?s t' = Some b"
    from a(2) have sb: "side_base s t' = Some b" using g by (simp add: row_simps table_grown_def)
    have bl: "store_base_len s \<le> store_len s" by (simp add: store_base_len_def store_len_def layered_defs)
    show "unat p' < b \<longleftrightarrow> i < store_base_len ?s"
    proof (cases "i = store_len s")
      case True
      with a c have "t' = t" "p' = p" by auto
      with side_base_le [OF sb] fresh show ?thesis using True bl by (auto simp: row_simps eqs)
    next
      case False
      with a(1) c have "cell s i = Some (t', p')" by simp
      with rows sb show ?thesis by (auto simp: rows_inv_def row_simps eqs)
    qed
  qed
  moreover have "columns_inv (lv_sealed (st_tag s)) s1" using cols eqs by (simp add: columns_inv_def)
  ultimately have inv': "store_inv ?s" using g
    by (simp add: store_inv_def row_simps eqs push_columns table_grown_def)
  have "store_rows ?s = store_rows s @ [r]"
    using old new by (simp add: store_rows_def row_simps eqs)
  with inv' show ?thesis
    by (simp add: row_appended_def row_simps eqs) (simp add: push_def eqs store_len_def)
qed

lemma tables_grown_defs: "store_inv s \<Longrightarrow> tables_inv (lv_sealed (st_tag s)) s \<and> side_maps_inv (lv_sealed (st_tag s)) s"
  by (simp add: store_inv_def)

lemma grown_table:
  assumes "store_inv s"
  shows
    "table_grown s (s\<lparr>st_literals := snd (lv_push_local (st_literals s) v0)\<rparr>) Tag_Literal (word_of_nat (lv_len (st_literals s))) (Row_Literal v0)"
    "table_grown s (s\<lparr>st_objects := snd (lv_push_local (st_objects s) v1)\<rparr>) Tag_Object (word_of_nat (lv_len (st_objects s))) (Row_Object v1)"
    "table_grown s (s\<lparr>st_functions := snd (lv_push_local (st_functions s) v2)\<rparr>) Tag_Function (word_of_nat (lv_len (st_functions s))) (Row_Function v2)"
    "table_grown s (s\<lparr>st_unions := snd (lv_push_local (st_unions s) v3)\<rparr>) Tag_Union (word_of_nat (lv_len (st_unions s))) (Row_Union v3)"
    "table_grown s (s\<lparr>st_intersections := snd (lv_push_local (st_intersections s) v4)\<rparr>) Tag_Intersection (word_of_nat (lv_len (st_intersections s))) (Row_Intersection v4)"
    "table_grown s (s\<lparr>st_arrays := snd (lv_push_local (st_arrays s) v5)\<rparr>) Tag_Array (word_of_nat (lv_len (st_arrays s))) (Row_Array v5)"
    "table_grown s (s\<lparr>st_tuples := snd (lv_push_local (st_tuples s) v6)\<rparr>) Tag_Tuple (word_of_nat (lv_len (st_tuples s))) (Row_Tuple v6)"
    "table_grown s (s\<lparr>st_conditionals := snd (lv_push_local (st_conditionals s) v7)\<rparr>) Tag_Conditional (word_of_nat (lv_len (st_conditionals s))) (Row_Conditional v7)"
    "table_grown s (s\<lparr>st_instantiations := snd (lv_push_local (st_instantiations s) v8)\<rparr>) Tag_Instantiation (word_of_nat (lv_len (st_instantiations s))) (Row_Instantiation v8)"
    "table_grown s (s\<lparr>st_mapped := snd (lv_push_local (st_mapped s) v9)\<rparr>) Tag_Mapped (word_of_nat (lv_len (st_mapped s))) (Row_Mapped v9)"
    "table_grown s (s\<lparr>st_templates := snd (lv_push_local (st_templates s) v10)\<rparr>) Tag_Template (word_of_nat (lv_len (st_templates s))) (Row_Template v10)"
    "table_grown s (s\<lparr>st_class_instances := snd (lv_push_local (st_class_instances s) v11)\<rparr>) Tag_ClassInstance (word_of_nat (lv_len (st_class_instances s))) (Row_ClassInstance v11)"
    "table_grown s (s\<lparr>st_deferred_indexed_accesses := snd (lv_push_local (st_deferred_indexed_accesses s) v12)\<rparr>) Tag_DeferredIndexedAccess (word_of_nat (lv_len (st_deferred_indexed_accesses s))) (Row_DeferredIndexedAccess v12)"
    "table_grown s (s\<lparr>st_declared_types := snd (lv_push_local (st_declared_types s) v13)\<rparr>) Tag_Declared (word_of_nat (lv_len (st_declared_types s))) (Row_Declared v13)"
  using tables_grown_defs [OF assms]
  by (simp_all add: table_grown_def tables_inv_def side_maps_inv_def row_simps length_lv_list fun_eq_iff all_tags)


lemma grown_inline:
  assumes "store_inv s"
  shows
    "table_grown s s Tag_Intrinsic (intrinsic_code k) (Row_Intrinsic k)"
    "table_grown s s Tag_Readonly operand (Row_Readonly operand)"
    "table_grown s s Tag_Infer index (Row_Infer index)"
    "table_grown s s Tag_MappedValue 0 Row_MappedValue"
    "table_grown s s Tag_Keyof operand (Row_Keyof operand)"
  using tables_grown_defs [OF assms]
  by (simp_all add: table_grown_def)

text \<open>Every append helper adds exactly the row it is named after.\<close>

lemma push_rows [row_simps]:
  assumes "store_inv s" "store_len s < 2 ^ 32"
  shows
    "row_appended s (fst (push_intrinsic s k fl)) (snd (push_intrinsic s k fl)) (Row_Intrinsic k)"
    "row_appended s (fst (push_readonly s operand fl)) (snd (push_readonly s operand fl)) (Row_Readonly operand)"
    "row_appended s (fst (push_infer s index fl)) (snd (push_infer s index fl)) (Row_Infer index)"
    "row_appended s (fst (push_mapped_value s fl)) (snd (push_mapped_value s fl)) Row_MappedValue"
    "row_appended s (fst (push_keyof s operand fl)) (snd (push_keyof s operand fl)) (Row_Keyof operand)"
    "row_appended s (fst (push_literal s v0 fl)) (snd (push_literal s v0 fl)) (Row_Literal v0)"
    "row_appended s (fst (push_object s v1 fl)) (snd (push_object s v1 fl)) (Row_Object v1)"
    "row_appended s (fst (push_function s v2 fl)) (snd (push_function s v2 fl)) (Row_Function v2)"
    "row_appended s (fst (push_union s v3 fl)) (snd (push_union s v3 fl)) (Row_Union v3)"
    "row_appended s (fst (push_intersection s v4 fl)) (snd (push_intersection s v4 fl)) (Row_Intersection v4)"
    "row_appended s (fst (push_array s v5 fl)) (snd (push_array s v5 fl)) (Row_Array v5)"
    "row_appended s (fst (push_tuple s v6 fl)) (snd (push_tuple s v6 fl)) (Row_Tuple v6)"
    "row_appended s (fst (push_conditional s v7 fl)) (snd (push_conditional s v7 fl)) (Row_Conditional v7)"
    "row_appended s (fst (push_instantiation s v8 fl)) (snd (push_instantiation s v8 fl)) (Row_Instantiation v8)"
    "row_appended s (fst (push_mapped s v9 fl)) (snd (push_mapped s v9 fl)) (Row_Mapped v9)"
    "row_appended s (fst (push_template s v10 fl)) (snd (push_template s v10 fl)) (Row_Template v10)"
  unfolding push_intrinsic_def push_readonly_def push_infer_def push_mapped_value_def push_keyof_def
    push_literal_def push_object_def push_function_def push_union_def push_intersection_def push_array_def
    push_tuple_def push_conditional_def push_instantiation_def push_mapped_def push_template_def Let_def
  by (rule push_row [OF assms], rule grown_inline grown_table, rule assms)+

lemma side_len_bound:
  assumes "store_inv s" "store_len s < 2 ^ 32"
  shows "lv_len (st_class_instances s) < 2 ^ 32" "lv_len (st_deferred_indexed_accesses s) < 2 ^ 32"
    "lv_len (st_declared_types s) < 2 ^ 32"
proof -
  have "length rs < 2 ^ 32" if "side_rows s t = Some rs" for t rs
  proof -
    from assms(1) that have "length rs \<le> store_len s" unfolding store_inv_def rows_inv_def by blast
    with assms(2) show ?thesis by (rule order_le_less_trans [rotated])
  qed
  from this [of Tag_ClassInstance] this [of Tag_DeferredIndexedAccess] this [of Tag_Declared]
  show "lv_len (st_class_instances s) < 2 ^ 32" "lv_len (st_deferred_indexed_accesses s) < 2 ^ 32"
    "lv_len (st_declared_types s) < 2 ^ 32"
    by (auto simp: length_lv_list)
qed

text \<open>The checked casts of the newer tables do not panic below the arena's capacity.\<close>

lemma push_checked_rows:
  assumes "store_inv s" "store_len s < 2 ^ 32"
  shows
    "\<exists>tid s'. push_class_instance s ci fl = Some (tid, s') \<and> row_appended s tid s' (Row_ClassInstance ci)"
    "\<exists>tid s'. push_deferred_indexed_access s di fl = Some (tid, s') \<and>
       row_appended s tid s' (Row_DeferredIndexedAccess di)"
    "\<exists>tid s'. push_declared s de fl = Some (tid, s') \<and> row_appended s tid s' (Row_Declared de)"
proof -
  note b = side_len_bound [OF assms] and p = push_row [OF assms] and g = grown_table [OF assms(1)]
  show "\<exists>tid s'. push_class_instance s ci fl = Some (tid, s') \<and> row_appended s tid s' (Row_ClassInstance ci)"
    using p [OF g(12), of ci fl] b by (simp add: push_class_instance_def u32_try_from_def) (metis prod.collapse)
  show "\<exists>tid s'. push_deferred_indexed_access s di fl = Some (tid, s') \<and>
       row_appended s tid s' (Row_DeferredIndexedAccess di)"
    using p [OF g(13), of di fl] b
    by (simp add: push_deferred_indexed_access_def u32_try_from_def) (metis prod.collapse)
  show "\<exists>tid s'. push_declared s de fl = Some (tid, s') \<and> row_appended s tid s' (Row_Declared de)"
    using p [OF g(14), of de fl] b by (simp add: push_declared_def u32_try_from_def) (metis prod.collapse)
qed

text \<open>A type parameter keeps the display name its id was first pushed with.\<close>

definition retained_param :: "store \<Rightarrow> type_param_type \<Rightarrow> type_param_type" where
  "retained_param s param =
     (case type_param_name s (tp_id param) of Some name \<Rightarrow> param\<lparr>tp_name := name\<rparr> | None \<Rightarrow> param)"

lemma append_only_sealed:
  "lm_inv m \<Longrightarrow> lm_inv (snd (lm_insert_append_only m k v))"
  "lm_sealed (snd (lm_insert_append_only m k v)) = lm_sealed m"
  "lm_prefix_overrides_enabled (snd (lm_insert_append_only m k v)) = lm_prefix_overrides_enabled m"
  by (auto simp: lm_insert_append_only_def lm_inv_def lm_ok_def split: option.splits)

lemma append_only_fst: "lm_inv m \<Longrightarrow> \<not> lm_prefix_overrides_enabled m \<Longrightarrow> fst (lm_insert_append_only m k v) = lm_get m k"
  using lm_okD [of m k]
  by (auto simp: lm_insert_append_only_def lm_ok_def lm_get_def split: option.splits if_splits)

lemma push_type_param_row:
  assumes "store_inv s" "store_len s < 2 ^ 32"
  shows "row_appended s (fst (push_type_param s param fl)) (snd (push_type_param s param fl))
    (Row_TypeParam (retained_param s param))"
proof -
  note inv = tables_grown_defs [OF assms(1)]
  obtain retained names where ins:
      "lm_insert_append_only (st_type_param_names s) (tp_id param) (tp_name param) = (retained, names)"
    by fastforce
  have names: "plain_map (lv_sealed (st_tag s)) names" "retained = type_param_name s (tp_id param)"
    using append_only_sealed [of "st_type_param_names s" "tp_id param" "tp_name param"]
      append_only_fst [of "st_type_param_names s" "tp_id param" "tp_name param"] inv ins
    by (auto simp: side_maps_inv_def plain_map_def type_param_name_def)
  have "table_grown s (s\<lparr>st_type_param_names := names,
      st_type_params := snd (lv_push_local (st_type_params s) (retained_param s param))\<rparr>)
      Tag_TypeParam (word_of_nat (lv_len (st_type_params s))) (Row_TypeParam (retained_param s param))"
    using inv names
    by (simp add: table_grown_def tables_inv_def side_maps_inv_def row_simps length_lv_list fun_eq_iff all_tags)
  from push_row [OF assms this, of fl] show ?thesis
    by (simp add: push_type_param_def ins Let_def names(2) [symmetric]) (simp add: retained_param_def names(2))
qed


section \<open>Accessors on the list of rows\<close>

fun row_tag :: "ty_row \<Rightarrow> type_tag" where
  "row_tag (Row_Intrinsic _) = Tag_Intrinsic"
| "row_tag (Row_Literal _) = Tag_Literal"
| "row_tag (Row_Object _) = Tag_Object"
| "row_tag (Row_Union _) = Tag_Union"
| "row_tag (Row_Intersection _) = Tag_Intersection"
| "row_tag (Row_Function _) = Tag_Function"
| "row_tag (Row_TypeParam _) = Tag_TypeParam"
| "row_tag (Row_Array _) = Tag_Array"
| "row_tag (Row_Tuple _) = Tag_Tuple"
| "row_tag (Row_Readonly _) = Tag_Readonly"
| "row_tag (Row_Conditional _) = Tag_Conditional"
| "row_tag (Row_Instantiation _) = Tag_Instantiation"
| "row_tag (Row_Infer _) = Tag_Infer"
| "row_tag (Row_Mapped _) = Tag_Mapped"
| "row_tag Row_MappedValue = Tag_MappedValue"
| "row_tag (Row_Template _) = Tag_Template"
| "row_tag (Row_Keyof _) = Tag_Keyof"
| "row_tag (Row_ClassInstance _) = Tag_ClassInstance"
| "row_tag (Row_DeferredIndexedAccess _) = Tag_DeferredIndexedAccess"
| "row_tag (Row_Declared _) = Tag_Declared"

lemma row_tag_of: "row_of s t p = Some r \<Longrightarrow> row_tag r = t"
  by (cases t) (auto simp: row_of_def nth_opt_map)

lemma store_cell:
  assumes "store_inv s"
  obtains (outside) "nth_opt (store_rows s) (unat tid) = None" "tag s tid = None" "payload s tid = None"
        "store_len s \<le> unat tid"
    | (inside) r p where "nth_opt (store_rows s) (unat tid) = Some r" "tag s tid = Some (row_tag r)"
        "payload s tid = Some p" "row_of s (row_tag r) p = Some r" "cell s (unat tid) = Some (row_tag r, p)"
        "unat tid < store_len s"
proof (cases "unat tid < store_len s")
  case True
  have cols: "columns_inv (lv_sealed (st_tag s)) s" using assms by (simp add: store_inv_def)
  from True cell_defined [OF cols] obtain t p where c: "cell s (unat tid) = Some (t, p)" by blast
  from True row_at_rows [OF assms, of "unat tid"] obtain r where
    r: "nth_opt (store_rows s) (unat tid) = Some r" "row_at s (unat tid) = Some r"
    by (auto simp: nth_opt_def)
  with c have "row_of s t p = Some r" by (simp add: row_at_def)
  moreover then have "row_tag r = t" by (rule row_tag_of)
  moreover have "tag s tid = Some t" "payload s tid = Some p"
    using c by (auto simp: cell_def tag_def payload_def lv_index_def bind_eq_Some_conv)
  ultimately show ?thesis using r c True inside by auto
next
  case False
  then have "tag s tid = None" "payload s tid = None" using assms
    by (simp_all add: tag_def payload_def lv_index_def lv_get_list nth_opt_eq_None length_lv_list
        store_inv_def columns_inv_def store_len_def)
  with False show ?thesis using outside by (simp add: nth_opt_def)
qed

text \<open>
  An accessor panics exactly outside the arena, answers \<open>None\<close> on a row of another kind, and
  returns the row's value otherwise.
\<close>

lemma accessor_rows:
  assumes inv: "store_inv s"
  shows
    "tag s tid = map_option row_tag (nth_opt (store_rows s) (unat tid))"
    "intrinsic_kind_of s tid = map_option (\<lambda>r. case r of Row_Intrinsic v \<Rightarrow> Some v | _ \<Rightarrow> None) (nth_opt (store_rows s) (unat tid))"
    "literal_value_of s tid = map_option (\<lambda>r. case r of Row_Literal v \<Rightarrow> Some v | _ \<Rightarrow> None) (nth_opt (store_rows s) (unat tid))"
    "object_type_of s tid = map_option (\<lambda>r. case r of Row_Object v \<Rightarrow> Some v | _ \<Rightarrow> None) (nth_opt (store_rows s) (unat tid))"
    "function_type_of s tid = map_option (\<lambda>r. case r of Row_Function v \<Rightarrow> Some v | _ \<Rightarrow> None) (nth_opt (store_rows s) (unat tid))"
    "type_param_of s tid = map_option (\<lambda>r. case r of Row_TypeParam v \<Rightarrow> Some v | _ \<Rightarrow> None) (nth_opt (store_rows s) (unat tid))"
    "array_type_of s tid = map_option (\<lambda>r. case r of Row_Array v \<Rightarrow> Some v | _ \<Rightarrow> None) (nth_opt (store_rows s) (unat tid))"
    "tuple_type_of s tid = map_option (\<lambda>r. case r of Row_Tuple v \<Rightarrow> Some v | _ \<Rightarrow> None) (nth_opt (store_rows s) (unat tid))"
    "conditional_type_of s tid = map_option (\<lambda>r. case r of Row_Conditional v \<Rightarrow> Some v | _ \<Rightarrow> None) (nth_opt (store_rows s) (unat tid))"
    "instantiation_type_of s tid = map_option (\<lambda>r. case r of Row_Instantiation v \<Rightarrow> Some v | _ \<Rightarrow> None) (nth_opt (store_rows s) (unat tid))"
    "class_instance_type_of s tid = map_option (\<lambda>r. case r of Row_ClassInstance v \<Rightarrow> Some v | _ \<Rightarrow> None) (nth_opt (store_rows s) (unat tid))"
    "deferred_indexed_access_type_of s tid = map_option (\<lambda>r. case r of Row_DeferredIndexedAccess v \<Rightarrow> Some v | _ \<Rightarrow> None) (nth_opt (store_rows s) (unat tid))"
    "declared_type_of s tid = map_option (\<lambda>r. case r of Row_Declared v \<Rightarrow> Some v | _ \<Rightarrow> None) (nth_opt (store_rows s) (unat tid))"
    "mapped_type_of s tid = map_option (\<lambda>r. case r of Row_Mapped v \<Rightarrow> Some v | _ \<Rightarrow> None) (nth_opt (store_rows s) (unat tid))"
    "template_type_of s tid = map_option (\<lambda>r. case r of Row_Template v \<Rightarrow> Some v | _ \<Rightarrow> None) (nth_opt (store_rows s) (unat tid))"
    "union_members s tid = map_option (\<lambda>r. case r of Row_Union v \<Rightarrow> Some v | _ \<Rightarrow> None) (nth_opt (store_rows s) (unat tid))"
    "intersection_members s tid = map_option (\<lambda>r. case r of Row_Intersection v \<Rightarrow> Some v | _ \<Rightarrow> None) (nth_opt (store_rows s) (unat tid))"
    "readonly_operand s tid = map_option (\<lambda>r. case r of Row_Readonly v \<Rightarrow> Some v | _ \<Rightarrow> None) (nth_opt (store_rows s) (unat tid))"
    "infer_index s tid = map_option (\<lambda>r. case r of Row_Infer v \<Rightarrow> Some v | _ \<Rightarrow> None) (nth_opt (store_rows s) (unat tid))"
    "keyof_operand s tid = map_option (\<lambda>r. case r of Row_Keyof v \<Rightarrow> Some v | _ \<Rightarrow> None) (nth_opt (store_rows s) (unat tid))"
  by (rule store_cell [OF inv, of tid]; simp add: store_defs split: ty_row.split; auto simp: row_of_def nth_opt_map lv_get_list)+


section \<open>In-place replacement, sealing and forking on the list of rows\<close>

lemma column_put:
  "lv_get_mut_local v i = Some (x, put) \<Longrightarrow> column_inv b v \<Longrightarrow> column_inv b (put y)"
  "lv_get_mut_local v i = Some (x, put) \<Longrightarrow> lv_base_len (put y) = lv_base_len v"
  "lv_get_mut_local v i = Some (x, put) \<Longrightarrow> lv_list (put y) = (lv_list v)[i := y]"
proof -
  assume "lv_get_mut_local v i = Some (x, put)"
  moreover from this have "lv_prefix_overrides_enabled (put y) = lv_prefix_overrides_enabled v"
      "lv_sealed (put y) = lv_sealed v" "lv_base_len (put y) = lv_base_len v"
    by (auto simp: lv_get_mut_local_def Let_def bind_eq_Some_conv lv_base_len_def split: if_splits)
  ultimately show "column_inv b v \<Longrightarrow> column_inv b (put y)" "lv_base_len (put y) = lv_base_len v"
      "lv_list (put y) = (lv_list v)[i := y]"
    by (auto simp: column_inv_def lv_get_mut_list dest: lv_get_mut_inv [where y = y])
qed

lemma column_mut:
  "column_inv b v \<Longrightarrow> i < lv_len v \<Longrightarrow> lv_base_len v \<le> i \<Longrightarrow>
     \<exists>x put. lv_get_mut_local v i = Some (x, put)"
  using lv_get_mut_defined [of v i] by auto

definition row_replaced :: "store \<Rightarrow> type_id \<Rightarrow> store \<Rightarrow> ty_row \<Rightarrow> bool" where
  "row_replaced s tid s' r \<longleftrightarrow>
     store_inv s' \<and> store_rows s' = (store_rows s)[unat tid := r] \<and> store_len s' = store_len s \<and>
     store_base_len s' = store_base_len s \<and> lv_sealed (st_tag s') = lv_sealed (st_tag s)"

lemma table_put:
  assumes inv: "store_inv s" and tid: "nth_opt (store_rows s) (unat tid) = Some r0"
    and p: "payload s tid = Some p"
    and cols: "st_tag s1 = st_tag s" "st_payload s1 = st_payload s" "st_flags s1 = st_flags s"
      "st_stable_hash s1 = st_stable_hash s"
    and ok: "tables_inv (lv_sealed (st_tag s)) s1" "side_maps_inv (lv_sealed (st_tag s)) s1"
    and base: "side_base s1 = side_base s"
    and side: "side_rows s (row_tag r0) = Some rs" "side_rows s1 = (side_rows s)(row_tag r0 := Some (rs[unat p := r]))"
    and tag: "row_tag r = row_tag r0"
  shows "row_replaced s tid s1 r"
proof -
  let ?t = "row_tag r0" and ?i = "unat tid"
  have lens: "store_len s1 = store_len s" "store_base_len s1 = store_base_len s" and cell: "cell s1 = cell s"
    by (simp_all add: store_len_def store_base_len_def cols cell_def fun_eq_iff)
  have rows: "rows_inv s" and c0: "columns_inv (lv_sealed (st_tag s)) s" using inv by (auto simp: store_inv_def)
  have ci: "cell s ?i = Some (?t, p)" and ri: "row_of s ?t p = Some r0" and i: "?i < store_len s"
    by (rule store_cell [OF inv, of tid]; use tid p in auto)+
  have len: "unat p < length rs" using ri side(1) by (auto simp: row_of_def nth_opt_eq_Some)
  have at: "row_at s1 j = (if j = ?i then Some r else row_at s j)" for j
  proof (cases "cell s j")
    case None
    then show ?thesis using ci by (auto simp: row_at_def cell)
  next
    case (Some tp)
    obtain t q where tq: "tp = (t, q)" by fastforce
    have "t = ?t \<and> q = p \<longleftrightarrow> j = ?i"
      using rows Some ci side(1) unfolding tq rows_inv_def by (metis option.distinct(1) option.inject prod.inject)
    then show ?thesis using Some tq len side ci
      by (auto simp: row_at_def cell row_of_def nth_opt_update word_unat_eq_iff split: option.splits)
  qed
  have "length rs \<le> store_len s" using rows side(1) unfolding rows_inv_def by blast
  then have "rows_inv s1"
    using rows i unfolding rows_inv_def lens cell at base side(2)
    by (auto simp: side(1) split: if_splits)
  moreover have "columns_inv (lv_sealed (st_tag s)) s1" using c0 by (simp add: columns_inv_def cols)
  ultimately have "store_inv s1" using ok by (simp add: store_inv_def cols)
  moreover have "store_rows s1 = (store_rows s)[?i := r]"
    by (rule nth_equalityI) (auto simp: store_rows_def lens at nth_list_update)
  ultimately show ?thesis by (simp add: row_replaced_def lens cols)
qed

text \<open>
  Replacing the body of a row that is not frozen succeeds and changes that row only; the base is
  never written.
\<close>

lemma set_rows:
  assumes inv: "store_inv s" and local: "store_base_len s \<le> unat tid"
    and tid: "nth_opt (store_rows s) (unat tid) = Some r0"
  shows
    "r0 = Row_Object v0 \<Longrightarrow> \<exists>s'. set_object s tid v = Some s' \<and> row_replaced s tid s' (Row_Object v)"
    "r0 = Row_Conditional c0 \<Longrightarrow> \<exists>s'. set_conditional s tid c = Some s' \<and> row_replaced s tid s' (Row_Conditional c)"
    "r0 = Row_Mapped m0 \<Longrightarrow> \<exists>s'. set_mapped s tid m = Some s' \<and> row_replaced s tid s' (Row_Mapped m)"
proof -
  note T = tables_grown_defs [OF inv]
  obtain p where t: "tag s tid = Some (row_tag r0)" and p: "payload s tid = Some p"
      and ri: "row_of s (row_tag r0) p = Some r0" and c: "cell s (unat tid) = Some (row_tag r0, p)"
    by (rule store_cell [OF inv, of tid]) (use tid in auto)
  have frozen: "b \<le> unat p" if "side_base s (row_tag r0) = Some b" for b
    using inv c that local unfolding store_inv_def rows_inv_def by (metis not_le)
  show "\<exists>s'. set_object s tid v = Some s' \<and> row_replaced s tid s' (Row_Object v)" if r0: "r0 = Row_Object v0"
  proof -
    from frozen ri r0 T obtain x put where m: "lv_get_mut_local (st_objects s) (unat p) = Some (x, put)"
      using column_mut [of _ "st_objects s" "unat p"]
      by (fastforce simp: tables_inv_def row_of_def nth_opt_eq_Some length_lv_list)
    have "set_object s tid v = Some (s\<lparr>st_objects := put v\<rparr>)" by (simp add: set_object_def t p m r0)
    moreover note table_put [OF inv tid p, of "s\<lparr>st_objects := put v\<rparr>" _ "Row_Object v"]
    ultimately show ?thesis using T column_put [OF m, where y = v]
      by (simp add: r0 tables_inv_def side_maps_inv_def fun_eq_iff all_tags map_update)
  qed
  show "\<exists>s'. set_conditional s tid c = Some s' \<and> row_replaced s tid s' (Row_Conditional c)" if r0: "r0 = Row_Conditional c0" for c
  proof -
    from frozen ri r0 T obtain x put where m: "lv_get_mut_local (st_conditionals s) (unat p) = Some (x, put)"
      using column_mut [of _ "st_conditionals s" "unat p"]
      by (fastforce simp: tables_inv_def row_of_def nth_opt_eq_Some length_lv_list)
    have "set_conditional s tid c = Some (s\<lparr>st_conditionals := put c\<rparr>)" by (simp add: set_conditional_def t p m r0)
    moreover note table_put [OF inv tid p, of "s\<lparr>st_conditionals := put c\<rparr>" _ "Row_Conditional c"]
    ultimately show ?thesis using T column_put [OF m, where y = c]
      by (simp add: r0 tables_inv_def side_maps_inv_def fun_eq_iff all_tags map_update)
  qed
  show "\<exists>s'. set_mapped s tid m = Some s' \<and> row_replaced s tid s' (Row_Mapped m)" if r0: "r0 = Row_Mapped m0" for m
  proof -
    from frozen ri r0 T obtain x put where m: "lv_get_mut_local (st_mapped s) (unat p) = Some (x, put)"
      using column_mut [of _ "st_mapped s" "unat p"]
      by (fastforce simp: tables_inv_def row_of_def nth_opt_eq_Some length_lv_list)
    have "set_mapped s tid m = Some (s\<lparr>st_mapped := put m\<rparr>)" by (simp add: set_mapped_def t p m r0)
    moreover note table_put [OF inv tid p, of "s\<lparr>st_mapped := put m\<rparr>" _ "Row_Mapped m"]
    ultimately show ?thesis using T column_put [OF m, where y = m]
      by (simp add: r0 tables_inv_def side_maps_inv_def fun_eq_iff all_tags map_update)
  qed
qed


definition lv_frozen :: "'a layered_vec \<Rightarrow> 'a layered_vec" where
  "lv_frozen v = \<lparr>lv_base = lv_list v, lv_overrides = fmempty, lv_local = [], lv_sealed = True,
     lv_prefix_overrides_enabled = False\<rparr>"

lemma column_frozen:
  "column_inv False v \<Longrightarrow> lv_freeze_as_base v = Inr (lv_frozen v)"
  "column_inv b v \<Longrightarrow> lv_fork_delta v = (if lv_sealed v \<and> lv_local v = [] then Inr (lv_frozen v) else
     if lv_sealed v then Inl ''layered vector has an unpublished suffix''
     else Inl ''layered vector base is not sealed'')"
  "lv_list (lv_frozen v) = lv_list v" "lv_len (lv_frozen v) = lv_len v"
  "lv_base_len (lv_frozen v) = lv_len v" "column_inv True (lv_frozen v)" "lv_local (lv_frozen v) = []"
  "lv_sealed (lv_frozen v)"
proof -
  have [simp]: "map snd (enumerate n xs) = xs" for n :: nat and xs :: "'a list" by simp
  have flat: "lv_list v = lv_base v @ lv_local v" if "column_inv b v" for b
    using that by (auto simp: column_inv_def lv_inv_def lv_list_def case_prod_unfold)
  show "lv_freeze_as_base v = Inr (lv_frozen v)" if "column_inv False v"
    using that flat [OF that] by (auto simp: lv_freeze_as_base_def lv_frozen_def column_inv_def lv_inv_def)
  show "lv_fork_delta v = (if lv_sealed v \<and> lv_local v = [] then Inr (lv_frozen v) else
     if lv_sealed v then Inl ''layered vector has an unpublished suffix''
     else Inl ''layered vector base is not sealed'')" if "column_inv b v"
    using that flat [OF that] by (auto simp: lv_fork_delta_def lv_frozen_def column_inv_def lv_inv_def)
  show "lv_list (lv_frozen v) = lv_list v"
    by (simp add: lv_frozen_def lv_list_def case_prod_unfold)
  show "lv_len (lv_frozen v) = lv_len v" "lv_base_len (lv_frozen v) = lv_len v"
    by (simp_all add: lv_frozen_def layered_defs length_lv_list [unfolded lv_len_def])
  show "column_inv True (lv_frozen v)" "lv_local (lv_frozen v) = []" "lv_sealed (lv_frozen v)"
    by (simp_all add: lv_frozen_def column_inv_def lv_inv_def)
qed

lemma plain_map_frozen:
  assumes "plain_map False m"
  obtains w where "lm_freeze_as_base m = Inr w" "plain_map True w" "lm_get w = lm_get m" "lm_local w = fmempty"
    "lm_overrides w = fmempty" "lm_removed w = {||}"
proof -
  from assms lm_freeze_defined obtain w where w: "lm_freeze_as_base m = Inr w" by (auto simp: plain_map_def)
  moreover have "lm_overrides w = fmempty" "lm_removed w = {||}"
    using w by (auto simp: lm_freeze_as_base_def split: if_splits)
  ultimately show ?thesis using that lm_freeze_get [OF _ w] assms by (auto simp: plain_map_def)
qed

lemma frozen_set:
  assumes "ls_inv m" "\<not> ls_sealed m"
  obtains w where "ls_freeze_as_base m = Inr w" "ls_inv w" "ls_sealed w" "ls_contains w = ls_contains m"
    "ls_local w = {||}"
  using assms ls_freeze_defined ls_freeze_contains by metis

text \<open>A store whose columns keep their contents and are frozen as a whole keeps its rows.\<close>

lemma frozen_rows:
  assumes inv: "store_inv s"
    and cell: "cell s' = cell s" and side: "side_rows s' = side_rows s"
    and len: "store_len s' = store_len s" "store_base_len s' = store_len s"
    and base: "\<And>t rs. side_rows s' t = Some rs \<Longrightarrow> side_base s' t = Some (length rs)"
    and ok: "columns_inv True s'" "tables_inv True s'" "side_maps_inv True s'"
  shows "store_inv s' \<and> store_rows s' = store_rows s"
proof -
  have rows: "rows_inv s" and cols: "columns_inv (lv_sealed (st_tag s)) s"
    using inv by (auto simp: store_inv_def)
  have ro: "row_of s' = row_of s" by (simp add: row_of_def side fun_eq_iff)
  then have at: "row_at s' = row_at s" by (simp add: row_at_def cell fun_eq_iff)
  have "unat p < b \<longleftrightarrow> i < store_len s" if "cell s i = Some (t, p)" "side_base s' t = Some b" for i t p b
  proof -
    from side_base_le [OF that(2)] obtain rs where "side_rows s' t = Some rs" by blast
    with base [OF this] that(2) have "side_rows s t = Some rs" "b = length rs" by (simp_all add: side)
    moreover from that(1) cell_defined [OF cols] have i: "i < store_len s" by blast
    moreover from rows i that(1) obtain r where "row_of s t p = Some r"
      by (fastforce simp: rows_inv_def row_at_def)
    ultimately show ?thesis using row_of_less by blast
  qed
  then have "rows_inv s'" using rows unfolding rows_inv_def at cell side len by blast
  moreover have "lv_sealed (st_tag s')" using ok by (simp add: columns_inv_def column_inv_def)
  ultimately show ?thesis using ok by (simp add: store_inv_def store_rows_def at len)
qed

text \<open>The sealed form of a store, given the sealed form of its maps.\<close>

definition frozen_store :: "store \<Rightarrow> (type_param_id, string) layered_map \<Rightarrow> (type_param_id, type_id) layered_map \<Rightarrow>
    (type_id, string) layered_map \<Rightarrow> type_param_id layered_set \<Rightarrow> nat \<Rightarrow> type_param_id fset \<Rightarrow> store" where
  "frozen_store s names constraints templates frozen identity ids = s\<lparr>
     st_tag := lv_frozen (st_tag s),
     st_flags := lv_frozen (st_flags s),
     st_payload := lv_frozen (st_payload s),
     st_literals := lv_frozen (st_literals s),
     st_objects := lv_frozen (st_objects s),
     st_unions := lv_frozen (st_unions s),
     st_intersections := lv_frozen (st_intersections s),
     st_functions := lv_frozen (st_functions s),
     st_type_params := lv_frozen (st_type_params s),
     st_arrays := lv_frozen (st_arrays s),
     st_tuples := lv_frozen (st_tuples s),
     st_conditionals := lv_frozen (st_conditionals s),
     st_instantiations := lv_frozen (st_instantiations s),
     st_class_instances := lv_frozen (st_class_instances s),
     st_deferred_indexed_accesses := lv_frozen (st_deferred_indexed_accesses s),
     st_declared_recipes := lv_frozen (st_declared_recipes s),
     st_declared_types := lv_frozen (st_declared_types s),
     st_mapped := lv_frozen (st_mapped s),
     st_templates := lv_frozen (st_templates s),
     st_stable_hash := lv_frozen (st_stable_hash s),
     st_type_param_names := names, st_type_param_constraints := constraints,
     st_template_names := templates, st_frozen_type_params := frozen,
     st_semantic_graph_identity := identity, st_sealed_type_param_ids := ids\<rparr>"

lemma frozen_store_rows:
  fixes identity :: nat and ids :: "type_param_id fset"
  assumes "store_inv s" "plain_map True names" "plain_map True constraints" "plain_map True templates"
    "ls_inv frozen" "ls_sealed frozen"
  defines "s' \<equiv> frozen_store s names constraints templates frozen identity ids"
  shows "store_inv s' \<and> store_rows s' = store_rows s \<and> store_base_len s' = store_len s \<and> lv_sealed (st_tag s')"
proof -
  have "cell s' = cell s" "side_rows s' = side_rows s" "store_len s' = store_len s" "store_base_len s' = store_len s"
    by (simp_all add: s'_def frozen_store_def cell_def lv_get_list column_frozen store_len_def store_base_len_def
        fun_eq_iff all_tags)
  moreover have "\<forall>t rs. side_rows s' t = Some rs \<longrightarrow> side_base s' t = Some (length rs)"
    by (simp add: all_tags s'_def frozen_store_def column_frozen length_lv_list)
  moreover have "columns_inv True s'" "tables_inv True s'" "side_maps_inv True s'"
    using assms(1-6)
    by (simp_all add: columns_inv_def tables_inv_def side_maps_inv_def s'_def frozen_store_def column_frozen
        store_inv_def)
  ultimately have "store_inv s' \<and> store_rows s' = store_rows s" using frozen_rows [OF assms(1)] by blast
  moreover have "lv_sealed (st_tag s')" by (simp add: s'_def frozen_store_def column_frozen)
  ultimately show ?thesis using \<open>store_base_len s' = store_len s\<close> by blast
qed

lemma plain_map_fork: "lm_fork_delta m = Inr w \<Longrightarrow> plain_map True w"
  using lm_fork_get [of m w] by (auto simp: plain_map_def lm_fork_delta_def split: if_splits)

definition lv_published :: "'a layered_vec \<Rightarrow> bool" where
  "lv_published v \<longleftrightarrow> lv_sealed v \<and> lv_local v = []"

lemma and_then_fork:
  "column_inv b v \<Longrightarrow>
     and_then (lv_fork_delta v) f = Inr d \<longleftrightarrow> lv_published v \<and> f (lv_frozen v) = Inr d"
  by (auto simp: column_frozen(2) lv_published_def)

lemma and_then_fork_side:
  "and_then (lm_fork_delta m) g = Inr d \<longleftrightarrow> (\<exists>w. lm_fork_delta m = Inr w \<and> g w = Inr d)"
  "and_then (ls_fork_delta k) h = Inr d \<longleftrightarrow> (\<exists>w. ls_fork_delta k = Inr w \<and> h w = Inr d)"
  by (rule and_then_eq_Inr)+

lemma store_fork_frozen:
  assumes inv: "store_inv s" and fork: "store_fork_delta s = Inr d"
  obtains names constraints templates frozen where
    "d = frozen_store s names constraints templates frozen (Suc (st_semantic_graph_identity s))
      (st_sealed_type_param_ids s)"
    "lm_fork_delta (st_type_param_names s) = Inr names"
    "lm_fork_delta (st_type_param_constraints s) = Inr constraints"
    "lm_fork_delta (st_template_names s) = Inr templates"
    "ls_fork_delta (st_frozen_type_params s) = Inr frozen"
proof -
  note T = inv [unfolded store_inv_def columns_inv_def tables_inv_def]
  from fork T obtain names constraints templates frozen where
    maps: "lm_fork_delta (st_type_param_names s) = Inr names"
      "lm_fork_delta (st_type_param_constraints s) = Inr constraints"
      "lm_fork_delta (st_template_names s) = Inr templates"
      "ls_fork_delta (st_frozen_type_params s) = Inr frozen"
    by (simp only: store_fork_delta_def and_then_fork [where b = "lv_sealed (st_tag s)"] and_then_fork_side) blast
  with fork T have "d = frozen_store s names constraints templates frozen (Suc (st_semantic_graph_identity s))
    (st_sealed_type_param_ids s)"
    by (simp only: store_fork_delta_def and_then_fork [where b = "lv_sealed (st_tag s)"] and_then_fork_side
        and_then_simps sum.inject simp_thms)
       (auto simp: frozen_store_def intro!: store.equality)
  with maps show ?thesis using that by blast
qed

lemma store_fork_rows:
  assumes inv: "store_inv s" and fork: "store_fork_delta s = Inr d"
  shows "store_inv d \<and> store_rows d = store_rows s \<and> store_base_len d = store_len s \<and> lv_sealed (st_tag d)"
proof (rule store_fork_frozen [OF inv fork])
  fix names constraints templates frozen
  assume d: "d = frozen_store s names constraints templates frozen (Suc (st_semantic_graph_identity s))
      (st_sealed_type_param_ids s)"
    and maps: "lm_fork_delta (st_type_param_names s) = Inr names"
      "lm_fork_delta (st_type_param_constraints s) = Inr constraints"
      "lm_fork_delta (st_template_names s) = Inr templates"
      "ls_fork_delta (st_frozen_type_params s) = Inr frozen"
  from ls_fork_contains [OF maps(4)] show ?thesis unfolding d
    by (intro frozen_store_rows [OF inv]) (auto intro: plain_map_fork maps)
qed

lemma store_freeze_frozen:
  assumes inv: "store_inv s" and open_: "\<not> lv_sealed (st_tag s)"
  obtains names constraints templates frozen ids where
    "store_freeze_as_base s =
       Inr (frozen_store s names constraints templates frozen (st_semantic_graph_identity s) ids)"
    "lm_freeze_as_base (st_type_param_names s) = Inr names" "plain_map True names"
    "lm_freeze_as_base (st_type_param_constraints s) = Inr constraints" "plain_map True constraints"
    "lm_freeze_as_base (st_template_names s) = Inr templates" "plain_map True templates"
    "ls_freeze_as_base (st_frozen_type_params s) = Inr frozen" "ls_inv frozen" "ls_sealed frozen"
proof -
  note T = inv [unfolded store_inv_def columns_inv_def tables_inv_def side_maps_inv_def, simplified open_ simp_thms]
  from T plain_map_frozen obtain m1 where m1: "lm_freeze_as_base (st_type_param_names s) = Inr m1"
      "plain_map True m1" by metis
  from T plain_map_frozen obtain m2 where m2: "lm_freeze_as_base (st_type_param_constraints s) = Inr m2"
      "plain_map True m2" by metis
  from T plain_map_frozen obtain m3 where m3: "lm_freeze_as_base (st_template_names s) = Inr m3"
      "plain_map True m3" by metis
  from T frozen_set obtain f where f: "ls_freeze_as_base (st_frozen_type_params s) = Inr f" "ls_inv f" "ls_sealed f"
    by metis
  let ?ids = "fset_of_list (map tp_id (lv_list (st_type_params s)))"
  have "store_freeze_as_base s = Inr (frozen_store s m1 m2 m3 f (st_semantic_graph_identity s) ?ids)"
    using T by (simp add: store_freeze_as_base_def open_ Let_def column_frozen(1) m1 m2 m3 f frozen_store_def)
  with m1 m2 m3 f that show ?thesis by blast
qed

lemma store_freeze_rows:
  assumes inv: "store_inv s" and open_: "\<not> lv_sealed (st_tag s)"
  shows "\<exists>s'. store_freeze_as_base s = Inr s' \<and> store_inv s' \<and> store_rows s' = store_rows s \<and>
    store_base_len s' = store_len s \<and> lv_sealed (st_tag s')"
  by (rule store_freeze_frozen [OF assms]) (use frozen_store_rows [OF inv] in blast)

lemma lm_fork_frozen: "lm_freeze_as_base m = Inr m' \<Longrightarrow> \<exists>w. lm_fork_delta m' = Inr w"
  by (auto simp: lm_freeze_as_base_def lm_fork_delta_def split: if_splits)

lemma ls_fork_frozen: "ls_freeze_as_base m = Inr m' \<Longrightarrow> \<exists>w. ls_fork_delta m' = Inr w"
  by (auto simp: ls_freeze_as_base_def ls_fork_delta_def split: if_splits)

text \<open>A freshly sealed store can be forked.\<close>

lemma store_freeze_fork:
  assumes inv: "store_inv s" and freeze: "store_freeze_as_base s = Inr s'"
  shows "\<exists>d. store_fork_delta s' = Inr d"
proof -
  from freeze have open_: "\<not> lv_sealed (st_tag s)" by (auto simp: store_freeze_as_base_def)
  show ?thesis
  proof (rule store_freeze_frozen [OF inv open_])
    fix m1 m2 m3 f ids
    assume s': "store_freeze_as_base s = Inr (frozen_store s m1 m2 m3 f (st_semantic_graph_identity s) ids)"
      and maps: "lm_freeze_as_base (st_type_param_names s) = Inr m1"
        "lm_freeze_as_base (st_type_param_constraints s) = Inr m2"
        "lm_freeze_as_base (st_template_names s) = Inr m3" "ls_freeze_as_base (st_frozen_type_params s) = Inr f"
    from s' freeze have eq: "s' = frozen_store s m1 m2 m3 f (st_semantic_graph_identity s) ids" by simp
    obtain w1 where w1: "lm_fork_delta m1 = Inr w1" using lm_fork_frozen [OF maps(1)] by blast
    obtain w2 where w2: "lm_fork_delta m2 = Inr w2" using lm_fork_frozen [OF maps(2)] by blast
    obtain w3 where w3: "lm_fork_delta m3 = Inr w3" using lm_fork_frozen [OF maps(3)] by blast
    obtain g where g: "ls_fork_delta f = Inr g" using ls_fork_frozen [OF maps(4)] by blast
    show ?thesis
      by (simp add: eq store_fork_delta_def frozen_store_def column_frozen(2) [OF column_frozen(6)]
          column_frozen(7,8) w1 w2 w3 g)
  qed
qed

text \<open>The failure branches: a sealed store is not sealed again, an unsealed one is not forked.\<close>

lemma store_freeze_refused: "lv_sealed (st_tag s) \<Longrightarrow> store_freeze_as_base s = Inl ''store is already sealed''"
  by (simp add: store_freeze_as_base_def)

lemma store_fork_refused:
  "\<not> lv_sealed (st_tag s) \<Longrightarrow> store_fork_delta s = Inl ''layered vector base is not sealed''"
  by (simp add: store_fork_delta_def lv_fork_delta_def)

end
