(* ===== verification/Store_Columns.thy ===== *)
theory Store_Columns
  imports Store_Rows
begin

text \<open>
  The side columns of the arena (\<^verbatim>\<open>types/store.rs\<close>): the constraints of type parameters, the freezing of
  their metadata and the display names of templates. None of them is part of a row, so every
  operation on them keeps the rows; a constraint that changes, and only that, replaces the identity
  of the semantic graph, which is what invalidates the caches derived from it.
\<close>

section \<open>Operations on side columns keep the rows\<close>

text \<open>The part of the store the rows are read from.\<close>

definition same_rows :: "store \<Rightarrow> store \<Rightarrow> bool" where
  "same_rows s s' \<longleftrightarrow>
     st_tag s' = st_tag s \<and> st_flags s' = st_flags s \<and> st_payload s' = st_payload s \<and>
     st_stable_hash s' = st_stable_hash s \<and> side_rows s' = side_rows s \<and> side_base s' = side_base s \<and>
     tables_inv (lv_sealed (st_tag s)) s' = tables_inv (lv_sealed (st_tag s)) s"

lemma same_rows_keep:
  assumes "same_rows s s'"
  shows "store_rows s' = store_rows s" "store_len s' = store_len s" "store_base_len s' = store_base_len s"
    "st_tag s' = st_tag s"
    "store_inv s \<Longrightarrow> side_maps_inv (lv_sealed (st_tag s)) s' \<Longrightarrow> store_inv s'"
proof -
  have c: "cell s' = cell s" using assms by (simp add: same_rows_def cell_def fun_eq_iff)
  have "row_of s' = row_of s" using assms by (simp add: same_rows_def row_of_def fun_eq_iff)
  with c have at: "row_at s' = row_at s" by (simp add: row_at_def fun_eq_iff)
  show len: "store_len s' = store_len s" "store_base_len s' = store_base_len s" "st_tag s' = st_tag s"
    using assms by (simp_all add: same_rows_def store_len_def store_base_len_def)
  then show "store_rows s' = store_rows s" by (simp add: store_rows_def at)
  show "store_inv s'" if "store_inv s" "side_maps_inv (lv_sealed (st_tag s)) s'"
    using that assms
    by (simp add: store_inv_def rows_inv_def at c len same_rows_def columns_inv_def)
qed

lemma same_rows_side:
  "same_rows s (s\<lparr>st_type_param_constraints := m\<rparr>)" "same_rows s (s\<lparr>st_frozen_type_params := f\<rparr>)"
  "same_rows s (s\<lparr>st_template_names := n\<rparr>)" "same_rows s (mark_semantic_graph_mutation s)"
  "same_rows s (mark_semantic_graph_mutation (s\<lparr>st_type_param_constraints := m\<rparr>))"
  by (simp_all add: same_rows_def fun_eq_iff all_tags tables_inv_def mark_semantic_graph_mutation_def)

lemma plain_map_insert:
  "plain_map b m \<Longrightarrow> lm_insert_local m k v = Inr (p, m') \<Longrightarrow> plain_map b m'"
  using lm_insert_get [of m k v p m']
  by (auto simp: plain_map_def lm_insert_local_def Let_def split: if_splits)

lemma plain_map_remove:
  "plain_map b m \<Longrightarrow> lm_remove_local m k = Inr (p, m') \<Longrightarrow> plain_map b m'"
  using lm_remove_get [of m k p m']
  by (auto simp: plain_map_def lm_remove_local_def split: if_splits)

lemma side_maps_simps:
  "side_maps_inv b s \<Longrightarrow> plain_map b m \<Longrightarrow> side_maps_inv b (s\<lparr>st_type_param_constraints := m\<rparr>)"
  "side_maps_inv b s \<Longrightarrow> plain_map b n \<Longrightarrow> side_maps_inv b (s\<lparr>st_template_names := n\<rparr>)"
  "side_maps_inv b s \<Longrightarrow> ls_inv f \<Longrightarrow> ls_sealed f = b \<Longrightarrow> side_maps_inv b (s\<lparr>st_frozen_type_params := f\<rparr>)"
  "side_maps_inv b s \<Longrightarrow> side_maps_inv b (mark_semantic_graph_mutation s)"
  by (simp_all add: side_maps_inv_def mark_semantic_graph_mutation_def)

lemma store_side_maps: "store_inv s \<Longrightarrow> side_maps_inv (lv_sealed (st_tag s)) s"
  by (simp add: store_inv_def)

section \<open>Constraints\<close>

text \<open>The parameters whose metadata may still change.\<close>

definition constraint_open :: "store \<Rightarrow> type_param_id \<Rightarrow> bool" where
  "constraint_open s tid \<longleftrightarrow>
     \<not> type_param_belongs_to_base s tid \<and> \<not> type_param_metadata_is_frozen s tid \<and>
     fmlookup (lm_base (st_type_param_constraints s)) tid = None"

lemma constraint_open_insert:
  assumes "constraint_open s tid" "store_inv s"
  shows "\<exists>m. lm_insert_local (st_type_param_constraints s) tid c = Inr (type_param_constraint s tid, m) \<and>
    lm_get m = (type_param_constraint s)(tid \<mapsto> c) \<and> plain_map (lv_sealed (st_tag s)) m"
proof -
  have p: "plain_map (lv_sealed (st_tag s)) (st_type_param_constraints s)"
    using store_side_maps [OF assms(2)] by (simp add: side_maps_inv_def)
  have "lm_insert_local (st_type_param_constraints s) tid c \<noteq> Inl e" for e
    using assms(1) lm_insert_refused [of "st_type_param_constraints s" tid c] by (auto simp: constraint_open_def)
  then obtain prev m where m: "lm_insert_local (st_type_param_constraints s) tid c = Inr (prev, m)"
    by (cases "lm_insert_local (st_type_param_constraints s) tid c") fastforce+
  with lm_insert_get [OF _ m] p plain_map_insert [OF p m] show ?thesis
    by (auto simp: plain_map_def type_param_constraint_def [abs_def])
qed

lemma set_constraint_closed:
  assumes "\<not> constraint_open s tid" "store_inv s"
  shows "set_type_param_constraint s tid c = (False, s)"
proof (cases "type_param_belongs_to_base s tid \<or> type_param_metadata_is_frozen s tid")
  case True
  then show ?thesis by (auto simp: set_type_param_constraint_def type_param_metadata_is_frozen_def)
next
  case False
  with assms have "fmlookup (lm_base (st_type_param_constraints s)) tid \<noteq> None" by (auto simp: constraint_open_def)
  moreover have "\<not> lm_prefix_overrides_enabled (st_type_param_constraints s)"
    using store_side_maps [OF assms(2)] by (simp add: side_maps_inv_def plain_map_def)
  ultimately obtain e where "lm_insert_local (st_type_param_constraints s) tid c = Inl e"
    using lm_insert_refused [of "st_type_param_constraints s" tid c] by blast
  then show ?thesis by (simp add: set_type_param_constraint_def)
qed

lemma set_constraint_spec:
  assumes inv: "store_inv s"
  shows "\<exists>ok s'. set_type_param_constraint s tid c = (ok, s') \<and> ok = constraint_open s tid \<and>
    (if ok then type_param_constraint s' = (type_param_constraint s)(tid \<mapsto> c) else s' = s) \<and>
    (st_semantic_graph_identity s' \<noteq> st_semantic_graph_identity s \<longleftrightarrow>
       ok \<and> type_param_constraint s tid \<noteq> Some c) \<and>
    store_inv s' \<and> store_rows s' = store_rows s \<and> st_tag s' = st_tag s"
proof (cases "constraint_open s tid")
  case False
  then show ?thesis using inv set_constraint_closed [OF False inv]
    by (intro exI [of _ False] exI [of _ s]) simp
next
  case True
  from constraint_open_insert [OF True inv] obtain m where
    m: "lm_insert_local (st_type_param_constraints s) tid c = Inr (type_param_constraint s tid, m)"
      "lm_get m = (type_param_constraint s)(tid \<mapsto> c)" "plain_map (lv_sealed (st_tag s)) m" by blast
  let ?s = "s\<lparr>st_type_param_constraints := m\<rparr>"
  let ?s' = "if type_param_constraint s tid \<noteq> Some c then mark_semantic_graph_mutation ?s else ?s"
  have run: "set_type_param_constraint s tid c = (True, ?s')"
    using True m(1) by (simp add: set_type_param_constraint_def constraint_open_def type_param_metadata_is_frozen_def
        Let_def)
  have "type_param_constraint ?s' = (type_param_constraint s)(tid \<mapsto> c)"
    using m(2) by (simp add: type_param_constraint_def [abs_def] mark_semantic_graph_mutation_def)
  moreover have "same_rows s ?s'" using same_rows_side by simp
  note keep = same_rows_keep [OF this]
  moreover have "side_maps_inv (lv_sealed (st_tag s)) ?s'"
    using side_maps_simps m(3) store_side_maps [OF inv] by simp
  moreover have "st_semantic_graph_identity ?s' \<noteq> st_semantic_graph_identity s \<longleftrightarrow> type_param_constraint s tid \<noteq> Some c"
    by (simp add: mark_semantic_graph_mutation_def)
  ultimately show ?thesis using True inv keep(1,4,5)
    by (intro exI [of _ True] exI [of _ ?s'] conjI run) (auto simp del: fun_upd_apply if_split if_split_asm)
qed

text \<open>
  recording a constraint succeeds exactly for a parameter that is neither frozen nor of the
  sealed base; then it is the constraint read back, no other parameter's changes, and the graph
  identity is replaced exactly when the constraint differs from the one before. A refusal changes
  nothing.
\<close>

theorem set_constraint_correct:
  assumes "store_inv s"
  shows "\<exists>ok s'. set_type_param_constraint s tid c = (ok, s') \<and> ok = constraint_open s tid \<and>
    (if ok then type_param_constraint s' = (type_param_constraint s)(tid \<mapsto> c) else s' = s) \<and>
    (st_semantic_graph_identity s' \<noteq> st_semantic_graph_identity s \<longleftrightarrow>
       ok \<and> type_param_constraint s tid \<noteq> Some c) \<and>
    store_inv s' \<and> store_rows s' = store_rows s"
  using set_constraint_spec [OF assms] by blast

lemma constraint_open_remove:
  assumes "constraint_open s tid" "store_inv s"
  shows "\<exists>m. lm_remove_local (st_type_param_constraints s) tid = Inr (type_param_constraint s tid, m) \<and>
    lm_get m = (type_param_constraint s)(tid := None) \<and> plain_map (lv_sealed (st_tag s)) m"
proof -
  have p: "plain_map (lv_sealed (st_tag s)) (st_type_param_constraints s)"
    using store_side_maps [OF assms(2)] by (simp add: side_maps_inv_def)
  obtain prev m where m: "lm_remove_local (st_type_param_constraints s) tid = Inr (prev, m)"
    using assms(1) by (simp add: constraint_open_def lm_remove_local_def fmdom_lookup)
  with lm_remove_get [OF _ m] p plain_map_remove [OF p m] show ?thesis
    by (auto simp: plain_map_def type_param_constraint_def [abs_def])
qed

lemma remove_constraint_closed:
  assumes "\<not> constraint_open s tid" "store_inv s"
  shows "remove_type_param_constraint s tid = (False, s)"
  using assms
  by (auto simp: constraint_open_def remove_type_param_constraint_def type_param_metadata_is_frozen_def
      lm_remove_local_def fmdom_lookup)

lemma remove_constraint_spec:
  assumes inv: "store_inv s"
  shows "\<exists>ok s'. remove_type_param_constraint s tid = (ok, s') \<and> ok = constraint_open s tid \<and>
    (if ok then type_param_constraint s' = (type_param_constraint s)(tid := None) else s' = s) \<and>
    (st_semantic_graph_identity s' \<noteq> st_semantic_graph_identity s \<longleftrightarrow>
       ok \<and> type_param_constraint s tid \<noteq> None) \<and>
    store_inv s' \<and> store_rows s' = store_rows s \<and> st_tag s' = st_tag s"
proof (cases "constraint_open s tid")
  case False
  then show ?thesis using inv remove_constraint_closed [OF False inv]
    by (intro exI [of _ False] exI [of _ s]) simp
next
  case True
  from constraint_open_remove [OF True inv] obtain m where
    m: "lm_remove_local (st_type_param_constraints s) tid = Inr (type_param_constraint s tid, m)"
      "lm_get m = (type_param_constraint s)(tid := None)" "plain_map (lv_sealed (st_tag s)) m" by blast
  let ?s = "s\<lparr>st_type_param_constraints := m\<rparr>"
  let ?s' = "if type_param_constraint s tid \<noteq> None then mark_semantic_graph_mutation ?s else ?s"
  have run: "remove_type_param_constraint s tid = (True, ?s')"
    using True m(1) by (simp add: remove_type_param_constraint_def constraint_open_def
        type_param_metadata_is_frozen_def Let_def)
  have "type_param_constraint ?s' = (type_param_constraint s)(tid := None)"
    using m(2) by (simp add: type_param_constraint_def [abs_def] mark_semantic_graph_mutation_def)
  moreover have "same_rows s ?s'" using same_rows_side by simp
  note keep = same_rows_keep [OF this]
  moreover have "side_maps_inv (lv_sealed (st_tag s)) ?s'"
    using side_maps_simps m(3) store_side_maps [OF inv] by simp
  moreover have "st_semantic_graph_identity ?s' \<noteq> st_semantic_graph_identity s \<longleftrightarrow> type_param_constraint s tid \<noteq> None"
    by (simp add: mark_semantic_graph_mutation_def)
  ultimately show ?thesis using True inv keep(1,4,5)
    by (intro exI [of _ True] exI [of _ ?s'] conjI run) (auto simp del: fun_upd_apply if_split if_split_asm)
qed

text \<open>
  erasing a constraint succeeds for exactly the parameters whose constraint may be set; then the
  parameter has none, no other parameter's changes, and the graph identity is replaced exactly when
  there was one to erase.
\<close>

theorem remove_constraint_correct:
  assumes "store_inv s"
  shows "\<exists>ok s'. remove_type_param_constraint s tid = (ok, s') \<and> ok = constraint_open s tid \<and>
    (if ok then type_param_constraint s' = (type_param_constraint s)(tid := None) else s' = s) \<and>
    (st_semantic_graph_identity s' \<noteq> st_semantic_graph_identity s \<longleftrightarrow>
       ok \<and> type_param_constraint s tid \<noteq> None) \<and>
    store_inv s' \<and> store_rows s' = store_rows s"
  using remove_constraint_spec [OF assms] by blast

section \<open>Freezing parameter metadata\<close>

lemma first_repeat_None:
  "first_repeat seen xs = None \<longleftrightarrow> distinct xs \<and> (\<forall>x \<in> set xs. x |\<notin>| seen)"
  by (induction xs arbitrary: seen) auto

lemma freeze_each_ok:
  assumes "ls_inv fs" "\<forall>x\<in>set ids. \<not> ls_contains fs x" "distinct ids"
  shows "\<exists>fs'. freeze_each fs ids = (None, fs') \<and> ls_inv fs' \<and> ls_sealed fs' = ls_sealed fs \<and>
    ls_contains fs' = (\<lambda>x. ls_contains fs x \<or> x \<in> set ids)"
  using assms
proof (induction ids arbitrary: fs)
  case (Cons x ids)
  have "x |\<notin>| ls_base fs" using Cons.prems(2) by (simp add: ls_contains_def)
  then obtain b where ins: "ls_insert_local fs x = Inr (b, fs\<lparr>ls_local := finsert x (ls_local fs)\<rparr>)"
    by (simp add: ls_insert_local_def)
  let ?fs = "fs\<lparr>ls_local := finsert x (ls_local fs)\<rparr>"
  have step: "ls_inv ?fs" "ls_contains ?fs = (ls_contains fs)(x := True)"
    using ls_insert_contains [OF Cons.prems(1) ins] by blast+
  have "\<exists>fs'. freeze_each ?fs ids = (None, fs') \<and> ls_inv fs' \<and> ls_sealed fs' = ls_sealed ?fs \<and>
      ls_contains fs' = (\<lambda>y. ls_contains ?fs y \<or> y \<in> set ids)"
    using step Cons.prems by (intro Cons.IH) auto
  then show ?case using step(2) by (auto simp: ins fun_eq_iff)
qed simp

text \<open>The batches the freezing accepts: pairwise distinct parameters, none frozen, none of the base.\<close>

definition freezable :: "store \<Rightarrow> type_param_id list \<Rightarrow> bool" where
  "freezable s ids \<longleftrightarrow> distinct ids \<and>
     (\<forall>x\<in>set ids. \<not> type_param_metadata_is_frozen s x \<and> \<not> type_param_belongs_to_base s x)"

lemma freeze_refused:
  assumes "\<not> freezable s ids"
  shows "\<exists>e. freeze_type_param_metadata s ids = (Some e, s)"
  using assms
  by (auto simp: freeze_type_param_metadata_def freezable_def type_param_metadata_is_frozen_def
      first_repeat_None find_None_iff split: option.splits)

lemma freeze_metadata_spec:
  assumes inv: "store_inv s"
  shows "\<exists>err s'. freeze_type_param_metadata s ids = (err, s') \<and> (err = None \<longleftrightarrow> freezable s ids) \<and>
    (if err = None
     then type_param_metadata_is_frozen s' = (\<lambda>x. type_param_metadata_is_frozen s x \<or> x \<in> set ids) \<and>
       (\<forall>x\<in>set ids. \<forall>c. set_type_param_constraint s' x c = (False, s') \<and>
          remove_type_param_constraint s' x = (False, s'))
     else s' = s) \<and> store_inv s' \<and> store_rows s' = store_rows s \<and> st_tag s' = st_tag s"
proof (cases "freezable s ids")
  case False
  from freeze_refused [OF this] obtain e where "freeze_type_param_metadata s ids = (Some e, s)" ..
  then show ?thesis using False inv by (intro exI [of _ "Some e"] exI [of _ s]) simp
next
  case True
  have f: "ls_inv (st_frozen_type_params s)" "ls_sealed (st_frozen_type_params s) = lv_sealed (st_tag s)"
    using store_side_maps [OF inv] by (auto simp: side_maps_inv_def)
  from True obtain fs where fs: "freeze_each (st_frozen_type_params s) ids = (None, fs)" "ls_inv fs"
      "ls_sealed fs = lv_sealed (st_tag s)"
      "ls_contains fs = (\<lambda>x. ls_contains (st_frozen_type_params s) x \<or> x \<in> set ids)"
    using freeze_each_ok [OF f(1), of ids] f(2) by (auto simp: freezable_def type_param_metadata_is_frozen_def)
  let ?s = "s\<lparr>st_frozen_type_params := fs\<rparr>"
  have "find (ls_contains (st_frozen_type_params s)) ids = None" "find (type_param_belongs_to_base s) ids = None"
      "first_repeat {||} ids = None"
    using True by (auto simp: freezable_def find_None_iff first_repeat_None type_param_metadata_is_frozen_def)
  then have "freeze_type_param_metadata s ids = (None, ?s)" by (simp add: freeze_type_param_metadata_def fs)
  moreover have "type_param_metadata_is_frozen ?s = (\<lambda>x. type_param_metadata_is_frozen s x \<or> x \<in> set ids)"
    by (simp add: type_param_metadata_is_frozen_def [abs_def] fs(4))
  moreover have "\<forall>x\<in>set ids. \<forall>c. set_type_param_constraint ?s x c = (False, ?s) \<and>
      remove_type_param_constraint ?s x = (False, ?s)"
    by (simp add: set_type_param_constraint_def remove_type_param_constraint_def fs(4))
  moreover have "store_inv ?s"
    using same_rows_keep(5) [OF same_rows_side(2) inv] side_maps_simps(3) [OF store_side_maps [OF inv] fs(2,3)]
    by blast
  moreover have "store_rows ?s = store_rows s" "st_tag ?s = st_tag s"
    by (rule same_rows_keep(1,4) [OF same_rows_side(2)])+
  ultimately show ?thesis using True by (intro exI [of _ None] exI [of _ ?s]) (simp del: fun_upd_apply)
qed

text \<open>
  Freezing the metadata of a batch of type parameters is all or nothing: it succeeds exactly on
  batches of distinct parameters that are neither frozen nor of the base, then freezes precisely
  them, so that every constraint of theirs can no longer be set or erased; otherwise it reports an
  error and the store is unchanged.
\<close>

theorem freeze_metadata_atomic:
  assumes "store_inv s"
  shows "\<exists>err s'. freeze_type_param_metadata s ids = (err, s') \<and> (err = None \<longleftrightarrow> freezable s ids) \<and>
    (if err = None
     then type_param_metadata_is_frozen s' = (\<lambda>x. type_param_metadata_is_frozen s x \<or> x \<in> set ids) \<and>
       (\<forall>x\<in>set ids. \<forall>c. set_type_param_constraint s' x c = (False, s') \<and>
          remove_type_param_constraint s' x = (False, s'))
     else s' = s) \<and> store_inv s' \<and> store_rows s' = store_rows s"
  using freeze_metadata_spec [OF assms] by blast

section \<open>Display names of templates\<close>

lemma set_template_name_keeps:
  assumes "store_inv s"
  shows "store_inv (set_template_name s tid name)" "store_rows (set_template_name s tid name) = store_rows s"
    "st_tag (set_template_name s tid name) = st_tag s"
proof -
  have "set_template_name s tid name = s \<or>
      (\<exists>m p. lm_insert_local (st_template_names s) tid name = Inr (p, m) \<and>
        set_template_name s tid name = s\<lparr>st_template_names := m\<rparr>)"
    by (auto simp: set_template_name_def split: sum.splits)
  moreover have "store_inv (s\<lparr>st_template_names := m\<rparr>)" if "lm_insert_local (st_template_names s) tid name = Inr (p, m)" for p m
    using same_rows_keep(5) [OF same_rows_side(3) assms]
      side_maps_simps(2) [OF store_side_maps [OF assms] plain_map_insert [OF _ that]]
      store_side_maps [OF assms] by (simp add: side_maps_inv_def)
  ultimately show "store_inv (set_template_name s tid name)"
      "store_rows (set_template_name s tid name) = store_rows s" "st_tag (set_template_name s tid name) = st_tag s"
    using assms same_rows_keep(1) [OF same_rows_side(3)] by auto
qed

lemma template_name_set:
  assumes "store_inv s" "store_base_len s \<le> unat tid" "unat tid < store_len s"
    "tag s tid \<in> {Some Tag_Conditional, Some Tag_Mapped}"
    "fmlookup (lm_base (st_template_names s)) tid = None"
  shows "template_name (set_template_name s tid name) = (template_name s)(tid \<mapsto> name)"
proof -
  have p: "lm_inv (st_template_names s)" using store_side_maps [OF assms(1)] by (simp add: side_maps_inv_def plain_map_def)
  obtain m prev where m: "lm_insert_local (st_template_names s) tid name = Inr (prev, m)"
    using assms(5) by (simp add: lm_insert_local_def fmdom_lookup)
  then have "set_template_name s tid name = s\<lparr>st_template_names := m\<rparr>"
    using assms(2-4) by (simp add: set_template_name_def store_base_len_def)
  then show ?thesis using lm_insert_get [OF p m] by (simp add: template_name_def [abs_def])
qed

section \<open>Properties of the arena\<close>

text \<open>
  The arena is an append-only list of rows. Every constructor appends exactly the row it is
  given, hands out the position as its id, and leaves the earlier rows and the accessors on them
  alone; only the name of a type parameter may be replaced, by the one it was first seen with.
\<close>

theorem pushes_append_their_row:
  assumes "store_inv s" "store_len s < 2 ^ 32"
  shows "row_appended s (fst (push_intrinsic s k fl)) (snd (push_intrinsic s k fl)) (Row_Intrinsic k) \<and>
    row_appended s (fst (push_literal s v fl)) (snd (push_literal s v fl)) (Row_Literal v) \<and>
    row_appended s (fst (push_object s ob fl)) (snd (push_object s ob fl)) (Row_Object ob) \<and>
    row_appended s (fst (push_function s f fl)) (snd (push_function s f fl)) (Row_Function f) \<and>
    row_appended s (fst (push_union s us fl)) (snd (push_union s us fl)) (Row_Union us) \<and>
    row_appended s (fst (push_intersection s ms fl)) (snd (push_intersection s ms fl)) (Row_Intersection ms) \<and>
    row_appended s (fst (push_type_param s p fl)) (snd (push_type_param s p fl)) (Row_TypeParam (retained_param s p)) \<and>
    row_appended s (fst (push_tuple s tu fl)) (snd (push_tuple s tu fl)) (Row_Tuple tu) \<and>
    row_appended s (fst (push_conditional s c fl)) (snd (push_conditional s c fl)) (Row_Conditional c) \<and>
    row_appended s (fst (push_mapped s m fl)) (snd (push_mapped s m fl)) (Row_Mapped m) \<and>
    row_appended s (fst (push_template s te fl)) (snd (push_template s te fl)) (Row_Template te)"
  by (intro conjI push_rows [OF assms] push_type_param_row [OF assms])

theorem pushes_append_their_row_witness:
  "row_appended store_new 0 (snd (push_literal store_new (Lit_Boolean True) flags_empty)) (Row_Literal (Lit_Boolean True))"
proof -
  have "row_appended store_new (fst (push_literal store_new (Lit_Boolean True) flags_empty))
      (snd (push_literal store_new (Lit_Boolean True) flags_empty)) (Row_Literal (Lit_Boolean True))"
    using pushes_append_their_row [of store_new _ _ "Lit_Boolean True"] by simp
  then show ?thesis by (simp add: row_appended_def)
qed

text \<open>
  what was appended is read back: after pushing an object its accessor returns it, every other
  accessor of that id reports another kind, and any id issued before reads as it did.
\<close>

theorem pushed_object_reads_back:
  assumes inv: "store_inv s" and len: "store_len s < 2 ^ 32" and push: "push_object s ob fl = (tid, s')"
  shows "object_type_of s' tid = Some (Some ob) \<and> tag s' tid = Some Tag_Object \<and>
    union_members s' tid = Some None \<and> literal_value_of s' tid = Some None \<and>
    (\<forall>i. unat i < store_len s \<longrightarrow> object_type_of s' i = object_type_of s i \<and> tag s' i = tag s i)"
proof -
  have a: "row_appended s tid s' (Row_Object ob)" using push_rows(7) [OF inv len, of ob fl] push by simp
  then have s': "store_inv s'" and rows: "store_rows s' = store_rows s @ [Row_Object ob]"
    and tid: "unat tid = store_len s"
    using len by (auto simp: row_appended_def unat_of_nat take_bit_nat_eq_self_iff)
  have l: "length (store_rows s) = store_len s" by (simp add: store_rows_def)
  show ?thesis
    by (simp add: accessor_rows [OF s'] accessor_rows [OF inv] rows tid l nth_opt_def nth_append)
qed

theorem pushed_object_reads_back_witness:
  "\<exists>tid s'. push_object store_new object_default flags_empty = (tid, s') \<and> object_type_of s' tid = Some (Some object_default)"
proof -
  obtain tid s' where p: "push_object store_new object_default flags_empty = (tid, s')" by fastforce
  show ?thesis using p pushed_object_reads_back [OF _ _ p] by auto
qed

text \<open>
  Sealing publishes the arena and a fork starts from it: an unsealed store always seals, the
  sealed one always forks, and neither changes a row; sealing twice and forking an unsealed store
  are refused.
\<close>

theorem seal_and_fork_keep_rows:
  assumes inv: "store_inv s"
  shows "if lv_sealed (st_tag s)
    then store_freeze_as_base s = Inl ''store is already sealed''
    else store_fork_delta s = Inl ''layered vector base is not sealed'' \<and>
      (\<exists>s' d. store_freeze_as_base s = Inr s' \<and> store_fork_delta s' = Inr d \<and> store_inv s' \<and> store_inv d \<and>
         store_rows s' = store_rows s \<and> store_rows d = store_rows s \<and> store_base_len d = store_len s)"
proof (cases "lv_sealed (st_tag s)")
  case False
  from store_freeze_rows [OF inv False] obtain s' where s': "store_freeze_as_base s = Inr s'" "store_inv s'"
    "store_rows s' = store_rows s" "store_base_len s' = store_len s" by blast
  from store_freeze_fork [OF inv s'(1)] obtain d where d: "store_fork_delta s' = Inr d" ..
  have "store_len s' = store_len s" using arg_cong [OF s'(3), of length] by (simp add: store_rows_def)
  then show ?thesis using False s' d store_fork_rows [OF s'(2) d] store_fork_refused [OF False] by auto
qed (simp add: store_freeze_refused)

theorem seal_and_fork_keep_rows_witness:
  "\<exists>s' d. store_freeze_as_base store_new = Inr s' \<and> store_fork_delta s' = Inr d \<and> store_rows d = []"
proof -
  have "\<not> lv_sealed (st_tag store_new)" by (simp add: store_new_def lv_default_def)
  then show ?thesis using seal_and_fork_keep_rows [OF store_inv_new(1)] by auto
qed

text \<open>
  A reserved row is filled in place: writing the body of an object, conditional or mapped row
  of the local suffix succeeds, and that row is the only one to change.
\<close>

theorem set_replaces_one_row:
  assumes "store_inv s" "store_base_len s \<le> unat tid" "nth_opt (store_rows s) (unat tid) = Some r"
  shows "(r = Row_Object v0 \<longrightarrow> (\<exists>s'. set_object s tid v = Some s' \<and> row_replaced s tid s' (Row_Object v))) \<and>
    (r = Row_Conditional c0 \<longrightarrow> (\<exists>s'. set_conditional s tid c = Some s' \<and> row_replaced s tid s' (Row_Conditional c))) \<and>
    (r = Row_Mapped m0 \<longrightarrow> (\<exists>s'. set_mapped s tid m = Some s' \<and> row_replaced s tid s' (Row_Mapped m)))"
  using set_rows [OF assms] by blast

theorem set_replaces_one_row_witness:
  "\<exists>s'. set_object (snd (push_object store_new object_default flags_empty)) 0 object_default = Some s' \<and>
    store_rows s' = [Row_Object object_default]"
proof -
  let ?s = "snd (push_object store_new object_default flags_empty)"
  have a: "row_appended store_new (fst (push_object store_new object_default flags_empty)) ?s (Row_Object object_default)"
    by (rule push_rows(7)) simp_all
  moreover have "store_base_len store_new = 0"
    by (simp add: store_base_len_def store_new_def lv_default_def lv_base_len_def)
  ultimately have "store_inv ?s" "store_rows ?s = [Row_Object object_default]" "store_base_len ?s = 0"
    by (simp_all add: row_appended_def)
  with set_replaces_one_row [of ?s 0 "Row_Object object_default"] show ?thesis
    by (fastforce simp: row_replaced_def nth_opt_def)
qed

theorem set_constraint_correct_witness:
  "\<exists>s'. set_type_param_constraint store_new 1 5 = (True, s') \<and> type_param_constraint s' 1 = Some 5 \<and> store_inv s'"
proof -
  have "constraint_open store_new 1"
    by (simp add: constraint_open_def type_param_belongs_to_base_def type_param_metadata_is_frozen_def store_new_def
        lm_default_def)
  then show ?thesis using set_constraint_correct [OF store_inv_new(1), of 1 5] by auto
qed

theorem remove_constraint_correct_witness:
  "\<exists>s'. remove_type_param_constraint store_new 1 = (True, s') \<and> type_param_constraint s' 1 = None \<and>
    st_semantic_graph_identity s' = st_semantic_graph_identity store_new"
proof -
  have "constraint_open store_new 1" "type_param_constraint store_new 1 = None"
    by (simp_all add: constraint_open_def type_param_belongs_to_base_def type_param_metadata_is_frozen_def store_new_def
        lm_default_def type_param_constraint_def lm_get_def)
  then show ?thesis using remove_constraint_correct [OF store_inv_new(1), of 1] by auto
qed

theorem freeze_metadata_atomic_witness:
  "\<exists>s'. freeze_type_param_metadata store_new [1, 2] = (None, s') \<and> type_param_metadata_is_frozen s' 2 \<and>
    set_type_param_constraint s' 1 5 = (False, s')"
proof -
  have "freezable store_new [1, 2]"
    by (simp add: freezable_def type_param_belongs_to_base_def type_param_metadata_is_frozen_def store_new_def)
  then show ?thesis using freeze_metadata_atomic [OF store_inv_new(1), of "[1, 2]"] by auto
qed

end
