(* ===== verification/Structural_Hash.thy ===== *)
theory Structural_Hash
  imports Store_Rows
begin

text \<open>
  Crate \<^verbatim>\<open>typokat-types\<close>, module \<^verbatim>\<open>types/hash.rs\<close>: the pre-intern key and its hash. Rust's \<open>Hash\<close>
  feeds a streaming hasher with typed writes; the model makes the stream explicit
  (\<open>structural_writes\<close>) and takes the hasher itself, which is the third-party \<open>FxHasher\<close>, as the
  parameter \<open>fx\<close> that turns a stream into 64 bits. \<open>usize\<close> and \<open>isize\<close> writes keep their value.

  The stream is a prefix code: the tag discriminant and the length-first lists make it determine
  the key and end where the key ends, which is what the comments of the module claim.
\<close>

datatype hash_write =
    W_u8 u8
  | W_u32 u32
  | W_u64 u64
  | W_usize nat
  | W_isize int
  | W_bytes string

type_synonym hasher = "hash_write list \<Rightarrow> u64"

datatype structural_key =
    SK_Intrinsic intrinsic_kind
  | SK_Literal literal_value
  | SK_Object "property_type list" "type_id option" "type_id option" "type_id list" "type_id list"
  | SK_Function "generic_type_param list" "type_id option" "parameter_type list" type_id
  | SK_Union "type_id list"
  | SK_Intersection "type_id list"
  | SK_TypeParam type_param_id
  | SK_Array type_id
  | SK_Tuple tuple_type
  | SK_Readonly type_id
  | SK_Conditional type_id type_id type_id type_id u32 bool bool
  | SK_Instantiation type_id "(type_param_id \<times> type_id) list"
  | SK_ClassInstance class_id "type_id list"
  | SK_Infer u32
  | SK_Mapped bool type_id type_id "type_id option" modifier_op modifier_op
  | SK_MappedValue
  | SK_Template "string list" "type_id list"
  | SK_Keyof type_id
  | SK_DeferredIndexedAccess type_id type_id
  | SK_Declared declared_recipe_id "(type_param_id \<times> type_id) list"

section \<open>What the standard \<open>Hash\<close> implementations write\<close>

definition hash_bool :: "bool \<Rightarrow> hash_write list" where
  "hash_bool b = [W_u8 (if b then 1 else 0)]"

definition hash_u32 :: "u32 \<Rightarrow> hash_write list" where
  "hash_u32 x = [W_u32 x]"

text \<open>\<open>str\<close>: the bytes and a terminator.\<close>

definition hash_str :: "string \<Rightarrow> hash_write list" where
  "hash_str s = [W_bytes s, W_u8 0xFF]"

text \<open>A derived \<open>Hash\<close> writes the variant's discriminant as \<open>isize\<close>, then the fields.\<close>

fun hash_opt_u32 :: "u32 option \<Rightarrow> hash_write list" where
  "hash_opt_u32 None = [W_isize 0]"
| "hash_opt_u32 (Some x) = [W_isize 1, W_u32 x]"

definition hash_symbol :: "well_known_symbol \<Rightarrow> hash_write list" where
  "hash_symbol s = [W_isize (int (symbol_index s))]"

fun hash_property_key :: "property_key \<Rightarrow> hash_write list" where
  "hash_property_key (Key_String name) = W_isize 0 # hash_str name"
| "hash_property_key (Key_WellKnownSymbol s) = W_isize 1 # hash_symbol s"

fun visibility_code :: "visibility \<Rightarrow> u8" where
  "visibility_code Vis_Public = 0"
| "visibility_code Vis_Private = 1"
| "visibility_code Vis_Protected = 2"

text \<open>The length is written first, then the elements in order.\<close>

definition hash_each :: "('a \<Rightarrow> hash_write list) \<Rightarrow> 'a list \<Rightarrow> hash_write list" where
  "hash_each enc xs = W_usize (length xs) # concat (map enc xs)"

section \<open>The writes of a key\<close>

definition hash_discriminant :: "type_tag \<Rightarrow> hash_write list" where
  "hash_discriminant t = [W_u8 (discriminant t)]"

fun hash_literal :: "literal_value \<Rightarrow> hash_write list" where
  "hash_literal (Lit_Number n) = [W_u8 0, W_u64 n]"
| "hash_literal (Lit_String s) = W_u8 1 # hash_str s"
| "hash_literal (Lit_Boolean b) = W_u8 2 # hash_bool b"
| "hash_literal (Lit_WellKnownSymbol s) = W_u8 3 # hash_symbol s"

definition hash_property :: "property_type \<Rightarrow> hash_write list" where
  "hash_property p =
     hash_property_key (pr_key p) @ hash_bool (pr_optional p) @ hash_u32 (pr_ty p) @
     hash_opt_u32 (pr_write_ty p) @ [W_u8 (visibility_code (pr_visibility p))] @
     hash_opt_u32 (pr_declaring_class p) @ hash_bool (pr_readonly p) @ hash_bool (pr_is_accessor p)"

definition hash_generic_param :: "generic_type_param \<Rightarrow> hash_write list" where
  "hash_generic_param g = hash_u32 (gp_id g) @ hash_opt_u32 (gp_constraint g) @ hash_opt_u32 (gp_default g)"

definition hash_parameter :: "parameter_type \<Rightarrow> hash_write list" where
  "hash_parameter p =
     hash_str (pa_name p) @ hash_bool (pa_optional p) @ hash_bool (pa_has_default p) @
     hash_bool (pa_rest p) @ hash_u32 (pa_ty p)"

definition hash_pair :: "u32 \<times> u32 \<Rightarrow> hash_write list" where
  "hash_pair p = hash_u32 (fst p) @ hash_u32 (snd p)"

definition hash_tuple_rest :: "tuple_rest_type option \<Rightarrow> hash_write list" where
  "hash_tuple_rest rest =
     (case rest of
        Some r \<Rightarrow> hash_bool True @ [W_usize (tr_position r)] @ hash_u32 (tr_ty r)
      | None \<Rightarrow> hash_bool False)"

fun structural_writes :: "structural_key \<Rightarrow> hash_write list" where
  "structural_writes (SK_Intrinsic kind) =
     hash_discriminant Tag_Intrinsic @ [W_u8 (ucast (intrinsic_code kind))]"
| "structural_writes (SK_Literal value) = hash_discriminant Tag_Literal @ hash_literal value"
| "structural_writes (SK_Object properties string_index number_index call_signatures construct_signatures) =
     hash_discriminant Tag_Object @ hash_opt_u32 string_index @ hash_opt_u32 number_index @
     hash_each hash_u32 call_signatures @ hash_each hash_u32 construct_signatures @
     hash_each hash_property properties"
| "structural_writes (SK_Function type_params receiver params ret) =
     hash_discriminant Tag_Function @ hash_each hash_generic_param type_params @
     hash_opt_u32 receiver @ hash_each hash_parameter params @ hash_u32 ret"
| "structural_writes (SK_Union members) = hash_discriminant Tag_Union @ hash_each hash_u32 members"
| "structural_writes (SK_Intersection members) =
     hash_discriminant Tag_Intersection @ hash_each hash_u32 members"
| "structural_writes (SK_TypeParam tid) = hash_discriminant Tag_TypeParam @ hash_u32 tid"
| "structural_writes (SK_Array element) = hash_discriminant Tag_Array @ hash_u32 element"
| "structural_writes (SK_Tuple tuple) =
     hash_discriminant Tag_Tuple @ hash_each hash_u32 (tu_elements tuple) @ hash_tuple_rest (tu_rest tuple)"
| "structural_writes (SK_Readonly operand) = hash_discriminant Tag_Readonly @ hash_u32 operand"
| "structural_writes (SK_Conditional check extends_ty true_branch false_branch infer_count distributive poisoned) =
     hash_discriminant Tag_Conditional @ hash_u32 check @ hash_u32 extends_ty @ hash_u32 true_branch @
     hash_u32 false_branch @ hash_u32 infer_count @ hash_bool distributive @ hash_bool poisoned"
| "structural_writes (SK_Instantiation base args) =
     hash_discriminant Tag_Instantiation @ hash_u32 base @ hash_each hash_pair args"
| "structural_writes (SK_ClassInstance class args) =
     hash_discriminant Tag_ClassInstance @ hash_u32 class @ hash_each hash_u32 args"
| "structural_writes (SK_Infer index) = hash_discriminant Tag_Infer @ hash_u32 index"
| "structural_writes (SK_Mapped homomorphic key_source value_template modifiers_source optional_modifier readonly_modifier) =
     hash_discriminant Tag_Mapped @ hash_bool homomorphic @ hash_u32 key_source @ hash_u32 value_template @
     hash_opt_u32 modifiers_source @ [W_u8 (modifier_code optional_modifier), W_u8 (modifier_code readonly_modifier)]"
| "structural_writes SK_MappedValue = hash_discriminant Tag_MappedValue"
| "structural_writes (SK_Keyof operand) = hash_discriminant Tag_Keyof @ hash_u32 operand"
| "structural_writes (SK_DeferredIndexedAccess ob index) =
     hash_discriminant Tag_DeferredIndexedAccess @ hash_u32 ob @ hash_u32 index"
| "structural_writes (SK_Declared recipe mapper) =
     hash_discriminant Tag_Declared @ hash_u32 recipe @ hash_each hash_pair mapper"
| "structural_writes (SK_Template texts holes) =
     hash_discriminant Tag_Template @ hash_each hash_str texts @ hash_each hash_u32 holes"

definition structural_hash :: "hasher \<Rightarrow> structural_key \<Rightarrow> u64" where
  "structural_hash fx key = fx (structural_writes key)"

definition stable_hash_of :: "structural_key \<Rightarrow> stable_hash" where
  "stable_hash_of key = stable_hash_default"

section \<open>Interface: a self-delimiting encoding\<close>

locale prefix_code =
  fixes enc :: "'a \<Rightarrow> hash_write list"
  assumes decodes: "enc x @ r = enc y @ s \<Longrightarrow> x = y \<and> r = s"
begin

lemma code_iff: "enc x @ r = enc y @ s \<longleftrightarrow> x = y \<and> r = s"
  using decodes by blast

lemma code_inject: "enc x = enc y \<longleftrightarrow> x = y"
  using decodes [of x "[]" y "[]"] by auto

lemma concat_code:
  "length xs = length ys \<Longrightarrow> concat (map enc xs) @ r = concat (map enc ys) @ s \<longleftrightarrow> xs = ys \<and> r = s"
  by (induction xs ys rule: list_induct2) (auto simp: code_iff)

lemma each_code: "hash_each enc xs @ r = hash_each enc ys @ s \<longleftrightarrow> xs = ys \<and> r = s"
  using concat_code [of xs ys r s] by (auto simp: hash_each_def)

lemma each_code_end: "hash_each enc xs = hash_each enc ys \<longleftrightarrow> xs = ys"
  using each_code [of xs "[]" ys "[]"] by simp

end

interpretation bool_code: prefix_code hash_bool
  by unfold_locales (simp add: hash_bool_def split: if_splits)

interpretation u32_code: prefix_code hash_u32
  by unfold_locales (simp add: hash_u32_def)

interpretation str_code: prefix_code hash_str
  by unfold_locales (simp add: hash_str_def)

lemma opt_u32_decodes: "hash_opt_u32 x @ r = hash_opt_u32 y @ s \<Longrightarrow> x = y \<and> r = s"
  by (cases x; cases y) simp_all

interpretation opt_code: prefix_code hash_opt_u32
  by unfold_locales (rule opt_u32_decodes)

interpretation symbol_code: prefix_code hash_symbol
  by unfold_locales (simp add: hash_symbol_def symbol_index_inject)

lemma property_key_decodes: "hash_property_key x @ r = hash_property_key y @ s \<Longrightarrow> x = y \<and> r = s"
  by (cases x; cases y) (simp_all add: str_code.code_iff symbol_code.code_iff)

interpretation key_code: prefix_code hash_property_key
  by unfold_locales (rule property_key_decodes)

lemma visibility_code_inject: "visibility_code v = visibility_code w \<longleftrightarrow> v = w"
  by (cases v; cases w) simp_all

interpretation property_code: prefix_code hash_property
  by unfold_locales
    (auto simp: hash_property_def key_code.code_iff bool_code.code_iff u32_code.code_iff opt_code.code_iff
      visibility_code_inject)

interpretation generic_code: prefix_code hash_generic_param
  by unfold_locales (auto simp: hash_generic_param_def u32_code.code_iff opt_code.code_iff)

interpretation parameter_code: prefix_code hash_parameter
  by unfold_locales (auto simp: hash_parameter_def str_code.code_iff bool_code.code_iff u32_code.code_iff)

interpretation pair_code: prefix_code hash_pair
  by unfold_locales (auto simp: hash_pair_def u32_code.code_iff prod_eq_iff)

interpretation rest_code: prefix_code hash_tuple_rest
  by unfold_locales
    (auto simp: hash_tuple_rest_def bool_code.code_iff u32_code.code_iff hash_bool_def split: option.splits)

lemma literal_decodes: "hash_literal x @ r = hash_literal y @ s \<Longrightarrow> x = y \<and> r = s"
  by (cases x; cases y) (simp_all add: str_code.code_iff symbol_code.code_iff bool_code.code_iff)

interpretation literal_code: prefix_code hash_literal
  by unfold_locales (rule literal_decodes)

lemma modifier_code_inject: "modifier_code v = modifier_code w \<longleftrightarrow> v = w"
  by (cases v; cases w) simp_all

lemma intrinsic_u8_inject: "(ucast (intrinsic_code k) :: u8) = ucast (intrinsic_code l) \<longleftrightarrow> k = l"
  by (cases k; cases l) simp_all

lemmas write_codes =
  bool_code.code_iff u32_code.code_iff str_code.code_iff opt_code.code_iff literal_code.code_iff
  rest_code.code_iff u32_code.each_code property_code.each_code generic_code.each_code
  parameter_code.each_code pair_code.each_code str_code.each_code
  modifier_code_inject intrinsic_u8_inject

fun key_tag :: "structural_key \<Rightarrow> type_tag" where
  "key_tag (SK_Intrinsic _) = Tag_Intrinsic"
| "key_tag (SK_Literal _) = Tag_Literal"
| "key_tag (SK_Object _ _ _ _ _) = Tag_Object"
| "key_tag (SK_Function _ _ _ _) = Tag_Function"
| "key_tag (SK_Union _) = Tag_Union"
| "key_tag (SK_Intersection _) = Tag_Intersection"
| "key_tag (SK_TypeParam _) = Tag_TypeParam"
| "key_tag (SK_Array _) = Tag_Array"
| "key_tag (SK_Tuple _) = Tag_Tuple"
| "key_tag (SK_Readonly _) = Tag_Readonly"
| "key_tag (SK_Conditional _ _ _ _ _ _ _) = Tag_Conditional"
| "key_tag (SK_Instantiation _ _) = Tag_Instantiation"
| "key_tag (SK_ClassInstance _ _) = Tag_ClassInstance"
| "key_tag (SK_Infer _) = Tag_Infer"
| "key_tag (SK_Mapped _ _ _ _ _ _) = Tag_Mapped"
| "key_tag SK_MappedValue = Tag_MappedValue"
| "key_tag (SK_Template _ _) = Tag_Template"
| "key_tag (SK_Keyof _) = Tag_Keyof"
| "key_tag (SK_DeferredIndexedAccess _ _) = Tag_DeferredIndexedAccess"
| "key_tag (SK_Declared _ _) = Tag_Declared"

lemma discriminant_inject: "discriminant t = discriminant u \<longleftrightarrow> t = u"
  by (cases t; cases u) simp_all

lemma writes_start: "\<exists>rest. structural_writes k = W_u8 (discriminant (key_tag k)) # rest"
  by (cases k) (simp_all add: hash_discriminant_def)

lemma same_tag_decodes:
  "key_tag k = key_tag l \<Longrightarrow> structural_writes k @ r = structural_writes l @ s \<Longrightarrow> k = l \<and> r = s"
  by (cases k; cases l) (auto simp: hash_discriminant_def write_codes)

lemma writes_decode:
  assumes "structural_writes k @ r = structural_writes l @ s"
  shows "k = l \<and> r = s"
proof (rule same_tag_decodes [OF _ assms])
  from assms writes_start [of k] writes_start [of l] show "key_tag k = key_tag l"
    by (auto simp: discriminant_inject)
qed

interpretation key_stream: prefix_code structural_writes
  by unfold_locales (rule writes_decode)

text \<open>
  C33: the writes fed to the hasher determine the structural key: two keys have the same stream
  exactly when they are equal, and a stream is never a proper prefix of another key's stream.
\<close>

theorem structural_writes_injective:
  "structural_writes k @ r = structural_writes l @ s \<longleftrightarrow> k = l \<and> r = s"
  by (rule key_stream.code_iff)

end
