(* ===== verification/Graph_Cache.thy ===== *)
theory Graph_Cache
  imports Repr
begin

text \<open>
  Crate \<^verbatim>\<open>typokat-types\<close>, module \<^verbatim>\<open>types/intern/mod.rs\<close>, first half: the caches of facts derived from
  the type graph (\<open>DerivedGraphCache\<close>, \<open>FreeParamSummaryCache\<close>), the keys of completed
  substitutions, and the query-local provenance graph (\<open>DerivationStore\<close>).

  The identity of a type graph is an \<open>Arc<()>\<close> compared by pointer, modelled by a number. Derivation
  ids come from one process-wide atomic counter, which the operations take and return.
\<close>

section \<open>Derived graph caches\<close>

record ('k, 'v) derived_graph_cache =
  gc_graph_identity :: nat
  gc_base :: "('k, 'v) fmap"
  gc_local :: "('k, 'v) fmap"

definition gc_new :: "nat \<Rightarrow> ('k, 'v) derived_graph_cache" where
  "gc_new identity = \<lparr>gc_graph_identity = identity, gc_base = fmempty, gc_local = fmempty\<rparr>"

definition gc_align_with :: "('k, 'v) derived_graph_cache \<Rightarrow> nat \<Rightarrow> ('k, 'v) derived_graph_cache" where
  "gc_align_with c identity =
     (if gc_graph_identity c = identity then c
      else c\<lparr>gc_graph_identity := identity, gc_local := fmempty\<rparr>)"

definition gc_get :: "('k, 'v) derived_graph_cache \<Rightarrow> 'k \<Rightarrow> 'v option" where
  "gc_get c k = (case fmlookup (gc_local c) k of Some v \<Rightarrow> Some v | None \<Rightarrow> fmlookup (gc_base c) k)"

text \<open>\<open>entry(key).or_insert(value)\<close>: an occupied entry is kept.\<close>

definition or_insert :: "('k, 'v) fmap \<Rightarrow> 'k \<Rightarrow> 'v \<Rightarrow> ('k, 'v) fmap" where
  "or_insert m k v = (if k |\<in>| fmdom m then m else fmupd k v m)"

definition gc_insert :: "('k, 'v) derived_graph_cache \<Rightarrow> 'k \<Rightarrow> 'v \<Rightarrow> ('k, 'v) derived_graph_cache" where
  "gc_insert c k v =
     (if k |\<in>| fmdom (gc_base c) then c else c\<lparr>gc_local := or_insert (gc_local c) k v\<rparr>)"

definition gc_insert_batch ::
    "('k, 'v) derived_graph_cache \<Rightarrow> ('k \<times> 'v) list \<Rightarrow> ('k, 'v) derived_graph_cache" where
  "gc_insert_batch c entries = fold (\<lambda>(k, v) c. gc_insert c k v) entries c"

definition gc_freeze_as_base :: "('k, 'v) derived_graph_cache \<Rightarrow> ('k, 'v) derived_graph_cache" where
  "gc_freeze_as_base c = c\<lparr>gc_base := gc_base c ++\<^sub>f gc_local c, gc_local := fmempty\<rparr>"

definition gc_fork_delta :: "('k, 'v) derived_graph_cache \<Rightarrow> nat \<Rightarrow> ('k, 'v) derived_graph_cache" where
  "gc_fork_delta c identity =
     \<lparr>gc_graph_identity = identity, gc_base = gc_base c, gc_local = fmempty\<rparr>"

section \<open>Free-parameter summaries\<close>

record free_param_summary_cache =
  fp_graph_identity :: nat
  fp_base :: "(type_id, type_param_id list) fmap"
  fp_local :: "(type_id, type_param_id list) fmap"

definition fp_new :: "nat \<Rightarrow> free_param_summary_cache" where
  "fp_new identity = \<lparr>fp_graph_identity = identity, fp_base = fmempty, fp_local = fmempty\<rparr>"

definition fp_align_with :: "free_param_summary_cache \<Rightarrow> nat \<Rightarrow> free_param_summary_cache" where
  "fp_align_with c identity =
     (if fp_graph_identity c = identity then c
      else c\<lparr>fp_graph_identity := identity, fp_base := fmempty, fp_local := fmempty\<rparr>)"

definition fp_get :: "free_param_summary_cache \<Rightarrow> type_id \<Rightarrow> type_param_id list option" where
  "fp_get c ty = (case fmlookup (fp_local c) ty of Some v \<Rightarrow> Some v | None \<Rightarrow> fmlookup (fp_base c) ty)"

definition fp_insert :: "free_param_summary_cache \<Rightarrow> type_id \<Rightarrow> type_param_id list \<Rightarrow> free_param_summary_cache" where
  "fp_insert c ty summary =
     (if ty |\<in>| fmdom (fp_base c) then c else c\<lparr>fp_local := or_insert (fp_local c) ty summary\<rparr>)"

definition fp_insert_batch ::
    "free_param_summary_cache \<Rightarrow> (type_id \<times> type_param_id list) list \<Rightarrow> free_param_summary_cache" where
  "fp_insert_batch c summaries = fold (\<lambda>(ty, summary) c. fp_insert c ty summary) summaries c"

definition fp_freeze_as_base :: "free_param_summary_cache \<Rightarrow> free_param_summary_cache" where
  "fp_freeze_as_base c = c\<lparr>fp_base := fp_base c ++\<^sub>f fp_local c, fp_local := fmempty\<rparr>"

definition fp_fork_delta :: "free_param_summary_cache \<Rightarrow> nat \<Rightarrow> free_param_summary_cache" where
  "fp_fork_delta c identity =
     \<lparr>fp_graph_identity = identity, fp_base = fp_base c, fp_local = fmempty\<rparr>"

section \<open>Keys of completed substitutions\<close>

datatype application_key_mode = Mode_RelevantOnly | Mode_FullMap

datatype clean_application_arguments =
    Args_RelevantOnly "(type_param_id \<times> type_id) list"
  | Args_FullMap "(type_param_id \<times> type_id) list"

record clean_application_key =
  ck_source :: type_id
  ck_arguments :: clean_application_arguments

definition from_sorted_arguments ::
    "type_id \<Rightarrow> application_key_mode \<Rightarrow> (type_param_id \<times> type_id) list \<Rightarrow> clean_application_key option" where
  "from_sorted_arguments source mode arguments =
     (if arguments = [] then None
      else Some \<lparr>ck_source = source,
        ck_arguments = (case mode of
            Mode_RelevantOnly \<Rightarrow> Args_RelevantOnly arguments
          | Mode_FullMap \<Rightarrow> Args_FullMap arguments)\<rparr>)"

section \<open>Derivations\<close>

type_synonym derivation_id = u64

record derived_type =
  dt_ty :: type_id
  dt_derivation :: "derivation_id option"

definition derived_plain :: "type_id \<Rightarrow> derived_type" where
  "derived_plain ty = \<lparr>dt_ty = ty, dt_derivation = None\<rparr>"

datatype derivation_edge =
    Edge_ObjectProperty nat
  | Edge_ObjectWriteProperty nat
  | Edge_ObjectStringIndex
  | Edge_ObjectNumberIndex
  | Edge_ObjectCallSignature nat
  | Edge_ObjectConstructSignature nat
  | Edge_FunctionConstraint nat
  | Edge_FunctionDefault nat
  | Edge_FunctionParameter nat
  | Edge_FunctionReceiver
  | Edge_FunctionReturn
  | Edge_UnionMember nat
  | Edge_IntersectionMember nat
  | Edge_ArrayElement
  | Edge_TupleElement nat
  | Edge_TupleRest
  | Edge_ReadonlyOperand
  | Edge_ConditionalCheck
  | Edge_ConditionalExtends
  | Edge_ConditionalTrue
  | Edge_ConditionalFalse
  | Edge_InstantiationArgument nat
  | Edge_ClassArgument nat
  | Edge_MappedKeySource
  | Edge_MappedValueTemplate
  | Edge_MappedModifiersSource
  | Edge_TemplateHole nat
  | Edge_KeyofOperand
  | Edge_DeferredObject
  | Edge_DeferredIndex
  | Edge_DeclaredArgument nat
  | Edge_DeclaredMapper nat

record derivation_node =
  dn_result :: type_id
  dn_identity :: type_id
  dn_children :: "(derivation_edge \<times> derivation_id) list"

record derivation_store =
  ds_graph_identity :: nat
  ds_local :: "(derivation_id, derivation_node) fmap"
  ds_epoch_depth :: nat

definition ds_new :: "nat \<Rightarrow> derivation_store" where
  "ds_new identity = \<lparr>ds_graph_identity = identity, ds_local = fmempty, ds_epoch_depth = 0\<rparr>"

definition ds_align_with :: "derivation_store \<Rightarrow> nat \<Rightarrow> derivation_store" where
  "ds_align_with d identity =
     (if ds_graph_identity d = identity then d
      else d\<lparr>ds_graph_identity := identity, ds_local := fmempty, ds_epoch_depth := 0\<rparr>)"

definition ds_get :: "derivation_store \<Rightarrow> derivation_id \<Rightarrow> derivation_node option" where
  "ds_get d i = fmlookup (ds_local d) i"

text \<open>\<open>fetch_add(1)\<close> on the process-wide counter: the old value is the id, and the counter wraps.\<close>

definition next_derivation_id :: "u64 \<Rightarrow> derivation_id \<times> u64" where
  "next_derivation_id counter = (counter, counter + 1)"

definition ds_push :: "derivation_store \<Rightarrow> u64 \<Rightarrow> derivation_node \<Rightarrow> derivation_id \<times> u64 \<times> derivation_store" where
  "ds_push d counter node =
     (case next_derivation_id counter of (i, counter) \<Rightarrow>
        (i, counter, d\<lparr>ds_local := fmupd i node (ds_local d)\<rparr>))"

definition ds_complete ::
    "derivation_store \<Rightarrow> derivation_id \<Rightarrow> type_id \<Rightarrow> type_id \<Rightarrow> (derivation_edge \<times> derivation_id) list \<Rightarrow>
       bool \<times> derivation_store" where
  "ds_complete d i result identity children =
     (case fmlookup (ds_local d) i of
        None \<Rightarrow> (False, d)
      | Some node \<Rightarrow>
          if dn_result node \<noteq> result \<or> dn_identity node \<noteq> identity then (False, d)
          else (True, d\<lparr>ds_local := fmupd i (node\<lparr>dn_children := children\<rparr>) (ds_local d)\<rparr>))"

definition ds_begin_epoch :: "derivation_store \<Rightarrow> derivation_store" where
  "ds_begin_epoch d =
     (let d = (if ds_epoch_depth d = 0 then d\<lparr>ds_local := fmempty\<rparr> else d)
      in d\<lparr>ds_epoch_depth := ds_epoch_depth d + 1\<rparr>)"

definition ds_end_epoch :: "derivation_store \<Rightarrow> derivation_store" where
  "ds_end_epoch d =
     (if ds_epoch_depth d = 0 then d
      else let d = d\<lparr>ds_epoch_depth := ds_epoch_depth d - 1\<rparr>
        in if ds_epoch_depth d = 0 then d\<lparr>ds_local := fmempty\<rparr> else d)"

definition ds_discard :: "derivation_store \<Rightarrow> derivation_store" where
  "ds_discard d = d\<lparr>ds_local := fmempty, ds_epoch_depth := 0\<rparr>"

definition ds_fork_delta :: "derivation_store \<Rightarrow> nat \<Rightarrow> derivation_store" where
  "ds_fork_delta d identity = ds_new identity"

section \<open>Interface: a cache in which the first answer stands\<close>

locale first_writer_cache =
  fixes get :: "'c \<Rightarrow> 'k \<Rightarrow> 'v option"
    and insert_one :: "'c \<Rightarrow> 'k \<Rightarrow> 'v \<Rightarrow> 'c"
  assumes get_insert: "get (insert_one c k v) k' =
    (if k' = k \<and> get c k = None then Some v else get c k')"
begin

lemma get_insert_all:
  "get (fold (\<lambda>(k, v) c. insert_one c k v) entries c) k =
     (case get c k of Some v \<Rightarrow> Some v | None \<Rightarrow> map_of entries k)"
  by (induction entries arbitrary: c) (auto simp: get_insert split: option.splits)

lemma first_answer_stands: "get c k = Some v \<Longrightarrow> get (fold (\<lambda>(k, v) c. insert_one c k v) entries c) k = Some v"
  by (simp add: get_insert_all)

end

interpretation gcache: first_writer_cache gc_get gc_insert
  by unfold_locales (auto simp: gc_get_def gc_insert_def or_insert_def fmdom_lookup split: option.splits)

interpretation fpcache: first_writer_cache fp_get fp_insert
  by unfold_locales (auto simp: fp_get_def fp_insert_def or_insert_def fmdom_lookup split: option.splits)

text \<open>
  a batch published into a derived-graph cache never changes an answer the cache already
  gives, and answers a new key with the first entry of the batch for it.
\<close>

theorem gc_insert_batch_get:
  "gc_get (gc_insert_batch c entries) k =
     (case gc_get c k of Some v \<Rightarrow> Some v | None \<Rightarrow> map_of entries k)"
  using gcache.get_insert_all [where entries = entries and c = c and k = k] by (simp add: gc_insert_batch_def)

lemma fp_insert_batch_get:
  "fp_get (fp_insert_batch c entries) k =
     (case fp_get c k of Some v \<Rightarrow> Some v | None \<Rightarrow> map_of entries k)"
  using fpcache.get_insert_all [where entries = entries and c = c and k = k] by (simp add: fp_insert_batch_def)

lemma gc_freeze_get: "gc_get (gc_freeze_as_base c) = gc_get c"
  by (auto simp: gc_get_def gc_freeze_as_base_def fmdom_lookup fun_eq_iff split: option.splits)

lemma fp_freeze_get: "fp_get (fp_freeze_as_base c) = fp_get c"
  by (auto simp: fp_get_def fp_freeze_as_base_def fmdom_lookup fun_eq_iff split: option.splits)

lemma gc_fork_get: "gc_get (gc_fork_delta (gc_freeze_as_base c) identity) = gc_get c"
  using gc_freeze_get [of c] by (simp add: gc_get_def gc_fork_delta_def gc_freeze_as_base_def fun_eq_iff)

text \<open>
  aligning the free-parameter summaries with another graph forgets every answer; the
  derived-graph caches then forget only what the current epoch added to the frozen base.
\<close>

theorem align_forgets:
  "fp_get (fp_align_with c identity) k = (if fp_graph_identity c = identity then fp_get c k else None) \<and>
   gc_get (gc_align_with d identity) l =
     (if gc_graph_identity d = identity then gc_get d l else fmlookup (gc_base d) l)"
  by (simp_all add: fp_align_with_def fp_get_def gc_align_with_def gc_get_def)

section \<open>Occurrence queries\<close>

text \<open>What happens to the provenance graph between two epoch marks.\<close>

datatype epoch_step =
    Step_Begin
  | Step_End
  | Step_Push derivation_node
  | Step_Complete derivation_id type_id type_id "(derivation_edge \<times> derivation_id) list"

fun run_epoch_step :: "epoch_step \<Rightarrow> u64 \<times> derivation_store \<Rightarrow> u64 \<times> derivation_store" where
  "run_epoch_step Step_Begin (n, d) = (n, ds_begin_epoch d)"
| "run_epoch_step Step_End (n, d) = (n, ds_end_epoch d)"
| "run_epoch_step (Step_Push node) (n, d) = (case ds_push d n node of (_, n', d') \<Rightarrow> (n', d'))"
| "run_epoch_step (Step_Complete i r t cs) (n, d) = (n, snd (ds_complete d i r t cs))"

definition epoch_run :: "epoch_step list \<Rightarrow> u64 \<times> derivation_store \<Rightarrow> u64 \<times> derivation_store" where
  "epoch_run steps s = fold run_epoch_step steps s"

text \<open>A well-bracketed sequence of steps.\<close>

inductive balanced :: "epoch_step list \<Rightarrow> bool" where
  balanced_Nil: "balanced []"
| balanced_Push: "balanced [Step_Push node]"
| balanced_Complete: "balanced [Step_Complete i r t cs]"
| balanced_Nest: "balanced xs \<Longrightarrow> balanced (Step_Begin # xs @ [Step_End])"
| balanced_Append: "balanced xs \<Longrightarrow> balanced ys \<Longrightarrow> balanced (xs @ ys)"

lemma epoch_run_append: "epoch_run (xs @ ys) s = epoch_run ys (epoch_run xs s)"
  by (simp add: epoch_run_def)

lemma epoch_run_single: "epoch_run [x] s = run_epoch_step x s" "epoch_run [] s = s"
    "epoch_run (x # xs) s = epoch_run xs (run_epoch_step x s)"
  by (simp_all add: epoch_run_def)

lemma complete_depth: "ds_epoch_depth (snd (ds_complete d i r t cs)) = ds_epoch_depth d"
    "fmdom (ds_local (snd (ds_complete d i r t cs))) = fmdom (ds_local d)"
  by (auto simp: ds_complete_def fmdom_lookup split: option.splits)

lemma begin_depth: "ds_epoch_depth (ds_begin_epoch d) = Suc (ds_epoch_depth d)"
    "ds_epoch_depth d > 0 \<Longrightarrow> ds_local (ds_begin_epoch d) = ds_local d"
  by (simp_all add: ds_begin_epoch_def Let_def)

lemma end_depth: "ds_epoch_depth (ds_end_epoch d) = ds_epoch_depth d - 1"
    "ds_epoch_depth d > 1 \<Longrightarrow> ds_local (ds_end_epoch d) = ds_local d"
    "ds_epoch_depth d = 1 \<Longrightarrow> ds_local (ds_end_epoch d) = fmempty"
  by (simp_all add: ds_end_epoch_def Let_def)

lemma balanced_depth:
  "balanced xs \<Longrightarrow> ds_epoch_depth d > 0 \<Longrightarrow> epoch_run xs (n, d) = (n', d') \<Longrightarrow>
     ds_epoch_depth d' = ds_epoch_depth d \<and> fmdom (ds_local d) |\<subseteq>| fmdom (ds_local d')"
proof (induction arbitrary: n d n' d' rule: balanced.induct)
  case (balanced_Nest xs)
  obtain m e where e: "epoch_run xs (n, ds_begin_epoch d) = (m, e)" by fastforce
  with balanced_Nest.IH [OF _ e] balanced_Nest.prems
  have "ds_epoch_depth e = Suc (ds_epoch_depth d)" "fmdom (ds_local d) |\<subseteq>| fmdom (ds_local e)"
    by (simp_all add: begin_depth)
  moreover from balanced_Nest.prems e have "d' = ds_end_epoch e"
    by (simp add: epoch_run_append epoch_run_single)
  ultimately show ?case using balanced_Nest.prems by (simp add: end_depth)
next
  case (balanced_Append xs ys)
  obtain m e where e: "epoch_run xs (n, d) = (m, e)" by fastforce
  with balanced_Append.prems have "epoch_run ys (m, e) = (n', d')" by (simp add: epoch_run_append)
  moreover from balanced_Append.IH(1) [OF balanced_Append.prems(1) e]
  have d: "ds_epoch_depth e = ds_epoch_depth d" "fmdom (ds_local d) |\<subseteq>| fmdom (ds_local e)" by simp_all
  ultimately have "ds_epoch_depth d' = ds_epoch_depth e \<and> fmdom (ds_local e) |\<subseteq>| fmdom (ds_local d')"
    using balanced_Append.IH(2) [of e m n' d'] balanced_Append.prems(1) by simp
  with d show ?case by auto
qed (auto simp: epoch_run_single ds_push_def next_derivation_id_def complete_depth)

text \<open>
  occurrence queries nest. A well-bracketed run inside an open query keeps every node of the
  graph and returns to the same depth, and closing the outermost query empties the graph.
\<close>

theorem occurrence_queries_nest:
  assumes "balanced xs" "epoch_run (Step_Begin # xs) (n, ds_new identity) = (n', d)"
  shows "ds_epoch_depth d = 1 \<and>
    run_epoch_step Step_End (n', d) = (n', ds_new identity\<lparr>ds_graph_identity := ds_graph_identity d\<rparr>)"
proof -
  have "ds_epoch_depth d = ds_epoch_depth (ds_begin_epoch (ds_new identity))"
    using balanced_depth [OF assms(1), of "ds_begin_epoch (ds_new identity)"] assms(2)
    by (simp add: epoch_run_single begin_depth)
  then have "ds_epoch_depth d = 1" by (simp add: begin_depth ds_new_def)
  then show ?thesis by (simp add: ds_end_epoch_def ds_new_def)
qed

lemma occurrence_queries_nest_witness:
  "ds_epoch_depth (snd (epoch_run [Step_Begin, Step_Begin, Step_End] (1, ds_new 7))) = 1"
proof -
  have "balanced [Step_Begin, Step_End]" using balanced_Nest [OF balanced_Nil] by simp
  moreover have "epoch_run (Step_Begin # [Step_Begin, Step_End]) (1, ds_new 7) =
      (1, \<lparr>ds_graph_identity = 7, ds_local = fmempty, ds_epoch_depth = 1\<rparr>)"
    by (simp add: epoch_run_def ds_begin_epoch_def ds_end_epoch_def ds_new_def)
  ultimately show ?thesis
    using occurrence_queries_nest [of "[Step_Begin, Step_End]" 1 7] by simp
qed

end
