(* ===== verification/Interner.thy ===== *)
theory Interner
  imports Structural_Hash Graph_Cache
begin

text \<open>
  Crate \<^verbatim>\<open>typokat-types\<close>, modules \<^verbatim>\<open>types/intern/mod.rs\<close>, \<^verbatim>\<open>composites.rs\<close>, \<^verbatim>\<open>operators.rs\<close> and part of
  \<^verbatim>\<open>declared.rs\<close>: the hash-consing interner over the arena. An operation takes the interner and
  returns the new one with its result; the option around it is the panic of an index out of range,
  an assertion or an \<open>expect\<close>. The third-party hasher is the parameter \<open>fx\<close> throughout.
\<close>

section \<open>State\<close>

datatype reserved_type_kind = Reserved_Object | Reserved_Conditional | Reserved_Mapped

datatype reserved_type_fill =
    Fill_Object type_id object_type
  | Fill_Conditional type_id conditional_type
  | Fill_Mapped type_id mapped_type

fun fill_target :: "reserved_type_fill \<Rightarrow> type_id" where
  "fill_target (Fill_Object tid _) = tid"
| "fill_target (Fill_Conditional tid _) = tid"
| "fill_target (Fill_Mapped tid _) = tid"

fun fill_kind :: "reserved_type_fill \<Rightarrow> reserved_type_kind" where
  "fill_kind (Fill_Object _ _) = Reserved_Object"
| "fill_kind (Fill_Conditional _ _) = Reserved_Conditional"
| "fill_kind (Fill_Mapped _ _) = Reserved_Mapped"

datatype reserved_type_fill_error =
    Fill_Duplicate type_id
  | Fill_NotReserved type_id
  | Fill_KindMismatch type_id reserved_type_kind reserved_type_kind
  | Fill_AlreadyFrozen type_id
  | Fill_InvalidBackingRow type_id

datatype reserved_object_promotion_error =
    Promote_NotReserved type_id
  | Promote_KindMismatch type_id
  | Promote_NotFrozen type_id
  | Promote_InvalidBackingRow type_id

datatype reserved_type_state = State_Pending | State_Frozen

record reserved_type =
  rt_kind :: reserved_type_kind
  rt_state :: reserved_type_state

record well_known =
  wk_error :: type_id
  wk_any :: type_id
  wk_unknown :: type_id
  wk_never :: type_id
  wk_void :: type_id
  wk_null :: type_id
  wk_undefined :: type_id
  wk_boolean :: type_id
  wk_number :: type_id
  wk_string :: type_id
  wk_uppercase :: type_id
  wk_lowercase :: type_id
  wk_capitalize :: type_id
  wk_uncapitalize :: type_id
  wk_this_type :: type_id
  wk_omit_this_parameter :: type_id
  wk_object :: type_id
  wk_bigint :: type_id
  wk_symbol :: type_id

definition is_string_intrinsic_marker :: "well_known \<Rightarrow> type_id \<Rightarrow> bool" where
  "is_string_intrinsic_marker wk tid \<longleftrightarrow>
     tid = wk_uppercase wk \<or> tid = wk_lowercase wk \<or> tid = wk_capitalize wk \<or> tid = wk_uncapitalize wk"

definition this_type_operand :: "well_known \<Rightarrow> store \<Rightarrow> type_id \<Rightarrow> type_id option option" where
  "this_type_operand wk s tid = do {
     found \<leftarrow> instantiation_type_of s tid;
     case found of
       None \<Rightarrow> Some None
     | Some inst \<Rightarrow>
         if in_base inst = wk_this_type wk \<and> length (in_args inst) = 1
         then Some (Some (snd (in_args inst ! 0)))
         else Some None
   }"

record interner =
  it_store :: store
  it_free_param_summaries :: free_param_summary_cache
  it_application_key_modes :: "(type_id, application_key_mode) derived_graph_cache"
  it_deferred_keyof_results :: "(type_id, bool) derived_graph_cache"
  it_clean_application_results :: "(clean_application_key, type_id) derived_graph_cache"
  it_derivations :: derivation_store
  it_dedup_base :: "(u64, type_id list) fmap"
  it_dedup :: "(u64, type_id list) fmap"
  it_declared_recipe_base :: "(declared_type_recipe, declared_recipe_id) fmap"
  it_declared_recipe_local :: "(declared_type_recipe, declared_recipe_id) fmap"
  it_reserved_types_base :: "(type_id, reserved_type) fmap"
  it_reserved_types :: "(type_id, reserved_type) fmap"
  it_well_known :: well_known

section \<open>Lookup and insertion\<close>

definition bucket :: "(u64, type_id list) fmap \<Rightarrow> u64 \<Rightarrow> type_id list" where
  "bucket m hash = (case fmlookup m hash of Some ids \<Rightarrow> ids | None \<Rightarrow> [])"

text \<open>\<open>entry(hash).or_default().push(id)\<close>.\<close>

definition bucket_push :: "(u64, type_id list) fmap \<Rightarrow> u64 \<Rightarrow> type_id \<Rightarrow> (u64, type_id list) fmap" where
  "bucket_push m hash tid = fmupd hash (bucket m hash @ [tid]) m"

definition lookup :: "interner \<Rightarrow> u64 \<Rightarrow> (store \<Rightarrow> type_id \<Rightarrow> bool option) \<Rightarrow> type_id option option" where
  "lookup it hash eq =
     find_m (eq (it_store it)) (bucket (it_dedup_base it) hash @ bucket (it_dedup it) hash)"

text \<open>
  The body every hash-consing constructor shares: hash the key, return a confirmed candidate, or
  append a row and index it.
\<close>

definition hash_cons :: "hasher \<Rightarrow> structural_key \<Rightarrow> (store \<Rightarrow> type_id \<Rightarrow> bool option) \<Rightarrow>
    (store \<Rightarrow> (type_id \<times> store) option) \<Rightarrow> interner \<Rightarrow> (type_id \<times> interner) option" where
  "hash_cons fx key eq push_row it = do {
     let hash = structural_hash fx key;
     found \<leftarrow> lookup it hash eq;
     case found of
       Some existing \<Rightarrow> Some (existing, it)
     | None \<Rightarrow> do {
         (tid, s) \<leftarrow> push_row (it_store it);
         Some (tid, it\<lparr>it_store := s, it_dedup := bucket_push (it_dedup it) hash tid\<rparr>)
       }
   }"

definition is_some_and :: "('a \<Rightarrow> bool) \<Rightarrow> 'a option \<Rightarrow> bool" where
  "is_some_and p x \<longleftrightarrow> (case x of Some v \<Rightarrow> p v | None \<Rightarrow> False)"

section \<open>Constructors of \<^verbatim>\<open>mod.rs\<close>\<close>

definition intern_intrinsic :: "hasher \<Rightarrow> interner \<Rightarrow> intrinsic_kind \<Rightarrow> (type_id \<times> interner) option" where [intern_defs]:
  "intern_intrinsic fx it kind =
     hash_cons fx (SK_Intrinsic kind)
       (\<lambda>s tid. map_option (\<lambda>k. k = Some kind) (intrinsic_kind_of s tid))
       (\<lambda>s. Some (push_intrinsic s kind
          (if kind = Kind_Error then flags_contains_error else flags_empty))) it"

definition intern_literal :: "hasher \<Rightarrow> interner \<Rightarrow> literal_value \<Rightarrow> (type_id \<times> interner) option" where [intern_defs]:
  "intern_literal fx it value =
     hash_cons fx (SK_Literal value)
       (\<lambda>s tid. map_option (is_some_and (\<lambda>existing. literal_eq existing value)) (literal_value_of s tid))
       (\<lambda>s. Some (push_literal s value flags_empty)) it"

definition intern_type_param :: "hasher \<Rightarrow> interner \<Rightarrow> type_param_id \<Rightarrow> string \<Rightarrow> (type_id \<times> interner) option" where [intern_defs]:
  "intern_type_param fx it tid name =
     hash_cons fx (SK_TypeParam tid)
       (\<lambda>s ty. map_option (\<lambda>p. map_option tp_id p = Some tid) (type_param_of s ty))
       (\<lambda>s. Some (push_type_param s \<lparr>tp_id = tid, tp_name = name\<rparr> flags_empty)) it"

definition intern_infer :: "hasher \<Rightarrow> interner \<Rightarrow> u32 \<Rightarrow> (type_id \<times> interner) option" where [intern_defs]:
  "intern_infer fx it index =
     hash_cons fx (SK_Infer index)
       (\<lambda>s tid. map_option (\<lambda>i. i = Some index) (infer_index s tid))
       (\<lambda>s. Some (push_infer s index flags_empty)) it"

section \<open>Constructors of \<^verbatim>\<open>composites.rs\<close>\<close>

definition sort_properties :: "object_type \<Rightarrow> object_type" where
  "sort_properties ob = ob\<lparr>ob_properties := sort_key pr_key (ob_properties ob)\<rparr>"

definition object_props_eq :: "property_type list \<Rightarrow> property_type list \<Rightarrow> bool" where
  "object_props_eq a b \<longleftrightarrow>
     length a = length b \<and>
     list_all (\<lambda>(x, y).
         pr_key x = pr_key y \<and> pr_optional x = pr_optional y \<and> pr_ty x = pr_ty y \<and>
         pr_write_ty x = pr_write_ty y \<and> pr_visibility x = pr_visibility y \<and>
         pr_declaring_class x = pr_declaring_class y \<and> pr_readonly x = pr_readonly y \<and>
         pr_is_accessor x = pr_is_accessor y) (zip a b)"

definition function_params_eq :: "parameter_type list \<Rightarrow> parameter_type list \<Rightarrow> bool" where
  "function_params_eq a b \<longleftrightarrow> a = b"

definition object_key :: "object_type \<Rightarrow> structural_key" where
  "object_key ob = SK_Object (ob_properties ob) (ob_string_index ob) (ob_number_index ob)
     (ob_call_signatures ob) (ob_construct_signatures ob)"

definition object_eq :: "object_type \<Rightarrow> store \<Rightarrow> type_id \<Rightarrow> bool option" where
  "object_eq ob s tid =
     map_option (is_some_and (\<lambda>existing.
         ob_string_index existing = ob_string_index ob \<and>
         ob_number_index existing = ob_number_index ob \<and>
         ob_call_signatures existing = ob_call_signatures ob \<and>
         ob_construct_signatures existing = ob_construct_signatures ob \<and>
         object_props_eq (ob_properties existing) (ob_properties ob)))
       (object_type_of s tid)"

definition intern_object :: "hasher \<Rightarrow> interner \<Rightarrow> object_type \<Rightarrow> (type_id \<times> interner) option" where [intern_defs]:
  "intern_object fx it ob =
     (let ob = sort_properties ob
      in hash_cons fx (object_key ob) (object_eq ob) (\<lambda>s. Some (push_object s ob flags_empty)) it)"

definition intern_function :: "hasher \<Rightarrow> interner \<Rightarrow> function_type \<Rightarrow> (type_id \<times> interner) option" where [intern_defs]:
  "intern_function fx it f =
     hash_cons fx (SK_Function (fn_type_params f) (fn_receiver f) (fn_params f) (fn_ret f))
       (\<lambda>s tid. map_option (is_some_and (\<lambda>existing.
           fn_type_params existing = fn_type_params f \<and> fn_receiver existing = fn_receiver f \<and>
           fn_ret existing = fn_ret f \<and> function_params_eq (fn_params existing) (fn_params f)))
         (function_type_of s tid))
       (\<lambda>s. Some (push_function s f flags_empty)) it"

definition intern_array :: "hasher \<Rightarrow> interner \<Rightarrow> type_id \<Rightarrow> (type_id \<times> interner) option" where [intern_defs]:
  "intern_array fx it element =
     hash_cons fx (SK_Array element)
       (\<lambda>s tid. map_option (\<lambda>a. a = Some element) (array_type_of s tid))
       (\<lambda>s. Some (push_array s element flags_empty)) it"

definition intern_tuple_type :: "hasher \<Rightarrow> interner \<Rightarrow> tuple_type \<Rightarrow> (type_id \<times> interner) option" where [intern_defs]:
  "intern_tuple_type fx it tuple =
     hash_cons fx (SK_Tuple tuple)
       (\<lambda>s tid. map_option (is_some_and (\<lambda>existing. existing = tuple)) (tuple_type_of s tid))
       (\<lambda>s. Some (push_tuple s tuple flags_empty)) it"

definition intern_tuple :: "hasher \<Rightarrow> interner \<Rightarrow> type_id list \<Rightarrow> (type_id \<times> interner) option" where
  "intern_tuple fx it elements = intern_tuple_type fx it (tuple_fixed elements)"

definition intern_readonly :: "hasher \<Rightarrow> interner \<Rightarrow> type_id \<Rightarrow> (type_id \<times> interner) option" where [intern_defs]:
  "intern_readonly fx it operand =
     hash_cons fx (SK_Readonly operand)
       (\<lambda>s tid. map_option (\<lambda>r. r = Some operand) (readonly_operand s tid))
       (\<lambda>s. Some (push_readonly s operand flags_empty)) it"

section \<open>Constructors of \<^verbatim>\<open>operators.rs\<close>\<close>

definition intern_conditional :: "hasher \<Rightarrow> interner \<Rightarrow> conditional_type \<Rightarrow> (type_id \<times> interner) option" where [intern_defs]:
  "intern_conditional fx it c =
     hash_cons fx (SK_Conditional (co_check c) (co_extends_ty c) (co_true_branch c) (co_false_branch c)
         (co_infer_count c) (co_distributive c) (co_poisoned c))
       (\<lambda>s tid. map_option (is_some_and (\<lambda>existing.
           co_check existing = co_check c \<and> co_extends_ty existing = co_extends_ty c \<and>
           co_true_branch existing = co_true_branch c \<and> co_false_branch existing = co_false_branch c \<and>
           co_infer_count existing = co_infer_count c \<and> co_distributive existing = co_distributive c \<and>
           co_poisoned existing = co_poisoned c)) (conditional_type_of s tid))
       (\<lambda>s. Some (push_conditional s c flags_empty)) it"

definition intern_instantiation ::
    "hasher \<Rightarrow> interner \<Rightarrow> type_id \<Rightarrow> (type_param_id \<times> type_id) list \<Rightarrow> (type_id \<times> interner) option" where [intern_defs]:
  "intern_instantiation fx it base args =
     (let args = sort_key fst args
      in hash_cons fx (SK_Instantiation base args)
           (\<lambda>s tid. map_option (is_some_and (\<lambda>existing. in_base existing = base \<and> in_args existing = args))
              (instantiation_type_of s tid))
           (\<lambda>s. Some (push_instantiation s \<lparr>in_base = base, in_args = args\<rparr> flags_empty)) it)"

definition intern_class_instance ::
    "hasher \<Rightarrow> interner \<Rightarrow> class_id \<Rightarrow> type_id list \<Rightarrow> (type_id \<times> interner) option" where [intern_defs]:
  "intern_class_instance fx it class args =
     hash_cons fx (SK_ClassInstance class args)
       (\<lambda>s tid. map_option (is_some_and (\<lambda>existing. ci_class existing = class \<and> ci_args existing = args))
          (class_instance_type_of s tid))
       (\<lambda>s. push_class_instance s \<lparr>ci_class = class, ci_args = args\<rparr> flags_empty) it"

definition intern_deferred_indexed_access ::
    "hasher \<Rightarrow> interner \<Rightarrow> type_id \<Rightarrow> type_id \<Rightarrow> (type_id \<times> interner) option" where [intern_defs]:
  "intern_deferred_indexed_access fx it ob index =
     hash_cons fx (SK_DeferredIndexedAccess ob index)
       (\<lambda>s tid. map_option (is_some_and (\<lambda>existing. di_object existing = ob \<and> di_index existing = index))
          (deferred_indexed_access_type_of s tid))
       (\<lambda>s. push_deferred_indexed_access s \<lparr>di_object = ob, di_index = index\<rparr> flags_empty) it"

definition intern_mapped :: "hasher \<Rightarrow> interner \<Rightarrow> mapped_type \<Rightarrow> (type_id \<times> interner) option" where [intern_defs]:
  "intern_mapped fx it m =
     hash_cons fx (SK_Mapped (ma_homomorphic m) (ma_key_source m) (ma_value_template m)
         (ma_modifiers_source m) (ma_optional_modifier m) (ma_readonly_modifier m))
       (\<lambda>s tid. map_option (is_some_and (\<lambda>existing.
           ma_homomorphic existing = ma_homomorphic m \<and> ma_key_source existing = ma_key_source m \<and>
           ma_value_template existing = ma_value_template m \<and>
           ma_modifiers_source existing = ma_modifiers_source m \<and>
           ma_optional_modifier existing = ma_optional_modifier m \<and>
           ma_readonly_modifier existing = ma_readonly_modifier m)) (mapped_type_of s tid))
       (\<lambda>s. Some (push_mapped s m flags_empty)) it"

definition intern_keyof :: "hasher \<Rightarrow> interner \<Rightarrow> type_id \<Rightarrow> (type_id \<times> interner) option" where [intern_defs]:
  "intern_keyof fx it operand =
     hash_cons fx (SK_Keyof operand)
       (\<lambda>s tid. map_option (\<lambda>k. k = Some operand) (keyof_operand s tid))
       (\<lambda>s. Some (push_keyof s operand flags_empty)) it"

definition intern_template :: "hasher \<Rightarrow> interner \<Rightarrow> template_type \<Rightarrow> (type_id \<times> interner) option" where [intern_defs]:
  "intern_template fx it t =
     hash_cons fx (SK_Template (te_texts t) (te_holes t))
       (\<lambda>s tid. map_option (is_some_and (\<lambda>existing.
           te_texts existing = te_texts t \<and> te_holes existing = te_holes t)) (template_type_of s tid))
       (\<lambda>s. Some (push_template s t flags_empty)) it"

definition intern_mapped_value :: "hasher \<Rightarrow> interner \<Rightarrow> (type_id \<times> interner) option" where [intern_defs]:
  "intern_mapped_value fx it =
     hash_cons fx SK_MappedValue
       (\<lambda>s tid. map_option (\<lambda>t. t = Tag_MappedValue) (tag s tid))
       (\<lambda>s. Some (push_mapped_value s flags_empty)) it"

text \<open>
  \<open>dedup_by_key\<close> keeps the first of consecutive entries with the same parameter. The recipe's
  parameters are sorted, so \<open>binary_search\<close> is membership; the callers pass the entries of a hash
  map, whose keys are distinct, so the unstable sort has one outcome.
\<close>

fun dedup_by_param :: "(type_param_id \<times> type_id) list \<Rightarrow> (type_param_id \<times> type_id) list" where
  "dedup_by_param [] = []"
| "dedup_by_param [x] = [x]"
| "dedup_by_param (x # y # xs) =
     (if fst x = fst y then dedup_by_param (x # xs) else x # dedup_by_param (y # xs))"

definition intern_declared ::
    "hasher \<Rightarrow> interner \<Rightarrow> declared_recipe_id \<Rightarrow> (type_param_id \<times> type_id) list \<Rightarrow> (type_id \<times> interner) option" where
  "intern_declared fx it recipe mapper = do {
     existing \<leftarrow> declared_recipe (it_store it) recipe;
     let free_params = dr_free_params existing;
     let mapper = dedup_by_param (sort_key fst (filter (\<lambda>(parameter, _). parameter \<in> set free_params) mapper));
     let declared = \<lparr>de_recipe = recipe, de_mapper = mapper\<rparr>;
     hash_cons fx (SK_Declared recipe mapper)
       (\<lambda>s tid. map_option (\<lambda>d. d = Some declared) (declared_type_of s tid))
       (\<lambda>s. push_declared s declared flags_empty) it
   }"

section \<open>Building the interner\<close>

definition well_known_zero :: well_known where
  "well_known_zero = \<lparr>
     wk_error = 0, wk_any = 0, wk_unknown = 0, wk_never = 0, wk_void = 0,
     wk_null = 0, wk_undefined = 0, wk_boolean = 0, wk_number = 0, wk_string = 0,
     wk_uppercase = 0, wk_lowercase = 0, wk_capitalize = 0, wk_uncapitalize = 0, wk_this_type = 0,
     wk_omit_this_parameter = 0, wk_object = 0, wk_bigint = 0, wk_symbol = 0\<rparr>"

definition empty_interner :: interner where
  "empty_interner =
     (let identity = st_semantic_graph_identity store_new
      in \<lparr>it_store = store_new, it_free_param_summaries = fp_new identity,
        it_application_key_modes = gc_new identity, it_deferred_keyof_results = gc_new identity,
        it_clean_application_results = gc_new identity, it_derivations = ds_new identity,
        it_dedup_base = fmempty, it_dedup = fmempty,
        it_declared_recipe_base = fmempty, it_declared_recipe_local = fmempty,
        it_reserved_types_base = fmempty, it_reserved_types = fmempty,
        it_well_known = well_known_zero\<rparr>)"

fun intern_intrinsics :: "hasher \<Rightarrow> interner \<Rightarrow> intrinsic_kind list \<Rightarrow> (type_id list \<times> interner) option" where
  "intern_intrinsics fx it [] = Some ([], it)"
| "intern_intrinsics fx it (kind # kinds) = do {
     (tid, it) \<leftarrow> intern_intrinsic fx it kind;
     (ids, it) \<leftarrow> intern_intrinsics fx it kinds;
     Some (tid # ids, it)
   }"

text \<open>
  \<open>id_of\<close>: the position of the kind in \<open>IntrinsicKind::ALL\<close> selects the id. Every kind is in the list
  (\<open>intrinsic_all_complete\<close>), so the \<open>expect\<close> cannot fire, and \<open>ids\<close> is as long as the list.
\<close>

definition id_of :: "type_id list \<Rightarrow> intrinsic_kind \<Rightarrow> type_id" where
  "id_of ids kind = ids ! length (takeWhile (\<lambda>k. k \<noteq> kind) intrinsic_all)"

definition well_known_of_ids :: "type_id list \<Rightarrow> well_known" where
  "well_known_of_ids ids = \<lparr>
     wk_error = id_of ids Kind_Error,
     wk_any = id_of ids Kind_Any,
     wk_unknown = id_of ids Kind_Unknown,
     wk_never = id_of ids Kind_Never,
     wk_void = id_of ids Kind_Void,
     wk_null = id_of ids Kind_Null,
     wk_undefined = id_of ids Kind_Undefined,
     wk_boolean = id_of ids Kind_Boolean,
     wk_number = id_of ids Kind_Number,
     wk_string = id_of ids Kind_String,
     wk_uppercase = id_of ids Kind_Uppercase,
     wk_lowercase = id_of ids Kind_Lowercase,
     wk_capitalize = id_of ids Kind_Capitalize,
     wk_uncapitalize = id_of ids Kind_Uncapitalize,
     wk_this_type = id_of ids Kind_ThisType,
     wk_omit_this_parameter = id_of ids Kind_OmitThisParameter,
     wk_object = id_of ids Kind_Object,
     wk_bigint = id_of ids Kind_BigInt,
     wk_symbol = id_of ids Kind_Symbol\<rparr>"

definition with_intrinsics :: "hasher \<Rightarrow> interner option" where
  "with_intrinsics fx = do {
     (ids, it) \<leftarrow> intern_intrinsics fx empty_interner intrinsic_all;
     Some (it\<lparr>it_well_known := well_known_of_ids ids\<rparr>)
   }"

section \<open>Reservations\<close>

definition reserved_type_of :: "interner \<Rightarrow> type_id \<Rightarrow> reserved_type option" where
  "reserved_type_of it tid =
     (case fmlookup (it_reserved_types_base it) tid of
        Some r \<Rightarrow> Some r | None \<Rightarrow> fmlookup (it_reserved_types it) tid)"

definition contains_reserved_type :: "interner \<Rightarrow> type_id \<Rightarrow> bool" where
  "contains_reserved_type it tid \<longleftrightarrow>
     tid |\<in>| fmdom (it_reserved_types_base it) \<or> tid |\<in>| fmdom (it_reserved_types it)"

definition register_reserved_type :: "interner \<Rightarrow> type_id \<Rightarrow> reserved_type_kind \<Rightarrow> type_id \<times> interner" where
  "register_reserved_type it tid kind =
     (tid, it\<lparr>it_reserved_types :=
        fmupd tid \<lparr>rt_kind = kind, rt_state = State_Pending\<rparr> (it_reserved_types it)\<rparr>)"

definition reserve_object :: "interner \<Rightarrow> type_id \<times> interner" where
  "reserve_object it =
     (case push_object (it_store it) object_default flags_empty of
        (tid, s) \<Rightarrow> register_reserved_type (it\<lparr>it_store := s\<rparr>) tid Reserved_Object)"

definition error_conditional :: "well_known \<Rightarrow> bool \<Rightarrow> conditional_type" where
  "error_conditional wk poisoned =
     \<lparr>co_check = wk_error wk, co_extends_ty = wk_error wk, co_true_branch = wk_error wk,
       co_false_branch = wk_error wk, co_infer_count = 0, co_distributive = False,
       co_poisoned = poisoned\<rparr>"

definition error_mapped :: "well_known \<Rightarrow> mapped_type" where
  "error_mapped wk =
     \<lparr>ma_homomorphic = False, ma_key_source = wk_error wk, ma_value_template = wk_error wk,
       ma_modifiers_source = None, ma_optional_modifier = Mod_Keep, ma_readonly_modifier = Mod_Keep\<rparr>"

definition reserve_conditional :: "interner \<Rightarrow> type_id \<times> interner" where
  "reserve_conditional it =
     (case push_conditional (it_store it) (error_conditional (it_well_known it) False) flags_empty of
        (tid, s) \<Rightarrow> register_reserved_type (it\<lparr>it_store := s\<rparr>) tid Reserved_Conditional)"

definition reserve_mapped :: "interner \<Rightarrow> type_id \<times> interner" where
  "reserve_mapped it =
     (case push_mapped (it_store it) (error_mapped (it_well_known it)) flags_empty of
        (tid, s) \<Rightarrow> register_reserved_type (it\<lparr>it_store := s\<rparr>) tid Reserved_Mapped)"

text \<open>
  \<open>fill_reserved_type_batch\<close>: the duplicate check over the whole batch, the per-fill validation in
  order, the canonical property order, and only then the writes.
\<close>

definition is_valid_backing_row :: "store \<Rightarrow> reserved_type_kind \<Rightarrow> type_id \<Rightarrow> bool option" where
  "is_valid_backing_row s kind tid =
     (case kind of
        Reserved_Object \<Rightarrow> map_option (\<lambda>r. r \<noteq> None) (object_type_of s tid)
      | Reserved_Conditional \<Rightarrow> map_option (\<lambda>r. r \<noteq> None) (conditional_type_of s tid)
      | Reserved_Mapped \<Rightarrow> map_option (\<lambda>r. r \<noteq> None) (mapped_type_of s tid))"

definition validate_fill :: "interner \<Rightarrow> reserved_type_fill \<Rightarrow> reserved_type_fill_error option option" where
  "validate_fill it fill =
     (let tid = fill_target fill in
      case reserved_type_of it tid of
        None \<Rightarrow> Some (Some (Fill_NotReserved tid))
      | Some reserved \<Rightarrow>
          if rt_kind reserved \<noteq> fill_kind fill
          then Some (Some (Fill_KindMismatch tid (rt_kind reserved) (fill_kind fill)))
          else if rt_state reserved = State_Frozen then Some (Some (Fill_AlreadyFrozen tid))
          else do {
            valid \<leftarrow> is_valid_backing_row (it_store it) (rt_kind reserved) tid;
            Some (if valid then None else Some (Fill_InvalidBackingRow tid))
          })"

fun validate_fills :: "interner \<Rightarrow> reserved_type_fill list \<Rightarrow> reserved_type_fill_error option option" where
  "validate_fills it [] = Some None"
| "validate_fills it (fill # fills) = do {
     err \<leftarrow> validate_fill it fill;
     case err of Some e \<Rightarrow> Some (Some e) | None \<Rightarrow> validate_fills it fills
   }"

fun canonical_fill :: "reserved_type_fill \<Rightarrow> reserved_type_fill" where
  "canonical_fill (Fill_Object tid ob) = Fill_Object tid (sort_properties ob)"
| "canonical_fill fill = fill"

definition write_fill :: "store \<Rightarrow> reserved_type_fill \<Rightarrow> store option" where
  "write_fill s fill =
     (case fill of
        Fill_Object tid ob \<Rightarrow> set_object s tid ob
      | Fill_Conditional tid c \<Rightarrow> set_conditional s tid c
      | Fill_Mapped tid m \<Rightarrow> set_mapped s tid m)"

fun write_fills :: "interner \<Rightarrow> reserved_type_fill list \<Rightarrow> interner option" where
  "write_fills it [] = Some it"
| "write_fills it (fill # fills) = do {
     s \<leftarrow> write_fill (it_store it) fill;
     reserved \<leftarrow> fmlookup (it_reserved_types it) (fill_target fill);
     write_fills (it\<lparr>it_store := s, it_reserved_types :=
       fmupd (fill_target fill) (reserved\<lparr>rt_state := State_Frozen\<rparr>) (it_reserved_types it)\<rparr>) fills
   }"

definition fill_reserved_type_batch ::
    "interner \<Rightarrow> reserved_type_fill list \<Rightarrow> (reserved_type_fill_error option \<times> interner) option" where
  "fill_reserved_type_batch it fills =
     (case first_repeat {||} (map fill_target fills) of
        Some tid \<Rightarrow> Some (Some (Fill_Duplicate tid), it)
      | None \<Rightarrow> do {
          err \<leftarrow> validate_fills it fills;
          case err of
            Some e \<Rightarrow> Some (Some e, it)
          | None \<Rightarrow> do {
              let fills = map canonical_fill fills;
              let it = (if fills = [] then it
                else it\<lparr>it_store := mark_semantic_graph_mutation (it_store it)\<rparr>);
              it \<leftarrow> write_fills it fills;
              Some (None, it)
            }
        })"

text \<open>The \<open>expect\<close> of the single fills: an error is a panic.\<close>

definition expect_filled :: "(reserved_type_fill_error option \<times> interner) option \<Rightarrow> interner option" where
  "expect_filled r = do { (err, it) \<leftarrow> r; if err = None then Some it else None }"

definition fill_object :: "interner \<Rightarrow> type_id \<Rightarrow> object_type \<Rightarrow> interner option" where
  "fill_object it tid ob = expect_filled (fill_reserved_type_batch it [Fill_Object tid ob])"

definition fill_conditional :: "interner \<Rightarrow> type_id \<Rightarrow> conditional_type \<Rightarrow> interner option" where
  "fill_conditional it tid c = expect_filled (fill_reserved_type_batch it [Fill_Conditional tid c])"

definition fill_mapped :: "interner \<Rightarrow> type_id \<Rightarrow> mapped_type \<Rightarrow> interner option" where
  "fill_mapped it tid m = expect_filled (fill_reserved_type_batch it [Fill_Mapped tid m])"

definition abandon_reserved_object ::
    "interner \<Rightarrow> type_id \<Rightarrow> (reserved_type_fill_error option \<times> interner) option" where
  "abandon_reserved_object it tid = fill_reserved_type_batch it [Fill_Object tid object_default]"

definition poison_reserved_conditional ::
    "interner \<Rightarrow> type_id \<Rightarrow> (reserved_type_fill_error option \<times> interner) option" where
  "poison_reserved_conditional it tid =
     fill_reserved_type_batch it [Fill_Conditional tid (error_conditional (it_well_known it) True)]"

definition poison_reserved_mapped ::
    "interner \<Rightarrow> type_id \<Rightarrow> (reserved_type_fill_error option \<times> interner) option" where
  "poison_reserved_mapped it tid =
     fill_reserved_type_batch it [Fill_Mapped tid (error_mapped (it_well_known it))]"

definition promote_caller_certified_acyclic_reserved_object :: "hasher \<Rightarrow> interner \<Rightarrow> type_id \<Rightarrow>
    ((reserved_object_promotion_error + type_id) \<times> interner) option" where
  "promote_caller_certified_acyclic_reserved_object fx it tid =
     (if tid |\<in>| fmdom (it_reserved_types_base it) then Some (Inl (Promote_NotReserved tid), it)
      else case reserved_type_of it tid of
        None \<Rightarrow> Some (Inl (Promote_NotReserved tid), it)
      | Some reserved \<Rightarrow>
          if rt_kind reserved \<noteq> Reserved_Object then Some (Inl (Promote_KindMismatch tid), it)
          else if rt_state reserved \<noteq> State_Frozen then Some (Inl (Promote_NotFrozen tid), it)
          else do {
            backing \<leftarrow> object_type_of (it_store it) tid;
            case backing of
              None \<Rightarrow> Some (Inl (Promote_InvalidBackingRow tid), it)
            | Some ob \<Rightarrow> do {
                let hash = structural_hash fx (object_key ob);
                found \<leftarrow> lookup it hash (object_eq ob);
                case found of
                  Some existing \<Rightarrow> Some (Inr existing, it)
                | None \<Rightarrow> do {
                    _ \<leftarrow> fmlookup (it_reserved_types it) tid;
                    Some (Inr tid, it\<lparr>it_reserved_types := fmdrop tid (it_reserved_types it),
                      it_dedup := bucket_push (it_dedup it) hash tid\<rparr>)
                  }
              }
          })"

section \<open>Sealing and forking\<close>

definition interner_align :: "interner \<Rightarrow> interner" where
  "interner_align it =
     (let identity = st_semantic_graph_identity (it_store it)
      in it\<lparr>it_free_param_summaries := fp_align_with (it_free_param_summaries it) identity,
           it_application_key_modes := gc_align_with (it_application_key_modes it) identity,
           it_deferred_keyof_results := gc_align_with (it_deferred_keyof_results it) identity,
           it_clean_application_results := gc_align_with (it_clean_application_results it) identity,
           it_derivations := ds_align_with (it_derivations it) identity\<rparr>)"

text \<open>The second component is the interner, also on the error paths.\<close>

definition interner_freeze_as_base :: "interner \<Rightarrow> string option \<times> interner" where
  "interner_freeze_as_base it =
     (if it_dedup_base it \<noteq> fmempty \<or> it_reserved_types_base it \<noteq> fmempty \<or>
         it_declared_recipe_base it \<noteq> fmempty
      then (Some ''interner is already sealed'', it)
      else if \<not> fmpred (\<lambda>_ reserved. rt_state reserved \<noteq> State_Pending) (it_reserved_types it)
      then (Some ''interner has pending reserved types'', it)
      else
        let it = interner_align it in
        case store_freeze_as_base (it_store it) of
          Inl e \<Rightarrow> (Some e, it)
        | Inr s \<Rightarrow>
            (None, it\<lparr>it_store := s,
               it_free_param_summaries := fp_freeze_as_base (it_free_param_summaries it),
               it_application_key_modes := gc_freeze_as_base (it_application_key_modes it),
               it_deferred_keyof_results := gc_freeze_as_base (it_deferred_keyof_results it),
               it_clean_application_results := gc_freeze_as_base (it_clean_application_results it),
               it_derivations := ds_discard (it_derivations it),
               it_dedup_base := it_dedup it, it_dedup := fmempty,
               it_declared_recipe_base := it_declared_recipe_local it, it_declared_recipe_local := fmempty,
               it_reserved_types_base := it_reserved_types it, it_reserved_types := fmempty\<rparr>))"

definition interner_fork_delta :: "interner \<Rightarrow> string + interner" where
  "interner_fork_delta it =
     (if it_dedup it \<noteq> fmempty \<or> it_reserved_types it \<noteq> fmempty \<or> it_declared_recipe_local it \<noteq> fmempty
      then Inl ''interner base has an unpublished suffix''
      else and_then (store_fork_delta (it_store it)) (\<lambda>s.
        let identity = st_semantic_graph_identity s in
        Inr \<lparr>it_store = s,
          it_free_param_summaries = fp_fork_delta (it_free_param_summaries it) identity,
          it_application_key_modes = gc_fork_delta (it_application_key_modes it) identity,
          it_deferred_keyof_results = gc_fork_delta (it_deferred_keyof_results it) identity,
          it_clean_application_results = gc_fork_delta (it_clean_application_results it) identity,
          it_derivations = ds_fork_delta (it_derivations it) identity,
          it_dedup_base = it_dedup_base it, it_dedup = fmempty,
          it_declared_recipe_base = it_declared_recipe_base it, it_declared_recipe_local = fmempty,
          it_reserved_types_base = it_reserved_types_base it, it_reserved_types = fmempty,
          it_well_known = it_well_known it\<rparr>))"

section \<open>Side columns, caches and derivations through the interner\<close>

definition interner_set_type_param_constraint :: "interner \<Rightarrow> type_param_id \<Rightarrow> type_id \<Rightarrow> bool \<times> interner" where
  "interner_set_type_param_constraint it tid c =
     (case set_type_param_constraint (it_store it) tid c of (ok, s) \<Rightarrow> (ok, it\<lparr>it_store := s\<rparr>))"

definition interner_remove_type_param_constraint :: "interner \<Rightarrow> type_param_id \<Rightarrow> bool \<times> interner" where
  "interner_remove_type_param_constraint it tid =
     (case remove_type_param_constraint (it_store it) tid of (ok, s) \<Rightarrow> (ok, it\<lparr>it_store := s\<rparr>))"

definition interner_freeze_type_param_metadata ::
    "interner \<Rightarrow> type_param_id list \<Rightarrow> type_param_freeze_error option \<times> interner" where
  "interner_freeze_type_param_metadata it ids =
     (case freeze_type_param_metadata (it_store it) ids of (err, s) \<Rightarrow> (err, it\<lparr>it_store := s\<rparr>))"

definition interner_set_template_name :: "interner \<Rightarrow> type_id \<Rightarrow> string \<Rightarrow> interner" where
  "interner_set_template_name it tid name =
     (case fmlookup (it_reserved_types it) tid of
        None \<Rightarrow> it
      | Some reserved \<Rightarrow>
          if rt_kind reserved \<notin> {Reserved_Conditional, Reserved_Mapped} then it
          else it\<lparr>it_store := set_template_name (it_store it) tid name\<rparr>)"

definition free_param_summary :: "interner \<Rightarrow> type_id \<Rightarrow> type_param_id list option \<times> interner" where
  "free_param_summary it ty =
     (let c = fp_align_with (it_free_param_summaries it) (st_semantic_graph_identity (it_store it))
      in (fp_get c ty, it\<lparr>it_free_param_summaries := c\<rparr>))"

definition publish_free_param_summaries :: "interner \<Rightarrow> (type_id \<times> type_param_id list) list \<Rightarrow> interner" where
  "publish_free_param_summaries it summaries =
     (let c = fp_align_with (it_free_param_summaries it) (st_semantic_graph_identity (it_store it))
      in it\<lparr>it_free_param_summaries := fp_insert_batch c summaries\<rparr>)"

definition application_key_mode_of :: "interner \<Rightarrow> type_id \<Rightarrow> application_key_mode option \<times> interner" where
  "application_key_mode_of it ty =
     (let c = gc_align_with (it_application_key_modes it) (st_semantic_graph_identity (it_store it))
      in (gc_get c ty, it\<lparr>it_application_key_modes := c\<rparr>))"

definition publish_application_key_modes :: "interner \<Rightarrow> (type_id \<times> application_key_mode) list \<Rightarrow> interner" where
  "publish_application_key_modes it modes =
     (let c = gc_align_with (it_application_key_modes it) (st_semantic_graph_identity (it_store it))
      in it\<lparr>it_application_key_modes := gc_insert_batch c modes\<rparr>)"

definition deferred_keyof_result :: "interner \<Rightarrow> type_id \<Rightarrow> bool option \<times> interner" where
  "deferred_keyof_result it ty =
     (let c = gc_align_with (it_deferred_keyof_results it) (st_semantic_graph_identity (it_store it))
      in (gc_get c ty, it\<lparr>it_deferred_keyof_results := c\<rparr>))"

definition publish_deferred_keyof_result :: "interner \<Rightarrow> type_id \<Rightarrow> bool \<Rightarrow> interner" where
  "publish_deferred_keyof_result it ty result =
     (let c = gc_align_with (it_deferred_keyof_results it) (st_semantic_graph_identity (it_store it))
      in it\<lparr>it_deferred_keyof_results := gc_insert c ty result\<rparr>)"

definition clean_application_result :: "interner \<Rightarrow> clean_application_key \<Rightarrow> type_id option \<times> interner" where
  "clean_application_result it key =
     (let c = gc_align_with (it_clean_application_results it) (st_semantic_graph_identity (it_store it))
      in (gc_get c key, it\<lparr>it_clean_application_results := c\<rparr>))"

definition publish_clean_application_result :: "interner \<Rightarrow> clean_application_key \<Rightarrow> type_id \<Rightarrow> interner" where
  "publish_clean_application_result it key result =
     (let c = gc_align_with (it_clean_application_results it) (st_semantic_graph_identity (it_store it))
      in it\<lparr>it_clean_application_results := gc_insert c key result\<rparr>)"

definition intern_derivation :: "interner \<Rightarrow> u64 \<Rightarrow> type_id \<Rightarrow> type_id \<Rightarrow>
    (derivation_edge \<times> derivation_id) list \<Rightarrow> derivation_id \<times> u64 \<times> interner" where
  "intern_derivation it counter result identity children =
     (let d = ds_align_with (it_derivations it) (st_semantic_graph_identity (it_store it))
      in case ds_push d counter \<lparr>dn_result = result, dn_identity = identity, dn_children = children\<rparr> of
        (i, counter, d) \<Rightarrow> (i, counter, it\<lparr>it_derivations := d\<rparr>))"

definition complete_derivation :: "interner \<Rightarrow> derivation_id \<Rightarrow> type_id \<Rightarrow> type_id \<Rightarrow>
    (derivation_edge \<times> derivation_id) list \<Rightarrow> bool \<times> interner" where
  "complete_derivation it i result identity children =
     (let d = ds_align_with (it_derivations it) (st_semantic_graph_identity (it_store it))
      in case ds_complete d i result identity children of (ok, d) \<Rightarrow> (ok, it\<lparr>it_derivations := d\<rparr>))"

text \<open>The node of a derived type, if it still describes that type.\<close>

definition derivation_node_of :: "interner \<Rightarrow> derived_type \<Rightarrow> derivation_node option" where
  "derivation_node_of it derived = do {
     i \<leftarrow> dt_derivation derived;
     node \<leftarrow> ds_get (it_derivations it) i;
     if dn_result node = dt_ty derived then Some node else None
   }"

definition derivation_identity :: "interner \<Rightarrow> derived_type \<Rightarrow> type_id" where
  "derivation_identity it derived =
     (case derivation_node_of it derived of None \<Rightarrow> dt_ty derived | Some node \<Rightarrow> dn_identity node)"

definition derivation_child :: "interner \<Rightarrow> derived_type \<Rightarrow> derivation_edge \<Rightarrow> type_id \<Rightarrow> derived_type" where
  "derivation_child it derived edge fallback =
     (let derivation = do { node \<leftarrow> derivation_node_of it derived; map_of (dn_children node) edge };
          ty = (case do { i \<leftarrow> derivation; ds_get (it_derivations it) i } of
                  None \<Rightarrow> fallback | Some node \<Rightarrow> dn_result node)
      in \<lparr>dt_ty = ty, dt_derivation = derivation\<rparr>)"

definition begin_occurrence_query :: "interner \<Rightarrow> interner" where
  "begin_occurrence_query it =
     it\<lparr>it_derivations := ds_begin_epoch
        (ds_align_with (it_derivations it) (st_semantic_graph_identity (it_store it)))\<rparr>"

definition end_occurrence_query :: "interner \<Rightarrow> interner" where
  "end_occurrence_query it = it\<lparr>it_derivations := ds_end_epoch (it_derivations it)\<rparr>"

definition tuple_children :: "derived_type list \<Rightarrow> (derivation_edge \<times> derivation_id) list" where
  "tuple_children elements =
     List.map_filter (\<lambda>(index, element). map_option (Pair (Edge_TupleElement index)) (dt_derivation element))
       (enumerate 0 elements)"

definition intern_derived_tuple ::
    "hasher \<Rightarrow> interner \<Rightarrow> u64 \<Rightarrow> derived_type list \<Rightarrow> (derived_type \<times> u64 \<times> interner) option" where
  "intern_derived_tuple fx it counter elements = do {
     (ty, it) \<leftarrow> intern_tuple fx it (map dt_ty elements);
     let children = tuple_children elements;
     if children = [] then Some (derived_plain ty, counter, it)
     else case intern_derivation it counter ty ty children of
       (i, counter, it) \<Rightarrow> Some (\<lparr>dt_ty = ty, dt_derivation = Some i\<rparr>, counter, it)
   }"

end
