(* ===== verification/Interner_Laws.thy ===== *)
theory Interner_Laws
  imports Interner
begin

text \<open>
  The correctness of hash-consing (\<^verbatim>\<open>types/intern\<close>): the invariant of the interner (the index is exact
  and canonical, reservations have rows of their kind, rows are in canonical form), the generic
  lemma that looking a key up and appending on a miss keeps it, its instances for every constructor,
  and the initial interner.
\<close>


section \<open>The key of a row and the match of a candidate\<close>

fun row_key :: "ty_row \<Rightarrow> structural_key" where
  "row_key (Row_Intrinsic k) = SK_Intrinsic k"
| "row_key (Row_Literal v) = SK_Literal v"
| "row_key (Row_Object ob) = object_key ob"
| "row_key (Row_Union ms) = SK_Union ms"
| "row_key (Row_Intersection ms) = SK_Intersection ms"
| "row_key (Row_Function f) = SK_Function (fn_type_params f) (fn_receiver f) (fn_params f) (fn_ret f)"
| "row_key (Row_TypeParam p) = SK_TypeParam (tp_id p)"
| "row_key (Row_Array e) = SK_Array e"
| "row_key (Row_Tuple t) = SK_Tuple t"
| "row_key (Row_Readonly t) = SK_Readonly t"
| "row_key (Row_Conditional c) = SK_Conditional (co_check c) (co_extends_ty c) (co_true_branch c)
     (co_false_branch c) (co_infer_count c) (co_distributive c) (co_poisoned c)"
| "row_key (Row_Instantiation i) = SK_Instantiation (in_base i) (in_args i)"
| "row_key (Row_Infer i) = SK_Infer i"
| "row_key (Row_Mapped m) = SK_Mapped (ma_homomorphic m) (ma_key_source m) (ma_value_template m)
     (ma_modifiers_source m) (ma_optional_modifier m) (ma_readonly_modifier m)"
| "row_key Row_MappedValue = SK_MappedValue"
| "row_key (Row_Template t) = SK_Template (te_texts t) (te_holes t)"
| "row_key (Row_Keyof t) = SK_Keyof t"
| "row_key (Row_ClassInstance c) = SK_ClassInstance (ci_class c) (ci_args c)"
| "row_key (Row_DeferredIndexedAccess d) = SK_DeferredIndexedAccess (di_object d) (di_index d)"
| "row_key (Row_Declared d) = SK_Declared (de_recipe d) (de_mapper d)"

text \<open>The comparison the constructors make with a candidate: keys, but literals by \<open>PartialEq\<close>.\<close>

definition row_matches :: "ty_row \<Rightarrow> ty_row \<Rightarrow> bool" where
  "row_matches r r' \<longleftrightarrow>
     (case r' of
        Row_Literal b \<Rightarrow> (case r of Row_Literal a \<Rightarrow> literal_eq a b | _ \<Rightarrow> False)
      | _ \<Rightarrow> row_key r = row_key r')"

definition row_is_nan :: "ty_row \<Rightarrow> bool" where
  "row_is_nan r \<longleftrightarrow> (case r of Row_Literal v \<Rightarrow> literal_is_nan v | _ \<Rightarrow> False)"

lemma property_eq_iff:
  "(p :: property_type) = q \<longleftrightarrow> pr_key p = pr_key q \<and> pr_optional p = pr_optional q \<and> pr_ty p = pr_ty q \<and>
     pr_write_ty p = pr_write_ty q \<and> pr_visibility p = pr_visibility q \<and>
     pr_declaring_class p = pr_declaring_class q \<and> pr_readonly p = pr_readonly q \<and>
     pr_is_accessor p = pr_is_accessor q"
  by (auto intro: property_type.equality)

lemma object_props_eq_iff: "object_props_eq a b \<longleftrightarrow> a = b"
proof (induction a arbitrary: b)
  case (Cons x a)
  then show ?case by (cases b) (auto simp: object_props_eq_def property_eq_iff)
qed (auto simp: object_props_eq_def)

lemma row_key_literal: "row_key r = SK_Literal v \<longleftrightarrow> r = Row_Literal v"
  by (cases r) (auto simp: object_key_def)

lemma same_key_matches: "row_key r = row_key r' \<Longrightarrow> row_matches r r' \<or> row_is_nan r'"
  by (auto simp: row_matches_def row_is_nan_def object_key_def literal_eq_refl split: ty_row.split)


section \<open>The invariant\<close>

definition indexed :: "interner \<Rightarrow> u64 \<Rightarrow> type_id list" where
  "indexed it hash = bucket (it_dedup_base it) hash @ bucket (it_dedup it) hash"

definition row_in :: "interner \<Rightarrow> type_id \<Rightarrow> ty_row option" where
  "row_in it tid = nth_opt (store_rows (it_store it)) (unat tid)"

text \<open>
  The index is exact: a bucket holds, once each, the structural rows whose key has that hash; and
  no two entries of a bucket match each other.
\<close>

definition index_inv :: "hasher \<Rightarrow> interner \<Rightarrow> bool" where
  "index_inv fx it \<longleftrightarrow>
     (\<forall>hash tid. tid \<in> set (indexed it hash) \<longleftrightarrow>
        \<not> contains_reserved_type it tid \<and>
        (\<exists>r. row_in it tid = Some r \<and> structural_hash fx (row_key r) = hash)) \<and>
     (\<forall>hash. distinct (indexed it hash)) \<and>
     (\<forall>hash a b r r'. a \<in> set (indexed it hash) \<longrightarrow> b \<in> set (indexed it hash) \<longrightarrow>
        row_in it a = Some r \<longrightarrow> row_in it b = Some r' \<longrightarrow> row_matches r r' \<longrightarrow> a = b)"

fun row_kind :: "ty_row \<Rightarrow> reserved_type_kind option" where
  "row_kind (Row_Object _) = Some Reserved_Object"
| "row_kind (Row_Conditional _) = Some Reserved_Conditional"
| "row_kind (Row_Mapped _) = Some Reserved_Mapped"
| "row_kind _ = None"

text \<open>A reservation has a row of its kind; those of the sealed prefix are frozen rows of the prefix.\<close>

definition reserved_inv :: "interner \<Rightarrow> bool" where
  "reserved_inv it \<longleftrightarrow>
     (\<forall>tid rt. fmlookup (it_reserved_types_base it) tid = Some rt \<longrightarrow>
        unat tid < store_base_len (it_store it) \<and> rt_state rt = State_Frozen \<and>
        (\<exists>r. row_in it tid = Some r \<and> row_kind r = Some (rt_kind rt))) \<and>
     (\<forall>tid rt. fmlookup (it_reserved_types it) tid = Some rt \<longrightarrow>
        store_base_len (it_store it) \<le> unat tid \<and>
        (\<exists>r. row_in it tid = Some r \<and> row_kind r = Some (rt_kind rt)))"

text \<open>The canonical form of a row: sorted properties, sorted arguments, sorted member sets.\<close>

fun canonical_row :: "ty_row \<Rightarrow> bool" where
  "canonical_row (Row_Object ob) = sorted (map pr_key (ob_properties ob))"
| "canonical_row (Row_Instantiation i) = sorted (map fst (in_args i))"
| "canonical_row (Row_Union ms) = (strict_sorted ms \<and> 2 \<le> length ms)"
| "canonical_row (Row_Intersection ms) = (strict_sorted ms \<and> 2 \<le> length ms)"
| "canonical_row _ = True"

fun well_known_of :: "well_known \<Rightarrow> intrinsic_kind \<Rightarrow> type_id" where
  "well_known_of wk Kind_Error = wk_error wk"
| "well_known_of wk Kind_Any = wk_any wk"
| "well_known_of wk Kind_Unknown = wk_unknown wk"
| "well_known_of wk Kind_Never = wk_never wk"
| "well_known_of wk Kind_Void = wk_void wk"
| "well_known_of wk Kind_Null = wk_null wk"
| "well_known_of wk Kind_Undefined = wk_undefined wk"
| "well_known_of wk Kind_Boolean = wk_boolean wk"
| "well_known_of wk Kind_Number = wk_number wk"
| "well_known_of wk Kind_String = wk_string wk"
| "well_known_of wk Kind_Uppercase = wk_uppercase wk"
| "well_known_of wk Kind_Lowercase = wk_lowercase wk"
| "well_known_of wk Kind_Capitalize = wk_capitalize wk"
| "well_known_of wk Kind_Uncapitalize = wk_uncapitalize wk"
| "well_known_of wk Kind_ThisType = wk_this_type wk"
| "well_known_of wk Kind_OmitThisParameter = wk_omit_this_parameter wk"
| "well_known_of wk Kind_Object = wk_object wk"
| "well_known_of wk Kind_BigInt = wk_bigint wk"
| "well_known_of wk Kind_Symbol = wk_symbol wk"

definition interner_inv :: "hasher \<Rightarrow> interner \<Rightarrow> bool" where
  "interner_inv fx it \<longleftrightarrow>
     store_inv (it_store it) \<and> store_len (it_store it) \<le> 2 ^ 32 \<and>
     index_inv fx it \<and> reserved_inv it \<and>
     (\<forall>tid r. row_in it tid = Some r \<longrightarrow> canonical_row r)"

lemma interner_inv_cong:
  assumes "interner_inv fx it" "store_inv (it_store it')" "store_rows (it_store it') = store_rows (it_store it)"
    "store_base_len (it_store it') = store_base_len (it_store it)" "\<And>h. indexed it' h = indexed it h"
    "it_reserved_types it' = it_reserved_types it" "it_reserved_types_base it' = it_reserved_types_base it"
  shows "interner_inv fx it'"
proof -
  have "store_len (it_store it') = store_len (it_store it)" using assms(3) by (metis length_store_rows)
  moreover have "row_in it' = row_in it" by (simp add: row_in_def assms(3) fun_eq_iff)
  moreover have "contains_reserved_type it' = contains_reserved_type it"
    by (simp add: contains_reserved_type_def assms fun_eq_iff)
  moreover have "indexed it' = indexed it" using assms(5) by (rule ext)
  ultimately have "index_inv fx it' = index_inv fx it" "reserved_inv it' = reserved_inv it"
      "interner_inv fx it' = interner_inv fx it"
    using assms(1,2) by (simp_all only: index_inv_def reserved_inv_def interner_inv_def assms(4,6,7) simp_thms)
  with assms(1) show ?thesis by blast
qed

definition well_known_inv :: "interner \<Rightarrow> bool" where
  "well_known_inv it \<longleftrightarrow> (\<forall>k. row_in it (well_known_of (it_well_known it) k) = Some (Row_Intrinsic k))"

section \<open>Hash-consing\<close>

text \<open>What a constructor supplies: a comparison that is \<open>row_matches\<close> and an append of the row.\<close>

definition compares_with :: "(store \<Rightarrow> type_id \<Rightarrow> bool option) \<Rightarrow> ty_row \<Rightarrow> bool" where
  "compares_with eq r \<longleftrightarrow> (\<forall>s tid. store_inv s \<longrightarrow>
     eq s tid = map_option (\<lambda>existing. row_matches existing r) (nth_opt (store_rows s) (unat tid)))"

definition appends_row :: "(store \<Rightarrow> (type_id \<times> store) option) \<Rightarrow> (store \<Rightarrow> ty_row) \<Rightarrow> bool" where
  "appends_row push_row r \<longleftrightarrow> (\<forall>s. store_inv s \<longrightarrow> store_len s < 2 ^ 32 \<longrightarrow>
     (\<exists>tid s'. push_row s = Some (tid, s') \<and> row_appended s tid s' (r s)))"

lemma bucket_bucket_push: "bucket (bucket_push m h tid) h' = (if h' = h then bucket m h @ [tid] else bucket m h')"
  by (simp add: bucket_def bucket_push_def)

lemma row_in_less: "row_in it tid = Some r \<Longrightarrow> unat tid < store_len (it_store it)"
  by (simp add: row_in_def nth_opt_eq_Some)

lemma appended_row:
  assumes "row_appended s tid s' r" "store_len s < 2 ^ 32"
  shows "nth_opt (store_rows s') (unat i) = (if i = tid then Some r else nth_opt (store_rows s) (unat i))"
    and "unat tid = store_len s" and "store_len s' = Suc (store_len s)"
proof -
  show tid: "unat tid = store_len s" using assms by (metis row_appended_def unat_of_len_u32)
  have rows: "store_rows s' = store_rows s @ [r]" using assms by (simp add: row_appended_def)
  show "store_len s' = Suc (store_len s)" using arg_cong [OF rows, of length] by simp
  show "nth_opt (store_rows s') (unat i) = (if i = tid then Some r else nth_opt (store_rows s) (unat i))"
    using tid word_unat_eq_iff [of i tid] by (auto simp: rows nth_append nth_opt_def)
qed

lemma lookup_total:
  assumes "interner_inv fx it" "compares_with eq r"
  shows "lookup it hash eq = Some (find (\<lambda>tid. row_matches (the (row_in it tid)) r) (indexed it hash))"
  unfolding lookup_def indexed_def [symmetric]
proof (rule find_m_total)
  fix tid assume "tid \<in> set (indexed it hash)"
  with assms obtain r' where "row_in it tid = Some r'" unfolding interner_inv_def index_inv_def by blast
  with assms show "eq (it_store it) tid = Some (row_matches (the (row_in it tid)) r)"
    by (simp add: compares_with_def interner_inv_def row_in_def)
qed


lemma row_matches_sym: "row_matches r r' \<Longrightarrow> row_matches r' r"
  by (auto simp: row_matches_def object_key_def dest: literal_eq_sym split: ty_row.splits)

lemma row_matches_trans: "row_matches a b \<Longrightarrow> row_matches b c \<Longrightarrow> row_matches a c"
  by (auto simp: row_matches_def object_key_def dest: literal_eq_trans split: ty_row.splits)

text \<open>
  What hash-consing a row does: the result is a structural row, either an existing one that matches
  and nothing changes, or one appended with the same key.
\<close>

definition hash_consed :: "hasher \<Rightarrow> interner \<Rightarrow> ty_row \<Rightarrow> type_id \<Rightarrow> interner \<Rightarrow> bool" where
  "hash_consed fx it r tid it' \<longleftrightarrow>
     interner_inv fx it' \<and>
     tid \<in> set (indexed it' (structural_hash fx (row_key r))) \<and>
     (\<exists>r'. row_in it' tid = Some r' \<and>
        (it' = it \<and> row_matches r' r \<or>
         store_rows (it_store it') = store_rows (it_store it) @ [r'] \<and>
         tid = word_of_nat (store_len (it_store it)) \<and> row_key r' = row_key r)) \<and>
     it_reserved_types it' = it_reserved_types it \<and> it_reserved_types_base it' = it_reserved_types_base it \<and>
     it_well_known it' = it_well_known it \<and> it_dedup_base it' = it_dedup_base it \<and>
     store_base_len (it_store it') = store_base_len (it_store it) \<and>
     lv_sealed (st_tag (it_store it')) = lv_sealed (st_tag (it_store it))"

lemma fresh_not_reserved:
  assumes "reserved_inv it" "store_len (it_store it) \<le> unat tid"
  shows "\<not> contains_reserved_type it tid"
  using assms row_in_less unfolding reserved_inv_def contains_reserved_type_def fmdom_lookup
  by (metis leD option.exhaust)

lemma reserved_inv_mono:
  assumes "reserved_inv it" "it_reserved_types it' = it_reserved_types it"
    "it_reserved_types_base it' = it_reserved_types_base it"
    "store_base_len (it_store it') = store_base_len (it_store it)"
    "\<And>tid r. row_in it tid = Some r \<Longrightarrow> \<exists>r'. row_in it' tid = Some r' \<and> row_kind r' = row_kind r"
  shows "reserved_inv it'"
  using assms unfolding reserved_inv_def by metis

lemma append_indexed:
  assumes inv: "interner_inv fx it" and cap: "store_len (it_store it) < 2 ^ 32"
    and app: "row_appended (it_store it) tid s' r1" and canon: "canonical_row r1"
    and hash: "hash = structural_hash fx (row_key r1)"
    and none: "\<And>i r'. i \<in> set (indexed it hash) \<Longrightarrow> row_in it i = Some r' \<Longrightarrow> \<not> row_matches r' r1"
  defines "it' \<equiv> it\<lparr>it_store := s', it_dedup := bucket_push (it_dedup it) hash tid\<rparr>"
  shows "interner_inv fx it' \<and> tid \<in> set (indexed it' hash) \<and> row_in it' tid = Some r1"
proof -
  note row = appended_row [OF app cap]
  have at: "row_in it' i = (if i = tid then Some r1 else row_in it i)" for i
    by (simp add: row_in_def it'_def row)
  have new: "row_in it tid = None" using row by (simp add: row_in_def nth_opt_eq_None)
  have res: "contains_reserved_type it' = contains_reserved_type it"
    by (simp add: it'_def contains_reserved_type_def fun_eq_iff)
  have ix: "indexed it' h = indexed it h @ (if h = hash then [tid] else [])" for h
    by (simp add: indexed_def it'_def bucket_bucket_push)
  have fresh: "\<not> contains_reserved_type it tid"
    using inv row by (intro fresh_not_reserved) (simp_all add: interner_inv_def)
  have ii: "index_inv fx it" using inv by (simp add: interner_inv_def)
  then have out: "tid \<notin> set (indexed it h)" for h using new by (auto simp: index_inv_def)
  have "index_inv fx it'"
    unfolding index_inv_def ix at res
  proof (intro conjI allI impI)
    fix h i
    show "i \<in> set (indexed it h @ (if h = hash then [tid] else [])) \<longleftrightarrow>
       \<not> contains_reserved_type it i \<and>
       (\<exists>r. (if i = tid then Some r1 else row_in it i) = Some r \<and> structural_hash fx (row_key r) = h)"
      using ii out [of h] fresh hash by (auto simp: index_inv_def)
  next
    fix h show "distinct (indexed it h @ (if h = hash then [tid] else []))"
      using ii out [of h] by (auto simp: index_inv_def)
  next
    fix h a b r r'
    assume a: "a \<in> set (indexed it h @ (if h = hash then [tid] else []))"
      "b \<in> set (indexed it h @ (if h = hash then [tid] else []))"
      "(if a = tid then Some r1 else row_in it a) = Some r" "(if b = tid then Some r1 else row_in it b) = Some r'"
      and m: "row_matches r r'"
    show "a = b"
    proof (cases "a = tid \<or> b = tid")
      case True
      then show ?thesis using a m none row_matches_sym out [of h] by (auto split: if_splits)
    next
      case False
      then show ?thesis using a m ii by (auto simp: index_inv_def split: if_splits)
    qed
  qed
  moreover have "reserved_inv it'"
  proof (rule reserved_inv_mono [of it])
    show "\<exists>r'. row_in it' i = Some r' \<and> row_kind r' = row_kind r" if "row_in it i = Some r" for i r
      using that new by (auto simp: at)
  qed (use inv app in \<open>auto simp: interner_inv_def row_appended_def it'_def\<close>)
  moreover have "\<forall>i r. row_in it' i = Some r \<longrightarrow> canonical_row r"
    using inv canon by (simp add: at interner_inv_def)
  moreover have "store_inv s'" "store_len s' \<le> 2 ^ 32" using app row cap by (simp_all add: row_appended_def)
  ultimately have "interner_inv fx it'" by (simp add: interner_inv_def it'_def)
  then show ?thesis by (simp add: at ix)
qed

lemma hash_cons_spec:
  assumes inv: "interner_inv fx it" and cap: "store_len (it_store it) < 2 ^ 32"
    and cw: "compares_with eq r" and ap: "appends_row push_row r1"
    and r1: "\<And>x. row_matches x (r1 (it_store it)) = row_matches x r" "row_key (r1 (it_store it)) = row_key r"
    and canon: "canonical_row (r1 (it_store it))"
  shows "\<exists>tid it'. hash_cons fx (row_key r) eq push_row it = Some (tid, it') \<and> hash_consed fx it r tid it'"
proof -
  let ?h = "structural_hash fx (row_key r)"
  let ?p = "\<lambda>tid. row_matches (the (row_in it tid)) r"
  have look: "lookup it ?h eq = Some (find ?p (indexed it ?h))" by (rule lookup_total [OF inv cw])
  show ?thesis
  proof (cases "find ?p (indexed it ?h)")
    case (Some tid)
    then have tid: "tid \<in> set (indexed it ?h)" "?p tid" by (auto dest: find_Some_iff_unique)
    with inv obtain r' where "row_in it tid = Some r'" unfolding interner_inv_def index_inv_def by blast
    with tid inv have "hash_consed fx it r tid it" by (simp add: hash_consed_def)
    moreover have "hash_cons fx (row_key r) eq push_row it = Some (tid, it)"
      by (simp add: hash_cons_def look Some)
    ultimately show ?thesis by blast
  next
    case None
    from ap inv cap obtain tid s' where
      p: "push_row (it_store it) = Some (tid, s')" "row_appended (it_store it) tid s' (r1 (it_store it))"
      by (auto simp: appends_row_def interner_inv_def)
    let ?it = "it\<lparr>it_store := s', it_dedup := bucket_push (it_dedup it) ?h tid\<rparr>"
    have "\<not> row_matches r' (r1 (it_store it))" if "i \<in> set (indexed it ?h)" "row_in it i = Some r'" for i r'
      using None that by (auto simp: find_None_all r1(1))
    from append_indexed [OF inv cap p(2) canon arg_cong [OF r1(2) [symmetric], of "structural_hash fx"] this]
    have "hash_consed fx it r tid ?it"
      using p(2) by (simp add: hash_consed_def r1(2) row_appended_def)
    moreover have "hash_cons fx (row_key r) eq push_row it = Some (tid, ?it)"
      by (simp add: hash_cons_def look None p)
    ultimately show ?thesis by blast
  qed
qed

text \<open>Asking again for a row that is not a NaN literal returns the same id and changes nothing.\<close>

lemma hash_cons_again:
  assumes hc: "hash_consed fx it0 r tid it" and cw: "compares_with eq r" and nan: "\<not> row_is_nan r"
  shows "hash_cons fx (row_key r) eq push_row it = Some (tid, it)"
proof -
  let ?h = "structural_hash fx (row_key r)"
  let ?p = "\<lambda>tid. row_matches (the (row_in it tid)) r"
  from hc have inv: "interner_inv fx it" and tid: "tid \<in> set (indexed it ?h)" by (auto simp: hash_consed_def)
  from hc obtain r' where r': "row_in it tid = Some r'" "row_matches r' r"
    using same_key_matches [OF _] nan by (auto simp: hash_consed_def)
  have "find ?p (indexed it ?h) = Some tid"
  proof (cases "find ?p (indexed it ?h)")
    case None
    with tid r' show ?thesis by (auto simp: find_None_all)
  next
    case (Some i)
    then have i: "i \<in> set (indexed it ?h)" "?p i" by (auto dest: find_Some_iff_unique)
    with inv obtain ri where ri: "row_in it i = Some ri" unfolding interner_inv_def index_inv_def by blast
    with i r' have "row_matches ri r'" by (auto dest: row_matches_sym row_matches_trans)
    with inv i tid r' ri have "i = tid" unfolding interner_inv_def index_inv_def by blast
    with Some show ?thesis by simp
  qed
  then show ?thesis by (simp add: hash_cons_def lookup_total [OF inv cw])
qed


section \<open>Every constructor is a hash-consing of its row\<close>

lemma record_eq_iffs:
  "(f :: function_type) = g \<longleftrightarrow> fn_type_params f = fn_type_params g \<and> fn_receiver f = fn_receiver g \<and>
     fn_params f = fn_params g \<and> fn_ret f = fn_ret g"
  "(i :: instantiation_type) = j \<longleftrightarrow> in_base i = in_base j \<and> in_args i = in_args j"
  "(d :: declared_type) = e \<longleftrightarrow> de_recipe d = de_recipe e \<and> de_mapper d = de_mapper e"
  by (auto intro: function_type.equality instantiation_type.equality declared_type.equality)

lemma row_tag_mapped_value: "row_tag r = Tag_MappedValue \<longleftrightarrow> row_key r = SK_MappedValue"
  by (cases r) (simp_all add: object_key_def)

lemma constructor_compares:
  "compares_with (\<lambda>s tid. map_option (\<lambda>k. k = Some kind) (intrinsic_kind_of s tid)) (Row_Intrinsic kind)"
  "compares_with (\<lambda>s tid. map_option (is_some_and (\<lambda>existing. literal_eq existing v)) (literal_value_of s tid))
     (Row_Literal v)"
  "compares_with (\<lambda>s ty. map_option (\<lambda>p. map_option tp_id p = Some (tp_id param)) (type_param_of s ty))
     (Row_TypeParam param)"
  "compares_with (\<lambda>s tid. map_option (\<lambda>i. i = Some index) (infer_index s tid)) (Row_Infer index)"
  "compares_with (object_eq ob) (Row_Object ob)"
  "compares_with (\<lambda>s tid. map_option (is_some_and (\<lambda>existing.
       fn_type_params existing = fn_type_params f \<and> fn_receiver existing = fn_receiver f \<and>
       fn_ret existing = fn_ret f \<and> function_params_eq (fn_params existing) (fn_params f)))
     (function_type_of s tid)) (Row_Function f)"
  "compares_with (\<lambda>s tid. map_option (\<lambda>a. a = Some element) (array_type_of s tid)) (Row_Array element)"
  "compares_with (\<lambda>s tid. map_option (is_some_and (\<lambda>existing. existing = tuple)) (tuple_type_of s tid))
     (Row_Tuple tuple)"
  "compares_with (\<lambda>s tid. map_option (\<lambda>r. r = Some operand) (readonly_operand s tid)) (Row_Readonly operand)"
  "compares_with (\<lambda>s tid. map_option (is_some_and (\<lambda>existing.
       co_check existing = co_check c \<and> co_extends_ty existing = co_extends_ty c \<and>
       co_true_branch existing = co_true_branch c \<and> co_false_branch existing = co_false_branch c \<and>
       co_infer_count existing = co_infer_count c \<and> co_distributive existing = co_distributive c \<and>
       co_poisoned existing = co_poisoned c)) (conditional_type_of s tid)) (Row_Conditional c)"
  "compares_with (\<lambda>s tid. map_option (is_some_and (\<lambda>existing. in_base existing = base \<and> in_args existing = args))
     (instantiation_type_of s tid)) (Row_Instantiation \<lparr>in_base = base, in_args = args\<rparr>)"
  "compares_with (\<lambda>s tid. map_option (is_some_and (\<lambda>existing. ci_class existing = class \<and> ci_args existing = cargs))
     (class_instance_type_of s tid)) (Row_ClassInstance \<lparr>ci_class = class, ci_args = cargs\<rparr>)"
  "compares_with (\<lambda>s tid. map_option (is_some_and (\<lambda>existing. di_object existing = dob \<and> di_index existing = dix))
     (deferred_indexed_access_type_of s tid)) (Row_DeferredIndexedAccess \<lparr>di_object = dob, di_index = dix\<rparr>)"
  "compares_with (\<lambda>s tid. map_option (is_some_and (\<lambda>existing.
       ma_homomorphic existing = ma_homomorphic m \<and> ma_key_source existing = ma_key_source m \<and>
       ma_value_template existing = ma_value_template m \<and> ma_modifiers_source existing = ma_modifiers_source m \<and>
       ma_optional_modifier existing = ma_optional_modifier m \<and>
       ma_readonly_modifier existing = ma_readonly_modifier m)) (mapped_type_of s tid)) (Row_Mapped m)"
  "compares_with (\<lambda>s tid. map_option (\<lambda>k. k = Some operand) (keyof_operand s tid)) (Row_Keyof operand)"
  "compares_with (\<lambda>s tid. map_option (is_some_and (\<lambda>existing.
       te_texts existing = te_texts t \<and> te_holes existing = te_holes t)) (template_type_of s tid)) (Row_Template t)"
  "compares_with (\<lambda>s tid. map_option (\<lambda>t. t = Tag_MappedValue) (tag s tid)) Row_MappedValue"
  "compares_with (\<lambda>s tid. map_option (\<lambda>d. d = Some declared) (declared_type_of s tid)) (Row_Declared declared)"
  "compares_with (\<lambda>s tid. map_option (is_some_and (\<lambda>existing. existing = ms)) (union_members s tid)) (Row_Union ms)"
  "compares_with (\<lambda>s tid. map_option (is_some_and (\<lambda>existing. existing = ms)) (intersection_members s tid))
     (Row_Intersection ms)"
  unfolding compares_with_def object_eq_def
  by (intro allI impI; simp add: accessor_rows option.map_comp comp_def; rule option.map_cong0;
      auto simp: row_matches_def is_some_and_def object_key_def object_props_eq_iff function_params_eq_def
          row_tag_mapped_value record_eq_iffs(3)
        split: ty_row.split; fail)+


text \<open>The constructors that take a complete description of their row.\<close>

datatype intern_request =
    Req_Intrinsic intrinsic_kind
  | Req_Literal literal_value
  | Req_TypeParam type_param_id string
  | Req_Infer u32
  | Req_Object object_type
  | Req_Function function_type
  | Req_Array type_id
  | Req_Tuple tuple_type
  | Req_Readonly type_id
  | Req_Conditional conditional_type
  | Req_Instantiation type_id "(type_param_id \<times> type_id) list"
  | Req_ClassInstance class_id "type_id list"
  | Req_DeferredIndexedAccess type_id type_id
  | Req_Mapped mapped_type
  | Req_Keyof type_id
  | Req_Template template_type
  | Req_MappedValue 

fun run_request :: "hasher \<Rightarrow> interner \<Rightarrow> intern_request \<Rightarrow> (type_id \<times> interner) option" where
  "run_request fx it (Req_Intrinsic k) = intern_intrinsic fx it k"
| "run_request fx it (Req_Literal v) = intern_literal fx it v"
| "run_request fx it (Req_TypeParam tid name) = intern_type_param fx it tid name"
| "run_request fx it (Req_Infer index) = intern_infer fx it index"
| "run_request fx it (Req_Object ob) = intern_object fx it ob"
| "run_request fx it (Req_Function f) = intern_function fx it f"
| "run_request fx it (Req_Array e) = intern_array fx it e"
| "run_request fx it (Req_Tuple t) = intern_tuple_type fx it t"
| "run_request fx it (Req_Readonly e) = intern_readonly fx it e"
| "run_request fx it (Req_Conditional c) = intern_conditional fx it c"
| "run_request fx it (Req_Instantiation base args) = intern_instantiation fx it base args"
| "run_request fx it (Req_ClassInstance class args) = intern_class_instance fx it class args"
| "run_request fx it (Req_DeferredIndexedAccess ob index) = intern_deferred_indexed_access fx it ob index"
| "run_request fx it (Req_Mapped m) = intern_mapped fx it m"
| "run_request fx it (Req_Keyof e) = intern_keyof fx it e"
| "run_request fx it (Req_Template t) = intern_template fx it t"
| "run_request fx it Req_MappedValue = intern_mapped_value fx it"

text \<open>The canonical row a request asks for.\<close>

fun request_row :: "intern_request \<Rightarrow> ty_row" where
  "request_row (Req_Intrinsic k) = Row_Intrinsic k"
| "request_row (Req_Literal v) = Row_Literal v"
| "request_row (Req_TypeParam tid name) = Row_TypeParam \<lparr>tp_id = tid, tp_name = name\<rparr>"
| "request_row (Req_Infer index) = Row_Infer index"
| "request_row (Req_Object ob) = Row_Object (sort_properties ob)"
| "request_row (Req_Function f) = Row_Function f"
| "request_row (Req_Array e) = Row_Array e"
| "request_row (Req_Tuple t) = Row_Tuple t"
| "request_row (Req_Readonly e) = Row_Readonly e"
| "request_row (Req_Conditional c) = Row_Conditional c"
| "request_row (Req_Instantiation base args) = Row_Instantiation \<lparr>in_base = base, in_args = sort_key fst args\<rparr>"
| "request_row (Req_ClassInstance class args) = Row_ClassInstance \<lparr>ci_class = class, ci_args = args\<rparr>"
| "request_row (Req_DeferredIndexedAccess ob index) = Row_DeferredIndexedAccess \<lparr>di_object = ob, di_index = index\<rparr>"
| "request_row (Req_Mapped m) = Row_Mapped m"
| "request_row (Req_Keyof e) = Row_Keyof e"
| "request_row (Req_Template t) = Row_Template t"
| "request_row Req_MappedValue = Row_MappedValue"

lemma appendsI:
  assumes "\<And>s. store_inv s \<Longrightarrow> store_len s < 2 ^ 32 \<Longrightarrow> row_appended s (fst (p s)) (snd (p s)) (r s)"
  shows "appends_row (\<lambda>s. Some (p s)) r"
  using assms by (simp add: appends_row_def) (metis prod.collapse)

lemma constructor_appends:
  "appends_row (\<lambda>s. Some (push_intrinsic s k fl)) (\<lambda>_. Row_Intrinsic k)"
  "appends_row (\<lambda>s. Some (push_literal s v fl)) (\<lambda>_. Row_Literal v)"
  "appends_row (\<lambda>s. Some (push_type_param s param fl)) (\<lambda>s. Row_TypeParam (retained_param s param))"
  "appends_row (\<lambda>s. Some (push_infer s index fl)) (\<lambda>_. Row_Infer index)"
  "appends_row (\<lambda>s. Some (push_object s ob fl)) (\<lambda>_. Row_Object ob)"
  "appends_row (\<lambda>s. Some (push_function s f fl)) (\<lambda>_. Row_Function f)"
  "appends_row (\<lambda>s. Some (push_array s e fl)) (\<lambda>_. Row_Array e)"
  "appends_row (\<lambda>s. Some (push_tuple s tu fl)) (\<lambda>_. Row_Tuple tu)"
  "appends_row (\<lambda>s. Some (push_readonly s e fl)) (\<lambda>_. Row_Readonly e)"
  "appends_row (\<lambda>s. Some (push_conditional s c fl)) (\<lambda>_. Row_Conditional c)"
  "appends_row (\<lambda>s. Some (push_instantiation s i fl)) (\<lambda>_. Row_Instantiation i)"
  "appends_row (\<lambda>s. push_class_instance s ci fl) (\<lambda>_. Row_ClassInstance ci)"
  "appends_row (\<lambda>s. push_deferred_indexed_access s di fl) (\<lambda>_. Row_DeferredIndexedAccess di)"
  "appends_row (\<lambda>s. Some (push_mapped s m fl)) (\<lambda>_. Row_Mapped m)"
  "appends_row (\<lambda>s. Some (push_keyof s e fl)) (\<lambda>_. Row_Keyof e)"
  "appends_row (\<lambda>s. Some (push_template s te fl)) (\<lambda>_. Row_Template te)"
  "appends_row (\<lambda>s. Some (push_mapped_value s fl)) (\<lambda>_. Row_MappedValue)"
  "appends_row (\<lambda>s. push_declared s de fl) (\<lambda>_. Row_Declared de)"
  "appends_row (\<lambda>s. Some (push_union s ms fl)) (\<lambda>_. Row_Union ms)"
  "appends_row (\<lambda>s. Some (push_intersection s ms fl)) (\<lambda>_. Row_Intersection ms)"
  by (rule appendsI, rule push_rows push_type_param_row; assumption
     | simp add: appends_row_def push_checked_rows)+

text \<open>A constructor whose appended row is the requested one.\<close>

lemma hash_cons_plain:
  assumes "interner_inv fx it" "store_len (it_store it) < 2 ^ 32"
    and "compares_with eq r" "appends_row push_row (\<lambda>_. r)" "canonical_row r" "key = row_key r"
  shows "\<exists>tid it'. hash_cons fx key eq push_row it = Some (tid, it') \<and> hash_consed fx it r tid it'"
  using hash_cons_spec [OF assms(1-4)] assms(5,6) by simp

lemma retained_param_id [simp]: "tp_id (retained_param s param) = tp_id param"
  by (simp add: retained_param_def split: option.split)

lemma canonical_sort [simp]: "sorted (map pr_key (ob_properties (sort_properties ob)))"
  by (simp add: sort_properties_def)

lemma request_interned:
  assumes inv: "interner_inv fx it" and cap: "store_len (it_store it) < 2 ^ 32"
  shows "\<exists>tid it'. run_request fx it req = Some (tid, it') \<and> hash_consed fx it (request_row req) tid it'"
proof (cases req)
  case (Req_TypeParam tid name)
  then show ?thesis
    using hash_cons_spec [OF inv cap
        constructor_compares(3) [where param = "\<lparr>tp_id = tid, tp_name = name\<rparr>"]
        constructor_appends(3) [where param = "\<lparr>tp_id = tid, tp_name = name\<rparr>" and fl = flags_empty]]
    by (simp add: intern_defs row_matches_def)
qed (simp_all only: run_request.simps request_row.simps intern_defs Let_def,
  (rule hash_cons_plain [OF inv cap]; (rule constructor_compares constructor_appends | simp))+)

lemma request_again:
  assumes "hash_consed fx it0 (request_row req) tid it" "\<not> row_is_nan (request_row req)"
  shows "run_request fx it req = Some (tid, it)"
proof (cases req)
  case (Req_TypeParam t name)
  with hash_cons_again [OF assms(1) _ assms(2)] constructor_compares(3) [of "\<lparr>tp_id = t, tp_name = name\<rparr>"]
  show ?thesis by (simp add: intern_defs)
qed (use hash_cons_again [OF assms(1) _ assms(2)] constructor_compares in \<open>simp_all add: intern_defs Let_def object_key_def\<close>)


lemma hash_consed_rows:
  assumes "hash_consed fx it r tid it'"
  obtains (found) r' where "it' = it" "row_in it tid = Some r'" "row_matches r' r"
    | (added) r' where "store_rows (it_store it') = store_rows (it_store it) @ [r']"
        "tid = word_of_nat (store_len (it_store it))" "row_key r' = row_key r" "row_in it' tid = Some r'"
  using assms by (auto simp: hash_consed_def)

text \<open>Rows are never changed or removed by hash-consing.\<close>

lemma hash_consed_keeps: "hash_consed fx it r tid it' \<Longrightarrow> row_in it i = Some r' \<Longrightarrow> row_in it' i = Some r'"
  by (erule hash_consed_rows) (auto simp: row_in_def nth_opt_append nth_opt_eq_Some)

lemma hash_consed_len:
  "hash_consed fx it r tid it' \<Longrightarrow> store_len (it_store it') \<le> Suc (store_len (it_store it))"
proof (erule hash_consed_rows)
  fix r' assume "store_rows (it_store it') = store_rows (it_store it) @ [r']"
  then have "length (store_rows (it_store it')) = Suc (length (store_rows (it_store it)))" by simp
  then show ?thesis by simp
qed simp

lemma hash_consed_inv: "hash_consed fx it r tid it' \<Longrightarrow> interner_inv fx it'"
  by (simp add: hash_consed_def)

lemma hash_consed_row:
  assumes "hash_consed fx it r tid it'" "\<forall>v. r \<noteq> Row_Literal v"
  shows "\<exists>r'. row_in it' tid = Some r' \<and> row_key r' = row_key r"
  using assms(1)
proof (cases rule: hash_consed_rows)
  case (found r')
  with assms(2) show ?thesis by (auto simp: row_matches_def split: ty_row.splits)
qed blast

section \<open>The initial interner\<close>

lemma empty_interner_simps:
  "it_store empty_interner = store_new" "it_dedup_base empty_interner = fmempty" "it_dedup empty_interner = fmempty"
  "it_reserved_types_base empty_interner = fmempty" "it_reserved_types empty_interner = fmempty"
  by (simp_all add: empty_interner_def Let_def)

lemma empty_interner_inv: "interner_inv fx empty_interner"
  by (simp add: interner_inv_def index_inv_def reserved_inv_def row_in_def indexed_def bucket_def
      empty_interner_simps)

lemma intern_intrinsics_rows:
  assumes "interner_inv fx it" "store_len (it_store it) + length ks \<le> 2 ^ 32" "distinct ks"
    "\<And>i k. k \<in> set ks \<Longrightarrow> row_in it i \<noteq> Some (Row_Intrinsic k)"
  shows "\<exists>it'. intern_intrinsics fx it ks =
      Some (map word_of_nat [store_len (it_store it)..<store_len (it_store it) + length ks], it') \<and>
    interner_inv fx it' \<and> store_rows (it_store it') = store_rows (it_store it) @ map Row_Intrinsic ks \<and>
    it_reserved_types it' = it_reserved_types it \<and> it_reserved_types_base it' = it_reserved_types_base it \<and>
    it_dedup_base it' = it_dedup_base it \<and> lv_sealed (st_tag (it_store it')) = lv_sealed (st_tag (it_store it))"
  using assms
proof (induction ks arbitrary: it)
  case Nil
  then show ?case by simp
next
  case (Cons k ks)
  from Cons.prems request_interned [of fx it "Req_Intrinsic k"] obtain tid it1 where
    s: "intern_intrinsic fx it k = Some (tid, it1)" "hash_consed fx it (Row_Intrinsic k) tid it1" by auto
  from s(2) have "store_rows (it_store it1) = store_rows (it_store it) @ [Row_Intrinsic k] \<and>
      tid = word_of_nat (store_len (it_store it))"
  proof (cases rule: hash_consed_rows)
    case (found r')
    then have "r' = Row_Intrinsic k"
      by (cases r') (auto simp: row_matches_def object_key_def)
    with found Cons.prems(4) [of k tid] show ?thesis by simp
  next
    case (added r')
    then have "r' = Row_Intrinsic k" by (cases r') (auto simp: object_key_def)
    with added show ?thesis by simp
  qed
  moreover from this have len: "store_len (it_store it1) = Suc (store_len (it_store it))"
    by (metis length_append_singleton length_store_rows)
  moreover have "row_in it1 i \<noteq> Some (Row_Intrinsic k')" if "k' \<in> set ks" for i k'
    using Cons.prems(3) Cons.prems(4) [of k' i] that calculation(1)
    by (auto simp: row_in_def nth_append nth_opt_eq_Some nth_opt_def less_Suc_eq split: if_splits)
  moreover note Cons.IH [of it1]
  ultimately obtain it2 where "intern_intrinsics fx it1 ks =
      Some (map word_of_nat [Suc (store_len (it_store it))..<Suc (store_len (it_store it)) + length ks], it2)"
    "interner_inv fx it2" "store_rows (it_store it2) = store_rows (it_store it1) @ map Row_Intrinsic ks"
    "it_reserved_types it2 = it_reserved_types it1" "it_reserved_types_base it2 = it_reserved_types_base it1"
    "it_dedup_base it2 = it_dedup_base it1" "lv_sealed (st_tag (it_store it2)) = lv_sealed (st_tag (it_store it1))"
    using Cons.prems hash_consed_inv [OF s(2)] by auto
  moreover have "[store_len (it_store it)..<store_len (it_store it) + length (k # ks)] =
      store_len (it_store it) # [Suc (store_len (it_store it))..<Suc (store_len (it_store it)) + length ks]"
    by (simp del: upt_Suc add: upt_conv_Cons)
  ultimately show ?case
    using s \<open>store_rows (it_store it1) = _ \<and> _\<close> by (simp add: hash_consed_def)
qed

lemma id_of_code: "id_of (map word_of_nat [0..<19]) k = intrinsic_code k"
  by (cases k) (simp_all add: id_of_def intrinsic_all_def upt_rec)

lemma well_known_of_ids: "well_known_of (well_known_of_ids ids) k = id_of ids k"
  by (cases k) (simp_all add: well_known_of_ids_def)

lemma with_intrinsics_spec:
  obtains it where "with_intrinsics fx = Some it" "interner_inv fx it"
    "store_rows (it_store it) = map Row_Intrinsic intrinsic_all"
    "\<And>k. well_known_of (it_well_known it) k = intrinsic_code k"
    "it_reserved_types it = fmempty" "it_reserved_types_base it = fmempty"
    "it_dedup_base it = fmempty" "\<not> lv_sealed (st_tag (it_store it))"
proof -
  have len: "length intrinsic_all = 19" by (simp add: intrinsic_all_def)
  have unsealed: "\<not> lv_sealed (st_tag store_new)" by (simp add: store_new_def lv_default_def)
  obtain it where it: "intern_intrinsics fx empty_interner intrinsic_all = Some (map word_of_nat [0..<19], it)"
    "interner_inv fx it" "store_rows (it_store it) = map Row_Intrinsic intrinsic_all"
    "it_reserved_types it = fmempty" "it_reserved_types_base it = fmempty"
    "it_dedup_base it = fmempty" "\<not> lv_sealed (st_tag (it_store it))"
    using intern_intrinsics_rows [OF empty_interner_inv, of intrinsic_all fx]
    by (auto simp: empty_interner_simps len intrinsic_all_complete row_in_def unsealed)
  define wk where "wk = well_known_of_ids (map word_of_nat [0..<19])"
  have wk: "with_intrinsics fx = Some (it\<lparr>it_well_known := wk\<rparr>)" "well_known_of wk k = intrinsic_code k" for k
    by (simp_all add: with_intrinsics_def it(1) wk_def well_known_of_ids id_of_code)
  have "interner_inv fx (it\<lparr>it_well_known := wk\<rparr>)"
    by (rule interner_inv_cong [OF it(2)]) (use it(2) in \<open>simp_all add: interner_inv_def indexed_def\<close>)
  then show ?thesis using that wk it by simp
qed

end
