(* ===== verification/Interner_Reserve.thy ===== *)
theory Interner_Reserve
  imports Interner_Laws Store_Columns
begin

text \<open>
  The two-phase life of recursive types (\<^verbatim>\<open>types/intern\<close>): reserving a row, publishing a batch of
  bodies, promoting an acyclic reservation into the index, and sealing and forking the interner.
\<close>


section \<open>Reservations\<close>

text \<open>The graph identity and the side maps do not take part in the rows.\<close>

lemma rows_of_columns:
  assumes "st_tag s' = st_tag s" "st_payload s' = st_payload s" "side_rows s' = side_rows s"
  shows "store_rows s' = store_rows s" "store_len s' = store_len s" "store_base_len s' = store_base_len s"
    "row_at s' = row_at s" "cell s' = cell s"
proof -
  show c: "cell s' = cell s" by (simp add: cell_def assms fun_eq_iff)
  have "row_of s' = row_of s" by (simp add: row_of_def assms fun_eq_iff)
  with c show at: "row_at s' = row_at s" by (simp add: row_at_def fun_eq_iff)
  show "store_len s' = store_len s" "store_base_len s' = store_base_len s"
    by (simp_all add: store_len_def store_base_len_def assms)
  then show "store_rows s' = store_rows s" by (simp add: store_rows_def at)
qed

lemma side_mark: "side_rows (mark_semantic_graph_mutation s) = side_rows s"
    "side_base (mark_semantic_graph_mutation s) = side_base s"
  by (simp_all add: fun_eq_iff all_tags mark_semantic_graph_mutation_def)

lemma mark_rows [simp]:
  "store_rows (mark_semantic_graph_mutation s) = store_rows s"
  "store_len (mark_semantic_graph_mutation s) = store_len s"
  "store_base_len (mark_semantic_graph_mutation s) = store_base_len s"
  "store_inv (mark_semantic_graph_mutation s) = store_inv s"
  "st_tag (mark_semantic_graph_mutation s) = st_tag s"
proof -
  have [simp]: "st_tag (mark_semantic_graph_mutation s) = st_tag s"
      "st_payload (mark_semantic_graph_mutation s) = st_payload s"
    by (simp_all add: mark_semantic_graph_mutation_def)
  note eqs = rows_of_columns [of "mark_semantic_graph_mutation s" s, simplified side_mark, simplified]
  show "store_rows (mark_semantic_graph_mutation s) = store_rows s"
    "store_len (mark_semantic_graph_mutation s) = store_len s"
    "store_base_len (mark_semantic_graph_mutation s) = store_base_len s"
    "st_tag (mark_semantic_graph_mutation s) = st_tag s"
    by (simp_all add: eqs)
  show "store_inv (mark_semantic_graph_mutation s) = store_inv s"
    unfolding store_inv_def rows_inv_def eqs side_mark columns_inv_def tables_inv_def side_maps_inv_def
    by (simp add: mark_semantic_graph_mutation_def)
qed

lemma interner_inv_mark: "interner_inv fx it \<Longrightarrow>
    interner_inv fx (it\<lparr>it_store := mark_semantic_graph_mutation (it_store it)\<rparr>)"
  by (rule interner_inv_cong [of fx it]) (simp_all add: interner_inv_def indexed_def)

lemma local_not_in_base:
  assumes "reserved_inv it" "store_base_len (it_store it) \<le> unat tid"
  shows "fmlookup (it_reserved_types_base it) tid = None"
proof (cases "fmlookup (it_reserved_types_base it) tid")
  case (Some rt)
  with assms(1) have "unat tid < store_base_len (it_store it)" unfolding reserved_inv_def by blast
  with assms(2) show ?thesis by simp
qed

text \<open>Registering a freshly appended row as reserved keeps it out of the index.\<close>

lemma append_reserved:
  assumes inv: "interner_inv fx it" and cap: "store_len (it_store it) < 2 ^ 32"
    and app: "row_appended (it_store it) tid s' r1" and canon: "canonical_row r1"
    and kind: "row_kind r1 = Some kind"
  defines "it' \<equiv> snd (register_reserved_type (it\<lparr>it_store := s'\<rparr>) tid kind)"
  shows "interner_inv fx it' \<and> row_in it' tid = Some r1 \<and> (\<forall>i. i \<noteq> tid \<longrightarrow> row_in it' i = row_in it i)"
proof -
  note row = appended_row [OF app cap]
  have at: "row_in it' i = (if i = tid then Some r1 else row_in it i)" for i
    by (simp add: row_in_def it'_def register_reserved_type_def row)
  have new: "row_in it tid = None" using row by (simp add: row_in_def nth_opt_eq_None)
  have res: "contains_reserved_type it' i \<longleftrightarrow> i = tid \<or> contains_reserved_type it i" for i
    by (auto simp: it'_def register_reserved_type_def contains_reserved_type_def)
  have ix: "indexed it' h = indexed it h" for h
    by (simp add: indexed_def it'_def register_reserved_type_def)
  have ii: "index_inv fx it" and ri: "reserved_inv it" using inv by (auto simp: interner_inv_def)
  have out: "tid \<notin> set (indexed it h)" for h using ii new unfolding index_inv_def by fastforce
  have index: "index_inv fx it'"
    unfolding index_inv_def
  proof (intro conjI allI impI)
    fix h i
    show "i \<in> set (indexed it' h) \<longleftrightarrow> \<not> contains_reserved_type it' i \<and>
        (\<exists>r. row_in it' i = Some r \<and> structural_hash fx (row_key r) = h)"
      using ii out [of h] by (cases "i = tid") (simp_all add: index_inv_def ix at res)
  next
    fix h show "distinct (indexed it' h)" using ii by (simp add: ix index_inv_def)
  next
    fix h a b r r'
    assume "a \<in> set (indexed it' h)" "b \<in> set (indexed it' h)" "row_in it' a = Some r" "row_in it' b = Some r'"
      "row_matches r r'"
    then show "a = b" using ii out [of h] unfolding index_inv_def ix at by (metis (no_types))
  qed
  have "store_base_len (it_store it) \<le> unat tid"
    unfolding row(2) by (simp add: store_base_len_def store_len_def layered_defs)
  moreover have "store_base_len s' = store_base_len (it_store it)" using app by (simp add: row_appended_def)
  moreover note local_not_in_base [OF ri \<open>store_base_len (it_store it) \<le> unat tid\<close>]
  ultimately have "reserved_inv it'"
    using ri new kind unfolding reserved_inv_def at
    by (auto simp: it'_def register_reserved_type_def split: if_splits)
  moreover have "\<forall>i r. row_in it' i = Some r \<longrightarrow> canonical_row r"
    using inv canon by (simp add: at interner_inv_def)
  moreover have "store_inv s'" "store_len s' \<le> 2 ^ 32" using app row cap by (simp_all add: row_appended_def)
  ultimately have "interner_inv fx it'" using index by (simp add: interner_inv_def it'_def register_reserved_type_def)
  then show ?thesis by (simp add: at)
qed


lemma reserve_spec:
  assumes inv: "interner_inv fx it" and cap: "store_len (it_store it) < 2 ^ 32"
  shows "reserve_object it = (tid, it') \<Longrightarrow> interner_inv fx it' \<and> row_in it' tid = Some (Row_Object object_default) \<and>
      (\<forall>i. i \<noteq> tid \<longrightarrow> row_in it' i = row_in it i) \<and> contains_reserved_type it' tid"
    and "reserve_conditional it = (tid, it') \<Longrightarrow> interner_inv fx it' \<and>
      row_in it' tid = Some (Row_Conditional (error_conditional (it_well_known it) False)) \<and>
      (\<forall>i. i \<noteq> tid \<longrightarrow> row_in it' i = row_in it i) \<and> contains_reserved_type it' tid"
    and "reserve_mapped it = (tid, it') \<Longrightarrow> interner_inv fx it' \<and>
      row_in it' tid = Some (Row_Mapped (error_mapped (it_well_known it))) \<and>
      (\<forall>i. i \<noteq> tid \<longrightarrow> row_in it' i = row_in it i) \<and> contains_reserved_type it' tid"
proof -
  have s: "store_inv (it_store it)" using inv by (simp add: interner_inv_def)
  have reg: "snd (register_reserved_type j tid k) = j' \<Longrightarrow> contains_reserved_type j' tid" for j j' k
    by (auto simp: register_reserved_type_def contains_reserved_type_def)
  note ap = append_reserved [OF inv cap]
  show "reserve_object it = (tid, it') \<Longrightarrow> interner_inv fx it' \<and> row_in it' tid = Some (Row_Object object_default) \<and>
      (\<forall>i. i \<noteq> tid \<longrightarrow> row_in it' i = row_in it i) \<and> contains_reserved_type it' tid"
    using ap [OF push_rows(7) [OF s cap, of object_default flags_empty], of Reserved_Object]
    by (auto simp: reserve_object_def object_default_def register_reserved_type_def contains_reserved_type_def
        split: prod.splits)
  show "reserve_conditional it = (tid, it') \<Longrightarrow> interner_inv fx it' \<and>
      row_in it' tid = Some (Row_Conditional (error_conditional (it_well_known it) False)) \<and>
      (\<forall>i. i \<noteq> tid \<longrightarrow> row_in it' i = row_in it i) \<and> contains_reserved_type it' tid"
    using ap [OF push_rows(13) [OF s cap, of "error_conditional (it_well_known it) False" flags_empty], of Reserved_Conditional]
    by (auto simp: reserve_conditional_def register_reserved_type_def contains_reserved_type_def split: prod.splits)
  show "reserve_mapped it = (tid, it') \<Longrightarrow> interner_inv fx it' \<and>
      row_in it' tid = Some (Row_Mapped (error_mapped (it_well_known it))) \<and>
      (\<forall>i. i \<noteq> tid \<longrightarrow> row_in it' i = row_in it i) \<and> contains_reserved_type it' tid"
    using ap [OF push_rows(15) [OF s cap, of "error_mapped (it_well_known it)" flags_empty], of Reserved_Mapped]
    by (auto simp: reserve_mapped_def register_reserved_type_def contains_reserved_type_def split: prod.splits)
qed

text \<open>The row a fill writes.\<close>

fun fill_row :: "reserved_type_fill \<Rightarrow> ty_row" where
  "fill_row (Fill_Object _ ob) = Row_Object ob"
| "fill_row (Fill_Conditional _ c) = Row_Conditional c"
| "fill_row (Fill_Mapped _ m) = Row_Mapped m"

lemma fill_row_kind: "row_kind (fill_row fill) = Some (fill_kind fill)"
  by (cases fill) simp_all

lemma canonical_fill_simps [simp]:
  "fill_target (canonical_fill fill) = fill_target fill" "fill_kind (canonical_fill fill) = fill_kind fill"
  "canonical_row (fill_row (canonical_fill fill))"
  by (cases fill; simp)+

lemma write_fill_replaced:
  assumes inv: "store_inv s" and local: "store_base_len s \<le> unat (fill_target fill)"
    and row: "nth_opt (store_rows s) (unat (fill_target fill)) = Some r0" "row_kind r0 = Some (fill_kind fill)"
  shows "\<exists>s'. write_fill s fill = Some s' \<and> row_replaced s (fill_target fill) s' (fill_row fill)"
proof (cases fill)
  case (Fill_Object tid ob)
  with row(2) obtain v0 where "r0 = Row_Object v0" by (cases r0) simp_all
  with set_rows(1) [OF inv] local row(1) Fill_Object show ?thesis by (simp add: write_fill_def)
next
  case (Fill_Conditional tid c)
  with row(2) obtain v0 where "r0 = Row_Conditional v0" by (cases r0) simp_all
  with set_rows(2) [OF inv] local row(1) Fill_Conditional show ?thesis by (simp add: write_fill_def)
next
  case (Fill_Mapped tid m)
  with row(2) obtain v0 where "r0 = Row_Mapped v0" by (cases r0) simp_all
  with set_rows(3) [OF inv] local row(1) Fill_Mapped show ?thesis by (simp add: write_fill_def)
qed

lemma write_fill_step:
  assumes inv: "interner_inv fx it" and res: "fmlookup (it_reserved_types it) (fill_target fill) = Some rt"
    and kind: "rt_kind rt = fill_kind fill" and canon: "canonical_row (fill_row fill)"
  shows "\<exists>s. write_fill (it_store it) fill = Some s \<and>
    (let it' = it\<lparr>it_store := s, it_reserved_types :=
        fmupd (fill_target fill) (rt\<lparr>rt_state := State_Frozen\<rparr>) (it_reserved_types it)\<rparr>
     in interner_inv fx it' \<and>
        (\<forall>i. row_in it' i = (if i = fill_target fill then Some (fill_row fill) else row_in it i)))"
proof -
  let ?t = "fill_target fill"
  have ri: "reserved_inv it" and ii: "index_inv fx it" and si: "store_inv (it_store it)"
    using inv by (auto simp: interner_inv_def)
  from ri res obtain r0 where base: "store_base_len (it_store it) \<le> unat ?t"
      and r0: "row_in it ?t = Some r0" "row_kind r0 = Some (fill_kind fill)"
    unfolding reserved_inv_def kind [symmetric] by blast
  from write_fill_replaced [OF si base] r0 obtain s where
    s: "write_fill (it_store it) fill = Some s" "row_replaced (it_store it) ?t s (fill_row fill)"
    by (auto simp: row_in_def)
  define it' where "it' = it\<lparr>it_store := s, it_reserved_types :=
      fmupd ?t (rt\<lparr>rt_state := State_Frozen\<rparr>) (it_reserved_types it)\<rparr>"
  have lt: "unat ?t < store_len (it_store it)" using r0(1) by (rule row_in_less)
  have at: "row_in it' i = (if i = ?t then Some (fill_row fill) else row_in it i)" for i
    using s(2) lt by (auto simp: row_in_def it'_def row_replaced_def nth_opt_update word_unat_eq_iff)
  have cr: "contains_reserved_type it' = contains_reserved_type it"
    using res by (auto simp: contains_reserved_type_def it'_def fun_eq_iff fmdom_lookup)
  have crt: "contains_reserved_type it ?t" using res by (simp add: contains_reserved_type_def fmdom_lookup)
  have ix: "indexed it' h = indexed it h" for h by (simp add: indexed_def it'_def)
  have out: "?t \<notin> set (indexed it h)" for h using ii crt unfolding index_inv_def by blast
  have "index_inv fx it'"
    unfolding index_inv_def
  proof (intro conjI allI impI)
    fix h i
    show "i \<in> set (indexed it' h) \<longleftrightarrow> \<not> contains_reserved_type it' i \<and>
        (\<exists>r. row_in it' i = Some r \<and> structural_hash fx (row_key r) = h)"
      using ii crt by (cases "i = ?t") (simp_all add: index_inv_def ix at cr)
  next
    fix h show "distinct (indexed it' h)" using ii by (simp add: ix index_inv_def)
  next
    fix h a b r r'
    assume "a \<in> set (indexed it' h)" "b \<in> set (indexed it' h)" "row_in it' a = Some r" "row_in it' b = Some r'"
      "row_matches r r'"
    then show "a = b" using ii out [of h] unfolding index_inv_def ix at by (metis (no_types))
  qed
  moreover have "store_base_len s = store_base_len (it_store it)" using s(2) by (simp add: row_replaced_def)
  with ri res r0 kind local_not_in_base [OF ri base] have "reserved_inv it'"
    unfolding reserved_inv_def at by (auto simp: it'_def fill_row_kind)
  moreover have "\<forall>i r. row_in it' i = Some r \<longrightarrow> canonical_row r"
    using inv canon by (simp add: at interner_inv_def)
  moreover have "store_inv s" "store_len s \<le> 2 ^ 32" using s(2) inv by (simp_all add: row_replaced_def interner_inv_def)
  ultimately have "interner_inv fx it'" by (simp add: interner_inv_def it'_def)
  with s(1) at show ?thesis by (simp add: it'_def)
qed


text \<open>A fill is ready when its target is a pending reservation of its kind in the local suffix.\<close>

definition fill_ready :: "interner \<Rightarrow> reserved_type_fill \<Rightarrow> bool" where
  "fill_ready it fill \<longleftrightarrow> fmlookup (it_reserved_types it) (fill_target fill) =
     Some \<lparr>rt_kind = fill_kind fill, rt_state = State_Pending\<rparr>"

lemma reserved_row_kind:
  assumes "reserved_inv it" "reserved_type_of it tid = Some rt"
  shows "\<exists>r. row_in it tid = Some r \<and> row_kind r = Some (rt_kind rt)"
  using assms unfolding reserved_inv_def reserved_type_of_def by (auto split: option.splits)

lemma valid_backing:
  assumes "interner_inv fx it" "row_in it tid = Some r" "row_kind r = Some kind"
  shows "is_valid_backing_row (it_store it) kind tid = Some True"
  using assms unfolding interner_inv_def
  by (cases r) (auto simp: is_valid_backing_row_def accessor_rows row_in_def)

lemma reserved_type_eqI: "rt_kind r = k \<Longrightarrow> rt_state r = s \<Longrightarrow> r = \<lparr>rt_kind = k, rt_state = s\<rparr>"
  by simp

text \<open>Validation never panics, and accepts exactly the ready fills.\<close>

lemma validate_fill_total:
  assumes inv: "interner_inv fx it"
  shows "\<exists>err. validate_fill it fill = Some err \<and> (err = None \<longleftrightarrow> fill_ready it fill)"
proof (cases "reserved_type_of it (fill_target fill)")
  case None
  then have "fmlookup (it_reserved_types it) (fill_target fill) = None"
    by (simp add: reserved_type_of_def split: option.splits)
  with None show ?thesis by (simp add: validate_fill_def fill_ready_def)
next
  case (Some rt)
  have ri: "reserved_inv it" using inv by (simp add: interner_inv_def)
  from reserved_row_kind [OF ri Some] valid_backing [OF inv]
  have v: "is_valid_backing_row (it_store it) (rt_kind rt) (fill_target fill) = Some True" by blast
  have ready: "fill_ready it fill \<longleftrightarrow> rt_kind rt = fill_kind fill \<and> rt_state rt \<noteq> State_Frozen"
  proof (cases "fmlookup (it_reserved_types_base it) (fill_target fill)")
    case None
    with Some have "fmlookup (it_reserved_types it) (fill_target fill) = Some rt"
      by (simp add: reserved_type_of_def)
    moreover have "rt_state rt \<noteq> State_Frozen \<longleftrightarrow> rt_state rt = State_Pending" by (cases "rt_state rt") simp_all
    ultimately show ?thesis by (auto simp: fill_ready_def)
  next
    case (Some rt')
    with ri have "rt_state rt' = State_Frozen" "unat (fill_target fill) < store_base_len (it_store it)"
      unfolding reserved_inv_def by blast+
    moreover have "fmlookup (it_reserved_types it) (fill_target fill) \<noteq> Some x" for x
      using ri calculation(2) unfolding reserved_inv_def by (metis not_le)
    ultimately show ?thesis using Some \<open>reserved_type_of it (fill_target fill) = Some rt\<close>
      by (simp add: fill_ready_def reserved_type_of_def)
  qed
  show ?thesis using Some v ready by (auto simp: validate_fill_def Let_def)
qed

lemma validate_fills_total:
  assumes inv: "interner_inv fx it"
  shows "\<exists>err. validate_fills it fills = Some err \<and> (err = None \<longleftrightarrow> list_all (fill_ready it) fills)"
proof (induction fills)
  case (Cons fill fills)
  from validate_fill_total [OF inv, of fill] obtain e where
    "validate_fill it fill = Some e" "e = None \<longleftrightarrow> fill_ready it fill" by blast
  with Cons show ?case by (cases e) auto
qed simp

definition fill_at :: "reserved_type_fill list \<Rightarrow> type_id \<Rightarrow> reserved_type_fill option" where
  "fill_at fills tid = find (\<lambda>f. fill_target f = tid) fills"

lemma write_fills_spec:
  assumes "interner_inv fx it" "distinct (map fill_target fills)"
    "list_all (\<lambda>f. canonical_row (fill_row f) \<and>
       (\<exists>rt. fmlookup (it_reserved_types it) (fill_target f) = Some rt \<and> rt_kind rt = fill_kind f)) fills"
  shows "\<exists>it'. write_fills it fills = Some it' \<and> interner_inv fx it' \<and>
    (\<forall>i. row_in it' i = (case fill_at fills i of Some f \<Rightarrow> Some (fill_row f) | None \<Rightarrow> row_in it i)) \<and>
    (\<forall>i. fmlookup (it_reserved_types it') i =
       (case fill_at fills i of
          Some f \<Rightarrow> map_option (\<lambda>rt. rt\<lparr>rt_state := State_Frozen\<rparr>) (fmlookup (it_reserved_types it) i)
        | None \<Rightarrow> fmlookup (it_reserved_types it) i)) \<and>
    it_dedup it' = it_dedup it \<and> it_dedup_base it' = it_dedup_base it"
  using assms
proof (induction fills arbitrary: it)
  case Nil
  then show ?case by (simp add: fill_at_def)
next
  case (Cons f fills)
  let ?t = "fill_target f"
  from Cons.prems(3) obtain rt where rt: "fmlookup (it_reserved_types it) ?t = Some rt" "rt_kind rt = fill_kind f"
    and canon: "canonical_row (fill_row f)" by auto
  from write_fill_step [OF Cons.prems(1) rt canon] obtain s where
    s: "write_fill (it_store it) f = Some s" and
    step: "interner_inv fx (it\<lparr>it_store := s, it_reserved_types :=
        fmupd ?t (rt\<lparr>rt_state := State_Frozen\<rparr>) (it_reserved_types it)\<rparr>)"
      "\<And>i. row_in (it\<lparr>it_store := s, it_reserved_types :=
        fmupd ?t (rt\<lparr>rt_state := State_Frozen\<rparr>) (it_reserved_types it)\<rparr>) i =
        (if i = ?t then Some (fill_row f) else row_in it i)"
    by (auto simp: Let_def)
  let ?it = "it\<lparr>it_store := s, it_reserved_types :=
      fmupd ?t (rt\<lparr>rt_state := State_Frozen\<rparr>) (it_reserved_types it)\<rparr>"
  have fresh: "?t \<notin> fill_target ` set fills" using Cons.prems(2) by auto
  have "list_all (\<lambda>g. canonical_row (fill_row g) \<and>
      (\<exists>rt. fmlookup (it_reserved_types ?it) (fill_target g) = Some rt \<and> rt_kind rt = fill_kind g)) fills"
    using Cons.prems(3) fresh by (fastforce simp: list_all_iff)
  from Cons.IH [OF step(1) _ this] Cons.prems(2) obtain it' where
    it': "write_fills ?it fills = Some it'" "interner_inv fx it'"
      "\<And>i. row_in it' i = (case fill_at fills i of Some f \<Rightarrow> Some (fill_row f) | None \<Rightarrow> row_in ?it i)"
      "\<And>i. fmlookup (it_reserved_types it') i =
       (case fill_at fills i of
          Some f \<Rightarrow> map_option (\<lambda>rt. rt\<lparr>rt_state := State_Frozen\<rparr>) (fmlookup (it_reserved_types ?it) i)
        | None \<Rightarrow> fmlookup (it_reserved_types ?it) i)"
      "it_dedup it' = it_dedup it" "it_dedup_base it' = it_dedup_base it"
    by auto
  have none: "fill_at fills ?t = None"
    using fresh by (simp add: fill_at_def find_None_all) (metis imageI)
  have "write_fills it (f # fills) = Some it'" using s rt it'(1) by simp
  moreover have "row_in it' i = (case fill_at (f # fills) i of Some f \<Rightarrow> Some (fill_row f) | None \<Rightarrow> row_in it i)" for i
    using it'(3) [of i] step(2) [of i] none by (cases "i = ?t") (auto simp: fill_at_def split: option.splits)
  moreover have "fmlookup (it_reserved_types it') i =
       (case fill_at (f # fills) i of
          Some f \<Rightarrow> map_option (\<lambda>rt. rt\<lparr>rt_state := State_Frozen\<rparr>) (fmlookup (it_reserved_types it) i)
        | None \<Rightarrow> fmlookup (it_reserved_types it) i)" for i
    using it'(4) [of i] none rt by (cases "i = ?t") (auto simp: fill_at_def split: option.splits)
  ultimately show ?case using it' by auto
qed

lemma fill_at_canonical: "fill_at (map canonical_fill fills) i = map_option canonical_fill (fill_at fills i)"
  by (induction fills) (simp_all add: fill_at_def)

lemma fill_batch_spec:
  assumes inv: "interner_inv fx it"
  shows "\<exists>err it'. fill_reserved_type_batch it fills = Some (err, it') \<and>
    (err = None \<longleftrightarrow> distinct (map fill_target fills) \<and> list_all (fill_ready it) fills) \<and>
    (if err = None
     then interner_inv fx it' \<and>
       (\<forall>i. row_in it' i =
          (case fill_at fills i of Some f \<Rightarrow> Some (fill_row (canonical_fill f)) | None \<Rightarrow> row_in it i)) \<and>
       (\<forall>f \<in> set fills. fmlookup (it_reserved_types it') (fill_target f) =
          Some \<lparr>rt_kind = fill_kind f, rt_state = State_Frozen\<rparr>)
     else it' = it)"
proof (cases "distinct (map fill_target fills)")
  case False
  then have "first_repeat {||} (map fill_target fills) \<noteq> None" by (simp add: first_repeat_None)
  then show ?thesis using False by (auto simp: fill_reserved_type_batch_def)
next
  case True
  then have nodup: "first_repeat {||} (map fill_target fills) = None" by (simp add: first_repeat_None)
  from validate_fills_total [OF inv, of fills] obtain err where
    v: "validate_fills it fills = Some err" "err = None \<longleftrightarrow> list_all (fill_ready it) fills" by blast
  show ?thesis
  proof (cases err)
    case (Some e)
    with v nodup show ?thesis by (auto simp: fill_reserved_type_batch_def)
  next
    case None
    let ?fs = "map canonical_fill fills"
    let ?it = "if ?fs = [] then it else it\<lparr>it_store := mark_semantic_graph_mutation (it_store it)\<rparr>"
    have same: "row_in ?it = row_in it" "it_reserved_types ?it = it_reserved_types it" "interner_inv fx ?it"
      using inv interner_inv_mark [OF inv] by (simp_all add: row_in_def fun_eq_iff)
    have "list_all (\<lambda>f. canonical_row (fill_row f) \<and>
       (\<exists>rt. fmlookup (it_reserved_types ?it) (fill_target f) = Some rt \<and> rt_kind rt = fill_kind f)) ?fs"
      using v None unfolding same by (auto simp: list_all_iff fill_ready_def)
    moreover have "distinct (map fill_target ?fs)" using True by (simp add: comp_def)
    ultimately obtain it' where it': "write_fills ?it ?fs = Some it'" "interner_inv fx it'"
      "\<And>i. row_in it' i = (case fill_at ?fs i of Some f \<Rightarrow> Some (fill_row f) | None \<Rightarrow> row_in it i)"
      "\<And>i. fmlookup (it_reserved_types it') i =
         (case fill_at ?fs i of
            Some f \<Rightarrow> map_option (\<lambda>rt. rt\<lparr>rt_state := State_Frozen\<rparr>) (fmlookup (it_reserved_types it) i)
          | None \<Rightarrow> fmlookup (it_reserved_types it) i)"
      using write_fills_spec [OF same(3), of ?fs] unfolding same by blast
    have "fill_reserved_type_batch it fills = Some (None, it')"
      using nodup v None it'(1) by (simp add: fill_reserved_type_batch_def Let_def)
    moreover have "row_in it' i =
        (case fill_at fills i of Some f \<Rightarrow> Some (fill_row (canonical_fill f)) | None \<Rightarrow> row_in it i)" for i
      using it'(3) [of i] by (auto simp: fill_at_canonical split: option.splits)
    moreover have "fmlookup (it_reserved_types it') (fill_target f) =
        Some \<lparr>rt_kind = fill_kind f, rt_state = State_Frozen\<rparr>" if "f \<in> set fills" for f
    proof -
      have "fill_at fills (fill_target f) \<noteq> None" using that by (auto simp: fill_at_def find_None_all)
      then obtain g where "fill_at fills (fill_target f) = Some g" by blast
      with it'(4) [of "fill_target f"] v None that show ?thesis
        by (auto simp: fill_at_canonical fill_ready_def list_all_iff)
    qed
    ultimately show ?thesis using True v None it'(2) by auto
  qed
qed


section \<open>Promotion\<close>

text \<open>Moving a reserved row that matches no entry of its bucket into the index.\<close>

lemma index_reserved:
  assumes inv: "interner_inv fx it" and r: "row_in it tid = Some r" and hash: "hash = structural_hash fx (row_key r)"
    and res: "fmlookup (it_reserved_types it) tid = Some rt" "fmlookup (it_reserved_types_base it) tid = None"
    and none: "\<And>i r'. i \<in> set (indexed it hash) \<Longrightarrow> row_in it i = Some r' \<Longrightarrow> \<not> row_matches r' r"
  defines "it' \<equiv> it\<lparr>it_reserved_types := fmdrop tid (it_reserved_types it),
    it_dedup := bucket_push (it_dedup it) hash tid\<rparr>"
  shows "interner_inv fx it' \<and> tid \<in> set (indexed it' hash)"
proof -
  have none': "\<not> row_matches r r'" if "i \<in> set (indexed it hash)" "row_in it i = Some r'" for i r'
    using none [OF that] row_matches_sym by blast
  have at: "row_in it' = row_in it" by (simp add: row_in_def it'_def fun_eq_iff)
  have cr: "contains_reserved_type it' i \<longleftrightarrow> i \<noteq> tid \<and> contains_reserved_type it i" for i
    using res by (auto simp: it'_def contains_reserved_type_def fmdom_lookup)
  have ix: "indexed it' h = indexed it h @ (if h = hash then [tid] else [])" for h
    by (simp add: indexed_def it'_def bucket_bucket_push)
  have ii: "index_inv fx it" and ri: "reserved_inv it" using inv by (auto simp: interner_inv_def)
  have out: "tid \<notin> set (indexed it h)" for h
    using ii res by (auto simp: index_inv_def contains_reserved_type_def fmdom_lookup)
  have "index_inv fx it'"
    unfolding index_inv_def at cr ix
  proof (intro conjI allI impI)
    fix h i
    show "i \<in> set (indexed it h @ (if h = hash then [tid] else [])) \<longleftrightarrow>
        \<not> (i \<noteq> tid \<and> contains_reserved_type it i) \<and>
        (\<exists>r. row_in it i = Some r \<and> structural_hash fx (row_key r) = h)"
      using ii out [of h] r hash by (cases "i = tid") (auto simp: index_inv_def)
  next
    fix h show "distinct (indexed it h @ (if h = hash then [tid] else []))"
      using ii out [of h] by (auto simp: index_inv_def)
  next
    fix h a b r1 r2
    assume a: "a \<in> set (indexed it h @ (if h = hash then [tid] else []))"
      "b \<in> set (indexed it h @ (if h = hash then [tid] else []))"
      "row_in it a = Some r1" "row_in it b = Some r2" "row_matches r1 r2"
    show "a = b"
    proof (cases "a = tid \<or> b = tid")
      case True
      then show ?thesis using a none none' r out [of h] by (auto split: if_splits)
    next
      case False
      with a have "a \<in> set (indexed it h)" "b \<in> set (indexed it h)" by (auto split: if_splits)
      with a(3-5) ii show ?thesis unfolding index_inv_def by blast
    qed
  qed
  moreover have "reserved_inv it'"
    using ri unfolding reserved_inv_def at by (auto simp: it'_def split: if_splits)
  ultimately have "interner_inv fx it'" using inv unfolding interner_inv_def at by (simp add: it'_def)
  then show ?thesis by (simp add: ix)
qed

lemma promote_accepted:
  assumes inv: "interner_inv fx it"
    and res: "fmlookup (it_reserved_types_base it) tid = None"
      "fmlookup (it_reserved_types it) tid = Some \<lparr>rt_kind = Reserved_Object, rt_state = State_Frozen\<rparr>"
  shows "\<exists>res it' r. promote_caller_certified_acyclic_reserved_object fx it tid = Some (Inr res, it') \<and>
    interner_inv fx it' \<and> row_in it' = row_in it \<and> \<not> contains_reserved_type it' res \<and>
    row_in it tid = Some r \<and> map_option row_key (row_in it res) = Some (row_key r)"
proof -
  from inv res obtain r where r: "row_in it tid = Some r" "row_kind r = Some Reserved_Object"
    unfolding interner_inv_def reserved_inv_def by force
  then obtain ob where ob: "r = Row_Object ob" by (cases r) simp_all
  let ?h = "structural_hash fx (object_key ob)"
  let ?p = "\<lambda>i. row_matches (the (row_in it i)) (Row_Object ob)"
  have backing: "object_type_of (it_store it) tid = Some (Some ob)"
    using inv r ob by (simp add: accessor_rows interner_inv_def row_in_def)
  have look: "lookup it ?h (object_eq ob) = Some (find ?p (indexed it ?h))"
    by (rule lookup_total [OF inv constructor_compares(5)])
  have start: "promote_caller_certified_acyclic_reserved_object fx it tid =
      (case find ?p (indexed it ?h) of
         Some existing \<Rightarrow> Some (Inr existing, it)
       | None \<Rightarrow> Some (Inr tid, it\<lparr>it_reserved_types := fmdrop tid (it_reserved_types it),
           it_dedup := bucket_push (it_dedup it) ?h tid\<rparr>))"
    using res backing look
    by (simp add: promote_caller_certified_acyclic_reserved_object_def reserved_type_of_def fmdom_lookup Let_def
        split: option.split)
  show ?thesis
  proof (cases "find ?p (indexed it ?h)")
    case (Some i)
    then have i: "i \<in> set (indexed it ?h)" "?p i" by (auto dest: find_Some_iff_unique)
    with inv obtain ri where "row_in it i = Some ri" "\<not> contains_reserved_type it i"
      unfolding interner_inv_def index_inv_def by blast
    with Some start i inv r ob show ?thesis by (simp add: row_matches_def)
  next
    case None
    let ?it = "it\<lparr>it_reserved_types := fmdrop tid (it_reserved_types it), it_dedup := bucket_push (it_dedup it) ?h tid\<rparr>"
    have "\<not> row_matches r' r" if "i \<in> set (indexed it ?h)" "row_in it i = Some r'" for i r'
      using None that ob by (auto simp: find_None_all)
    from index_reserved [OF inv r(1) _ res(2,1) this] ob
    have "interner_inv fx ?it" "tid \<in> set (indexed ?it ?h)" by simp_all
    moreover from this have "\<not> contains_reserved_type ?it tid"
      unfolding interner_inv_def index_inv_def by blast
    moreover have "row_in ?it = row_in it" by (simp add: row_in_def fun_eq_iff)
    ultimately show ?thesis using None start r ob by simp
  qed
qed

lemma promote_refused:
  assumes "promote_caller_certified_acyclic_reserved_object fx it tid = Some (Inl e, it')"
  shows "it' = it"
  using assms
  by (auto simp: promote_caller_certified_acyclic_reserved_object_def Let_def bind_eq_Some_conv
      split: if_splits option.splits)

section \<open>Sealing and forking\<close>

lemma interner_freeze_spec:
  assumes inv: "interner_inv fx it" and open_: "\<not> lv_sealed (st_tag (it_store it))"
    and base: "it_dedup_base it = fmempty" "it_reserved_types_base it = fmempty" "it_declared_recipe_base it = fmempty"
    and pending: "\<And>tid rt. fmlookup (it_reserved_types it) tid = Some rt \<Longrightarrow> rt_state rt = State_Frozen"
  shows "\<exists>b. interner_freeze_as_base it = (None, b) \<and> interner_inv fx b \<and>
    store_rows (it_store b) = store_rows (it_store it) \<and> (\<forall>h. indexed b h = indexed it h) \<and>
    it_well_known b = it_well_known it \<and> (\<forall>tid. reserved_type_of b tid = reserved_type_of it tid) \<and>
    (\<exists>d. interner_fork_delta b = Inr d)"
proof -
  have si: "store_inv (it_store it)" using inv by (simp add: interner_inv_def)
  from store_freeze_rows [OF si open_] obtain s where s: "store_freeze_as_base (it_store it) = Inr s"
    "store_inv s" "store_rows s = store_rows (it_store it)" "store_base_len s = store_len (it_store it)" by blast
  let ?a = "interner_align it"
  let ?b = "?a\<lparr>it_store := s,
       it_free_param_summaries := fp_freeze_as_base (it_free_param_summaries ?a),
       it_application_key_modes := gc_freeze_as_base (it_application_key_modes ?a),
       it_deferred_keyof_results := gc_freeze_as_base (it_deferred_keyof_results ?a),
       it_clean_application_results := gc_freeze_as_base (it_clean_application_results ?a),
       it_derivations := ds_discard (it_derivations ?a),
       it_dedup_base := it_dedup ?a, it_dedup := fmempty,
       it_declared_recipe_base := it_declared_recipe_local ?a, it_declared_recipe_local := fmempty,
       it_reserved_types_base := it_reserved_types ?a, it_reserved_types := fmempty\<rparr>"
  have al: "it_store ?a = it_store it" "it_dedup ?a = it_dedup it" "it_reserved_types ?a = it_reserved_types it"
    "it_well_known ?a = it_well_known it"
    by (simp_all add: interner_align_def Let_def)
  have "fmpred (\<lambda>_ rt. rt_state rt \<noteq> State_Pending) (it_reserved_types it)"
    using pending by (auto simp: fmpred_iff)
  then have run: "interner_freeze_as_base it = (None, ?b)"
    using base s(1) by (simp add: interner_freeze_as_base_def Let_def al)
  have ix: "indexed ?b h = indexed it h" for h by (simp add: indexed_def al base bucket_def)
  have at: "row_in ?b = row_in it" by (simp add: row_in_def s(3) fun_eq_iff)
  have cr: "contains_reserved_type ?b = contains_reserved_type it"
    by (simp add: contains_reserved_type_def al base fun_eq_iff)
  have "store_len s = store_len (it_store it)" using s(3) by (metis length_store_rows)
  moreover have "index_inv fx ?b" using inv unfolding interner_inv_def index_inv_def ix at cr by blast
  moreover have "reserved_inv ?b"
    using inv pending row_in_less unfolding interner_inv_def reserved_inv_def at by (fastforce simp: al s(4))
  moreover have "\<forall>tid r. row_in ?b tid = Some r \<longrightarrow> canonical_row r" using inv unfolding at interner_inv_def by blast
  ultimately have "interner_inv fx ?b" using inv s(2) by (simp add: interner_inv_def)
  moreover have "reserved_type_of ?b tid = reserved_type_of it tid" for tid
    by (simp add: reserved_type_of_def al base split: option.split)
  moreover have "\<exists>d. interner_fork_delta ?b = Inr d"
    using store_freeze_fork [OF si s(1)] by (auto simp: interner_fork_delta_def Let_def)
  ultimately show ?thesis using run ix s(3) al by (intro exI [of _ ?b]) simp
qed

lemma interner_fork_spec:
  assumes inv: "interner_inv fx it" and fork: "interner_fork_delta it = Inr d"
  shows "interner_inv fx d \<and> store_rows (it_store d) = store_rows (it_store it) \<and>
    (\<forall>h. indexed d h = indexed it h) \<and> it_well_known d = it_well_known it \<and>
    (\<forall>tid. reserved_type_of d tid = reserved_type_of it tid)"
proof -
  from fork obtain s where s: "store_fork_delta (it_store it) = Inr s" "it_store d = s"
    and d: "it_dedup_base d = it_dedup_base it" "it_dedup d = fmempty" "it_well_known d = it_well_known it"
      "it_reserved_types_base d = it_reserved_types_base it" "it_reserved_types d = fmempty"
    and e: "it_dedup it = fmempty" "it_reserved_types it = fmempty"
    by (auto simp: interner_fork_delta_def and_then_eq_Inr Let_def split: if_splits)
  have si: "store_inv (it_store it)" using inv by (simp add: interner_inv_def)
  note f = store_fork_rows [OF si s(1)]
  have ix: "indexed d h = indexed it h" for h by (simp add: indexed_def d e)
  have at: "row_in d = row_in it" using f by (simp add: row_in_def s(2) fun_eq_iff)
  have cr: "contains_reserved_type d = contains_reserved_type it"
    by (simp add: contains_reserved_type_def d e fun_eq_iff)
  have "store_len s = store_len (it_store it)" using f by (metis length_store_rows)
  moreover have "index_inv fx d" using inv unfolding interner_inv_def index_inv_def ix at cr by blast
  moreover have "reserved_inv d"
    using inv f row_in_less unfolding interner_inv_def reserved_inv_def at by (fastforce simp: d s(2))
  moreover have "\<forall>tid r. row_in d tid = Some r \<longrightarrow> canonical_row r" using inv unfolding at interner_inv_def by blast
  ultimately have "interner_inv fx d" using inv f by (simp add: interner_inv_def s(2))
  moreover have "reserved_type_of d tid = reserved_type_of it tid" for tid
    by (simp add: reserved_type_of_def d e split: option.split)
  ultimately show ?thesis using ix f d by (simp add: s(2))
qed

end
