(* ===== verification/Set_Types.thy ===== *)
theory Set_Types
  imports Interner_Reserve
begin

text \<open>
  Crate \<^verbatim>\<open>typokat-types\<close>, module \<^verbatim>\<open>types/intern/operators.rs\<close>: the canonical union and intersection
  constructors and the disjointness test that reduces an intersection to \<open>never\<close>. The flattening
  loop and the recursion of the test are partial functions; the theorems show that they return on
  every reachable interner.
\<close>

section \<open>Disjoint domains\<close>

datatype disjoint_domain =
    Domain_Null | Domain_VoidLike | Domain_Boolean | Domain_Number | Domain_String
  | Domain_BigInt | Domain_Symbol | Domain_NonPrimitive

fun intrinsic_domain :: "intrinsic_kind \<Rightarrow> disjoint_domain option" where
  "intrinsic_domain Kind_Null = Some Domain_Null"
| "intrinsic_domain Kind_Void = Some Domain_VoidLike"
| "intrinsic_domain Kind_Undefined = Some Domain_VoidLike"
| "intrinsic_domain Kind_Boolean = Some Domain_Boolean"
| "intrinsic_domain Kind_Number = Some Domain_Number"
| "intrinsic_domain Kind_String = Some Domain_String"
| "intrinsic_domain Kind_BigInt = Some Domain_BigInt"
| "intrinsic_domain Kind_Symbol = Some Domain_Symbol"
| "intrinsic_domain Kind_Object = Some Domain_NonPrimitive"
| "intrinsic_domain _ = None"

fun literal_domain :: "literal_value \<Rightarrow> disjoint_domain" where
  "literal_domain (Lit_Boolean _) = Domain_Boolean"
| "literal_domain (Lit_Number _) = Domain_Number"
| "literal_domain (Lit_String _) = Domain_String"
| "literal_domain (Lit_WellKnownSymbol _) = Domain_Symbol"

definition disjoint_domain_of :: "store \<Rightarrow> type_id \<Rightarrow> disjoint_domain option option" where
  "disjoint_domain_of s ty = do {
     kind \<leftarrow> intrinsic_kind_of s ty;
     case (case kind of Some k \<Rightarrow> intrinsic_domain k | None \<Rightarrow> None) of
       Some d \<Rightarrow> Some (Some d)
     | None \<Rightarrow> do { literal \<leftarrow> literal_value_of s ty; Some (map_option literal_domain literal) }
   }"

text \<open>The comparison of two types neither of which is a union.\<close>

definition domains_disjoint :: "store \<Rightarrow> type_id \<Rightarrow> type_id \<Rightarrow> bool option" where
  "domains_disjoint s left right = do {
     left_domain \<leftarrow> disjoint_domain_of s left;
     right_domain \<leftarrow> disjoint_domain_of s right;
     case (left_domain, right_domain) of
       (Some ld, Some rd) \<Rightarrow>
         if ld \<noteq> rd then Some True
         else do {
           l \<leftarrow> literal_value_of s left;
           r \<leftarrow> literal_value_of s right;
           Some (case (l, r) of (Some a, Some b) \<Rightarrow> \<not> literal_eq a b | _ \<Rightarrow> False)
         }
     | _ \<Rightarrow> Some False
   }"

lemma all_m_bind:
  "all_m p (x # xs) = p x \<bind> (\<lambda>b. if b then all_m p xs else Some False)"
  by (cases "p x") (auto split: bool.splits)

lemma all_m_mono [partial_function_mono]:
  "(\<And>x. mono_option (\<lambda>f. p f x)) \<Longrightarrow> mono_option (\<lambda>f. all_m (p f) xs)"
proof (induction xs)
  case (Cons x xs)
  have "mono_option (\<lambda>f. p f x \<bind> (\<lambda>b. if b then all_m (p f) xs else Some False))"
    using Cons by (intro partial_function_mono) auto
  then show ?case by (simp only: all_m_bind)
qed (simp add: option.const_mono)

partial_function (option) definitely_disjoint :: "store \<Rightarrow> type_id \<Rightarrow> type_id \<Rightarrow> bool option" where
  "definitely_disjoint s left right = do {
     lefts \<leftarrow> union_members s left;
     case lefts of
       Some members \<Rightarrow>
         if members = [] then Some False
         else all_m (\<lambda>member. definitely_disjoint s member right) members
     | None \<Rightarrow> do {
         rights \<leftarrow> union_members s right;
         case rights of
           Some members \<Rightarrow>
             if members = [] then Some False
             else all_m (\<lambda>member. definitely_disjoint s left member) members
         | None \<Rightarrow> domains_disjoint s left right
       }
   }"

text \<open>A member with neither a domain nor union members is skipped by both loops.\<close>

definition comparable_member :: "store \<Rightarrow> type_id \<Rightarrow> bool option" where
  "comparable_member s ty = do {
     d \<leftarrow> disjoint_domain_of s ty;
     if d \<noteq> None then Some True
     else do { u \<leftarrow> union_members s ty; Some (u \<noteq> None) }
   }"

fun disjoint_from_any :: "store \<Rightarrow> type_id \<Rightarrow> type_id list \<Rightarrow> bool option" where
  "disjoint_from_any s left [] = Some False"
| "disjoint_from_any s left (right # rest) = do {
     c \<leftarrow> comparable_member s right;
     if \<not> c then disjoint_from_any s left rest
     else do {
       d \<leftarrow> definitely_disjoint s left right;
       if d then Some True else disjoint_from_any s left rest
     }
   }"

fun has_definitely_disjoint_members :: "store \<Rightarrow> type_id list \<Rightarrow> bool option" where
  "has_definitely_disjoint_members s [] = Some False"
| "has_definitely_disjoint_members s (left # rest) = do {
     c \<leftarrow> comparable_member s left;
     if \<not> c then has_definitely_disjoint_members s rest
     else do {
       d \<leftarrow> disjoint_from_any s left rest;
       if d then Some True else has_definitely_disjoint_members s rest
     }
   }"

section \<open>Union and intersection\<close>

text \<open>
  The flattening loop: the member list is a stack, a nested set pushes its members, and anything
  else is collected.
\<close>

partial_function (option) flatten ::
    "(type_id \<Rightarrow> type_id list option option) \<Rightarrow> type_id list \<Rightarrow> type_id list \<Rightarrow> type_id list option" where
  "flatten nested_of members flat =
     (if members = [] then Some flat
      else do {
        nested \<leftarrow> nested_of (last members);
        case nested of
          Some ms \<Rightarrow> flatten nested_of (butlast members @ ms) flat
        | None \<Rightarrow> flatten nested_of (butlast members) (flat @ [last members])
      })"

definition intern_union_members :: "hasher \<Rightarrow> interner \<Rightarrow> type_id list \<Rightarrow> (type_id \<times> interner) option" where
  "intern_union_members fx it flat =
     hash_cons fx (SK_Union flat)
       (\<lambda>s tid. map_option (is_some_and (\<lambda>existing. existing = flat)) (union_members s tid))
       (\<lambda>s. Some (push_union s flat flags_empty)) it"

definition union_type :: "hasher \<Rightarrow> interner \<Rightarrow> type_id list \<Rightarrow> (type_id \<times> interner) option" where
  "union_type fx it members = do {
     let wk = it_well_known it;
     flat \<leftarrow> flatten (union_members (it_store it)) members [];
     if list_ex (\<lambda>m. m = wk_any wk \<or> m = wk_error wk) flat then Some (wk_any wk, it)
     else if wk_unknown wk \<in> set flat then Some (wk_unknown wk, it)
     else
       let flat = filter (\<lambda>m. m \<noteq> wk_never wk) flat;
           flat = remdups_adj (sort flat)
       in case flat of
            [] \<Rightarrow> Some (wk_never wk, it)
          | [m] \<Rightarrow> Some (m, it)
          | _ \<Rightarrow> intern_union_members fx it flat
   }"

definition intern_intersection_members :: "hasher \<Rightarrow> interner \<Rightarrow> type_id list \<Rightarrow> (type_id \<times> interner) option" where
  "intern_intersection_members fx it flat =
     hash_cons fx (SK_Intersection flat)
       (\<lambda>s tid. map_option (is_some_and (\<lambda>existing. existing = flat)) (intersection_members s tid))
       (\<lambda>s. Some (push_intersection s flat flags_empty)) it"

definition intersection_type :: "hasher \<Rightarrow> interner \<Rightarrow> type_id list \<Rightarrow> (type_id \<times> interner) option" where
  "intersection_type fx it members = do {
     let wk = it_well_known it;
     flat \<leftarrow> flatten (intersection_members (it_store it)) members [];
     if wk_error wk \<in> set flat then Some (wk_any wk, it)
     else if wk_never wk \<in> set flat then Some (wk_never wk, it)
     else if wk_any wk \<in> set flat then Some (wk_any wk, it)
     else do {
       let flat = filter (\<lambda>m. m \<noteq> wk_unknown wk) flat;
       let flat = remdups_adj (sort flat);
       d \<leftarrow> has_definitely_disjoint_members (it_store it) flat;
       if d then Some (wk_never wk, it)
       else case flat of
            [] \<Rightarrow> Some (wk_unknown wk, it)
          | [m] \<Rightarrow> Some (m, it)
          | _ \<Rightarrow> intern_intersection_members fx it flat
     }
   }"

section \<open>Flattening returns\<close>

text \<open>The members a type contributes to a set of the kind \<open>nested_of\<close> describes.\<close>

definition expand :: "(type_id \<Rightarrow> type_id list option option) \<Rightarrow> type_id \<Rightarrow> type_id set" where
  "expand nested_of m = (case nested_of m of Some (Some ms) \<Rightarrow> set ms | _ \<Rightarrow> {m})"

text \<open>No nested set has a nested set as a member, and no lookup panics.\<close>

definition flat_sets :: "(type_id \<Rightarrow> type_id list option option) \<Rightarrow> bool" where
  "flat_sets nested_of \<longleftrightarrow> (\<forall>m ms. nested_of m = Some (Some ms) \<longrightarrow> (\<forall>n \<in> set ms. nested_of n = Some None))"

definition flatten_weight :: "(type_id \<Rightarrow> type_id list option option) \<Rightarrow> type_id list \<Rightarrow> nat" where
  "flatten_weight nested_of members =
     sum_list (map (\<lambda>m. case nested_of m of Some (Some ms) \<Rightarrow> Suc (length ms) | _ \<Rightarrow> 1) members)"

lemma flatten_total:
  assumes flat: "flat_sets nested_of"
  shows "(\<forall>m \<in> set members. nested_of m \<noteq> None) \<Longrightarrow>
    \<exists>out. flatten nested_of members acc = Some out \<and>
      set out = set acc \<union> (\<Union>m \<in> set members. expand nested_of m)"
proof (induction "flatten_weight nested_of members" arbitrary: members acc rule: less_induct)
  case less
  show ?case
  proof (cases members rule: rev_cases)
    case Nil
    then show ?thesis by (simp add: flatten.simps)
  next
    case (snoc rest m)
    with less.prems obtain nested where n: "nested_of m = Some nested" by auto
    show ?thesis
    proof (cases nested)
      case None
      have "flatten_weight nested_of rest < flatten_weight nested_of members"
        using snoc n None by (simp add: flatten_weight_def)
      from less.hyps [OF this, of "acc @ [m]"] less.prems snoc n None show ?thesis
        by (subst flatten.simps) (auto simp: expand_def)
    next
      case (Some ms)
      have ms: "nested_of x = Some None" if "x \<in> set ms" for x
        using flat n Some that unfolding flat_sets_def by blast
      then have "map (\<lambda>m. case nested_of m of Some (Some ms) \<Rightarrow> Suc (length ms) | _ \<Rightarrow> 1) ms = map (\<lambda>_. 1) ms"
        by auto
      then have "flatten_weight nested_of ms = length ms" by (simp only: flatten_weight_def) (simp add: sum_list_triv)
      then have "flatten_weight nested_of (rest @ ms) < flatten_weight nested_of members"
        using snoc n Some by (simp add: flatten_weight_def)
      moreover have "\<forall>x \<in> set (rest @ ms). nested_of x \<noteq> None" using less.prems snoc ms by auto
      moreover have "(\<Union>x \<in> set ms. expand nested_of x) = set ms" using ms by (auto simp: expand_def)
      ultimately show ?thesis using less.hyps [of "rest @ ms" acc] snoc n Some
        by (subst flatten.simps) (auto simp: expand_def)
    qed
  qed
qed


section \<open>The invariant of member sets\<close>

definition union_row :: "ty_row \<Rightarrow> type_id list option" where
  "union_row r = (case r of Row_Union ms \<Rightarrow> Some ms | _ \<Rightarrow> None)"

definition intersection_row :: "ty_row \<Rightarrow> type_id list option" where
  "intersection_row r = (case r of Row_Intersection ms \<Rightarrow> Some ms | _ \<Rightarrow> None)"

text \<open>The members of a set row exist and are not themselves sets of that kind.\<close>

definition members_flat :: "interner \<Rightarrow> (ty_row \<Rightarrow> type_id list option) \<Rightarrow> bool" where
  "members_flat it set_row \<longleftrightarrow> (\<forall>tid r ms m. row_in it tid = Some r \<longrightarrow> set_row r = Some ms \<longrightarrow> m \<in> set ms \<longrightarrow>
     (\<exists>r'. row_in it m = Some r' \<and> set_row r' = None))"

definition sets_inv :: "interner \<Rightarrow> bool" where
  "sets_inv it \<longleftrightarrow> members_flat it union_row \<and> members_flat it intersection_row"

lemma set_accessors:
  assumes "interner_inv fx it"
  shows "union_members (it_store it) m = map_option union_row (row_in it m)"
    and "intersection_members (it_store it) m = map_option intersection_row (row_in it m)"
  using assms by (simp_all add: interner_inv_def accessor_rows row_in_def union_row_def [abs_def]
      intersection_row_def [abs_def])

lemma members_flat_sets:
  assumes "members_flat it set_row" "\<And>m. nested_of m = map_option set_row (row_in it m)"
  shows "flat_sets nested_of"
  using assms unfolding flat_sets_def members_flat_def by fastforce

lemma expand_flat:
  assumes "members_flat it set_row" "\<And>m. nested_of m = map_option set_row (row_in it m)"
    and "x \<in> expand nested_of m" "row_in it m \<noteq> None"
  shows "\<exists>r. row_in it x = Some r \<and> set_row r = None"
proof (cases "nested_of m")
  case None
  with assms show ?thesis by simp
next
  case (Some nested)
  with assms(2,4) obtain r where r: "row_in it m = Some r" "set_row r = nested" by auto
  show ?thesis
  proof (cases nested)
    case None
    with Some r assms(3) show ?thesis by (simp add: expand_def)
  next
    case (Some ms)
    with \<open>nested_of m = Some nested\<close> assms(3) have "x \<in> set ms" by (simp add: expand_def)
    with assms(1) r Some show ?thesis unfolding members_flat_def by blast
  qed
qed

text \<open>Growth keeps the member sets flat: old rows stay, and the new row is no set or a flat one.\<close>

lemma members_flat_grow:
  assumes "members_flat it set_row"
    and keep: "\<And>i r. row_in it i = Some r \<Longrightarrow> \<exists>r'. row_in it' i = Some r' \<and> set_row r' = set_row r"
    and new: "\<And>i r ms m. row_in it' i = Some r \<Longrightarrow> row_in it i = None \<Longrightarrow> set_row r = Some ms \<Longrightarrow> m \<in> set ms \<Longrightarrow>
      \<exists>r'. row_in it m = Some r' \<and> set_row r' = None"
  shows "members_flat it' set_row"
  unfolding members_flat_def
proof (intro allI impI)
  fix tid r ms m assume a: "row_in it' tid = Some r" "set_row r = Some ms" "m \<in> set ms"
  have "\<exists>r'. row_in it m = Some r' \<and> set_row r' = None"
  proof (cases "row_in it tid")
    case None
    with a new show ?thesis by blast
  next
    case (Some r0)
    with keep [OF Some] a have "set_row r0 = Some ms" by auto
    with Some a(3) assms(1) show ?thesis unfolding members_flat_def by blast
  qed
  with keep show "\<exists>r'. row_in it' m = Some r' \<and> set_row r' = None" by fastforce
qed

lemma key_tag_row_key: "key_tag (row_key r) = row_tag r"
  by (cases r) (simp_all add: object_key_def)

lemma same_key_sets: "row_key r = row_key r' \<Longrightarrow> union_row r = union_row r' \<and> intersection_row r = intersection_row r'"
  using key_tag_row_key [of r] key_tag_row_key [of r']
  by (cases r; cases r'; simp add: union_row_def intersection_row_def)

lemma sets_inv_hash_consed:
  assumes "sets_inv it" and hc: "hash_consed fx it r tid it'"
    and u: "\<And>ms m. union_row r = Some ms \<Longrightarrow> m \<in> set ms \<Longrightarrow> \<exists>r'. row_in it m = Some r' \<and> union_row r' = None"
    and i: "\<And>ms m. intersection_row r = Some ms \<Longrightarrow> m \<in> set ms \<Longrightarrow>
      \<exists>r'. row_in it m = Some r' \<and> intersection_row r' = None"
  shows "sets_inv it'"
  using hc
proof (cases rule: hash_consed_rows)
  case (added r')
  have new: "x = r'" if "row_in it' j = Some x" "row_in it j = None" for j x
    using that added(1) by (auto simp: row_in_def nth_append less_Suc_eq nth_opt_def split: if_splits)
  note key = same_key_sets [OF added(3)]
  have "members_flat it' union_row"
  proof (rule members_flat_grow [of it])
    fix j x ms m assume "row_in it' j = Some x" "row_in it j = None" "union_row x = Some ms" "m \<in> set ms"
    with new key u show "\<exists>r'. row_in it m = Some r' \<and> union_row r' = None" by metis
  qed (use assms(1) hash_consed_keeps [OF hc] in \<open>auto simp: sets_inv_def\<close>)
  moreover have "members_flat it' intersection_row"
  proof (rule members_flat_grow [of it])
    fix j x ms m assume "row_in it' j = Some x" "row_in it j = None" "intersection_row x = Some ms" "m \<in> set ms"
    with new key i show "\<exists>r'. row_in it m = Some r' \<and> intersection_row r' = None" by metis
  qed (use assms(1) hash_consed_keeps [OF hc] in \<open>auto simp: sets_inv_def\<close>)
  ultimately show ?thesis by (simp add: sets_inv_def)
qed (use assms(1) in simp)


section \<open>Union\<close>

text \<open>The specification of \<open>union\<close>: a function of the set of flattened members.\<close>

definition union_of_set :: "hasher \<Rightarrow> interner \<Rightarrow> type_id set \<Rightarrow> (type_id \<times> interner) option" where
  "union_of_set fx it ms =
     (let wk = it_well_known it in
      if wk_any wk \<in> ms \<or> wk_error wk \<in> ms then Some (wk_any wk, it)
      else if wk_unknown wk \<in> ms then Some (wk_unknown wk, it)
      else
        let flat = sorted_list_of_set (ms - {wk_never wk})
        in case flat of
             [] \<Rightarrow> Some (wk_never wk, it)
           | [m] \<Rightarrow> Some (m, it)
           | _ \<Rightarrow> intern_union_members fx it flat)"

lemma sort_dedup_set: "remdups_adj (sort xs) = sorted_list_of_set (set xs)"
  using strict_sorted_sort_dedup [of xs]
  by (intro strict_sorted_unique) (simp_all add: strict_sorted_def)

lemma union_by_set:
  assumes "flatten (union_members (it_store it)) members [] = Some flat"
  shows "union_type fx it members = union_of_set fx it (set flat)"
proof -
  let ?f = "filter (\<lambda>m. m \<noteq> wk_never (it_well_known it)) flat"
  have "remdups_adj (sort ?f) = sorted_list_of_set (set flat - {wk_never (it_well_known it)})"
    unfolding sort_dedup_set by (rule arg_cong [of _ _ sorted_list_of_set]) auto
  moreover have "list_ex (\<lambda>m. m = wk_any (it_well_known it) \<or> m = wk_error (it_well_known it)) flat \<longleftrightarrow>
      wk_any (it_well_known it) \<in> set flat \<or> wk_error (it_well_known it) \<in> set flat"
    by (auto simp: list_ex_iff)
  ultimately show ?thesis using assms
    by (simp add: union_type_def union_of_set_def Let_def cong: list.case_cong)
qed

abbreviation union_expand :: "interner \<Rightarrow> type_id \<Rightarrow> type_id set" where
  "union_expand it \<equiv> expand (union_members (it_store it))"

lemma union_refines_set:
  assumes inv: "interner_inv fx it" "sets_inv it" and valid: "\<forall>m \<in> set members. row_in it m \<noteq> None"
  shows "union_type fx it members = union_of_set fx it (\<Union>m \<in> set members. union_expand it m)"
proof -
  have "flat_sets (union_members (it_store it))"
    using inv(2) members_flat_sets [OF _ set_accessors(1) [OF inv(1)]] by (simp add: sets_inv_def)
  moreover have "\<forall>m \<in> set members. union_members (it_store it) m \<noteq> None"
    using valid by (simp add: set_accessors(1) [OF inv(1)])
  ultimately show ?thesis using flatten_total [of _ members "[]"] union_by_set by fastforce
qed

text \<open>The members a type stands for in a union.\<close>

definition union_set :: "interner \<Rightarrow> type_id \<Rightarrow> type_id set" where
  "union_set it tid = (if tid = wk_never (it_well_known it) then {} else union_expand it tid)"

lemma well_known_not_set:
  assumes "interner_inv fx it" "well_known_inv it"
  shows "union_expand it (well_known_of (it_well_known it) k) = {well_known_of (it_well_known it) k}"
  using assms by (simp add: expand_def set_accessors(1) [OF assms(1)] well_known_inv_def union_row_def)

lemma intern_union_members_spec:
  assumes "interner_inv fx it" "store_len (it_store it) < 2 ^ 32" "strict_sorted ms" "2 \<le> length ms"
  shows "\<exists>tid it'. intern_union_members fx it ms = Some (tid, it') \<and> hash_consed fx it (Row_Union ms) tid it'"
  unfolding intern_union_members_def
  by (rule hash_cons_plain [OF assms(1,2) constructor_compares(19) constructor_appends(19)]) (use assms in simp_all)

lemma small_list_cases:
  obtains (empty) "xs = []" | (single) x where "xs = [x]" | (many) x y ys where "xs = x # y # ys"
  by (cases xs; cases "tl xs") auto

text \<open>What a returned set type must satisfy: nothing old changes and the result exists.\<close>

definition set_result :: "hasher \<Rightarrow> interner \<Rightarrow> type_id \<Rightarrow> interner \<Rightarrow> bool" where
  "set_result fx it tid it' \<longleftrightarrow>
     interner_inv fx it' \<and> sets_inv it' \<and> it_well_known it' = it_well_known it \<and> row_in it' tid \<noteq> None \<and>
     it_reserved_types it' = it_reserved_types it \<and> it_reserved_types_base it' = it_reserved_types_base it \<and>
     (\<forall>i r. row_in it i = Some r \<longrightarrow> row_in it' i = Some r)"

lemma set_result_same: "interner_inv fx it \<Longrightarrow> sets_inv it \<Longrightarrow> row_in it tid \<noteq> None \<Longrightarrow> set_result fx it tid it"
  by (simp add: set_result_def)

lemma well_known_row: "well_known_inv it \<Longrightarrow> row_in it (well_known_of (it_well_known it) k) \<noteq> None"
  by (simp add: well_known_inv_def)

lemma union_row_consed:
  assumes inv: "interner_inv fx it" "sets_inv it" "well_known_inv it"
    and cap: "store_len (it_store it) < 2 ^ 32" and ms: "strict_sorted ms" "2 \<le> length ms"
    and mem: "\<And>x. x \<in> set ms \<Longrightarrow> \<exists>r. row_in it x = Some r \<and> union_row r = None"
  shows "\<exists>tid it'. intern_union_members fx it ms = Some (tid, it') \<and> set_result fx it tid it' \<and>
    union_set it' tid = set ms"
proof -
  from intern_union_members_spec [OF inv(1) cap ms] obtain tid it' where
    hc: "intern_union_members fx it ms = Some (tid, it')" "hash_consed fx it (Row_Union ms) tid it'" by blast
  from hash_consed_row [OF hc(2)] obtain r' where "row_in it' tid = Some r'" "row_key r' = SK_Union ms" by auto
  then have row: "row_in it' tid = Some (Row_Union ms)" by (cases r') (auto simp: object_key_def)
  note keep = hash_consed_keeps [OF hc(2)] and inv' = hash_consed_inv [OF hc(2)]
  have wk: "it_well_known it' = it_well_known it" and res: "it_reserved_types it' = it_reserved_types it"
      "it_reserved_types_base it' = it_reserved_types_base it" using hc(2) by (simp_all add: hash_consed_def)
  have "sets_inv it'"
    by (rule sets_inv_hash_consed [OF inv(2) hc(2)]) (use mem in \<open>auto simp: union_row_def intersection_row_def\<close>)
  moreover have "row_in it' (wk_never (it_well_known it)) = Some (Row_Intrinsic Kind_Never)"
    using keep inv(3) unfolding well_known_inv_def by (metis well_known_of.simps(4))
  with row have "tid \<noteq> wk_never (it_well_known it)" by auto
  then have "union_set it' tid = set ms"
    using row by (simp add: union_set_def wk expand_def set_accessors(1) [OF inv'] union_row_def)
  ultimately show ?thesis using hc(1) inv' wk res row keep by (auto simp: set_result_def)
qed

lemma union_total:
  assumes inv: "interner_inv fx it" "sets_inv it" "well_known_inv it"
    and cap: "store_len (it_store it) < 2 ^ 32" and valid: "\<forall>m \<in> set members. row_in it m \<noteq> None"
  defines "ms \<equiv> \<Union>m \<in> set members. union_expand it m" and "wk \<equiv> it_well_known it"
  shows "\<exists>tid it'. union_type fx it members = Some (tid, it') \<and> set_result fx it tid it' \<and>
    (if wk_any wk \<in> ms \<or> wk_error wk \<in> ms then tid = wk_any wk
     else if wk_unknown wk \<in> ms then tid = wk_unknown wk
     else union_set it' tid = ms - {wk_never wk})"
proof -
  define flat where "flat = sorted_list_of_set (ms - {wk_never wk})"
  note acc = set_accessors(1) [OF inv(1)]
  have fl: "members_flat it union_row" using inv(2) by (simp add: sets_inv_def)
  have mem: "\<exists>r. row_in it x = Some r \<and> union_row r = None" if "x \<in> ms" for x
    using that valid expand_flat [OF fl acc] unfolding ms_def by blast
  have "finite ms" unfolding ms_def by (auto simp: expand_def split: option.splits)
  then have sf: "set flat = ms - {wk_never wk}" "strict_sorted flat" by (simp_all add: flat_def strict_sorted_def)
  have u: "union_type fx it members = union_of_set fx it ms" unfolding ms_def by (rule union_refines_set [OF inv(1,2) valid])
  note same = set_result_same [OF inv(1,2)] and wkr = well_known_row [OF inv(3)]
  have wks: "row_in it (wk_any wk) \<noteq> None" "row_in it (wk_unknown wk) \<noteq> None" "row_in it (wk_never wk) \<noteq> None"
    using wkr [of Kind_Any] wkr [of Kind_Unknown] wkr [of Kind_Never] by (simp_all add: wk_def)
  show ?thesis
  proof (cases "wk_any wk \<in> ms \<or> wk_error wk \<in> ms \<or> wk_unknown wk \<in> ms")
    case True
    then show ?thesis using u same wks unfolding union_of_set_def Let_def wk_def [symmetric] by auto
  next
    case False
    then have u': "union_type fx it members = (case flat of [] \<Rightarrow> Some (wk_never wk, it) | [m] \<Rightarrow> Some (m, it)
        | _ \<Rightarrow> intern_union_members fx it flat)"
      using u unfolding union_of_set_def Let_def wk_def [symmetric] flat_def [symmetric] by simp
    show ?thesis
    proof (cases flat rule: small_list_cases)
      case empty
      then have "ms - {wk_never wk} = {}" using sf(1) by simp
      with empty u' same wks False show ?thesis by (simp add: union_set_def wk_def)
    next
      case (single m)
      with sf(1) have m: "ms - {wk_never wk} = {m}" by simp
      with mem obtain r where "row_in it m = Some r" "union_row r = None" "m \<noteq> wk_never wk" by blast
      then have "union_set it m = {m}" "row_in it m \<noteq> None" by (simp_all add: union_set_def expand_def acc wk_def)
      with single m u' same False show ?thesis by simp
    next
      case (many x y ys)
      then have "2 \<le> length flat" by simp
      moreover have "\<exists>r. row_in it z = Some r \<and> union_row r = None" if "z \<in> set flat" for z
        using that sf(1) mem by blast
      ultimately obtain tid it' where "intern_union_members fx it flat = Some (tid, it')"
          "set_result fx it tid it'" "union_set it' tid = set flat"
        using union_row_consed [OF inv cap sf(2)] by blast
      with u' many sf(1) False show ?thesis by simp
    qed
  qed
qed


section \<open>Disjointness\<close>

definition row_domain :: "ty_row \<Rightarrow> disjoint_domain option" where
  "row_domain r = (case r of Row_Intrinsic k \<Rightarrow> intrinsic_domain k | Row_Literal v \<Rightarrow> Some (literal_domain v) | _ \<Rightarrow> None)"

definition row_literal :: "ty_row \<Rightarrow> literal_value option" where
  "row_literal r = (case r of Row_Literal v \<Rightarrow> Some v | _ \<Rightarrow> None)"

text \<open>The comparison of two rows that are not unions.\<close>

definition rows_disjoint :: "ty_row \<Rightarrow> ty_row \<Rightarrow> bool" where
  "rows_disjoint l r \<longleftrightarrow>
     (case (row_domain l, row_domain r) of
        (Some a, Some b) \<Rightarrow> a \<noteq> b \<or>
          (case (row_literal l, row_literal r) of (Some x, Some y) \<Rightarrow> \<not> literal_eq x y | _ \<Rightarrow> False)
      | _ \<Rightarrow> False)"

lemma disjoint_domain_row:
  assumes "interner_inv fx it"
  shows "disjoint_domain_of (it_store it) tid = map_option row_domain (row_in it tid)"
  using assms
  by (cases "row_in it tid")
     (simp_all add: disjoint_domain_of_def interner_inv_def accessor_rows row_in_def [symmetric] row_domain_def
       split: ty_row.split option.split)

lemma domains_disjoint_row:
  assumes "interner_inv fx it" "row_in it a = Some l" "row_in it b = Some r"
  shows "domains_disjoint (it_store it) a b = Some (rows_disjoint l r)"
proof -
  have lit: "literal_value_of (it_store it) t = map_option row_literal (row_in it t)" for t
    using assms(1) by (simp add: interner_inv_def accessor_rows row_in_def row_literal_def [abs_def])
  show ?thesis
    by (simp add: domains_disjoint_def disjoint_domain_row [OF assms(1)] lit assms(2,3) rows_disjoint_def
        split: option.split)
qed

text \<open>The reference definition: every pair of expanded members is disjoint.\<close>

definition types_disjoint :: "interner \<Rightarrow> type_id \<Rightarrow> type_id \<Rightarrow> bool" where
  "types_disjoint it a b \<longleftrightarrow>
     (\<forall>x \<in> union_expand it a. \<forall>y \<in> union_expand it b. rows_disjoint (the (row_in it x)) (the (row_in it y)))"

lemma union_nonempty:
  assumes "interner_inv fx it" "row_in it t = Some r" "union_row r = Some ms"
  shows "ms \<noteq> []"
proof -
  have "canonical_row r" using assms(1,2) unfolding interner_inv_def by blast
  with assms(3) show ?thesis by (cases r) (auto simp: union_row_def)
qed

lemma disjoint_right:
  assumes inv: "interner_inv fx it" "sets_inv it" and l: "row_in it a = Some l" "union_row l = None"
    and r: "row_in it b = Some r"
  shows "definitely_disjoint (it_store it) a b = Some (types_disjoint it a b)"
proof -
  note acc = set_accessors(1) [OF inv(1)]
  have flat: "definitely_disjoint (it_store it) a m = Some (rows_disjoint l r')"
    if "row_in it m = Some r'" "union_row r' = None" for m r'
    using that l by (subst definitely_disjoint.simps) (simp add: acc domains_disjoint_row [OF inv(1)])
  show ?thesis
  proof (cases "union_row r")
    case None
    with r l flat [OF r None] show ?thesis by (simp add: types_disjoint_def expand_def acc)
  next
    case (Some ms)
    have mem: "\<exists>r'. row_in it m = Some r' \<and> union_row r' = None" if "m \<in> set ms" for m
      using inv(2) r Some that unfolding sets_inv_def members_flat_def by blast
    have "all_m (\<lambda>m. definitely_disjoint (it_store it) a m) ms =
        Some (list_all (\<lambda>m. rows_disjoint l (the (row_in it m))) ms)"
      using mem flat by (intro all_m_total) fastforce
    then show ?thesis using l r Some union_nonempty [OF inv(1) r Some]
      by (subst definitely_disjoint.simps) (simp add: acc types_disjoint_def expand_def list_all_iff)
  qed
qed

lemma definitely_disjoint_spec:
  assumes inv: "interner_inv fx it" "sets_inv it" and l: "row_in it a = Some l" and r: "row_in it b = Some r"
  shows "definitely_disjoint (it_store it) a b = Some (types_disjoint it a b)"
proof (cases "union_row l")
  case None
  then show ?thesis by (rule disjoint_right [OF inv l _ r])
next
  case (Some ms)
  note acc = set_accessors(1) [OF inv(1)]
  have mem: "\<exists>l'. row_in it m = Some l' \<and> union_row l' = None" if "m \<in> set ms" for m
    using inv(2) l Some that unfolding sets_inv_def members_flat_def by blast
  have "all_m (\<lambda>m. definitely_disjoint (it_store it) m b) ms = Some (list_all (\<lambda>m. types_disjoint it m b) ms)"
    using mem disjoint_right [OF inv _ _ r] by (intro all_m_total) blast
  moreover have "types_disjoint it a b = list_all (\<lambda>m. types_disjoint it m b) ms"
  proof -
    have "union_expand it m = {m}" if "m \<in> set ms" for m using mem [OF that] by (auto simp: expand_def acc)
    then show ?thesis using l Some by (auto simp: types_disjoint_def expand_def acc list_all_iff)
  qed
  ultimately show ?thesis using l Some union_nonempty [OF inv(1) l Some]
    by (subst definitely_disjoint.simps) (simp add: acc)
qed

lemma rows_disjoint_sym: "rows_disjoint l r = rows_disjoint r l"
  using literal_eq_sym by (auto simp: rows_disjoint_def split: option.splits)

lemma types_disjoint_sym: "types_disjoint it a b = types_disjoint it b a"
  using rows_disjoint_sym by (auto simp: types_disjoint_def)

lemma comparable_member_row:
  assumes "interner_inv fx it" "row_in it t = Some r"
  shows "comparable_member (it_store it) t = Some (row_domain r \<noteq> None \<or> union_row r \<noteq> None)"
  using assms(2) by (auto simp: comparable_member_def disjoint_domain_row [OF assms(1)] set_accessors(1) [OF assms(1)])

text \<open>A member the loops skip is disjoint from nothing.\<close>

lemma incomparable_not_disjoint:
  assumes inv: "interner_inv fx it" and r: "row_in it t = Some r" "row_domain r = None" "union_row r = None"
    and b: "row_in it b = Some rb"
  shows "\<not> types_disjoint it t b" "\<not> types_disjoint it b t"
proof -
  note acc = set_accessors(1) [OF inv]
  have "union_expand it t = {t}" using r by (simp add: expand_def acc)
  moreover have "union_expand it b \<noteq> {}"
    using b union_nonempty [OF inv b] by (cases "union_row rb") (auto simp: expand_def acc)
  then obtain y where "y \<in> union_expand it b" by blast
  ultimately show "\<not> types_disjoint it t b" using r by (auto simp: types_disjoint_def rows_disjoint_def)
  then show "\<not> types_disjoint it b t" by (simp add: types_disjoint_sym)
qed

lemma disjoint_from_any_spec:
  assumes inv: "interner_inv fx it" "sets_inv it" and l: "row_in it t \<noteq> None"
    and ms: "\<forall>m \<in> set ms. row_in it m \<noteq> None"
  shows "disjoint_from_any (it_store it) t ms = Some (\<exists>m \<in> set ms. types_disjoint it t m)"
  using ms
proof (induction ms)
  case (Cons m ms)
  from Cons.prems l obtain r rt where r: "row_in it m = Some r" "row_in it t = Some rt" by auto
  show ?case
  proof (cases "row_domain r = None \<and> union_row r = None")
    case True
    with incomparable_not_disjoint [OF inv(1) r(1) _ _ r(2)] Cons r show ?thesis
      by (simp add: comparable_member_row [OF inv(1)])
  next
    case False
    with Cons r show ?thesis
      by (auto simp: comparable_member_row [OF inv(1)] definitely_disjoint_spec [OF inv])
  qed
qed simp

text \<open>Some two members, at different positions, are disjoint.\<close>

definition some_pair_disjoint :: "interner \<Rightarrow> type_id list \<Rightarrow> bool" where
  "some_pair_disjoint it ms \<longleftrightarrow> (\<exists>i j. i < j \<and> j < length ms \<and> types_disjoint it (ms ! i) (ms ! j))"

lemma some_pair_disjoint_Cons:
  "some_pair_disjoint it (m # ms) \<longleftrightarrow> (\<exists>x \<in> set ms. types_disjoint it m x) \<or> some_pair_disjoint it ms"
proof
  assume "some_pair_disjoint it (m # ms)"
  then obtain i j where ij: "i < j" "j < Suc (length ms)" "types_disjoint it ((m # ms) ! i) ((m # ms) ! j)"
    by (auto simp: some_pair_disjoint_def)
  then obtain j' where j': "j = Suc j'" by (cases j) auto
  show "(\<exists>x \<in> set ms. types_disjoint it m x) \<or> some_pair_disjoint it ms"
    using ij j' by (cases i) (auto simp: some_pair_disjoint_def)
next
  assume "(\<exists>x \<in> set ms. types_disjoint it m x) \<or> some_pair_disjoint it ms"
  then show "some_pair_disjoint it (m # ms)"
  proof
    assume "\<exists>x \<in> set ms. types_disjoint it m x"
    then obtain k where "k < length ms" "types_disjoint it m (ms ! k)" by (auto simp: in_set_conv_nth)
    then show ?thesis unfolding some_pair_disjoint_def by (intro exI [of _ 0] exI [of _ "Suc k"]) simp
  next
    assume "some_pair_disjoint it ms"
    then obtain i j where "i < j" "j < length ms" "types_disjoint it (ms ! i) (ms ! j)"
      by (auto simp: some_pair_disjoint_def)
    then show ?thesis unfolding some_pair_disjoint_def by (intro exI [of _ "Suc i"] exI [of _ "Suc j"]) simp
  qed
qed

lemma disjoint_scan:
  assumes "interner_inv fx it" "sets_inv it" "\<forall>m \<in> set ms. row_in it m \<noteq> None"
  shows "has_definitely_disjoint_members (it_store it) ms = Some (some_pair_disjoint it ms)"
  using assms(3)
proof (induction ms)
  case Nil
  then show ?case by (simp add: some_pair_disjoint_def)
next
  case (Cons m ms)
  from Cons.prems obtain r where r: "row_in it m = Some r" by auto
  have any: "disjoint_from_any (it_store it) m ms = Some (\<exists>x \<in> set ms. types_disjoint it m x)"
    using Cons.prems by (intro disjoint_from_any_spec [OF assms(1,2)]) auto
  show ?case
  proof (cases "row_domain r = None \<and> union_row r = None")
    case True
    with incomparable_not_disjoint [OF assms(1) r] Cons.prems have "\<not> (\<exists>x \<in> set ms. types_disjoint it m x)" by auto
    with True Cons r show ?thesis by (simp add: comparable_member_row [OF assms(1)] some_pair_disjoint_Cons)
  next
    case False
    with Cons r any show ?thesis by (auto simp: comparable_member_row [OF assms(1)] some_pair_disjoint_Cons)
  qed
qed


section \<open>Intersection\<close>

abbreviation intersection_expand :: "interner \<Rightarrow> type_id \<Rightarrow> type_id set" where
  "intersection_expand it \<equiv> expand (intersection_members (it_store it))"

text \<open>The specification of \<open>intersection_type\<close>, again a function of the flattened member set.\<close>

definition intersection_of_set :: "hasher \<Rightarrow> interner \<Rightarrow> type_id set \<Rightarrow> (type_id \<times> interner) option" where
  "intersection_of_set fx it ms =
     (let wk = it_well_known it in
      if wk_error wk \<in> ms then Some (wk_any wk, it)
      else if wk_never wk \<in> ms then Some (wk_never wk, it)
      else if wk_any wk \<in> ms then Some (wk_any wk, it)
      else
        let flat = sorted_list_of_set (ms - {wk_unknown wk})
        in if some_pair_disjoint it flat then Some (wk_never wk, it)
           else case flat of
             [] \<Rightarrow> Some (wk_unknown wk, it)
           | [m] \<Rightarrow> Some (m, it)
           | _ \<Rightarrow> intern_intersection_members fx it flat)"

lemma intersection_by_set:
  assumes inv: "interner_inv fx it" "sets_inv it"
    and flat: "flatten (intersection_members (it_store it)) members [] = Some flat"
    and valid: "\<forall>m \<in> set flat. row_in it m \<noteq> None"
  shows "intersection_type fx it members = intersection_of_set fx it (set flat)"
proof -
  let ?f = "filter (\<lambda>m. m \<noteq> wk_unknown (it_well_known it)) flat"
  have "remdups_adj (sort ?f) = sorted_list_of_set (set flat - {wk_unknown (it_well_known it)})"
    unfolding sort_dedup_set by (rule arg_cong [of _ _ sorted_list_of_set]) auto
  moreover have "has_definitely_disjoint_members (it_store it) (sorted_list_of_set (set flat - {wk_unknown (it_well_known it)})) =
      Some (some_pair_disjoint it (sorted_list_of_set (set flat - {wk_unknown (it_well_known it)})))"
    using valid by (intro disjoint_scan [OF inv]) auto
  ultimately show ?thesis using flat
    by (simp add: intersection_type_def intersection_of_set_def Let_def cong: list.case_cong)
qed

lemma intersection_refines_set:
  assumes inv: "interner_inv fx it" "sets_inv it" and valid: "\<forall>m \<in> set members. row_in it m \<noteq> None"
  shows "intersection_type fx it members = intersection_of_set fx it (\<Union>m \<in> set members. intersection_expand it m)"
proof -
  note acc = set_accessors(2) [OF inv(1)]
  have fl: "members_flat it intersection_row" using inv(2) by (simp add: sets_inv_def)
  have "flat_sets (intersection_members (it_store it))" by (rule members_flat_sets [OF fl acc])
  moreover have "\<forall>m \<in> set members. intersection_members (it_store it) m \<noteq> None" using valid by (simp add: acc)
  ultimately obtain out where out: "flatten (intersection_members (it_store it)) members [] = Some out"
      "set out = (\<Union>m \<in> set members. intersection_expand it m)"
    using flatten_total [of _ members "[]"] by fastforce
  moreover have "\<forall>m \<in> set out. row_in it m \<noteq> None"
    using out(2) valid expand_flat [OF fl acc] by fastforce
  ultimately show ?thesis using intersection_by_set [OF inv] by simp
qed


lemma intersection_row_consed:
  assumes inv: "interner_inv fx it" "sets_inv it"
    and cap: "store_len (it_store it) < 2 ^ 32" and ms: "strict_sorted ms" "2 \<le> length ms"
    and mem: "\<And>x. x \<in> set ms \<Longrightarrow> \<exists>r. row_in it x = Some r \<and> intersection_row r = None"
  shows "\<exists>tid it'. intern_intersection_members fx it ms = Some (tid, it') \<and> set_result fx it tid it' \<and>
    row_in it' tid = Some (Row_Intersection ms)"
proof -
  have "\<exists>tid it'. intern_intersection_members fx it ms = Some (tid, it') \<and>
      hash_consed fx it (Row_Intersection ms) tid it'"
    unfolding intern_intersection_members_def
    by (rule hash_cons_plain [OF inv(1) cap constructor_compares(20) constructor_appends(20)]) (use ms in simp_all)
  then obtain tid it' where hc: "intern_intersection_members fx it ms = Some (tid, it')"
      "hash_consed fx it (Row_Intersection ms) tid it'" by blast
  from hash_consed_row [OF hc(2)] obtain r' where "row_in it' tid = Some r'" "row_key r' = SK_Intersection ms" by auto
  then have row: "row_in it' tid = Some (Row_Intersection ms)" by (cases r') (auto simp: object_key_def)
  have "sets_inv it'"
    by (rule sets_inv_hash_consed [OF inv(2) hc(2)]) (use mem in \<open>auto simp: union_row_def intersection_row_def\<close>)
  with hc row hash_consed_keeps [OF hc(2)] hash_consed_inv [OF hc(2)] show ?thesis
    by (auto simp: set_result_def hash_consed_def)
qed

lemma intersection_total:
  assumes inv: "interner_inv fx it" "sets_inv it" "well_known_inv it"
    and cap: "store_len (it_store it) < 2 ^ 32" and valid: "\<forall>m \<in> set members. row_in it m \<noteq> None"
  defines "ms \<equiv> \<Union>m \<in> set members. intersection_expand it m" and "wk \<equiv> it_well_known it"
  shows "\<exists>tid it'. intersection_type fx it members = Some (tid, it') \<and> set_result fx it tid it' \<and>
    (if wk_error wk \<in> ms then tid = wk_any wk
     else if wk_never wk \<in> ms then tid = wk_never wk
     else if wk_any wk \<in> ms then tid = wk_any wk
     else if some_pair_disjoint it (sorted_list_of_set (ms - {wk_unknown wk})) then tid = wk_never wk
     else if ms \<subseteq> {wk_unknown wk} then tid = wk_unknown wk
     else ms - {wk_unknown wk} = {tid} \<or>
       row_in it' tid = Some (Row_Intersection (sorted_list_of_set (ms - {wk_unknown wk}))))"
proof -
  define flat where "flat = sorted_list_of_set (ms - {wk_unknown wk})"
  note acc = set_accessors(2) [OF inv(1)]
  have fl: "members_flat it intersection_row" using inv(2) by (simp add: sets_inv_def)
  have mem: "\<exists>r. row_in it x = Some r \<and> intersection_row r = None" if "x \<in> ms" for x
    using that valid expand_flat [OF fl acc] unfolding ms_def by blast
  have "finite ms" unfolding ms_def by (auto simp: expand_def split: option.splits)
  then have sf: "set flat = ms - {wk_unknown wk}" "strict_sorted flat" by (simp_all add: flat_def strict_sorted_def)
  have u: "intersection_type fx it members = intersection_of_set fx it ms"
    unfolding ms_def by (rule intersection_refines_set [OF inv(1,2) valid])
  note same = set_result_same [OF inv(1,2)] and wkr = well_known_row [OF inv(3)]
  have wks: "row_in it (wk_any wk) \<noteq> None" "row_in it (wk_unknown wk) \<noteq> None" "row_in it (wk_never wk) \<noteq> None"
    using wkr [of Kind_Any] wkr [of Kind_Unknown] wkr [of Kind_Never] by (simp_all add: wk_def)
  show ?thesis
  proof (cases "wk_error wk \<in> ms \<or> wk_never wk \<in> ms \<or> wk_any wk \<in> ms \<or> some_pair_disjoint it flat")
    case True
    then show ?thesis using u same wks
      unfolding intersection_of_set_def Let_def wk_def [symmetric] flat_def [symmetric] by auto
  next
    case False
    then have u': "intersection_type fx it members = (case flat of [] \<Rightarrow> Some (wk_unknown wk, it) | [m] \<Rightarrow> Some (m, it)
        | _ \<Rightarrow> intern_intersection_members fx it flat)"
      using u unfolding intersection_of_set_def Let_def wk_def [symmetric] flat_def [symmetric] by simp
    show ?thesis
    proof (cases flat rule: small_list_cases)
      case empty
      then have "ms - {wk_unknown wk} = {}" using sf(1) by simp
      with empty u' same wks False show ?thesis unfolding flat_def [symmetric] by auto
    next
      case (single m)
      with sf(1) have m: "ms - {wk_unknown wk} = {m}" by simp
      with mem have "row_in it m \<noteq> None" by fastforce
      with single m u' same False show ?thesis unfolding flat_def [symmetric] by auto
    next
      case (many x y ys)
      then have "2 \<le> length flat" by simp
      moreover have "\<exists>r. row_in it z = Some r \<and> intersection_row r = None" if "z \<in> set flat" for z
        using that sf(1) mem by blast
      ultimately obtain tid it' where "intern_intersection_members fx it flat = Some (tid, it')"
          "set_result fx it tid it'" "row_in it' tid = Some (Row_Intersection flat)"
        using intersection_row_consed [OF inv(1,2) cap sf(2)] by blast
      moreover have "\<not> ms \<subseteq> {wk_unknown wk}" using sf(1) many by auto
      ultimately show ?thesis using u' many sf(1) False unfolding flat_def [symmetric] by auto
    qed
  qed
qed

section \<open>Soundness of the reduction to \<open>never\<close>\<close>

text \<open>JavaScript values, as far as the domains tell them apart.\<close>

datatype js_value =
    Val_Null | Val_Undefined | Val_Boolean bool | Val_Number f64 | Val_String string
  | Val_BigInt int | Val_Symbol "well_known_symbol + nat" | Val_Object nat

fun value_domain :: "js_value \<Rightarrow> disjoint_domain" where
  "value_domain Val_Null = Domain_Null"
| "value_domain Val_Undefined = Domain_VoidLike"
| "value_domain (Val_Boolean _) = Domain_Boolean"
| "value_domain (Val_Number _) = Domain_Number"
| "value_domain (Val_String _) = Domain_String"
| "value_domain (Val_BigInt _) = Domain_BigInt"
| "value_domain (Val_Symbol _) = Domain_Symbol"
| "value_domain (Val_Object _) = Domain_NonPrimitive"

text \<open>The values strictly equal to a literal.\<close>

fun equals_literal :: "js_value \<Rightarrow> literal_value \<Rightarrow> bool" where
  "equals_literal (Val_Number x) (Lit_Number y) = f64_eq x y"
| "equals_literal (Val_String x) (Lit_String y) = (x = y)"
| "equals_literal (Val_Boolean x) (Lit_Boolean y) = (x = y)"
| "equals_literal (Val_Symbol x) (Lit_WellKnownSymbol y) = (x = Inl y)"
| "equals_literal _ _ = False"

text \<open>
  A meaning of types as sets of values that respects the primitive domains, the literals and the
  member sets; it is free on every other type.
\<close>

definition meaning_ok :: "interner \<Rightarrow> (type_id \<Rightarrow> js_value set) \<Rightarrow> bool" where
  "meaning_ok it sem \<longleftrightarrow>
     (\<forall>t r. row_in it t = Some r \<longrightarrow>
        (\<forall>d. row_domain r = Some d \<longrightarrow> sem t \<subseteq> {v. value_domain v = d}) \<and>
        (\<forall>l. row_literal r = Some l \<longrightarrow> sem t \<subseteq> {v. equals_literal v l}) \<and>
        (\<forall>ms. union_row r = Some ms \<longrightarrow> sem t \<subseteq> (\<Union>m \<in> set ms. sem m)) \<and>
        (\<forall>ms. intersection_row r = Some ms \<longrightarrow> sem t \<subseteq> (\<Inter>m \<in> set ms. sem m))) \<and>
     sem (wk_never (it_well_known it)) = {}"

lemma meaning_okD:
  assumes "meaning_ok it sem" "row_in it t = Some r"
  shows "row_domain r = Some d \<Longrightarrow> v \<in> sem t \<Longrightarrow> value_domain v = d"
    and "row_literal r = Some l \<Longrightarrow> v \<in> sem t \<Longrightarrow> equals_literal v l"
    and "union_row r = Some ms \<Longrightarrow> v \<in> sem t \<Longrightarrow> \<exists>m \<in> set ms. v \<in> sem m"
    and "intersection_row r = Some ms \<Longrightarrow> m \<in> set ms \<Longrightarrow> v \<in> sem t \<Longrightarrow> v \<in> sem m"
proof -
  have ok: "(\<forall>d. row_domain r = Some d \<longrightarrow> sem t \<subseteq> {v. value_domain v = d}) \<and>
      (\<forall>l. row_literal r = Some l \<longrightarrow> sem t \<subseteq> {v. equals_literal v l}) \<and>
      (\<forall>ms. union_row r = Some ms \<longrightarrow> sem t \<subseteq> (\<Union>m \<in> set ms. sem m)) \<and>
      (\<forall>ms. intersection_row r = Some ms \<longrightarrow> sem t \<subseteq> (\<Inter>m \<in> set ms. sem m))"
    using assms unfolding meaning_ok_def by simp
  show "row_domain r = Some d \<Longrightarrow> v \<in> sem t \<Longrightarrow> value_domain v = d"
    and "row_literal r = Some l \<Longrightarrow> v \<in> sem t \<Longrightarrow> equals_literal v l"
    and "union_row r = Some ms \<Longrightarrow> v \<in> sem t \<Longrightarrow> \<exists>m \<in> set ms. v \<in> sem m"
    and "intersection_row r = Some ms \<Longrightarrow> m \<in> set ms \<Longrightarrow> v \<in> sem t \<Longrightarrow> v \<in> sem m"
    using ok by auto
qed

lemma equals_literal_unique: "equals_literal v a \<Longrightarrow> equals_literal v b \<Longrightarrow> literal_eq a b"
  by (cases v; cases a; cases b) (auto simp: f64_eq_def)

lemma rows_disjoint_sound:
  assumes "meaning_ok it sem" "row_in it a = Some l" "row_in it b = Some r" "rows_disjoint l r"
  shows "sem a \<inter> sem b = {}"
proof -
  from assms(4) obtain da db where d: "row_domain l = Some da" "row_domain r = Some db"
    and c: "da \<noteq> db \<or> (\<exists>x y. row_literal l = Some x \<and> row_literal r = Some y \<and> \<not> literal_eq x y)"
    by (auto simp: rows_disjoint_def split: option.splits)
  note left = meaning_okD(1,2) [OF assms(1,2)] and right = meaning_okD(1,2) [OF assms(1,3)]
  show ?thesis
  proof (rule equals0I)
    fix v assume "v \<in> sem a \<inter> sem b"
    with d left right have "da = db" "row_literal l = Some x \<Longrightarrow> equals_literal v x"
        "row_literal r = Some y \<Longrightarrow> equals_literal v y" for x y
      by blast+
    with c equals_literal_unique show False by blast
  qed
qed

lemma types_disjoint_sound:
  assumes ok: "meaning_ok it sem" and inv: "interner_inv fx it" "sets_inv it"
    and ab: "row_in it a \<noteq> None" "row_in it b \<noteq> None" and d: "types_disjoint it a b"
  shows "sem a \<inter> sem b = {}"
proof -
  note acc = set_accessors(1) [OF inv(1)]
  have fl: "members_flat it union_row" using inv(2) by (simp add: sets_inv_def)
  have sub: "sem t \<subseteq> (\<Union>m \<in> union_expand it t. sem m)" if "row_in it t \<noteq> None" for t
  proof -
    from that obtain r where r: "row_in it t = Some r" by blast
    show ?thesis
      using r meaning_okD(3) [OF ok r] by (cases "union_row r") (auto simp: expand_def acc)
  qed
  have "sem x \<inter> sem y = {}" if "x \<in> union_expand it a" "y \<in> union_expand it b" for x y
  proof -
    from expand_flat [OF fl acc that(1) ab(1)] expand_flat [OF fl acc that(2) ab(2)] obtain l r where
      "row_in it x = Some l" "row_in it y = Some r" by blast
    with d that rows_disjoint_sound [OF ok] show ?thesis by (fastforce simp: types_disjoint_def)
  qed
  with sub [OF ab(1)] sub [OF ab(2)] show ?thesis by blast
qed


lemma well_known_distinct:
  assumes "well_known_inv it"
  shows "well_known_of (it_well_known it) k = well_known_of (it_well_known it) l \<longleftrightarrow> k = l"
  using assms unfolding well_known_inv_def by (metis option.inject ty_row.inject(1))

lemma expanded_meaning:
  assumes ok: "meaning_ok it sem" and inv: "interner_inv fx it" and valid: "\<forall>m \<in> set members. row_in it m \<noteq> None"
  shows "(\<Inter>m \<in> set members. sem m) \<subseteq> (\<Inter>x \<in> (\<Union>m \<in> set members. intersection_expand it m). sem x)"
proof -
  note acc = set_accessors(2) [OF inv]
  have "sem m \<subseteq> sem x" if "m \<in> set members" "x \<in> intersection_expand it m" for m x
  proof -
    from that valid obtain r where r: "row_in it m = Some r" by blast
    with that meaning_okD(4) [OF ok r] show ?thesis
      by (cases "intersection_row r") (auto simp: expand_def acc)
  qed
  then show ?thesis by blast
qed

lemma some_pair_sound:
  assumes ok: "meaning_ok it sem" and inv: "interner_inv fx it" "sets_inv it"
    and valid: "\<forall>m \<in> set ms. row_in it m \<noteq> None" and d: "some_pair_disjoint it ms"
  shows "(\<Inter>m \<in> set ms. sem m) = {}"
proof -
  from d obtain i j where ij: "i < j" "j < length ms" "types_disjoint it (ms ! i) (ms ! j)"
    by (auto simp: some_pair_disjoint_def)
  then have "ms ! i \<in> set ms" "ms ! j \<in> set ms" by auto
  moreover from this valid have "sem (ms ! i) \<inter> sem (ms ! j) = {}"
    using types_disjoint_sound [OF ok inv _ _ ij(3)] by blast
  ultimately show ?thesis by blast
qed

end
