(* ===== verification/Interner_Machine.thy ===== *)
theory Interner_Machine
  imports Set_Types
begin

text \<open>
  The interner as a state machine: every operation of \<^verbatim>\<open>types/intern\<close> that a caller can issue, what the
  caller owes it, the proof that each one returns and keeps the invariant of the whole interner and
  the rows already handed out, and the reachable interners.
\<close>


section \<open>Operations\<close>

datatype interner_op =
    Op_Intern intern_request
  | Op_Union "type_id list"
  | Op_Intersection "type_id list"
  | Op_Declared declared_recipe_id "(type_param_id \<times> type_id) list"
  | Op_ReserveObject
  | Op_ReserveConditional
  | Op_ReserveMapped
  | Op_Fill "reserved_type_fill list"
  | Op_AbandonObject type_id
  | Op_PoisonConditional type_id
  | Op_PoisonMapped type_id
  | Op_Promote type_id
  | Op_SetConstraint type_param_id type_id
  | Op_RemoveConstraint type_param_id
  | Op_FreezeParams "type_param_id list"
  | Op_SetTemplateName type_id string
  | Op_FreeParamSummary type_id
  | Op_PublishSummaries "(type_id \<times> type_param_id list) list"
  | Op_ApplicationKeyMode type_id
  | Op_PublishKeyModes "(type_id \<times> application_key_mode) list"
  | Op_DeferredKeyof type_id
  | Op_PublishDeferredKeyof type_id bool
  | Op_CleanApplication clean_application_key
  | Op_PublishCleanApplication clean_application_key type_id
  | Op_InternDerivation u64 type_id type_id "(derivation_edge \<times> derivation_id) list"
  | Op_CompleteDerivation derivation_id type_id type_id "(derivation_edge \<times> derivation_id) list"
  | Op_BeginQuery
  | Op_EndQuery
  | Op_Freeze
  | Op_Fork

text \<open>
  The interner after an operation; None is a panic. A refused fork leaves the caller with the
  interner it had.
\<close>

fun run_op :: "hasher \<Rightarrow> interner \<Rightarrow> interner_op \<Rightarrow> interner option" where
  "run_op fx it (Op_Intern req) = map_option snd (run_request fx it req)"
| "run_op fx it (Op_Union ms) = map_option snd (union_type fx it ms)"
| "run_op fx it (Op_Intersection ms) = map_option snd (intersection_type fx it ms)"
| "run_op fx it (Op_Declared recipe mapper) = map_option snd (intern_declared fx it recipe mapper)"
| "run_op fx it Op_ReserveObject = Some (snd (reserve_object it))"
| "run_op fx it Op_ReserveConditional = Some (snd (reserve_conditional it))"
| "run_op fx it Op_ReserveMapped = Some (snd (reserve_mapped it))"
| "run_op fx it (Op_Fill fills) = map_option snd (fill_reserved_type_batch it fills)"
| "run_op fx it (Op_AbandonObject tid) = map_option snd (abandon_reserved_object it tid)"
| "run_op fx it (Op_PoisonConditional tid) = map_option snd (poison_reserved_conditional it tid)"
| "run_op fx it (Op_PoisonMapped tid) = map_option snd (poison_reserved_mapped it tid)"
| "run_op fx it (Op_Promote tid) = map_option snd (promote_caller_certified_acyclic_reserved_object fx it tid)"
| "run_op fx it (Op_SetConstraint p c) = Some (snd (interner_set_type_param_constraint it p c))"
| "run_op fx it (Op_RemoveConstraint p) = Some (snd (interner_remove_type_param_constraint it p))"
| "run_op fx it (Op_FreezeParams ids) = Some (snd (interner_freeze_type_param_metadata it ids))"
| "run_op fx it (Op_SetTemplateName tid name) = Some (interner_set_template_name it tid name)"
| "run_op fx it (Op_FreeParamSummary ty) = Some (snd (free_param_summary it ty))"
| "run_op fx it (Op_PublishSummaries xs) = Some (publish_free_param_summaries it xs)"
| "run_op fx it (Op_ApplicationKeyMode ty) = Some (snd (application_key_mode_of it ty))"
| "run_op fx it (Op_PublishKeyModes xs) = Some (publish_application_key_modes it xs)"
| "run_op fx it (Op_DeferredKeyof ty) = Some (snd (deferred_keyof_result it ty))"
| "run_op fx it (Op_PublishDeferredKeyof ty r) = Some (publish_deferred_keyof_result it ty r)"
| "run_op fx it (Op_CleanApplication key) = Some (snd (clean_application_result it key))"
| "run_op fx it (Op_PublishCleanApplication key r) = Some (publish_clean_application_result it key r)"
| "run_op fx it (Op_InternDerivation counter r i cs) = Some (snd (snd (intern_derivation it counter r i cs)))"
| "run_op fx it (Op_CompleteDerivation d r i cs) = Some (snd (complete_derivation it d r i cs))"
| "run_op fx it Op_BeginQuery = Some (begin_occurrence_query it)"
| "run_op fx it Op_EndQuery = Some (end_occurrence_query it)"
| "run_op fx it Op_Freeze = Some (snd (interner_freeze_as_base it))"
| "run_op fx it Op_Fork = Some (case interner_fork_delta it of Inl _ \<Rightarrow> it | Inr d \<Rightarrow> d)"

text \<open>What a caller owes: ids it was given before, and room for one more row.\<close>

fun op_ok :: "interner \<Rightarrow> interner_op \<Rightarrow> bool" where
  "op_ok it (Op_Intern _) \<longleftrightarrow> store_len (it_store it) < 2 ^ 32"
| "op_ok it (Op_Union ms) \<longleftrightarrow> store_len (it_store it) < 2 ^ 32 \<and> list_all (\<lambda>m. row_in it m \<noteq> None) ms"
| "op_ok it (Op_Intersection ms) \<longleftrightarrow> store_len (it_store it) < 2 ^ 32 \<and> list_all (\<lambda>m. row_in it m \<noteq> None) ms"
| "op_ok it (Op_Declared recipe _) \<longleftrightarrow>
     store_len (it_store it) < 2 ^ 32 \<and> declared_recipe (it_store it) recipe \<noteq> None"
| "op_ok it Op_ReserveObject \<longleftrightarrow> store_len (it_store it) < 2 ^ 32"
| "op_ok it Op_ReserveConditional \<longleftrightarrow> store_len (it_store it) < 2 ^ 32"
| "op_ok it Op_ReserveMapped \<longleftrightarrow> store_len (it_store it) < 2 ^ 32"
| "op_ok it _ \<longleftrightarrow> True"

section \<open>The invariant and what a step keeps\<close>

definition machine_inv :: "hasher \<Rightarrow> interner \<Rightarrow> bool" where
  "machine_inv fx it \<longleftrightarrow> interner_inv fx it \<and> sets_inv it \<and> well_known_inv it"

definition pending :: "interner \<Rightarrow> type_id \<Rightarrow> bool" where
  "pending it tid \<longleftrightarrow> (\<exists>rt. reserved_type_of it tid = Some rt \<and> rt_state rt = State_Pending)"

text \<open>
  A row, once there, stays; only a pending reservation may get another body, of the same kind; and
  no existing row becomes pending.
\<close>

definition step_keeps :: "interner \<Rightarrow> interner \<Rightarrow> bool" where
  "step_keeps it it' \<longleftrightarrow> it_well_known it' = it_well_known it \<and>
     (\<forall>i r. row_in it i = Some r \<longrightarrow> (pending it' i \<longrightarrow> pending it i) \<and>
        (\<exists>r'. row_in it' i = Some r' \<and> (r' = r \<or> pending it i \<and> row_kind r \<noteq> None \<and> row_kind r' = row_kind r)))"

lemma step_keepsI:
  assumes "it_well_known it' = it_well_known it" "\<And>i r. row_in it i = Some r \<Longrightarrow> row_in it' i = Some r"
    "\<And>i. row_in it i \<noteq> None \<Longrightarrow> pending it' i \<Longrightarrow> pending it i"
  shows "step_keeps it it'"
  using assms by (auto simp: step_keeps_def)

lemma step_keeps_refl [simp]: "step_keeps it it"
  by (rule step_keepsI) auto

lemma pending_cong:
  "reserved_type_of it' = reserved_type_of it \<Longrightarrow> pending it' = pending it"
  by (simp add: pending_def fun_eq_iff)

lemma reserved_type_of_cong:
  "it_reserved_types it' = it_reserved_types it \<Longrightarrow> it_reserved_types_base it' = it_reserved_types_base it \<Longrightarrow>
   reserved_type_of it' = reserved_type_of it"
  by (rule ext) (simp add: reserved_type_of_def split: option.split)

lemma well_known_kept: "well_known_inv it \<Longrightarrow> step_keeps it it' \<Longrightarrow> well_known_inv it'"
  by (fastforce simp: well_known_inv_def step_keeps_def)

lemma sets_inv_cong: "sets_inv it \<Longrightarrow> row_in it' = row_in it \<Longrightarrow> sets_inv it'"
  by (simp add: sets_inv_def members_flat_def)

text \<open>A step that changes neither the rows nor the reservations.\<close>

lemma same_rows_step:
  assumes "machine_inv fx it" "interner_inv fx it'" "row_in it' = row_in it" "it_well_known it' = it_well_known it"
    "reserved_type_of it' = reserved_type_of it"
  shows "machine_inv fx it' \<and> step_keeps it it'"
proof -
  have k: "step_keeps it it'" using assms(3,4) pending_cong [OF assms(5)] by (intro step_keepsI) auto
  then show ?thesis using assms well_known_kept [OF _ k] sets_inv_cong by (auto simp: machine_inv_def)
qed

lemma same_store_step:
  assumes inv: "machine_inv fx it"
    and "store_inv (it_store it')" "store_rows (it_store it') = store_rows (it_store it)"
      "store_base_len (it_store it') = store_base_len (it_store it)"
    and "it_dedup it' = it_dedup it" "it_dedup_base it' = it_dedup_base it"
      "it_reserved_types it' = it_reserved_types it" "it_reserved_types_base it' = it_reserved_types_base it"
      "it_well_known it' = it_well_known it"
  shows "machine_inv fx it' \<and> step_keeps it it'"
proof -
  have "interner_inv fx it" using inv by (simp add: machine_inv_def)
  from interner_inv_cong [OF this] assms have "interner_inv fx it'" by (simp add: indexed_def)
  moreover have "row_in it' = row_in it" using assms(3) by (simp add: row_in_def fun_eq_iff)
  ultimately show ?thesis using inv assms(9) reserved_type_of_cong [OF assms(7,8)] by (intro same_rows_step)
qed

section \<open>Interning steps\<close>

lemma hash_consed_step:
  assumes inv: "machine_inv fx it" and hc: "hash_consed fx it r tid it'"
    and r: "union_row r = None" "intersection_row r = None"
  shows "machine_inv fx it' \<and> step_keeps it it'"
proof -
  have k: "step_keeps it it'"
    using hc hash_consed_keeps [OF hc] pending_cong [OF reserved_type_of_cong, of it' it]
    by (intro step_keepsI) (auto simp: hash_consed_def)
  then show ?thesis
    using inv well_known_kept [OF _ k] hash_consed_inv [OF hc] sets_inv_hash_consed [OF _ hc] r
    by (simp add: machine_inv_def)
qed

lemma request_row_not_set: "union_row (request_row req) = None \<and> intersection_row (request_row req) = None"
  by (cases req) (simp_all add: union_row_def intersection_row_def)

lemma intern_step:
  assumes "machine_inv fx it" "op_ok it (Op_Intern req)"
  shows "\<exists>it'. run_op fx it (Op_Intern req) = Some it' \<and> machine_inv fx it' \<and> step_keeps it it'"
proof -
  have "\<exists>tid it'. run_request fx it req = Some (tid, it') \<and> hash_consed fx it (request_row req) tid it'"
    using assms by (intro request_interned) (simp_all add: machine_inv_def)
  then show ?thesis using hash_consed_step [OF assms(1)] request_row_not_set by fastforce
qed

lemma set_result_step:
  assumes inv: "machine_inv fx it" and res: "set_result fx it tid it'"
  shows "machine_inv fx it' \<and> step_keeps it it'"
proof -
  have k: "step_keeps it it'"
    using res pending_cong [OF reserved_type_of_cong, of it' it] by (intro step_keepsI) (auto simp: set_result_def)
  then show ?thesis using inv res well_known_kept [OF _ k] by (simp add: machine_inv_def set_result_def)
qed


text \<open>What every operation is to satisfy on a well-formed interner.\<close>

definition op_correct :: "hasher \<Rightarrow> interner \<Rightarrow> interner_op \<Rightarrow> bool" where
  "op_correct fx it op \<longleftrightarrow> (\<exists>it'. run_op fx it op = Some it' \<and> machine_inv fx it' \<and> step_keeps it it')"

lemma op_correctI:
  "run_op fx it op = Some it' \<Longrightarrow> machine_inv fx it' \<and> step_keeps it it' \<Longrightarrow> op_correct fx it op"
  by (simp add: op_correct_def)

lemma set_type_step:
  assumes inv: "machine_inv fx it" and ok: "op_ok it (Op_Union ms)"
  shows "op_correct fx it (Op_Union ms)" "op_correct fx it (Op_Intersection ms)"
proof -
  have i: "interner_inv fx it" "sets_inv it" "well_known_inv it" and cap: "store_len (it_store it) < 2 ^ 32"
    and ms: "\<forall>m \<in> set ms. row_in it m \<noteq> None"
    using inv ok by (auto simp: machine_inv_def list_all_iff)
  from union_total [OF i cap ms] obtain tid it' where
    "union_type fx it ms = Some (tid, it')" "set_result fx it tid it'" by blast
  then show "op_correct fx it (Op_Union ms)" using set_result_step [OF inv] by (intro op_correctI) simp_all
  from intersection_total [OF i cap ms] obtain tid it' where
    "intersection_type fx it ms = Some (tid, it')" "set_result fx it tid it'" by blast
  then show "op_correct fx it (Op_Intersection ms)" using set_result_step [OF inv] by (intro op_correctI) simp_all
qed

lemma declared_step:
  assumes inv: "machine_inv fx it" and ok: "op_ok it (Op_Declared recipe mapper)"
  shows "op_correct fx it (Op_Declared recipe mapper)"
proof -
  have i: "interner_inv fx it" "store_len (it_store it) < 2 ^ 32" using inv ok by (auto simp: machine_inv_def)
  from ok obtain e where e: "declared_recipe (it_store it) recipe = Some e" by auto
  let ?d = "\<lparr>de_recipe = recipe,
    de_mapper = dedup_by_param (sort_key fst (filter (\<lambda>(p, _). p \<in> set (dr_free_params e)) mapper))\<rparr>"
  have "\<exists>tid it'. hash_cons fx (row_key (Row_Declared ?d))
      (\<lambda>s tid. map_option (\<lambda>d. d = Some ?d) (declared_type_of s tid)) (\<lambda>s. push_declared s ?d flags_empty) it =
        Some (tid, it') \<and> hash_consed fx it (Row_Declared ?d) tid it'"
    by (rule hash_cons_plain [OF i constructor_compares(18) constructor_appends(18)]) simp_all
  then obtain tid it' where hc: "intern_declared fx it recipe mapper = Some (tid, it')"
      "hash_consed fx it (Row_Declared ?d) tid it'"
    by (auto simp: intern_declared_def e Let_def)
  then show ?thesis using hash_consed_step [OF inv hc(2)]
    by (intro op_correctI) (simp_all add: union_row_def intersection_row_def)
qed

section \<open>Reservation steps\<close>

lemma reserved_step:
  assumes inv: "machine_inv fx it" and cap: "store_len (it_store it) < 2 ^ 32"
    and app: "row_appended (it_store it) tid s' r" and r: "canonical_row r" "row_kind r = Some kind"
  shows "machine_inv fx (snd (register_reserved_type (it\<lparr>it_store := s'\<rparr>) tid kind)) \<and>
    step_keeps it (snd (register_reserved_type (it\<lparr>it_store := s'\<rparr>) tid kind))"
proof -
  let ?it = "snd (register_reserved_type (it\<lparr>it_store := s'\<rparr>) tid kind)"
  have i: "interner_inv fx it" using inv by (simp add: machine_inv_def)
  note rows = append_reserved [OF i cap app r]
  have fresh: "row_in it tid = None"
    using appended_row(2) [OF app cap] row_in_less [of it tid] by (cases "row_in it tid") auto
  have keep: "row_in ?it i = Some x" if "row_in it i = Some x" for i x using rows fresh that by (cases "i = tid") auto
  have "pending it i" if "row_in it i \<noteq> None" "pending ?it i" for i
    using that fresh by (cases "i = tid") (auto simp: pending_def reserved_type_of_def register_reserved_type_def split: option.splits)
  then have k: "step_keeps it ?it" using keep by (intro step_keepsI) (simp_all add: register_reserved_type_def)
  have none: "union_row r = None" "intersection_row r = None"
    using r(2) by (cases r; simp add: union_row_def intersection_row_def)+
  have "members_flat ?it sr" if "members_flat it sr" "sr r = None" for sr
  proof (rule members_flat_grow [OF that(1)])
    fix i x ms m assume new: "row_in ?it i = Some x" "row_in it i = None" "sr x = Some ms"
    then have "x = r" using rows by (cases "i = tid") auto
    then show "\<exists>r'. row_in it m = Some r' \<and> sr r' = None" using new(3) that(2) by simp
  qed (use keep in blast)
  then have "sets_inv ?it" using inv none by (simp add: machine_inv_def sets_inv_def)
  then show ?thesis using k rows well_known_kept [OF _ k] inv by (simp add: machine_inv_def)
qed

lemma reserve_step:
  assumes inv: "machine_inv fx it" and cap: "store_len (it_store it) < 2 ^ 32"
  shows "op_correct fx it Op_ReserveObject" "op_correct fx it Op_ReserveConditional" "op_correct fx it Op_ReserveMapped"
proof -
  have s: "store_inv (it_store it)" using inv by (simp add: machine_inv_def interner_inv_def)
  note st = reserved_step [OF inv cap] and p = push_rows [OF s cap]
  show "op_correct fx it Op_ReserveObject"
    using st [OF p(7) [of object_default flags_empty], of Reserved_Object]
    by (intro op_correctI [OF run_op.simps(5)]) (simp add: reserve_object_def case_prod_beta object_default_def)
  show "op_correct fx it Op_ReserveConditional"
    using st [OF p(13) [of "error_conditional (it_well_known it) False" flags_empty], of Reserved_Conditional]
    by (intro op_correctI [OF run_op.simps(6)]) (simp add: reserve_conditional_def case_prod_beta)
  show "op_correct fx it Op_ReserveMapped"
    using st [OF p(15) [of "error_mapped (it_well_known it)" flags_empty], of Reserved_Mapped]
    by (intro op_correctI [OF run_op.simps(7)]) (simp add: reserve_mapped_def case_prod_beta)
qed

lemma write_fills_keeps:
  "write_fills it fills = Some it' \<Longrightarrow>
     it_well_known it' = it_well_known it \<and> it_reserved_types_base it' = it_reserved_types_base it \<and>
     (\<forall>i rt. fmlookup (it_reserved_types it') i = Some rt \<longrightarrow> rt_state rt = State_Pending \<longrightarrow>
        fmlookup (it_reserved_types it) i = Some rt)"
proof (induction fills arbitrary: it)
  case (Cons f fills)
  then obtain s rt where "write_fill (it_store it) f = Some s" "fmlookup (it_reserved_types it) (fill_target f) = Some rt"
    by (auto split: bind_splits)
  with Cons show ?case by (fastforce split: if_splits)
qed simp

lemma fill_batch_keeps:
  assumes "fill_reserved_type_batch it fills = Some (err, it')"
  shows "it_well_known it' = it_well_known it" "pending it' i \<Longrightarrow> pending it i"
proof -
  consider "it' = it" | it0 where "write_fills it0 (map canonical_fill fills) = Some it'" "it_well_known it0 = it_well_known it"
      "it_reserved_types_base it0 = it_reserved_types_base it" "it_reserved_types it0 = it_reserved_types it"
    using assms by (auto simp: fill_reserved_type_batch_def Let_def split: option.splits bind_splits if_splits)
  then show "it_well_known it' = it_well_known it" "pending it' i \<Longrightarrow> pending it i"
    by (cases, simp, use write_fills_keeps in \<open>fastforce simp: pending_def reserved_type_of_def split: option.splits\<close>)+
qed

lemma fill_ready_pending:
  assumes "interner_inv fx it" "fill_ready it f"
  shows "pending it (fill_target f)" "\<exists>r. row_in it (fill_target f) = Some r \<and> row_kind r = Some (fill_kind f)"
proof -
  let ?rt = "\<lparr>rt_kind = fill_kind f, rt_state = State_Pending\<rparr>"
  have res: "reserved_inv it" and l: "fmlookup (it_reserved_types it) (fill_target f) = Some ?rt"
    using assms by (simp_all add: interner_inv_def fill_ready_def)
  then have "store_base_len (it_store it) \<le> unat (fill_target f)" by (auto simp: reserved_inv_def)
  then have "reserved_type_of it (fill_target f) = Some ?rt"
    using local_not_in_base [OF res] l by (simp add: reserved_type_of_def)
  then show "pending it (fill_target f)" "\<exists>r. row_in it (fill_target f) = Some r \<and> row_kind r = Some (fill_kind f)"
    using reserved_row_kind [OF res, of "fill_target f" ?rt] by (simp_all add: pending_def)
qed

lemma fill_batch_step:
  assumes inv: "machine_inv fx it"
  shows "\<exists>err it'. fill_reserved_type_batch it fills = Some (err, it') \<and> machine_inv fx it' \<and> step_keeps it it'"
proof -
  have i: "interner_inv fx it" using inv by (simp add: machine_inv_def)
  from fill_batch_spec [OF i, of fills] obtain err it' where run: "fill_reserved_type_batch it fills = Some (err, it')"
    and err: "err = None \<longleftrightarrow> distinct (map fill_target fills) \<and> list_all (fill_ready it) fills"
    and res: "if err = None then interner_inv fx it' \<and>
        (\<forall>i. row_in it' i =
          (case fill_at fills i of Some f \<Rightarrow> Some (fill_row (canonical_fill f)) | None \<Rightarrow> row_in it i))
      else it' = it" by (fastforce split: if_splits)
  note keeps = fill_batch_keeps [OF run]
  show ?thesis
  proof (cases "err = None")
    case False
    then show ?thesis using res inv run by (auto simp: step_keeps_def)
  next
    case True
    then have ready: "\<forall>f \<in> set fills. fill_ready it f" and inv': "interner_inv fx it'"
      and rows: "\<And>i. row_in it' i =
        (case fill_at fills i of Some f \<Rightarrow> Some (fill_row (canonical_fill f)) | None \<Rightarrow> row_in it i)"
      using err res by (auto simp: list_all_iff)
    have at: "f \<in> set fills \<and> fill_target f = i" if "fill_at fills i = Some f" for i f
      using that by (auto simp: fill_at_def find_Some_iff)
    have row: "row_in it' i = Some r \<or> pending it i \<and> row_kind r \<noteq> None \<and>
        (\<exists>r'. row_in it' i = Some r' \<and> row_kind r' = row_kind r)" if "row_in it i = Some r" for i r
    proof (cases "fill_at fills i")
      case (Some f)
      then show ?thesis using at [OF Some] ready fill_ready_pending [OF i, of f] that rows [of i]
        by (auto simp: fill_row_kind)
    qed (use rows [of i] that in simp)
    then have k: "step_keeps it it'" using keeps unfolding step_keeps_def by blast
    have "members_flat it' sr" if "members_flat it sr" and sr: "\<And>r. row_kind r \<noteq> None \<Longrightarrow> sr r = None" for sr
    proof (rule members_flat_grow [OF that(1)])
      fix i r assume "row_in it i = Some r"
      then show "\<exists>r'. row_in it' i = Some r' \<and> sr r' = sr r" using row [of i r] sr by (metis option.distinct(1))
    next
      fix i r ms m assume new: "row_in it' i = Some r" "row_in it i = None" "sr r = Some ms"
      then obtain f where "fill_at fills i = Some f" using rows [of i] by (cases "fill_at fills i") auto
      with new rows [of i] have "row_kind r \<noteq> None" using fill_row_kind [of "canonical_fill f"] by auto
      then show "\<exists>r'. row_in it m = Some r' \<and> sr r' = None" using sr new(3) by simp
    qed
    moreover have "row_kind r \<noteq> None \<Longrightarrow> union_row r = None" "row_kind r \<noteq> None \<Longrightarrow> intersection_row r = None" for r
      by (cases r; simp add: union_row_def intersection_row_def)+
    ultimately have "sets_inv it'" using inv by (simp add: machine_inv_def sets_inv_def)
    then show ?thesis using run k inv' inv well_known_kept [OF _ k] by (auto simp: machine_inv_def)
  qed
qed

lemma fill_step:
  assumes "machine_inv fx it"
  shows "op_correct fx it (Op_Fill fills)" "op_correct fx it (Op_AbandonObject tid)"
    "op_correct fx it (Op_PoisonConditional tid)" "op_correct fx it (Op_PoisonMapped tid)"
  using fill_batch_step [OF assms]
  by (fastforce simp: op_correct_def abandon_reserved_object_def poison_reserved_conditional_def
      poison_reserved_mapped_def)+


lemma promote_keeps:
  assumes "promote_caller_certified_acyclic_reserved_object fx it tid = Some (res, it')"
  shows "it_well_known it' = it_well_known it" "it_store it' = it_store it" "pending it' i \<Longrightarrow> pending it i"
    "it' = it \<or> contains_reserved_type it tid"
proof -
  have "it' = it \<or> it_well_known it' = it_well_known it \<and> it_store it' = it_store it \<and>
      it_reserved_types it' = fmdrop tid (it_reserved_types it) \<and>
      it_reserved_types_base it' = it_reserved_types_base it \<and> tid |\<in>| fmdom (it_reserved_types it)"
    using assms by (auto simp: promote_caller_certified_acyclic_reserved_object_def Let_def fmdom_lookup
        split: if_splits option.splits bind_splits)
  then show "it_well_known it' = it_well_known it" "it_store it' = it_store it" "pending it' i \<Longrightarrow> pending it i"
      "it' = it \<or> contains_reserved_type it tid"
    by (auto simp: pending_def reserved_type_of_def contains_reserved_type_def split: option.splits if_splits)
qed

lemma promote_total:
  assumes inv: "interner_inv fx it"
  shows "\<exists>res it'. promote_caller_certified_acyclic_reserved_object fx it tid = Some (res, it') \<and> interner_inv fx it'"
proof (cases "fmlookup (it_reserved_types_base it) tid = None \<and>
    fmlookup (it_reserved_types it) tid = Some \<lparr>rt_kind = Reserved_Object, rt_state = State_Frozen\<rparr>")
  case True
  then show ?thesis using promote_accepted [OF inv] by blast
next
  case False
  have "rt = \<lparr>rt_kind = Reserved_Object, rt_state = State_Frozen\<rparr>"
    if "rt_kind rt = Reserved_Object" "rt_state rt = State_Frozen" for rt :: reserved_type
    using that by simp
  then show ?thesis using False inv
    by (auto simp: promote_caller_certified_acyclic_reserved_object_def reserved_type_of_def fmdom_lookup
        split: option.splits)
qed

lemma promote_step:
  assumes inv: "machine_inv fx it"
  shows "op_correct fx it (Op_Promote tid)"
proof -
  have i: "interner_inv fx it" using inv by (simp add: machine_inv_def)
  from promote_total [OF i] obtain res it' where
    p: "promote_caller_certified_acyclic_reserved_object fx it tid = Some (res, it')" "interner_inv fx it'" by blast
  note keeps = promote_keeps [OF p(1)]
  have rows: "row_in it' = row_in it" using keeps(2) by (simp add: row_in_def fun_eq_iff)
  have k: "step_keeps it it'" using keeps rows by (intro step_keepsI) auto
  have "machine_inv fx it'"
    using inv p(2) sets_inv_cong [OF _ rows] well_known_kept [OF _ k] by (simp add: machine_inv_def)
  then show ?thesis using p(1) k by (intro op_correctI) simp_all
qed

section \<open>Side columns and caches\<close>

text \<open>An update of the store that keeps the rows.\<close>

lemma store_side_step:
  assumes inv: "machine_inv fx it" and "store_inv s" "store_rows s = store_rows (it_store it)"
    "store_base_len s = store_base_len (it_store it)"
  shows "machine_inv fx (it\<lparr>it_store := s\<rparr>) \<and> step_keeps it (it\<lparr>it_store := s\<rparr>)"
  using assms by (intro same_store_step [OF inv]) simp_all

lemma side_step:
  assumes inv: "machine_inv fx it"
  shows "op_correct fx it (Op_SetConstraint p c)" "op_correct fx it (Op_RemoveConstraint p)"
    "op_correct fx it (Op_FreezeParams ids)" "op_correct fx it (Op_SetTemplateName tid name)"
proof -
  have s: "store_inv (it_store it)" using inv by (simp add: machine_inv_def interner_inv_def)
  have step: "machine_inv fx (it\<lparr>it_store := s\<rparr>) \<and> step_keeps it (it\<lparr>it_store := s\<rparr>)"
    if "store_inv s" "store_rows s = store_rows (it_store it)" "st_tag s = st_tag (it_store it)" for s
    by (rule store_side_step [OF inv that(1,2)]) (simp add: that store_base_len_def)
  obtain ok s where "set_type_param_constraint (it_store it) p c = (ok, s)" "store_inv s"
      "store_rows s = store_rows (it_store it)" "st_tag s = st_tag (it_store it)"
    using set_constraint_spec [OF s, of p c] by blast
  then show "op_correct fx it (Op_SetConstraint p c)" using step
    by (intro op_correctI [OF run_op.simps(13)]) (simp add: interner_set_type_param_constraint_def)
  obtain ok s where "remove_type_param_constraint (it_store it) p = (ok, s)" "store_inv s"
      "store_rows s = store_rows (it_store it)" "st_tag s = st_tag (it_store it)"
    using remove_constraint_spec [OF s, of p] by blast
  then show "op_correct fx it (Op_RemoveConstraint p)" using step
    by (intro op_correctI [OF run_op.simps(14)]) (simp add: interner_remove_type_param_constraint_def)
  obtain err s where "freeze_type_param_metadata (it_store it) ids = (err, s)" "store_inv s"
      "store_rows s = store_rows (it_store it)" "st_tag s = st_tag (it_store it)"
    using freeze_metadata_spec [OF s, of ids] by blast
  then show "op_correct fx it (Op_FreezeParams ids)" using step
    by (intro op_correctI [OF run_op.simps(15)]) (simp add: interner_freeze_type_param_metadata_def)
  show "op_correct fx it (Op_SetTemplateName tid name)"
    using set_template_name_keeps [OF s] step inv
    by (intro op_correctI [OF run_op.simps(16)]) (simp add: interner_set_template_name_def split: option.split)
qed

lemma cache_step:
  assumes inv: "machine_inv fx it"
  shows "op_correct fx it (Op_FreeParamSummary ty)" "op_correct fx it (Op_PublishSummaries xs)"
    "op_correct fx it (Op_ApplicationKeyMode ty)" "op_correct fx it (Op_PublishKeyModes ys)"
    "op_correct fx it (Op_DeferredKeyof ty)" "op_correct fx it (Op_PublishDeferredKeyof ty b)"
    "op_correct fx it (Op_CleanApplication key)" "op_correct fx it (Op_PublishCleanApplication key ty)"
    "op_correct fx it (Op_InternDerivation n ty i cs)" "op_correct fx it (Op_CompleteDerivation d ty i cs)"
    "op_correct fx it Op_BeginQuery" "op_correct fx it Op_EndQuery"
proof -
  have s: "store_inv (it_store it)" using inv by (simp add: machine_inv_def interner_inv_def)
  show "op_correct fx it (Op_FreeParamSummary ty)" "op_correct fx it (Op_PublishSummaries xs)"
    "op_correct fx it (Op_ApplicationKeyMode ty)" "op_correct fx it (Op_PublishKeyModes ys)"
    "op_correct fx it (Op_DeferredKeyof ty)" "op_correct fx it (Op_PublishDeferredKeyof ty b)"
    "op_correct fx it (Op_CleanApplication key)" "op_correct fx it (Op_PublishCleanApplication key ty)"
    "op_correct fx it Op_BeginQuery" "op_correct fx it Op_EndQuery"
    by (rule op_correctI, rule run_op.simps, rule same_store_step [OF inv]; simp add: s free_param_summary_def publish_free_param_summaries_def application_key_mode_of_def
        publish_application_key_modes_def deferred_keyof_result_def publish_deferred_keyof_result_def
        clean_application_result_def publish_clean_application_result_def begin_occurrence_query_def
        end_occurrence_query_def Let_def)+
  show "op_correct fx it (Op_InternDerivation n ty i cs)" "op_correct fx it (Op_CompleteDerivation d ty i cs)"
    by (rule op_correctI, rule run_op.simps, rule same_store_step [OF inv]; simp add: s intern_derivation_def complete_derivation_def Let_def case_prod_beta)+
qed

section \<open>Sealing and forking steps\<close>

lemma align_step:
  assumes inv: "machine_inv fx it"
  shows "machine_inv fx (interner_align it) \<and> step_keeps it (interner_align it)"
proof -
  have s: "store_inv (it_store it)" using inv by (simp add: machine_inv_def interner_inv_def)
  show ?thesis by (rule same_store_step [OF inv]) (simp_all add: s interner_align_def Let_def)
qed

lemma freeze_step:
  assumes inv: "machine_inv fx it"
  shows "op_correct fx it Op_Freeze"
proof -
  have i: "interner_inv fx it" using inv by (simp add: machine_inv_def)
  have step: "machine_inv fx it' \<and> step_keeps it it' \<Longrightarrow> snd (interner_freeze_as_base it) = it' \<Longrightarrow>
      op_correct fx it Op_Freeze" for it' by (rule op_correctI) simp_all
  have st: "it_store (interner_align it) = it_store it" by (simp add: interner_align_def Let_def)
  let ?sealed = "it_dedup_base it \<noteq> fmempty \<or> it_reserved_types_base it \<noteq> fmempty \<or> it_declared_recipe_base it \<noteq> fmempty"
  let ?open = "fmpred (\<lambda>_ reserved. rt_state reserved \<noteq> State_Pending) (it_reserved_types it)"
  show ?thesis
  proof (cases "\<exists>s. \<not> ?sealed \<and> ?open \<and> store_freeze_as_base (it_store it) = Inr s")
    case False
    then have "snd (interner_freeze_as_base it) = it \<or> snd (interner_freeze_as_base it) = interner_align it"
      unfolding interner_freeze_as_base_def
      by (cases "?sealed"; cases "?open"; cases "store_freeze_as_base (it_store it)") (simp_all add: Let_def st)
    then show ?thesis using step inv align_step [OF inv] by auto
  next
    case True
    then obtain s where frozen: "it_dedup_base it = fmempty" "it_reserved_types_base it = fmempty"
        "it_declared_recipe_base it = fmempty" "?open" "store_freeze_as_base (it_store it) = Inr s" by blast
    have "\<not> lv_sealed (st_tag (it_store it))"
      using frozen(5) store_freeze_refused i by (fastforce simp: interner_inv_def)
    moreover have "rt_state rt = State_Frozen" if "fmlookup (it_reserved_types it) tid = Some rt" for tid rt
      using frozen(4) that by (cases "rt_state rt") (auto dest: fmpredD)
    ultimately obtain b where b: "interner_freeze_as_base it = (None, b)" "interner_inv fx b"
        "store_rows (it_store b) = store_rows (it_store it)" "it_well_known b = it_well_known it"
        "\<And>tid. reserved_type_of b tid = reserved_type_of it tid"
      using interner_freeze_spec [OF i _ frozen(1-3)] by blast
    have "machine_inv fx b \<and> step_keeps it b"
      using b by (intro same_rows_step [OF inv]) (auto simp: row_in_def)
    then show ?thesis using step b(1) by simp
  qed
qed

lemma fork_step:
  assumes inv: "machine_inv fx it"
  shows "op_correct fx it Op_Fork"
proof (cases "interner_fork_delta it")
  case (Inl e)
  then show ?thesis using inv by (intro op_correctI [OF run_op.simps(30)]) simp
next
  case (Inr d)
  have "interner_inv fx it" using inv by (simp add: machine_inv_def)
  note d = interner_fork_spec [OF this Inr]
  have "machine_inv fx d \<and> step_keeps it d"
    using d by (intro same_rows_step [OF inv]) (auto simp: row_in_def)
  then show ?thesis using Inr by (intro op_correctI) simp_all
qed

lemma op_step:
  assumes "machine_inv fx it" "op_ok it op"
  shows "op_correct fx it op"
  using assms intern_step [of fx it] set_type_step [of fx it] declared_step [of fx it] reserve_step [of fx it]
    fill_step [of fx it] promote_step [of fx it] side_step [of fx it] cache_step [of fx it] freeze_step [of fx it]
    fork_step [of fx it]
  by (cases op) (simp_all add: op_correct_def del: run_op.simps)


section \<open>Reachable interners\<close>

inductive interner_step :: "hasher \<Rightarrow> interner \<Rightarrow> interner \<Rightarrow> bool" for fx where
  step: "op_ok it op \<Longrightarrow> run_op fx it op = Some it' \<Longrightarrow> interner_step fx it it'"

inductive reachable :: "hasher \<Rightarrow> interner \<Rightarrow> bool" for fx where
  start: "with_intrinsics fx = Some it \<Longrightarrow> reachable fx it"
| continue: "reachable fx it \<Longrightarrow> interner_step fx it it' \<Longrightarrow> reachable fx it'"

inductive_cases interner_stepE: "interner_step fx it it'"

inductive_simps interner_step_iff: "interner_step fx it it'"

lemma with_intrinsics_inv:
  assumes "with_intrinsics fx = Some it"
  shows "machine_inv fx it" "well_known_of (it_well_known it) k = intrinsic_code k"
    "store_rows (it_store it) = map Row_Intrinsic intrinsic_all"
    "it_reserved_types it = fmempty" "it_reserved_types_base it = fmempty"
proof -
  from with_intrinsics_spec [of fx] assms have it: "interner_inv fx it"
    "store_rows (it_store it) = map Row_Intrinsic intrinsic_all"
    "\<And>k. well_known_of (it_well_known it) k = intrinsic_code k"
    "it_reserved_types it = fmempty" "it_reserved_types_base it = fmempty" by (metis option.inject)+
  then show "well_known_of (it_well_known it) k = intrinsic_code k"
    "store_rows (it_store it) = map Row_Intrinsic intrinsic_all"
    "it_reserved_types it = fmempty" "it_reserved_types_base it = fmempty" by blast+
  have intr: "\<exists>k. r = Row_Intrinsic k" if "row_in it i = Some r" for i r
    using that it(2) by (auto simp: row_in_def nth_opt_def split: if_splits)
  then have "sets_inv it" unfolding sets_inv_def members_flat_def union_row_def intersection_row_def by fastforce
  moreover have "row_in it (well_known_of (it_well_known it) k) = Some (Row_Intrinsic k)" for k
    unfolding it(3) by (cases k) (simp_all add: row_in_def it(2) intrinsic_all_def nth_opt_def)
  ultimately show "machine_inv fx it" using it(1) by (simp add: machine_inv_def well_known_inv_def)
qed

lemma step_spec:
  assumes "machine_inv fx it" "interner_step fx it it'"
  shows "machine_inv fx it' \<and> step_keeps it it'"
proof -
  from assms(2) obtain op where "op_ok it op" "run_op fx it op = Some it'" by (auto elim: interner_stepE)
  then show ?thesis using op_step [OF assms(1), of op] by (auto simp: op_correct_def)
qed

lemma reachable_inv: "reachable fx it \<Longrightarrow> machine_inv fx it"
  by (induction rule: reachable.induct) (auto dest: with_intrinsics_inv(1) step_spec)

lemma reachable_well_known: "reachable fx it \<Longrightarrow> well_known_of (it_well_known it) k = intrinsic_code k"
proof (induction rule: reachable.induct)
  case (continue it it')
  then show ?case using step_spec [OF reachable_inv] by (auto simp: step_keeps_def)
qed (rule with_intrinsics_inv(2))

text \<open>A row that is not a pending reservation never changes again.\<close>

lemma settled_stable:
  assumes "(interner_step fx)\<^sup>*\<^sup>* it it'" "reachable fx it" "row_in it i = Some r" "\<not> pending it i"
  shows "reachable fx it' \<and> row_in it' i = Some r \<and> \<not> pending it' i"
  using assms(1)
proof (induction rule: rtranclp_induct)
  case (step x y)
  then have "step_keeps x y" using step_spec reachable_inv by blast
  then show ?case using step reachable.continue by (auto simp: step_keeps_def)
qed (use assms in blast)

text \<open>Of every row ever handed out: it exists and keeps its kind of type.\<close>

lemma row_kind_tag: "row_kind r \<noteq> None \<Longrightarrow> row_kind r' = row_kind r \<Longrightarrow> row_tag r' = row_tag r"
  by (cases r; cases r') auto

lemma tag_stable:
  assumes "(interner_step fx)\<^sup>*\<^sup>* it it'" "reachable fx it" "row_in it i = Some r"
  shows "\<exists>r'. row_in it' i = Some r' \<and> row_tag r' = row_tag r"
proof -
  have "reachable fx it' \<and> (\<exists>r'. row_in it' i = Some r' \<and> row_tag r' = row_tag r)"
    using assms(1)
  proof (induction rule: rtranclp_induct)
    case (step x y)
    then have "step_keeps x y" "reachable fx y" using step_spec reachable_inv reachable.continue by blast+
    then show ?case using step row_kind_tag unfolding step_keeps_def by metis
  qed (use assms in blast)
  then show ?thesis by blast
qed

lemma index_complete:
  assumes "index_inv fx it" "row_in it tid = Some r" "\<not> contains_reserved_type it tid"
  shows "tid \<in> set (indexed it (structural_hash fx (row_key r)))"
proof -
  have "\<forall>hash tid. tid \<in> set (indexed it hash) \<longleftrightarrow> \<not> contains_reserved_type it tid \<and>
      (\<exists>r. row_in it tid = Some r \<and> structural_hash fx (row_key r) = hash)"
    using assms(1) unfolding index_inv_def by (elim conjE)
  then show ?thesis using assms(2,3) by simp
qed

lemma index_unique:
  assumes "index_inv fx it" "a \<in> set (indexed it hash)" "b \<in> set (indexed it hash)"
    "row_in it a = Some r" "row_in it b = Some r'" "row_matches r r'"
  shows "a = b"
proof -
  have "\<forall>hash a b r r'. a \<in> set (indexed it hash) \<longrightarrow> b \<in> set (indexed it hash) \<longrightarrow>
      row_in it a = Some r \<longrightarrow> row_in it b = Some r' \<longrightarrow> row_matches r r' \<longrightarrow> a = b"
    using assms(1) unfolding index_inv_def by (elim conjE)
  then show ?thesis using assms(2-) by blast
qed

text \<open>
  Two structural rows with the same key are one row, so comparing ids compares structure.
\<close>

lemma same_key_same_id:
  assumes inv: "interner_inv fx it" and a: "row_in it a = Some r" and b: "row_in it b = Some r'"
    and res: "\<not> contains_reserved_type it a" "\<not> contains_reserved_type it b"
    and key: "row_key r = row_key r'" "\<not> row_is_nan r'"
  shows "a = b"
proof -
  have i: "index_inv fx it" using inv by (simp add: interner_inv_def)
  have m: "row_matches r r'" using same_key_matches [OF key(1)] key(2) by blast
  show ?thesis
    using index_unique [OF i index_complete [OF i a res(1)] _ a b m] index_complete [OF i b res(2)] key(1) by simp
qed

end
