(* ===== verification/Interner_Properties.thy ===== *)
theory Interner_Properties
  imports Interner_Machine "HOL-Library.Multiset"
begin

text \<open>
  The properties of the interner (\<^verbatim>\<open>types/intern\<close>): safety, canonicity and stability of ids over all reachable
  interners, the canonical unions and intersections, the atomic publication of recursive types,
  promotion, sealing and forking. Every witness runs on the interner \<open>with_intrinsics\<close> builds under a
  constant hasher, where all keys collide.
\<close>

section \<open>Reachable interners\<close>

text \<open>The interner the witnesses start from: the constant hasher makes every lookup collide.\<close>

definition initial :: "interner" where
  "initial = the (with_intrinsics (\<lambda>_. 0))"

lemma initial_start: "with_intrinsics (\<lambda>_. 0) = Some initial"
  by (rule with_intrinsics_spec [of "\<lambda>_. 0"]) (simp add: initial_def)

lemmas initial_facts = with_intrinsics_inv [OF initial_start]

lemma initial_reachable: "reachable (\<lambda>_. 0) initial"
  by (rule reachable.start [OF initial_start])

lemma initial_inv: "interner_inv (\<lambda>_. 0) initial" "sets_inv initial" "well_known_inv initial"
  using initial_facts(1) by (simp_all add: machine_inv_def)

lemma initial_len: "store_len (it_store initial) = 19"
proof -
  have "length (store_rows (it_store initial)) = 19" by (simp add: initial_facts(3) intrinsic_all_def)
  then show ?thesis by (simp add: store_rows_def)
qed

lemma initial_row: "row_in initial (intrinsic_code k) = Some (Row_Intrinsic k)"
  using initial_inv(3) by (simp add: well_known_inv_def initial_facts(2))

lemma initial_not_reserved: "\<not> contains_reserved_type initial tid"
  by (simp add: contains_reserved_type_def initial_facts(4,5))

text \<open>
  C1: no sequence of operations panics. Building the interner returns, and on every interner reached
  from it each operation whose operands were issued before, with room for one more row, returns
  again a reachable interner.
\<close>

theorem interner_never_panics:
  "(\<exists>it. with_intrinsics fx = Some it \<and> reachable fx it) \<and>
   (\<forall>it op. reachable fx it \<and> op_ok it op \<longrightarrow> (\<exists>it'. run_op fx it op = Some it' \<and> reachable fx it'))"
proof (intro conjI allI impI)
  show "\<exists>it. with_intrinsics fx = Some it \<and> reachable fx it"
    by (rule with_intrinsics_spec [of fx]) (blast intro: reachable.start)
next
  fix it op assume a: "reachable fx it \<and> op_ok it op"
  then obtain it' where it': "run_op fx it op = Some it'"
    using op_step [OF reachable_inv, of fx it op] by (auto simp: op_correct_def)
  then show "\<exists>it'. run_op fx it op = Some it' \<and> reachable fx it'"
    using a by (blast intro: reachable.continue interner_step.step)
qed

theorem interner_never_panics_witness:
  "\<exists>it'. run_op (\<lambda>_. 0) initial (Op_Union [intrinsic_code Kind_String, intrinsic_code Kind_Number]) = Some it' \<and>
    reachable (\<lambda>_. 0) it'"
proof -
  have "op_ok initial (Op_Union [intrinsic_code Kind_String, intrinsic_code Kind_Number])"
    by (simp add: initial_len initial_row del: intrinsic_code.simps)
  then show ?thesis using interner_never_panics [of "\<lambda>_. 0"] initial_reachable by blast
qed

text \<open>
  C2: the invariant of the interner holds in every reachable state: the columns of the arena agree
  and every row decodes, the index lists exactly the structural rows under the hash of their key
  and no two of a bucket match, reservations have rows of their kind, properties, arguments and
  members are sorted, the members of a union or intersection exist and are not nested, and the
  well-known ids are the rows of their intrinsics.
\<close>

theorem reachable_invariant:
  assumes "reachable fx it"
  shows "interner_inv fx it \<and> sets_inv it \<and> well_known_inv it"
  using reachable_inv [OF assms] by (simp add: machine_inv_def)

theorem reachable_invariant_witness:
  "interner_inv (\<lambda>_. 0) initial \<and> sets_inv initial \<and> well_known_inv initial"
  by (rule reachable_invariant [OF initial_reachable])

text \<open>
  C3: ids are canonical: in every reachable interner, two types outside the reservations have the
  same id exactly when they have the same structural key, literals that are NaN excepted.
\<close>

theorem same_id_iff_same_key:
  assumes "reachable fx it" "row_in it a = Some r" "row_in it b = Some r'"
    "\<not> contains_reserved_type it a" "\<not> contains_reserved_type it b" "\<not> row_is_nan r'"
  shows "a = b \<longleftrightarrow> row_key r = row_key r'"
  using same_key_same_id [of fx it a r b r'] assms reachable_inv by (auto simp: machine_inv_def)

theorem same_id_iff_same_key_witness:
  "intrinsic_code Kind_Any = intrinsic_code Kind_String \<longleftrightarrow>
    row_key (Row_Intrinsic Kind_Any) = row_key (Row_Intrinsic Kind_String)"
  by (rule same_id_iff_same_key [OF initial_reachable initial_row initial_row initial_not_reserved
      initial_not_reserved]) (simp add: row_is_nan_def)

text \<open>
  C4: a type never changes under an id: a row that is not a pending reservation is the same in every
  later interner, across interning, publication, sealing and forking.
\<close>

theorem settled_rows_stable:
  assumes "reachable fx it" "(interner_step fx)\<^sup>*\<^sup>* it it'" "row_in it tid = Some r" "\<not> pending it tid"
  shows "row_in it' tid = Some r \<and> \<not> pending it' tid"
  using settled_stable [OF assms(2,1,3,4)] by blast

theorem settled_rows_stable_witness:
  "\<exists>it'. interner_step (\<lambda>_. 0) initial it' \<and> row_in it' (intrinsic_code Kind_Any) = Some (Row_Intrinsic Kind_Any)"
proof -
  have ok: "op_ok initial Op_ReserveObject" by (simp add: initial_len)
  have step: "interner_step (\<lambda>_. 0) initial (snd (reserve_object initial))"
    by (rule interner_step.step [OF ok]) simp
  have "\<not> pending initial (intrinsic_code Kind_Any)"
    by (simp add: pending_def reserved_type_of_def initial_facts(4,5))
  from settled_rows_stable [OF initial_reachable _ initial_row this, of "snd (reserve_object initial)"] step
  show ?thesis by (blast intro: r_into_rtranclp)
qed

text \<open>
  C5: interning a described type returns, the result is a row with the requested canonical form
  (found, or appended as the next id), every row issued before stays, and the index stays exact.
\<close>

theorem intern_correct:
  assumes "reachable fx it" "store_len (it_store it) < 2 ^ 32"
  shows "\<exists>tid it'. run_request fx it req = Some (tid, it') \<and> hash_consed fx it (request_row req) tid it' \<and>
    (\<forall>i r. row_in it i = Some r \<longrightarrow> row_in it' i = Some r) \<and> \<not> contains_reserved_type it' tid"
proof -
  have inv: "interner_inv fx it" using reachable_inv [OF assms(1)] by (simp add: machine_inv_def)
  from request_interned [OF inv assms(2)] obtain tid it' where
    r: "run_request fx it req = Some (tid, it')" "hash_consed fx it (request_row req) tid it'" by blast
  have "\<not> contains_reserved_type it' tid"
    using r(2) by (auto simp: hash_consed_def interner_inv_def index_inv_def)
  then show ?thesis using r hash_consed_keeps [OF r(2)] by blast
qed

theorem intern_correct_witness:
  "\<exists>tid it'. intern_array (\<lambda>_. 0) initial (intrinsic_code Kind_String) = Some (tid, it') \<and>
    hash_consed (\<lambda>_. 0) initial (Row_Array (intrinsic_code Kind_String)) tid it'"
  using intern_correct [OF initial_reachable, of "Req_Array (intrinsic_code Kind_String)"]
  by (auto simp: initial_len simp del: intrinsic_code.simps)

text \<open>
  Interning the same description again returns the same id and leaves the interner as it is,
  unless it is a NaN literal.
\<close>

theorem intern_idempotent:
  assumes "reachable fx it" "store_len (it_store it) < 2 ^ 32" "run_request fx it req = Some (tid, it')"
    "\<not> row_is_nan (request_row req)"
  shows "run_request fx it' req = Some (tid, it')"
proof -
  have "interner_inv fx it" using reachable_inv [OF assms(1)] by (simp add: machine_inv_def)
  from request_interned [OF this assms(2), of req] assms(3) have "hash_consed fx it (request_row req) tid it'" by auto
  from request_again [OF this assms(4)] show ?thesis .
qed

theorem intern_idempotent_witness:
  "\<exists>tid it'. intern_literal (\<lambda>_. 0) initial (Lit_String ''a'') = Some (tid, it') \<and>
    intern_literal (\<lambda>_. 0) it' (Lit_String ''a'') = Some (tid, it')"
proof -
  have cap: "store_len (it_store initial) < 2 ^ 32" by (simp add: initial_len)
  have plain: "\<not> row_is_nan (request_row (Req_Literal (Lit_String ''a'')))" by (simp add: row_is_nan_def literal_is_nan_def)
  from request_interned [OF initial_inv(1) cap, of "Req_Literal (Lit_String ''a'')"] obtain tid it' where
    r: "run_request (\<lambda>_. 0) initial (Req_Literal (Lit_String ''a'')) = Some (tid, it')" by blast
  with intern_idempotent [OF initial_reachable cap r plain] show ?thesis by auto
qed

text \<open>
  C35: a NaN literal is never shared: every request for one appends a new row, so the same literal
  asked for twice has two ids.
\<close>

theorem nan_literal_not_shared:
  assumes "reachable fx it" "store_len (it_store it) < 2 ^ 32" "f64_is_nan n"
  shows "\<exists>tid it'. intern_literal fx it (Lit_Number n) = Some (tid, it') \<and> row_in it tid = None \<and>
    row_in it' tid = Some (Row_Literal (Lit_Number n))"
proof -
  have inv: "interner_inv fx it" using reachable_inv [OF assms(1)] by (simp add: machine_inv_def)
  from request_interned [OF inv assms(2), of "Req_Literal (Lit_Number n)"] obtain tid it' where
    r: "intern_literal fx it (Lit_Number n) = Some (tid, it')"
      "hash_consed fx it (Row_Literal (Lit_Number n)) tid it'" by auto
  from r(2) show ?thesis
  proof (cases rule: hash_consed_rows)
    case (found r')
    then show ?thesis using assms(3) by (cases r') (auto simp: row_matches_def f64_eq_def elim: literal_eq.elims)
  next
    case (added r')
    have "row_in it tid = None"
      using added(2) assms(2) by (cases "row_in it tid") (auto dest: row_in_less simp: unat_of_nat take_bit_nat_eq_self_iff)
    moreover have "r' = Row_Literal (Lit_Number n)" using added(3) row_key_literal by auto
    ultimately show ?thesis using r(1) added(4) by blast
  qed
qed

theorem nan_literal_not_shared_witness:
  "\<exists>tid it'. intern_literal (\<lambda>_. 0) initial (Lit_Number 0x7FF8000000000000) = Some (tid, it') \<and> row_in initial tid = None"
proof -
  have "store_len (it_store initial) < 2 ^ 32" by (simp add: initial_len)
  moreover have "f64_is_nan 0x7FF8000000000000" by code_simp
  ultimately show ?thesis using nan_literal_not_shared [OF initial_reachable] by blast
qed

text \<open>
  the well-known ids are fixed: in every reachable interner the id of an intrinsic is its
  position in \<open>IntrinsicKind::ALL\<close>, and the row there is that intrinsic.
\<close>

theorem well_known_ids_fixed:
  assumes "reachable fx it"
  shows "well_known_of (it_well_known it) k = intrinsic_code k \<and> row_in it (intrinsic_code k) = Some (Row_Intrinsic k)"
  using reachable_well_known [OF assms, of k] reachable_inv [OF assms]
  by (auto simp: machine_inv_def well_known_inv_def simp del: intrinsic_code.simps dest: spec [of _ k])

theorem well_known_ids_fixed_witness:
  "wk_never (it_well_known initial) = 3 \<and> row_in initial 3 = Some (Row_Intrinsic Kind_Never)"
  using well_known_ids_fixed [OF initial_reachable, of Kind_Never] by simp

lemma sort_key_same:
  assumes "mset xs = mset ys" "distinct (map f xs)"
  shows "sort_key f xs = sort_key f ys"
  using sort_key_inj_key_eq [of xs "sort_key f ys" f] assms by (simp add: distinct_map)

text \<open>
  the order in which the properties of an object type, or the arguments of an instantiation, are
  listed does not matter: two listings of the same distinct entries are interned identically.
\<close>

theorem listing_order_irrelevant:
  assumes "mset ps = mset qs" "distinct (map pr_key ps)" "mset as = mset bs" "distinct (map fst as)"
  shows "intern_object fx it (ob\<lparr>ob_properties := ps\<rparr>) = intern_object fx it (ob\<lparr>ob_properties := qs\<rparr>) \<and>
    intern_instantiation fx it base as = intern_instantiation fx it base bs"
  using sort_key_same [OF assms(1,2)] sort_key_same [OF assms(3,4)]
  by (simp add: intern_object_def intern_instantiation_def sort_properties_def)

theorem listing_order_irrelevant_witness:
  "intern_instantiation (\<lambda>_. 0) initial 1 [(2, 5), (1, 7)] = intern_instantiation (\<lambda>_. 0) initial 1 [(1, 7), (2, 5)]"
  using listing_order_irrelevant [of "[]" "[]" "[(2, 5), (1, 7)]" "[(1, 7), (2, 5)]"] by auto

section \<open>Unions and intersections\<close>

text \<open>
  C6: a union depends on nothing but the set of its flattened members: order, repetition and
  nesting of the operands do not matter, and the flattening loop returns.
\<close>

theorem union_canonical:
  assumes "interner_inv fx it" "sets_inv it"
    "\<forall>m \<in> set xs. row_in it m \<noteq> None" "\<forall>m \<in> set ys. row_in it m \<noteq> None"
    "(\<Union>m \<in> set xs. union_expand it m) = (\<Union>m \<in> set ys. union_expand it m)"
  shows "union_type fx it xs = union_type fx it ys"
  using assms by (simp add: union_refines_set)

lemma initial_wk: "wk_any (it_well_known initial) = 1" "wk_error (it_well_known initial) = 0"
    "wk_unknown (it_well_known initial) = 2" "wk_never (it_well_known initial) = 3"
  using initial_facts(2) [of Kind_Any] initial_facts(2) [of Kind_Error] initial_facts(2) [of Kind_Unknown]
    initial_facts(2) [of Kind_Never] by simp_all

lemma initial_valid: "\<forall>m \<in> set (map intrinsic_code ks). row_in initial m \<noteq> None"
  by (simp add: initial_row)

lemma initial_expand: "union_expand initial (intrinsic_code k) = {intrinsic_code k}"
    "intersection_expand initial (intrinsic_code k) = {intrinsic_code k}"
  by (simp_all add: expand_def set_accessors [OF initial_inv(1)] initial_row union_row_def intersection_row_def)

theorem union_canonical_witness:
  "union_type (\<lambda>_. 0) initial (map intrinsic_code [Kind_String, Kind_Number, Kind_String]) =
    union_type (\<lambda>_. 0) initial (map intrinsic_code [Kind_Number, Kind_String])"
proof -
  have "(\<Union>m \<in> set (map intrinsic_code [Kind_String, Kind_Number, Kind_String]). union_expand initial m) =
      (\<Union>m \<in> set (map intrinsic_code [Kind_Number, Kind_String]). union_expand initial m)" by auto
  from union_canonical [OF initial_inv(1,2) initial_valid initial_valid this] show ?thesis .
qed

text \<open>
  C7: a union stands for exactly its flattened members: any and error absorb everything, unknown
  absorbs what is left, and otherwise the members of the result are the flattened operands without
  never; rows issued before stay.
\<close>

theorem union_denotes_members:
  assumes "interner_inv fx it" "sets_inv it" "well_known_inv it" "store_len (it_store it) < 2 ^ 32"
    "\<forall>m \<in> set members. row_in it m \<noteq> None"
  shows "\<exists>tid it'. union_type fx it members = Some (tid, it') \<and> set_result fx it tid it' \<and>
    (let ms = \<Union>m \<in> set members. union_expand it m; wk = it_well_known it
     in if wk_any wk \<in> ms \<or> wk_error wk \<in> ms then tid = wk_any wk
        else if wk_unknown wk \<in> ms then tid = wk_unknown wk
        else union_set it' tid = ms - {wk_never wk})"
  using union_total [OF assms] by (simp add: Let_def)

lemma initial_cap: "store_len (it_store initial) < 2 ^ 32"
  by (simp add: initial_len)

theorem union_denotes_members_witness:
  "\<exists>tid it'. union_type (\<lambda>_. 0) initial (map intrinsic_code [Kind_Never, Kind_Number, Kind_String]) = Some (tid, it') \<and>
    union_set it' tid = {intrinsic_code Kind_Number, intrinsic_code Kind_String}"
proof -
  have "(\<Union>m \<in> set (map intrinsic_code [Kind_Never, Kind_Number, Kind_String]). union_expand initial m) =
      {intrinsic_code Kind_Never, intrinsic_code Kind_Number, intrinsic_code Kind_String}"
    by (auto simp: initial_expand simp del: intrinsic_code.simps)
  then have s: "(\<Union>m \<in> set (map intrinsic_code [Kind_Never, Kind_Number, Kind_String]). union_expand initial m) = {3, 8, 9}"
    by simp
  have "{3, 8, 9} - {3} = {8, 9 :: type_id}" by auto
  then show ?thesis
    using union_denotes_members [OF initial_inv initial_cap initial_valid [of "[Kind_Never, Kind_Number, Kind_String]"]]
    unfolding s Let_def initial_wk by auto
qed

text \<open>
  C12: the disjointness scan of an intersection returns, and it equals its reference definition:
  some two members have only disjoint pairs of expanded members. Skipping the members without a
  domain is only an optimisation.
\<close>

theorem disjoint_scan_correct:
  assumes "interner_inv fx it" "sets_inv it" "\<forall>m \<in> set ms. row_in it m \<noteq> None"
  shows "has_definitely_disjoint_members (it_store it) ms = Some (some_pair_disjoint it ms)"
  using assms by (rule disjoint_scan)

theorem disjoint_scan_correct_witness:
  "has_definitely_disjoint_members (it_store initial) (map intrinsic_code [Kind_Number, Kind_String]) = Some True"
proof -
  have "types_disjoint initial (intrinsic_code Kind_Number) (intrinsic_code Kind_String)"
    unfolding types_disjoint_def initial_expand
    by (simp add: initial_row rows_disjoint_def row_domain_def del: intrinsic_code.simps)
  then have "some_pair_disjoint initial (map intrinsic_code [Kind_Number, Kind_String])"
    unfolding some_pair_disjoint_def by (intro exI [of _ 0] exI [of _ "Suc 0"]) simp
  then show ?thesis using disjoint_scan_correct [OF initial_inv(1,2) initial_valid [of "[Kind_Number, Kind_String]"]]
    by (simp del: list.map)
qed

text \<open>
  An intersection depends on nothing but the set of its flattened members, and both the
  flattening and the disjointness test return.
\<close>

theorem intersection_canonical:
  assumes "interner_inv fx it" "sets_inv it"
    "\<forall>m \<in> set xs. row_in it m \<noteq> None" "\<forall>m \<in> set ys. row_in it m \<noteq> None"
    "(\<Union>m \<in> set xs. intersection_expand it m) = (\<Union>m \<in> set ys. intersection_expand it m)"
  shows "intersection_type fx it xs = intersection_type fx it ys"
  using assms by (simp add: intersection_refines_set)

theorem intersection_canonical_witness:
  "intersection_type (\<lambda>_. 0) initial (map intrinsic_code [Kind_Object, Kind_Object]) =
    intersection_type (\<lambda>_. 0) initial (map intrinsic_code [Kind_Object])"
proof -
  have "(\<Union>m \<in> set (map intrinsic_code [Kind_Object, Kind_Object]). intersection_expand initial m) =
      (\<Union>m \<in> set (map intrinsic_code [Kind_Object]). intersection_expand initial m)" by auto
  from intersection_canonical [OF initial_inv(1,2) initial_valid initial_valid this] show ?thesis .
qed

text \<open>
  C8: an intersection is reduced to \<open>never\<close> only when it is empty: under every meaning of types
  that respects the primitive domains, the literals and the member sets, no value belongs to all
  the operands.
\<close>

theorem intersection_never_sound:
  assumes inv: "interner_inv fx it" "sets_inv it" "well_known_inv it"
    and cap: "store_len (it_store it) < 2 ^ 32" and valid: "\<forall>m \<in> set members. row_in it m \<noteq> None"
    and ok: "meaning_ok it sem"
    and never: "intersection_type fx it members = Some (wk_never (it_well_known it), it')"
  shows "(\<Inter>m \<in> set members. sem m) = {}"
proof -
  define ms where "ms = (\<Union>m \<in> set members. intersection_expand it m)"
  define wk where "wk = it_well_known it"
  have distinct: "wk_any wk \<noteq> wk_never wk" "wk_unknown wk \<noteq> wk_never wk"
    using well_known_distinct [OF inv(3), of Kind_Any Kind_Never] well_known_distinct [OF inv(3), of Kind_Unknown Kind_Never]
    by (simp_all add: wk_def)
  obtain tid it2 where it2: "intersection_type fx it members = Some (tid, it2)" "set_result fx it tid it2"
    and res: "if wk_error wk \<in> ms then tid = wk_any wk
     else if wk_never wk \<in> ms then tid = wk_never wk
     else if wk_any wk \<in> ms then tid = wk_any wk
     else if some_pair_disjoint it (sorted_list_of_set (ms - {wk_unknown wk})) then tid = wk_never wk
     else if ms \<subseteq> {wk_unknown wk} then tid = wk_unknown wk
     else ms - {wk_unknown wk} = {tid} \<or>
       row_in it2 tid = Some (Row_Intersection (sorted_list_of_set (ms - {wk_unknown wk})))"
    using intersection_total [OF inv cap valid, folded ms_def wk_def] by blast
  with never have tid: "tid = wk_never wk" "it2 = it'" by (simp_all add: wk_def)
  have "row_in it' (wk_never wk) = Some (Row_Intrinsic Kind_Never)"
    using it2(2) inv(3) unfolding set_result_def well_known_inv_def wk_def tid by (metis well_known_of.simps(4))
  with res distinct consider "wk_never wk \<in> ms"
    | "some_pair_disjoint it (sorted_list_of_set (ms - {wk_unknown wk}))"
    unfolding tid by (auto split: if_splits)
  then have "(\<Inter>x \<in> ms. sem x) = {}"
  proof cases
    case 1
    moreover have "sem (wk_never wk) = {}" using ok by (simp add: meaning_ok_def wk_def)
    ultimately show ?thesis by blast
  next
    case 2
    have fin: "finite ms" unfolding ms_def by (auto simp: expand_def split: option.splits)
    have "members_flat it intersection_row" using inv(2) by (simp add: sets_inv_def)
    from expand_flat [OF this set_accessors(2) [OF inv(1)]] valid
    have "\<forall>m \<in> ms. row_in it m \<noteq> None" unfolding ms_def by fastforce
    with fin some_pair_sound [OF ok inv(1,2) _ 2] have "(\<Inter>m \<in> ms - {wk_unknown wk}. sem m) = {}" by auto
    then show ?thesis by blast
  qed
  then show ?thesis using expanded_meaning [OF ok inv(1) valid] unfolding ms_def by blast
qed

text \<open>The meaning of the intrinsics by their domain; nothing else is in the initial interner.\<close>

definition initial_meaning :: "type_id \<Rightarrow> js_value set" where
  "initial_meaning t = (case row_in initial t of
     Some (Row_Intrinsic k) \<Rightarrow> {v. intrinsic_domain k = Some (value_domain v)} | _ \<Rightarrow> {})"

lemma initial_rows_intrinsic: "row_in initial t = Some r \<Longrightarrow> \<exists>k. r = Row_Intrinsic k"
  using initial_facts(3) by (auto simp: row_in_def nth_opt_def split: if_splits)

lemma initial_meaning_ok: "meaning_ok initial initial_meaning"
  using initial_facts(2) [of Kind_Never] initial_row [of Kind_Never] initial_rows_intrinsic
  unfolding meaning_ok_def initial_meaning_def
  by (fastforce simp: row_domain_def row_literal_def union_row_def intersection_row_def)

theorem intersection_never_sound_witness:
  "initial_meaning (intrinsic_code Kind_Number) \<inter> initial_meaning (intrinsic_code Kind_String) = {}"
proof -
  let ?ms = "map intrinsic_code [Kind_Number, Kind_String]"
  have ms: "(\<Union>m \<in> set ?ms. intersection_expand initial m) = {8, 9}"
    using initial_expand(2) [of Kind_Number] initial_expand(2) [of Kind_String] by auto
  have "types_disjoint initial (intrinsic_code Kind_Number) (intrinsic_code Kind_String)"
    unfolding types_disjoint_def initial_expand
    by (simp add: initial_row rows_disjoint_def row_domain_def del: intrinsic_code.simps)
  then have "some_pair_disjoint initial [8, 9]"
    unfolding some_pair_disjoint_def by (intro exI [of _ 0] exI [of _ "Suc 0"]) simp
  moreover have "sorted_list_of_set ({8, 9} - {2 :: type_id}) = [8, 9]" by simp
  ultimately obtain it' where "intersection_type (\<lambda>_. 0) initial ?ms = Some (wk_never (it_well_known initial), it')"
    using intersection_total [OF initial_inv initial_cap initial_valid [of "[Kind_Number, Kind_String]"]]
    unfolding ms initial_wk by auto
  from intersection_never_sound [OF initial_inv initial_cap initial_valid initial_meaning_ok this] show ?thesis by simp
qed

section \<open>Reservations\<close>

text \<open>
  C13: publishing a recursive batch is all or nothing and cannot panic. It succeeds exactly when
  the targets are distinct pending reservations of the right kinds; then every target has its
  canonical body and is frozen, and no other row changes. On any error the interner is unchanged.
\<close>

theorem fill_batch_atomic:
  assumes "interner_inv fx it"
  shows "\<exists>err it'. fill_reserved_type_batch it fills = Some (err, it') \<and>
    (err = None \<longleftrightarrow> distinct (map fill_target fills) \<and> list_all (fill_ready it) fills) \<and>
    (if err = None
     then interner_inv fx it' \<and>
       (\<forall>i. row_in it' i =
          (case fill_at fills i of Some f \<Rightarrow> Some (fill_row (canonical_fill f)) | None \<Rightarrow> row_in it i)) \<and>
       (\<forall>f \<in> set fills. fmlookup (it_reserved_types it') (fill_target f) =
          Some \<lparr>rt_kind = fill_kind f, rt_state = State_Frozen\<rparr>)
     else it' = it)"
  by (rule fill_batch_spec [OF assms])

theorem fill_batch_atomic_witness:
  "\<exists>it'. fill_reserved_type_batch (snd (reserve_object initial)) [Fill_Object 19 object_default] = Some (None, it') \<and>
    row_in it' 19 = Some (Row_Object object_default)"
proof -
  obtain tid it1 where r: "reserve_object initial = (tid, it1)" by fastforce
  note rs = reserve_spec(1) [OF initial_inv(1) initial_cap r]
  have tid: "tid = 19" using rs initial_len initial_cap r
    using push_rows(7) [of "it_store initial" object_default flags_empty] initial_inv(1)
    by (auto simp: reserve_object_def register_reserved_type_def row_appended_def interner_inv_def split: prod.splits)
  have ready: "fill_ready it1 (Fill_Object 19 object_default)"
    using r tid by (auto simp: fill_ready_def reserve_object_def register_reserved_type_def split: prod.splits)
  then show ?thesis
    using fill_batch_atomic [of "\<lambda>_. 0" it1 "[Fill_Object 19 object_default]"] rs r
    by (auto simp: fill_at_def sort_properties_def object_default_def)
qed

text \<open>
  reserving hands out a fresh pending row that is in no bucket and that nothing else can
  observe: every other row and every lookup answers as before.
\<close>

theorem reserve_is_invisible:
  assumes "interner_inv fx it" "store_len (it_store it) < 2 ^ 32" "reserve_object it = (tid, it')"
  shows "interner_inv fx it' \<and> row_in it tid = None \<and> row_in it' tid = Some (Row_Object object_default) \<and>
    pending it' tid \<and> (\<forall>i. i \<noteq> tid \<longrightarrow> row_in it' i = row_in it i) \<and> (\<forall>h. indexed it' h = indexed it h)"
proof -
  have s: "store_inv (it_store it)" using assms(1) by (simp add: interner_inv_def)
  note app = push_rows(7) [OF s assms(2), of object_default flags_empty]
  have it': "it' = snd (register_reserved_type (it\<lparr>it_store := snd (push_object (it_store it) object_default flags_empty)\<rparr>)
      tid Reserved_Object)" and tid: "tid = fst (push_object (it_store it) object_default flags_empty)"
    using assms(3) by (auto simp: reserve_object_def register_reserved_type_def split: prod.splits)
  have "unat tid = store_len (it_store it)" using appended_row(2) [OF app assms(2)] tid by simp
  then have fresh: "row_in it tid = None" "fmlookup (it_reserved_types_base it) tid = None"
    using row_in_less [of it tid] fresh_not_reserved [of it tid] assms(1)
    by (cases "row_in it tid"; auto simp: interner_inv_def contains_reserved_type_def fmdom_lookup)+
  then have "pending it' tid" by (simp add: it' pending_def reserved_type_of_def register_reserved_type_def)
  moreover have "indexed it' h = indexed it h" for h by (simp add: it' indexed_def register_reserved_type_def)
  ultimately show ?thesis using reserve_spec(1) [OF assms] fresh(1) by blast
qed

theorem reserve_is_invisible_witness:
  "\<exists>tid it'. reserve_object initial = (tid, it') \<and> pending it' tid \<and> row_in initial tid = None"
proof -
  obtain tid it' where r: "reserve_object initial = (tid, it')" by fastforce
  with reserve_is_invisible [OF initial_inv(1) initial_cap r] show ?thesis by blast
qed

text \<open>
  C14: promoting a filled object reservation publishes it to the index without moving a row: the
  result is a structural row with the same key, the reservation itself unless an equal type was
  interned before. Every other request is refused and changes nothing.
\<close>

theorem promote_correct:
  assumes "interner_inv fx it"
  shows "\<exists>res it'. promote_caller_certified_acyclic_reserved_object fx it tid = Some (res, it') \<and>
    interner_inv fx it' \<and> row_in it' = row_in it \<and>
    (case res of
       Inl _ \<Rightarrow> it' = it
     | Inr result \<Rightarrow> \<not> contains_reserved_type it' result \<and>
         (\<exists>r. row_in it tid = Some r \<and> map_option row_key (row_in it result) = Some (row_key r))) \<and>
    ((\<exists>result. res = Inr result) \<longleftrightarrow>
       fmlookup (it_reserved_types_base it) tid = None \<and>
       fmlookup (it_reserved_types it) tid = Some \<lparr>rt_kind = Reserved_Object, rt_state = State_Frozen\<rparr>)"
proof (cases "fmlookup (it_reserved_types_base it) tid = None \<and>
    fmlookup (it_reserved_types it) tid = Some \<lparr>rt_kind = Reserved_Object, rt_state = State_Frozen\<rparr>")
  case True
  then show ?thesis using promote_accepted [OF assms, of tid] by fastforce
next
  case False
  from promote_total [OF assms, of tid] obtain res it' where
    p: "promote_caller_certified_acyclic_reserved_object fx it tid = Some (res, it')" by blast
  have "rt = \<lparr>rt_kind = Reserved_Object, rt_state = State_Frozen\<rparr>"
    if "rt_kind rt = Reserved_Object" "rt_state rt = State_Frozen" for rt :: reserved_type using that by simp
  then obtain e where "res = Inl e" using p False
    by (auto simp: promote_caller_certified_acyclic_reserved_object_def reserved_type_of_def fmdom_lookup
        split: option.splits if_splits)
  then show ?thesis using p False promote_refused [of fx it tid e it'] assms by auto
qed

theorem promote_correct_witness:
  "\<exists>e. promote_caller_certified_acyclic_reserved_object (\<lambda>_. 0) initial 5 = Some (Inl e, initial)"
proof -
  obtain res it' where p: "promote_caller_certified_acyclic_reserved_object (\<lambda>_. 0) initial 5 = Some (res, it')"
    and c: "case res of Inl _ \<Rightarrow> it' = initial | Inr result \<Rightarrow> \<not> contains_reserved_type it' result \<and>
      (\<exists>r. row_in initial 5 = Some r \<and> map_option row_key (row_in initial result) = Some (row_key r))"
    and a: "(\<exists>result. res = Inr result) \<longleftrightarrow> fmlookup (it_reserved_types_base initial) 5 = None \<and>
      fmlookup (it_reserved_types initial) 5 = Some \<lparr>rt_kind = Reserved_Object, rt_state = State_Frozen\<rparr>"
    using promote_correct [OF initial_inv(1), of 5] by blast
  show ?thesis using p c a by (cases res) (simp_all add: initial_facts(4))
qed

section \<open>Sealing and forking\<close>

text \<open>
  C15: sealing and forking are transparent: an unsealed interner without pending reservations seals,
  the sealed base forks, and base and fork have the rows, the buckets, the reservations and the
  well-known ids of the original.
\<close>

theorem freeze_fork_transparent:
  assumes inv: "interner_inv fx it" "\<not> lv_sealed (st_tag (it_store it))"
    "it_dedup_base it = fmempty" "it_reserved_types_base it = fmempty" "it_declared_recipe_base it = fmempty"
    and pending: "\<And>tid rt. fmlookup (it_reserved_types it) tid = Some rt \<Longrightarrow> rt_state rt = State_Frozen"
  shows "\<exists>b d. interner_freeze_as_base it = (None, b) \<and> interner_fork_delta b = Inr d \<and>
    interner_inv fx b \<and> interner_inv fx d \<and> row_in b = row_in it \<and> row_in d = row_in it \<and>
    indexed b = indexed it \<and> indexed d = indexed it \<and> reserved_type_of d = reserved_type_of it \<and>
    it_well_known d = it_well_known it"
proof -
  have "\<exists>b. interner_freeze_as_base it = (None, b) \<and> interner_inv fx b \<and>
      store_rows (it_store b) = store_rows (it_store it) \<and> (\<forall>h. indexed b h = indexed it h) \<and>
      it_well_known b = it_well_known it \<and> (\<forall>tid. reserved_type_of b tid = reserved_type_of it tid) \<and>
      (\<exists>d. interner_fork_delta b = Inr d)"
    by (rule interner_freeze_spec [OF inv]) (rule pending)
  then obtain b d where b: "interner_freeze_as_base it = (None, b)"
    "interner_inv fx b" "store_rows (it_store b) = store_rows (it_store it)" "\<And>h. indexed b h = indexed it h"
    "it_well_known b = it_well_known it" "\<And>tid. reserved_type_of b tid = reserved_type_of it tid"
    "interner_fork_delta b = Inr d" by blast
  from interner_fork_spec [OF b(2,7)] b show ?thesis
    by (intro exI [of _ b] exI [of _ d]) (simp add: row_in_def fun_eq_iff)
qed

lemma hash_cons_recipes:
  "hash_cons fx key eq push_row it = Some (tid, it') \<Longrightarrow> it_declared_recipe_base it' = it_declared_recipe_base it"
  by (auto simp: hash_cons_def Let_def split: bind_splits option.splits)

lemma intern_intrinsics_recipes:
  "intern_intrinsics fx it ks = Some (ids, it') \<Longrightarrow> it_declared_recipe_base it' = it_declared_recipe_base it"
  by (induction ks arbitrary: it ids) (auto simp: intern_intrinsic_def dest!: hash_cons_recipes split: bind_splits)

lemma with_intrinsics_recipes: "with_intrinsics fx = Some it \<Longrightarrow> it_declared_recipe_base it = fmempty"
  by (auto simp: with_intrinsics_def empty_interner_def Let_def dest!: intern_intrinsics_recipes split: bind_splits)

theorem freeze_fork_transparent_witness:
  "\<exists>b d. interner_freeze_as_base initial = (None, b) \<and> interner_fork_delta b = Inr d \<and>
    row_in d (intrinsic_code Kind_Any) = Some (Row_Intrinsic Kind_Any)"
proof -
  obtain it where it: "with_intrinsics (\<lambda>_. 0) = Some it" "it_dedup_base it = fmempty" "\<not> lv_sealed (st_tag (it_store it))"
    by (rule with_intrinsics_spec [of "\<lambda>_. 0"]) blast
  then have "it = initial" using initial_start by simp
  then show ?thesis
    using freeze_fork_transparent [OF initial_inv(1)] it(2,3) initial_facts(4,5) initial_row [of Kind_Any]
      with_intrinsics_recipes [OF initial_start] by (fastforce simp del: intrinsic_code.simps)
qed

end
