(* ===== verification/Relation_Cache.thy ===== *)
theory Relation_Cache
  imports Repr
begin

text \<open>
  Crate \<^verbatim>\<open>typokat-relate\<close>, module \<^verbatim>\<open>relate/cache.rs\<close>: the verdict cache of the relation engine and its
  speculative layers. A savepoint pushes the settled entries into a base below an empty layer,
  commit folds the layer down and rollback drops it. The abstract cache is one map, and a
  transaction on it either happens or does not.
\<close>

datatype relation_kind = Rel_Identity | Rel_Subtype | Rel_Assignable

record relation_key =
  rk_src :: u32
  rk_tgt :: u32
  rk_kind :: relation_kind

definition relation_key_new :: "type_id \<Rightarrow> type_id \<Rightarrow> relation_kind \<Rightarrow> relation_key" where
  "relation_key_new src tgt kind = \<lparr>rk_src = src, rk_tgt = tgt, rk_kind = kind\<rparr>"

datatype relation_cache =
  Cache_Layer (rc_base: "relation_cache option") (rc_entries: "(relation_key, bool) fmap")

definition rc_new :: relation_cache where
  "rc_new = Cache_Layer None fmempty"

text \<open>The walk over the layers below the local one, with the number of layers visited.\<close>

fun rc_walk :: "relation_cache option \<Rightarrow> relation_key \<Rightarrow> u32 \<Rightarrow> bool option \<times> u32" where
  "rc_walk None key depth = (None, depth)"
| "rc_walk (Some (Cache_Layer base entries)) key depth =
     (case fmlookup entries key of
        Some verdict \<Rightarrow> (Some verdict, depth + 1)
      | None \<Rightarrow> rc_walk base key (depth + 1))"

definition rc_lookup :: "relation_cache \<Rightarrow> relation_key \<Rightarrow> bool option \<times> u32" where
  "rc_lookup c key =
     (case fmlookup (rc_entries c) key of
        Some verdict \<Rightarrow> (Some verdict, 0)
      | None \<Rightarrow> rc_walk (rc_base c) key 0)"

definition rc_get :: "relation_cache \<Rightarrow> relation_key \<Rightarrow> bool option" where
  "rc_get c key = fst (rc_lookup c key)"

definition rc_insert :: "relation_cache \<Rightarrow> relation_key \<Rightarrow> bool \<Rightarrow> relation_cache" where
  "rc_insert c key verdict = Cache_Layer (rc_base c) (fmupd key verdict (rc_entries c))"

definition rc_promote :: "relation_cache \<Rightarrow> relation_cache \<Rightarrow> relation_cache" where
  "rc_promote c pending = Cache_Layer (rc_base c) (rc_entries c ++\<^sub>f rc_entries pending)"

definition rc_savepoint :: "relation_cache \<Rightarrow> relation_cache" where
  "rc_savepoint c = Cache_Layer (Some c) fmempty"

text \<open>\<open>None\<close> is the panic of closing a layer that no savepoint opened.\<close>

definition rc_commit :: "relation_cache \<Rightarrow> relation_cache option" where
  "rc_commit c = do {
     settled \<leftarrow> rc_base c;
     Some (Cache_Layer (rc_base settled) (rc_entries settled ++\<^sub>f rc_entries c))
   }"

definition rc_rollback :: "relation_cache \<Rightarrow> relation_cache option" where
  "rc_rollback c = rc_base c"

fun rc_len :: "relation_cache \<Rightarrow> nat" where
  "rc_len (Cache_Layer None entries) = fmsize entries"
| "rc_len (Cache_Layer (Some base) entries) =
     rc_len base + fmsize entries - fcard (ffilter (\<lambda>key. fst (rc_lookup base key) \<noteq> None) (fmdom entries))"

fun rc_is_empty :: "relation_cache \<Rightarrow> bool" where
  "rc_is_empty (Cache_Layer None entries) \<longleftrightarrow> entries = fmempty"
| "rc_is_empty (Cache_Layer (Some base) entries) \<longleftrightarrow> entries = fmempty \<and> rc_is_empty base"

section \<open>Lookup\<close>

lemma rc_walk_layer: "fst (rc_walk (Some c) key d) = rc_get c key"
proof (induction c arbitrary: d)
  case (Cache_Layer base entries)
  show ?case
  proof (cases base)
    case None
    then show ?thesis by (simp add: rc_get_def rc_lookup_def split: option.split)
  next
    case (Some b)
    with Cache_Layer [of b] have "fst (rc_walk base key x) = rc_get b key" for x by simp
    then show ?thesis by (simp add: rc_get_def [of "Cache_Layer _ _"] rc_lookup_def split: option.split)
  qed
qed

lemma rc_walk_get: "fst (rc_walk b key d) = (case b of None \<Rightarrow> None | Some c \<Rightarrow> rc_get c key)"
  by (cases b) (simp_all add: rc_walk_layer del: rc_walk.simps(2))

lemma rc_get_rec:
  "rc_get c key = (case fmlookup (rc_entries c) key of
     Some v \<Rightarrow> Some v | None \<Rightarrow> (case rc_base c of None \<Rightarrow> None | Some b \<Rightarrow> rc_get b key))"
  by (auto simp: rc_get_def [of c] rc_lookup_def rc_walk_get split: option.splits)

lemma rc_new_get [simp]: "rc_get rc_new key = None"
  by (simp add: rc_get_rec rc_new_def)

lemma rc_insert_get: "rc_get (rc_insert c key v) = (rc_get c)(key \<mapsto> v)"
  by (auto simp: fun_eq_iff rc_insert_def rc_get_rec [of "Cache_Layer _ _"] rc_get_rec [of c] split: option.splits)

lemma rc_promote_get: "rc_get (rc_promote c p) = rc_get c ++ fmlookup (rc_entries p)"
  by (auto simp: fun_eq_iff rc_promote_def rc_get_rec [of "Cache_Layer _ _"] rc_get_rec [of c] map_add_def
      fmdom_lookup split: option.splits)

lemma rc_savepoint_get: "rc_get (rc_savepoint c) = rc_get c"
  by (simp add: fun_eq_iff rc_savepoint_def rc_get_rec [of "Cache_Layer _ _"])

lemma rc_commit_get: "rc_commit c = Some c' \<Longrightarrow> rc_get c' = rc_get c"
proof -
  assume "rc_commit c = Some c'"
  then obtain b where "rc_base c = Some b" "c' = Cache_Layer (rc_base b) (rc_entries b ++\<^sub>f rc_entries c)"
    by (auto simp: rc_commit_def bind_eq_Some_conv)
  then show ?thesis
    by (auto simp: fun_eq_iff rc_get_rec [of c] rc_get_rec [of "Cache_Layer _ _"] rc_get_rec [of b] fmdom_lookup
        split: option.splits)
qed

section \<open>Interface: a cache with speculative layers\<close>

text \<open>
  \<open>below c\<close> is what the open savepoints guard. A client relies on a savepoint hiding nothing,
  a commit keeping every answer, a rollback returning to the guarded cache, and ordinary writes
  leaving it alone.
\<close>

locale speculative_cache =
  fixes get :: "'c \<Rightarrow> 'k \<Rightarrow> 'v option"
    and below :: "'c \<Rightarrow> 'c option"
    and savepoint :: "'c \<Rightarrow> 'c"
    and commit :: "'c \<Rightarrow> 'c option"
    and rollback :: "'c \<Rightarrow> 'c option"
  assumes savepoint_get: "get (savepoint c) = get c"
    and savepoint_below: "below (savepoint c) = Some c"
    and commit_get: "below c = Some b \<Longrightarrow> \<exists>c'. commit c = Some c' \<and> get c' = get c \<and> below c' = below b"
    and rollback_below: "rollback c = below c"
begin

lemma open_commit:
  assumes "below c = below (savepoint c0)"
  shows "\<exists>c'. commit c = Some c' \<and> get c' = get c \<and> below c' = below c0"
  using assms commit_get savepoint_below by simp

lemma open_rollback:
  assumes "below c = below (savepoint c0)"
  shows "rollback c = Some c0"
  using assms by (simp add: rollback_below savepoint_below)

end

interpretation rcache: speculative_cache rc_get rc_base rc_savepoint rc_commit rc_rollback
proof
  fix c b assume b: "rc_base c = Some b"
  then obtain c' where "rc_commit c = Some c'" "rc_base c' = rc_base b" by (simp add: rc_commit_def)
  with rc_commit_get [of c c'] show "\<exists>c'. rc_commit c = Some c' \<and> rc_get c' = rc_get c \<and> rc_base c' = rc_base b"
    by blast
qed (simp_all add: rc_savepoint_get rc_rollback_def, simp add: rc_savepoint_def)

section \<open>Scripts of nested transactions\<close>

datatype cache_script =
    Script_Insert relation_key bool
  | Script_Promote relation_cache
  | Script_Commit "cache_script list"
  | Script_Rollback "cache_script list"

fun run_script :: "cache_script \<Rightarrow> relation_cache \<Rightarrow> relation_cache option"
  and run_scripts :: "cache_script list \<Rightarrow> relation_cache \<Rightarrow> relation_cache option" where
  "run_script (Script_Insert key v) c = Some (rc_insert c key v)"
| "run_script (Script_Promote p) c = Some (rc_promote c p)"
| "run_script (Script_Commit ss) c = do { c \<leftarrow> run_scripts ss (rc_savepoint c); rc_commit c }"
| "run_script (Script_Rollback ss) c = do { c \<leftarrow> run_scripts ss (rc_savepoint c); rc_rollback c }"
| "run_scripts [] c = Some c"
| "run_scripts (s # ss) c = do { c \<leftarrow> run_script s c; run_scripts ss c }"

text \<open>The specification on one map: a committed transaction is its body, a rolled back one nothing.\<close>

fun script_spec :: "cache_script \<Rightarrow> (relation_key \<rightharpoonup> bool) \<Rightarrow> (relation_key \<rightharpoonup> bool)"
  and scripts_spec :: "cache_script list \<Rightarrow> (relation_key \<rightharpoonup> bool) \<Rightarrow> (relation_key \<rightharpoonup> bool)" where
  "script_spec (Script_Insert key v) m = m(key \<mapsto> v)"
| "script_spec (Script_Promote p) m = m ++ fmlookup (rc_entries p)"
| "script_spec (Script_Commit ss) m = scripts_spec ss m"
| "script_spec (Script_Rollback ss) m = m"
| "scripts_spec [] m = m"
| "scripts_spec (s # ss) m = scripts_spec ss (script_spec s m)"

lemma run_script_refines:
  "\<exists>c'. run_script s c = Some c' \<and> rc_get c' = script_spec s (rc_get c) \<and> rc_base c' = rc_base c"
  "\<exists>c'. run_scripts ss c = Some c' \<and> rc_get c' = scripts_spec ss (rc_get c) \<and> rc_base c' = rc_base c"
proof (induction s c and ss c rule: run_script_run_scripts.induct)
  case (3 ss c)
  then obtain c1 where c1: "run_scripts ss (rc_savepoint c) = Some c1" "rc_get c1 = scripts_spec ss (rc_get c)"
      "rc_base c1 = rc_base (rc_savepoint c)" by (auto simp: rc_savepoint_get)
  with rcache.open_commit [OF c1(3)] show ?case by auto
next
  case (4 ss c)
  then obtain c1 where c1: "run_scripts ss (rc_savepoint c) = Some c1"
      "rc_base c1 = rc_base (rc_savepoint c)" by auto
  with rcache.open_rollback [OF c1(2)] show ?case by simp
next
  case (6 s ss c)
  then obtain c1 where c1: "run_script s c = Some c1" "rc_get c1 = script_spec s (rc_get c)" "rc_base c1 = rc_base c"
    by auto
  from "6.IH"(2) [of c1] c1 show ?case by auto
next
  case (1 key v c)
  have "rc_base (rc_insert c key v) = rc_base c" by (simp add: rc_insert_def)
  with rc_insert_get show ?case by (simp del: fun_upd_apply)
next
  case (2 p c)
  have "rc_base (rc_promote c p) = rc_base c" by (simp add: rc_promote_def)
  with rc_promote_get show ?case by simp
qed simp

text \<open>
  C34: the layered verdict cache refines one map. Every script of inserts, promotions and nested
  transactions runs without panic, leaves the layers below as they were, and answers every key as
  the script on a single map, in which a committed transaction is its body and a rolled back one
  never happened.
\<close>

theorem relation_cache_refines_map:
  "\<exists>c'. run_scripts ss c = Some c' \<and> rc_get c' = scripts_spec ss (rc_get c) \<and> rc_base c' = rc_base c"
  by (rule run_script_refines)

text \<open>a rolled back transaction restores the very cache the savepoint saw.\<close>

theorem relation_cache_rollback_restores:
  "run_script (Script_Rollback ss) c = Some c"
proof -
  obtain c1 where c1: "run_scripts ss (rc_savepoint c) = Some c1" "rc_base c1 = rc_base (rc_savepoint c)"
    using run_script_refines(2) by blast
  with rcache.open_rollback [OF c1(2)] show ?thesis by simp
qed

section \<open>Counting\<close>

lemma finite_rc_dom: "finite {k. rc_get c k \<noteq> None}"
proof (induction c)
  case (Cache_Layer base entries)
  have "{k. rc_get (Cache_Layer base entries) k \<noteq> None} \<subseteq>
      fset (fmdom entries) \<union> (case base of None \<Rightarrow> {} | Some b \<Rightarrow> {k. rc_get b k \<noteq> None})"
    by (auto simp: rc_get_rec [of "Cache_Layer _ _"] fmlookup_dom_iff split: option.splits)
  moreover have "finite (case base of None \<Rightarrow> {} | Some b \<Rightarrow> {k. rc_get b k \<noteq> None})"
    using Cache_Layer by (auto split: option.split)
  ultimately show ?case by (meson finite_Un finite_fset finite_subset)
qed

text \<open>the length of a layered cache is the number of keys it answers, counted once each.\<close>

theorem rc_len_counts: "rc_len c = card {k. rc_get c k \<noteq> None}"
proof (induction c rule: rc_len.induct)
  case (1 entries)
  have "rc_get (Cache_Layer None entries) = fmlookup entries"
    by (auto simp: fun_eq_iff rc_get_rec split: option.splits)
  then show ?case by (simp add: fmsize_card)
next
  case (2 base entries)
  let ?B = "{k. rc_get base k \<noteq> None}" and ?E = "{k. fmlookup entries k \<noteq> None}"
  have E: "?E = fset (fmdom entries)" by (auto simp: fmlookup_dom_iff)
  have "fset (ffilter (\<lambda>key. fst (rc_lookup base key) \<noteq> None) (fmdom entries)) = ?B \<inter> ?E"
    by (auto simp: E rc_get_def fmlookup_dom_iff)
  then have sh: "fcard (ffilter (\<lambda>key. fst (rc_lookup base key) \<noteq> None) (fmdom entries)) = card (?B \<inter> ?E)"
    by (simp add: fcard.rep_eq)
  have "{k. rc_get (Cache_Layer (Some base) entries) k \<noteq> None} = ?B \<union> ?E"
    by (auto simp: rc_get_rec [of "Cache_Layer _ _"] split: option.splits)
  moreover have "card ?B + card ?E = card (?B \<union> ?E) + card (?B \<inter> ?E)"
    by (rule card_Un_Int [OF finite_rc_dom]) (unfold E, rule finite_fset)
  ultimately show ?case using 2 by (simp only: rc_len.simps sh fmsize_card)
qed

lemma rc_is_empty_iff: "rc_is_empty c \<longleftrightarrow> (\<forall>k. rc_get c k = None)"
  by (induction c rule: rc_is_empty.induct)
     (auto simp: rc_get_rec [of "Cache_Layer _ _"] fmap_eq_empty_iff split: option.splits)

end
