(* ===== verification/Relation_Program.thy ===== *)
theory Relation_Program
  imports Interner Relation_Cache
begin

text \<open>
  Crate \<^verbatim>\<open>typokat-relate\<close>, module \<^verbatim>\<open>relate/relation/mod.rs\<close>, the vocabulary of the relation engine: verdicts
  and their explanations, the demands of the query coordinator, the normalization interface, the
  lexical binder contexts, and the shape of the structural rules.

  Every structural rule of the engine is a method of \<open>Relater\<close> that reaches its state only through
  a few operations: the recursive query \<open>relate\<close>, the reporting mode, the binder contexts and the
  three ways of leaving a note for the coordinator. A rule is therefore modelled as a program over
  these operations, a value of the datatype \<open>prog\<close>, and the driver of \<open>Relation_Engine\<close> runs it on
  the engine's state. The second half of the theory gives programs their meaning against an
  arbitrary set of possible answers to the recursive queries, and proves once and for all the
  rules by which a program is \<^emph>\<open>monotone\<close>: better answers never make its verdict worse.
\<close>

named_theorems fine_intros \<open>introduction rules for monotone, closed programs\<close>

section \<open>Verdicts and explanations\<close>

datatype reason =
    Reason_Leaf type_id type_id
  | Reason_MissingProperty property_key type_id type_id
  | Reason_Property property_key type_id type_id reason
  | Reason_ParameterCount type_id type_id
  | Reason_Parameter nat type_id type_id reason
  | Reason_ReturnType type_id type_id reason
  | Reason_UnionSourceMember type_id type_id type_id reason
  | Reason_NoUnionMember type_id type_id
  | Reason_ArrayElement type_id type_id reason
  | Reason_TupleLength type_id type_id
  | Reason_TupleElement nat type_id type_id reason
  | Reason_IndexSignature type_id type_id reason

record reason_chain =
  chain_head :: reason

definition chain_of :: "reason \<Rightarrow> reason_chain" where
  "chain_of head = \<lparr>chain_head = head\<rparr>"

definition chain_leaf :: "type_id \<Rightarrow> type_id \<Rightarrow> reason_chain" where
  "chain_leaf src tgt = \<lparr>chain_head = Reason_Leaf src tgt\<rparr>"

fun reason_root :: "reason \<Rightarrow> type_id \<times> type_id" where
  "reason_root (Reason_Leaf src tgt) = (src, tgt)"
| "reason_root (Reason_MissingProperty _ src tgt) = (src, tgt)"
| "reason_root (Reason_Property _ src tgt _) = (src, tgt)"
| "reason_root (Reason_ParameterCount src tgt) = (src, tgt)"
| "reason_root (Reason_Parameter _ src tgt _) = (src, tgt)"
| "reason_root (Reason_ReturnType src tgt _) = (src, tgt)"
| "reason_root (Reason_UnionSourceMember _ src tgt _) = (src, tgt)"
| "reason_root (Reason_NoUnionMember src tgt) = (src, tgt)"
| "reason_root (Reason_ArrayElement src tgt _) = (src, tgt)"
| "reason_root (Reason_TupleLength src tgt) = (src, tgt)"
| "reason_root (Reason_TupleElement _ src tgt _) = (src, tgt)"
| "reason_root (Reason_IndexSignature src tgt _) = (src, tgt)"

definition chain_root :: "reason_chain \<Rightarrow> type_id \<times> type_id" where
  "chain_root chain = reason_root (chain_head chain)"

datatype relation = Yes | No reason_chain

fun is_yes :: "relation \<Rightarrow> bool" where
  "is_yes Yes = True"
| "is_yes (No _) = False"

lemma is_yes_iff: "is_yes r \<longleftrightarrow> r = Yes"
  by (cases r) simp_all

section \<open>The coordinator's protocol\<close>

datatype class_construction_state = Class_Pending | Class_Building | Class_Built | Class_Published | Class_Poisoned

record class_default_declaration =
  cd_class :: class_id
  cd_parameter :: type_param_id
  cd_index :: nat

datatype class_application_arguments =
    Args_WrongArity nat nat nat
  | Args_UnavailableExplicitArgument nat
  | Args_UnsupportedDefault class_default_declaration
  | Args_InferenceIncomplete nat
  | Args_TargetPoisoned class_id

datatype exhaustion =
    Exhaust_ClassNotPublished class_id class_construction_state
  | Exhaust_ClassHeritagePoison class_id
  | Exhaust_ClassInitializerPoison class_id
  | Exhaust_ClassSurfacePoison class_id
  | Exhaust_ClassApplicationArguments class_application_arguments
  | Exhaust_ClassProjectionBudget
  | Exhaust_EvaluationBudget
  | Exhaust_EvaluationCycle type_id
  | Exhaust_EvaluationInvalidNode type_id

datatype relation_outcome = Outcome_Yes | Outcome_No reason_chain | Outcome_Exhausted exhaustion

datatype relation_demand =
    Demand_ClassProjection type_id
  | Demand_Evaluation type_id
  | Demand_DerivedClassProjection derived_type
  | Demand_DerivedEvaluation derived_type
  | Demand_ApparentSurface type_id

datatype apparent_surface =
    Surface_NotApplicable
  | Surface_Ready type_id
  | Surface_Unavailable
  | Surface_Needs relation_demand

datatype relation_attempt =
    Attempt_Decided relation_outcome
  | Attempt_Needs relation_demand
  | Attempt_NeedsBatch "relation_demand list"

text \<open>
  The trait \<open>RelationNormalization\<close>, implemented by the checker's query plans: the methods the
  engine calls, as functions.
\<close>

record normalization =
  nz_normalize :: "type_id \<Rightarrow> exhaustion + type_id"
  nz_is_library_object_top :: "type_id \<Rightarrow> bool"
  nz_apparent_surface :: "type_id \<Rightarrow> apparent_surface"
  nz_relation_demand :: "type_id \<Rightarrow> relation_demand option"

text \<open>
  The text conversions of \<open>f64\<close> that the template rules use: \<open>str::parse\<close>, \<open>Display\<close> and the third-party
  \<open>dragonbox_ecma\<close> formatter.
\<close>

record float_text =
  ft_parse :: "string \<Rightarrow> f64 option"
  ft_display :: "f64 \<Rightarrow> string"
  ft_format_finite :: "f64 \<Rightarrow> string"

text \<open>What a \<open>Relater\<close> borrows and never changes.\<close>

record relate_env =
  re_store :: store
  re_well_known :: well_known
  re_normalization :: "normalization option"
  re_float_text :: float_text

definition normalization_demand :: "relate_env \<Rightarrow> type_id \<Rightarrow> relation_demand option" where
  "normalization_demand env ty =
     (case re_normalization env of None \<Rightarrow> None | Some nz \<Rightarrow> nz_relation_demand nz ty)"

text \<open>\<open>normalize\<close> when a provider is present, the identity otherwise.\<close>

definition normalized :: "relate_env \<Rightarrow> type_id \<Rightarrow> exhaustion + type_id" where
  "normalized env ty =
     (case re_normalization env of None \<Rightarrow> Inr ty | Some nz \<Rightarrow> nz_normalize nz ty)"

definition apparent_surface_of :: "relate_env \<Rightarrow> type_id \<Rightarrow> apparent_surface" where
  "apparent_surface_of env ty =
     (case re_normalization env of None \<Rightarrow> Surface_NotApplicable | Some nz \<Rightarrow> nz_apparent_surface nz ty)"

definition library_object_top :: "relate_env \<Rightarrow> type_id \<Rightarrow> bool" where
  "library_object_top env ty =
     (case re_normalization env of None \<Rightarrow> False | Some nz \<Rightarrow> nz_is_library_object_top nz ty)"

section \<open>Binder contexts\<close>

record binder_context =
  bc_parameters :: "type_param_id fset"
  bc_source_parameters :: "type_param_id fset"
  bc_target_parameters :: "type_param_id fset"
  bc_constraints :: "(type_param_id, type_id option) fmap"
  bc_source_to_target :: "(type_param_id, type_param_id) fmap"
  bc_target_to_source :: "(type_param_id, type_param_id) fmap"
  bc_instantiable_source :: "type_param_id fset"
  bc_source_instantiations :: "(type_param_id, type_id) fmap"

definition bc_default :: binder_context where
  "bc_default = \<lparr>bc_parameters = {||}, bc_source_parameters = {||}, bc_target_parameters = {||},
     bc_constraints = fmempty, bc_source_to_target = fmempty, bc_target_to_source = fmempty,
     bc_instantiable_source = {||}, bc_source_instantiations = fmempty\<rparr>"

definition align_pair :: "generic_type_param \<times> generic_type_param \<Rightarrow> binder_context \<Rightarrow> binder_context" where
  "align_pair pair c = (case pair of (source, target) \<Rightarrow>
     c\<lparr>bc_parameters := finsert (gp_id target) (finsert (gp_id source) (bc_parameters c)),
       bc_source_parameters := finsert (gp_id source) (bc_source_parameters c),
       bc_target_parameters := finsert (gp_id target) (bc_target_parameters c),
       bc_constraints := fmupd (gp_id target) (gp_constraint target)
                           (fmupd (gp_id source) (gp_constraint source) (bc_constraints c)),
       bc_source_to_target := fmupd (gp_id source) (gp_id target) (bc_source_to_target c),
       bc_target_to_source := fmupd (gp_id target) (gp_id source) (bc_target_to_source c)\<rparr>)"

definition bc_aligned :: "generic_type_param list \<Rightarrow> generic_type_param list \<Rightarrow> binder_context" where
  "bc_aligned source target = fold align_pair (zip source target) bc_default"

text \<open>A source binder that may be instantiated, and a target binder that is only constrained.\<close>

definition add_instantiable :: "generic_type_param \<Rightarrow> binder_context \<Rightarrow> binder_context" where
  "add_instantiable param c =
     c\<lparr>bc_parameters := finsert (gp_id param) (bc_parameters c),
       bc_source_parameters := finsert (gp_id param) (bc_source_parameters c),
       bc_constraints := fmupd (gp_id param) (gp_constraint param) (bc_constraints c),
       bc_instantiable_source := finsert (gp_id param) (bc_instantiable_source c)\<rparr>"

definition add_target :: "generic_type_param \<Rightarrow> binder_context \<Rightarrow> binder_context" where
  "add_target param c =
     c\<lparr>bc_parameters := finsert (gp_id param) (bc_parameters c),
       bc_target_parameters := finsert (gp_id param) (bc_target_parameters c),
       bc_constraints := fmupd (gp_id param) (gp_constraint param) (bc_constraints c)\<rparr>"

definition bc_source_specialization :: "generic_type_param list \<Rightarrow> binder_context" where
  "bc_source_specialization source = fold add_instantiable source bc_default"

definition bc_construct_arity_specialization ::
    "generic_type_param list \<Rightarrow> generic_type_param list \<Rightarrow> binder_context option" where
  "bc_construct_arity_specialization source target =
     (let shared = min (length source) (length target) in
      Some (fold add_target (drop shared target)
              (fold add_instantiable (drop shared source)
                (bc_aligned (take shared source) (take shared target)))))"

text \<open>The innermost context that binds the parameter overrides the store; \<open>Some None\<close> is an unconstrained binder.\<close>

fun context_constraint :: "binder_context list \<Rightarrow> type_param_id \<Rightarrow> type_id option option" where
  "context_constraint [] param = None"
| "context_constraint (c # outer) param =
     (if param |\<in>| bc_parameters c
      then Some (case fmlookup (bc_constraints c) param of Some found \<Rightarrow> found | None \<Rightarrow> None)
      else context_constraint outer param)"

section \<open>Programs\<close>

text \<open>
  How a recursive query accounts for the assumptions it rests on: into the caller's set, into a set
  of its own that is merged only when it succeeds, or into a set that is dropped.
\<close>

datatype accumulator = Acc_Shared | Acc_Winner | Acc_Fresh

datatype 'a prog =
    Return 'a
  | Panic
  | Relate type_id type_id relation_kind accumulator bool "relation \<Rightarrow> 'a prog"
  | Ask_Mode "bool \<Rightarrow> 'a prog"
  | Set_Mode bool "'a prog"
  | Ask_Allow "bool \<Rightarrow> 'a prog"
  | Ask_Binders "binder_context list \<Rightarrow> 'a prog"
  | Push_Binder binder_context "'a prog"
  | Pop_Binder "'a prog"
  | Specialize nat type_param_id type_id "'a prog"
  | Record_Demand relation_demand "'a prog"
  | Record_Apparent relation_demand "'a prog"
  | Record_Exhaustion exhaustion "'a prog"

primrec bind :: "'a prog \<Rightarrow> ('a \<Rightarrow> 'b prog) \<Rightarrow> 'b prog" where
  "bind (Return x) f = f x"
| "bind Panic f = Panic"
| "bind (Relate s t k a w c) f = Relate s t k a w (\<lambda>r. bind (c r) f)"
| "bind (Ask_Mode c) f = Ask_Mode (\<lambda>b. bind (c b) f)"
| "bind (Set_Mode b p) f = Set_Mode b (bind p f)"
| "bind (Ask_Allow c) f = Ask_Allow (\<lambda>b. bind (c b) f)"
| "bind (Ask_Binders c) f = Ask_Binders (\<lambda>cs. bind (c cs) f)"
| "bind (Push_Binder x p) f = Push_Binder x (bind p f)"
| "bind (Pop_Binder p) f = Pop_Binder (bind p f)"
| "bind (Specialize i x t p) f = Specialize i x t (bind p f)"
| "bind (Record_Demand d p) f = Record_Demand d (bind p f)"
| "bind (Record_Apparent d p) f = Record_Apparent d (bind p f)"
| "bind (Record_Exhaustion e p) f = Record_Exhaustion e (bind p f)"

text \<open>A store read: \<open>None\<close> is the panic of an id outside the arena. \<open>let_some\<close> is \<open>let Some(x) = .. else { .. }\<close>.\<close>

definition look :: "'b option \<Rightarrow> ('b \<Rightarrow> 'a prog) \<Rightarrow> 'a prog" where
  "look r f = (case r of None \<Rightarrow> Panic | Some x \<Rightarrow> f x)"

definition let_some :: "'b option option \<Rightarrow> 'a prog \<Rightarrow> ('b \<Rightarrow> 'a prog) \<Rightarrow> 'a prog" where
  "let_some r missing f = look r (\<lambda>found. case found of None \<Rightarrow> missing | Some x \<Rightarrow> f x)"

definition reject :: "type_id \<Rightarrow> type_id \<Rightarrow> relation prog" where
  "reject src tgt = Return (No (chain_leaf src tgt))"

text \<open>\<open>self.relate(.., self.want_reason)\<close>, and the probe \<open>self.relate(.., false)\<close> whose reason is discarded.\<close>

definition rel :: "type_id \<Rightarrow> type_id \<Rightarrow> relation_kind \<Rightarrow> relation prog" where
  "rel src tgt kind = Ask_Mode (\<lambda>mode. Relate src tgt kind Acc_Shared mode Return)"

definition probe :: "type_id \<Rightarrow> type_id \<Rightarrow> relation_kind \<Rightarrow> relation prog" where
  "probe src tgt kind = Relate src tgt kind Acc_Shared False Return"

text \<open>\<open>if let No(child) = p { return w(child) }\<close> and \<open>if p.is_yes() { return w }\<close>, and the loops over them.\<close>

definition must :: "relation prog \<Rightarrow> (reason_chain \<Rightarrow> 'a) \<Rightarrow> 'a prog \<Rightarrow> 'a prog" where
  "must p w k = bind p (\<lambda>r. case r of No child \<Rightarrow> Return (w child) | Yes \<Rightarrow> k)"

definition may :: "relation prog \<Rightarrow> 'a \<Rightarrow> 'a prog \<Rightarrow> 'a prog" where
  "may p w k = bind p (\<lambda>r. case r of Yes \<Rightarrow> Return w | No _ \<Rightarrow> k)"

fun must_each :: "('b \<Rightarrow> relation prog) \<Rightarrow> ('b \<Rightarrow> reason_chain \<Rightarrow> 'a) \<Rightarrow> 'b list \<Rightarrow> 'a prog \<Rightarrow> 'a prog" where
  "must_each p w [] k = k"
| "must_each p w (x # xs) k = must (p x) (w x) (must_each p w xs k)"

fun may_each :: "('b \<Rightarrow> relation prog) \<Rightarrow> 'a \<Rightarrow> 'b list \<Rightarrow> 'a prog \<Rightarrow> 'a prog" where
  "may_each p w [] k = k"
| "may_each p w (x # xs) k = may (p x) w (may_each p w xs k)"

lemma must_each_cong [fundef_cong]:
  "xs = ys \<Longrightarrow> (\<And>x. x \<in> set ys \<Longrightarrow> p x = q x) \<Longrightarrow> w = v \<Longrightarrow> k = l \<Longrightarrow> must_each p w xs k = must_each q v ys l"
  by (induction ys arbitrary: xs) auto

definition with_reason_mode :: "bool \<Rightarrow> 'a prog \<Rightarrow> 'a prog" where
  "with_reason_mode mode body =
     Ask_Mode (\<lambda>outer. Set_Mode mode (bind body (\<lambda>result. Set_Mode outer (Return result))))"

definition probe_without_reason :: "'a prog \<Rightarrow> 'a prog" where
  "probe_without_reason body = with_reason_mode False body"

definition with_binder_context :: "binder_context \<Rightarrow> 'a prog \<Rightarrow> 'a prog" where
  "with_binder_context context body =
     Push_Binder context (bind body (\<lambda>result. Pop_Binder (Return result)))"

section \<open>Meaning of a program against possible answers\<close>

text \<open>
  \<open>answers s t k r\<close> says that \<open>r\<close> is a possible answer to the query. The reporting mode is free, the
  coordinator's flag \<open>allow\<close> is given, and the program runs outside every binder context.
\<close>

type_synonym answers = "type_id \<Rightarrow> type_id \<Rightarrow> relation_kind \<Rightarrow> relation \<Rightarrow> bool"

primrec results :: "answers \<Rightarrow> bool \<Rightarrow> 'a prog \<Rightarrow> 'a set" where
  "results P al (Return x) = {x}"
| "results P al Panic = {}"
| "results P al (Relate s t k a w c) = (\<Union>r\<in>Collect (P s t k). results P al (c r))"
| "results P al (Ask_Mode c) = (\<Union>b\<in>UNIV. results P al (c b))"
| "results P al (Set_Mode b p) = results P al p"
| "results P al (Ask_Allow c) = results P al (c al)"
| "results P al (Ask_Binders c) = results P al (c [])"
| "results P al (Push_Binder x p) = {}"
| "results P al (Pop_Binder p) = {}"
| "results P al (Specialize i x t p) = {}"
| "results P al (Record_Demand d p) = results P al p"
| "results P al (Record_Apparent d p) = results P al p"
| "results P al (Record_Exhaustion e p) = results P al p"

lemma results_bind: "results P al (bind p f) = (\<Union>x\<in>results P al p. results P al (f x))"
  by (induction p) auto

text \<open>
  \<open>closed_prog V N post p\<close>: the program asks only about types of \<open>V\<close>, never panics, never enters a
  binder context, and returns a value that satisfies \<open>post\<close>.
\<close>

datatype notice = Note_Demand relation_demand | Note_Apparent relation_demand | Note_Exhaustion exhaustion

primrec closed_prog :: "type_id set \<Rightarrow> notice set \<Rightarrow> ('a \<Rightarrow> bool) \<Rightarrow> 'a prog \<Rightarrow> bool" where
  "closed_prog V N post (Return x) \<longleftrightarrow> post x"
| "closed_prog V N post Panic \<longleftrightarrow> False"
| "closed_prog V N post (Relate s t k a w c) \<longleftrightarrow>
     s \<in> V \<and> t \<in> V \<and> a \<noteq> Acc_Fresh \<and> (\<forall>r. closed_prog V N post (c r))"
| "closed_prog V N post (Ask_Mode c) \<longleftrightarrow> (\<forall>b. closed_prog V N post (c b))"
| "closed_prog V N post (Set_Mode b p) \<longleftrightarrow> closed_prog V N post p"
| "closed_prog V N post (Ask_Allow c) \<longleftrightarrow> (\<forall>b. closed_prog V N post (c b))"
| "closed_prog V N post (Ask_Binders c) \<longleftrightarrow> closed_prog V N post (c [])"
| "closed_prog V N post (Push_Binder x p) \<longleftrightarrow> False"
| "closed_prog V N post (Pop_Binder p) \<longleftrightarrow> False"
| "closed_prog V N post (Specialize i x t p) \<longleftrightarrow> False"
| "closed_prog V N post (Record_Demand d p) \<longleftrightarrow> Note_Demand d \<in> N \<and> closed_prog V N post p"
| "closed_prog V N post (Record_Apparent d p) \<longleftrightarrow> Note_Apparent d \<in> N \<and> closed_prog V N post p"
| "closed_prog V N post (Record_Exhaustion e p) \<longleftrightarrow> Note_Exhaustion e \<in> N \<and> closed_prog V N post p"

lemma closed_bind:
  "closed_prog V N post p \<Longrightarrow> (\<And>x. post x \<Longrightarrow> closed_prog V N post' (f x)) \<Longrightarrow> closed_prog V N post' (bind p f)"
  by (induction p) auto

lemma closed_results_ne:
  assumes "\<And>s t k. \<exists>r. P s t k r" and "closed_prog V N post p"
  shows "results P al p \<noteq> {}"
  using assms(2)
proof (induction p)
  case (Relate s t k a w c)
  obtain r where r: "P s t k r" using assms(1) by blast
  from Relate have "results P al (c r) \<noteq> {}" by auto
  with r show ?case by auto
qed auto

text \<open>One program is below another when better answers lead the second to better results.\<close>

definition better :: "answers \<Rightarrow> answers \<Rightarrow> bool" where
  "better P Q \<longleftrightarrow> (\<forall>s t k r r'. P s t k r \<longrightarrow> Q s t k r' \<longrightarrow> is_yes r \<longrightarrow> is_yes r')"

definition below :: "('a \<Rightarrow> 'a \<Rightarrow> bool) \<Rightarrow> 'a prog \<Rightarrow> 'a prog \<Rightarrow> bool" where
  "below le p q \<longleftrightarrow> (\<forall>P Q al. better P Q \<longrightarrow> (\<forall>x\<in>results P al p. \<forall>y\<in>results Q al q. le x y))"

definition no_worse :: "relation \<Rightarrow> relation \<Rightarrow> bool" where
  "no_worse r r' \<longleftrightarrow> (is_yes r \<longrightarrow> is_yes r')"

lemma no_worse_simps [simp]: "no_worse r Yes" "no_worse (No c) r" "no_worse Yes (No c) \<longleftrightarrow> False"
  by (simp_all add: no_worse_def)

lemma no_worse_refl [simp]: "no_worse r r"
  by (simp add: no_worse_def)

lemma below_bind:
  assumes "below le p q" and "\<And>x y. le x y \<Longrightarrow> below le' (f x) (g y)"
  shows "below le' (bind p f) (bind q g)"
  using assms unfolding below_def results_bind by blast

lemma below_Relate: "below no_worse (Relate s t k a w Return) (Relate s t k a' w' Return)"
  by (auto simp: below_def better_def no_worse_def)

lemma below_const: "(\<And>y. le x y) \<Longrightarrow> below le (Return x) q" "(\<And>x. le x y) \<Longrightarrow> below le p (Return y)"
  by (simp_all add: below_def)

lemma below_modes:
  "(\<And>b b'. below le (c b) (c' b')) \<Longrightarrow> below le (Ask_Mode c) (Ask_Mode c')"
  "below le (Set_Mode b p) (Set_Mode b' q) \<longleftrightarrow> below le p q"
  "(\<And>b. below le (c b) (c' b)) \<Longrightarrow> below le (Ask_Allow c) (Ask_Allow c')"
  "below le (Ask_Binders d) (Ask_Binders d') \<longleftrightarrow> below le (d []) (d' [])"
  "below le (Record_Demand d1 p) (Record_Demand d2 q) \<longleftrightarrow> below le p q"
  "below le (Record_Apparent d1 p) (Record_Apparent d2 q) \<longleftrightarrow> below le p q"
  "below le (Record_Exhaustion e1 p) (Record_Exhaustion e2 q) \<longleftrightarrow> below le p q"
  by (fastforce simp: below_def)+

text \<open>A fine program is closed and monotone.\<close>

definition fine :: "type_id set \<Rightarrow> notice set \<Rightarrow> ('a \<Rightarrow> 'a \<Rightarrow> bool) \<Rightarrow> ('a \<Rightarrow> bool) \<Rightarrow> 'a prog \<Rightarrow> bool" where
  "fine V N le post p \<longleftrightarrow> closed_prog V N post p \<and> below le p p"

abbreviation fine_rel :: "type_id set \<Rightarrow> notice set \<Rightarrow> relation prog \<Rightarrow> bool" where
  "fine_rel V N \<equiv> fine V N no_worse (\<lambda>_. True)"

lemma fine_Return: "post x \<Longrightarrow> le x x \<Longrightarrow> fine V N le post (Return x)"
  by (simp add: fine_def below_def)

lemma fine_verdict [fine_intros]: "fine_rel V N (Return r)"
  by (rule fine_Return) simp_all

lemma fine_reject [fine_intros]: "fine_rel V N (reject src tgt)"
  by (simp add: reject_def fine_verdict)

lemma fine_bind:
  assumes "fine V N le post p" and "\<And>x. post x \<Longrightarrow> closed_prog V N post' (f x)"
    and "\<And>x y. le x y \<Longrightarrow> below le' (f x) (f y)"
  shows "fine V N le' post' (bind p f)"
  using assms unfolding fine_def by (auto intro: closed_bind below_bind)

lemma fine_must:
  assumes "fine_rel V N p" and "fine V N le post k" and "\<And>child. post (w child)" and "\<And>child y. le (w child) y"
  shows "fine V N le post (must p w k)"
  unfolding must_def
proof (rule fine_bind [OF assms(1)])
  fix x :: relation
  show "closed_prog V N post (case x of Yes \<Rightarrow> k | No child \<Rightarrow> Return (w child))"
    using assms(2,3) by (auto simp: fine_def split: relation.split)
next
  fix x y :: relation
  assume "no_worse x y"
  then show "below le (case x of Yes \<Rightarrow> k | No child \<Rightarrow> Return (w child))
               (case y of Yes \<Rightarrow> k | No child \<Rightarrow> Return (w child))"
    using assms(2,4) by (cases x; cases y) (auto simp: fine_def intro: below_const)
qed

lemma fine_may:
  assumes "fine_rel V N p" and "fine V N le post k" and "post w" and "\<And>x. le x w"
  shows "fine V N le post (may p w k)"
  unfolding may_def
proof (rule fine_bind [OF assms(1)])
  fix x :: relation
  show "closed_prog V N post (case x of Yes \<Rightarrow> Return w | No _ \<Rightarrow> k)"
    using assms(2,3) by (auto simp: fine_def split: relation.split)
next
  fix x y :: relation
  assume "no_worse x y"
  then show "below le (case x of Yes \<Rightarrow> Return w | No _ \<Rightarrow> k) (case y of Yes \<Rightarrow> Return w | No _ \<Rightarrow> k)"
    using assms(2,4) by (cases x; cases y) (auto simp: fine_def intro: below_const)
qed

lemma fine_must_rel [fine_intros]: "fine_rel V N p \<Longrightarrow> fine_rel V N k \<Longrightarrow> fine_rel V N (must p (\<lambda>child. No (w child)) k)"
  by (rule fine_must) simp_all

lemma fine_may_rel [fine_intros]: "fine_rel V N p \<Longrightarrow> fine_rel V N k \<Longrightarrow> fine_rel V N (may p Yes k)"
  by (rule fine_may) simp_all

lemma fine_must_each:
  assumes "\<And>x. x \<in> set xs \<Longrightarrow> fine_rel V N (p x)" and "fine V N le post k"
    and "\<And>x child. post (w x child)" and "\<And>x child y. le (w x child) y"
  shows "fine V N le post (must_each p w xs k)"
  using assms(1) by (induction xs) (auto intro!: fine_must assms(2-4))

lemma fine_may_each:
  assumes "\<And>x. x \<in> set xs \<Longrightarrow> fine_rel V N (p x)" and "fine V N le post k" and "post w" and "\<And>x. le x w"
  shows "fine V N le post (may_each p w xs k)"
  using assms(1) by (induction xs) (auto intro!: fine_may assms(2-4))

lemma fine_must_each_rel [fine_intros]:
  "(\<And>x. x \<in> set xs \<Longrightarrow> fine_rel V N (p x)) \<Longrightarrow> fine_rel V N k \<Longrightarrow> fine_rel V N (must_each p (\<lambda>x child. No (w x child)) xs k)"
  by (rule fine_must_each) simp_all

lemma fine_may_each_rel [fine_intros]:
  "(\<And>x. x \<in> set xs \<Longrightarrow> fine_rel V N (p x)) \<Longrightarrow> fine_rel V N k \<Longrightarrow> fine_rel V N (may_each p Yes xs k)"
  by (rule fine_may_each) simp_all

lemma fine_Relate [fine_intros]:
  "s \<in> V \<Longrightarrow> t \<in> V \<Longrightarrow> a \<noteq> Acc_Fresh \<Longrightarrow> fine_rel V N (Relate s t k a w Return)"
  by (simp add: fine_def below_Relate)

lemma fine_rel_call [fine_intros]: "s \<in> V \<Longrightarrow> t \<in> V \<Longrightarrow> fine_rel V N (rel s t k)"
  by (simp add: fine_def rel_def below_modes below_Relate)

lemma fine_probe [fine_intros]: "s \<in> V \<Longrightarrow> t \<in> V \<Longrightarrow> fine_rel V N (probe s t k)"
  by (simp add: fine_def probe_def below_Relate)

lemma fine_look [fine_intros]:
  "r \<noteq> None \<Longrightarrow> (\<And>x. r = Some x \<Longrightarrow> fine V N le post (f x)) \<Longrightarrow> fine V N le post (look r f)"
  by (auto simp: look_def)

lemma fine_let_some [fine_intros]:
  "r \<noteq> None \<Longrightarrow> fine V N le post missing \<Longrightarrow> (\<And>x. r = Some (Some x) \<Longrightarrow> fine V N le post (f x)) \<Longrightarrow>
     fine V N le post (let_some r missing f)"
  by (auto simp: let_some_def look_def split: option.split)

lemma fine_if [fine_intros]:
  "(b \<Longrightarrow> fine V N le post p) \<Longrightarrow> (\<not> b \<Longrightarrow> fine V N le post q) \<Longrightarrow> fine V N le post (if b then p else q)"
  by simp

lemma fine_option [fine_intros]:
  "(x = None \<Longrightarrow> fine V N le post p) \<Longrightarrow> (\<And>y. x = Some y \<Longrightarrow> fine V N le post (f y)) \<Longrightarrow>
     fine V N le post (case x of None \<Rightarrow> p | Some y \<Rightarrow> f y)"
  by (simp split: option.split)

lemma fine_Ask_Allow [fine_intros]: "(\<And>b. fine V N le post (c b)) \<Longrightarrow> fine V N le post (Ask_Allow c)"
  by (simp add: fine_def below_modes)

lemma fine_Ask_Binders [fine_intros]: "fine V N le post (c []) \<Longrightarrow> fine V N le post (Ask_Binders c)"
  by (simp add: fine_def below_modes)

lemma fine_Record [fine_intros]:
  "Note_Demand d \<in> N \<Longrightarrow> fine V N le post p \<Longrightarrow> fine V N le post (Record_Demand d p)"
  "Note_Apparent d \<in> N \<Longrightarrow> fine V N le post p \<Longrightarrow> fine V N le post (Record_Apparent d p)"
  "Note_Exhaustion e \<in> N \<Longrightarrow> fine V N le post p \<Longrightarrow> fine V N le post (Record_Exhaustion e p)"
  by (simp_all add: fine_def below_modes)

lemma fine_with_reason_mode:
  assumes "fine V N le post body"
  shows "fine V N le post (with_reason_mode mode body)"
proof -
  have "closed_prog V N post (bind body (\<lambda>x. Set_Mode b (Return x)))" for b
    using assms by (auto simp: fine_def intro: closed_bind)
  moreover have "below le (bind body (\<lambda>x. Set_Mode b (Return x))) (bind body (\<lambda>x. Set_Mode b' (Return x)))" for b b'
    using assms by (intro below_bind [of le]) (auto simp: fine_def below_modes below_def)
  ultimately show ?thesis by (simp add: fine_def with_reason_mode_def below_modes)
qed

end
