(* ===== verification/Relation_Shapes.thy ===== *)
theory Relation_Shapes
  imports Relation_Program
begin

text \<open>
  The read-only part of the relation engine (\<^verbatim>\<open>relate/relation/collections.rs\<close>, \<^verbatim>\<open>objects.rs\<close> and
  \<^verbatim>\<open>advanced.rs\<close>): tuple and parameter shapes, the walks over the type graph, property lookup by a
  merge of two sorted lists, and the matching of template patterns. A shape function recurses
  through stored tuple rests and may therefore not return on a cyclic arena; like a panic, that is
  the outer \<open>None\<close>. The walks keep a visited set and always return.
\<close>

section \<open>Tuple shapes\<close>

record tuple_shape =
  ts_prefix :: "type_id list"
  ts_variadic :: "type_id option"
  ts_suffix :: "type_id list"

definition ts_fixed :: "type_id list \<Rightarrow> tuple_shape" where
  "ts_fixed elements = \<lparr>ts_prefix = elements, ts_variadic = None, ts_suffix = []\<rparr>"

definition ts_min_len :: "tuple_shape \<Rightarrow> nat" where
  "ts_min_len s = length (ts_prefix s) + length (ts_suffix s)"

definition ts_fixed_len :: "tuple_shape \<Rightarrow> nat option" where
  "ts_fixed_len s =
     (if ts_variadic s \<noteq> None then None else Some (length (ts_prefix s) + length (ts_suffix s)))"

definition ts_accepts_len :: "tuple_shape \<Rightarrow> nat \<Rightarrow> bool" where
  "ts_accepts_len s len \<longleftrightarrow>
     \<not> len < ts_min_len s \<and> (ts_variadic s \<noteq> None \<or> len = ts_min_len s)"

definition ts_element_at :: "tuple_shape \<Rightarrow> nat \<Rightarrow> nat \<Rightarrow> type_id option" where
  "ts_element_at s index len =
     (if \<not> ts_accepts_len s len \<or> index \<ge> len then None
      else if index < length (ts_prefix s) then nth_opt (ts_prefix s) index
      else let suffix_start = len - length (ts_suffix s) in
        if index \<ge> suffix_start then nth_opt (ts_suffix s) (index - suffix_start)
        else ts_variadic s)"

text \<open>The elements before and after the rest position around the shape of the rest.\<close>

definition ts_graft :: "tuple_type \<Rightarrow> tuple_rest_type \<Rightarrow> tuple_shape \<Rightarrow> tuple_shape" where
  "ts_graft tuple rest inner =
     \<lparr>ts_prefix = take (tr_position rest) (tu_elements tuple) @ ts_prefix inner,
      ts_variadic = ts_variadic inner,
      ts_suffix = ts_suffix inner @ drop (tr_position rest) (tu_elements tuple)\<rparr>"

definition unwrap_or :: "'a option \<Rightarrow> 'a \<Rightarrow> 'a" where
  "unwrap_or x d = (case x of Some y \<Rightarrow> y | None \<Rightarrow> d)"

partial_function (option) rest_tuple_shape :: "store \<Rightarrow> type_id \<Rightarrow> tuple_shape option option" where [code]:
  "rest_tuple_shape st ty0 = do {
     operand \<leftarrow> readonly_operand st ty0;
     let ty = unwrap_or operand ty0;
     array \<leftarrow> array_type_of st ty;
     case array of
       Some element \<Rightarrow> Some (Some \<lparr>ts_prefix = [], ts_variadic = Some element, ts_suffix = []\<rparr>)
     | None \<Rightarrow> do {
         found \<leftarrow> tuple_type_of st ty;
         case found of
           None \<Rightarrow> Some None
         | Some tuple \<Rightarrow>
             (case tu_rest tuple of
                None \<Rightarrow> Some (Some (ts_fixed (tu_elements tuple)))
              | Some rest \<Rightarrow>
                  if tr_position rest > length (tu_elements tuple) then Some None
                  else do {
                    inner \<leftarrow> rest_tuple_shape st (tr_ty rest);
                    Some (map_option (ts_graft tuple rest) inner)
                  })
       }
   }"

definition tuple_shape_of :: "store \<Rightarrow> tuple_type \<Rightarrow> tuple_shape option option" where
  "tuple_shape_of st tuple =
     (case tu_rest tuple of
        None \<Rightarrow> Some (Some (ts_fixed (tu_elements tuple)))
      | Some rest \<Rightarrow>
          if tr_position rest > length (tu_elements tuple) then Some None
          else do {
            inner \<leftarrow> rest_tuple_shape st (tr_ty rest);
            Some (map_option (ts_graft tuple rest) inner)
          })"

text \<open>The two functions call each other, as in the source.\<close>

lemma rest_tuple_shape_unfold:
  "rest_tuple_shape st ty0 = do {
     operand \<leftarrow> readonly_operand st ty0;
     let ty = unwrap_or operand ty0;
     array \<leftarrow> array_type_of st ty;
     case array of
       Some element \<Rightarrow> Some (Some \<lparr>ts_prefix = [], ts_variadic = Some element, ts_suffix = []\<rparr>)
     | None \<Rightarrow> do {
         found \<leftarrow> tuple_type_of st ty;
         case found of None \<Rightarrow> Some None | Some tuple \<Rightarrow> tuple_shape_of st tuple
       }
   }"
  by (subst rest_tuple_shape.simps) (simp add: tuple_shape_of_def [abs_def])

section \<open>Parameter shapes\<close>

record param_slot =
  ps_ty :: type_id
  ps_accepts_undefined :: bool

record param_shape =
  px_prefix :: "param_slot list"
  px_variadic :: "param_slot option"
  px_suffix :: "param_slot list"
  px_non_array_rest :: bool

definition px_min_len :: "param_shape \<Rightarrow> nat" where
  "px_min_len s =
     (if px_suffix s \<noteq> [] then length (px_prefix s) + length (px_suffix s)
      else length (filter (\<lambda>slot. \<not> ps_accepts_undefined slot) (px_prefix s)))"

definition px_parameter_count :: "param_shape \<Rightarrow> nat" where
  "px_parameter_count s = length (px_prefix s) + of_bool (px_variadic s \<noteq> None)"

definition px_positional_slot :: "param_shape \<Rightarrow> nat \<Rightarrow> param_slot option" where
  "px_positional_slot s index =
     (case nth_opt (px_prefix s) index of Some slot \<Rightarrow> Some slot | None \<Rightarrow> px_variadic s)"

record param_tail =
  pt_prefix :: "param_slot list"
  pt_variadic :: "param_slot option"
  pt_suffix :: "param_slot list"

record param_tail_slot =
  pl_slot :: param_slot
  pl_required :: bool
  pl_rest :: bool

definition px_tail :: "param_shape \<Rightarrow> nat \<Rightarrow> param_tail" where
  "px_tail s start = \<lparr>pt_prefix = drop start (px_prefix s), pt_variadic = px_variadic s, pt_suffix = px_suffix s\<rparr>"

definition pt_min_len :: "param_tail \<Rightarrow> nat" where
  "pt_min_len t =
     (if pt_suffix t \<noteq> [] then length (pt_prefix t) + length (pt_suffix t)
      else length (filter (\<lambda>slot. \<not> ps_accepts_undefined slot) (pt_prefix t)))"

definition pt_max_len :: "param_tail \<Rightarrow> nat option" where
  "pt_max_len t =
     (if pt_variadic t \<noteq> None then None else Some (length (pt_prefix t) + length (pt_suffix t)))"

definition pt_slot_count :: "param_tail \<Rightarrow> nat" where
  "pt_slot_count t = length (pt_prefix t) + of_bool (pt_variadic t \<noteq> None) + length (pt_suffix t)"

definition pt_slot :: "param_tail \<Rightarrow> nat \<Rightarrow> param_tail_slot option" where
  "pt_slot t index =
     (case nth_opt (pt_prefix t) index of
        Some slot \<Rightarrow>
          Some \<lparr>pl_slot = slot, pl_required = pt_suffix t \<noteq> [] \<or> \<not> ps_accepts_undefined slot, pl_rest = False\<rparr>
      | None \<Rightarrow>
          let rest_index = length (pt_prefix t);
              after = rest_index + of_bool (pt_variadic t \<noteq> None);
              from_suffix =
                (if index < after then None
                 else map_option (\<lambda>slot. \<lparr>pl_slot = slot, pl_required = True, pl_rest = False\<rparr>)
                        (nth_opt (pt_suffix t) (index - after))) in
          case pt_variadic t of
            Some slot \<Rightarrow>
              if index = rest_index then Some \<lparr>pl_slot = slot, pl_required = False, pl_rest = True\<rparr>
              else from_suffix
          | None \<Rightarrow> from_suffix)"

definition plain_slot :: "type_id \<Rightarrow> param_slot" where
  "plain_slot ty = \<lparr>ps_ty = ty, ps_accepts_undefined = False\<rparr>"

definition variadic_shape :: "type_id \<Rightarrow> bool \<Rightarrow> param_shape" where
  "variadic_shape ty non_array =
     \<lparr>px_prefix = [], px_variadic = Some (plain_slot ty), px_suffix = [], px_non_array_rest = non_array\<rparr>"

definition fixed_shape :: "param_slot list \<Rightarrow> param_shape" where
  "fixed_shape slots = \<lparr>px_prefix = slots, px_variadic = None, px_suffix = [], px_non_array_rest = False\<rparr>"

text \<open>The elements of a tuple around the parameter shape of its rest.\<close>

definition px_graft :: "tuple_type \<Rightarrow> tuple_rest_type \<Rightarrow> param_shape \<Rightarrow> param_shape" where
  "px_graft tuple rest inner =
     (let prefix = map plain_slot (take (tr_position rest) (tu_elements tuple)) @ px_prefix inner;
          combined_suffix = px_suffix inner @ map plain_slot (drop (tr_position rest) (tu_elements tuple)) in
      if px_variadic inner = None then fixed_shape (prefix @ combined_suffix)
      else \<lparr>px_prefix = prefix, px_variadic = px_variadic inner, px_suffix = combined_suffix,
            px_non_array_rest = px_non_array_rest inner \<or> combined_suffix \<noteq> []\<rparr>)"

partial_function (option) rest_param_shape :: "well_known \<Rightarrow> store \<Rightarrow> type_id \<Rightarrow> param_shape option option" where [code]:
  "rest_param_shape wk st ty0 = do {
     operand \<leftarrow> readonly_operand st ty0;
     let ty = unwrap_or operand ty0;
     if ty = wk_any wk \<or> ty = wk_never wk then Some (Some (variadic_shape ty False))
     else do {
       array \<leftarrow> array_type_of st ty;
       case array of
         Some element \<Rightarrow> Some (Some (variadic_shape element False))
       | None \<Rightarrow> do {
           found \<leftarrow> tuple_type_of st ty;
           case found of
             None \<Rightarrow> Some (Some (variadic_shape ty True))
           | Some tuple \<Rightarrow>
               (case tu_rest tuple of
                  None \<Rightarrow> Some (Some (fixed_shape (map plain_slot (tu_elements tuple))))
                | Some rest \<Rightarrow>
                    if tr_position rest > length (tu_elements tuple) then Some None
                    else do {
                      inner \<leftarrow> rest_param_shape wk st (tr_ty rest);
                      Some (map_option (px_graft tuple rest) inner)
                    })
         }
     }
   }"

definition tuple_param_shape :: "well_known \<Rightarrow> store \<Rightarrow> tuple_type \<Rightarrow> param_shape option option" where
  "tuple_param_shape wk st tuple =
     (case tu_rest tuple of
        None \<Rightarrow> Some (Some (fixed_shape (map plain_slot (tu_elements tuple))))
      | Some rest \<Rightarrow>
          if tr_position rest > length (tu_elements tuple) then Some None
          else do {
            inner \<leftarrow> rest_param_shape wk st (tr_ty rest);
            Some (map_option (px_graft tuple rest) inner)
          })"

definition function_param_shape :: "well_known \<Rightarrow> store \<Rightarrow> function_type \<Rightarrow> param_shape option option" where
  "function_param_shape wk st f =
     (let prefix = map (\<lambda>p. \<lparr>ps_ty = pa_ty p, ps_accepts_undefined = pa_optional p \<or> pa_has_default p\<rparr>) (fixed_params f) in
      case rest_param f of
        None \<Rightarrow> Some (Some (fixed_shape prefix))
      | Some rest \<Rightarrow> do {
          inner \<leftarrow> rest_param_shape wk st (pa_ty rest);
          Some (map_option (\<lambda>shape. shape\<lparr>px_prefix := prefix @ px_prefix shape\<rparr>) inner)
        })"

lemma rest_param_shape_unfold:
  "rest_param_shape wk st ty0 = do {
     operand \<leftarrow> readonly_operand st ty0;
     let ty = unwrap_or operand ty0;
     if ty = wk_any wk \<or> ty = wk_never wk then Some (Some (variadic_shape ty False))
     else do {
       array \<leftarrow> array_type_of st ty;
       case array of
         Some element \<Rightarrow> Some (Some (variadic_shape element False))
       | None \<Rightarrow> do {
           found \<leftarrow> tuple_type_of st ty;
           case found of None \<Rightarrow> Some (Some (variadic_shape ty True)) | Some tuple \<Rightarrow> tuple_param_shape wk st tuple
         }
     }
   }"
  by (subst rest_param_shape.simps) (simp add: tuple_param_shape_def [abs_def] cong: if_cong)

section \<open>Walks over the type graph\<close>

text \<open>
  The iterative walk with a visited set. A visit of a type answers whether it is a hit and, if not,
  which types it pushes, in order; the next type is popped from the end.
\<close>

function walk :: "(type_id \<Rightarrow> (bool \<times> type_id list) option) \<Rightarrow> type_id list \<Rightarrow> type_id set \<Rightarrow> bool option" where
  "walk visit [] seen = Some False"
| "walk visit (t # pending) seen =
     (if t \<in> seen then walk visit pending seen
      else case visit t of
        None \<Rightarrow> None
      | Some (True, _) \<Rightarrow> Some True
      | Some (False, pushed) \<Rightarrow> walk visit (rev pushed @ pending) (insert t seen))"
  by pat_completeness auto

lemma card_insert_less: "(t :: 'a :: finite) \<notin> seen \<Longrightarrow> card (- insert t seen) < card (- seen)"
  by (rule psubset_card_mono) auto

termination walk
  by (relation "measures [\<lambda>(visit, pending, seen). card (- seen), \<lambda>(visit, pending, seen). length pending]")
     (auto simp: card_insert_less)

text \<open>\<open>stack.extend(option)\<close>.\<close>

definition opt_list :: "'a option \<Rightarrow> 'a list" where
  "opt_list x = (case x of None \<Rightarrow> [] | Some y \<Rightarrow> [y])"

definition pushes_of :: "'a option option \<Rightarrow> ('a \<Rightarrow> type_id list) \<Rightarrow> (bool \<times> type_id list) option" where
  "pushes_of found f = map_option (\<lambda>x. (False, case x of None \<Rightarrow> [] | Some y \<Rightarrow> f y)) found"

definition object_children :: "object_type \<Rightarrow> type_id list" where
  "object_children ob = map pr_ty (ob_properties ob) @ opt_list (ob_string_index ob) @
     opt_list (ob_number_index ob) @ ob_call_signatures ob @ ob_construct_signatures ob"

definition infer_visit :: "store \<Rightarrow> type_id \<Rightarrow> (bool \<times> type_id list) option" where
  "infer_visit st t = do {
     tg \<leftarrow> tag st t;
     (case tg of
        Tag_Infer \<Rightarrow> Some (True, [])
      | Tag_Object \<Rightarrow> pushes_of (object_type_of st t) object_children
      | Tag_Function \<Rightarrow> pushes_of (function_type_of st t)
          (\<lambda>f. opt_list (fn_receiver f) @ map pa_ty (fn_params f) @ [fn_ret f])
      | Tag_Union \<Rightarrow> pushes_of (union_members st t) id
      | Tag_Intersection \<Rightarrow> pushes_of (intersection_members st t) id
      | Tag_Array \<Rightarrow> pushes_of (array_type_of st t) (\<lambda>element. [element])
      | Tag_Tuple \<Rightarrow> pushes_of (tuple_type_of st t) (\<lambda>tu. tu_elements tu @ opt_list (map_option tr_ty (tu_rest tu)))
      | Tag_Readonly \<Rightarrow> pushes_of (readonly_operand st t) (\<lambda>operand. [operand])
      | Tag_Instantiation \<Rightarrow> pushes_of (instantiation_type_of st t) (\<lambda>i. map snd (in_args i))
      | Tag_ClassInstance \<Rightarrow> pushes_of (class_instance_type_of st t) ci_args
      | Tag_Template \<Rightarrow> pushes_of (template_type_of st t) te_holes
      | Tag_Keyof \<Rightarrow> pushes_of (keyof_operand st t) (\<lambda>operand. [operand])
      | Tag_DeferredIndexedAccess \<Rightarrow> pushes_of (deferred_indexed_access_type_of st t) (\<lambda>d. [di_object d, di_index d])
      | Tag_Declared \<Rightarrow> pushes_of (declared_type_of st t) (\<lambda>d. map snd (de_mapper d))
      | Tag_Intrinsic \<Rightarrow> Some (False, [])
      | Tag_Literal \<Rightarrow> Some (False, [])
      | Tag_TypeParam \<Rightarrow> Some (False, [])
      | Tag_Conditional \<Rightarrow> Some (False, [])
      | Tag_Mapped \<Rightarrow> Some (False, [])
      | Tag_MappedValue \<Rightarrow> Some (False, []))
   }"

definition contains_infer :: "store \<Rightarrow> type_id \<Rightarrow> bool option" where
  "contains_infer st ty = walk (infer_visit st) [ty] {}"

text \<open>\<open>free_params\<close> is sorted, so \<open>binary_search(..).is_ok()\<close> is membership.\<close>

definition type_param_visit :: "store \<Rightarrow> type_param_id \<Rightarrow> type_id \<Rightarrow> (bool \<times> type_id list) option" where
  "type_param_visit st parameter t = do {
     tg \<leftarrow> tag st t;
     (case tg of
        Tag_TypeParam \<Rightarrow> map_option (\<lambda>found. (map_option tp_id found = Some parameter, [])) (type_param_of st t)
      | Tag_Object \<Rightarrow> pushes_of (object_type_of st t) object_children
      | Tag_Function \<Rightarrow> pushes_of (function_type_of st t)
          (\<lambda>f. opt_list (fn_receiver f) @ map pa_ty (fn_params f) @ [fn_ret f] @
               concat (map (\<lambda>g. opt_list (gp_constraint g) @ opt_list (gp_default g)) (fn_type_params f)))
      | Tag_Union \<Rightarrow> pushes_of (union_members st t) id
      | Tag_Intersection \<Rightarrow> pushes_of (intersection_members st t) id
      | Tag_Array \<Rightarrow> pushes_of (array_type_of st t) (\<lambda>element. [element])
      | Tag_Tuple \<Rightarrow> pushes_of (tuple_type_of st t) (\<lambda>tu. tu_elements tu @ opt_list (map_option tr_ty (tu_rest tu)))
      | Tag_Readonly \<Rightarrow> pushes_of (readonly_operand st t) (\<lambda>operand. [operand])
      | Tag_Conditional \<Rightarrow> pushes_of (conditional_type_of st t)
          (\<lambda>c. [co_check c, co_extends_ty c, co_true_branch c, co_false_branch c])
      | Tag_Instantiation \<Rightarrow> pushes_of (instantiation_type_of st t) (\<lambda>i. in_base i # map snd (in_args i))
      | Tag_ClassInstance \<Rightarrow> pushes_of (class_instance_type_of st t) ci_args
      | Tag_Mapped \<Rightarrow> pushes_of (mapped_type_of st t)
          (\<lambda>m. [ma_key_source m, ma_value_template m] @ opt_list (ma_modifiers_source m))
      | Tag_Template \<Rightarrow> pushes_of (template_type_of st t) te_holes
      | Tag_Keyof \<Rightarrow> pushes_of (keyof_operand st t) (\<lambda>operand. [operand])
      | Tag_DeferredIndexedAccess \<Rightarrow> pushes_of (deferred_indexed_access_type_of st t) (\<lambda>d. [di_object d, di_index d])
      | Tag_Declared \<Rightarrow> map_option (\<lambda>found. case found of
            None \<Rightarrow> (False, [])
          | Some d \<Rightarrow>
              (parameter \<notin> fst ` set (de_mapper d) \<and>
                 (case declared_recipe st (de_recipe d) of
                    None \<Rightarrow> False
                  | Some recipe \<Rightarrow> parameter \<in> set (dr_free_params recipe)),
               map snd (de_mapper d))) (declared_type_of st t)
      | Tag_Intrinsic \<Rightarrow> Some (False, [])
      | Tag_Literal \<Rightarrow> Some (False, [])
      | Tag_Infer \<Rightarrow> Some (False, [])
      | Tag_MappedValue \<Rightarrow> Some (False, []))
   }"

definition type_contains_type_param :: "store \<Rightarrow> type_id \<Rightarrow> type_param_id \<Rightarrow> bool option" where
  "type_contains_type_param st ty parameter = walk (type_param_visit st parameter) [ty] {}"

text \<open>\<open>||\<close> and \<open>any\<close> on tests that may panic.\<close>

fun any_m :: "('a \<Rightarrow> bool option) \<Rightarrow> 'a list \<Rightarrow> bool option" where
  "any_m p [] = Some False"
| "any_m p (x # xs) = do { b \<leftarrow> p x; if b then Some True else any_m p xs }"

definition or_m :: "bool option \<Rightarrow> bool option \<Rightarrow> bool option" where
  "or_m p q = do { b \<leftarrow> p; if b then Some True else q }"

definition function_parameters_contain_type_param :: "store \<Rightarrow> function_type \<Rightarrow> type_param_id \<Rightarrow> bool option" where
  "function_parameters_contain_type_param st f parameter =
     or_m (any_m (\<lambda>receiver. type_contains_type_param st receiver parameter) (opt_list (fn_receiver f)))
          (any_m (\<lambda>slot. type_contains_type_param st (pa_ty slot) parameter) (fn_params f))"

definition function_shape_contains_type_param :: "store \<Rightarrow> function_type \<Rightarrow> type_param_id \<Rightarrow> bool option" where
  "function_shape_contains_type_param st f parameter =
     or_m (function_parameters_contain_type_param st f parameter)
          (type_contains_type_param st (fn_ret f) parameter)"

text \<open>The values observable through a native numeric index; a type met twice gives up.\<close>

function number_index_values ::
    "well_known \<Rightarrow> store \<Rightarrow> type_id list \<Rightarrow> type_id set \<Rightarrow> type_id list \<Rightarrow> type_id list option option" where
  "number_index_values wk st [] seen vals = Some (Some vals)"
| "number_index_values wk st (current # pending) seen vals =
     (if current \<in> seen then Some None
      else do {
        operand \<leftarrow> readonly_operand st current;
        case operand of
          Some operand \<Rightarrow> number_index_values wk st (operand # pending) (insert current seen) vals
        | None \<Rightarrow> do {
            array \<leftarrow> array_type_of st current;
            case array of
              Some element \<Rightarrow> number_index_values wk st pending (insert current seen) (vals @ [element])
            | None \<Rightarrow> do {
                tuple \<leftarrow> tuple_type_of st current;
                case tuple of
                  Some tuple \<Rightarrow>
                    number_index_values wk st (opt_list (map_option tr_ty (tu_rest tuple)) @ pending)
                      (insert current seen) (vals @ tu_elements tuple)
                | None \<Rightarrow> do {
                    tg \<leftarrow> tag st current;
                    kind \<leftarrow> intrinsic_kind_of st current;
                    literal \<leftarrow> literal_value_of st current;
                    if tg = Tag_Template \<or> kind = Some Kind_String \<or> map_option base_kind literal = Some Kind_String
                    then number_index_values wk st pending (insert current seen) (vals @ [wk_string wk])
                    else Some None
                  }
              }
          }
      })"
  by pat_completeness auto

termination number_index_values
  by (relation "measure (\<lambda>(wk, st, pending, seen, vals). card (- seen))") (simp_all add: card_insert_less)

definition apparent_number_index_values :: "well_known \<Rightarrow> store \<Rightarrow> type_id \<Rightarrow> type_id list option option" where
  "apparent_number_index_values wk st root = number_index_values wk st [root] {} []"

section \<open>Properties\<close>

fun names_overlap :: "property_type list \<Rightarrow> property_type list \<Rightarrow> bool" where
  "names_overlap (left # lefts) (right # rights) =
     (if pr_key left < pr_key right then names_overlap lefts (right # rights)
      else if pr_key right < pr_key left then names_overlap (left # lefts) rights
      else True)"
| "names_overlap _ _ = False"

definition object_property_names_overlap :: "store \<Rightarrow> type_id \<Rightarrow> type_id \<Rightarrow> bool option" where
  "object_property_names_overlap st left right = do {
     l \<leftarrow> object_type_of st left;
     case l of
       None \<Rightarrow> Some False
     | Some l \<Rightarrow> do {
         r \<leftarrow> object_type_of st right;
         Some (case r of None \<Rightarrow> False | Some r \<Rightarrow> names_overlap (ob_properties l) (ob_properties r))
       }
   }"

text \<open>The source cursor of the merge: the properties from it on, and the match for one target key.\<close>

fun seek :: "property_key \<Rightarrow> property_type list \<Rightarrow> property_type option \<times> property_type list" where
  "seek key [] = (None, [])"
| "seek key (p # ps) =
     (if pr_key p < key then seek key ps
      else if pr_key p = key then (Some p, ps)
      else (None, p # ps))"

text \<open>The source property each target property is compared with.\<close>

fun merge_properties ::
    "(property_key \<times> property_type option) option \<Rightarrow> property_type list \<Rightarrow> property_type list \<Rightarrow>
     (property_type \<times> property_type option) list" where
  "merge_properties prev cursor [] = []"
| "merge_properties prev cursor (tgt # tgts) =
     (case prev of
        Some (key, found) \<Rightarrow>
          if key = pr_key tgt then (tgt, found) # merge_properties prev cursor tgts
          else let (found, cursor) = seek (pr_key tgt) cursor in
            (tgt, found) # merge_properties (Some (pr_key tgt, found)) cursor tgts
      | None \<Rightarrow>
          let (found, cursor) = seek (pr_key tgt) cursor in
            (tgt, found) # merge_properties (Some (pr_key tgt, found)) cursor tgts)"

fun nominal_origin_ok :: "property_type \<Rightarrow> property_type \<Rightarrow> bool" where
  "nominal_origin_ok tgt src =
     (case pr_visibility tgt of
        Vis_Public \<Rightarrow> pr_visibility src = Vis_Public
      | _ \<Rightarrow> pr_visibility src = pr_visibility tgt \<and> pr_declaring_class src = pr_declaring_class tgt)"

definition f64_is_finite :: "f64 \<Rightarrow> bool" where
  "f64_is_finite x \<longleftrightarrow> f64_exponent x \<noteq> 0x7FF"

definition is_numeric_property_name :: "float_text \<Rightarrow> string \<Rightarrow> bool" where
  "is_numeric_property_name ft name = (case ft_parse ft name of Some n \<Rightarrow> f64_is_finite n | None \<Rightarrow> False)"

section \<open>Template patterns\<close>

definition f64_is_negative :: "f64 \<Rightarrow> bool" where
  "f64_is_negative x \<longleftrightarrow> bit x 63"

definition number_to_string :: "float_text \<Rightarrow> f64 \<Rightarrow> string" where
  "number_to_string ft n =
     (if f64_is_zero n then ''0''
      else if f64_is_nan n then ''NaN''
      else if \<not> f64_is_finite n then (if f64_is_negative n then ''-Infinity'' else ''Infinity'')
      else ft_format_finite ft n)"

definition decimal_number_to_string :: "float_text \<Rightarrow> f64 \<Rightarrow> string" where
  "decimal_number_to_string ft n = ft_display ft n"

text \<open>\<open>strip_prefix\<close>, \<open>strip_suffix\<close>, and \<open>find\<close> with the rest after the separator.\<close>

fun strip_prefix :: "'a list \<Rightarrow> 'a list \<Rightarrow> 'a list option" where
  "strip_prefix [] xs = Some xs"
| "strip_prefix (p # ps) (x # xs) = (if p = x then strip_prefix ps xs else None)"
| "strip_prefix (p # ps) [] = None"

definition strip_suffix :: "'a list \<Rightarrow> 'a list \<Rightarrow> 'a list option" where
  "strip_suffix suffix xs = map_option rev (strip_prefix (rev suffix) (rev xs))"

fun split_at :: "'a list \<Rightarrow> 'a list \<Rightarrow> ('a list \<times> 'a list) option" where
  "split_at sep xs =
     (case strip_prefix sep xs of
        Some rest \<Rightarrow> Some ([], rest)
      | None \<Rightarrow>
          (case xs of
             [] \<Rightarrow> None
           | x # ys \<Rightarrow> map_option (\<lambda>(before, after). (x # before, after)) (split_at sep ys)))"

lemmas [simp del] = split_at.simps

definition is_ascii_digit :: "char \<Rightarrow> bool" where
  "is_ascii_digit c \<longleftrightarrow> CHR ''0'' \<le> c \<and> c \<le> CHR ''9''"

fun decimal_chars :: "nat \<Rightarrow> nat \<Rightarrow> bool \<Rightarrow> string \<Rightarrow> bool" where
  "decimal_chars len i seen_dot [] = True"
| "decimal_chars len i seen_dot (c # cs) =
     (if c = CHR ''.'' then
        (if seen_dot \<or> i = 0 \<or> i + 1 = len then False else decimal_chars len (i + 1) True cs)
      else if \<not> is_ascii_digit c then False
      else decimal_chars len (i + 1) seen_dot cs)"

definition is_numeric_segment :: "float_text \<Rightarrow> string \<Rightarrow> bool" where
  "is_numeric_segment ft s \<longleftrightarrow>
     s \<noteq> [] \<and> decimal_chars (length s) 0 False s \<and>
     (case ft_parse ft s of Some n \<Rightarrow> decimal_number_to_string ft n = s | None \<Rightarrow> False)"

fun literal_segment :: "float_text \<Rightarrow> literal_value \<Rightarrow> string option" where
  "literal_segment ft (Lit_String s) = Some s"
| "literal_segment ft (Lit_Number n) = Some (number_to_string ft n)"
| "literal_segment ft (Lit_Boolean b) = Some (if b then ''true'' else ''false'')"
| "literal_segment ft (Lit_WellKnownSymbol _) = None"

lemma any_m_mono [partial_function_mono]:
  assumes "\<And>x. mono_option (\<lambda>f. B f x)"
  shows "mono_option (\<lambda>f. any_m (B f) xs)"
  by (induction xs) (auto intro!: partial_function_mono assms)

partial_function (option) hole_matches_segment :: "float_text \<Rightarrow> store \<Rightarrow> string \<Rightarrow> type_id \<Rightarrow> bool option" where [code]:
  "hole_matches_segment ft st seg hole = do {
     kind \<leftarrow> intrinsic_kind_of st hole;
     if kind = Some Kind_String then Some True
     else if kind = Some Kind_Number then Some (is_numeric_segment ft seg)
     else do {
       literal \<leftarrow> literal_value_of st hole;
       case literal of
         Some lit \<Rightarrow> Some (literal_segment ft lit = Some seg)
       | None \<Rightarrow> do {
           members \<leftarrow> union_members st hole;
           case members of
             Some members \<Rightarrow> any_m (hole_matches_segment ft st seg) members
           | None \<Rightarrow> Some False
         }
     }
   }"

text \<open>The holes with the separator after each; \<open>rest\<close> is what is left of the literal.\<close>

fun match_holes :: "float_text \<Rightarrow> store \<Rightarrow> (type_id \<times> string) list \<Rightarrow> string \<Rightarrow> bool option" where
  "match_holes ft st [] rest = Some (rest = [])"
| "match_holes ft st [(hole, sep)] rest =
     (case strip_suffix sep rest of
        None \<Rightarrow> Some False
      | Some seg \<Rightarrow> hole_matches_segment ft st seg hole)"
| "match_holes ft st ((hole, sep) # others) rest =
     (if sep = [] then Some False
      else case split_at sep rest of
        None \<Rightarrow> Some False
      | Some (seg, rest) \<Rightarrow> do {
          matches \<leftarrow> hole_matches_segment ft st seg hole;
          if matches then match_holes ft st others rest else Some False
        })"

definition text_at :: "string list \<Rightarrow> nat \<Rightarrow> string" where
  "text_at texts i = unwrap_or (nth_opt texts i) []"

definition match_literal_against_pattern :: "float_text \<Rightarrow> store \<Rightarrow> string \<Rightarrow> template_type \<Rightarrow> bool option" where
  "match_literal_against_pattern ft st s template =
     (let texts = te_texts template; holes = te_holes template in
      if holes = [] then Some (nth_opt texts 0 = Some s)
      else case strip_prefix (text_at texts 0) s of
        None \<Rightarrow> Some False
      | Some rest \<Rightarrow> match_holes ft st (zip holes (map (\<lambda>i. text_at texts (i + 1)) [0..<length holes])) rest)"

definition is_bare_string_hole :: "store \<Rightarrow> template_type \<Rightarrow> bool option" where
  "is_bare_string_hole st template =
     (if length (te_holes template) = 1 then do {
        kind \<leftarrow> intrinsic_kind_of st (te_holes template ! 0);
        Some (kind = Some Kind_String \<and> list_all (\<lambda>t. t = []) (te_texts template))
      }
      else Some False)"

definition is_concrete_pattern :: "store \<Rightarrow> template_type \<Rightarrow> bool option" where
  "is_concrete_pattern st template =
     all_m (\<lambda>hole. map_option (\<lambda>kind. kind = Some Kind_String \<or> kind = Some Kind_Number) (intrinsic_kind_of st hole))
       (te_holes template)"

definition starts_with :: "'a list \<Rightarrow> 'a list \<Rightarrow> bool" where
  "starts_with xs p \<longleftrightarrow> strip_prefix p xs \<noteq> None"

definition ends_with :: "'a list \<Rightarrow> 'a list \<Rightarrow> bool" where
  "ends_with xs p \<longleftrightarrow> strip_suffix p xs \<noteq> None"

definition template_subsumes :: "store \<Rightarrow> type_id \<Rightarrow> type_id \<Rightarrow> bool option" where
  "template_subsumes st src tgt = do {
     s \<leftarrow> template_type_of st src;
     t \<leftarrow> template_type_of st tgt;
     (case (s, t) of
        (Some src_t, Some tgt_t) \<Rightarrow> do {
          src_concrete \<leftarrow> is_concrete_pattern st src_t;
          if \<not> src_concrete then Some False
          else do {
            tgt_concrete \<leftarrow> is_concrete_pattern st tgt_t;
            if \<not> tgt_concrete then Some False
            else do {
              bare \<leftarrow> is_bare_string_hole st tgt_t;
              if bare then Some True
              else if length (te_holes tgt_t) \<noteq> 1 then Some False
              else do {
                kind \<leftarrow> intrinsic_kind_of st (te_holes tgt_t ! 0);
                if kind = Some Kind_String
                then Some (starts_with (text_at (te_texts src_t) 0) (text_at (te_texts tgt_t) 0) \<and>
                           ends_with (unwrap_or (nth_opt (rev (te_texts src_t)) 0) []) (text_at (te_texts tgt_t) 1))
                else Some False
              }
            }
          }
        }
      | _ \<Rightarrow> Some False)
   }"

end
