(* ===== verification/Relation_Rules.thy ===== *)
theory Relation_Rules
  imports Relation_Shapes
begin

text \<open>
  The structural rules of the relation engine, in the order of the source: \<^verbatim>\<open>collections.rs\<close>,
  \<^verbatim>\<open>set_types.rs\<close>, \<^verbatim>\<open>advanced.rs\<close>, \<^verbatim>\<open>objects.rs\<close>, and \<open>relate_uncached\<close> of \<^verbatim>\<open>mod.rs\<close>, which picks the
  rule. Each is a program over the operations of \<open>Relation_Program\<close>.
\<close>

lemma look_cong [fundef_cong]:
  "r = r' \<Longrightarrow> (\<And>x. r' = Some x \<Longrightarrow> f x = g x) \<Longrightarrow> look r f = look r' g"
  by (cases r') (auto simp: look_def)

lemma let_some_cong [fundef_cong]:
  "r = r' \<Longrightarrow> m = m' \<Longrightarrow> (\<And>x. r' = Some (Some x) \<Longrightarrow> f x = g x) \<Longrightarrow> let_some r m f = let_some r' m' g"
  by (auto simp: let_some_def look_def split: option.split)

instance relation_kind :: finite
proof
  have "k \<in> {Rel_Identity, Rel_Subtype, Rel_Assignable}" for k by (cases k) simp_all
  then have "(UNIV :: relation_kind set) = {Rel_Identity, Rel_Subtype, Rel_Assignable}" by blast
  then show "finite (UNIV :: relation_kind set)" using finite.emptyI finite_insert by metis
qed

text \<open>A failure whose head wraps the nested cause, and the terminal ones.\<close>

definition because :: "(reason \<Rightarrow> reason) \<Rightarrow> reason_chain \<Rightarrow> relation" where
  "because wrap child = No (chain_of (wrap (chain_head child)))"

definition fails :: "reason \<Rightarrow> relation prog" where
  "fails reason = Return (No (chain_of reason))"

text \<open>A \<open>for\<close> loop whose body returns early or goes on to the rest.\<close>

abbreviation for_each :: "('b \<Rightarrow> 'a prog \<Rightarrow> 'a prog) \<Rightarrow> 'b list \<Rightarrow> 'a prog \<Rightarrow> 'a prog" where
  "for_each \<equiv> foldr"

section \<open>Arrays and tuples\<close>

definition relate_arrays :: "relate_env \<Rightarrow> type_id \<Rightarrow> type_id \<Rightarrow> relation_kind \<Rightarrow> relation prog" where
  "relate_arrays env src tgt kind =
     let_some (array_type_of (re_store env) src) (reject src tgt) (\<lambda>src_elem.
     let_some (array_type_of (re_store env) tgt) (reject src tgt) (\<lambda>tgt_elem.
       must (rel src_elem tgt_elem kind) (because (Reason_ArrayElement src tgt)) (Return Yes)))"

definition relate_element :: "nat \<Rightarrow> type_id \<Rightarrow> type_id \<Rightarrow> relation_kind \<Rightarrow> type_id \<times> type_id \<Rightarrow> relation prog \<Rightarrow> relation prog" where
  "relate_element index src tgt kind pair k =
     must (rel (fst pair) (snd pair) kind) (because (Reason_TupleElement index src tgt)) k"

definition relate_variadic_tuple_to_tuple ::
    "relate_env \<Rightarrow> type_id \<Rightarrow> type_id \<Rightarrow> tuple_shape \<Rightarrow> tuple_shape \<Rightarrow> relation_kind \<Rightarrow> relation prog" where
  "relate_variadic_tuple_to_tuple env src tgt src_shape tgt_shape kind =
     (if ts_variadic tgt_shape = None \<or> ts_min_len src_shape < ts_min_len tgt_shape
         \<or> length (ts_prefix src_shape) \<noteq> length (ts_prefix tgt_shape)
         \<or> length (ts_suffix src_shape) \<noteq> length (ts_suffix tgt_shape)
      then fails (Reason_TupleLength src tgt)
      else
        for_each (\<lambda>(index, pair) k. relate_element index src tgt kind pair k)
          (enumerate 0 (zip (ts_prefix src_shape) (ts_prefix tgt_shape)))
        (for_each (\<lambda>(index, pair) k. relate_element index src tgt kind pair k)
          (enumerate (length (ts_prefix src_shape)) (zip (ts_suffix src_shape) (ts_suffix tgt_shape)))
        (case ts_variadic src_shape of
           None \<Rightarrow> reject src tgt
         | Some src_elem \<Rightarrow>
             (case ts_variadic tgt_shape of
                None \<Rightarrow> reject src tgt
              | Some tgt_elem \<Rightarrow>
                  relate_element (length (ts_prefix src_shape)) src tgt kind (src_elem, tgt_elem) (Return Yes)))))"

definition relate_tuples :: "relate_env \<Rightarrow> type_id \<Rightarrow> type_id \<Rightarrow> relation_kind \<Rightarrow> relation prog" where
  "relate_tuples env src tgt kind =
     let_some (tuple_type_of (re_store env) src) (reject src tgt) (\<lambda>src_tuple.
     let_some (tuple_type_of (re_store env) tgt) (reject src tgt) (\<lambda>tgt_tuple.
     let_some (tuple_shape_of (re_store env) src_tuple) (reject src tgt) (\<lambda>src_shape.
     let_some (tuple_shape_of (re_store env) tgt_tuple) (reject src tgt) (\<lambda>tgt_shape.
       case ts_fixed_len src_shape of
         None \<Rightarrow> relate_variadic_tuple_to_tuple env src tgt src_shape tgt_shape kind
       | Some src_len \<Rightarrow>
           if \<not> ts_accepts_len tgt_shape src_len then fails (Reason_TupleLength src tgt)
           else for_each (\<lambda>index k.
               case ts_element_at src_shape index src_len of
                 None \<Rightarrow> fails (Reason_TupleLength src tgt)
               | Some src_elem \<Rightarrow>
                   (case ts_element_at tgt_shape index src_len of
                      None \<Rightarrow> fails (Reason_TupleLength src tgt)
                    | Some tgt_elem \<Rightarrow> relate_element index src tgt kind (src_elem, tgt_elem) k))
             [0..<src_len] (Return Yes)))))"

definition relate_tuple_to_array :: "relate_env \<Rightarrow> type_id \<Rightarrow> type_id \<Rightarrow> relation_kind \<Rightarrow> relation prog" where
  "relate_tuple_to_array env src tgt kind =
     let_some (tuple_type_of (re_store env) src) (reject src tgt) (\<lambda>src_tuple.
     let_some (array_type_of (re_store env) tgt) (reject src tgt) (\<lambda>tgt_elem.
     let_some (tuple_shape_of (re_store env) src_tuple) (reject src tgt) (\<lambda>src_shape.
       for_each (\<lambda>src_elem k. must (rel src_elem tgt_elem kind) (because (Reason_ArrayElement src tgt)) k)
         (ts_prefix src_shape @ ts_suffix src_shape)
       (case ts_variadic src_shape of
          None \<Rightarrow> Return Yes
        | Some src_elem \<Rightarrow> must (rel src_elem tgt_elem kind) (because (Reason_ArrayElement src tgt)) (Return Yes)))))"

section \<open>Unions and intersections\<close>

text \<open>
  Each member of a union source with the flag that it occurs in the (sorted) union target; the
  cursor into the target only moves forward.
\<close>

fun exact_targets :: "type_id list \<Rightarrow> type_id list \<Rightarrow> (type_id \<times> bool) list" where
  "exact_targets targets [] = []"
| "exact_targets targets (member # members) =
     (let rest = dropWhile (\<lambda>t. t < member) targets in
      (member, nth_opt rest 0 = Some member) # exact_targets rest members)"

definition relate_union_source :: "relate_env \<Rightarrow> type_id \<Rightarrow> type_id \<Rightarrow> relation_kind \<Rightarrow> relation prog" where
  "relate_union_source env src tgt kind =
     let_some (union_members (re_store env) src) (reject src tgt) (\<lambda>members.
     look (union_members (re_store env) tgt) (\<lambda>target_members.
       for_each (\<lambda>(member, exact) k.
           must (if exact then rel member member kind else rel member tgt kind)
             (because (Reason_UnionSourceMember member src tgt)) k)
         (case target_members of
            None \<Rightarrow> map (\<lambda>member. (member, False)) members
          | Some targets \<Rightarrow> exact_targets targets members)
         (Return Yes)))"

definition relate_union_target :: "relate_env \<Rightarrow> type_id \<Rightarrow> type_id \<Rightarrow> relation_kind \<Rightarrow> relation prog" where
  "relate_union_target env src tgt kind =
     let_some (union_members (re_store env) tgt) (reject src tgt) (\<lambda>members.
       may_each (\<lambda>member. Relate src member kind Acc_Winner False Return) Yes members
         (fails (Reason_NoUnionMember src tgt)))"

text \<open>\<open>filter\<close> with a test that may panic.\<close>

fun filter_m :: "('a \<Rightarrow> bool option) \<Rightarrow> 'a list \<Rightarrow> 'a list option" where
  "filter_m p [] = Some []"
| "filter_m p (x # xs) = do { b \<leftarrow> p x; ys \<leftarrow> filter_m p xs; Some (if b then x # ys else ys) }"

definition not_this_type :: "relate_env \<Rightarrow> type_id \<Rightarrow> bool option" where
  "not_this_type env member =
     map_option (\<lambda>operand. operand = None) (this_type_operand (re_well_known env) (re_store env) member)"

definition relate_intersection_target :: "relate_env \<Rightarrow> type_id \<Rightarrow> type_id \<Rightarrow> relation_kind \<Rightarrow> relation prog" where
  "relate_intersection_target env src tgt kind =
     let_some (intersection_members (re_store env) tgt) (reject src tgt) (\<lambda>all_members.
     look (filter_m (not_this_type env) all_members) (\<lambda>members.
       for_each (\<lambda>member k. must (rel src member kind) No k) members (Return Yes)))"

text \<open>The flattening of a source intersection; \<open>None\<close> is the early return of a leaf failure.\<close>

function expand_members ::
    "relate_env \<Rightarrow> type_id list \<Rightarrow> type_id set \<Rightarrow> type_id list \<Rightarrow> type_id list option prog" where
  "expand_members env [] expanded members = Return (Some members)"
| "expand_members env (raw_member # pending) expanded members =
     (case normalized env raw_member of
        Inl exhaustion \<Rightarrow> Record_Exhaustion exhaustion (Return None)
      | Inr member \<Rightarrow>
          Ask_Allow (\<lambda>allow.
            case (if allow then normalization_demand env member else None) of
              Some demand \<Rightarrow> Record_Demand demand (Return None)
            | None \<Rightarrow>
                look (tag (re_store env) member) (\<lambda>tg.
                  if tg = Tag_Intersection then
                    (if member \<in> expanded then expand_members env pending expanded members
                     else let_some (intersection_members (re_store env) member) (Return None) (\<lambda>nested.
                       expand_members env (rev nested @ pending) (insert member expanded) members))
                  else expand_members env pending expanded (members @ [member]))))"
  by pat_completeness auto

termination expand_members
  by (relation "measures [\<lambda>(env, pending, expanded, members). card (- expanded),
        \<lambda>(env, pending, expanded, members). length pending]") (auto simp: card_insert_less)

section \<open>The merged source of an intersection\<close>

type_synonym merged_key = "type_id list \<times> type_id \<times> relation_kind"

text \<open>\<open>sort_unstable\<close> and \<open>dedup\<close>.\<close>

definition sort_dedup :: "type_id list \<Rightarrow> type_id list" where
  "sort_dedup xs = remdups_adj (sort xs)"

fun object_contributions :: "relate_env \<Rightarrow> property_key \<Rightarrow> type_id list \<Rightarrow> property_type list option" where
  "object_contributions env key [] = Some []"
| "object_contributions env key (m # ms) = do {
     found \<leftarrow> object_type_of (re_store env) m;
     others \<leftarrow> object_contributions env key ms;
     Some (opt_list (Option.bind found (\<lambda>ob. object_property_by_key ob key)) @ others)
   }"

text \<open>The obligations of the target with their contributors, collected before any recursive query.\<close>

fun obligations :: "relate_env \<Rightarrow> type_id list \<Rightarrow> property_type list \<Rightarrow> (property_type \<times> property_type list) list option" where
  "obligations env cands [] = Some []"
| "obligations env cands (p # ps) = do {
     contributors \<leftarrow> object_contributions env (pr_key p) cands;
     others \<leftarrow> obligations env cands ps;
     Some ((p, contributors) # others)
   }"

definition relate_merged_object_properties ::
    "(type_id list \<Rightarrow> type_id \<Rightarrow> relation prog) \<Rightarrow> relate_env \<Rightarrow> type_id \<Rightarrow> type_id list \<Rightarrow> type_id \<Rightarrow> relation_kind \<Rightarrow>
     relation prog" where
  "relate_merged_object_properties members_to env src cands tgt kind =
     let_some (object_type_of (re_store env) tgt) (reject src tgt) (\<lambda>tgt_obj.
       if ob_string_index tgt_obj \<noteq> None \<or> ob_number_index tgt_obj \<noteq> None
          \<or> ob_call_signatures tgt_obj \<noteq> [] \<or> ob_construct_signatures tgt_obj \<noteq> []
       then reject src tgt
       else look (obligations env cands (ob_properties tgt_obj)) (\<lambda>obs.
         for_each (\<lambda>(tgt_prop, contributors) k.
             if contributors = [] then
               (if pr_optional tgt_prop then k else fails (Reason_MissingProperty (pr_key tgt_prop) src tgt))
             else if \<not> list_ex (nominal_origin_ok tgt_prop) contributors then reject src tgt
             else
               let subcands = sort_dedup (map pr_ty contributors) in
               must (case subcands of
                       [only] \<Rightarrow> rel only (pr_ty tgt_prop) kind
                     | _ \<Rightarrow> members_to subcands (pr_ty tgt_prop))
                 (because (Reason_Property (pr_key tgt_prop) src tgt)) k)
           obs (Return Yes)))"

text \<open>
  The candidates of a target that is not an object: one that fits suffices, and the last failure
  is reported.
\<close>

fun try_candidates :: "type_id \<Rightarrow> type_id \<Rightarrow> relation_kind \<Rightarrow> type_id list \<Rightarrow> reason_chain option \<Rightarrow> relation prog" where
  "try_candidates src tgt kind [] last_child =
     Return (No (case last_child of Some child \<Rightarrow> child | None \<Rightarrow> chain_leaf src tgt))"
| "try_candidates src tgt kind (cand # cands) last_child =
     Ask_Mode (\<lambda>mode. Relate cand tgt kind Acc_Winner mode (\<lambda>r. case r of
         Yes \<Rightarrow> Return Yes
       | No child \<Rightarrow> try_candidates src tgt kind cands (Some child)))"

lemma distinct_sort_dedup: "distinct (sort_dedup xs)"
  by (simp add: sort_dedup_def sorted_remdups_adj_distinct)

lemma relate_merged_cong [fundef_cong]:
  assumes "env = env'" "src = src'" "cands = cands'" "tgt = tgt'" "kind = kind'"
    and "\<And>xs t. distinct xs \<Longrightarrow> f xs t = g xs t"
  shows "relate_merged_object_properties f env src cands tgt kind =
         relate_merged_object_properties g env' src' cands' tgt' kind'"
proof -
  have "f (sort_dedup xs) t = g (sort_dedup xs) t" for xs t
    by (rule assms(6)) (rule distinct_sort_dedup)
  then show ?thesis
    by (simp only: relate_merged_object_properties_def Let_def assms(1-5))
qed

text \<open>
  The in-flight set is passed down: an entry is removed on exit, so a caller gets it back unchanged.
\<close>

function relate_source_members_to ::
    "relate_env \<Rightarrow> type_id \<Rightarrow> type_id list \<Rightarrow> type_id \<Rightarrow> relation_kind \<Rightarrow> merged_key set \<Rightarrow> relation prog" where
  "relate_source_members_to env src cands tgt kind in_flight =
     look (tag (re_store env) tgt) (\<lambda>tg.
       if tg = Tag_Object then
         (if (sort cands, tgt, kind) \<in> in_flight then Return Yes
          else relate_merged_object_properties
            (\<lambda>subcands tgt_ty. relate_source_members_to env src subcands tgt_ty kind
               (insert (sort cands, tgt, kind) in_flight))
            env src cands tgt kind)
       else try_candidates src tgt kind cands None)"
  by pat_completeness auto

text \<open>Every nested call adds a key over a duplicate-free candidate list, and there are finitely many.\<close>

definition merged_keys :: "merged_key set" where
  "merged_keys = {xs. distinct xs} \<times> UNIV"

lemma finite_merged_keys: "finite (merged_keys - X)"
proof -
  have "finite {xs :: type_id list. set xs \<subseteq> UNIV \<and> distinct xs}"
    by (rule finite_subset_distinct) simp
  then show ?thesis by (simp add: merged_keys_def)
qed

termination relate_source_members_to
proof (relation "measure (\<lambda>(env, src, cands, tgt, kind, in_flight).
    2 * card (merged_keys - in_flight) + (if distinct cands then 0 else 1))", goal_cases)
  case 1
  show ?case by simp
next
  case (2 env src cands tgt kind in_flight tg xs t)
  let ?key = "(sort cands, tgt, kind)"
  have sub: "merged_keys - insert ?key in_flight \<subseteq> merged_keys - in_flight" by blast
  show ?case
  proof (cases "distinct cands")
    case True
    then have "?key \<in> merged_keys - in_flight" using 2 by (simp add: merged_keys_def)
    then have "merged_keys - insert ?key in_flight \<subset> merged_keys - in_flight" by blast
    then have "card (merged_keys - insert ?key in_flight) < card (merged_keys - in_flight)"
      by (rule psubset_card_mono [OF finite_merged_keys])
    with True 2 show ?thesis by simp
  next
    case False
    have "card (merged_keys - insert ?key in_flight) \<le> card (merged_keys - in_flight)"
      by (rule card_mono [OF finite_merged_keys sub])
    with False 2 show ?thesis by simp
  qed
qed

lemmas [simp del] = relate_source_members_to.simps

definition relate_intersection_source :: "relate_env \<Rightarrow> type_id \<Rightarrow> type_id \<Rightarrow> relation_kind \<Rightarrow> relation prog" where
  "relate_intersection_source env src tgt kind =
     let_some (intersection_members (re_store env) src) (reject src tgt) (\<lambda>raw_members.
     bind (expand_members env (rev raw_members) {src} []) (\<lambda>flattened.
       case flattened of
         None \<Rightarrow> reject src tgt
       | Some found \<Rightarrow>
           look (filter_m (not_this_type env) (sort_dedup found)) (\<lambda>members.
           look (tag (re_store env) tgt) (\<lambda>tgt_tag.
           look (if tgt_tag = Tag_Object
                 then any_m (\<lambda>member. map_option (\<lambda>tg. tg = Tag_Union) (tag (re_store env) member)) members
                 else Some False) (\<lambda>has_union.
             if has_union then reject src tgt
             else relate_source_members_to env src members tgt kind {})))))"

section \<open>Conditionals and templates\<close>

definition relate_conditional_source :: "relate_env \<Rightarrow> type_id \<Rightarrow> type_id \<Rightarrow> relation_kind \<Rightarrow> relation prog" where
  "relate_conditional_source env src tgt kind =
     let_some (conditional_type_of (re_store env) src) (reject src tgt) (\<lambda>cond.
     look (or_m (contains_infer (re_store env) (co_true_branch cond)) (contains_infer (re_store env) (co_false_branch cond)))
       (\<lambda>is_open.
         if is_open then reject src tgt
         else must (rel (co_true_branch cond) tgt kind) No (rel (co_false_branch cond) tgt kind)))"

definition relate_template_source :: "relate_env \<Rightarrow> type_id \<Rightarrow> type_id \<Rightarrow> relation prog" where
  "relate_template_source env src tgt =
     (if tgt = wk_string (re_well_known env) then Return Yes
      else look (tag (re_store env) tgt) (\<lambda>tgt_tag.
        if tgt_tag = Tag_Template then
          look (template_subsumes (re_store env) src tgt) (\<lambda>subsumes.
            if subsumes then Return Yes else reject src tgt)
        else reject src tgt))"

definition relate_template_target :: "relate_env \<Rightarrow> type_id \<Rightarrow> type_id \<Rightarrow> relation prog" where
  "relate_template_target env src tgt =
     let_some (template_type_of (re_store env) tgt) (reject src tgt) (\<lambda>template.
     look (literal_value_of (re_store env) src) (\<lambda>literal.
       case literal of
         Some (Lit_String s) \<Rightarrow>
           look (match_literal_against_pattern (re_float_text env) (re_store env) s template) (\<lambda>matches.
             if matches then Return Yes else reject src tgt)
       | _ \<Rightarrow>
           if src = wk_string (re_well_known env) then
             look (is_bare_string_hole (re_store env) template) (\<lambda>bare.
               if bare then Return Yes else reject src tgt)
           else reject src tgt))"

section \<open>Functions\<close>

definition arity_fails :: "param_shape \<Rightarrow> param_shape \<Rightarrow> bool" where
  "arity_fails src_params tgt_params =
     (if px_variadic tgt_params \<noteq> None then
        let suffix_exceeds_shortest =
              px_suffix src_params \<noteq> [] \<and>
              length (px_prefix src_params) + length (px_suffix src_params) > px_min_len tgt_params in
        if px_suffix tgt_params = [] then suffix_exceeds_shortest
        else if px_variadic src_params \<noteq> None then
          suffix_exceeds_shortest \<or>
          list_ex (\<lambda>slot. \<not> ps_accepts_undefined slot) (drop (length (px_prefix tgt_params)) (px_prefix src_params))
        else length (px_prefix src_params) + length (px_suffix src_params) > length (px_prefix tgt_params)
      else px_min_len src_params > px_min_len tgt_params)"

definition relate_parameter_slot :: "relate_env \<Rightarrow> param_slot \<Rightarrow> param_slot \<Rightarrow> relation_kind \<Rightarrow> relation prog" where
  "relate_parameter_slot env src_slot tgt_slot kind =
     bind (rel (ps_ty src_slot) (ps_ty tgt_slot) kind) (\<lambda>r. case r of
         No child \<Rightarrow>
           if ps_accepts_undefined tgt_slot
           then may (probe (ps_ty src_slot) (wk_undefined (re_well_known env)) kind) Yes (Return (No child))
           else Return (No child)
       | Yes \<Rightarrow>
           if ps_accepts_undefined src_slot \<and> \<not> ps_accepts_undefined tgt_slot
           then rel (wk_undefined (re_well_known env)) (ps_ty tgt_slot) kind
           else Return Yes)"

definition relate_parameter_tail ::
    "relate_env \<Rightarrow> type_id \<Rightarrow> type_id \<Rightarrow> param_tail \<Rightarrow> param_tail \<Rightarrow> relation_kind \<Rightarrow> relation prog" where
  "relate_parameter_tail env argument_root accepted_root arguments accepts kind =
     (if pt_min_len arguments < pt_min_len accepts \<or>
         (case pt_max_len accepts of
            None \<Rightarrow> False
          | Some accepted_max \<Rightarrow>
              (case pt_max_len arguments of None \<Rightarrow> True | Some argument_max \<Rightarrow> argument_max > accepted_max))
      then reject argument_root accepted_root
      else
        let argument_count = pt_slot_count arguments; accepted_count = pt_slot_count accepts in
        for_each (\<lambda>argument_index k.
            case pt_slot arguments argument_index of
              None \<Rightarrow> reject argument_root accepted_root
            | Some argument \<Rightarrow>
                let argument_from_end = argument_count - 1 - argument_index;
                    from_end = 1 + min argument_from_end (length (pt_suffix accepts));
                    accepted_index =
                      (if pt_variadic accepts \<noteq> None \<and> argument_index \<ge> length (pt_prefix accepts)
                       then (if accepted_count < from_end then None else Some (accepted_count - from_end))
                       else Some argument_index) in
                (case Option.bind accepted_index (pt_slot accepts) of
                   None \<Rightarrow> reject argument_root accepted_root
                 | Some accepted \<Rightarrow>
                     if pl_required accepted \<and> (pl_rest argument \<or> \<not> pl_required argument)
                     then reject argument_root accepted_root
                     else must (relate_parameter_slot env (pl_slot argument) (pl_slot accepted) kind) No k))
          [0..<argument_count] (Return Yes))"

definition relate_function_parameters ::
    "relate_env \<Rightarrow> type_id \<Rightarrow> type_id \<Rightarrow> param_shape \<Rightarrow> param_shape \<Rightarrow> relation_kind \<Rightarrow> relation prog" where
  "relate_function_parameters env src tgt src_params tgt_params kind =
     (let aggregate_tail = px_non_array_rest src_params \<or> px_non_array_rest tgt_params;
          src_count = px_parameter_count src_params;
          tgt_count = px_parameter_count tgt_params;
          parameter_count = (if aggregate_tail then min src_count tgt_count else max src_count tgt_count);
          stable_count = parameter_count - of_bool aggregate_tail in
      for_each (\<lambda>index k.
          case px_positional_slot src_params index of
            None \<Rightarrow> k
          | Some src_slot \<Rightarrow>
              (case px_positional_slot tgt_params index of
                 None \<Rightarrow> k
               | Some tgt_slot \<Rightarrow>
                   must (relate_parameter_slot env tgt_slot src_slot kind)
                     (because (Reason_Parameter index src tgt)) k))
        [0..<stable_count]
      (if aggregate_tail \<and> parameter_count \<noteq> 0 then
         let index = parameter_count - 1 in
         must (relate_parameter_tail env tgt src (px_tail tgt_params index) (px_tail src_params index) kind)
           (because (Reason_Parameter index src tgt)) (Return Yes)
       else Return Yes))"

definition relate_function_shapes ::
    "relate_env \<Rightarrow> type_id \<Rightarrow> type_id \<Rightarrow> function_type \<Rightarrow> function_type \<Rightarrow> relation_kind \<Rightarrow> relation prog" where
  "relate_function_shapes env src tgt src_fn tgt_fn kind =
     (let shapes =
        let_some (function_param_shape (re_well_known env) (re_store env) src_fn) (reject src tgt) (\<lambda>src_params.
        let_some (function_param_shape (re_well_known env) (re_store env) tgt_fn) (reject src tgt) (\<lambda>tgt_params.
          if arity_fails src_params tgt_params then fails (Reason_ParameterCount src tgt)
          else must (relate_function_parameters env src tgt src_params tgt_params kind) No
            (if fn_ret tgt_fn \<noteq> wk_void (re_well_known env)
             then must (rel (fn_ret src_fn) (fn_ret tgt_fn) kind) (because (Reason_ReturnType src tgt)) (Return Yes)
             else Return Yes))) in
      case (fn_receiver src_fn, fn_receiver tgt_fn) of
        (Some src_receiver, Some tgt_receiver) \<Rightarrow>
          must (probe tgt_receiver src_receiver kind) (\<lambda>_. No (chain_leaf src tgt)) shapes
      | _ \<Rightarrow> shapes)"

definition generic_function_constraints_compatible ::
    "relate_env \<Rightarrow> function_type \<Rightarrow> function_type \<Rightarrow> relation_kind \<Rightarrow> bool prog" where
  "generic_function_constraints_compatible env src_fn tgt_fn kind =
     for_each (\<lambda>(src_param, tgt_param) k.
         let unknown = wk_unknown (re_well_known env) in
         must (probe (unwrap_or (gp_constraint tgt_param) unknown) (unwrap_or (gp_constraint src_param) unknown) kind)
           (\<lambda>_. False) k)
       (zip (fn_type_params src_fn) (fn_type_params tgt_fn)) (Return True)"

definition relate_aligned_shapes ::
    "relate_env \<Rightarrow> type_id \<Rightarrow> type_id \<Rightarrow> function_type \<Rightarrow> function_type \<Rightarrow> relation_kind \<Rightarrow> relation prog" where
  "relate_aligned_shapes env src tgt src_fn tgt_fn kind =
     bind (generic_function_constraints_compatible env src_fn tgt_fn kind) (\<lambda>compatible.
       if \<not> compatible then reject src tgt
       else relate_function_shapes env src tgt src_fn tgt_fn kind)"

definition relate_functions :: "relate_env \<Rightarrow> type_id \<Rightarrow> type_id \<Rightarrow> relation_kind \<Rightarrow> relation prog" where
  "relate_functions env src tgt kind =
     let_some (function_type_of (re_store env) src) (reject src tgt) (\<lambda>src_fn.
     let_some (function_type_of (re_store env) tgt) (reject src tgt) (\<lambda>tgt_fn.
       if fn_type_params src_fn = [] then
         (if fn_type_params tgt_fn = [] then relate_function_shapes env src tgt src_fn tgt_fn kind
          else reject src tgt)
       else if fn_type_params tgt_fn = [] then
         with_binder_context (bc_source_specialization (fn_type_params src_fn))
           (relate_function_shapes env src tgt src_fn tgt_fn kind)
       else if length (fn_type_params src_fn) \<noteq> length (fn_type_params tgt_fn) then reject src tgt
       else with_binder_context (bc_aligned (fn_type_params src_fn) (fn_type_params tgt_fn))
         (relate_aligned_shapes env src tgt src_fn tgt_fn kind)))"

section \<open>Signatures\<close>

text \<open>
  The two passes over the surplus binders of a construct signature: a constrained source binder
  that occurs in no parameter is not instantiable, and a target binder that occurs nowhere is
  dropped. The inner \<open>None\<close> of the second is the rejection of a used, unconstrained target binder.
\<close>

fun prune_source :: "store \<Rightarrow> function_type \<Rightarrow> generic_type_param list \<Rightarrow> binder_context \<Rightarrow> binder_context option" where
  "prune_source st f [] c = Some c"
| "prune_source st f (p # ps) c =
     (if gp_constraint p = None then prune_source st f ps c
      else do {
        occurs \<leftarrow> function_parameters_contain_type_param st f (gp_id p);
        prune_source st f ps
          (if occurs then c else c\<lparr>bc_instantiable_source := bc_instantiable_source c |-| {|gp_id p|}\<rparr>)
      })"

fun prune_target :: "store \<Rightarrow> function_type \<Rightarrow> generic_type_param list \<Rightarrow> binder_context \<Rightarrow> binder_context option option" where
  "prune_target st f [] c = Some (Some c)"
| "prune_target st f (p # ps) c = do {
     occurs \<leftarrow> function_shape_contains_type_param st f (gp_id p);
     if \<not> occurs then
       prune_target st f ps
         (c\<lparr>bc_parameters := bc_parameters c |-| {|gp_id p|}, bc_constraints := fmdrop (gp_id p) (bc_constraints c)\<rparr>)
     else if gp_constraint p = None then Some None
     else prune_target st f ps c
   }"

definition relate_construct_functions :: "relate_env \<Rightarrow> type_id \<Rightarrow> type_id \<Rightarrow> relation_kind \<Rightarrow> relation prog" where
  "relate_construct_functions env src tgt kind =
     let_some (function_type_of (re_store env) src) (reject src tgt) (\<lambda>src_fn.
     let_some (function_type_of (re_store env) tgt) (reject src tgt) (\<lambda>tgt_fn.
       if fn_type_params src_fn = [] \<or> fn_type_params tgt_fn = []
          \<or> length (fn_type_params src_fn) = length (fn_type_params tgt_fn)
       then relate_functions env src tgt kind
       else case bc_construct_arity_specialization (fn_type_params src_fn) (fn_type_params tgt_fn) of
         None \<Rightarrow> reject src tgt
       | Some context \<Rightarrow>
           let shared = min (length (fn_type_params src_fn)) (length (fn_type_params tgt_fn)) in
           look (prune_source (re_store env) src_fn (drop shared (fn_type_params src_fn)) context) (\<lambda>context.
           let_some (prune_target (re_store env) tgt_fn (drop shared (fn_type_params tgt_fn)) context) (reject src tgt)
             (\<lambda>context. with_binder_context context (relate_aligned_shapes env src tgt src_fn tgt_fn kind)))))"

definition relate_overloaded_construct_to_generic_target ::
    "relate_env \<Rightarrow> type_id \<Rightarrow> type_id \<Rightarrow> relation_kind \<Rightarrow> relation prog" where
  "relate_overloaded_construct_to_generic_target env src tgt kind =
     let_some (function_type_of (re_store env) src) (reject src tgt) (\<lambda>src_fn.
     let_some (function_type_of (re_store env) tgt) (reject src tgt) (\<lambda>tgt_fn.
       if fn_type_params src_fn = [] \<or> length (fn_type_params src_fn) \<noteq> length (fn_type_params tgt_fn)
       then reject src tgt
       else with_binder_context (bc_aligned (fn_type_params src_fn) (fn_type_params tgt_fn))
         (relate_function_shapes env src tgt src_fn tgt_fn kind)))"

definition relate_signature_sets ::
    "relate_env \<Rightarrow> type_id \<Rightarrow> type_id \<Rightarrow> type_id list \<Rightarrow> type_id list \<Rightarrow> relation_kind \<Rightarrow> relation prog" where
  "relate_signature_sets env src tgt src_signatures tgt_signatures kind =
     (if src_signatures = [] \<or> tgt_signatures = [] then reject src tgt
      else for_each (\<lambda>tgt_sig k.
          bind (may_each (\<lambda>src_sig. probe src_sig tgt_sig kind) True src_signatures (Return False)) (\<lambda>matched.
            if \<not> matched then reject src tgt else k))
        tgt_signatures (Return Yes))"

definition relate_construct_signature_sets ::
    "relate_env \<Rightarrow> type_id \<Rightarrow> type_id \<Rightarrow> type_id list \<Rightarrow> type_id list \<Rightarrow> relation_kind \<Rightarrow> relation prog" where
  "relate_construct_signature_sets env src tgt src_signatures tgt_signatures kind =
     (if src_signatures = [] \<or> tgt_signatures = [] then reject src tgt
      else for_each (\<lambda>tgt_sig k.
          bind (probe_without_reason
                 (may_each (\<lambda>src_sig. relate_construct_functions env src_sig tgt_sig kind) True src_signatures
                   (if length src_signatures > 1 then
                      may_each (\<lambda>src_sig. relate_overloaded_construct_to_generic_target env src_sig tgt_sig kind)
                        True src_signatures (Return False)
                    else Return False))) (\<lambda>matched.
            if \<not> matched then reject src tgt else k))
        tgt_signatures (Return Yes))"

section \<open>Objects\<close>

datatype missing_property_policy = Require_Target_Presence | Ignore_Missing

definition relate_object_named_properties ::
    "relate_env \<Rightarrow> type_id \<Rightarrow> type_id \<Rightarrow> type_id \<Rightarrow> relation_kind \<Rightarrow> missing_property_policy \<Rightarrow> relation prog" where
  "relate_object_named_properties env src surface tgt kind missing_policy =
     let_some (object_type_of (re_store env) tgt) (reject src tgt) (\<lambda>tgt_obj.
     let_some (object_type_of (re_store env) surface) (reject src tgt) (\<lambda>src_obj.
       for_each (\<lambda>(tgt_prop, source_property) k.
           case source_property of
             Some src_prop \<Rightarrow>
               if \<not> nominal_origin_ok tgt_prop src_prop then reject src tgt
               else if pr_optional src_prop \<and> \<not> pr_optional tgt_prop then reject src tgt
               else must (rel (pr_ty src_prop) (pr_ty tgt_prop) kind)
                 (because (Reason_Property (pr_key tgt_prop) src tgt)) k
           | None \<Rightarrow>
               if missing_policy = Ignore_Missing then k
               else if pr_optional tgt_prop then k
               else fails (Reason_MissingProperty (pr_key tgt_prop) src tgt))
         (merge_properties None (ob_properties src_obj) (ob_properties tgt_obj)) (Return Yes)))"

definition relate_object_index_signatures :: "relate_env \<Rightarrow> type_id \<Rightarrow> type_id \<Rightarrow> relation_kind \<Rightarrow> relation prog" where
  "relate_object_index_signatures env src tgt kind =
     let_some (object_type_of (re_store env) tgt) (reject src tgt) (\<lambda>tgt_obj.
     let_some (object_type_of (re_store env) src) (reject src tgt) (\<lambda>src_obj.
       if ob_string_index tgt_obj = None \<and> ob_number_index tgt_obj = None then Return Yes
       else
         let src_props = List.map_filter
               (\<lambda>p. map_option (\<lambda>name. (name, pr_ty p)) (key_as_string (pr_key p))) (ob_properties src_obj);
             check = (\<lambda>tgt_value src_value k.
               must (rel src_value tgt_value kind) (because (Reason_IndexSignature src tgt)) k);
             number_part =
               (case ob_number_index tgt_obj of
                  None \<Rightarrow> Return Yes
                | Some tgt_value \<Rightarrow>
                    for_each (check tgt_value)
                      (map snd (filter (\<lambda>(name, _). is_numeric_property_name (re_float_text env) name) src_props)
                       @ opt_list (ob_number_index src_obj))
                      (Return Yes)) in
         (case ob_string_index tgt_obj of
            None \<Rightarrow> number_part
          | Some tgt_value \<Rightarrow>
              for_each (check tgt_value) (map snd src_props @ opt_list (ob_string_index src_obj)) number_part)))"

definition relate_object_call_signatures :: "relate_env \<Rightarrow> type_id \<Rightarrow> type_id \<Rightarrow> relation_kind \<Rightarrow> relation prog" where
  "relate_object_call_signatures env src tgt kind =
     let_some (object_type_of (re_store env) tgt) (reject src tgt) (\<lambda>tgt_obj.
       if ob_call_signatures tgt_obj = [] then Return Yes
       else let_some (object_type_of (re_store env) src) (reject src tgt) (\<lambda>src_obj.
         relate_signature_sets env src tgt (ob_call_signatures src_obj) (ob_call_signatures tgt_obj) kind))"

definition relate_object_construct_signatures :: "relate_env \<Rightarrow> type_id \<Rightarrow> type_id \<Rightarrow> relation_kind \<Rightarrow> relation prog" where
  "relate_object_construct_signatures env src tgt kind =
     let_some (object_type_of (re_store env) tgt) (reject src tgt) (\<lambda>tgt_obj.
       if ob_construct_signatures tgt_obj = [] then Return Yes
       else let_some (object_type_of (re_store env) src) (reject src tgt) (\<lambda>src_obj.
         relate_construct_signature_sets env src tgt
           (ob_construct_signatures src_obj) (ob_construct_signatures tgt_obj) kind))"

definition relate_objects :: "relate_env \<Rightarrow> type_id \<Rightarrow> type_id \<Rightarrow> relation_kind \<Rightarrow> relation prog" where
  "relate_objects env src tgt kind =
     must (relate_object_named_properties env src src tgt kind Require_Target_Presence) No
     (must (relate_object_call_signatures env src tgt kind) No
     (must (relate_object_construct_signatures env src tgt kind) No
       (relate_object_index_signatures env src tgt kind)))"

definition relate_object_to_function :: "relate_env \<Rightarrow> type_id \<Rightarrow> type_id \<Rightarrow> relation_kind \<Rightarrow> relation prog" where
  "relate_object_to_function env src tgt kind =
     let_some (object_type_of (re_store env) src) (reject src tgt) (\<lambda>src_obj.
       if ob_call_signatures src_obj = [] then reject src tgt
       else may_each (\<lambda>src_sig. probe src_sig tgt kind) Yes (ob_call_signatures src_obj) (reject src tgt))"

definition relate_function_to_object :: "relate_env \<Rightarrow> type_id \<Rightarrow> type_id \<Rightarrow> relation_kind \<Rightarrow> relation prog" where
  "relate_function_to_object env src tgt kind =
     let_some (object_type_of (re_store env) tgt) (reject src tgt) (\<lambda>tgt_obj.
       if ob_call_signatures tgt_obj = [] then reject src tgt
       else case find (\<lambda>p. \<not> pr_optional p) (ob_properties tgt_obj) of
         Some tgt_prop \<Rightarrow> fails (Reason_MissingProperty (pr_key tgt_prop) src tgt)
       | None \<Rightarrow>
           if ob_construct_signatures tgt_obj \<noteq> [] then reject src tgt
           else must_each (\<lambda>tgt_sig. probe src tgt_sig kind) (\<lambda>_ _. No (chain_leaf src tgt))
             (ob_call_signatures tgt_obj) (Return Yes))"

text \<open>The families of types that are not nullish, by tag and by intrinsic kind.\<close>

definition non_nullish_tag :: "type_tag \<Rightarrow> bool" where
  "non_nullish_tag tg \<longleftrightarrow> tg \<in> {Tag_Literal, Tag_Object, Tag_Function, Tag_Array, Tag_Tuple, Tag_Readonly,
     Tag_Template, Tag_ClassInstance}"

definition non_nullish_kind :: "intrinsic_kind option \<Rightarrow> bool" where
  "non_nullish_kind kind \<longleftrightarrow> kind \<in> Some ` {Kind_Boolean, Kind_Number, Kind_String, Kind_Object, Kind_BigInt, Kind_Symbol}"

definition is_non_nullish_object_top_source :: "relate_env \<Rightarrow> type_id \<Rightarrow> bool option" where
  "is_non_nullish_object_top_source env ty = do {
     tg \<leftarrow> tag (re_store env) ty;
     kind \<leftarrow> intrinsic_kind_of (re_store env) ty;
     Some (non_nullish_tag tg \<or> non_nullish_kind kind)
   }"

definition native_missing_property_uses_leaf :: "relate_env \<Rightarrow> type_id \<Rightarrow> bool option" where
  "native_missing_property_uses_leaf env source = do {
     tg \<leftarrow> tag (re_store env) source;
     kind \<leftarrow> intrinsic_kind_of (re_store env) source;
     Some (tg \<in> {Tag_Literal, Tag_Template, Tag_Function} \<or> kind \<in> Some ` {Kind_String, Kind_Number, Kind_Boolean})
   }"

fun is_missing_property :: "reason \<Rightarrow> bool" where
  "is_missing_property (Reason_MissingProperty _ _ _) = True"
| "is_missing_property _ = False"

text \<open>
  The two rules below return an \<open>Option\<close>: \<open>None\<close> goes on to the next rule. \<open>surface_or\<close> is their
  shared treatment of the apparent surface; an open demand answers \<open>Yes\<close> and is recorded.
\<close>

definition surface_or ::
    "relate_env \<Rightarrow> type_id \<Rightarrow> type_id \<Rightarrow> relation option prog \<Rightarrow> (type_id \<Rightarrow> relation option prog) \<Rightarrow> relation option prog" where
  "surface_or env src tgt not_applicable ready =
     (case apparent_surface_of env src of
        Surface_NotApplicable \<Rightarrow> not_applicable
      | Surface_Ready surface \<Rightarrow> ready surface
      | Surface_Unavailable \<Rightarrow> Return (Some (No (chain_leaf src tgt)))
      | Surface_Needs demand \<Rightarrow>
          Ask_Allow (\<lambda>allow.
            if allow then Record_Apparent demand (Return (Some Yes))
            else Return (Some (No (chain_leaf src tgt)))))"

definition relate_native_apparent_object_target ::
    "relate_env \<Rightarrow> type_id \<Rightarrow> type_id \<Rightarrow> relation_kind \<Rightarrow> relation option prog" where
  "relate_native_apparent_object_target env src tgt kind =
     let_some (object_type_of (re_store env) tgt) (Return None) (\<lambda>target.
       if ob_properties target = [] \<or> ob_string_index target \<noteq> None
          \<or> ob_call_signatures target \<noteq> [] \<or> ob_construct_signatures target \<noteq> []
       then Return None
       else surface_or env src tgt (Return None) (\<lambda>surface.
         look (if ob_number_index target = None then Some False
               else map_option (\<lambda>found. case found of None \<Rightarrow> True | Some ob \<Rightarrow> ob_number_index ob = None)
                      (object_type_of (re_store env) surface)) (\<lambda>lacks_index.
         if lacks_index then Return (Some (No (chain_leaf src tgt)))
         else
           look (intrinsic_kind_of (re_store env) src) (\<lambda>src_kind.
           look (tag (re_store env) src) (\<lambda>src_tag.
           let weak = (list_all pr_optional (ob_properties target) \<and> ob_number_index target = None);
               candidate = (weak \<and> src_kind \<noteq> Some Kind_Object) in
           look (if candidate \<and> src_tag \<noteq> Tag_Function
                 then map_option Not (object_property_names_overlap (re_store env) surface tgt)
                 else Some candidate) (\<lambda>refused.
             if refused then Return (Some (No (chain_leaf src tgt)))
             else look (native_missing_property_uses_leaf env src) (\<lambda>uses_leaf.
               must (relate_object_named_properties env src surface tgt kind Require_Target_Presence)
                 (\<lambda>reason. Some (No (if uses_leaf \<and> is_missing_property (chain_head reason)
                                     then chain_leaf src tgt else reason)))
                 (bind (relate_object_index_signatures env surface tgt kind) (\<lambda>r. Return (Some r))))))))))"

definition relate_library_object_target ::
    "relate_env \<Rightarrow> type_id \<Rightarrow> type_id \<Rightarrow> relation_kind \<Rightarrow> relation option prog" where
  "relate_library_object_target env src tgt kind =
     let_some (object_type_of (re_store env) tgt) (Return None) (\<lambda>target.
     look (tag (re_store env) src) (\<lambda>source_tag.
       let has_index = (ob_string_index target \<noteq> None \<or> ob_number_index target \<noteq> None);
           has_call = (ob_call_signatures target \<noteq> []);
           has_construct = (ob_construct_signatures target \<noteq> []);
           has_named = (ob_properties target \<noteq> []);
           number_index_only =
             (if ob_string_index target = None \<and> \<not> has_call \<and> \<not> has_construct then ob_number_index target else None);
           obligations =
             (if \<not> has_index \<and> \<not> has_call \<and> \<not> has_construct then
                look (is_non_nullish_object_top_source env src) (\<lambda>top.
                  Return (if top then Some Yes else None))
              else if source_tag = Tag_Object then
                must (relate_object_call_signatures env src tgt kind) (\<lambda>r. Some (No r))
                (must (relate_object_construct_signatures env src tgt kind) (\<lambda>r. Some (No r))
                  (bind (relate_object_index_signatures env src tgt kind) (\<lambda>r. Return (Some r))))
              else case number_index_only of
                Some target_value \<Rightarrow>
                  let_some (apparent_number_index_values (re_well_known env) (re_store env) src) (Return None) (\<lambda>vals.
                    must_each (\<lambda>value. rel value target_value kind)
                      (\<lambda>_ child. Some (because (Reason_IndexSignature src tgt) child)) vals (Return (Some Yes)))
              | None \<Rightarrow>
                  if source_tag = Tag_Function \<and> has_call \<and> \<not> has_index \<and> \<not> has_construct then
                    must_each (\<lambda>signature. probe src signature kind) (\<lambda>_ _. Some (No (chain_leaf src tgt)))
                      (ob_call_signatures target) (Return (Some Yes))
                  else Return (Some (No (chain_leaf src tgt))));
           named = (\<lambda>surface.
             must (relate_object_named_properties env src surface tgt kind Ignore_Missing) (\<lambda>r. Some (No r)) obligations) in
       if source_tag = Tag_Object then named src
       else if \<not> has_named then obligations
       else surface_or env src tgt obligations named))"

section \<open>The choice of the rule\<close>

definition is_any_type :: "relate_env \<Rightarrow> type_id \<Rightarrow> bool option" where
  "is_any_type env ty =
     (if ty = wk_any (re_well_known env) then Some True
      else do {
        tg \<leftarrow> tag (re_store env) ty;
        if tg = Tag_Intrinsic
        then map_option (\<lambda>kind. kind = Some Kind_Any) (intrinsic_kind_of (re_store env) ty)
        else Some False
      })"

definition is_error_type :: "relate_env \<Rightarrow> type_id \<Rightarrow> bool option" where
  "is_error_type env ty =
     (if ty = wk_error (re_well_known env) then Some True
      else do {
        tg \<leftarrow> tag (re_store env) ty;
        if tg = Tag_Intrinsic
        then map_option (\<lambda>kind. kind = Some Kind_Error) (intrinsic_kind_of (re_store env) ty)
        else Some False
      })"

fun intrinsic_id :: "well_known \<Rightarrow> intrinsic_kind \<Rightarrow> type_id" where
  "intrinsic_id wk Kind_Error = wk_error wk"
| "intrinsic_id wk Kind_Any = wk_any wk"
| "intrinsic_id wk Kind_Unknown = wk_unknown wk"
| "intrinsic_id wk Kind_Never = wk_never wk"
| "intrinsic_id wk Kind_Void = wk_void wk"
| "intrinsic_id wk Kind_Null = wk_null wk"
| "intrinsic_id wk Kind_Undefined = wk_undefined wk"
| "intrinsic_id wk Kind_Boolean = wk_boolean wk"
| "intrinsic_id wk Kind_Number = wk_number wk"
| "intrinsic_id wk Kind_String = wk_string wk"
| "intrinsic_id wk Kind_Uppercase = wk_uppercase wk"
| "intrinsic_id wk Kind_Lowercase = wk_lowercase wk"
| "intrinsic_id wk Kind_Capitalize = wk_capitalize wk"
| "intrinsic_id wk Kind_Uncapitalize = wk_uncapitalize wk"
| "intrinsic_id wk Kind_ThisType = wk_this_type wk"
| "intrinsic_id wk Kind_OmitThisParameter = wk_omit_this_parameter wk"
| "intrinsic_id wk Kind_Object = wk_object wk"
| "intrinsic_id wk Kind_BigInt = wk_bigint wk"
| "intrinsic_id wk Kind_Symbol = wk_symbol wk"

text \<open>\<open>if let Some(result) = p { return result }\<close>.\<close>

definition or_else :: "relation option prog \<Rightarrow> relation prog \<Rightarrow> relation prog" where
  "or_else p k = bind p (\<lambda>r. case r of Some result \<Rightarrow> Return result | None \<Rightarrow> k)"

text \<open>The apparent type of a constrained type parameter, as a source.\<close>

definition type_param_source :: "relate_env \<Rightarrow> type_id \<Rightarrow> type_id \<Rightarrow> relation_kind \<Rightarrow> relation prog \<Rightarrow> relation prog" where
  "type_param_source env src tgt kind k =
     Ask_Binders (\<lambda>contexts.
     look (type_param_of (re_store env) src) (\<lambda>param.
       case Option.bind param (\<lambda>p.
              case context_constraint (rev contexts) (tp_id p) of
                Some constraint \<Rightarrow> constraint
              | None \<Rightarrow> type_param_constraint (re_store env) (tp_id p)) of
         Some constraint \<Rightarrow> may (probe constraint tgt kind) Yes k
       | None \<Rightarrow> k))"

text \<open>The empty structural type \<open>{}\<close>.\<close>

definition is_empty_object :: "object_type option \<Rightarrow> bool" where
  "is_empty_object found = (case found of
       None \<Rightarrow> False
     | Some ob \<Rightarrow> ob_properties ob = [] \<and> ob_string_index ob = None \<and> ob_number_index ob = None
         \<and> ob_call_signatures ob = [] \<and> ob_construct_signatures ob = [])"

text \<open>The rules by the tags of both sides, after the lattice, union and intersection rules.\<close>

definition relate_by_tags ::
    "relate_env \<Rightarrow> type_id \<Rightarrow> type_id \<Rightarrow> relation_kind \<Rightarrow> type_tag \<Rightarrow> type_tag \<Rightarrow> relation prog" where
  "relate_by_tags env src tgt kind src_tag tgt_tag =
     (if src_tag = Tag_Template then relate_template_source env src tgt
      else if tgt_tag = Tag_Template then relate_template_target env src tgt
      else if tgt = wk_object (re_well_known env)
           \<and> src_tag \<in> {Tag_Object, Tag_Function, Tag_Array, Tag_Tuple, Tag_Readonly, Tag_ClassInstance}
      then Return Yes
      else if tgt_tag = Tag_Readonly then
        let_some (readonly_operand (re_store env) tgt) (reject src tgt) (\<lambda>tgt_operand.
        look (if src_tag = Tag_Readonly then readonly_operand (re_store env) src else Some None) (\<lambda>operand.
          rel (unwrap_or operand src) tgt_operand kind))
      else if src_tag = Tag_Readonly then reject src tgt
      else if src_tag = Tag_Object \<and> tgt_tag = Tag_Object then relate_objects env src tgt kind
      else if src_tag = Tag_Function \<and> tgt_tag = Tag_Function then relate_functions env src tgt kind
      else if src_tag = Tag_Object \<and> tgt_tag = Tag_Function then relate_object_to_function env src tgt kind
      else if src_tag = Tag_Function \<and> tgt_tag = Tag_Object then relate_function_to_object env src tgt kind
      else if src_tag = Tag_Array \<and> tgt_tag = Tag_Array then relate_arrays env src tgt kind
      else if src_tag = Tag_Tuple \<and> tgt_tag = Tag_Tuple then relate_tuples env src tgt kind
      else if src_tag = Tag_Tuple \<and> tgt_tag = Tag_Array then relate_tuple_to_array env src tgt kind
      else reject src tgt)"

text \<open>The lattice rules that need no decomposition, and the apparent surfaces of native types.\<close>

definition relate_plain ::
    "relate_env \<Rightarrow> type_id \<Rightarrow> type_id \<Rightarrow> relation_kind \<Rightarrow> type_tag \<Rightarrow> type_tag \<Rightarrow> relation prog" where
  "relate_plain env src tgt kind src_tag tgt_tag =
     (let wk = re_well_known env in
      if tgt = wk_unknown wk then Return Yes
      else if tgt = wk_void wk \<and> src = wk_undefined wk then Return Yes
      else look (literal_value_of (re_store env) src) (\<lambda>literal.
        if (case literal of Some lit \<Rightarrow> intrinsic_id wk (base_kind lit) = tgt | None \<Rightarrow> False) then Return Yes
        else look (object_type_of (re_store env) tgt) (\<lambda>target.
        look (intrinsic_kind_of (re_store env) src) (\<lambda>src_kind.
          if is_empty_object target \<and> (non_nullish_tag src_tag \<or> non_nullish_kind src_kind) then Return Yes
          else if src_tag \<noteq> Tag_Object \<and> tgt_tag = Tag_Object
          then or_else (relate_native_apparent_object_target env src tgt kind)
                 (relate_by_tags env src tgt kind src_tag tgt_tag)
          else relate_by_tags env src tgt kind src_tag tgt_tag))))"

text \<open>Deferred types, unions and intersections.\<close>

definition relate_composite ::
    "relate_env \<Rightarrow> type_id \<Rightarrow> type_id \<Rightarrow> relation_kind \<Rightarrow> type_tag \<Rightarrow> type_tag \<Rightarrow> relation prog" where
  "relate_composite env src tgt kind src_tag tgt_tag =
     (if src_tag = Tag_Conditional then relate_conditional_source env src tgt kind
      else if tgt_tag \<in> {Tag_Conditional, Tag_Instantiation, Tag_Mapped, Tag_Keyof} then reject src tgt
      else if src_tag = Tag_Instantiation then
        look (instantiation_type_of (re_store env) src) (\<lambda>inst.
          if (case inst of Some i \<Rightarrow> is_string_intrinsic_marker (re_well_known env) (in_base i) | None \<Rightarrow> False)
          then may (probe (wk_string (re_well_known env)) tgt kind) Yes (reject src tgt)
          else reject src tgt)
      else if src_tag = Tag_Mapped then reject src tgt
      else if src_tag = Tag_Keyof then reject src tgt
      else if src_tag = Tag_Union then relate_union_source env src tgt kind
      else if tgt_tag = Tag_Union then relate_union_target env src tgt kind
      else if tgt_tag = Tag_Intersection then relate_intersection_target env src tgt kind
      else if src_tag = Tag_Intersection then relate_intersection_source env src tgt kind
      else if library_object_top env tgt
      then or_else (relate_library_object_target env src tgt kind) (relate_plain env src tgt kind src_tag tgt_tag)
      else relate_plain env src tgt kind src_tag tgt_tag)"

definition relate_uncached :: "relate_env \<Rightarrow> type_id \<Rightarrow> type_id \<Rightarrow> relation_kind \<Rightarrow> relation prog" where
  "relate_uncached env src tgt kind =
     (let wk = re_well_known env in
      look (or_m (is_error_type env src) (is_error_type env tgt)) (\<lambda>is_error.
        if is_error then Return Yes
        else if src = wk_never wk then Return Yes
        else look (is_any_type env src) (\<lambda>src_any.
          if src_any then (if tgt = wk_never wk then reject src tgt else Return Yes)
          else look (is_any_type env tgt) (\<lambda>tgt_any.
            if tgt_any then Return Yes
            else look (tag (re_store env) src) (\<lambda>src_tag.
            look (tag (re_store env) tgt) (\<lambda>tgt_tag.
            look (intersection_members (re_store env) src) (\<lambda>conjuncts.
              let rest =
                (if tgt_tag \<noteq> Tag_Object \<and> (case conjuncts of Some members \<Rightarrow> tgt \<in> set members | None \<Rightarrow> False)
                 then Return Yes
                 else relate_composite env src tgt kind src_tag tgt_tag) in
              if src_tag = Tag_TypeParam then type_param_source env src tgt kind rest else rest)))))))"

end
