(* ===== verification/Relation_Engine.thy ===== *)
theory Relation_Engine
  imports Relation_Rules "HOL-Library.Product_Lexorder"
begin

text \<open>
  The driver of the relation engine (\<^verbatim>\<open>relate/relation/mod.rs\<close>): the state of a \<open>Relater\<close>, the identity
  of the active binder environment, the execution of a rule's program on the state, and \<open>relate\<close>
  itself with its caches, its assume-true stack and its bookkeeping of assumptions. The recursion
  is bounded by a fuel argument; \<open>Timeout\<close> is its exhaustion and \<open>Panicked\<close> a panic of the source.
\<close>

section \<open>State\<close>

record stack_relation_key =
  sk_relation :: relation_key
  sk_environment :: nat

text \<open>\<open>EMPTY_BINDER_ENVIRONMENT\<close>.\<close>

definition empty_binder_environment :: nat where
  "empty_binder_environment = 0"

record stack_binder_environment =
  be_source_to_target_alignments :: "(type_param_id \<times> type_param_id) list"
  be_target_to_source_alignments :: "(type_param_id \<times> type_param_id) list"
  be_deferred_alignments :: "(type_param_id \<times> type_param_id) list"
  be_constraints :: "(type_param_id \<times> type_id option) list"
  be_source_specializations :: "(type_param_id \<times> type_id option \<times> type_id option) list"

definition be_is_empty :: "stack_binder_environment \<Rightarrow> bool" where
  "be_is_empty e \<longleftrightarrow> be_source_to_target_alignments e = [] \<and> be_target_to_source_alignments e = []
     \<and> be_deferred_alignments e = [] \<and> be_constraints e = [] \<and> be_source_specializations e = []"

type_synonym assumed_set = "stack_relation_key set"

record relater =
  rl_cache :: relation_cache
  rl_pending_cache :: relation_cache
  rl_query_exhaustion :: "exhaustion option"
  rl_allow_relation_demand :: bool
  rl_query_demand :: "relation_demand option"
  rl_query_apparent_demands :: "relation_demand list"
  rl_query_apparent_demand_set :: "relation_demand set"
  rl_query_demand_observed :: bool
  rl_stack :: "stack_relation_key set"
  rl_completed_contextual_yes :: "stack_relation_key set"
  rl_binder_contexts :: "binder_context list"
  rl_binder_environments :: "(stack_binder_environment, nat) fmap"
  rl_active_binder_environment :: "nat option"
  rl_source_specialization_epoch :: u64
  rl_want_reason :: bool

definition relater_planned :: "relation_cache \<Rightarrow> relater" where
  "relater_planned cache = \<lparr>rl_cache = cache, rl_pending_cache = rc_new, rl_query_exhaustion = None,
     rl_allow_relation_demand = False, rl_query_demand = None, rl_query_apparent_demands = [],
     rl_query_apparent_demand_set = {}, rl_query_demand_observed = False, rl_stack = {},
     rl_completed_contextual_yes = {}, rl_binder_contexts = [], rl_binder_environments = fmempty,
     rl_active_binder_environment = Some empty_binder_environment, rl_source_specialization_epoch = 0,
     rl_want_reason = True\<rparr>"

section \<open>Binder environments\<close>

fun visible_alignment :: "bool \<Rightarrow> bool \<Rightarrow> binder_context list \<Rightarrow> type_param_id \<Rightarrow> type_param_id \<Rightarrow> bool" where
  "visible_alignment direct reverse [] src tgt = False"
| "visible_alignment direct reverse (c # outer) src tgt =
     (if direct \<and> fmlookup (bc_source_to_target c) src = Some tgt then True
      else if reverse \<and> fmlookup (bc_target_to_source c) src = Some tgt then True
      else
        let direct = (direct \<and> src |\<notin>| bc_source_parameters c \<and> tgt |\<notin>| bc_target_parameters c);
            reverse = (reverse \<and> src |\<notin>| bc_target_parameters c \<and> tgt |\<notin>| bc_source_parameters c) in
        if \<not> direct \<and> \<not> reverse then False
        else visible_alignment direct reverse outer src tgt)"

definition contextual_param_ids_are_aligned :: "binder_context list \<Rightarrow> type_param_id \<Rightarrow> type_param_id \<Rightarrow> bool" where
  "contextual_param_ids_are_aligned contexts src tgt = visible_alignment True True (rev contexts) src tgt"

definition contextual_params_are_aligned :: "relate_env \<Rightarrow> binder_context list \<Rightarrow> type_id \<Rightarrow> type_id \<Rightarrow> bool option" where
  "contextual_params_are_aligned env contexts src tgt = do {
     s \<leftarrow> type_param_of (re_store env) src;
     case s of
       None \<Rightarrow> Some False
     | Some s \<Rightarrow> do {
         t \<leftarrow> type_param_of (re_store env) tgt;
         Some (case t of None \<Rightarrow> False | Some t \<Rightarrow> contextual_param_ids_are_aligned contexts (tp_id s) (tp_id t))
       }
   }"

definition contextual_deferred_indexed_accesses_are_identical ::
    "relate_env \<Rightarrow> binder_context list \<Rightarrow> type_id \<Rightarrow> type_id \<Rightarrow> bool option" where
  "contextual_deferred_indexed_accesses_are_identical env contexts src tgt = do {
     s \<leftarrow> deferred_indexed_access_type_of (re_store env) src;
     case s of
       None \<Rightarrow> Some False
     | Some s \<Rightarrow> do {
         t \<leftarrow> deferred_indexed_access_type_of (re_store env) tgt;
         case t of
           None \<Rightarrow> Some False
         | Some t \<Rightarrow>
             if di_object s \<noteq> di_object t then Some False
             else if di_index s = di_index t then Some True
             else contextual_params_are_aligned env contexts (di_index s) (di_index t)
       }
   }"

definition context_constraint_of :: "binder_context \<Rightarrow> type_param_id \<Rightarrow> type_id option" where
  "context_constraint_of c p = (case fmlookup (bc_constraints c) p of Some found \<Rightarrow> found | None \<Rightarrow> None)"

text \<open>Alignments are collected from all contexts; for the rest the innermost context wins.\<close>

definition binder_environment :: "binder_context list \<Rightarrow> stack_binder_environment" where
  "binder_environment contexts =
     (let s2t = fold (\<lambda>c acc. acc |\<union>| fset_of_fmap (bc_source_to_target c)) contexts {||};
          t2s = fold (\<lambda>c acc. acc |\<union>| fset_of_fmap (bc_target_to_source c)) contexts {||};
          constraints = fold (\<lambda>c acc. acc ++\<^sub>f
              fmap_of_list (map (\<lambda>p. (p, context_constraint_of c p)) (sorted_list_of_fset (bc_parameters c)))) contexts fmempty;
          specializations = fold (\<lambda>c acc. acc ++\<^sub>f
              fmap_of_list (map (\<lambda>p. (p, (context_constraint_of c p, fmlookup (bc_source_instantiations c) p)))
                (sorted_list_of_fset (bc_instantiable_source c)))) contexts fmempty in
      \<lparr>be_source_to_target_alignments = sorted_list_of_fset s2t,
       be_target_to_source_alignments = sorted_list_of_fset t2s,
       be_deferred_alignments = sorted_list_of_fset
         (ffilter (\<lambda>(s, t). contextual_param_ids_are_aligned contexts s t) (s2t |\<union>| t2s)),
       be_constraints = map (\<lambda>p. (p, the (fmlookup constraints p))) (sorted_list_of_fset (fmdom constraints)),
       be_source_specializations =
         map (\<lambda>p. (p, the (fmlookup specializations p))) (sorted_list_of_fset (fmdom specializations))\<rparr>)"

definition binder_environment_id :: "relater \<Rightarrow> nat \<times> relater" where
  "binder_environment_id rl =
     (case rl_active_binder_environment rl of
        Some environment \<Rightarrow> (environment, rl)
      | None \<Rightarrow>
          if rl_binder_contexts rl = [] then
            (empty_binder_environment, rl\<lparr>rl_active_binder_environment := Some empty_binder_environment\<rparr>)
          else
            let environment = binder_environment (rl_binder_contexts rl) in
            if be_is_empty environment then
              (empty_binder_environment, rl\<lparr>rl_active_binder_environment := Some empty_binder_environment\<rparr>)
            else case fmlookup (rl_binder_environments rl) environment of
              Some environment_id \<Rightarrow> (environment_id, rl\<lparr>rl_active_binder_environment := Some environment_id\<rparr>)
            | None \<Rightarrow>
                let next = fmsize (rl_binder_environments rl) + 1 in
                (next, rl\<lparr>rl_binder_environments := fmupd environment next (rl_binder_environments rl),
                          rl_active_binder_environment := Some next\<rparr>))"

definition stack_relation_key_of :: "relater \<Rightarrow> relation_key \<Rightarrow> stack_relation_key \<times> relater" where
  "stack_relation_key_of rl relation =
     (case binder_environment_id rl of (environment, rl) \<Rightarrow>
        (\<lparr>sk_relation = relation, sk_environment = environment\<rparr>, rl))"

text \<open>\<open>None\<close> is the overflow of the epoch counter.\<close>

definition specialize_source_parameter :: "relater \<Rightarrow> nat \<Rightarrow> type_param_id \<Rightarrow> type_id \<Rightarrow> relater option" where
  "specialize_source_parameter rl context_index parameter ty =
     (if context_index < length (rl_binder_contexts rl) then
        if rl_source_specialization_epoch rl = - 1 then None
        else
          let c = rl_binder_contexts rl ! context_index in
          Some (rl\<lparr>rl_binder_contexts := (rl_binder_contexts rl)[context_index :=
                       c\<lparr>bc_source_instantiations := fmupd parameter ty (bc_source_instantiations c)\<rparr>],
                   rl_active_binder_environment := None,
                   rl_source_specialization_epoch := rl_source_specialization_epoch rl + 1\<rparr>)
      else Some rl)"

text \<open>The innermost context in which the parameter may be instantiated.\<close>

definition instantiable_context :: "binder_context list \<Rightarrow> type_param_id \<Rightarrow> nat option" where
  "instantiable_context contexts param =
     find (\<lambda>i. param |\<in>| bc_instantiable_source (contexts ! i)) (rev [0..<length contexts])"

definition contextual_binding ::
    "binder_context list \<Rightarrow> type_param_id option \<Rightarrow> type_param_id option \<Rightarrow> type_id \<Rightarrow> type_id \<Rightarrow>
     (nat \<times> type_param_id \<times> type_id \<times> bool) option" where
  "contextual_binding contexts src_param tgt_param src tgt =
     (case Option.bind src_param (\<lambda>p. map_option (\<lambda>i. (i, p, tgt, True)) (instantiable_context contexts p)) of
        Some binding \<Rightarrow> Some binding
      | None \<Rightarrow>
          Option.bind tgt_param (\<lambda>p. map_option (\<lambda>i. (i, p, src, False)) (instantiable_context contexts p)))"

definition relate_contextual_type_params ::
    "relate_env \<Rightarrow> type_id \<Rightarrow> type_id \<Rightarrow> relation_kind \<Rightarrow> relation option prog" where
  "relate_contextual_type_params env src tgt kind =
     look (type_param_of (re_store env) src) (\<lambda>src_row.
     look (type_param_of (re_store env) tgt) (\<lambda>tgt_row.
     Ask_Binders (\<lambda>contexts.
       let src_param = map_option tp_id src_row; tgt_param = map_option tp_id tgt_row in
       if (case (src_param, tgt_param) of
             (Some s, Some t) \<Rightarrow>
               list_ex (\<lambda>c. fmlookup (bc_source_to_target c) s = Some t \<or> fmlookup (bc_target_to_source c) s = Some t) contexts
           | _ \<Rightarrow> False)
       then Return (Some Yes)
       else case contextual_binding contexts src_param tgt_param src tgt of
         None \<Rightarrow> Return None
       | Some (context_index, param, other, source_on_left) \<Rightarrow>
           let context = contexts ! context_index in
           (case fmlookup (bc_source_instantiations context) param of
              Some existing \<Rightarrow>
                bind (if source_on_left then rel existing other kind else rel other existing kind) (\<lambda>r. Return (Some r))
            | None \<Rightarrow>
                Specialize context_index param other
                  (case context_constraint_of context param of
                     Some constraint \<Rightarrow>
                       must (probe other constraint kind) (\<lambda>_. Some (No (chain_leaf src tgt))) (Return (Some Yes))
                   | None \<Rightarrow> Return (Some Yes))))))"

section \<open>Running a program\<close>

datatype 'a answer = Timeout | Panicked | Answer 'a

type_synonym 'a step = "assumed_set \<Rightarrow> relater \<Rightarrow> ('a \<times> assumed_set \<times> relater) answer"

type_synonym query = "type_id \<Rightarrow> type_id \<Rightarrow> relation_kind \<Rightarrow> bool \<Rightarrow> relation step"

definition continue :: "'a answer \<Rightarrow> ('a \<Rightarrow> 'b answer) \<Rightarrow> 'b answer" where
  "continue a f = (case a of Timeout \<Rightarrow> Timeout | Panicked \<Rightarrow> Panicked | Answer x \<Rightarrow> f x)"

definition get_or_insert :: "'a option \<Rightarrow> 'a \<Rightarrow> 'a option" where
  "get_or_insert x y = (case x of None \<Rightarrow> Some y | Some z \<Rightarrow> Some z)"

definition note_exhaustion :: "exhaustion \<Rightarrow> relater \<Rightarrow> relater" where
  "note_exhaustion e rl = rl\<lparr>rl_query_exhaustion := get_or_insert (rl_query_exhaustion rl) e\<rparr>"

definition note_demand :: "relation_demand \<Rightarrow> relater \<Rightarrow> relater" where
  "note_demand d rl = rl\<lparr>rl_query_demand := get_or_insert (rl_query_demand rl) d, rl_query_demand_observed := True\<rparr>"

definition record_apparent_surface_demand :: "relation_demand \<Rightarrow> relater \<Rightarrow> relater" where
  "record_apparent_surface_demand d rl =
     (if rl_query_demand rl = None \<and> d \<notin> rl_query_apparent_demand_set rl then
        rl\<lparr>rl_query_demand_observed := True,
           rl_query_apparent_demand_set := insert d (rl_query_apparent_demand_set rl),
           rl_query_apparent_demands := rl_query_apparent_demands rl @ [d]\<rparr>
      else rl\<lparr>rl_query_demand_observed := True\<rparr>)"

definition push_context :: "binder_context \<Rightarrow> relater \<Rightarrow> relater" where
  "push_context c rl =
     rl\<lparr>rl_binder_contexts := rl_binder_contexts rl @ [c], rl_active_binder_environment := None\<rparr>"

definition pop_context :: "relater \<Rightarrow> relater" where
  "pop_context rl =
     rl\<lparr>rl_binder_contexts := butlast (rl_binder_contexts rl), rl_active_binder_environment := None\<rparr>"

text \<open>A query that accounts for its assumptions in one of the three ways.\<close>

definition ask :: "relation step \<Rightarrow> accumulator \<Rightarrow> relation step" where
  "ask q a assumed rl = (case a of
       Acc_Shared \<Rightarrow> q assumed rl
     | Acc_Winner \<Rightarrow> continue (q {} rl) (\<lambda>(r, own, rl). Answer (r, if is_yes r then assumed \<union> own else assumed, rl))
     | Acc_Fresh \<Rightarrow> continue (q {} rl) (\<lambda>(r, _, rl). Answer (r, assumed, rl)))"

primrec run :: "query \<Rightarrow> 'a prog \<Rightarrow> 'a step" where
  "run q (Return x) assumed rl = Answer (x, assumed, rl)"
| "run q Panic assumed rl = Panicked"
| "run q (Relate s t k a w c) assumed rl =
     continue (ask (q s t k w) a assumed rl) (\<lambda>(r, assumed, rl). run q (c r) assumed rl)"
| "run q (Ask_Mode c) assumed rl = run q (c (rl_want_reason rl)) assumed rl"
| "run q (Set_Mode b p) assumed rl = run q p assumed (rl\<lparr>rl_want_reason := b\<rparr>)"
| "run q (Ask_Allow c) assumed rl = run q (c (rl_allow_relation_demand rl)) assumed rl"
| "run q (Ask_Binders c) assumed rl = run q (c (rl_binder_contexts rl)) assumed rl"
| "run q (Push_Binder x p) assumed rl = run q p assumed (push_context x rl)"
| "run q (Pop_Binder p) assumed rl = run q p assumed (pop_context rl)"
| "run q (Specialize i x t p) assumed rl =
     (case specialize_source_parameter rl i x t of None \<Rightarrow> Panicked | Some rl \<Rightarrow> run q p assumed rl)"
| "run q (Record_Demand d p) assumed rl = run q p assumed (note_demand d rl)"
| "run q (Record_Apparent d p) assumed rl = run q p assumed (record_apparent_surface_demand d rl)"
| "run q (Record_Exhaustion e p) assumed rl = run q p assumed (note_exhaustion e rl)"

section \<open>The driver\<close>

definition cached_verdict :: "relater \<Rightarrow> relation_key \<Rightarrow> bool option" where
  "cached_verdict rl key =
     (if rl_binder_contexts rl = [] then
        (case rc_get (rl_pending_cache rl) key of Some verdict \<Rightarrow> Some verdict | None \<Rightarrow> rc_get (rl_cache rl) key)
      else None)"

definition cache_insert :: "relate_env \<Rightarrow> relation_key \<Rightarrow> bool \<Rightarrow> relater \<Rightarrow> relater" where
  "cache_insert env key verdict rl =
     (if re_normalization env \<noteq> None
      then rl\<lparr>rl_pending_cache := rc_insert (rl_pending_cache rl) key verdict\<rparr>
      else rl\<lparr>rl_cache := rc_insert (rl_cache rl) key verdict\<rparr>)"

text \<open>
  What follows the structural rule of a frame: the clamp to a cached failure, the discharge of the
  frame's own assumption, and the commit of a verdict that rests on no other.
\<close>

definition finish_frame ::
    "relate_env \<Rightarrow> type_id \<Rightarrow> type_id \<Rightarrow> stack_relation_key \<Rightarrow> bool option \<Rightarrow> u64 \<Rightarrow> assumed_set \<Rightarrow>
     relation \<Rightarrow> assumed_set \<Rightarrow> relater \<Rightarrow> relation \<times> assumed_set \<times> relater" where
  "finish_frame env original_src original_tgt stack_key cached frame_epoch assumed result0 frame_assumed0 rl0 =
     (let rl = rl0\<lparr>rl_stack := rl_stack rl0 - {stack_key}\<rparr>;
          result = (if cached = Some False \<and> is_yes result0 then No (chain_leaf original_src original_tgt) else result0);
          frame_assumed = frame_assumed0 - {stack_key};
          provisional = (frame_assumed \<noteq> {});
          rl = (if rl_binder_contexts rl \<noteq> [] \<and> is_yes result \<and> \<not> provisional
                   \<and> \<not> rl_query_demand_observed rl \<and> rl_query_exhaustion rl = None
                   \<and> rl_source_specialization_epoch rl = frame_epoch
                then rl\<lparr>rl_completed_contextual_yes := insert stack_key (rl_completed_contextual_yes rl)\<rparr>
                else rl);
          rl = (if rl_binder_contexts rl = [] \<and> cached = None \<and> \<not> rl_query_demand_observed rl then
                  (if \<not> is_yes result then cache_insert env (sk_relation stack_key) False rl
                   else if \<not> provisional then cache_insert env (sk_relation stack_key) True rl
                   else rl)
                else rl) in
      (result, assumed \<union> frame_assumed, rl))"

definition relate_frame ::
    "query \<Rightarrow> relate_env \<Rightarrow> type_id \<Rightarrow> type_id \<Rightarrow> type_id \<Rightarrow> type_id \<Rightarrow> relation_kind \<Rightarrow> bool \<Rightarrow> relation step" where
  "relate_frame q env original_src original_tgt src tgt kind want_reason assumed rl0 =
     (let key = relation_key_new src tgt kind in
      case stack_relation_key_of rl0 key of (stack_key, rl) \<Rightarrow>
        if stack_key \<in> rl_stack rl then Answer (Yes, insert stack_key assumed, rl)
        else if rl_binder_contexts rl \<noteq> [] \<and> stack_key \<in> rl_completed_contextual_yes rl
        then Answer (Yes, assumed, rl)
        else
          let cached = cached_verdict rl key in
          if cached = Some True then Answer (Yes, assumed, rl)
          else if cached = Some False \<and> \<not> want_reason
          then Answer (No (chain_leaf original_src original_tgt), assumed, rl)
          else
            continue
              (run q (with_reason_mode want_reason (relate_uncached env src tgt kind)) {}
                 (rl\<lparr>rl_stack := insert stack_key (rl_stack rl)\<rparr>))
              (\<lambda>(result, frame_assumed, rl').
                 Answer (finish_frame env original_src original_tgt stack_key cached
                           (rl_source_specialization_epoch rl) assumed result frame_assumed rl')))"

definition relate_step :: "query \<Rightarrow> relate_env \<Rightarrow> query" where
  "relate_step q env original_src original_tgt kind want_reason assumed rl0 =
     (let rl = (if rl_stack rl0 = {} then rl0\<lparr>rl_completed_contextual_yes := {}\<rparr> else rl0);
          failure = No (chain_leaf original_src original_tgt) in
      case normalized env original_src of
        Inl reason \<Rightarrow> Answer (failure, assumed, note_exhaustion reason rl)
      | Inr src \<Rightarrow>
          (case normalized env original_tgt of
             Inl reason \<Rightarrow> Answer (failure, assumed, note_exhaustion reason rl)
           | Inr tgt \<Rightarrow>
               if src = tgt then Answer (Yes, assumed, rl)
               else (case contextual_deferred_indexed_accesses_are_identical env (rl_binder_contexts rl) src tgt of
                  None \<Rightarrow> Panicked
                | Some True \<Rightarrow> Answer (Yes, assumed, rl)
                | Some False \<Rightarrow>
                    (case (if rl_allow_relation_demand rl
                           then (case normalization_demand env src of
                                   Some demand \<Rightarrow> Some demand
                                 | None \<Rightarrow> normalization_demand env tgt)
                           else None) of
                       Some demand \<Rightarrow> Answer (failure, assumed, note_demand demand rl)
                     | None \<Rightarrow>
                         continue
                           (run q (with_reason_mode want_reason (relate_contextual_type_params env src tgt kind)) assumed rl)
                           (\<lambda>(result, assumed, rl). case result of
                              Some result \<Rightarrow> Answer (result, assumed, rl)
                            | None \<Rightarrow>
                                relate_frame q env original_src original_tgt src tgt kind want_reason assumed rl)))))"

primrec relate :: "nat \<Rightarrow> relate_env \<Rightarrow> query" where
  "relate 0 env = (\<lambda>src tgt kind want_reason assumed rl. Timeout)"
| "relate (Suc n) env = relate_step (relate n env) env"

section \<open>Entry points\<close>

definition begin_outcome :: "relater \<Rightarrow> relater" where
  "begin_outcome rl = rl\<lparr>rl_allow_relation_demand := False, rl_query_exhaustion := None\<rparr>"

definition begin_attempt :: "relater \<Rightarrow> relater" where
  "begin_attempt rl = rl\<lparr>rl_allow_relation_demand := True, rl_query_exhaustion := None, rl_query_demand := None,
     rl_query_apparent_demands := [], rl_query_apparent_demand_set := {}, rl_query_demand_observed := False\<rparr>"

definition is_assignable_outcome ::
    "nat \<Rightarrow> relate_env \<Rightarrow> relater \<Rightarrow> type_id \<Rightarrow> type_id \<Rightarrow> (relation_outcome \<times> relater) answer" where
  "is_assignable_outcome n env rl src tgt =
     continue (relate n env src tgt Rel_Assignable True {} (begin_outcome rl)) (\<lambda>(relation, _, rl).
       Answer (case rl_query_exhaustion rl of
                 Some reason \<Rightarrow> Outcome_Exhausted reason
               | None \<Rightarrow> (case relation of Yes \<Rightarrow> Outcome_Yes | No reason \<Rightarrow> Outcome_No reason),
               rl\<lparr>rl_query_exhaustion := None\<rparr>))"

text \<open>The end of an attempt: exhaustion first, then the collected demands, then the verdict.\<close>

definition end_attempt :: "relation \<Rightarrow> relater \<Rightarrow> relation_attempt \<times> relater" where
  "end_attempt verdict rl0 =
     (let rl = rl0\<lparr>rl_query_exhaustion := None\<rparr> in
      case rl_query_exhaustion rl0 of
        Some reason \<Rightarrow> (Attempt_Decided (Outcome_Exhausted reason), rl)
      | None \<Rightarrow>
          if rl_query_apparent_demands rl \<noteq> [] then
            (Attempt_NeedsBatch (rl_query_apparent_demands rl),
             rl\<lparr>rl_query_apparent_demand_set := {}, rl_query_apparent_demands := []\<rparr>)
          else (case rl_query_demand rl of
              Some demand \<Rightarrow> (Attempt_Needs demand, rl\<lparr>rl_query_demand := None\<rparr>)
            | None \<Rightarrow>
                (Attempt_Decided (case verdict of Yes \<Rightarrow> Outcome_Yes | No reason \<Rightarrow> Outcome_No reason), rl)))"

definition is_assignable_attempt ::
    "nat \<Rightarrow> relate_env \<Rightarrow> relater \<Rightarrow> type_id \<Rightarrow> type_id \<Rightarrow> (relation_attempt \<times> relater) answer" where
  "is_assignable_attempt n env rl src tgt =
     continue (relate n env src tgt Rel_Assignable True {} (begin_attempt rl)) (\<lambda>(relation, _, rl).
       Answer (end_attempt relation rl))"

definition finish_planned :: "relater \<Rightarrow> bool \<Rightarrow> relation_cache" where
  "finish_planned rl commit =
     (if commit \<and> rl_query_exhaustion rl = None \<and> \<not> rl_query_demand_observed rl
      then rc_promote (rl_cache rl) (rl_pending_cache rl)
      else rl_cache rl)"

text \<open>Overload compatibility: its nested queries rest on no enclosing assumption.\<close>

definition nested_assignable :: "type_id \<Rightarrow> type_id \<Rightarrow> relation prog" where
  "nested_assignable source target = Relate source target Rel_Assignable Acc_Fresh False Return"

definition overload_implementation_shapes :: "function_type \<Rightarrow> function_type \<Rightarrow> bool \<Rightarrow> bool prog" where
  "overload_implementation_shapes overload implementation implementation_return_to_overload =
     (let no = (\<lambda>_. False);
          returns =
            bind (nested_assignable (fn_ret overload) (fn_ret implementation)) (\<lambda>r.
              if \<not> implementation_return_to_overload then Return (is_yes r)
              else if is_yes r then Return True
              else bind (nested_assignable (fn_ret implementation) (fn_ret overload)) (\<lambda>r. Return (is_yes r)));
          params =
            (if required_param_count implementation > required_param_count overload then Return False
             else for_each (\<lambda>(overload_param, implementation_param) k.
                 if pa_rest overload_param \<noteq> pa_rest implementation_param then Return False
                 else must (nested_assignable (pa_ty overload_param) (pa_ty implementation_param)) no k)
               (zip (fn_params overload) (fn_params implementation)) returns) in
      case (fn_receiver overload, fn_receiver implementation) of
        (Some overload_receiver, Some implementation_receiver) \<Rightarrow>
          must (nested_assignable overload_receiver implementation_receiver) no params
      | _ \<Rightarrow> params)"

definition overload_implementation_compatible_inner :: "relate_env \<Rightarrow> type_id \<Rightarrow> type_id \<Rightarrow> bool prog" where
  "overload_implementation_compatible_inner env overload_ty implementation_ty =
     let_some (function_type_of (re_store env) overload_ty) (Return False) (\<lambda>overload.
     let_some (function_type_of (re_store env) implementation_ty) (Return False) (\<lambda>implementation.
       if fn_type_params overload = [] then
         (if fn_type_params implementation = [] then overload_implementation_shapes overload implementation False
          else bind (nested_assignable implementation_ty overload_ty) (\<lambda>r. Return (is_yes r)))
       else if fn_type_params implementation = [] then
         with_binder_context (bc_source_specialization (fn_type_params overload))
           (overload_implementation_shapes overload implementation True)
       else if length (fn_type_params overload) \<noteq> length (fn_type_params implementation) then Return False
       else with_binder_context (bc_aligned (fn_type_params overload) (fn_type_params implementation))
         (for_each (\<lambda>(overload_param, implementation_param) k.
              let unknown = wk_unknown (re_well_known env) in
              must (nested_assignable (unwrap_or (gp_constraint overload_param) unknown)
                      (unwrap_or (gp_constraint implementation_param) unknown)) (\<lambda>_. False) k)
            (zip (fn_type_params overload) (fn_type_params implementation))
            (overload_implementation_shapes overload implementation True))))"

definition overload_implementation_compatible_attempt ::
    "nat \<Rightarrow> relate_env \<Rightarrow> relater \<Rightarrow> type_id \<Rightarrow> type_id \<Rightarrow> (relation_attempt \<times> relater) answer" where
  "overload_implementation_compatible_attempt n env rl overload_ty implementation_ty =
     continue (run (relate n env) (overload_implementation_compatible_inner env overload_ty implementation_ty) {}
                 (begin_attempt rl)) (\<lambda>(compatible, _, rl).
       Answer (end_attempt (if compatible then Yes else No (chain_leaf overload_ty implementation_ty)) rl))"

end
