(* ===== verification/Relation_Closed.thy ===== *)
theory Relation_Closed
  imports Relation_Engine
begin

text \<open>
  Every structural rule is a closed and monotone program, on an arena whose rows refer only to rows
  of the arena, in which no function is generic and in which tuple rests, readonly operands and
  union members are older than the row that holds them. The laws of such an arena are collected in
  the locale \<open>arena\<close>; the lemmas on the rules are proved once inside it.
\<close>

section \<open>Closed arenas\<close>

definition ids :: "relate_env \<Rightarrow> type_id set" where
  "ids env = {t. unat t < store_len (re_store env)}"

text \<open>The types a row refers to.\<close>

fun row_children :: "ty_row \<Rightarrow> type_id list" where
  "row_children (Row_Object ob) = object_children ob"
| "row_children (Row_Union ms) = ms"
| "row_children (Row_Intersection ms) = ms"
| "row_children (Row_Function f) = opt_list (fn_receiver f) @ map pa_ty (fn_params f) @ [fn_ret f]"
| "row_children (Row_Array t) = [t]"
| "row_children (Row_Tuple tu) = tu_elements tu @ opt_list (map_option tr_ty (tu_rest tu))"
| "row_children (Row_Readonly t) = [t]"
| "row_children (Row_Conditional c) = [co_check c, co_extends_ty c, co_true_branch c, co_false_branch c]"
| "row_children (Row_Instantiation i) = in_base i # map snd (in_args i)"
| "row_children (Row_Mapped m) = [ma_key_source m, ma_value_template m] @ opt_list (ma_modifiers_source m)"
| "row_children (Row_Template te) = te_holes te"
| "row_children (Row_Keyof t) = [t]"
| "row_children (Row_ClassInstance c) = ci_args c"
| "row_children (Row_DeferredIndexedAccess d) = [di_object d, di_index d]"
| "row_children (Row_Declared d) = map snd (de_mapper d)"
| "row_children _ = []"

text \<open>The references that the shape and template functions follow without a visited set.\<close>

fun row_older :: "ty_row \<Rightarrow> type_id list" where
  "row_older (Row_Union ms) = ms"
| "row_older (Row_Intersection ms) = ms"
| "row_older (Row_Tuple tu) = opt_list (map_option tr_ty (tu_rest tu))"
| "row_older (Row_Readonly t) = [t]"
| "row_older _ = []"

fun row_monomorphic :: "ty_row \<Rightarrow> bool" where
  "row_monomorphic (Row_Function f) \<longleftrightarrow> fn_type_params f = []"
| "row_monomorphic _ \<longleftrightarrow> True"

definition closed_rows :: "ty_row list \<Rightarrow> bool" where
  "closed_rows rows \<longleftrightarrow> list_all (\<lambda>(i, r).
     list_all (\<lambda>c. unat c < length rows) (row_children r) \<and>
     list_all (\<lambda>c. unat c < i) (row_older r) \<and> row_monomorphic r) (enumerate 0 rows)"

text \<open>What the engine relies on from the store, the well-known ids and the normalization provider.\<close>

definition closed_env :: "relate_env \<Rightarrow> bool" where
  "closed_env env \<longleftrightarrow>
     store_inv (re_store env) \<and> closed_rows (store_rows (re_store env)) \<and>
     (\<forall>p c. type_param_constraint (re_store env) p = Some c \<longrightarrow> c \<in> ids env) \<and>
     (\<forall>k. intrinsic_id (re_well_known env) k \<in> ids env) \<and>
     (\<forall>t u. t \<in> ids env \<longrightarrow> normalized env t = Inr u \<longrightarrow> u \<in> ids env) \<and>
     (\<forall>t u. t \<in> ids env \<longrightarrow> apparent_surface_of env t = Surface_Ready u \<longrightarrow> u \<in> ids env)"

text \<open>The notes the provider's answers justify.\<close>

definition justified :: "relate_env \<Rightarrow> notice set" where
  "justified env =
     {Note_Exhaustion e | e. \<exists>t\<in>ids env. normalized env t = Inl e} \<union>
     {Note_Demand d | d. \<exists>t\<in>ids env. normalization_demand env t = Some d} \<union>
     {Note_Apparent d | d. \<exists>t\<in>ids env. apparent_surface_of env t = Surface_Needs d}"

locale arena =
  fixes env :: relate_env
  assumes closed_env: "closed_env env"
begin

abbreviation st :: store where
  "st \<equiv> re_store env"

abbreviation V :: "type_id set" where
  "V \<equiv> ids env"

abbreviation N :: "notice set" where
  "N \<equiv> justified env"

lemma inv: "store_inv st" and rows_closed: "closed_rows (store_rows st)"
  using closed_env by (simp_all add: closed_env_def)

lemma constraint_in: "type_param_constraint st p = Some c \<Longrightarrow> c \<in> V"
  using closed_env by (simp add: closed_env_def)

lemma intrinsic_in: "intrinsic_id (re_well_known env) k \<in> V"
  using closed_env by (simp add: closed_env_def)

lemma normalized_in: "t \<in> V \<Longrightarrow> normalized env t = Inr u \<Longrightarrow> u \<in> V"
  using closed_env unfolding closed_env_def by blast

lemma surface_in: "t \<in> V \<Longrightarrow> apparent_surface_of env t = Surface_Ready u \<Longrightarrow> u \<in> V"
  using closed_env unfolding closed_env_def by blast

lemma well_known_in [simp]:
  "wk_string (re_well_known env) \<in> V" "wk_undefined (re_well_known env) \<in> V" "wk_unknown (re_well_known env) \<in> V"
  using intrinsic_in [of Kind_String] intrinsic_in [of Kind_Undefined] intrinsic_in [of Kind_Unknown] by simp_all

lemma row_in_arena: "t \<in> V \<longleftrightarrow> (\<exists>r. nth_opt (store_rows st) (unat t) = Some r)"
  by (simp add: ids_def nth_opt_def)

lemma row_laws:
  assumes "nth_opt (store_rows st) (unat t) = Some r"
  shows "c \<in> set (row_children r) \<Longrightarrow> c \<in> V" and "c \<in> set (row_older r) \<Longrightarrow> c < t" and "row_monomorphic r"
proof -
  have "(unat t, r) \<in> set (enumerate 0 (store_rows st))"
    using assms by (simp add: in_set_enumerate_eq nth_opt_eq_Some)
  with rows_closed have *: "list_all (\<lambda>c. unat c < length (store_rows st)) (row_children r)"
      "list_all (\<lambda>c. unat c < unat t) (row_older r)" "row_monomorphic r"
    by (auto simp: closed_rows_def list_all_iff)
  from * show "c \<in> set (row_children r) \<Longrightarrow> c \<in> V" by (simp add: ids_def list_all_iff)
  from * show "c \<in> set (row_older r) \<Longrightarrow> c < t" by (simp add: word_less_nat_alt list_all_iff)
  from * show "row_monomorphic r" by simp
qed

lemma accessors_defined:
  assumes "t \<in> V"
  shows "tag st t \<noteq> None" "intrinsic_kind_of st t \<noteq> None" "literal_value_of st t \<noteq> None"
    "object_type_of st t \<noteq> None" "function_type_of st t \<noteq> None" "type_param_of st t \<noteq> None"
    "array_type_of st t \<noteq> None" "tuple_type_of st t \<noteq> None" "conditional_type_of st t \<noteq> None"
    "instantiation_type_of st t \<noteq> None" "class_instance_type_of st t \<noteq> None"
    "deferred_indexed_access_type_of st t \<noteq> None" "declared_type_of st t \<noteq> None"
    "template_type_of st t \<noteq> None" "union_members st t \<noteq> None" "intersection_members st t \<noteq> None"
    "readonly_operand st t \<noteq> None" "keyof_operand st t \<noteq> None"
  using assms by (auto simp: row_in_arena accessor_rows [OF inv])

lemma accessor_row:
  "object_type_of st t = Some (Some ob) \<Longrightarrow> nth_opt (store_rows st) (unat t) = Some (Row_Object ob)"
  "function_type_of st t = Some (Some f) \<Longrightarrow> nth_opt (store_rows st) (unat t) = Some (Row_Function f)"
  "array_type_of st t = Some (Some a) \<Longrightarrow> nth_opt (store_rows st) (unat t) = Some (Row_Array a)"
  "tuple_type_of st t = Some (Some tu) \<Longrightarrow> nth_opt (store_rows st) (unat t) = Some (Row_Tuple tu)"
  "conditional_type_of st t = Some (Some co) \<Longrightarrow> nth_opt (store_rows st) (unat t) = Some (Row_Conditional co)"
  "instantiation_type_of st t = Some (Some i) \<Longrightarrow> nth_opt (store_rows st) (unat t) = Some (Row_Instantiation i)"
  "class_instance_type_of st t = Some (Some ci) \<Longrightarrow> nth_opt (store_rows st) (unat t) = Some (Row_ClassInstance ci)"
  "deferred_indexed_access_type_of st t = Some (Some d) \<Longrightarrow> nth_opt (store_rows st) (unat t) = Some (Row_DeferredIndexedAccess d)"
  "declared_type_of st t = Some (Some de) \<Longrightarrow> nth_opt (store_rows st) (unat t) = Some (Row_Declared de)"
  "template_type_of st t = Some (Some te) \<Longrightarrow> nth_opt (store_rows st) (unat t) = Some (Row_Template te)"
  "union_members st t = Some (Some ms) \<Longrightarrow> nth_opt (store_rows st) (unat t) = Some (Row_Union ms)"
  "intersection_members st t = Some (Some ns) \<Longrightarrow> nth_opt (store_rows st) (unat t) = Some (Row_Intersection ns)"
  "readonly_operand st t = Some (Some u) \<Longrightarrow> nth_opt (store_rows st) (unat t) = Some (Row_Readonly u)"
  "keyof_operand st t = Some (Some u) \<Longrightarrow> nth_opt (store_rows st) (unat t) = Some (Row_Keyof u)"
  by (cases "nth_opt (store_rows st) (unat t)"; cases "the (nth_opt (store_rows st) (unat t))";
      simp add: accessor_rows [OF inv])+

lemma set_opt_list [simp]: "x \<in> set (opt_list y) \<longleftrightarrow> y = Some x"
  by (auto simp: opt_list_def split: option.split)

lemma children_in:
  "object_type_of st t = Some (Some ob) \<Longrightarrow> c \<in> set (object_children ob) \<Longrightarrow> c \<in> V"
  "function_type_of st t = Some (Some f) \<Longrightarrow> c \<in> set (opt_list (fn_receiver f) @ map pa_ty (fn_params f) @ [fn_ret f]) \<Longrightarrow> c \<in> V"
  "array_type_of st t = Some (Some a) \<Longrightarrow> a \<in> V"
  "tuple_type_of st t = Some (Some tu) \<Longrightarrow> c \<in> set (tu_elements tu @ opt_list (map_option tr_ty (tu_rest tu))) \<Longrightarrow> c \<in> V"
  "conditional_type_of st t = Some (Some co) \<Longrightarrow> co_true_branch co \<in> V \<and> co_false_branch co \<in> V"
  "instantiation_type_of st t = Some (Some i) \<Longrightarrow> c \<in> set (map snd (in_args i)) \<Longrightarrow> c \<in> V"
  "class_instance_type_of st t = Some (Some ci) \<Longrightarrow> c \<in> set (ci_args ci) \<Longrightarrow> c \<in> V"
  "deferred_indexed_access_type_of st t = Some (Some d) \<Longrightarrow> di_object d \<in> V \<and> di_index d \<in> V"
  "declared_type_of st t = Some (Some de) \<Longrightarrow> c \<in> set (map snd (de_mapper de)) \<Longrightarrow> c \<in> V"
  "template_type_of st t = Some (Some te) \<Longrightarrow> c \<in> set (te_holes te) \<Longrightarrow> c \<in> V"
  "union_members st t = Some (Some ms) \<Longrightarrow> c \<in> set ms \<Longrightarrow> c \<in> V"
  "intersection_members st t = Some (Some ns) \<Longrightarrow> c \<in> set ns \<Longrightarrow> c \<in> V"
  "readonly_operand st t = Some (Some u) \<Longrightarrow> u \<in> V"
  "keyof_operand st t = Some (Some u) \<Longrightarrow> u \<in> V"
  by (drule accessor_row, (intro conjI)?, (rule row_laws(1), assumption, simp)+)+

lemma older:
  "tuple_type_of st t = Some (Some tu) \<Longrightarrow> tu_rest tu = Some r \<Longrightarrow> tr_ty r < t"
  "union_members st t = Some (Some ms) \<Longrightarrow> c \<in> set ms \<Longrightarrow> c < t"
  "readonly_operand st t = Some (Some u) \<Longrightarrow> u < t"
  by (drule accessor_row, rule row_laws(2), assumption, simp)+

lemma monomorphic: "function_type_of st t = Some (Some f) \<Longrightarrow> fn_type_params f = []"
  by (drule accessor_row, drule row_laws(3)) simp


end

section \<open>Reads that return\<close>

lemma any_m_defined: "(\<And>x. x \<in> set xs \<Longrightarrow> p x \<noteq> None) \<Longrightarrow> any_m p xs \<noteq> None"
  by (induction xs) (auto simp del: not_None_eq simp: bind_eq_None_conv)

lemma all_m_defined: "(\<And>x. x \<in> set xs \<Longrightarrow> p x \<noteq> None) \<Longrightarrow> all_m p xs \<noteq> None"
  by (induction xs) (auto split: option.split bool.split)

lemma or_m_defined: "p \<noteq> None \<Longrightarrow> q \<noteq> None \<Longrightarrow> or_m p q \<noteq> None"
  by (auto simp: or_m_def)

lemma filter_m_defined: "(\<And>x. x \<in> set xs \<Longrightarrow> p x \<noteq> None) \<Longrightarrow> filter_m p xs \<noteq> None"
  by (induction xs) (auto simp del: not_None_eq simp: bind_eq_None_conv)

lemma filter_m_subset: "filter_m p xs = Some ys \<Longrightarrow> set ys \<subseteq> set xs"
  by (induction xs arbitrary: ys) (auto simp: bind_eq_Some_conv split: if_splits)

lemma walk_defined:
  assumes "\<And>t. t \<in> A \<Longrightarrow> \<exists>hit pushed. visit t = Some (hit, pushed) \<and> set pushed \<subseteq> A" and "set pending \<subseteq> A"
  shows "walk visit pending seen \<noteq> None"
  using assms
proof (induction visit pending seen rule: walk.induct)
  case (2 visit t pending seen)
  then obtain hit pushed where "visit t = Some (hit, pushed)" "set pushed \<subseteq> A" by force
  with 2 show ?case by (cases hit) auto
qed simp

definition ts_ids :: "tuple_shape \<Rightarrow> type_id set" where
  "ts_ids s = set (ts_prefix s) \<union> set (opt_list (ts_variadic s)) \<union> set (ts_suffix s)"

definition px_slots :: "param_shape \<Rightarrow> param_slot set" where
  "px_slots s = set (px_prefix s) \<union> set (opt_list (px_variadic s)) \<union> set (px_suffix s)"

definition px_ids :: "param_shape \<Rightarrow> type_id set" where
  "px_ids s = ps_ty ` px_slots s"

lemma ts_graft_ids: "ts_ids (ts_graft tuple rest inner) \<subseteq> set (tu_elements tuple) \<union> ts_ids inner"
  using set_take_subset [of "tr_position rest" "tu_elements tuple"] set_drop_subset [of "tr_position rest" "tu_elements tuple"]
  by (auto simp: ts_graft_def ts_ids_def)

lemma plain_slot_ty [simp]: "ps_ty (plain_slot t) = t"
  by (simp add: plain_slot_def)

lemma px_graft_ids: "px_ids (px_graft tuple rest inner) \<subseteq> set (tu_elements tuple) \<union> px_ids inner"
  using set_take_subset [of "tr_position rest" "tu_elements tuple"] set_drop_subset [of "tr_position rest" "tu_elements tuple"]
  by (auto simp: px_graft_def px_ids_def px_slots_def fixed_shape_def Let_def opt_list_def split: option.splits)

context arena
begin

lemma unwrap_readonly:
  assumes "t \<in> V"
  obtains u where "readonly_operand st t = Some u" "unwrap_or u t \<in> V" "unwrap_or u t \<le> t"
proof -
  obtain u where u: "readonly_operand st t = Some u" using accessors_defined(17) [OF assms] by blast
  show ?thesis
  proof (cases u)
    case None
    with u assms show ?thesis by (auto simp: unwrap_or_def intro: that)
  next
    case (Some v)
    with u children_in(13) [of t v] older(3) [of t v] show ?thesis
      by (auto simp: unwrap_or_def intro: that less_imp_le)
  qed
qed

lemma tuple_shape_in:
  assumes "tuple_type_of st t = Some (Some tu)"
    and "\<And>r. tu_rest tu = Some r \<Longrightarrow> \<exists>s. rest_tuple_shape st (tr_ty r) = Some s \<and> (\<forall>x. s = Some x \<longrightarrow> ts_ids x \<subseteq> V)"
  shows "\<exists>s. tuple_shape_of st tu = Some s \<and> (\<forall>x. s = Some x \<longrightarrow> ts_ids x \<subseteq> V)"
proof (cases "tu_rest tu")
  case None
  then show ?thesis using children_in(4) [OF assms(1)]
    by (auto simp: tuple_shape_of_def ts_fixed_def ts_ids_def opt_list_def)
next
  case (Some r)
  from assms(2) [OF Some] obtain s where "rest_tuple_shape st (tr_ty r) = Some s" "\<forall>x. s = Some x \<longrightarrow> ts_ids x \<subseteq> V" by blast
  then show ?thesis using Some children_in(4) [OF assms(1)] ts_graft_ids [of tu r]
    by (cases s) (fastforce simp: tuple_shape_of_def)+
qed

lemma rest_tuple_shape_in: "t \<in> V \<Longrightarrow> \<exists>s. rest_tuple_shape st t = Some s \<and> (\<forall>x. s = Some x \<longrightarrow> ts_ids x \<subseteq> V)"
proof (induction t rule: less_induct)
  case (less t)
  obtain u where u: "readonly_operand st t = Some u" "unwrap_or u t \<in> V" "unwrap_or u t \<le> t"
    by (rule unwrap_readonly [OF less.prems])
  let ?t = "unwrap_or u t"
  obtain a tu where a: "array_type_of st ?t = Some a" "tuple_type_of st ?t = Some tu"
    using accessors_defined [OF u(2)] by blast
  have "\<exists>s. tuple_shape_of st x = Some s \<and> (\<forall>y. s = Some y \<longrightarrow> ts_ids y \<subseteq> V)" if "tu = Some x" for x
  proof (rule tuple_shape_in)
    show tu: "tuple_type_of st ?t = Some (Some x)" using a that by simp
    fix r assume r: "tu_rest x = Some r"
    then have "tr_ty r < t" "tr_ty r \<in> V" using older(1) [OF tu r] u(3) children_in(4) [OF tu, of "tr_ty r"] by auto
    then show "\<exists>s. rest_tuple_shape st (tr_ty r) = Some s \<and> (\<forall>x. s = Some x \<longrightarrow> ts_ids x \<subseteq> V)" by (rule less.IH)
  qed
  then show ?case using u a children_in(3) [of ?t]
    by (cases a; cases tu) (auto simp: rest_tuple_shape_unfold [of st t] ts_ids_def opt_list_def)
qed

lemma tuple_shape_defined:
  assumes "tuple_type_of st t = Some (Some tu)"
  shows "tuple_shape_of st tu \<noteq> None" and "tuple_shape_of st tu = Some (Some s) \<Longrightarrow> ts_ids s \<subseteq> V"
proof -
  have "\<exists>s. tuple_shape_of st tu = Some s \<and> (\<forall>x. s = Some x \<longrightarrow> ts_ids x \<subseteq> V)"
    using tuple_shape_in [OF assms] children_in(4) [OF assms] by (auto intro: rest_tuple_shape_in)
  then show "tuple_shape_of st tu \<noteq> None" "tuple_shape_of st tu = Some (Some s) \<Longrightarrow> ts_ids s \<subseteq> V" by auto
qed

lemma tuple_param_shape_in:
  assumes "tuple_type_of st t = Some (Some tu)"
    and "\<And>r. tu_rest tu = Some r \<Longrightarrow> \<exists>s. rest_param_shape wk st (tr_ty r) = Some s \<and> (\<forall>x. s = Some x \<longrightarrow> px_ids x \<subseteq> V)"
  shows "\<exists>s. tuple_param_shape wk st tu = Some s \<and> (\<forall>x. s = Some x \<longrightarrow> px_ids x \<subseteq> V)"
proof (cases "tu_rest tu")
  case None
  then show ?thesis using children_in(4) [OF assms(1)]
    by (auto simp: tuple_param_shape_def fixed_shape_def px_ids_def px_slots_def opt_list_def)
next
  case (Some r)
  from assms(2) [OF Some] obtain s where "rest_param_shape wk st (tr_ty r) = Some s" "\<forall>x. s = Some x \<longrightarrow> px_ids x \<subseteq> V" by blast
  then show ?thesis using Some children_in(4) [OF assms(1)] px_graft_ids [of tu r]
    by (cases s) (fastforce simp: tuple_param_shape_def)+
qed

lemma rest_param_shape_in: "t \<in> V \<Longrightarrow> \<exists>s. rest_param_shape wk st t = Some s \<and> (\<forall>x. s = Some x \<longrightarrow> px_ids x \<subseteq> V)"
proof (induction t rule: less_induct)
  case (less t)
  obtain u where u: "readonly_operand st t = Some u" "unwrap_or u t \<in> V" "unwrap_or u t \<le> t"
    by (rule unwrap_readonly [OF less.prems])
  let ?t = "unwrap_or u t"
  obtain a tu where a: "array_type_of st ?t = Some a" "tuple_type_of st ?t = Some tu"
    using accessors_defined [OF u(2)] by blast
  have "\<exists>s. tuple_param_shape wk st x = Some s \<and> (\<forall>y. s = Some y \<longrightarrow> px_ids y \<subseteq> V)" if "tu = Some x" for x
  proof (rule tuple_param_shape_in)
    show tu: "tuple_type_of st ?t = Some (Some x)" using a that by simp
    fix r assume r: "tu_rest x = Some r"
    then have "tr_ty r < t" "tr_ty r \<in> V" using older(1) [OF tu r] u(3) children_in(4) [OF tu, of "tr_ty r"] by auto
    then show "\<exists>s. rest_param_shape wk st (tr_ty r) = Some s \<and> (\<forall>x. s = Some x \<longrightarrow> px_ids x \<subseteq> V)" by (rule less.IH)
  qed
  moreover have "px_ids (variadic_shape c b) = {c}" for c b
    by (simp add: variadic_shape_def px_ids_def px_slots_def opt_list_def)
  ultimately show ?case using u a children_in(3) [of ?t]
    by (cases a; cases tu) (auto simp: rest_param_shape_unfold [of wk st t] Let_def)
qed

lemma function_param_shape_defined:
  assumes "function_type_of st t = Some (Some f)"
  shows "function_param_shape wk st f \<noteq> None"
    and "function_param_shape wk st f = Some (Some s) \<Longrightarrow> px_ids s \<subseteq> V"
proof -
  have fixed: "\<And>p. p \<in> set (fixed_params f) \<Longrightarrow> pa_ty p \<in> V"
    using children_in(2) [OF assms] by (auto simp: fixed_params_def)
  have "\<exists>s. function_param_shape wk st f = Some s \<and> (\<forall>x. s = Some x \<longrightarrow> px_ids x \<subseteq> V)"
  proof (cases "rest_param f")
    case None
    with fixed show ?thesis
      by (auto simp: function_param_shape_def fixed_shape_def px_ids_def px_slots_def opt_list_def)
  next
    case (Some r)
    then have "r \<in> set (fn_params f)" using find_Some_iff_unique by (fastforce simp: rest_param_def)
    then have "pa_ty r \<in> V" using children_in(2) [OF assms] by auto
    from rest_param_shape_in [OF this, of wk] Some fixed show ?thesis
      by (fastforce simp: function_param_shape_def px_ids_def px_slots_def Let_def)
  qed
  then show "function_param_shape wk st f \<noteq> None" "function_param_shape wk st f = Some (Some s) \<Longrightarrow> px_ids s \<subseteq> V"
    by auto
qed

lemma contains_infer_defined:
  assumes "t \<in> V"
  shows "contains_infer st t \<noteq> None"
  unfolding contains_infer_def
proof (rule walk_defined [where A = V])
  fix t assume "t \<in> V"
  then obtain r where r: "nth_opt (store_rows st) (unat t) = Some r" by (auto simp: row_in_arena)
  then have "\<exists>hit pushed. infer_visit st t = Some (hit, pushed) \<and> set pushed \<subseteq> set (row_children r)"
    by (cases r) (auto simp: infer_visit_def pushes_of_def accessor_rows [OF inv])
  then show "\<exists>hit pushed. infer_visit st t = Some (hit, pushed) \<and> set pushed \<subseteq> V"
    using row_laws(1) [OF r] by blast
qed (use assms in simp)

lemma hole_matches_defined: "t \<in> V \<Longrightarrow> hole_matches_segment ft st seg t \<noteq> None"
proof (induction t rule: less_induct)
  case (less t)
  then obtain k l ms where "intrinsic_kind_of st t = Some k" "literal_value_of st t = Some l" "union_members st t = Some ms"
    using accessors_defined [of t] by blast
  moreover have "any_m (hole_matches_segment ft st seg) xs \<noteq> None" if "ms = Some xs" for xs
    using that calculation(3) less.IH older(2) [of t xs] children_in(11) [of t xs]
    by (intro any_m_defined) auto
  ultimately show ?case
    by (subst hole_matches_segment.simps) (auto split: option.splits)
qed

lemma match_holes_defined: "fst ` set hs \<subseteq> V \<Longrightarrow> match_holes ft st hs rest \<noteq> None"
proof (induction ft st hs rest rule: match_holes.induct)
  case (2 ft hole sep rest)
  then show ?case using hole_matches_defined by (auto split: option.split)
next
  case (3 ft hole sep h hs rest)
  show ?case
  proof (cases "split_at sep rest")
    case (Some sr)
    obtain seg rest' where sr: "sr = (seg, rest')" by (cases sr)
    have "hole_matches_segment ft st seg hole \<noteq> None" using 3 hole_matches_defined by simp
    then show ?thesis using 3 Some sr by auto
  qed (simp del: not_None_eq)
qed simp_all

lemma templates_defined:
  assumes "template_type_of st t = Some (Some te)"
  shows "is_concrete_pattern st te \<noteq> None" "is_bare_string_hole st te \<noteq> None"
    "match_literal_against_pattern ft st s te \<noteq> None"
proof -
  have holes: "\<And>h. h \<in> set (te_holes te) \<Longrightarrow> h \<in> V" using children_in(10) [OF assms] by simp
  show "is_concrete_pattern st te \<noteq> None"
    unfolding is_concrete_pattern_def
    by (rule all_m_defined) (use holes accessors_defined(2) in auto)
  show "is_bare_string_hole st te \<noteq> None"
    using holes accessors_defined(2) [of "te_holes te ! 0"] by (auto simp: is_bare_string_hole_def)
  have "match_holes ft st (zip (te_holes te) xs) rest \<noteq> None" for xs rest
    using holes by (intro match_holes_defined) (auto dest: set_zip_leftD)
  then show "match_literal_against_pattern ft st s te \<noteq> None"
    by (auto simp: match_literal_against_pattern_def Let_def split: option.split simp del: not_None_eq)
qed

lemma template_subsumes_defined:
  assumes "s \<in> V" "t \<in> V"
  shows "template_subsumes st s t \<noteq> None"
proof -
  obtain a b where ab: "template_type_of st s = Some a" "template_type_of st t = Some b"
    using accessors_defined(14) assms by blast
  show ?thesis
  proof (cases "a = None \<or> b = None")
    case True
    with ab show ?thesis by (auto simp: template_subsumes_def split: option.split)
  next
    case False
    then obtain x y where xy: "a = Some x" "b = Some y" by auto
    have "intrinsic_kind_of st (te_holes y ! 0) \<noteq> None" if "length (te_holes y) = 1"
      using that children_in(10) [of t y "te_holes y ! 0"] ab xy accessors_defined(2) by simp
    moreover obtain p q r where "is_concrete_pattern st x = Some p" "is_concrete_pattern st y = Some q"
        "is_bare_string_hole st y = Some r"
      using ab xy templates_defined(1) [of s x] templates_defined(1,2) [of t y] by auto
    ultimately show ?thesis using ab xy by (cases "length (te_holes y) = 1") (auto simp: template_subsumes_def)
  qed
qed

end

end
