(* ===== verification/Relation_Fine.thy ===== *)
theory Relation_Fine
  imports Relation_Closed
begin

text \<open>
  The structural rules are closed and monotone, one lemma for each rule.
\<close>

section \<open>Loops and options\<close>

lemma fine_must_because [fine_intros]:
  "fine_rel V N p \<Longrightarrow> fine_rel V N k \<Longrightarrow> fine_rel V N (must p (because w) k)"
  by (rule fine_must) (simp_all add: because_def)

lemma fine_fails [fine_intros]: "fine_rel V N (fails r)"
  by (simp add: fails_def fine_verdict)

lemma fine_for_each [fine_intros]:
  "(\<And>x k. x \<in> set xs \<Longrightarrow> fine V N le post k \<Longrightarrow> fine V N le post (body x k)) \<Longrightarrow> fine V N le post k \<Longrightarrow>
     fine V N le post (for_each body xs k)"
  by (induction xs) auto

lemma closed_results: "closed_prog V N post p \<Longrightarrow> x \<in> results P al p \<Longrightarrow> post x"
  by (induction p) auto

lemma fine_bind_read:
  assumes "fine V N (=) post p" and "\<And>x. post x \<Longrightarrow> fine V N le post' (f x)"
  shows "fine V N le post' (bind p f)"
proof -
  have "closed_prog V N post' (bind p f)"
    using assms by (auto simp: fine_def intro: closed_bind)
  moreover have "below le (bind p f) (bind p f)"
    unfolding below_def results_bind
  proof (intro allI impI ballI)
    fix P Q al x y
    assume b: "better P Q" and "x \<in> (\<Union>z\<in>results P al p. results P al (f z))" "y \<in> (\<Union>z\<in>results Q al p. results Q al (f z))"
    then obtain u v where uv: "u \<in> results P al p" "x \<in> results P al (f u)" "v \<in> results Q al p" "y \<in> results Q al (f v)"
      by blast
    with b assms(1) have "u = v" by (auto simp: fine_def below_def)
    with uv assms closed_results [of V N post p u P al] have "below le (f u) (f u)" by (simp add: fine_def)
    with b uv \<open>u = v\<close> show "le x y" by (auto simp: below_def)
  qed
  ultimately show ?thesis by (simp add: fine_def)
qed

text \<open>The order on the results of the rules that may decline: failure, declining, success.\<close>

definition opt_no_worse :: "relation option \<Rightarrow> relation option \<Rightarrow> bool" where
  "opt_no_worse x y \<longleftrightarrow>
     (case x of Some (No _) \<Rightarrow> True | None \<Rightarrow> y = None \<or> y = Some Yes | Some Yes \<Rightarrow> y = Some Yes)"

lemma opt_no_worse_simps [simp]:
  "opt_no_worse (Some (No c)) y" "opt_no_worse x (Some Yes)" "opt_no_worse None None"
  "opt_no_worse x x"
  by (auto simp: opt_no_worse_def split: option.split relation.split)

abbreviation fine_opt :: "type_id set \<Rightarrow> notice set \<Rightarrow> relation option prog \<Rightarrow> bool" where
  "fine_opt V N \<equiv> fine V N opt_no_worse (\<lambda>_. True)"

lemma fine_opt_Return [fine_intros]: "fine_opt V N (Return x)"
  by (rule fine_Return) simp_all

lemma fine_opt_must [fine_intros]: "fine_rel V N p \<Longrightarrow> fine_opt V N k \<Longrightarrow> fine_opt V N (must p (\<lambda>c. Some (No (w c))) k)"
  by (rule fine_must) simp_all

lemma fine_opt_must_each [fine_intros]:
  "(\<And>x. x \<in> set xs \<Longrightarrow> fine_rel V N (p x)) \<Longrightarrow> fine_opt V N k \<Longrightarrow> fine_opt V N (must_each p (\<lambda>x c. Some (No (w x c))) xs k)"
  "(\<And>x. x \<in> set xs \<Longrightarrow> fine_rel V N (p x)) \<Longrightarrow> fine_opt V N k \<Longrightarrow> fine_opt V N (must_each p (\<lambda>x c. Some (because f c)) xs k)"
  by (rule fine_must_each; simp add: because_def)+

lemma below_verdict [simp]: "below no_worse p (Return Yes)" "below no_worse (Return (No c)) p"
  by (simp_all add: below_def)

lemma fine_opt_bind [fine_intros]:
  assumes "fine_rel V N p"
  shows "fine_opt V N (bind p (\<lambda>r. Return (Some r)))"
  by (rule fine_bind [OF assms]) (auto simp: below_def opt_no_worse_def no_worse_def is_yes_iff split: relation.split)

lemma fine_or_else [fine_intros]:
  assumes "fine_opt V N p" and "fine_rel V N k"
  shows "fine_rel V N (or_else p k)"
  unfolding or_else_def
proof (rule fine_bind [OF assms(1)])
  fix x :: "relation option"
  show "closed_prog V N (\<lambda>_. True) (case x of None \<Rightarrow> k | Some r \<Rightarrow> Return r)"
    using assms(2) by (simp add: fine_def split: option.split)
next
  fix x y :: "relation option"
  assume le: "opt_no_worse x y"
  show "below no_worse (case x of None \<Rightarrow> k | Some r \<Rightarrow> Return r) (case y of None \<Rightarrow> k | Some r \<Rightarrow> Return r)"
  proof (cases x)
    case None
    with le have "y = None \<or> y = Some Yes" by (simp add: opt_no_worse_def)
    with None assms(2) show ?thesis by (auto simp: fine_def)
  next
    case (Some r)
    with le show ?thesis
      by (cases r) (auto simp: opt_no_worse_def)
  qed
qed

text \<open>Programs that return a test.\<close>

abbreviation fine_bool :: "type_id set \<Rightarrow> notice set \<Rightarrow> bool prog \<Rightarrow> bool" where
  "fine_bool V N \<equiv> fine V N (\<lambda>x y. x \<longrightarrow> y) (\<lambda>_. True)"

lemma fine_bool_Return [fine_intros]: "fine_bool V N (Return b)"
  by (rule fine_Return) simp_all

lemma fine_bool_may_each [fine_intros]:
  "(\<And>x. x \<in> set xs \<Longrightarrow> fine_rel V N (p x)) \<Longrightarrow> fine_bool V N k \<Longrightarrow> fine_bool V N (may_each p True xs k)"
  by (rule fine_may_each) simp_all

lemma fine_bool_bind [fine_intros]:
  assumes "fine_bool V N p" and "fine_rel V N k"
  shows "fine_rel V N (bind p (\<lambda>b. if \<not> b then reject src tgt else k))"
  by (rule fine_bind [OF assms(1)])
     (use assms(2) in \<open>auto simp: fine_def reject_def intro: below_const\<close>)

lemma fine_probe_without_reason [fine_intros]: "fine_bool V N p \<Longrightarrow> fine_bool V N (probe_without_reason p)"
  unfolding probe_without_reason_def by (rule fine_with_reason_mode)

lemma fine_let [fine_intros]: "fine V N le post (f x) \<Longrightarrow> fine V N le post (let y = x in f y)"
  by simp

lemma fine_prod [fine_intros]: "(\<And>x y. p = (x, y) \<Longrightarrow> fine V N le post (f x y)) \<Longrightarrow> fine V N le post (case p of (x, y) \<Rightarrow> f x y)"
  by (cases p) simp

lemma fine_step_prod [fine_intros]:
  "(\<And>x y. p = (x, y) \<Longrightarrow> fine V N le post (f x y k)) \<Longrightarrow> fine V N le post ((case p of (x, y) \<Rightarrow> f x y) k)"
  by (cases p) simp

section \<open>Collections and set types\<close>

context arena
begin

lemma fine_element [fine_intros]:
  "fst pair \<in> V \<Longrightarrow> snd pair \<in> V \<Longrightarrow> fine_rel V N k \<Longrightarrow> fine_rel V N (relate_element i src tgt kind pair k)"
  unfolding relate_element_def by (intro fine_intros)

lemma fine_arrays:
  assumes "src \<in> V" "tgt \<in> V"
  shows "fine_rel V N (relate_arrays env src tgt kind)"
  unfolding relate_arrays_def
  by (intro fine_intros accessors_defined assms) (auto dest: children_in)

lemma ts_ids_element: "ts_element_at s i n = Some t \<Longrightarrow> t \<in> ts_ids s"
  by (auto simp: ts_element_at_def ts_ids_def Let_def nth_opt_eq_Some split: if_splits)

lemma fine_variadic:
  assumes "ts_ids a \<subseteq> V" "ts_ids b \<subseteq> V"
  shows "fine_rel V N (relate_variadic_tuple_to_tuple env src tgt a b kind)"
  unfolding relate_variadic_tuple_to_tuple_def
  by (intro fine_intros)
     (use assms in \<open>auto simp: ts_ids_def in_set_enumerate_eq dest: nth_mem set_zip_leftD set_zip_rightD\<close>)

lemma fine_tuples:
  assumes "src \<in> V" "tgt \<in> V"
  shows "fine_rel V N (relate_tuples env src tgt kind)"
  unfolding relate_tuples_def
  by (intro fine_intros accessors_defined assms fine_variadic)
     (auto dest: tuple_shape_defined ts_ids_element)

lemma tuple_shape_member:
  assumes "tuple_type_of st t = Some (Some tu)" "tuple_shape_of st tu = Some (Some s)"
  shows "x \<in> set (ts_prefix s) \<Longrightarrow> x \<in> V" "x \<in> set (ts_suffix s) \<Longrightarrow> x \<in> V" "ts_variadic s = Some x \<Longrightarrow> x \<in> V"
  using tuple_shape_defined(2) [OF assms] by (auto simp: ts_ids_def)

lemma fine_tuple_to_array:
  assumes "src \<in> V" "tgt \<in> V"
  shows "fine_rel V N (relate_tuple_to_array env src tgt kind)"
  unfolding relate_tuple_to_array_def
  by (intro fine_intros accessors_defined assms)
     (auto dest: tuple_shape_defined(1) tuple_shape_member children_in(3))

lemma exact_targets_members: "fst ` set (exact_targets ts ms) = set ms"
  by (induction ts ms rule: exact_targets.induct) (auto simp: Let_def)

lemma fine_union_source:
  assumes "src \<in> V" "tgt \<in> V"
  shows "fine_rel V N (relate_union_source env src tgt kind)"
  unfolding relate_union_source_def
proof (intro fine_intros accessors_defined assms)
  fix members targets pair k member exact
  assume "union_members st src = Some (Some members)" and "fine_rel V N k"
    and "pair \<in> set (case targets of None \<Rightarrow> map (\<lambda>m. (m, False)) members | Some ts \<Rightarrow> exact_targets ts members)"
    and "pair = (member, exact)"
  moreover then have "member \<in> set members"
    using exact_targets_members [of "the targets" members] by (cases targets) force+
  ultimately show "member \<in> V" "member \<in> V" "member \<in> V" by (simp_all add: children_in(11))
qed

lemma fine_union_target:
  assumes "src \<in> V" "tgt \<in> V"
  shows "fine_rel V N (relate_union_target env src tgt kind)"
  unfolding relate_union_target_def
  by (intro fine_intros accessors_defined assms) (auto dest: children_in)

lemma not_this_type_defined: "t \<in> V \<Longrightarrow> not_this_type env t \<noteq> None"
  using accessors_defined(10) [of t] by (auto simp: not_this_type_def this_type_operand_def split: option.split)

lemma fine_intersection_target:
  assumes "src \<in> V" "tgt \<in> V"
  shows "fine_rel V N (relate_intersection_target env src tgt kind)"
  unfolding relate_intersection_target_def
  by (intro fine_intros accessors_defined assms filter_m_defined not_this_type_defined)
     (auto dest: children_in filter_m_subset)

section \<open>The merged source\<close>

lemma below_try_candidates:
  "below no_worse (try_candidates src tgt kind cs l) (try_candidates src tgt kind cs l')"
proof (induction cs arbitrary: l l')
  case (Cons c cs)
  let ?f = "\<lambda>r. case r of Yes \<Rightarrow> Return Yes | No child \<Rightarrow> try_candidates src tgt kind cs (Some child)"
  have "below no_worse (bind (Relate c tgt kind Acc_Winner m Return) ?f) (bind (Relate c tgt kind Acc_Winner m' Return) ?f)" for m m'
    by (rule below_bind [OF below_Relate]) (auto simp: Cons.IH split: relation.split)
  then show ?case by (simp add: below_modes)
qed simp

lemma fine_try_candidates: "set cs \<subseteq> V \<Longrightarrow> tgt \<in> V \<Longrightarrow> fine_rel V N (try_candidates src tgt kind cs l)"
proof -
  assume "set cs \<subseteq> V" "tgt \<in> V"
  then have "closed_prog V N (\<lambda>_. True) (try_candidates src tgt kind cs l)"
    by (induction cs arbitrary: l) (auto split: relation.split)
  then show ?thesis by (simp add: fine_def below_try_candidates)
qed

lemma property_in: "object_type_of st t = Some (Some ob) \<Longrightarrow> p \<in> set (ob_properties ob) \<Longrightarrow> pr_ty p \<in> V"
  by (auto intro: children_in(1) simp: object_children_def)

lemma contributions_in:
  "object_contributions env key ms = Some ps \<Longrightarrow> p \<in> set ps \<Longrightarrow> pr_ty p \<in> V"
proof (induction ms arbitrary: ps)
  case (Cons m ms)
  then show ?case
    by (auto simp: bind_eq_Some_conv object_property_by_key_def dest!: find_Some_iff_unique dest: property_in)
qed simp

lemma obligations_in:
  "obligations env cands ps = Some obs \<Longrightarrow> (p, cs) \<in> set obs \<Longrightarrow> p \<in> set ps \<and> (\<forall>c \<in> set cs. pr_ty c \<in> V)"
  by (induction ps arbitrary: obs) (auto simp: bind_eq_Some_conv dest: contributions_in)

lemma obligations_defined: "set cands \<subseteq> V \<Longrightarrow> obligations env cands ps \<noteq> None"
proof -
  assume "set cands \<subseteq> V"
  then have "object_contributions env key cands \<noteq> None" for key
    using accessors_defined(4) by (induction cands) (auto simp del: not_None_eq simp: bind_eq_None_conv)
  then show ?thesis by (induction ps) (auto simp del: not_None_eq simp: bind_eq_None_conv)
qed

lemma set_sort_dedup_types: "set (sort_dedup xs) = set xs"
  by (simp add: sort_dedup_def set_sort_dedup)

lemma fine_merged:
  assumes "set cands \<subseteq> V" "tgt \<in> V"
    and rec: "\<And>xs t. distinct xs \<Longrightarrow> set xs \<subseteq> V \<Longrightarrow> t \<in> V \<Longrightarrow> fine_rel V N (f xs t)"
  shows "fine_rel V N (relate_merged_object_properties f env src cands tgt kind)"
  unfolding relate_merged_object_properties_def
proof (intro fine_intros accessors_defined assms obligations_defined)
  fix tgt_obj obs pair k tgt_prop contributors
  assume "object_type_of st tgt = Some (Some tgt_obj)" "obligations env cands (ob_properties tgt_obj) = Some obs"
    and "pair \<in> set obs" "pair = (tgt_prop, contributors)"
  then have tgt_in: "pr_ty tgt_prop \<in> V" and sub: "set (sort_dedup (map pr_ty contributors)) \<subseteq> V"
    using obligations_in [of cands "ob_properties tgt_obj" obs tgt_prop contributors] property_in
    by (auto simp: set_sort_dedup_types)
  from tgt_in sub show "fine_rel V N (case sort_dedup (map pr_ty contributors) of
      [] \<Rightarrow> f (sort_dedup (map pr_ty contributors)) (pr_ty tgt_prop)
    | [only] \<Rightarrow> rel only (pr_ty tgt_prop) kind
    | only # _ # _ \<Rightarrow> f (sort_dedup (map pr_ty contributors)) (pr_ty tgt_prop))"
    using rec [OF distinct_sort_dedup sub tgt_in] by (auto split: list.split intro!: fine_intros)
qed

lemma fine_members_to_aux:
  "set cands \<subseteq> ids env \<Longrightarrow> tgt \<in> ids env \<Longrightarrow> env' = env \<Longrightarrow>
     fine_rel V N (relate_source_members_to env' src cands tgt kind in_flight)"
proof (induction env' src cands tgt kind in_flight rule: relate_source_members_to.induct)
  case (1 env' src cands tgt kind in_flight)
  have IH: "fine_rel V N (relate_source_members_to env src xs t kind (insert (sort cands, tgt, kind) in_flight))"
    if "tag st tgt = Some Tag_Object" "(sort cands, tgt, kind) \<notin> in_flight" "distinct xs" "set xs \<subseteq> V" "t \<in> V" for xs t
    using 1(1) [OF _ refl, of xs t] that 1(4) by simp
  show ?case
    unfolding 1(4)
    by (subst relate_source_members_to.simps) (intro fine_intros accessors_defined fine_merged fine_try_candidates 1(2,3); simp add: IH)
qed

lemmas fine_members_to = fine_members_to_aux [OF _ _ refl]

lemma intersection_members_in: "intersection_members st t = Some (Some ns) \<Longrightarrow> set ns \<subseteq> V"
  using children_in(12) by blast

lemma justified_notices:
  "t \<in> V \<Longrightarrow> normalized env t = Inl e \<Longrightarrow> Note_Exhaustion e \<in> N"
  "t \<in> V \<Longrightarrow> (if allow then normalization_demand env t else None) = Some d \<Longrightarrow> Note_Demand d \<in> N"
  "t \<in> V \<Longrightarrow> apparent_surface_of env t = Surface_Needs d \<Longrightarrow> Note_Apparent d \<in> N"
  by (auto simp: justified_def split: if_splits)

lemma expand_members_fine:
  "set pending \<subseteq> ids env' \<Longrightarrow> set members \<subseteq> ids env' \<Longrightarrow> env' = env \<Longrightarrow>
     fine V N (=) (\<lambda>r. \<forall>xs. r = Some xs \<longrightarrow> set xs \<subseteq> V) (expand_members env' pending expanded members)"
proof (induction env' pending expanded members rule: expand_members.induct)
  case (1 env' expanded members)
  then show ?case by (auto intro: fine_Return)
next
  case (2 env' raw pending expanded members)
  show ?case
  proof (cases "normalized env raw")
    case (Inl e)
    then show ?thesis using 2 by (auto intro!: fine_Record fine_Return intro: justified_notices)
  next
    case (Inr member)
    then have m: "member \<in> V" using 2 normalized_in [of raw member] by simp
    show ?thesis
      unfolding expand_members.simps \<open>env' = env\<close> Inr sum.case
      by (intro fine_intros accessors_defined m fine_Return)
         (use 2 m Inr in \<open>auto simp: intersection_members_in intro: justified_notices\<close>)
  qed
qed

lemma fine_intersection_source:
  assumes "src \<in> V" "tgt \<in> V"
  shows "fine_rel V N (relate_intersection_source env src tgt kind)"
  unfolding relate_intersection_source_def
proof (intro fine_let_some accessors_defined assms fine_reject)
  fix raw assume raw: "intersection_members st src = Some (Some raw)"
  let ?k = "\<lambda>flattened. case flattened of
         None \<Rightarrow> reject src tgt
       | Some found \<Rightarrow>
           look (filter_m (not_this_type env) (sort_dedup found)) (\<lambda>members.
           look (tag st tgt) (\<lambda>tgt_tag.
           look (if tgt_tag = Tag_Object
                 then any_m (\<lambda>member. map_option (\<lambda>tg. tg = Tag_Union) (tag st member)) members
                 else Some False) (\<lambda>has_union.
             if has_union then reject src tgt
             else relate_source_members_to env src members tgt kind {})))"
  have members: "set ms \<subseteq> V" if "filter_m (not_this_type env) (sort_dedup found) = Some ms" "set found \<subseteq> V" for found ms
    using filter_m_subset [OF that(1)] that(2) by (auto simp: set_sort_dedup_types)
  have test: "(if b then any_m (\<lambda>member. map_option (\<lambda>tg. tg = Tag_Union) (tag st member)) ms else Some False) \<noteq> None"
    if "set ms \<subseteq> V" for b ms
    using any_m_defined [of ms "\<lambda>member. map_option (\<lambda>tg. tg = Tag_Union) (tag st member)"] accessors_defined(1) that
    by (auto simp del: not_None_eq)
  have k: "fine_rel V N (?k x)" if "\<forall>xs. x = Some xs \<longrightarrow> set xs \<subseteq> V" for x
    by (intro fine_intros accessors_defined assms filter_m_defined not_this_type_defined test fine_members_to)
       (use that members in \<open>auto simp: set_sort_dedup_types\<close>)
  have "fine V N (=) (\<lambda>r. \<forall>xs. r = Some xs \<longrightarrow> set xs \<subseteq> V) (expand_members env (rev raw) {src} [])"
    by (rule expand_members_fine) (use raw in \<open>auto simp: intersection_members_in\<close>)
  then show "fine_rel V N (bind (expand_members env (rev raw) {src} []) ?k)"
    by (rule fine_bind_read) (rule k)
qed

section \<open>Conditionals and templates\<close>

lemma fine_conditional:
  assumes "src \<in> V" "tgt \<in> V"
  shows "fine_rel V N (relate_conditional_source env src tgt kind)"
  unfolding relate_conditional_source_def
  by (intro fine_intros accessors_defined assms or_m_defined contains_infer_defined) (auto dest: children_in)

lemma fine_template_source:
  assumes "src \<in> V" "tgt \<in> V"
  shows "fine_rel V N (relate_template_source env src tgt)"
  unfolding relate_template_source_def
  by (intro fine_intros accessors_defined assms template_subsumes_defined)

lemma fine_template_target:
  assumes "src \<in> V" "tgt \<in> V"
  shows "fine_rel V N (relate_template_target env src tgt)"
proof -
  have "fine_rel V N (look (match_literal_against_pattern ft st s te) (\<lambda>b. if b then Return Yes else reject src tgt))"
      "fine_rel V N (look (is_bare_string_hole st te) (\<lambda>b. if b then Return Yes else reject src tgt))"
    if "template_type_of st tgt = Some (Some te)" for ft s te
    by (intro fine_intros templates_defined [OF that])+
  then show ?thesis
    unfolding relate_template_target_def
    by (intro fine_let_some fine_look accessors_defined assms fine_reject)
       (auto split: option.split literal_value.split intro!: fine_reject)
qed

section \<open>Functions\<close>

lemma px_slot_in: "px_ids s \<subseteq> V \<Longrightarrow> x \<in> px_slots s \<Longrightarrow> ps_ty x \<in> V"
  by (auto simp: px_ids_def)

lemma fine_parameter_slot:
  assumes "ps_ty a \<in> V" "ps_ty b \<in> V"
  shows "fine_rel V N (relate_parameter_slot env a b kind)"
proof -
  have no: "fine_rel V N (if ps_accepts_undefined b
       then may (probe (ps_ty a) (wk_undefined (re_well_known env)) kind) Yes (Return (No c)) else Return (No c))" for c
    by (intro fine_intros assms well_known_in)
  have yes: "fine_rel V N (if ps_accepts_undefined a \<and> \<not> ps_accepts_undefined b
       then rel (wk_undefined (re_well_known env)) (ps_ty b) kind else Return Yes)"
    by (intro fine_intros assms well_known_in)
  have nos: "below no_worse
      (if ps_accepts_undefined b then may p Yes (Return (No c)) else Return (No c))
      (if ps_accepts_undefined b then may p Yes (Return (No c')) else Return (No c'))" if "below no_worse p p" for p c c'
    using that unfolding may_def by (auto intro!: below_bind [of no_worse] split: relation.split)
  show ?thesis
    unfolding relate_parameter_slot_def
  proof (rule fine_bind)
    show "fine_rel V N (rel (ps_ty a) (ps_ty b) kind)" by (intro fine_intros assms)
  next
    fix x y :: relation
    show "closed_prog V N (\<lambda>_. True) (case x of Yes \<Rightarrow> if ps_accepts_undefined a \<and> \<not> ps_accepts_undefined b
            then rel (wk_undefined (re_well_known env)) (ps_ty b) kind else Return Yes
        | No c \<Rightarrow> if ps_accepts_undefined b
            then may (probe (ps_ty a) (wk_undefined (re_well_known env)) kind) Yes (Return (No c)) else Return (No c))"
      using no yes by (cases x) (simp_all only: fine_def relation.case)
  next
    fix x y :: relation
    assume "no_worse x y"
    then show "below no_worse
       (case x of Yes \<Rightarrow> if ps_accepts_undefined a \<and> \<not> ps_accepts_undefined b
            then rel (wk_undefined (re_well_known env)) (ps_ty b) kind else Return Yes
        | No c \<Rightarrow> if ps_accepts_undefined b
            then may (probe (ps_ty a) (wk_undefined (re_well_known env)) kind) Yes (Return (No c)) else Return (No c))
       (case y of Yes \<Rightarrow> if ps_accepts_undefined a \<and> \<not> ps_accepts_undefined b
            then rel (wk_undefined (re_well_known env)) (ps_ty b) kind else Return Yes
        | No c \<Rightarrow> if ps_accepts_undefined b
            then may (probe (ps_ty a) (wk_undefined (re_well_known env)) kind) Yes (Return (No c)) else Return (No c))"
      using no yes nos by (cases x; cases y) (auto simp: fine_def probe_def below_Relate)
  qed
qed

lemma px_positional_in: "px_ids s \<subseteq> V \<Longrightarrow> px_positional_slot s i = Some x \<Longrightarrow> ps_ty x \<in> V"
  by (rule px_slot_in) (auto simp: px_positional_slot_def px_slots_def nth_opt_eq_Some split: option.splits)

definition pt_slots :: "param_tail \<Rightarrow> param_slot set" where
  "pt_slots t = set (pt_prefix t) \<union> set (opt_list (pt_variadic t)) \<union> set (pt_suffix t)"

lemma pt_slot_in: "ps_ty ` pt_slots t \<subseteq> V \<Longrightarrow> pt_slot t i = Some x \<Longrightarrow> ps_ty (pl_slot x) \<in> V"
  by (auto simp: pt_slot_def pt_slots_def nth_opt_eq_Some Let_def image_subset_iff split: option.splits if_splits)

lemma px_tail_in: "px_ids s \<subseteq> V \<Longrightarrow> ps_ty ` pt_slots (px_tail s i) \<subseteq> V"
  using set_drop_subset [of i "px_prefix s"] by (auto simp: px_ids_def px_slots_def pt_slots_def px_tail_def)

lemma fine_parameter_tail:
  assumes "ps_ty ` pt_slots a \<subseteq> V" "ps_ty ` pt_slots b \<subseteq> V"
  shows "fine_rel V N (relate_parameter_tail env r1 r2 a b kind)"
  unfolding relate_parameter_tail_def
  by (intro fine_intros fine_parameter_slot)
     (use assms in \<open>auto dest: pt_slot_in simp: bind_eq_Some_conv\<close>)

lemma fine_function_parameters:
  assumes "px_ids a \<subseteq> V" "px_ids b \<subseteq> V"
  shows "fine_rel V N (relate_function_parameters env src tgt a b kind)"
  unfolding relate_function_parameters_def
  by (intro fine_intros fine_parameter_slot fine_parameter_tail px_tail_in assms)
     (use assms in \<open>auto dest: px_positional_in\<close>)

lemma fine_function_shapes:
  assumes f: "function_type_of st s = Some (Some f)" and g: "function_type_of st t = Some (Some g)"
  shows "fine_rel V N (relate_function_shapes env src tgt f g kind)"
proof -
  have ret: "fn_ret f \<in> V" "fn_ret g \<in> V" using children_in(2) [OF f] children_in(2) [OF g] by auto
  have recv: "fn_receiver f = Some x \<Longrightarrow> x \<in> V" "fn_receiver g = Some x \<Longrightarrow> x \<in> V" for x
    using children_in(2) [OF f] children_in(2) [OF g] by auto
  show ?thesis
    unfolding relate_function_shapes_def Let_def
    by (intro fine_prod fine_option fine_intros fine_function_parameters ret
        function_param_shape_defined [OF f] function_param_shape_defined [OF g])
       (auto dest: recv)
qed

lemma fine_functions:
  assumes "src \<in> V" "tgt \<in> V"
  shows "fine_rel V N (relate_functions env src tgt kind)"
  unfolding relate_functions_def
  by (intro fine_let_some accessors_defined assms fine_reject) (simp add: monomorphic fine_function_shapes)

lemma fine_construct_functions:
  assumes "src \<in> V" "tgt \<in> V"
  shows "fine_rel V N (relate_construct_functions env src tgt kind)"
  unfolding relate_construct_functions_def
  by (intro fine_let_some accessors_defined assms fine_reject) (simp add: monomorphic fine_functions assms)

lemma fine_overloaded_construct:
  assumes "src \<in> V" "tgt \<in> V"
  shows "fine_rel V N (relate_overloaded_construct_to_generic_target env src tgt kind)"
  unfolding relate_overloaded_construct_to_generic_target_def
  by (intro fine_let_some accessors_defined assms fine_reject) (simp add: monomorphic fine_reject)

lemma fine_signature_sets:
  assumes "set ss \<subseteq> V" "set ts \<subseteq> V"
  shows "fine_rel V N (relate_signature_sets env src tgt ss ts kind)"
    and "fine_rel V N (relate_construct_signature_sets env src tgt ss ts kind)"
  unfolding relate_signature_sets_def relate_construct_signature_sets_def
  by (intro fine_intros fine_construct_functions fine_overloaded_construct; use assms in auto)+

section \<open>Objects\<close>

lemma signatures_in:
  assumes "object_type_of st t = Some (Some ob)"
  shows "set (ob_call_signatures ob) \<subseteq> V" "set (ob_construct_signatures ob) \<subseteq> V"
    "ob_string_index ob = Some x \<Longrightarrow> x \<in> V" "ob_number_index ob = Some x \<Longrightarrow> x \<in> V"
  using children_in(1) [OF assms] by (auto simp: object_children_def)

lemma seek_subset: "seek key ps = (found, rest) \<Longrightarrow> (\<forall>p. found = Some p \<longrightarrow> p \<in> set ps) \<and> set rest \<subseteq> set ps"
  by (induction key ps rule: seek.induct) (auto split: if_splits)

lemma merge_properties_in:
  "(t, found) \<in> set (merge_properties prev cursor ts) \<Longrightarrow>
     t \<in> set ts \<and> (\<forall>p. found = Some p \<longrightarrow> p \<in> set cursor \<or> (\<exists>k. prev = Some (k, Some p)))"
proof (induction ts arbitrary: prev cursor)
  case (Cons tgt tgts)
  obtain f c where fc: "seek (pr_key tgt) cursor = (f, c)" by fastforce
  note IH = Cons.IH [of "Some (pr_key tgt, f)" c]
  show ?case
  proof (cases prev)
    case None
    with Cons.prems IH fc seek_subset [OF fc] show ?thesis by auto
  next
    case (Some kf)
    with Cons IH fc seek_subset [OF fc] show ?thesis by (cases kf) (auto split: if_splits)
  qed
qed simp

lemma fine_named_properties:
  assumes "surface \<in> V" "tgt \<in> V"
  shows "fine_rel V N (relate_object_named_properties env src surface tgt kind policy)"
  unfolding relate_object_named_properties_def
  by (intro fine_intros accessors_defined assms) (auto dest!: merge_properties_in dest: property_in)

lemma fine_index_signatures:
  assumes "src \<in> V" "tgt \<in> V"
  shows "fine_rel V N (relate_object_index_signatures env src tgt kind)"
  unfolding relate_object_index_signatures_def Let_def
  by (intro fine_intros accessors_defined assms)
     (auto simp: List.map_filter_def dest: property_in signatures_in)

lemma fine_object_signatures:
  assumes "src \<in> V" "tgt \<in> V"
  shows "fine_rel V N (relate_object_call_signatures env src tgt kind)"
    and "fine_rel V N (relate_object_construct_signatures env src tgt kind)"
  unfolding relate_object_call_signatures_def relate_object_construct_signatures_def
  by (intro fine_intros accessors_defined assms fine_signature_sets; simp add: signatures_in)+

lemma fine_objects:
  assumes "src \<in> V" "tgt \<in> V"
  shows "fine_rel V N (relate_objects env src tgt kind)"
  unfolding relate_objects_def
  by (intro fine_intros fine_named_properties fine_object_signatures fine_index_signatures assms)

lemma fine_object_function:
  assumes "src \<in> V" "tgt \<in> V"
  shows "fine_rel V N (relate_object_to_function env src tgt kind)"
    and "fine_rel V N (relate_function_to_object env src tgt kind)"
  unfolding relate_object_to_function_def relate_function_to_object_def
  by (intro fine_intros accessors_defined assms; use signatures_in assms in blast)+

lemma fine_surface_or:
  assumes "src \<in> V" "fine_opt V N p" "\<And>s. s \<in> V \<Longrightarrow> fine_opt V N (f s)"
  shows "fine_opt V N (surface_or env src tgt p f)"
  using assms surface_in [OF assms(1)] unfolding surface_or_def
  by (auto split: apparent_surface.split intro!: fine_intros intro: justified_notices)

lemma source_tests_defined:
  assumes "t \<in> V"
  shows "is_non_nullish_object_top_source env t \<noteq> None" "native_missing_property_uses_leaf env t \<noteq> None"
    "is_any_type env t \<noteq> None" "is_error_type env t \<noteq> None"
  using accessors_defined(1,2) [OF assms]
  by (auto simp: is_non_nullish_object_top_source_def native_missing_property_uses_leaf_def is_any_type_def is_error_type_def)

lemma names_overlap_defined: "s \<in> V \<Longrightarrow> t \<in> V \<Longrightarrow> object_property_names_overlap st s t \<noteq> None"
  using accessors_defined(4) [of s] accessors_defined(4) [of t]
  by (auto simp: object_property_names_overlap_def split: option.split)

lemma fine_native:
  assumes "src \<in> V" "tgt \<in> V"
  shows "fine_opt V N (relate_native_apparent_object_target env src tgt kind)"
proof -
  have reads: "(if b then Some False else map_option f (object_type_of st s)) \<noteq> None"
      "(if b then map_option Not (object_property_names_overlap st s tgt) else Some b') \<noteq> None" if "s \<in> V" for s f b b'
    using that accessors_defined(4) names_overlap_defined assms by auto
  show ?thesis
    unfolding relate_native_apparent_object_target_def
    by (intro fine_intros accessors_defined assms fine_surface_or reads source_tests_defined
        fine_named_properties fine_index_signatures)
qed

lemma tuple_in:
  "tuple_type_of st t = Some (Some tu) \<Longrightarrow> set (tu_elements tu) \<subseteq> V"
  "tuple_type_of st t = Some (Some tu) \<Longrightarrow> set (opt_list (map_option tr_ty (tu_rest tu))) \<subseteq> V"
  using children_in(4) by auto

lemma number_index_values_in:
  "set pending \<subseteq> ids env \<Longrightarrow> set vals \<subseteq> ids env \<Longrightarrow> wk = re_well_known env \<Longrightarrow> st' = st \<Longrightarrow>
     \<exists>r. number_index_values wk st' pending seen vals = Some r \<and> (\<forall>xs. r = Some xs \<longrightarrow> set xs \<subseteq> V)"
proof (induction wk st' pending seen vals rule: number_index_values.induct)
  case (2 wk st' current pending seen vals)
  then have c: "current \<in> V" by simp
  then obtain op ar tu tg ki li where
      "readonly_operand st current = Some op" "array_type_of st current = Some ar" "tuple_type_of st current = Some tu"
      "tag st current = Some tg" "intrinsic_kind_of st current = Some ki" "literal_value_of st current = Some li"
    using accessors_defined [OF c] by blast
  then show ?case
    using 2 children_in(13) [of current] children_in(3) [of current] tuple_in [of current]
    by (cases op; cases ar; cases tu) auto
qed simp

lemma fine_library:
  assumes "src \<in> V" "tgt \<in> V"
  shows "fine_opt V N (relate_library_object_target env src tgt kind)"
proof -
  have vals: "apparent_number_index_values (re_well_known env) st src \<noteq> None"
      "apparent_number_index_values (re_well_known env) st src = Some (Some xs) \<Longrightarrow> set xs \<subseteq> V" for xs
    using number_index_values_in [of "[src]" "[]" "re_well_known env" st "{}"] assms
    by (auto simp: apparent_number_index_values_def)
  show ?thesis
    unfolding relate_library_object_target_def Let_def
    by (intro fine_intros accessors_defined assms fine_surface_or source_tests_defined
        fine_named_properties fine_index_signatures fine_object_signatures vals; auto dest: signatures_in vals(2) split: if_splits)
qed

section \<open>The choice of the rule\<close>

lemma fine_by_tags:
  assumes "src \<in> V" "tgt \<in> V"
  shows "fine_rel V N (relate_by_tags env src tgt kind a b)"
proof -
  have operand: "(if a = Tag_Readonly then readonly_operand st src else Some None) \<noteq> None"
    using accessors_defined(17) assms by simp
  show ?thesis
    unfolding relate_by_tags_def
    by (intro fine_intros accessors_defined assms fine_template_source fine_template_target operand fine_objects
        fine_functions fine_object_function fine_arrays fine_tuples fine_tuple_to_array)
       (use assms in \<open>auto simp: unwrap_or_def dest: children_in split: option.split if_splits\<close>)
qed

lemma fine_plain:
  assumes "src \<in> V" "tgt \<in> V"
  shows "fine_rel V N (relate_plain env src tgt kind a b)"
  unfolding relate_plain_def Let_def
  by (intro fine_intros accessors_defined assms fine_native fine_by_tags)

lemma fine_composite:
  assumes "src \<in> V" "tgt \<in> V"
  shows "fine_rel V N (relate_composite env src tgt kind a b)"
  unfolding relate_composite_def
  by (intro fine_intros accessors_defined assms fine_conditional fine_union_source fine_union_target
      fine_intersection_target fine_intersection_source fine_library fine_plain well_known_in)

lemma fine_type_param_source:
  assumes "src \<in> V" "tgt \<in> V" "fine_rel V N k"
  shows "fine_rel V N (type_param_source env src tgt kind k)"
  unfolding type_param_source_def
  by (intro fine_intros accessors_defined assms) (auto simp: bind_eq_Some_conv constraint_in)

lemma fine_uncached:
  assumes "src \<in> V" "tgt \<in> V"
  shows "fine_rel V N (relate_uncached env src tgt kind)"
  unfolding relate_uncached_def Let_def
  by (intro fine_intros accessors_defined assms or_m_defined source_tests_defined fine_type_param_source fine_composite)

end

end
