(* ===== verification/Relation_Sound.thy ===== *)
theory Relation_Sound
  imports Relation_Fine
begin

text \<open>
  What a verdict of the relation engine means. The structural rules define a monotone operator on
  sets of relation keys, and its greatest fixed point is the relation the engine decides: a verdict
  \<open>Yes\<close> is in it and a verdict \<open>No\<close> is not, whatever the caches hold, as long as they hold only
  verdicts of this relation. The proof follows the assume-true stack by parameterised coinduction:
  a success that rests on a set of assumptions is in the greatest fixed point \<^emph>\<open>up to\<close> that set,
  and a frame that discharges its own key removes it from the set.
\<close>

section \<open>Greatest fixed points up to a set of assumptions\<close>

definition up_to :: "('a set \<Rightarrow> 'a set) \<Rightarrow> 'a set \<Rightarrow> 'a set" where
  "up_to F A = gfp (\<lambda>X. F (X \<union> A)) \<union> A"

locale monotone_rules =
  fixes F :: "'a set \<Rightarrow> 'a set"
  assumes F_mono: "mono F"
begin

lemma F_up_mono: "mono (\<lambda>X. F (X \<union> A))"
  by (rule monoI) (blast intro: monoD [OF F_mono, THEN subsetD])

lemma gfp_up: "gfp (\<lambda>X. F (X \<union> A)) = F (up_to F A)"
  unfolding up_to_def by (rule gfp_unfold [OF F_up_mono])

lemma up_to_empty: "up_to F {} = gfp F"
  by (simp add: up_to_def)

lemma up_to_mono: "A \<subseteq> B \<Longrightarrow> up_to F A \<subseteq> up_to F B"
proof -
  assume "A \<subseteq> B"
  then have "F (X \<union> A) \<subseteq> F (X \<union> B)" for X by (intro monoD [OF F_mono]) blast
  then have "gfp (\<lambda>X. F (X \<union> A)) \<subseteq> gfp (\<lambda>X. F (X \<union> B))" by (intro gfp_mono) blast
  with \<open>A \<subseteq> B\<close> show ?thesis by (auto simp: up_to_def)
qed

lemma gfp_subset_up_to: "gfp F \<subseteq> up_to F A"
  using up_to_mono [of "{}" A] by (simp add: up_to_empty)

text \<open>A key derived from assumptions that may include the key itself does not need that one.\<close>

lemma up_to_discharge:
  assumes "x \<in> F (up_to F A)" and "A \<subseteq> insert x B"
  shows "x \<in> up_to F B"
proof -
  let ?Y = "gfp (\<lambda>X. F (X \<union> A))"
  have "F (?Y \<union> A) \<subseteq> F (insert x ?Y \<union> B)" using assms(2) by (intro monoD [OF F_mono]) blast
  then have "insert x ?Y \<subseteq> F (insert x ?Y \<union> B)"
    using assms(1) gfp_unfold [OF F_up_mono, of A] by (auto simp: up_to_def)
  then have "insert x ?Y \<subseteq> gfp (\<lambda>X. F (X \<union> B))" by (rule gfp_upperbound)
  then show ?thesis by (auto simp: up_to_def)
qed

end

section \<open>The relation the rules define\<close>

definition frontier_demand :: "relate_env \<Rightarrow> bool \<Rightarrow> type_id \<Rightarrow> type_id \<Rightarrow> relation_demand option" where
  "frontier_demand env allow src tgt =
     (if allow then (case normalization_demand env src of Some d \<Rightarrow> Some d | None \<Rightarrow> normalization_demand env tgt)
      else None)"

text \<open>A query against a set of related keys: normalization, identity, open demands, then the set.\<close>

definition decide :: "relate_env \<Rightarrow> bool \<Rightarrow> relation_key set \<Rightarrow> type_id \<Rightarrow> type_id \<Rightarrow> relation_kind \<Rightarrow> bool" where
  "decide env allow X src0 tgt0 kind =
     (case normalized env src0 of
        Inl _ \<Rightarrow> False
      | Inr src \<Rightarrow>
          (case normalized env tgt0 of
             Inl _ \<Rightarrow> False
           | Inr tgt \<Rightarrow>
               src = tgt \<or>
               contextual_deferred_indexed_accesses_are_identical env [] src tgt = Some True \<or>
               frontier_demand env allow src tgt = None \<and> relation_key_new src tgt kind \<in> X))"

definition answers_of :: "relate_env \<Rightarrow> bool \<Rightarrow> relation_key set \<Rightarrow> answers" where
  "answers_of env allow X s t k r \<longleftrightarrow> (is_yes r \<longleftrightarrow> decide env allow X s t k)"

text \<open>One unfolding of the structural rules.\<close>

definition rules :: "relate_env \<Rightarrow> bool \<Rightarrow> relation_key set \<Rightarrow> relation_key set" where
  "rules env allow X =
     {key. rk_src key \<in> ids env \<and> rk_tgt key \<in> ids env \<and>
        (\<exists>r \<in> results (answers_of env allow X) allow (relate_uncached env (rk_src key) (rk_tgt key) (rk_kind key)). is_yes r)}"

definition related_keys :: "relate_env \<Rightarrow> bool \<Rightarrow> relation_key set" where
  "related_keys env allow = gfp (rules env allow)"

definition related :: "relate_env \<Rightarrow> bool \<Rightarrow> type_id \<Rightarrow> type_id \<Rightarrow> relation_kind \<Rightarrow> bool" where
  "related env allow src tgt kind = decide env allow (related_keys env allow) src tgt kind"

lemma decide_mono: "X \<subseteq> Y \<Longrightarrow> decide env allow X s t k \<Longrightarrow> decide env allow Y s t k"
  by (auto simp: decide_def split: sum.splits)

lemma answers_of_total: "\<exists>r. answers_of env allow X s t k r"
  by (rule exI [of _ "if decide env allow X s t k then Yes else No undefined"]) (simp add: answers_of_def)

lemma answers_of_results: "closed_prog V N post p \<Longrightarrow> results (answers_of env allow X) al p \<noteq> {}"
  by (rule closed_results_ne [OF answers_of_total])

context arena
begin

lemma rules_mono: "mono (rules env allow)"
proof (rule monoI, rule subsetI)
  fix X Y key
  assume XY: "X \<subseteq> Y" and key: "key \<in> rules env allow X"
  let ?p = "relate_uncached env (rk_src key) (rk_tgt key) (rk_kind key)"
  have in_V: "rk_src key \<in> V" "rk_tgt key \<in> V" using key by (simp_all add: rules_def)
  have fine: "fine_rel V N ?p" by (rule fine_uncached [OF in_V])
  have "better (answers_of env allow X) (answers_of env allow Y)"
    using decide_mono [OF XY] by (auto simp: better_def answers_of_def)
  then have le: "no_worse r r'" if "r \<in> results (answers_of env allow X) allow ?p" "r' \<in> results (answers_of env allow Y) allow ?p" for r r'
    using fine that by (auto simp: fine_def below_def)
  obtain r where "r \<in> results (answers_of env allow X) allow ?p" "is_yes r" using key by (auto simp: rules_def)
  moreover obtain r' where "r' \<in> results (answers_of env allow Y) allow ?p"
    using answers_of_results [of V N "\<lambda>_. True" ?p env allow Y allow] fine by (auto simp: fine_def)
  ultimately show "key \<in> rules env allow Y" using le in_V by (auto simp: rules_def no_worse_def)
qed

end

sublocale arena \<subseteq> relation: monotone_rules "rules env allow" for allow
  by unfold_locales (rule rules_mono)

section \<open>Runs of the engine\<close>

text \<open>A cache is valid when every verdict in it is the verdict of the relation.\<close>

definition valid_cache :: "relation_key set \<Rightarrow> relation_cache \<Rightarrow> bool" where
  "valid_cache R c \<longleftrightarrow> (\<forall>key verdict. rc_get c key = Some verdict \<longrightarrow> (verdict \<longleftrightarrow> key \<in> R))"

text \<open>Outside binder contexts every key on the stack carries the empty environment.\<close>

definition ground_keys :: "stack_relation_key set" where
  "ground_keys = {sk. sk_environment sk = empty_binder_environment}"

definition engine_inv :: "relation_key set \<Rightarrow> bool \<Rightarrow> relater \<Rightarrow> bool" where
  "engine_inv R allow rl \<longleftrightarrow>
     valid_cache R (rl_cache rl) \<and> valid_cache R (rl_pending_cache rl) \<and>
     rl_binder_contexts rl = [] \<and>
     (rl_active_binder_environment rl = None \<or> rl_active_binder_environment rl = Some empty_binder_environment) \<and>
     rl_stack rl \<subseteq> ground_keys \<and> rl_allow_relation_demand rl = allow"

text \<open>The notes a state holds for the coordinator.\<close>

definition noted :: "relater \<Rightarrow> notice set" where
  "noted rl = Note_Exhaustion ` set_option (rl_query_exhaustion rl) \<union> Note_Demand ` set_option (rl_query_demand rl) \<union>
     Note_Apparent ` set (rl_query_apparent_demands rl)"

text \<open>
  The contract of a query on a state satisfying the invariant: the invariant and the stack are
  kept, new assumptions are keys of the stack, new notes are justified by the provider, success is
  derivable from the assumptions, and failure is never wrong.
\<close>

definition kept :: "relate_env \<Rightarrow> bool \<Rightarrow> assumed_set \<Rightarrow> relater \<Rightarrow> assumed_set \<Rightarrow> relater \<Rightarrow> bool" where
  "kept env allow assumed rl assumed' rl' \<longleftrightarrow>
     engine_inv (related_keys env allow) allow rl' \<and> rl_stack rl' = rl_stack rl \<and>
     assumed \<subseteq> assumed' \<and> assumed' \<subseteq> assumed \<union> rl_stack rl \<and> noted rl' \<subseteq> noted rl \<union> justified env"

definition truthful :: "relate_env \<Rightarrow> bool \<Rightarrow> assumed_set \<Rightarrow> answers" where
  "truthful env allow assumed s t k r \<longleftrightarrow>
     (is_yes r \<longrightarrow> decide env allow (up_to (rules env allow) (sk_relation ` assumed)) s t k) \<and>
     (\<not> is_yes r \<longrightarrow> \<not> decide env allow (related_keys env allow) s t k)"

definition honest :: "relate_env \<Rightarrow> bool \<Rightarrow> query \<Rightarrow> bool" where
  "honest env allow q \<longleftrightarrow>
     (\<forall>s t k w assumed rl r assumed' rl'.
        s \<in> ids env \<longrightarrow> t \<in> ids env \<longrightarrow> engine_inv (related_keys env allow) allow rl \<longrightarrow>
        q s t k w assumed rl = Answer (r, assumed', rl') \<longrightarrow>
        kept env allow assumed rl assumed' rl' \<and> truthful env allow assumed' s t k r)"

lemma honestD:
  assumes "honest env allow q" "s \<in> ids env" "t \<in> ids env" "engine_inv (related_keys env allow) allow rl"
    and "q s t k w assumed rl = Answer (r, assumed', rl')"
  shows "kept env allow assumed rl assumed' rl'" "truthful env allow assumed' s t k r"
  using assms unfolding honest_def by blast+

lemma continue_Answer: "continue a f = Answer y \<longleftrightarrow> (\<exists>x. a = Answer x \<and> f x = Answer y)"
  by (cases a) (simp_all add: continue_def)

lemma engine_inv_cong [simp]:
  "engine_inv R allow (rl\<lparr>rl_want_reason := b\<rparr>) = engine_inv R allow rl"
  "engine_inv R allow (note_demand d rl) = engine_inv R allow rl"
  "engine_inv R allow (note_exhaustion e rl) = engine_inv R allow rl"
  "engine_inv R allow (record_apparent_surface_demand d rl) = engine_inv R allow rl"
  "engine_inv R allow (rl\<lparr>rl_completed_contextual_yes := cs\<rparr>) = engine_inv R allow rl"
  by (simp_all add: engine_inv_def note_demand_def note_exhaustion_def record_apparent_surface_demand_def)

lemma stack_cong [simp]:
  "rl_stack (note_demand d rl) = rl_stack rl" "rl_stack (note_exhaustion e rl) = rl_stack rl"
  "rl_stack (record_apparent_surface_demand d rl) = rl_stack rl"
  by (simp_all add: note_demand_def note_exhaustion_def record_apparent_surface_demand_def)

lemma noted_simps [simp]:
  "noted (rl\<lparr>rl_want_reason := b\<rparr>) = noted rl"
  "noted (rl\<lparr>rl_completed_contextual_yes := cs\<rparr>) = noted rl"
  "noted (rl\<lparr>rl_stack := ks\<rparr>) = noted rl"
  "noted (cache_insert env key v rl) = noted rl"
  "noted (rl\<lparr>rl_active_binder_environment := ae\<rparr>) = noted rl"
  by (simp_all add: noted_def cache_insert_def)

lemma noted_notes:
  "noted (note_demand d rl) \<subseteq> insert (Note_Demand d) (noted rl)"
  "noted (note_exhaustion e rl) \<subseteq> insert (Note_Exhaustion e) (noted rl)"
  "noted (record_apparent_surface_demand d rl) \<subseteq> insert (Note_Apparent d) (noted rl)"
  by (auto simp: noted_def note_demand_def note_exhaustion_def record_apparent_surface_demand_def get_or_insert_def
      split: option.splits)

lemma engine_inv_contexts: "engine_inv R allow rl \<Longrightarrow> rl_binder_contexts rl = []"
  by (simp add: engine_inv_def)

lemma kept_refl: "engine_inv (related_keys env allow) allow rl \<Longrightarrow> kept env allow assumed rl assumed rl"
  by (simp add: kept_def)

lemma kept_trans:
  "kept env allow a rl a' rl' \<Longrightarrow> kept env allow a' rl' a'' rl'' \<Longrightarrow> kept env allow a rl a'' rl''"
  by (auto simp: kept_def)

text \<open>A query started on a state that differs from another only by justified notices.\<close>

lemma kept_from:
  assumes "kept env allow a rl1 a' rl'" "rl_stack rl1 = rl_stack rl" "noted rl1 \<subseteq> noted rl \<union> justified env"
  shows "kept env allow a rl a' rl'"
  using assms by (auto simp: kept_def)

lemma kept_notice:
  assumes "kept env allow a rl1 a' rl'" "rl_stack rl1 = rl_stack rl" "noted rl1 \<subseteq> insert x (noted rl)" "x \<in> justified env"
  shows "kept env allow a rl a' rl'"
  using kept_from [OF assms(1,2)] assms(3,4) by blast

context arena
begin

lemma truthful_mono: "truthful env allow a s t k r \<Longrightarrow> a \<subseteq> a' \<Longrightarrow> truthful env allow a' s t k r"
  unfolding truthful_def using relation.up_to_mono [of "sk_relation ` a" "sk_relation ` a'" allow]
  by (meson decide_mono image_mono)

lemma ask_honest:
  assumes "honest env allow q" "s \<in> V" "t \<in> V" "acc \<noteq> Acc_Fresh" "engine_inv (related_keys env allow) allow rl"
    and "ask (q s t k w) acc assumed rl = Answer (r, assumed', rl')"
  shows "kept env allow assumed rl assumed' rl'" "truthful env allow assumed' s t k r"
proof -
  have "kept env allow assumed rl assumed' rl' \<and> truthful env allow assumed' s t k r"
  proof (cases acc)
    case Acc_Shared
    then show ?thesis using assms honestD [OF assms(1-3,5)] by (simp add: ask_def)
  next
    case Acc_Winner
    then obtain own where q: "q s t k w {} rl = Answer (r, own, rl')"
        and a': "assumed' = (if is_yes r then assumed \<union> own else assumed)"
      using assms(6) by (auto simp: ask_def continue_Answer)
    note h = honestD [OF assms(1-3,5) q]
    then have "truthful env allow assumed' s t k r"
      using truthful_mono [of allow own s t k r assumed'] a' by (auto simp: truthful_def split: if_splits)
    with h a' show ?thesis by (auto simp: kept_def)
  next
    case Acc_Fresh
    with assms(4) show ?thesis by simp
  qed
  then show "kept env allow assumed rl assumed' rl'" "truthful env allow assumed' s t k r" by blast+
qed

lemma run_honest:
  assumes q: "honest env allow q"
  shows "closed_prog V N post p \<Longrightarrow> engine_inv (related_keys env allow) allow rl \<Longrightarrow>
    run q p assumed rl = Answer (x, assumed', rl') \<Longrightarrow>
    kept env allow assumed rl assumed' rl' \<and> x \<in> results (truthful env allow assumed') allow p"
proof (induction p arbitrary: assumed rl)
  case (Relate s t k a w c)
  then obtain r as1 rl1 where 1: "ask (q s t k w) a assumed rl = Answer (r, as1, rl1)"
      and 2: "run q (c r) as1 rl1 = Answer (x, assumed', rl')"
    by (auto simp: continue_Answer)
  have h: "kept env allow assumed rl as1 rl1" "truthful env allow as1 s t k r"
    using ask_honest [OF q _ _ _ _ 1] Relate.prems by auto
  then have "kept env allow as1 rl1 assumed' rl' \<and> x \<in> results (truthful env allow assumed') allow (c r)"
    using Relate.IH [OF rangeI _ _ 2] Relate.prems by (simp add: kept_def)
  moreover then have "truthful env allow assumed' s t k r"
    using truthful_mono [OF h(2)] by (simp add: kept_def)
  ultimately show ?case using kept_trans [OF h(1)] by auto
next
  case (Ask_Mode c)
  then have "kept env allow assumed rl assumed' rl' \<and>
      x \<in> results (truthful env allow assumed') allow (c (rl_want_reason rl))"
    using Ask_Mode.IH [OF rangeI] by simp
  then show ?case by auto
next
  case (Ask_Allow c)
  then show ?case using Ask_Allow.IH [OF rangeI, of "rl_allow_relation_demand rl" rl assumed]
    by (auto simp: engine_inv_def)
next
  case (Ask_Binders c)
  then show ?case using Ask_Binders.IH [OF rangeI, of "rl_binder_contexts rl" rl assumed]
    by (auto simp: engine_inv_def)
next
  case (Set_Mode b p)
  then show ?case using Set_Mode.IH [of "rl\<lparr>rl_want_reason := b\<rparr>" assumed] by (simp add: kept_def)
next
  case (Record_Demand d p)
  then have "kept env allow assumed (note_demand d rl) assumed' rl' \<and> x \<in> results (truthful env allow assumed') allow p"
    by (intro Record_Demand.IH) simp_all
  then show ?case using kept_notice [OF _ _ noted_notes(1) [of d rl]] Record_Demand.prems by simp
next
  case (Record_Apparent d p)
  then have "kept env allow assumed (record_apparent_surface_demand d rl) assumed' rl' \<and> x \<in> results (truthful env allow assumed') allow p"
    by (intro Record_Apparent.IH) simp_all
  then show ?case using kept_notice [OF _ _ noted_notes(3) [of d rl]] Record_Apparent.prems by simp
next
  case (Record_Exhaustion e p)
  then have "kept env allow assumed (note_exhaustion e rl) assumed' rl' \<and> x \<in> results (truthful env allow assumed') allow p"
    by (intro Record_Exhaustion.IH) simp_all
  then show ?case using kept_notice [OF _ _ noted_notes(2) [of e rl]] Record_Exhaustion.prems by simp
qed (simp_all add: kept_refl)

text \<open>The rules' program, run by an honest query, gives a verdict up to the assumptions it collected.\<close>

lemma rules_verdict:
  assumes q: "honest env allow q" and inv: "engine_inv (related_keys env allow) allow rl" and V: "src \<in> V" "tgt \<in> V"
    and run: "run q (with_reason_mode w (relate_uncached env src tgt kind)) assumed rl = Answer (r, fa, rl')"
  shows "kept env allow assumed rl fa rl'"
    and "is_yes r \<Longrightarrow> relation_key_new src tgt kind \<in> rules env allow (up_to (rules env allow) (sk_relation ` fa))"
    and "\<not> is_yes r \<Longrightarrow> relation_key_new src tgt kind \<notin> related_keys env allow"
proof -
  let ?p = "relate_uncached env src tgt kind" and ?key = "relation_key_new src tgt kind"
  let ?wp = "with_reason_mode w ?p"
  let ?T = "truthful env allow fa" and ?A = "answers_of env allow"
  have fine: "fine_rel V N ?wp" by (rule fine_with_reason_mode [OF fine_uncached [OF V]])
  then have "closed_prog V N (\<lambda>_. True) ?wp" by (simp add: fine_def)
  note h = run_honest [OF q this inv run]
  then show "kept env allow assumed rl fa rl'" by blast
  from h have r: "r \<in> results ?T allow ?wp" by blast
  have same: "results P allow ?wp = results P allow ?p" for P
    by (auto simp: with_reason_mode_def results_bind)
  have le: "no_worse x y" if "better P Q" "x \<in> results P allow ?p" "y \<in> results Q allow ?p" for P Q x y
    using fine_uncached [OF V] that by (auto simp: fine_def below_def)
  have up: "better ?T (?A (up_to (rules env allow) (sk_relation ` fa)))"
    by (auto simp: better_def truthful_def answers_of_def)
  have down: "better (?A (related_keys env allow)) ?T"
    by (auto simp: better_def truthful_def answers_of_def)
  have key: "?key \<in> rules env allow X \<longleftrightarrow> (\<exists>y \<in> results (?A X) allow ?p. is_yes y)" for X
    using V by (simp add: rules_def relation_key_new_def)
  show "?key \<in> rules env allow (up_to (rules env allow) (sk_relation ` fa))" if "is_yes r"
  proof -
    obtain y where "y \<in> results (?A (up_to (rules env allow) (sk_relation ` fa))) allow ?p"
      using answers_of_results fine_uncached [OF V] by (fastforce simp: fine_def)
    with le [OF up] r same that key show ?thesis by (auto simp: no_worse_def)
  qed
  show "?key \<notin> related_keys env allow" if "\<not> is_yes r"
  proof
    assume "?key \<in> related_keys env allow"
    then have "?key \<in> rules env allow (related_keys env allow)"
      unfolding related_keys_def using gfp_unfold [OF rules_mono] by blast
    then show False using le [OF down] r same that key by (auto simp: no_worse_def)
  qed
qed

lemma related_up_to: "related_keys env allow \<subseteq> up_to (rules env allow) A"
  unfolding related_keys_def by (rule relation.gfp_subset_up_to)

end

lemma valid_insert: "valid_cache R c \<Longrightarrow> (v \<longleftrightarrow> key \<in> R) \<Longrightarrow> valid_cache R (rc_insert c key v)"
  by (auto simp: valid_cache_def rc_insert_get)

lemma cached_verdict_valid:
  "engine_inv R allow rl \<Longrightarrow> cached_verdict rl key = Some v \<Longrightarrow> (v \<longleftrightarrow> key \<in> R)"
  by (auto simp: engine_inv_def cached_verdict_def valid_cache_def split: option.splits if_splits)

lemma cache_insert_inv:
  "engine_inv R allow rl \<Longrightarrow> (v \<longleftrightarrow> key \<in> R) \<Longrightarrow> engine_inv R allow (cache_insert env key v rl)"
  by (simp add: engine_inv_def cache_insert_def valid_insert)

lemma cache_insert_stack [simp]: "rl_stack (cache_insert env key v rl) = rl_stack rl"
  by (simp add: cache_insert_def)

text \<open>In the ground state the key of a frame is its relation key.\<close>

lemma stack_key_ground:
  assumes "engine_inv R allow rl"
  obtains rl1 where "stack_relation_key_of rl key = (\<lparr>sk_relation = key, sk_environment = empty_binder_environment\<rparr>, rl1)"
    "engine_inv R allow rl1" "rl_stack rl1 = rl_stack rl" "noted rl1 = noted rl"
proof -
  have "\<exists>rl1. stack_relation_key_of rl key = (\<lparr>sk_relation = key, sk_environment = empty_binder_environment\<rparr>, rl1) \<and>
      engine_inv R allow rl1 \<and> rl_stack rl1 = rl_stack rl \<and> noted rl1 = noted rl"
    using assms by (auto simp: stack_relation_key_of_def binder_environment_id_def engine_inv_def)
  then show ?thesis using that by blast
qed

lemma relate_frame_cases:
  assumes "stack_relation_key_of rl (relation_key_new src tgt kind) = (sk, rl1)" "rl_binder_contexts rl1 = []"
    and "relate_frame q env os ot src tgt kind w assumed rl = Answer (r, assumed', rl')"
  obtains (stack) "sk \<in> rl_stack rl1" "r = Yes" "assumed' = insert sk assumed" "rl' = rl1"
    | (hit) "cached_verdict rl1 (relation_key_new src tgt kind) = Some True" "r = Yes" "assumed' = assumed" "rl' = rl1"
    | (miss) "cached_verdict rl1 (relation_key_new src tgt kind) = Some False" "\<not> is_yes r" "assumed' = assumed" "rl' = rl1"
    | (frame) r0 fa rl2 where "sk \<notin> rl_stack rl1"
        "run q (with_reason_mode w (relate_uncached env src tgt kind)) {} (rl1\<lparr>rl_stack := insert sk (rl_stack rl1)\<rparr>) = Answer (r0, fa, rl2)"
        "finish_frame env os ot sk (cached_verdict rl1 (relation_key_new src tgt kind)) (rl_source_specialization_epoch rl1)
           assumed r0 fa rl2 = (r, assumed', rl')"
proof -
  let ?c = "cached_verdict rl1 (relation_key_new src tgt kind)"
  consider "sk \<in> rl_stack rl1" | "sk \<notin> rl_stack rl1" "?c = Some True" | "sk \<notin> rl_stack rl1" "?c = Some False \<and> \<not> w"
    | "sk \<notin> rl_stack rl1" "?c \<noteq> Some True" "\<not> (?c = Some False \<and> \<not> w)" by blast
  then show ?thesis
  proof cases
    case 4
    then have "continue (run q (with_reason_mode w (relate_uncached env src tgt kind)) {} (rl1\<lparr>rl_stack := insert sk (rl_stack rl1)\<rparr>))
        (\<lambda>(r0, fa, rl2). Answer (finish_frame env os ot sk ?c (rl_source_specialization_epoch rl1) assumed r0 fa rl2))
        = Answer (r, assumed', rl')"
      using assms by (simp only: relate_frame_def Let_def) (simp split: if_split_asm)
    with 4(1) frame show ?thesis by (auto simp: continue_Answer)
  next
    case 1
    with assms have "r = Yes \<and> assumed' = insert sk assumed \<and> rl' = rl1" by (simp add: relate_frame_def)
    with 1 stack show ?thesis by blast
  next
    case 2
    with assms have "r = Yes \<and> assumed' = assumed \<and> rl' = rl1" by (simp add: relate_frame_def)
    with 2 hit show ?thesis by blast
  next
    case 3
    with assms have "r = No (chain_leaf os ot) \<and> assumed' = assumed \<and> rl' = rl1" by (simp add: relate_frame_def)
    with 3 miss show ?thesis by simp
  qed
qed

lemma finish_frame_inv:
  assumes "engine_inv R allow rl" and "finish_frame env os ot sk cached ep assumed r0 fa rl = (r, assumed', rl')"
    and "\<And>v. cached = Some v \<Longrightarrow> (v \<longleftrightarrow> sk_relation sk \<in> R)"
    and "\<not> is_yes r0 \<Longrightarrow> sk_relation sk \<notin> R" and "is_yes r0 \<Longrightarrow> fa \<subseteq> {sk} \<Longrightarrow> sk_relation sk \<in> R"
  shows "engine_inv R allow rl' \<and> rl_stack rl' = rl_stack rl - {sk} \<and> noted rl' = noted rl \<and> assumed' = assumed \<union> (fa - {sk}) \<and>
    (is_yes r \<longrightarrow> is_yes r0) \<and> (\<not> is_yes r \<longrightarrow> sk_relation sk \<notin> R)"
proof -
  let ?rl = "rl\<lparr>rl_stack := rl_stack rl - {sk}\<rparr>"
  let ?r = "if cached = Some False \<and> is_yes r0 then No (chain_leaf os ot) else r0"
  have inv: "engine_inv R allow ?rl" and ctx: "rl_binder_contexts rl = []"
    using assms(1) by (auto simp: engine_inv_def)
  have r: "r = ?r" "assumed' = assumed \<union> (fa - {sk})"
      "rl' = (if cached = None \<and> \<not> rl_query_demand_observed ?rl then
          (if \<not> is_yes ?r then cache_insert env (sk_relation sk) False ?rl
           else if fa - {sk} = {} then cache_insert env (sk_relation sk) True ?rl else ?rl) else ?rl)"
    using assms(2) ctx by (auto simp: finish_frame_def Let_def)
  have no: "\<not> is_yes ?r \<Longrightarrow> sk_relation sk \<notin> R" using assms(3) [of False] assms(4) by (auto split: if_splits)
  have yes: "is_yes ?r \<Longrightarrow> fa - {sk} = {} \<Longrightarrow> sk_relation sk \<in> R" using assms(5) by (auto split: if_splits)
  have "engine_inv R allow rl'" "rl_stack rl' = rl_stack rl - {sk}" "noted rl' = noted rl"
    unfolding r(3) using inv no yes by (auto intro!: cache_insert_inv)
  then show ?thesis using r no by auto
qed

context arena
begin

lemma frame_honest:
  assumes q: "honest env allow q" and inv: "engine_inv (related_keys env allow) allow rl" and V: "src \<in> V" "tgt \<in> V"
    and answer: "relate_frame q env os ot src tgt kind w assumed rl = Answer (r, assumed', rl')"
  shows "kept env allow assumed rl assumed' rl'"
    and "is_yes r \<Longrightarrow> relation_key_new src tgt kind \<in> up_to (rules env allow) (sk_relation ` assumed')"
    and "\<not> is_yes r \<Longrightarrow> relation_key_new src tgt kind \<notin> related_keys env allow"
proof -
  let ?R = "related_keys env allow" and ?key = "relation_key_new src tgt kind"
  let ?sk = "\<lparr>sk_relation = ?key, sk_environment = empty_binder_environment\<rparr>"
  obtain rl1 where sk: "stack_relation_key_of rl ?key = (?sk, rl1)" "engine_inv ?R allow rl1" "rl_stack rl1 = rl_stack rl" "noted rl1 = noted rl"
    by (rule stack_key_ground [OF inv, of ?key])
  have ctx: "rl_binder_contexts rl1 = []" using sk(2) by (simp add: engine_inv_def)
  let ?goal = "kept env allow assumed rl assumed' rl' \<and>
     (is_yes r \<longrightarrow> ?key \<in> up_to (rules env allow) (sk_relation ` assumed')) \<and> (\<not> is_yes r \<longrightarrow> ?key \<notin> ?R)"
  let ?cached = "cached_verdict rl1 ?key"
  consider (stack) "?sk \<in> rl_stack rl1" "r = Yes" "assumed' = insert ?sk assumed" "rl' = rl1"
    | (hit) "?cached = Some True" "r = Yes" "assumed' = assumed" "rl' = rl1"
    | (miss) "?cached = Some False" "\<not> is_yes r" "assumed' = assumed" "rl' = rl1"
    | (frame) r0 fa rl2 where "?sk \<notin> rl_stack rl1"
        "run q (with_reason_mode w (relate_uncached env src tgt kind)) {} (rl1\<lparr>rl_stack := insert ?sk (rl_stack rl1)\<rparr>) = Answer (r0, fa, rl2)"
        "finish_frame env os ot ?sk ?cached (rl_source_specialization_epoch rl1) assumed r0 fa rl2 = (r, assumed', rl')"
    by (rule relate_frame_cases [OF sk(1) ctx answer])
  then have ?goal
  proof cases
    case stack
    then show ?thesis using sk by (auto simp: kept_def up_to_def)
  next
    case hit
    then have "?key \<in> ?R" using cached_verdict_valid [OF sk(2), of ?key True] by simp
    then have "?key \<in> up_to (rules env allow) (sk_relation ` assumed)" using related_up_to by blast
    with hit sk show ?thesis by (auto simp: kept_def)
  next
    case miss
    then have "?key \<notin> ?R" using cached_verdict_valid [OF sk(2), of ?key False] by simp
    with miss sk show ?thesis by (auto simp: kept_def)
  next
    case frame
    let ?rl = "rl1\<lparr>rl_stack := insert ?sk (rl_stack rl1)\<rparr>"
    have "engine_inv ?R allow ?rl" using sk(2) by (simp add: engine_inv_def ground_keys_def)
    note v = rules_verdict [OF q this V frame(2)]
    then have fa: "fa \<subseteq> insert ?sk (rl_stack rl)" "engine_inv ?R allow rl2" "rl_stack rl2 = insert ?sk (rl_stack rl)" "noted rl2 \<subseteq> noted rl \<union> N"
      using sk(3,4) by (auto simp: kept_def)
    have up: "?key \<in> up_to (rules env allow) (sk_relation ` B)" if "is_yes r0" "fa \<subseteq> insert ?sk B" for B
      by (rule relation.up_to_discharge [OF v(2) [OF that(1)]]) (use that(2) in auto)
    have "?key \<in> ?R" if "is_yes r0" "fa \<subseteq> {?sk}"
      using up [OF that(1), of "{}"] that(2) by (simp add: relation.up_to_empty related_keys_def)
    then have fin: "engine_inv ?R allow rl' \<and> rl_stack rl' = rl_stack rl2 - {?sk} \<and> noted rl' = noted rl2 \<and> assumed' = assumed \<union> (fa - {?sk}) \<and>
        (is_yes r \<longrightarrow> is_yes r0) \<and> (\<not> is_yes r \<longrightarrow> ?key \<notin> ?R)"
      using finish_frame_inv [OF fa(2) frame(3)] cached_verdict_valid [OF sk(2), of ?key] v(3) by simp
    moreover have "?key \<in> up_to (rules env allow) (sk_relation ` assumed')" if "is_yes r"
      by (rule up) (use that fin in auto)
    ultimately show ?thesis using fa frame(1) sk(3) by (auto simp: kept_def)
  qed
  then show "kept env allow assumed rl assumed' rl'"
    "is_yes r \<Longrightarrow> ?key \<in> up_to (rules env allow) (sk_relation ` assumed')" "\<not> is_yes r \<Longrightarrow> ?key \<notin> ?R" by blast+
qed

text \<open>Outside binder contexts the contextual rule declines at once.\<close>

lemma contextual_declines:
  assumes "src \<in> V" "tgt \<in> V" "rl_binder_contexts rl = []"
  shows "run q (with_reason_mode w (relate_contextual_type_params env src tgt kind)) assumed rl = Answer (None, assumed, rl)"
proof -
  obtain a b where "type_param_of st src = Some a" "type_param_of st tgt = Some b"
    using accessors_defined(6) assms by blast
  then show ?thesis
    using assms(3)
    by (cases a; cases b) (auto simp: with_reason_mode_def relate_contextual_type_params_def look_def Let_def
        contextual_binding_def instantiable_context_def)
qed

lemma deferred_access_defined:
  assumes "src \<in> V" "tgt \<in> V"
  shows "contextual_deferred_indexed_accesses_are_identical env [] src tgt \<noteq> None"
proof -
  obtain a b where ab: "deferred_indexed_access_type_of st src = Some a" "deferred_indexed_access_type_of st tgt = Some b"
    using accessors_defined(12) assms by blast
  have "contextual_params_are_aligned env [] s t \<noteq> None" if "s \<in> V" "t \<in> V" for s t
    using accessors_defined(6) [OF that(1)] accessors_defined(6) [OF that(2)]
    by (auto simp: contextual_params_are_aligned_def split: option.split)
  then show ?thesis
    using ab children_in(8) by (auto simp: contextual_deferred_indexed_accesses_are_identical_def split: option.split)
qed

text \<open>The cases of one step on a ground state: it answers at once, or it is the frame of the normalized pair.\<close>

lemma step_cases:
  assumes V: "s \<in> V" "t \<in> V" and inv: "engine_inv R allow rl"
  obtains (exhausted) r e rl1 where "relate_step q env s t k w assumed rl = Answer (r, assumed, note_exhaustion e rl1)"
        "\<not> is_yes r" "\<And>X. \<not> decide env allow X s t k" "engine_inv R allow rl1" "rl_stack rl1 = rl_stack rl" "noted rl1 = noted rl" "Note_Exhaustion e \<in> N"
    | (demand) r d rl1 where "relate_step q env s t k w assumed rl = Answer (r, assumed, note_demand d rl1)"
        "\<not> is_yes r" "\<And>X. \<not> decide env allow X s t k" "engine_inv R allow rl1" "rl_stack rl1 = rl_stack rl" "noted rl1 = noted rl" "Note_Demand d \<in> N"
    | (same) rl1 where "relate_step q env s t k w assumed rl = Answer (Yes, assumed, rl1)"
        "\<And>X. decide env allow X s t k" "engine_inv R allow rl1" "rl_stack rl1 = rl_stack rl" "noted rl1 = noted rl"
    | (frame) src tgt rl1 where "relate_step q env s t k w assumed rl = relate_frame q env s t src tgt k w assumed rl1"
        "\<And>X. decide env allow X s t k \<longleftrightarrow> relation_key_new src tgt k \<in> X"
        "src \<in> V" "tgt \<in> V" "engine_inv R allow rl1" "rl_stack rl1 = rl_stack rl" "noted rl1 = noted rl"
proof -
  let ?rl = "if rl_stack rl = {} then rl\<lparr>rl_completed_contextual_yes := {}\<rparr> else rl"
  have rl: "engine_inv R allow ?rl" "rl_stack ?rl = rl_stack rl" "noted ?rl = noted rl" using inv by simp_all
  then have ctx: "rl_binder_contexts ?rl = []" "rl_allow_relation_demand ?rl = allow" by (simp_all only: engine_inv_def)
  show ?thesis
  proof (cases "normalized env s")
    case (Inl e)
    moreover from this have "Note_Exhaustion e \<in> N" using V by (auto simp: justified_def)
    ultimately show ?thesis using exhausted [OF _ _ _ rl] by (simp add: relate_step_def decide_def Let_def)
  next
    case s: (Inr src)
    show ?thesis
    proof (cases "normalized env t")
      case (Inl e)
      moreover from this have "Note_Exhaustion e \<in> N" using V by (auto simp: justified_def)
      ultimately show ?thesis using s exhausted [OF _ _ _ rl] by (simp add: relate_step_def decide_def Let_def)
    next
      case t: (Inr tgt)
      have V': "src \<in> V" "tgt \<in> V" using normalized_in V s t by blast+
      note def = relate_step_def [of q env s t k w assumed rl, unfolded Let_def s t sum.case ctx]
      have decide: "decide env allow X s t k \<longleftrightarrow> src = tgt \<or>
          contextual_deferred_indexed_accesses_are_identical env [] src tgt = Some True \<or>
          frontier_demand env allow src tgt = None \<and> relation_key_new src tgt k \<in> X" for X
        by (simp add: decide_def s t)
      obtain b where b: "contextual_deferred_indexed_accesses_are_identical env [] src tgt = Some b"
        using deferred_access_defined [OF V'] by blast
      show ?thesis
      proof (cases "src = tgt \<or> b")
        case True
        with b have "relate_step q env s t k w assumed rl = Answer (Yes, assumed, ?rl)" by (auto simp: def)
        moreover have "decide env allow X s t k" for X using True b by (auto simp: decide)
        ultimately show ?thesis using same [OF _ _ rl] by blast
      next
        case no: False
        show ?thesis
        proof (cases "frontier_demand env allow src tgt")
          case (Some d)
          with no b have "relate_step q env s t k w assumed rl = Answer (No (chain_leaf s t), assumed, note_demand d ?rl)"
            by (simp add: def frontier_demand_def)
          moreover have "Note_Demand d \<in> N"
            using Some V' by (auto simp: justified_def frontier_demand_def split: if_splits option.splits)
          ultimately show ?thesis using no b Some demand [OF _ _ _ rl] by (simp add: decide)
        next
          case None
          with no b have "relate_step q env s t k w assumed rl = relate_frame q env s t src tgt k w assumed ?rl"
            using contextual_declines [OF V' ctx(1)] by (simp add: def frontier_demand_def continue_def)
          with no b None V' show ?thesis using frame [OF _ _ _ _ rl] by (simp add: decide)
        qed
      qed
    qed
  qed
qed

lemma step_honest:
  assumes q: "honest env allow q"
  shows "honest env allow (relate_step q env)"
  unfolding honest_def
proof (intro allI impI)
  fix s t k w assumed rl r assumed' rl'
  assume V: "s \<in> V" "t \<in> V" and inv: "engine_inv (related_keys env allow) allow rl"
    and answer: "relate_step q env s t k w assumed rl = Answer (r, assumed', rl')"
  from V inv show "kept env allow assumed rl assumed' rl' \<and> truthful env allow assumed' s t k r"
  proof (cases rule: step_cases [where q = q and k = k and w = w and assumed = assumed])
    case (frame src tgt rl1)
    note f = frame_honest [OF q frame(5,3,4) answer [unfolded frame(1)]]
    then show ?thesis using frame(2,6,7) by (auto simp: kept_def truthful_def)
  next
    case (exhausted r0 e rl1)
    then have "kept env allow assumed rl1 assumed (note_exhaustion e rl1)"
      using noted_notes(2) [of e rl1] by (auto simp: kept_def)
    with exhausted answer show ?thesis by (auto simp: kept_def truthful_def)
  next
    case (demand r0 d rl1)
    then have "kept env allow assumed rl1 assumed (note_demand d rl1)"
      using noted_notes(1) [of d rl1] by (auto simp: kept_def)
    with demand answer show ?thesis by (auto simp: kept_def truthful_def)
  qed (use answer in \<open>auto simp: kept_def truthful_def\<close>)
qed

lemma relate_honest: "honest env allow (relate n env)"
  by (induction n) (simp add: honest_def, simp add: step_honest)

end

section \<open>Termination\<close>

lemma finite_ground_keys: "finite ground_keys"
proof -
  let ?f = "\<lambda>(s, t, k). \<lparr>sk_relation = relation_key_new s t k, sk_environment = empty_binder_environment\<rparr>"
  have "x = ?f (rk_src (sk_relation x), rk_tgt (sk_relation x), rk_kind (sk_relation x))" if "x \<in> ground_keys" for x
    using that by (simp add: ground_keys_def relation_key_new_def)
  then have "ground_keys \<subseteq> range ?f" by blast
  then show ?thesis by (rule finite_subset) simp
qed

definition returns :: "'a answer \<Rightarrow> bool" where
  "returns a \<longleftrightarrow> (\<exists>x. a = Answer x)"

lemma returns_Answer [simp]: "returns (Answer x)"
  by (simp add: returns_def)

lemma returns_continue: "returns a \<Longrightarrow> (\<And>x. a = Answer x \<Longrightarrow> returns (f x)) \<Longrightarrow> returns (continue a f)"
  by (auto simp: returns_def continue_def)

context arena
begin

text \<open>A program returns when its queries do; the queries of a program see the stack it was started on.\<close>

lemma run_returns:
  assumes q: "honest env allow q"
    and total: "\<And>s t k w assumed rl. s \<in> V \<Longrightarrow> t \<in> V \<Longrightarrow> engine_inv (related_keys env allow) allow rl \<Longrightarrow>
      rl_stack rl = S \<Longrightarrow> returns (q s t k w assumed rl)"
  shows "closed_prog V N post p \<Longrightarrow> engine_inv (related_keys env allow) allow rl \<Longrightarrow> rl_stack rl = S \<Longrightarrow>
    returns (run q p assumed rl)"
proof (induction p arbitrary: assumed rl)
  case (Relate s t k a w c)
  have "returns (ask (q s t k w) a assumed rl)"
    using Relate.prems total by (cases a) (auto simp: ask_def intro!: returns_continue)
  then show ?case
  proof (simp, rule returns_continue)
    fix x assume x: "ask (q s t k w) a assumed rl = Answer x"
    obtain r as1 rl1 where x': "x = (r, as1, rl1)" by (cases x)
    from ask_honest(1) [OF q _ _ _ _ x [unfolded x']] Relate.prems
    show "returns (case x of (r, assumed, rl) \<Rightarrow> run q (c r) assumed rl)"
      using Relate.IH [OF rangeI] Relate.prems x' by (auto simp: kept_def)
  qed
qed (auto simp: engine_inv_contexts)

lemma relate_returns:
  "s \<in> V \<Longrightarrow> t \<in> V \<Longrightarrow> engine_inv (related_keys env allow) allow rl \<Longrightarrow> card (ground_keys - rl_stack rl) < n \<Longrightarrow>
     returns (relate n env s t k w assumed rl)"
proof (induction n arbitrary: s t k w assumed rl)
  case (Suc n)
  let ?R = "related_keys env allow"
  from Suc.prems(1-3) show ?case
  proof (cases rule: step_cases [where q = "relate n env" and k = k and w = w and assumed = assumed])
    case (frame src tgt rl1)
    let ?key = "relation_key_new src tgt k"
    let ?sk = "\<lparr>sk_relation = ?key, sk_environment = empty_binder_environment\<rparr>"
    obtain rl2 where sk: "stack_relation_key_of rl1 ?key = (?sk, rl2)" "engine_inv ?R allow rl2" "rl_stack rl2 = rl_stack rl1"
      by (rule stack_key_ground [OF frame(5), of ?key])
    let ?rl = "rl2\<lparr>rl_stack := insert ?sk (rl_stack rl2)\<rparr>"
    have inv: "engine_inv ?R allow ?rl" using sk(2) by (simp add: engine_inv_def ground_keys_def)
    have "returns (run (relate n env) (with_reason_mode w (relate_uncached env src tgt k)) {} ?rl)" if "?sk \<notin> rl_stack rl2"
    proof (rule run_returns [OF relate_honest _ _ inv refl])
      have "?sk \<in> ground_keys - rl_stack rl" using that sk(3) frame(6) by (simp add: ground_keys_def)
      then have "card (ground_keys - insert ?sk (rl_stack rl)) < card (ground_keys - rl_stack rl)"
        by (intro psubset_card_mono) (use finite_ground_keys in auto)
      then have "card (ground_keys - rl_stack ?rl) < n" using Suc.prems(4) sk(3) frame(6) by simp
      then show "returns (relate n env s' t' k' w' assumed' rl')"
        if "s' \<in> V" "t' \<in> V" "engine_inv ?R allow rl'" "rl_stack rl' = rl_stack ?rl" for s' t' k' w' assumed' rl'
        using that by (intro Suc.IH) simp_all
      show "closed_prog V N (\<lambda>_. True) (with_reason_mode w (relate_uncached env src tgt k))"
        using fine_with_reason_mode [OF fine_uncached [OF frame(3,4)]] by (simp add: fine_def)
    qed
    then show ?thesis
      using sk(2) by (auto simp: frame(1) relate_frame_def sk(1) Let_def engine_inv_def intro!: returns_continue)
  qed simp_all
qed simp

end

end
