(* ===== verification/Relation_Meaning.thy ===== *)
theory Relation_Meaning
  imports Relation_Sound
begin

text \<open>
  What the relation of \<open>Relation_Sound\<close> says of each kind of type: the merge walks of the source are
  lookups, and the success of a rule's program against the greatest fixed point is computed by the
  equations of \<open>succeeds\<close>, one per program former. Unfolding a rule with them turns it into the
  condition under which two types are related.
\<close>

named_theorems succeeds_simps \<open>success of a program against the greatest fixed point\<close>

section \<open>Merge walks are lookups\<close>

lemma set_dropWhile_less: "sorted xs \<Longrightarrow> set (dropWhile (\<lambda>x. x < m) xs) = {x \<in> set xs. (m :: 'a :: linorder) \<le> x}"
  by (induction xs) auto

lemma exact_targets_eq:
  "sorted targets \<Longrightarrow> sorted members \<Longrightarrow> exact_targets targets members = map (\<lambda>m. (m, m \<in> set targets)) members"
proof (induction members arbitrary: targets)
  case (Cons m ms)
  let ?rest = "dropWhile (\<lambda>t. t < m) targets"
  note rest = set_dropWhile_less [OF Cons.prems(1), of m]
  have "nth_opt ?rest 0 = Some m \<longleftrightarrow> m \<in> set targets"
  proof (cases ?rest)
    case Nil
    with rest show ?thesis by (auto simp: nth_opt_def)
  next
    case rest_Cons: (Cons x xs)
    have "m \<le> x" "x \<in> set targets" using rest rest_Cons by auto
    moreover have "x \<le> m" if "m \<in> set targets"
      using that rest rest_Cons sorted_dropWhile [OF Cons.prems(1), of "\<lambda>t. t < m"] by auto
    ultimately show ?thesis using rest_Cons by (auto simp: nth_opt_def)
  qed
  moreover have "m' \<in> set ?rest \<longleftrightarrow> m' \<in> set targets" if "m' \<in> set ms" for m'
    using rest that Cons.prems(2) by auto
  ultimately show ?case
    using Cons.IH [of ?rest] Cons.prems sorted_dropWhile [of targets] by (simp add: Let_def)
qed simp

abbreviation keyed :: "property_key \<Rightarrow> property_type list \<Rightarrow> property_type option" where
  "keyed key ps \<equiv> find (\<lambda>p. pr_key p = key) ps"

lemma keyed_above: "sorted (map pr_key ps) \<Longrightarrow> ps \<noteq> [] \<Longrightarrow> key < pr_key (hd ps) \<Longrightarrow> keyed key ps = None"
  by (cases ps) (auto simp: find_None_iff)

lemma seek_sorted:
  assumes "sorted (map pr_key ps)"
  shows "fst (seek key ps) = keyed key ps" and "sorted (map pr_key (snd (seek key ps)))"
    and "key < key' \<Longrightarrow> keyed key' (snd (seek key ps)) = keyed key' ps"
  using assms
proof -
  have "fst (seek key ps) = keyed key ps \<and> sorted (map pr_key (snd (seek key ps))) \<and>
      (key < key' \<longrightarrow> keyed key' (snd (seek key ps)) = keyed key' ps)"
    using assms by (induction ps) (auto simp: find_None_iff eq_commute [of None])
  then show "fst (seek key ps) = keyed key ps" "sorted (map pr_key (snd (seek key ps)))"
    "key < key' \<Longrightarrow> keyed key' (snd (seek key ps)) = keyed key' ps" by blast+
qed

lemma merge_properties_from:
  assumes "sorted (map pr_key tgts)" "sorted (map pr_key cursor)" "found = keyed key ps"
    and "\<And>t. t \<in> set tgts \<Longrightarrow> key \<le> pr_key t" and "\<And>key'. key < key' \<Longrightarrow> keyed key' cursor = keyed key' ps"
  shows "merge_properties (Some (key, found)) cursor tgts = map (\<lambda>t. (t, keyed (pr_key t) ps)) tgts"
  using assms
proof (induction tgts arbitrary: key found cursor)
  case (Cons t ts)
  show ?case
  proof (cases "key = pr_key t")
    case True
    then show ?thesis using Cons.IH [OF _ Cons.prems(2,3)] Cons.prems by simp
  next
    case False
    then have less: "key < pr_key t" using Cons.prems(4) [of t] by simp
    obtain found' cursor' where s: "seek (pr_key t) cursor = (found', cursor')" by fastforce
    note seek = seek_sorted [OF Cons.prems(2), of "pr_key t", unfolded s fst_conv snd_conv]
    have "keyed key' cursor' = keyed key' ps" if "pr_key t < key'" for key'
      using seek(3) [OF that] Cons.prems(5) [of key'] less that by simp
    moreover have "found' = keyed (pr_key t) ps" using seek(1) Cons.prems(5) [OF less] by simp
    ultimately show ?thesis using Cons.IH [of cursor' found' "pr_key t"] Cons.prems(1) seek(2) s False by simp
  qed
qed simp

lemma merge_properties_lookup:
  assumes "sorted (map pr_key src)" "sorted (map pr_key tgts)"
  shows "merge_properties None src tgts = map (\<lambda>t. (t, keyed (pr_key t) src)) tgts"
proof (cases tgts)
  case (Cons t ts)
  obtain found cursor where s: "seek (pr_key t) src = (found, cursor)" by fastforce
  note seek = seek_sorted [OF assms(1), of "pr_key t", unfolded s fst_conv snd_conv]
  then show ?thesis
    using merge_properties_from [of ts cursor found "pr_key t" src] assms(2) Cons s by simp
qed simp

section \<open>Success of a program\<close>

definition succeeds :: "relate_env \<Rightarrow> bool \<Rightarrow> relation prog \<Rightarrow> bool" where
  "succeeds env allow p \<longleftrightarrow> (\<exists>r\<in>results (answers_of env allow (related_keys env allow)) allow p. is_yes r)"

lemma answers_related: "answers_of env allow (related_keys env allow) s t k r \<longleftrightarrow> (is_yes r \<longleftrightarrow> related env allow s t k)"
  by (simp add: answers_of_def related_def)

lemma ex_verdict:
  "(\<exists>r. is_yes r)" "(\<exists>r. (is_yes r \<longleftrightarrow> b) \<and> is_yes r) \<longleftrightarrow> b"
  by (metis is_yes.simps(1))+

lemma succeeds_basic [succeeds_simps]:
  "succeeds env allow (Return r) \<longleftrightarrow> is_yes r"
  "succeeds env allow (reject s t) \<longleftrightarrow> False"
  "succeeds env allow (fails reason) \<longleftrightarrow> False"
  "succeeds env allow (Relate s t k a w Return) \<longleftrightarrow> related env allow s t k"
  "succeeds env allow (rel s t k) \<longleftrightarrow> related env allow s t k"
  "succeeds env allow (probe s t k) \<longleftrightarrow> related env allow s t k"
  "succeeds env allow (look (Some x) f) \<longleftrightarrow> succeeds env allow (f x)"
  "succeeds env allow (let_some (Some (Some y)) missing g) \<longleftrightarrow> succeeds env allow (g y)"
  "succeeds env allow (let_some (Some None) missing g) \<longleftrightarrow> succeeds env allow missing"
  by (auto simp: succeeds_def reject_def fails_def rel_def probe_def answers_related ex_verdict look_def let_some_def)

lemma succeeds_if [succeeds_simps]:
  "succeeds env allow (if b then p else q) \<longleftrightarrow> (b \<longrightarrow> succeeds env allow p) \<and> (\<not> b \<longrightarrow> succeeds env allow q)"
  by simp

lemma succeeds_bind:
  "succeeds env allow (bind p f) \<longleftrightarrow>
     (\<exists>x\<in>results (answers_of env allow (related_keys env allow)) allow p. succeeds env allow (f x))"
  by (auto simp: succeeds_def results_bind)

lemma succeeds_must [succeeds_simps]:
  "succeeds env allow (must p (\<lambda>child. No (w child)) k) \<longleftrightarrow> succeeds env allow p \<and> succeeds env allow k"
proof -
  have "succeeds env allow (case r of Yes \<Rightarrow> k | No child \<Rightarrow> Return (No (w child))) \<longleftrightarrow> is_yes r \<and> succeeds env allow k" for r
    by (cases r) (simp_all add: succeeds_basic)
  then show ?thesis by (auto simp: must_def succeeds_bind) (auto simp: succeeds_def)
qed

lemma succeeds_must_because [succeeds_simps]:
  "succeeds env allow (must p (because w) k) \<longleftrightarrow> succeeds env allow p \<and> succeeds env allow k"
  by (simp add: because_def [abs_def] succeeds_must)

lemma succeeds_may [succeeds_simps]:
  "succeeds env allow (may (Relate s t k a w Return) Yes q) \<longleftrightarrow> related env allow s t k \<or> succeeds env allow q"
proof -
  have "succeeds env allow (case r of Yes \<Rightarrow> Return Yes | No child \<Rightarrow> q) \<longleftrightarrow> is_yes r \<or> succeeds env allow q" for r
    by (cases r) (simp_all add: succeeds_basic)
  moreover have "\<exists>r. is_yes r \<longleftrightarrow> related env allow s t k" using is_yes.simps by metis
  ultimately show ?thesis unfolding may_def succeeds_bind by (auto simp: answers_related)
qed

lemma succeeds_may_probe [succeeds_simps]:
  "succeeds env allow (may (probe s t k) Yes q) \<longleftrightarrow> related env allow s t k \<or> succeeds env allow q"
  by (simp add: probe_def succeeds_may)

lemma succeeds_may_each [succeeds_simps]:
  "succeeds env allow (may_each (\<lambda>x. Relate (s x) (t x) k a w Return) Yes xs q) \<longleftrightarrow>
     (\<exists>x\<in>set xs. related env allow (s x) (t x) k) \<or> succeeds env allow q"
  by (induction xs) (auto simp: succeeds_may)

text \<open>A loop of checks succeeds when each check does.\<close>

lemma succeeds_each:
  assumes "\<And>x q. x \<in> set xs \<Longrightarrow> succeeds env allow (body x q) \<longleftrightarrow> Q x \<and> succeeds env allow q"
  shows "succeeds env allow (for_each body xs (Return Yes)) \<longleftrightarrow> (\<forall>x\<in>set xs. Q x)"
  using assms by (induction xs) (auto simp: succeeds_basic)

section \<open>One unfolding of the relation\<close>

context arena
begin

lemma related_keys_unfold:
  assumes "s \<in> V" "t \<in> V"
  shows "relation_key_new s t k \<in> related_keys env allow \<longleftrightarrow> succeeds env allow (relate_uncached env s t k)"
proof -
  have "related_keys env allow = rules env allow (related_keys env allow)"
    unfolding related_keys_def by (rule gfp_unfold [OF rules_mono])
  then have "relation_key_new s t k \<in> related_keys env allow \<longleftrightarrow>
      relation_key_new s t k \<in> rules env allow (related_keys env allow)" by simp
  also have "\<dots> \<longleftrightarrow> succeeds env allow (relate_uncached env s t k)"
    using assms by (simp add: rules_def succeeds_def relation_key_new_def)
  finally show ?thesis .
qed

lemma related_unfold:
  assumes "re_normalization env = None" "s \<in> V" "t \<in> V"
  shows "related env allow s t k \<longleftrightarrow>
    s = t \<or> contextual_deferred_indexed_accesses_are_identical env [] s t = Some True \<or>
    succeeds env allow (relate_uncached env s t k)"
  using assms(1) by (auto simp: related_def decide_def normalized_def frontier_demand_def normalization_demand_def
      related_keys_unfold [OF assms(2,3)])

end

text \<open>
  An environment as the checker builds it without a query plan: the well-known ids are the rows of
  their intrinsics and no provider normalizes. The rules are stated on the rows of both sides.
\<close>

definition row :: "relate_env \<Rightarrow> type_id \<Rightarrow> ty_row option" where
  "row env t = nth_opt (store_rows (re_store env)) (unat t)"

definition plain_env :: "relate_env \<Rightarrow> bool" where
  "plain_env env \<longleftrightarrow> closed_env env \<and> re_normalization env = None \<and>
     (\<forall>k. row env (intrinsic_id (re_well_known env) k) = Some (Row_Intrinsic k))"

text \<open>Deferred types, which the engine compares before it looks at the other side.\<close>

definition deferred_row :: "ty_row \<Rightarrow> bool" where
  "deferred_row r \<longleftrightarrow> row_tag r \<in> {Tag_Conditional, Tag_Instantiation, Tag_Mapped, Tag_Keyof, Tag_TypeParam}"

definition absorbing_row :: "ty_row \<Rightarrow> bool" where
  "absorbing_row r \<longleftrightarrow> r \<in> {Row_Intrinsic Kind_Any, Row_Intrinsic Kind_Error}"

locale plain_arena = arena +
  assumes plain: "plain_env env"
begin

lemma no_provider: "re_normalization env = None"
  using plain by (simp add: plain_env_def)

lemma in_arena: "row env t = Some r \<Longrightarrow> t \<in> V"
  by (auto simp: row_def row_in_arena)

lemma well_known_at: "row env t = Some r \<Longrightarrow> t = intrinsic_id (re_well_known env) k \<Longrightarrow> r = Row_Intrinsic k"
  using plain by (simp add: plain_env_def)

lemma rows_read:
  assumes "row env t = Some r"
  shows "tag st t = Some (row_tag r)"
    "is_any_type env t = Some (r = Row_Intrinsic Kind_Any)"
    "is_error_type env t = Some (r = Row_Intrinsic Kind_Error)"
    "t = wk_never (re_well_known env) \<Longrightarrow> r = Row_Intrinsic Kind_Never"
  using assms well_known_at [of t r Kind_Any] well_known_at [of t r Kind_Error] well_known_at [of t r Kind_Never]
  by (cases r; auto simp: row_def is_any_type_def is_error_type_def accessor_rows [OF inv])+

lemmas row_accessors = accessor_rows [OF inv, folded row_def]

lemma uncached_composite:
  assumes "row env s = Some rs" "row env t = Some rt" "\<not> absorbing_row rs" "\<not> absorbing_row rt"
    and "rs \<noteq> Row_Intrinsic Kind_Never" "row_tag rs \<noteq> Tag_TypeParam"
    and "\<And>ms. rs = Row_Intersection ms \<Longrightarrow> t \<in> set ms \<Longrightarrow> row_tag rt = Tag_Object"
  shows "relate_uncached env s t k = relate_composite env s t k (row_tag rs) (row_tag rt)"
proof -
  have "intersection_members st s = Some (case rs of Row_Intersection v \<Rightarrow> Some v | _ \<Rightarrow> None)"
    using assms(1) by (simp add: row_accessors)
  then show ?thesis
    using rows_read [OF assms(1)] rows_read [OF assms(2)] assms(3-)
    by (cases rs) (auto simp: relate_uncached_def Let_def look_def or_m_def absorbing_row_def)
qed

lemma related_composite:
  assumes "row env s = Some rs" "row env t = Some rt" "\<not> absorbing_row rs" "\<not> absorbing_row rt"
    and "rs \<noteq> Row_Intrinsic Kind_Never" "row_tag rs \<noteq> Tag_TypeParam"
    and "\<And>ms. rs = Row_Intersection ms \<Longrightarrow> t \<in> set ms \<Longrightarrow> row_tag rt = Tag_Object"
    and "s \<noteq> t" "row_tag rs \<noteq> Tag_DeferredIndexedAccess \<or> row_tag rt \<noteq> Tag_DeferredIndexedAccess"
  shows "related env allow s t k \<longleftrightarrow> succeeds env allow (relate_composite env s t k (row_tag rs) (row_tag rt))"
proof -
  have "deferred_indexed_access_type_of st s = Some (case rs of Row_DeferredIndexedAccess v \<Rightarrow> Some v | _ \<Rightarrow> None)"
      "deferred_indexed_access_type_of st t = Some (case rt of Row_DeferredIndexedAccess v \<Rightarrow> Some v | _ \<Rightarrow> None)"
    using assms(1,2) by (simp_all add: row_accessors)
  then have "contextual_deferred_indexed_accesses_are_identical env [] s t = Some False"
    using assms(9) by (cases rs; cases rt) (auto simp: contextual_deferred_indexed_accesses_are_identical_def)
  then show ?thesis
    using related_unfold [OF no_provider in_arena [OF assms(1)] in_arena [OF assms(2)]]
      uncached_composite [OF assms(1-7)] assms(8) by simp
qed

section \<open>The rules by kind of type\<close>

lemma related_refl: "related env allow s s k"
  using no_provider by (simp add: related_def decide_def normalized_def)

lemma lattice:
  assumes "row env s = Some rs" "row env t = Some rt"
  shows "rs = Row_Intrinsic Kind_Error \<or> rt = Row_Intrinsic Kind_Error \<Longrightarrow> related env allow s t k"
    and "s = wk_never (re_well_known env) \<Longrightarrow> related env allow s t k"
    and "rs = Row_Intrinsic Kind_Any \<Longrightarrow> t \<noteq> wk_never (re_well_known env) \<Longrightarrow> related env allow s t k"
    and "rt = Row_Intrinsic Kind_Any \<Longrightarrow> related env allow s t k"
proof -
  note read = rows_read [OF assms(1)] rows_read [OF assms(2)]
  note unfold = related_unfold [OF no_provider in_arena [OF assms(1)] in_arena [OF assms(2)], of allow k]
  from read show "rs = Row_Intrinsic Kind_Error \<or> rt = Row_Intrinsic Kind_Error \<Longrightarrow> related env allow s t k"
    unfolding unfold by (auto simp: relate_uncached_def Let_def look_def or_m_def succeeds_basic)
  from read show "s = wk_never (re_well_known env) \<Longrightarrow> related env allow s t k"
    unfolding unfold by (auto simp: relate_uncached_def Let_def look_def or_m_def succeeds_basic)
  from read show "rs = Row_Intrinsic Kind_Any \<Longrightarrow> t \<noteq> wk_never (re_well_known env) \<Longrightarrow> related env allow s t k"
    unfolding unfold by (auto simp: relate_uncached_def Let_def look_def or_m_def succeeds_basic)
  from read show "rt = Row_Intrinsic Kind_Any \<Longrightarrow> related env allow s t k"
    unfolding unfold by (auto simp: relate_uncached_def Let_def look_def or_m_def succeeds_basic)
qed

lemma union_source:
  assumes "row env s = Some (Row_Union ms)" "row env t = Some rt" "s \<noteq> t" "sorted ms"
    and "\<not> absorbing_row rt" "\<not> deferred_row rt \<or> row_tag rt = Tag_TypeParam" "\<And>ts. rt = Row_Union ts \<Longrightarrow> sorted ts"
  shows "related env allow s t k \<longleftrightarrow>
    (\<forall>m\<in>set ms. (\<exists>ts. rt = Row_Union ts \<and> m \<in> set ts) \<or> related env allow m t k)"
proof -
  have "related env allow s t k \<longleftrightarrow> succeeds env allow (relate_composite env s t k Tag_Union (row_tag rt))"
    using related_composite [OF assms(1,2), of allow k] assms(3,5) by (simp add: absorbing_row_def)
  also have "\<dots> \<longleftrightarrow> succeeds env allow (relate_union_source env s t k)"
    using assms(6) by (auto simp: relate_composite_def deferred_row_def)
  also have "\<dots> \<longleftrightarrow> (\<forall>m\<in>set ms. (\<exists>ts. rt = Row_Union ts \<and> m \<in> set ts) \<or> related env allow m t k)"
  proof (cases "\<exists>ts. rt = Row_Union ts")
    case True
    then obtain ts where ts: "rt = Row_Union ts" by blast
    have p: "relate_union_source env s t k = for_each (\<lambda>(member, exact) k'.
        must (if exact then rel member member k else rel member t k) (because (Reason_UnionSourceMember member s t)) k')
      (exact_targets ts ms) (Return Yes)"
      using assms(1,2) ts by (simp add: relate_union_source_def row_accessors let_some_def look_def)
    have "succeeds env allow (relate_union_source env s t k) \<longleftrightarrow>
        (\<forall>x\<in>set (exact_targets ts ms). (if snd x then related env allow (fst x) (fst x) k else related env allow (fst x) t k))"
      unfolding p by (rule succeeds_each) (auto simp: succeeds_simps)
    with related_refl assms(4,7) ts show ?thesis by (auto simp: exact_targets_eq)
  next
    case False
    then have u: "union_members st t = Some None" using assms(2) by (cases rt) (simp_all add: row_accessors)
    have p: "relate_union_source env s t k = for_each (\<lambda>(member, exact) k'.
        must (if exact then rel member member k else rel member t k) (because (Reason_UnionSourceMember member s t)) k')
      (map (\<lambda>m. (m, False)) ms) (Return Yes)"
      using assms(1) by (simp add: relate_union_source_def u) (simp add: row_accessors let_some_def look_def)
    have "succeeds env allow (relate_union_source env s t k) \<longleftrightarrow>
        (\<forall>x\<in>set (map (\<lambda>m. (m, False)) ms). (if snd x then related env allow (fst x) (fst x) k else related env allow (fst x) t k))"
      unfolding p by (rule succeeds_each) (auto simp: succeeds_simps)
    with False show ?thesis by auto
  qed
  finally show ?thesis .
qed

lemma union_target:
  assumes "row env s = Some rs" "row env t = Some (Row_Union ts)" "\<not> absorbing_row rs" "rs \<noteq> Row_Intrinsic Kind_Never"
    and "\<not> deferred_row rs" "row_tag rs \<noteq> Tag_Union" "\<And>ms. rs = Row_Intersection ms \<Longrightarrow> t \<notin> set ms"
  shows "related env allow s t k \<longleftrightarrow> (\<exists>m\<in>set ts. related env allow s m k)"
proof -
  have "s \<noteq> t" using assms(1,2,6) by auto
  then have "related env allow s t k \<longleftrightarrow> succeeds env allow (relate_composite env s t k (row_tag rs) Tag_Union)"
    using related_composite [OF assms(1,2), of allow k] assms by (auto simp: absorbing_row_def deferred_row_def)
  also have "\<dots> \<longleftrightarrow> succeeds env allow (relate_union_target env s t k)"
    using assms(5,6) by (auto simp: relate_composite_def deferred_row_def)
  finally show ?thesis using assms(2) by (simp add: relate_union_target_def row_accessors succeeds_simps)
qed

lemma intersection_target:
  assumes "row env s = Some rs" "row env t = Some (Row_Intersection ts)" "\<not> absorbing_row rs" "rs \<noteq> Row_Intrinsic Kind_Never"
    and "\<not> deferred_row rs" "row_tag rs \<noteq> Tag_Union" "\<And>ms. rs = Row_Intersection ms \<Longrightarrow> t \<notin> set ms" "s \<noteq> t"
    and "filter_m (not_this_type env) ts = Some ts'"
  shows "related env allow s t k \<longleftrightarrow> (\<forall>m\<in>set ts'. related env allow s m k)"
proof -
  have "related env allow s t k \<longleftrightarrow> succeeds env allow (relate_composite env s t k (row_tag rs) Tag_Intersection)"
    using related_composite [OF assms(1,2), of allow k] assms by (auto simp: absorbing_row_def deferred_row_def)
  also have "\<dots> \<longleftrightarrow> succeeds env allow (relate_intersection_target env s t k)"
    using assms(5,6) by (auto simp: relate_composite_def deferred_row_def)
  also have "relate_intersection_target env s t k = for_each (\<lambda>member k'. must (rel s member k) No k') ts' (Return Yes)"
    using assms(2,9) by (simp add: relate_intersection_target_def row_accessors let_some_def look_def)
  also have "succeeds env allow \<dots> \<longleftrightarrow> (\<forall>m\<in>set ts'. related env allow s m k)"
    by (rule succeeds_each) (simp add: succeeds_simps)
  finally show ?thesis .
qed

text \<open>
  The comparison of one target property with the source property of its key, and the named
  properties of two object types.
\<close>

abbreviation property_fits :: "bool \<Rightarrow> relation_kind \<Rightarrow> property_type list \<Rightarrow> property_type \<Rightarrow> bool" where
  "property_fits allow k ps p \<equiv> (case keyed (pr_key p) ps of
       None \<Rightarrow> pr_optional p
     | Some q \<Rightarrow> nominal_origin_ok p q \<and> (pr_optional q \<longrightarrow> pr_optional p) \<and> related env allow (pr_ty q) (pr_ty p) k)"

lemma named_properties:
  assumes "row env s = Some (Row_Object so)" "row env t = Some (Row_Object ob)"
    and "sorted (map pr_key (ob_properties so))" "sorted (map pr_key (ob_properties ob))"
  shows "succeeds env allow (relate_object_named_properties env s s t k Require_Target_Presence) \<longleftrightarrow>
    (\<forall>p\<in>set (ob_properties ob). property_fits allow k (ob_properties so) p)"
proof -
  have obs: "object_type_of st s = Some (Some so)" "object_type_of st t = Some (Some ob)"
    using assms(1,2) by (simp_all add: row_accessors)
  have "succeeds env allow (relate_object_named_properties env s s t k Require_Target_Presence) \<longleftrightarrow>
      (\<forall>x\<in>set (map (\<lambda>p. (p, keyed (pr_key p) (ob_properties so))) (ob_properties ob)). case snd x of
         None \<Rightarrow> pr_optional (fst x)
       | Some q \<Rightarrow> nominal_origin_ok (fst x) q \<and> (pr_optional q \<longrightarrow> pr_optional (fst x)) \<and>
           related env allow (pr_ty q) (pr_ty (fst x)) k)"
    unfolding relate_object_named_properties_def obs succeeds_basic merge_properties_lookup [OF assms(3,4)]
    by (rule succeeds_each) (auto simp: succeeds_simps simp del: nominal_origin_ok.simps split: option.split if_split)
  then show ?thesis by (simp del: nominal_origin_ok.simps cong: option.case_cong)
qed

lemma related_objects:
  assumes "row env s = Some (Row_Object so)" "row env t = Some (Row_Object ob)" "s \<noteq> t"
    and "sorted (map pr_key (ob_properties so))" "sorted (map pr_key (ob_properties ob))"
    and "ob_string_index ob = None" "ob_number_index ob = None" "ob_call_signatures ob = []" "ob_construct_signatures ob = []"
  shows "related env allow s t k \<longleftrightarrow> (\<forall>p\<in>set (ob_properties ob). property_fits allow k (ob_properties so) p)"
proof -
  have obs: "object_type_of st s = Some (Some so)" "object_type_of st t = Some (Some ob)"
      "literal_value_of st s = Some None" "intrinsic_kind_of st s = Some None"
    using assms(1,2) by (simp_all add: row_accessors)
  have wk: "t \<noteq> wk_unknown (re_well_known env)" "t \<noteq> wk_void (re_well_known env)" "t \<noteq> wk_object (re_well_known env)"
    using well_known_at [OF assms(2), of Kind_Unknown] well_known_at [OF assms(2), of Kind_Void]
      well_known_at [OF assms(2), of Kind_Object] by auto
  have "related env allow s t k \<longleftrightarrow> succeeds env allow (relate_composite env s t k Tag_Object Tag_Object)"
    using related_composite [OF assms(1,2), of allow k] assms(3) by (simp add: absorbing_row_def)
  also have "\<dots> \<longleftrightarrow> is_empty_object (Some ob) \<or> succeeds env allow (relate_objects env s t k)"
    using obs wk no_provider
    by (simp add: relate_composite_def library_object_top_def relate_plain_def relate_by_tags_def Let_def succeeds_basic
        non_nullish_tag_def)
  also have "succeeds env allow (relate_objects env s t k) \<longleftrightarrow>
      succeeds env allow (relate_object_named_properties env s s t k Require_Target_Presence)"
    using obs assms(6-9)
    by (simp add: relate_objects_def relate_object_call_signatures_def relate_object_construct_signatures_def
        relate_object_index_signatures_def succeeds_simps)
  finally show ?thesis using named_properties [OF assms(1,2,4,5)] by (auto simp: is_empty_object_def)
qed

end

end
