(* ===== verification/Relation_Sample.thy ===== *)
theory Relation_Sample
  imports Relation_Sound
begin

text \<open>
  Concrete arenas on which the theorems about the relation engine are evaluated: a store is built
  from a list of rows by the constructors of \<open>Store\<close>, and the rows read back are that list.
\<close>

fun append_row :: "store \<Rightarrow> ty_row \<Rightarrow> store" where
  "append_row s (Row_Intrinsic k) = snd (push_intrinsic s k flags_empty)"
| "append_row s (Row_Literal v) = snd (push_literal s v flags_empty)"
| "append_row s (Row_Object ob) = snd (push_object s ob flags_empty)"
| "append_row s (Row_Union ms) = snd (push_union s ms flags_empty)"
| "append_row s (Row_Intersection ms) = snd (push_intersection s ms flags_empty)"
| "append_row s (Row_Function f) = snd (push_function s f flags_empty)"
| "append_row s (Row_Array t) = snd (push_array s t flags_empty)"
| "append_row s (Row_Tuple tu) = snd (push_tuple s tu flags_empty)"
| "append_row s (Row_Template te) = snd (push_template s te flags_empty)"
| "append_row s (Row_Readonly t) = snd (push_readonly s t flags_empty)"
| "append_row s (Row_Keyof t) = snd (push_keyof s t flags_empty)"
| "append_row s _ = s"

fun plain_row :: "ty_row \<Rightarrow> bool" where
  "plain_row (Row_TypeParam _) = False"
| "plain_row (Row_Conditional _) = False"
| "plain_row (Row_Instantiation _) = False"
| "plain_row (Row_Mapped _) = False"
| "plain_row (Row_ClassInstance _) = False"
| "plain_row (Row_DeferredIndexedAccess _) = False"
| "plain_row (Row_Declared _) = False"
| "plain_row (Row_Infer _) = False"
| "plain_row Row_MappedValue = False"
| "plain_row _ = True"

definition store_of :: "ty_row list \<Rightarrow> store" where
  "store_of rows = foldl append_row store_new rows"

lemma append_row_appended:
  assumes "store_inv s" "store_len s < 2 ^ 32" "plain_row r"
  shows "\<exists>t. row_appended s t (append_row s r) r"
  using assms(3) by (cases r) (auto intro: push_rows [OF assms(1,2)])

lemma append_row_constraints: "st_type_param_constraints (append_row s r) = st_type_param_constraints s"
  by (cases r)
    (simp_all add: push_def push_intrinsic_def push_literal_def push_object_def push_union_def push_intersection_def
      push_function_def push_array_def push_tuple_def push_template_def push_readonly_def push_keyof_def Let_def)

lemma store_of_rows:
  assumes "list_all plain_row rows" "length rows \<le> 2 ^ 32"
  shows "store_inv (store_of rows) \<and> store_rows (store_of rows) = rows \<and>
    st_type_param_constraints (store_of rows) = lm_default"
  using assms
proof (induction rows rule: rev_induct)
  case Nil
  show ?case by (simp add: store_of_def) (simp add: store_new_def)
next
  case (snoc r rows)
  let ?s = "store_of rows"
  have s: "store_inv ?s" "store_rows ?s = rows" "store_of (rows @ [r]) = append_row ?s r"
    using snoc by (simp_all add: store_of_def)
  then have "store_len ?s = length rows" by (metis length_store_rows)
  then obtain t where "row_appended ?s t (append_row ?s r) r"
    using append_row_appended [OF s(1), of r] snoc.prems by auto
  with s snoc show ?case by (simp add: row_appended_def append_row_constraints)
qed

text \<open>An environment over such a store, without a normalization provider.\<close>

definition env_of :: "ty_row list \<Rightarrow> relate_env" where
  "env_of rows = \<lparr>re_store = store_of rows, re_well_known = well_known_of_ids (map word_of_nat [0..<19]),
     re_normalization = None,
     re_float_text = \<lparr>ft_parse = (\<lambda>_. None), ft_display = (\<lambda>_. []), ft_format_finite = (\<lambda>_. [])\<rparr>\<rparr>"

lemma well_known_in_order: "unat (intrinsic_id (well_known_of_ids (map word_of_nat [0..<19])) k) < 19"
proof -
  have "list_all (\<lambda>k. unat (intrinsic_id (well_known_of_ids (map word_of_nat [0..<19])) k) < 19) intrinsic_all"
    by code_simp
  then show ?thesis using intrinsic_all_complete(1) by (simp add: list_all_iff)
qed

lemma closed_env_of:
  assumes "list_all plain_row rows" "length rows \<le> 2 ^ 32" "19 \<le> length rows" "closed_rows rows"
  shows "closed_env (env_of rows)"
proof -
  note s = store_of_rows [OF assms(1,2)]
  then have len: "store_len (store_of rows) = length rows" by (metis length_store_rows)
  have "unat (intrinsic_id (re_well_known (env_of rows)) k) < length rows" for k
    using well_known_in_order [of k] assms(3) by (simp add: env_of_def)
  then show ?thesis
    using s assms(4) len
    by (simp add: closed_env_def env_of_def ids_def normalized_def apparent_surface_of_def type_param_constraint_def)
qed

definition object_with :: "property_type list \<Rightarrow> object_type" where
  "object_with ps = object_default\<lparr>ob_properties := ps\<rparr>"

definition optional_property :: "string \<Rightarrow> type_id \<Rightarrow> property_type" where
  "optional_property name ty = (property_public name ty)\<lparr>pr_optional := True\<rparr>"

text \<open>
  Rows 0 to 18 are the intrinsics; then \<open>{a?: number}\<close>, \<open>{b: string}\<close>, their intersection, \<open>{a: number}\<close>, two
  object types that refer to each other, \<open>number | string\<close>, \<open>{a: number, b: string}\<close>.
\<close>

definition sample_rows :: "ty_row list" where
  "sample_rows = map Row_Intrinsic intrinsic_all @
     [Row_Object (object_with [optional_property ''a'' 8]),
      Row_Object (object_with [property_public ''b'' 9]),
      Row_Intersection [19, 20],
      Row_Object (object_with [property_public ''a'' 8]),
      Row_Object (object_with [property_public ''next'' 24]),
      Row_Object (object_with [property_public ''next'' 23]),
      Row_Union [8, 9],
      Row_Object (object_with [property_public ''a'' 8, property_public ''b'' 9])]"

definition sample_env :: relate_env where
  "sample_env = env_of sample_rows"

lemma sample_closed: "closed_env sample_env"
  unfolding sample_env_def
proof (rule closed_env_of)
  show "length sample_rows \<le> 2 ^ 32" "19 \<le> length sample_rows" by (simp_all add: sample_rows_def intrinsic_all_def)
qed code_simp+

lemma sample_ids: "t \<in> ids sample_env \<longleftrightarrow> unat t < 27"
proof -
  have "store_rows (re_store sample_env) = sample_rows"
    using store_of_rows [of sample_rows] by (simp add: sample_env_def env_of_def sample_rows_def intrinsic_all_def)
  then have "store_len (re_store sample_env) = length sample_rows" by (metis length_store_rows)
  moreover have "length sample_rows = 27" by code_simp
  ultimately show ?thesis by (simp add: ids_def)
qed

text \<open>Whether an answer is a verdict, and which.\<close>

definition verdict_of :: "(relation \<times> 'a \<times> 'b) answer \<Rightarrow> bool option" where
  "verdict_of a = (case a of Answer (r, _, _) \<Rightarrow> Some (is_yes r) | _ \<Rightarrow> None)"

lemma verdict_of_Some: "verdict_of a = Some b \<Longrightarrow> \<exists>r x y. a = Answer (r, x, y) \<and> (is_yes r \<longleftrightarrow> b)"
  by (auto simp: verdict_of_def split: answer.splits)

text \<open>The same arena under a provider that wants the row 22 evaluated before it is compared.\<close>

definition demanding_env :: relate_env where
  "demanding_env = sample_env\<lparr>re_normalization := Some
     \<lparr>nz_normalize = Inr, nz_is_library_object_top = (\<lambda>_. False), nz_apparent_surface = (\<lambda>_. Surface_NotApplicable),
      nz_relation_demand = (\<lambda>t. if t = 22 then Some (Demand_Evaluation t) else None)\<rparr>\<rparr>"

lemma demanding_same:
  "re_store demanding_env = re_store sample_env" "re_well_known demanding_env = re_well_known sample_env"
  "ids demanding_env = ids sample_env" "normalized demanding_env t = Inr t"
  "apparent_surface_of demanding_env t = Surface_NotApplicable"
  by (simp_all add: ids_def demanding_env_def normalized_def apparent_surface_of_def)

lemma demanding_closed: "closed_env demanding_env"
proof -
  have "store_inv (re_store sample_env)" "closed_rows (store_rows (re_store sample_env))"
      "\<And>p c. type_param_constraint (re_store sample_env) p = Some c \<Longrightarrow> c \<in> ids sample_env"
      "\<And>k. intrinsic_id (re_well_known sample_env) k \<in> ids sample_env"
    using sample_closed unfolding closed_env_def by blast+
  then show ?thesis unfolding closed_env_def demanding_same by blast
qed

end
