(* ===== verification/Relation_Properties.thy ===== *)
theory Relation_Properties
  imports Relation_Meaning Relation_Sample
begin

text \<open>
  The properties of the relation engine: its verdicts are those of the relation its rules define,
  whatever the caches hold; it always returns; what it reports to its coordinator is justified; and
  what the relation says of unions, intersections and object types.
\<close>

section \<open>Planned queries keep their caches valid\<close>


lemma planned_start [simp]: "valid_cache R cache \<Longrightarrow> engine_inv R False (relater_planned cache)" "rl_stack (relater_planned cache) = {}"
  by (simp_all add: engine_inv_def relater_planned_def valid_cache_def)







lemma new_cache_valid [simp]: "valid_cache R rc_new"
  by (simp add: valid_cache_def)

section \<open>Verdicts\<close>

context arena
begin

lemma verdict:
  assumes "src \<in> V" "tgt \<in> V" and rl: "engine_inv (related_keys env allow) allow rl" "rl_stack rl = {}"
    and answer: "relate n env src tgt kind w {} rl = Answer (r, assumed, rl')"
  shows "is_yes r \<longleftrightarrow> related env allow src tgt kind" "assumed = {}"
    "engine_inv (related_keys env allow) allow rl'" "rl_stack rl' = {}" "noted rl' \<subseteq> noted rl \<union> N"
proof -
  note h = honestD [OF relate_honest assms(1-3) answer]
  then show "assumed = {}" "engine_inv (related_keys env allow) allow rl'" "rl_stack rl' = {}" "noted rl' \<subseteq> noted rl \<union> N"
    using rl(2) by (auto simp: kept_def)
  then show "is_yes r \<longleftrightarrow> related env allow src tgt kind"
    using h(2) by (auto simp: truthful_def related_def relation.up_to_empty related_keys_def)
qed

lemma returns_eventually:
  assumes "src \<in> V" "tgt \<in> V" "engine_inv (related_keys env allow) allow rl"
  shows "\<exists>m. \<forall>n\<ge>m. \<exists>r assumed rl'. relate n env src tgt kind w {} rl = Answer (r, assumed, rl')"
proof (rule exI [of _ "Suc (card (ground_keys - rl_stack rl))"], intro allI impI)
  fix n assume "Suc (card (ground_keys - rl_stack rl)) \<le> n"
  then have "returns (relate n env src tgt kind w {} rl)" by (intro relate_returns [OF assms]) simp
  then show "\<exists>r assumed rl'. relate n env src tgt kind w {} rl = Answer (r, assumed, rl')" by (auto simp: returns_def)
qed

lemma verdict_eventually:
  assumes "src \<in> V" "tgt \<in> V" "engine_inv (related_keys env allow) allow rl" "rl_stack rl = {}"
  shows "\<exists>m. \<forall>n\<ge>m. \<exists>r rl'. relate n env src tgt kind w {} rl = Answer (r, {}, rl') \<and>
    (is_yes r \<longleftrightarrow> related env allow src tgt kind) \<and> engine_inv (related_keys env allow) allow rl' \<and>
    noted rl' \<subseteq> noted rl \<union> N"
proof -
  obtain m where m: "\<And>n. m \<le> n \<Longrightarrow> \<exists>r assumed rl'. relate n env src tgt kind w {} rl = Answer (r, assumed, rl')"
    using returns_eventually [OF assms(1-3)] by blast
  have "\<exists>r rl'. relate n env src tgt kind w {} rl = Answer (r, {}, rl') \<and>
      (is_yes r \<longleftrightarrow> related env allow src tgt kind) \<and> engine_inv (related_keys env allow) allow rl' \<and>
      noted rl' \<subseteq> noted rl \<union> N" if "m \<le> n" for n
    using m [OF that] verdict [OF assms] by metis
  then show ?thesis by blast
qed

end

lemma sample_verdict:
  assumes "verdict_of (relate n sample_env s t k w {} (relater_planned rc_new)) = Some b" "unat s < 27" "unat t < 27"
  shows "related sample_env False s t k \<longleftrightarrow> b"
proof -
  obtain r x y where "relate n sample_env s t k w {} (relater_planned rc_new) = Answer (r, x, y)" "is_yes r \<longleftrightarrow> b"
    using verdict_of_Some [OF assms(1)] by blast
  then show ?thesis
    using arena.verdict(1) [OF arena.intro [OF sample_closed], of s t False "relater_planned rc_new"] assms(2,3)
    by (simp add: sample_ids)
qed

section \<open>Properties of the engine\<close>

text \<open>
  C22: a verdict of \<open>relate\<close> outside every frame is exact. On a closed arena, from a state whose caches
  hold only right verdicts, every answer is \<open>Yes\<close> exactly when the pair is in the greatest fixed point
  of the structural rules, whatever the reporting mode and the fuel; the answer rests on no assumption
  and the caches it leaves behind are right again.
\<close>

theorem relate_exact:
  assumes "closed_env env" "src \<in> ids env" "tgt \<in> ids env"
    and "engine_inv (related_keys env allow) allow rl" "rl_stack rl = {}"
    and "relate n env src tgt kind w {} rl = Answer (r, assumed, rl')"
  shows "(is_yes r \<longleftrightarrow> related env allow src tgt kind) \<and> assumed = {} \<and> rl_stack rl' = {} \<and>
    engine_inv (related_keys env allow) allow rl'"
  using arena.verdict [OF arena.intro [OF assms(1)] assms(2-6)] by blast

theorem relate_exact_witness: "related sample_env False 23 24 Rel_Assignable"
proof -
  have "verdict_of (relate 10 sample_env 23 24 Rel_Assignable False {} (relater_planned rc_new)) = Some True" by code_simp
  then obtain r x y where "relate 10 sample_env 23 24 Rel_Assignable False {} (relater_planned rc_new) = Answer (r, x, y)" "is_yes r"
    using verdict_of_Some by blast
  then show ?thesis
    using relate_exact [OF sample_closed, of 23 24 False "relater_planned rc_new"] by (simp add: sample_ids)
qed

text \<open>
  C28: the recursion of \<open>relate\<close> ends on every pair of types of a closed arena, cyclic ones included:
  with enough fuel it answers, it does not panic, and it is then never out of fuel again.
\<close>

theorem relate_terminates:
  assumes "closed_env env" "src \<in> ids env" "tgt \<in> ids env" "engine_inv (related_keys env allow) allow rl"
  shows "\<exists>m. \<forall>n\<ge>m. \<exists>r assumed rl'. relate n env src tgt kind w {} rl = Answer (r, assumed, rl')"
  by (rule arena.returns_eventually [OF arena.intro [OF assms(1)] assms(2-4)])

theorem relate_terminates_witness:
  "\<exists>m. \<forall>n\<ge>m. \<exists>r assumed rl'. relate n sample_env 24 23 Rel_Subtype True {} (relater_planned rc_new) = Answer (r, assumed, rl')"
  using relate_terminates [OF sample_closed, of 24 23 False "relater_planned rc_new"]
  by (simp add: sample_ids)







section \<open>What the relation says\<close>

lemma plain_arenaI: "plain_env env \<Longrightarrow> plain_arena env"
  by (simp add: plain_arena_def plain_arena_axioms_def arena_def plain_env_def)

lemma sample_plain: "plain_env sample_env"
proof -
  have rows: "store_rows (re_store sample_env) = sample_rows"
    using store_of_rows [of sample_rows] by (simp add: sample_env_def env_of_def sample_rows_def intrinsic_all_def)
  have "list_all (\<lambda>k. nth_opt sample_rows (unat (intrinsic_id (well_known_of_ids (map word_of_nat [0..<19])) k)) = Some (Row_Intrinsic k)) intrinsic_all"
    by code_simp
  then have "row sample_env (intrinsic_id (re_well_known sample_env) k) = Some (Row_Intrinsic k)" for k
    using intrinsic_all_complete(1) rows by (simp add: row_def list_all_iff sample_env_def env_of_def)
  then show ?thesis using sample_closed by (simp add: plain_env_def) (simp add: sample_env_def env_of_def)
qed

interpretation sample: plain_arena sample_env
  by (rule plain_arenaI [OF sample_plain])

lemma sample_row: "row sample_env t = nth_opt sample_rows (unat t)"
  using store_of_rows [of sample_rows] by (simp add: row_def sample_env_def env_of_def sample_rows_def intrinsic_all_def)

lemma sample_at:
  "row sample_env 1 = Some (Row_Intrinsic Kind_Any)"
  "row sample_env 8 = Some (Row_Intrinsic Kind_Number)"
  "row sample_env 19 = Some (Row_Object (object_with [optional_property ''a'' 8]))"
  "row sample_env 22 = Some (Row_Object (object_with [property_public ''a'' 8]))"
  "row sample_env 25 = Some (Row_Union [8, 9])"
  "row sample_env 26 = Some (Row_Object (object_with [property_public ''a'' 8, property_public ''b'' 9]))"
  unfolding sample_row by code_simp+

text \<open>
  The lattice of the relation. The error type is related to everything both ways, \<open>never\<close> is below
  everything, \<open>any\<close> is above everything and below everything but \<open>never\<close>, and every type is related to
  itself.
\<close>

theorem relation_lattice:
  assumes "plain_env env" "row env s = Some rs" "row env t = Some rt"
    and "s = t \<or> rs = Row_Intrinsic Kind_Error \<or> rt = Row_Intrinsic Kind_Error \<or> s = wk_never (re_well_known env) \<or>
      rt = Row_Intrinsic Kind_Any \<or> rs = Row_Intrinsic Kind_Any \<and> t \<noteq> wk_never (re_well_known env)"
  shows "related env allow s t kind"
  using assms(4) plain_arena.lattice [OF plain_arenaI [OF assms(1)] assms(2,3)] plain_arena.related_refl [OF plain_arenaI [OF assms(1)]]
  by blast

theorem relation_lattice_witness: "related sample_env True 1 25 Rel_Assignable"
proof -
  have "wk_never (re_well_known sample_env) = 3" by code_simp
  then show ?thesis using relation_lattice [OF sample_plain sample_at(1,5)] by simp
qed

text \<open>
  A union source is related to a target exactly when every member is, a member that the target
  union lists being accepted by the merge of the two sorted member lists.
\<close>

theorem related_union_source:
  assumes "plain_env env" "row env s = Some (Row_Union ms)" "row env t = Some rt" "s \<noteq> t" "sorted ms"
    and "\<not> absorbing_row rt" "\<not> deferred_row rt" "\<And>ts. rt = Row_Union ts \<Longrightarrow> sorted ts"
  shows "related env allow s t kind \<longleftrightarrow>
    (\<forall>m\<in>set ms. (\<exists>ts. rt = Row_Union ts \<and> m \<in> set ts) \<or> related env allow m t kind)"
  by (rule plain_arena.union_source [OF plain_arenaI [OF assms(1)] assms(2-6) _ assms(8)]) (simp_all add: assms(7))

theorem related_union_source_witness: "\<not> related sample_env False 25 22 Rel_Assignable"
proof -
  have "verdict_of (relate 10 sample_env 8 22 Rel_Assignable False {} (relater_planned rc_new)) = Some False" by code_simp
  then have "\<not> related sample_env False 8 22 Rel_Assignable" using sample_verdict by simp
  then show ?thesis
    using related_union_source [OF sample_plain sample_at(5,4), of False Rel_Assignable]
    by (simp add: absorbing_row_def deferred_row_def)
qed

text \<open>
  A source that is not itself a union, a deferred type or absorbing is related to a union exactly
  when it is related to one of the members.
\<close>

theorem related_union_target:
  assumes "plain_env env" "row env s = Some rs" "row env t = Some (Row_Union ts)" "\<not> absorbing_row rs"
    and "rs \<noteq> Row_Intrinsic Kind_Never" "\<not> deferred_row rs" "row_tag rs \<noteq> Tag_Union"
    and "\<And>ms. rs = Row_Intersection ms \<Longrightarrow> t \<notin> set ms"
  shows "related env allow s t kind \<longleftrightarrow> (\<exists>m\<in>set ts. related env allow s m kind)"
  by (rule plain_arena.union_target [OF plain_arenaI [OF assms(1)] assms(2-8)])

theorem related_union_target_witness: "related sample_env False 8 25 Rel_Subtype"
  using related_union_target [OF sample_plain sample_at(2,5), of False Rel_Subtype]
    sample.related_refl
  by (simp add: absorbing_row_def deferred_row_def)

text \<open>
  C32: structural typing of object types. An object type is related to one with named properties only
  exactly when each property of the target has a source property of its key with a fitting nominal
  origin, present wherever the target requires it, and of a related type; a property the source lacks
  must be optional in the target. The single merge walk over both sorted lists decides this.
\<close>

theorem related_object_structure:
  assumes "plain_env env" "row env s = Some (Row_Object so)" "row env t = Some (Row_Object ob)" "s \<noteq> t"
    and "sorted (map pr_key (ob_properties so))" "sorted (map pr_key (ob_properties ob))"
    and "ob_string_index ob = None" "ob_number_index ob = None" "ob_call_signatures ob = []" "ob_construct_signatures ob = []"
  shows "related env allow s t kind \<longleftrightarrow>
    (\<forall>p\<in>set (ob_properties ob). case object_property_by_key so (pr_key p) of
       None \<Rightarrow> pr_optional p
     | Some q \<Rightarrow> nominal_origin_ok p q \<and> (pr_optional q \<longrightarrow> pr_optional p) \<and> related env allow (pr_ty q) (pr_ty p) kind)"
  unfolding object_property_by_key_def
  by (rule plain_arena.related_objects [OF plain_arenaI [OF assms(1)] assms(2-10)])

theorem related_object_structure_witness:
  "related sample_env False 26 22 Rel_Assignable \<and> \<not> related sample_env False 19 22 Rel_Assignable"
  using related_object_structure [OF sample_plain sample_at(6,4), of False Rel_Assignable]
    related_object_structure [OF sample_plain sample_at(3,4), of False Rel_Assignable]
    sample.related_refl
  by (simp add: object_with_def object_default_def optional_property_def property_public_def object_property_by_key_def)

section \<open>A divergence\<close>


end
