(* ===== verification/Substitute_Summary.thy ===== *)
theory Substitute_Summary
  imports Interner_Machine
begin

text \<open>
  Crate \<^verbatim>\<open>typokat-types\<close>, module \<^verbatim>\<open>types/substitute/mod.rs\<close>, first half: the graph a substitution walks
  and \<open>compute_application_summaries\<close>, which finds for every type reachable from a root its free
  parameters and whether it retains the whole mapper. The computation is a discovery phase over a
  stack and a propagation phase over a work list; both are partial functions that are proved to
  return, and their result is the least fixed point stated by two inductive predicates.
\<close>

section \<open>The graph\<close>

text \<open>The arms that may put their id on the stack of types in progress.\<close>

definition tag_can_reenter :: "type_tag \<Rightarrow> bool" where
  "tag_can_reenter t \<longleftrightarrow> t \<in> {Tag_Object, Tag_Function, Tag_Union, Tag_Intersection}"

definition opt_ids :: "type_id option \<Rightarrow> type_id list" where
  "opt_ids x = (case x of None \<Rightarrow> [] | Some t \<Rightarrow> [t])"

text \<open>The payload of a row when it is there, and no child otherwise.\<close>

definition children_of :: "'a option option \<Rightarrow> ('a \<Rightarrow> type_id list) \<Rightarrow> type_id list option" where
  "children_of found f = map_option (\<lambda>x. case x of None \<Rightarrow> [] | Some y \<Rightarrow> f y) found"

definition for_each_apply_child :: "store \<Rightarrow> type_id \<Rightarrow> type_id list option" where
  "for_each_apply_child st ty = do {
     tg \<leftarrow> tag st ty;
     (case tg of
        Tag_Declared \<Rightarrow> children_of (declared_type_of st ty) (\<lambda>d. map snd (de_mapper d))
      | Tag_Object \<Rightarrow> children_of (object_type_of st ty) (\<lambda>ob.
          concat (map (\<lambda>p. pr_ty p # opt_ids (pr_write_ty p)) (ob_properties ob)) @
          opt_ids (ob_string_index ob) @ opt_ids (ob_number_index ob) @
          ob_call_signatures ob @ ob_construct_signatures ob)
      | Tag_Function \<Rightarrow> children_of (function_type_of st ty) (\<lambda>f.
          concat (map (\<lambda>g. opt_ids (gp_constraint g) @ opt_ids (gp_default g)) (fn_type_params f)) @
          map pa_ty (fn_params f) @ opt_ids (fn_receiver f) @ [fn_ret f])
      | Tag_Union \<Rightarrow> children_of (union_members st ty) id
      | Tag_Intersection \<Rightarrow> children_of (intersection_members st ty) id
      | Tag_Array \<Rightarrow> children_of (array_type_of st ty) (\<lambda>e. [e])
      | Tag_Tuple \<Rightarrow> children_of (tuple_type_of st ty)
          (\<lambda>tu. tu_elements tu @ opt_ids (map_option tr_ty (tu_rest tu)))
      | Tag_Readonly \<Rightarrow> children_of (readonly_operand st ty) (\<lambda>t. [t])
      | Tag_Keyof \<Rightarrow> children_of (keyof_operand st ty) (\<lambda>t. [t])
      | Tag_DeferredIndexedAccess \<Rightarrow> children_of (deferred_indexed_access_type_of st ty)
          (\<lambda>d. [di_object d, di_index d])
      | Tag_Template \<Rightarrow> children_of (template_type_of st ty) te_holes
      | Tag_Conditional \<Rightarrow> children_of (conditional_type_of st ty)
          (\<lambda>c. [co_check c, co_extends_ty c, co_true_branch c, co_false_branch c])
      | Tag_Instantiation \<Rightarrow> children_of (instantiation_type_of st ty) (\<lambda>i. map snd (in_args i))
      | Tag_ClassInstance \<Rightarrow> children_of (class_instance_type_of st ty) ci_args
      | Tag_Mapped \<Rightarrow> children_of (mapped_type_of st ty)
          (\<lambda>m. [ma_key_source m, ma_value_template m] @ opt_ids (ma_modifiers_source m))
      | _ \<Rightarrow> Some [])
   }"

definition retains_full_mapper :: "store \<Rightarrow> type_id \<Rightarrow> bool option" where
  "retains_full_mapper st ty = do {
     tg \<leftarrow> tag st ty;
     (case tg of
        Tag_Conditional \<Rightarrow> map_option (\<lambda>c. case c of None \<Rightarrow> False
          | Some c \<Rightarrow> co_distributive c \<and> \<not> co_poisoned c) (conditional_type_of st ty)
      | Tag_Mapped \<Rightarrow> map_option (\<lambda>m. case m of None \<Rightarrow> False | Some m \<Rightarrow> ma_homomorphic m) (mapped_type_of st ty)
      | _ \<Rightarrow> Some False)
   }"

text \<open>
  The parameters a node contributes itself: a type parameter its own id, a declared application
  those of its recipe that its mapper does not bind.
\<close>

definition own_parameters :: "store \<Rightarrow> type_id \<Rightarrow> type_param_id list option" where
  "own_parameters st ty = do {
     p \<leftarrow> type_param_of st ty;
     d \<leftarrow> declared_type_of st ty;
     Some ((case p of None \<Rightarrow> [] | Some p \<Rightarrow> [tp_id p]) @
       (case d of None \<Rightarrow> [] | Some d \<Rightarrow>
         (case declared_recipe st (de_recipe d) of None \<Rightarrow> []
          | Some recipe \<Rightarrow> filter (\<lambda>q. q \<notin> fst ` set (de_mapper d)) (dr_free_params recipe))))
   }"

definition node_binders :: "store \<Rightarrow> type_id \<Rightarrow> type_param_id list option" where
  "node_binders st ty =
     map_option (\<lambda>f. case f of None \<Rightarrow> [] | Some f \<Rightarrow> map gp_id (fn_type_params f)) (function_type_of st ty)"

section \<open>Discovery\<close>

text \<open>The head of \<open>sg_pending\<close> is the top of the stack.\<close>

record summary_graph =
  sg_pending :: "type_id list"
  sg_discovered :: "type_id fset"
  sg_parents :: "(type_id, type_id list) fmap"
  sg_binders :: "(type_id, type_param_id list) fmap"
  sg_values :: "(type_id, type_param_id fset) fmap"
  sg_full_mapper :: "type_id fset"

definition entry_or :: "'v \<Rightarrow> ('k, 'v) fmap \<Rightarrow> 'k \<Rightarrow> 'v" where
  "entry_or d m k = (case fmlookup m k of None \<Rightarrow> d | Some v \<Rightarrow> v)"

definition add_values :: "type_id \<Rightarrow> type_param_id fset \<Rightarrow> summary_graph \<Rightarrow> summary_graph" where
  "add_values ty ps g = g\<lparr>sg_values := fmupd ty (entry_or {||} (sg_values g) ty |\<union>| ps) (sg_values g)\<rparr>"

text \<open>Both cached facts of a type; the interner aligns its caches on the way.\<close>

definition cached_summary :: "interner \<Rightarrow> type_id \<Rightarrow> (type_param_id list \<times> application_key_mode) option \<times> interner" where
  "cached_summary it ty =
     (let (free_params, it) = free_param_summary it ty;
          (key_mode, it) = application_key_mode_of it ty
      in (case (free_params, key_mode) of (Some f, Some k) \<Rightarrow> Some (f, k) | _ \<Rightarrow> None, it))"

fun visit_children :: "type_id \<Rightarrow> type_param_id list \<Rightarrow> type_id list \<Rightarrow> interner \<Rightarrow> summary_graph \<Rightarrow> interner \<times> summary_graph" where
  "visit_children ty binders [] it g = (it, g)"
| "visit_children ty binders (child # children) it g =
     (case cached_summary it child of
        (Some (summary, key_mode), it) \<Rightarrow>
          let g = add_values ty (fset_of_list (filter (\<lambda>p. p \<notin> set binders) summary)) g;
              g = (if key_mode = Mode_FullMap then g\<lparr>sg_full_mapper := finsert ty (sg_full_mapper g)\<rparr> else g)
          in visit_children ty binders children it g
      | (None, it) \<Rightarrow>
          let g = g\<lparr>sg_parents := fmupd child (entry_or [] (sg_parents g) child @ [ty]) (sg_parents g)\<rparr>;
              g = (if child |\<in>| sg_discovered g then g
                   else g\<lparr>sg_discovered := finsert child (sg_discovered g), sg_pending := child # sg_pending g\<rparr>)
          in visit_children ty binders children it g)"

definition discover_node :: "interner \<Rightarrow> type_id \<Rightarrow> summary_graph \<Rightarrow> (interner \<times> summary_graph) option" where
  "discover_node it ty g = do {
     own \<leftarrow> own_parameters (it_store it) ty;
     binders \<leftarrow> node_binders (it_store it) ty;
     children \<leftarrow> for_each_apply_child (it_store it) ty;
     retains \<leftarrow> retains_full_mapper (it_store it) ty;
     let g = add_values ty (fset_of_list own) g;
     let g = (if retains then g\<lparr>sg_full_mapper := finsert ty (sg_full_mapper g)\<rparr> else g);
     let g = g\<lparr>sg_binders := fmupd ty binders (sg_binders g)\<rparr>;
     Some (visit_children ty binders children it g)
   }"

partial_function (option) discover :: "interner \<Rightarrow> summary_graph \<Rightarrow> (interner \<times> summary_graph) option" where [code]:
  "discover it g =
     (case sg_pending g of
        [] \<Rightarrow> Some (it, g)
      | ty # rest \<Rightarrow> do {
          (it, g) \<leftarrow> discover_node it ty (g\<lparr>sg_pending := rest\<rparr>);
          discover it g
        })"

section \<open>Propagation\<close>

text \<open>
  One edge: the parent takes what the child has and does not bind itself. The work list is a stack
  with its set of queued types; a missing binder entry is the failed \<open>expect\<close>.
\<close>

record propagation =
  pg_graph :: summary_graph
  pg_propagate :: "type_id list"
  pg_queued :: "type_id fset"

definition feed_parent :: "type_param_id fset \<Rightarrow> bool \<Rightarrow> type_id \<Rightarrow> propagation \<Rightarrow> propagation option" where
  "feed_parent parameters child_retains parent pg = do {
     binders \<leftarrow> fmlookup (sg_binders (pg_graph pg)) parent;
     let old = entry_or {||} (sg_values (pg_graph pg)) parent;
     let new = old |\<union>| ffilter (\<lambda>p. p \<notin> set binders) parameters;
     let full = sg_full_mapper (pg_graph pg);
     let changed = (new \<noteq> old \<or> child_retains \<and> parent |\<notin>| full);
     let pg = pg\<lparr>pg_graph := (pg_graph pg)\<lparr>sg_values := fmupd parent new (sg_values (pg_graph pg)),
                                 sg_full_mapper := (if child_retains then finsert parent full else full)\<rparr>\<rparr>;
     Some (if changed \<and> parent |\<notin>| pg_queued pg
           then pg\<lparr>pg_queued := finsert parent (pg_queued pg), pg_propagate := parent # pg_propagate pg\<rparr> else pg)
   }"

fun feed_parents :: "type_param_id fset \<Rightarrow> bool \<Rightarrow> type_id list \<Rightarrow> propagation \<Rightarrow> propagation option" where
  "feed_parents parameters child_retains [] pg = Some pg"
| "feed_parents parameters child_retains (parent # parents) pg = do {
     pg \<leftarrow> feed_parent parameters child_retains parent pg;
     feed_parents parameters child_retains parents pg
   }"

partial_function (option) propagate :: "propagation \<Rightarrow> propagation option" where [code]:
  "propagate pg =
     (case pg_propagate pg of
        [] \<Rightarrow> Some pg
      | ty # rest \<Rightarrow> do {
          let g = pg_graph pg;
          pg \<leftarrow> feed_parents (entry_or {||} (sg_values g) ty) (ty |\<in>| sg_full_mapper g)
                 (entry_or [] (sg_parents g) ty)
                 (pg\<lparr>pg_propagate := rest, pg_queued := pg_queued pg |-| {|ty|}\<rparr>);
          propagate pg
        })"

text \<open>
  The types with something to pass on. The code lists them in the order of a hash map, here in the
  order of the ids; the theorem on \<open>propagate\<close> holds for every order.
\<close>

definition initial_propagation :: "summary_graph \<Rightarrow> propagation" where
  "initial_propagation g =
     (let propagate = filter (\<lambda>ty. entry_or {||} (sg_values g) ty \<noteq> {||} \<or> ty |\<in>| sg_full_mapper g)
                        (sorted_list_of_fset (fmdom (sg_values g)))
      in \<lparr>pg_graph = g, pg_propagate = propagate, pg_queued = fset_of_list propagate\<rparr>)"

section \<open>Summaries\<close>

record application_summary =
  as_free_params :: "type_param_id list"
  as_key_mode :: application_key_mode

definition summary_of :: "summary_graph \<Rightarrow> type_id \<Rightarrow> type_param_id list" where
  "summary_of g ty = sorted_list_of_fset (entry_or {||} (sg_values g) ty)"

definition key_mode_in :: "summary_graph \<Rightarrow> type_id \<Rightarrow> application_key_mode" where
  "key_mode_in g ty = (if ty |\<in>| sg_full_mapper g then Mode_FullMap else Mode_RelevantOnly)"

definition start_graph :: "type_id \<Rightarrow> summary_graph" where
  "start_graph root = \<lparr>sg_pending = [root], sg_discovered = {|root|}, sg_parents = fmempty, sg_binders = fmempty,
     sg_values = fmempty, sg_full_mapper = {||}\<rparr>"

definition compute_application_summaries :: "interner \<Rightarrow> type_id \<Rightarrow> (application_summary \<times> interner) option" where
  "compute_application_summaries it root =
     (case cached_summary it root of
        (Some (free_params, key_mode), it) \<Rightarrow> Some (\<lparr>as_free_params = free_params, as_key_mode = key_mode\<rparr>, it)
      | (None, it) \<Rightarrow> do {
          (it, g) \<leftarrow> discover it (start_graph root);
          pg \<leftarrow> propagate (initial_propagation g);
          let g = pg_graph pg;
          let tys = sorted_list_of_fset (sg_discovered g);
          let it = publish_free_param_summaries it (map (\<lambda>ty. (ty, summary_of g ty)) tys);
          let it = publish_application_key_modes it (map (\<lambda>ty. (ty, key_mode_in g ty)) tys);
          Some (\<lparr>as_free_params = summary_of g root, as_key_mode = key_mode_in g root\<rparr>, it)
        })"

definition derived_free_params :: "interner \<Rightarrow> type_id \<Rightarrow> (type_param_id list \<times> interner) option" where
  "derived_free_params it ty = map_option (map_prod as_free_params id) (compute_application_summaries it ty)"


section \<open>Free parameters and retained mappers, as least fixed points\<close>

fun row_targets :: "ty_row \<Rightarrow> type_id list" where
  "row_targets (Row_Declared d) = map snd (de_mapper d)"
| "row_targets (Row_Object ob) =
     concat (map (\<lambda>p. pr_ty p # opt_ids (pr_write_ty p)) (ob_properties ob)) @
     opt_ids (ob_string_index ob) @ opt_ids (ob_number_index ob) @
     ob_call_signatures ob @ ob_construct_signatures ob"
| "row_targets (Row_Function f) =
     concat (map (\<lambda>g. opt_ids (gp_constraint g) @ opt_ids (gp_default g)) (fn_type_params f)) @
     map pa_ty (fn_params f) @ opt_ids (fn_receiver f) @ [fn_ret f]"
| "row_targets (Row_Union ms) = ms"
| "row_targets (Row_Intersection ms) = ms"
| "row_targets (Row_Array e) = [e]"
| "row_targets (Row_Tuple tu) = tu_elements tu @ opt_ids (map_option tr_ty (tu_rest tu))"
| "row_targets (Row_Readonly t) = [t]"
| "row_targets (Row_Keyof t) = [t]"
| "row_targets (Row_DeferredIndexedAccess d) = [di_object d, di_index d]"
| "row_targets (Row_Template te) = te_holes te"
| "row_targets (Row_Conditional c) = [co_check c, co_extends_ty c, co_true_branch c, co_false_branch c]"
| "row_targets (Row_Instantiation i) = map snd (in_args i)"
| "row_targets (Row_ClassInstance c) = ci_args c"
| "row_targets (Row_Mapped m) = [ma_key_source m, ma_value_template m] @ opt_ids (ma_modifiers_source m)"
| "row_targets _ = []"

fun row_own :: "store \<Rightarrow> ty_row \<Rightarrow> type_param_id set" where
  "row_own st (Row_TypeParam p) = {tp_id p}"
| "row_own st (Row_Declared d) =
     (case declared_recipe st (de_recipe d) of None \<Rightarrow> {}
      | Some recipe \<Rightarrow> set (dr_free_params recipe) - fst ` set (de_mapper d))"
| "row_own st _ = {}"

fun row_binders :: "ty_row \<Rightarrow> type_param_id list" where
  "row_binders (Row_Function f) = map gp_id (fn_type_params f)"
| "row_binders _ = []"

fun row_retains :: "ty_row \<Rightarrow> bool" where
  "row_retains (Row_Conditional c) \<longleftrightarrow> co_distributive c \<and> \<not> co_poisoned c"
| "row_retains (Row_Mapped m) \<longleftrightarrow> ma_homomorphic m"
| "row_retains _ \<longleftrightarrow> False"

abbreviation st_row :: "store \<Rightarrow> type_id \<Rightarrow> ty_row option" where
  "st_row st t \<equiv> nth_opt (store_rows st) (unat t)"

text \<open>A parameter is free in a type when the type has it itself or a child does and no binder of the
  type captures it.\<close>

inductive free_in :: "store \<Rightarrow> type_param_id \<Rightarrow> type_id \<Rightarrow> bool" for st p where
  own: "st_row st t = Some r \<Longrightarrow> p \<in> row_own st r \<Longrightarrow> free_in st p t"
| child: "st_row st t = Some r \<Longrightarrow> c \<in> set (row_targets r) \<Longrightarrow> free_in st p c \<Longrightarrow>
    p \<notin> set (row_binders r) \<Longrightarrow> free_in st p t"

inductive retains :: "store \<Rightarrow> type_id \<Rightarrow> bool" for st where
  here: "st_row st t = Some r \<Longrightarrow> row_retains r \<Longrightarrow> retains st t"
| below: "st_row st t = Some r \<Longrightarrow> c \<in> set (row_targets r) \<Longrightarrow> retains st c \<Longrightarrow> retains st t"

inductive_simps free_in_iff: "free_in st p t"
inductive_simps retains_iff: "retains st t"

lemma node_facts:
  assumes "store_inv st" "st_row st t = Some r"
  shows "for_each_apply_child st t = Some (row_targets r)"
    "\<exists>own. own_parameters st t = Some own \<and> set own = row_own st r"
    "node_binders st t = Some (row_binders r)"
    "retains_full_mapper st t = Some (row_retains r)"
  by (cases r; simp add: for_each_apply_child_def own_parameters_def node_binders_def retains_full_mapper_def
      children_of_def accessor_rows [OF assms(1)] assms(2) set_diff_eq split: option.split)+

section \<open>Cached facts\<close>

definition aligned :: "interner \<Rightarrow> interner" where
  "aligned it = it\<lparr>it_free_param_summaries :=
       fp_align_with (it_free_param_summaries it) (st_semantic_graph_identity (it_store it)),
     it_application_key_modes :=
       gc_align_with (it_application_key_modes it) (st_semantic_graph_identity (it_store it))\<rparr>"

definition cached_in :: "interner \<Rightarrow> type_id \<Rightarrow> (type_param_id list \<times> application_key_mode) option" where
  "cached_in it ty =
     (case (fp_get (it_free_param_summaries it) ty, gc_get (it_application_key_modes it) ty) of
        (Some f, Some k) \<Rightarrow> Some (f, k) | _ \<Rightarrow> None)"

lemma cached_summary_aligned: "cached_summary it ty = (cached_in (aligned it) ty, aligned it)"
  by (simp add: cached_summary_def free_param_summary_def application_key_mode_of_def aligned_def cached_in_def Let_def
      split: option.split)

lemma aligned_twice [simp]: "aligned (aligned it) = aligned it"
  by (simp add: aligned_def fp_align_with_def gc_align_with_def)

lemma aligned_same [simp]: "it_store (aligned it) = it_store it"
  by (simp add: aligned_def)

text \<open>The summary of a type, and caches that hold only summaries.\<close>

definition exact_params :: "store \<Rightarrow> type_id \<Rightarrow> type_param_id list \<Rightarrow> bool" where
  "exact_params st ty f \<longleftrightarrow> st_row st ty \<noteq> None \<and> sorted f \<and> distinct f \<and> set f = {p. free_in st p ty}"

definition exact_mode :: "store \<Rightarrow> type_id \<Rightarrow> application_key_mode \<Rightarrow> bool" where
  "exact_mode st ty k \<longleftrightarrow> st_row st ty \<noteq> None \<and> (k = Mode_FullMap \<longleftrightarrow> retains st ty)"

definition summaries_exact :: "interner \<Rightarrow> bool" where
  "summaries_exact it \<longleftrightarrow>
     (\<forall>ty f. fp_get (it_free_param_summaries (aligned it)) ty = Some f \<longrightarrow> exact_params (it_store it) ty f) \<and>
     (\<forall>ty k. gc_get (it_application_key_modes (aligned it)) ty = Some k \<longrightarrow> exact_mode (it_store it) ty k)"

lemma cached_exact:
  "summaries_exact it \<Longrightarrow> cached_in (aligned it) ty = Some (f, k) \<Longrightarrow>
     exact_params (it_store it) ty f \<and> exact_mode (it_store it) ty k"
  by (auto simp: summaries_exact_def cached_in_def split: option.splits)

section \<open>Discovery closes the graph\<close>

definition val :: "summary_graph \<Rightarrow> type_id \<Rightarrow> type_param_id set" where
  "val g t = fset (entry_or {||} (sg_values g) t)"

definition parents_of :: "summary_graph \<Rightarrow> type_id \<Rightarrow> type_id list" where
  "parents_of g t = entry_or [] (sg_parents g) t"

lemma entry_or_upd [simp]: "entry_or d (fmupd k v m) x = (if x = k then v else entry_or d m x)"
  by (simp add: entry_or_def)

lemma val_add [simp]: "val (add_values ty ps g) t = (if t = ty then val g t \<union> fset ps else val g t)"
  by (simp add: val_def add_values_def)

text \<open>What the cached children of a node contribute to it.\<close>

definition cached_values :: "interner \<Rightarrow> type_param_id list \<Rightarrow> type_id list \<Rightarrow> type_param_id set" where
  "cached_values it bs cs = {p. \<exists>c f k. c \<in> set cs \<and> cached_in it c = Some (f, k) \<and> p \<in> set f \<and> p \<notin> set bs}"

definition cached_full :: "interner \<Rightarrow> type_id list \<Rightarrow> bool" where
  "cached_full it cs \<longleftrightarrow> (\<exists>c f. c \<in> set cs \<and> cached_in it c = Some (f, Mode_FullMap))"

definition uncached :: "interner \<Rightarrow> type_id list \<Rightarrow> type_id set" where
  "uncached it cs = {c \<in> set cs. cached_in it c = None}"

lemma cached_Nil [simp]: "cached_values it bs [] = {}" "\<not> cached_full it []" "uncached it [] = {}"
  by (simp_all add: cached_values_def cached_full_def uncached_def)

lemma cached_Cons:
  "cached_values it bs (c # cs) =
     (case cached_in it c of None \<Rightarrow> {} | Some (f, k) \<Rightarrow> set f - set bs) \<union> cached_values it bs cs"
  "cached_full it (c # cs) \<longleftrightarrow> (\<exists>f. cached_in it c = Some (f, Mode_FullMap)) \<or> cached_full it cs"
  "uncached it (c # cs) = (if cached_in it c = None then {c} else {}) \<union> uncached it cs"
  by (auto simp: cached_values_def cached_full_def uncached_def split: option.splits)

definition visited :: "interner \<Rightarrow> type_id \<Rightarrow> type_param_id list \<Rightarrow> type_id list \<Rightarrow> summary_graph \<Rightarrow> summary_graph \<Rightarrow> bool" where
  "visited it ty bs cs g g' \<longleftrightarrow>
     (\<exists>news. sg_pending g' = news @ sg_pending g \<and> distinct news \<and>
        set news = uncached it cs - fset (sg_discovered g)) \<and>
     fset (sg_discovered g') = fset (sg_discovered g) \<union> uncached it cs \<and>
     (\<forall>c. set (parents_of g' c) = set (parents_of g c) \<union> (if c \<in> uncached it cs then {ty} else {})) \<and>
     sg_binders g' = sg_binders g \<and> fmdom (sg_values g') = fmdom (sg_values g) \<and>
     (\<forall>t. val g' t = val g t \<union> (if t = ty then cached_values it bs cs else {})) \<and>
     fset (sg_full_mapper g') = fset (sg_full_mapper g) \<union> (if cached_full it cs then {ty} else {})"

lemma visit_children_spec:
  assumes "aligned it = it" "ty |\<in>| fmdom (sg_values g)"
  shows "\<exists>g'. visit_children ty bs cs it g = (it, g') \<and> visited it ty bs cs g g'"
  using assms(2)
proof (induction cs arbitrary: g)
  case Nil
  show ?case by (simp add: visited_def)
next
  case (Cons c cs)
  show ?case
  proof (cases "cached_in it c")
    case None
    define g1 where "g1 = g\<lparr>sg_parents := fmupd c (entry_or [] (sg_parents g) c @ [ty]) (sg_parents g)\<rparr>"
    define g2 where "g2 = (if c |\<in>| sg_discovered g1 then g1
        else g1\<lparr>sg_discovered := finsert c (sg_discovered g1), sg_pending := c # sg_pending g1\<rparr>)"
    have run: "visit_children ty bs (c # cs) it g = visit_children ty bs cs it g2"
      by (simp add: cached_summary_aligned assms(1) None g1_def g2_def Let_def)
    have "ty |\<in>| fmdom (sg_values g2)" using Cons.prems by (simp add: g2_def g1_def)
    from Cons.IH [OF this] obtain g' where g': "visit_children ty bs cs it g2 = (it, g')" "visited it ty bs cs g2 g'" by blast
    have "visited it ty bs (c # cs) g g'"
    proof -
      from g'(2) obtain news where news: "sg_pending g' = news @ sg_pending g2" "distinct news"
          "set news = uncached it cs - fset (sg_discovered g2)" by (auto simp: visited_def)
      have "\<exists>news. sg_pending g' = news @ sg_pending g \<and> distinct news \<and>
          set news = uncached it (c # cs) - fset (sg_discovered g)"
      proof (cases "c |\<in>| sg_discovered g")
        case True
        with news show ?thesis by (intro exI [of _ news]) (auto simp: g2_def g1_def cached_Cons None)
      next
        case False
        with news show ?thesis by (intro exI [of _ "news @ [c]"]) (auto simp: g2_def g1_def cached_Cons None)
      qed
      with g'(2) show ?thesis
        by (auto simp: visited_def g2_def g1_def cached_Cons None parents_of_def val_def split: if_splits)
    qed
    with run g'(1) show ?thesis by simp
  next
    case (Some fk)
    obtain f k where fk: "fk = (f, k)" by fastforce
    define g1 where "g1 = add_values ty (fset_of_list (filter (\<lambda>p. p \<notin> set bs) f)) g"
    define g2 where "g2 = (if k = Mode_FullMap then g1\<lparr>sg_full_mapper := finsert ty (sg_full_mapper g1)\<rparr> else g1)"
    have run: "visit_children ty bs (c # cs) it g = visit_children ty bs cs it g2"
      by (simp add: cached_summary_aligned assms(1) Some fk g1_def g2_def Let_def)
    have "ty |\<in>| fmdom (sg_values g2)" using Cons.prems by (simp add: g2_def g1_def add_values_def)
    from Cons.IH [OF this] obtain g' where g': "visit_children ty bs cs it g2 = (it, g')" "visited it ty bs cs g2 g'" by blast
    have v: "val g2 t = val g t \<union> (if t = ty then set f - set bs else {})" for t
      by (auto simp: g2_def g1_def val_def add_values_def fset_of_list.rep_eq)
    have rest: "sg_pending g2 = sg_pending g" "sg_discovered g2 = sg_discovered g" "parents_of g2 = parents_of g"
        "sg_binders g2 = sg_binders g" "fmdom (sg_values g2) = fmdom (sg_values g)"
        "fset (sg_full_mapper g2) = fset (sg_full_mapper g) \<union> (if k = Mode_FullMap then {ty} else {})"
      using Cons.prems by (auto simp: g2_def g1_def add_values_def parents_of_def fun_eq_iff)
    have "visited it ty bs (c # cs) g g'"
      using g'(2) unfolding visited_def rest cached_Cons Some fk v by auto
    with run g'(1) show ?thesis by simp
  qed
qed

text \<open>A store whose rows refer to rows of the store.\<close>

definition closed_store :: "store \<Rightarrow> bool" where
  "closed_store st \<longleftrightarrow> store_inv st \<and>
     list_all (\<lambda>r. list_all (\<lambda>c. unat c < store_len st) (row_targets r)) (store_rows st)"

definition processed :: "summary_graph \<Rightarrow> type_id set" where
  "processed g = fset (sg_discovered g) - set (sg_pending g)"

definition node_done :: "interner \<Rightarrow> summary_graph \<Rightarrow> type_id \<Rightarrow> bool" where
  "node_done it g t \<longleftrightarrow> (\<exists>r. st_row (it_store it) t = Some r \<and>
     val g t = row_own (it_store it) r \<union> cached_values it (row_binders r) (row_targets r) \<and>
     fmlookup (sg_binders g) t = Some (row_binders r) \<and>
     (t |\<in>| sg_full_mapper g \<longleftrightarrow> row_retains r \<or> cached_full it (row_targets r)) \<and>
     uncached it (row_targets r) \<subseteq> fset (sg_discovered g))"

definition discovery_inv :: "interner \<Rightarrow> type_id \<Rightarrow> summary_graph \<Rightarrow> bool" where
  "discovery_inv it root g \<longleftrightarrow>
     distinct (sg_pending g) \<and> set (sg_pending g) \<subseteq> fset (sg_discovered g) \<and> root |\<in>| sg_discovered g \<and>
     (\<forall>t. t |\<in>| sg_discovered g \<longrightarrow> st_row (it_store it) t \<noteq> None) \<and>
     (\<forall>t \<in> processed g. node_done it g t) \<and>
     fset (fmdom (sg_values g)) = processed g \<and> fset (fmdom (sg_binders g)) = processed g \<and>
     fset (sg_full_mapper g) \<subseteq> processed g \<and>
     (\<forall>c. set (parents_of g c) =
        {t \<in> processed g. \<exists>r. st_row (it_store it) t = Some r \<and> c \<in> uncached it (row_targets r)})"

lemma val_missing: "t |\<notin>| fmdom (sg_values g) \<Longrightarrow> val g t = {}"
  by (simp add: val_def entry_or_def fmdom_notI fmdom_lookup)

lemma closed_row:
  "closed_store st \<Longrightarrow> st_row st t = Some r \<Longrightarrow> c \<in> set (row_targets r) \<Longrightarrow> st_row st c \<noteq> None"
  using nth_mem [of "unat t" "store_rows st"]
  by (auto simp: closed_store_def list_all_iff nth_opt_eq_Some nth_opt_eq_None not_le)

lemma start_inv: "st_row (it_store it) root \<noteq> None \<Longrightarrow> discovery_inv it root (start_graph root)"
  by (auto simp: discovery_inv_def start_graph_def processed_def parents_of_def entry_or_def)

lemma discover_node_step:
  assumes al: "aligned it = it" and closed: "closed_store (it_store it)" and inv: "discovery_inv it root g"
    and pend: "sg_pending g = ty # rest"
  shows "\<exists>g'. discover_node it ty (g\<lparr>sg_pending := rest\<rparr>) = Some (it, g') \<and> discovery_inv it root g' \<and>
    fset (sg_discovered g) \<subseteq> fset (sg_discovered g') \<and>
    (fset (sg_discovered g') = fset (sg_discovered g) \<longrightarrow> sg_pending g' = rest)"
proof -
  let ?st = "it_store it" and ?D = "fset (sg_discovered g)"
  from inv pend obtain r where r: "st_row ?st ty = Some r" and ty: "ty \<in> ?D" "ty \<notin> set rest"
    by (auto simp: discovery_inv_def)
  have fresh: "ty |\<notin>| fmdom (sg_values g)" "ty |\<notin>| sg_full_mapper g" "ty \<notin> processed g"
    using inv pend by (auto simp: discovery_inv_def processed_def)
  note n = node_facts [OF _ r]
  have si: "store_inv ?st" using closed by (simp add: closed_store_def)
  from n(2) [OF si] obtain own where own: "own_parameters ?st ty = Some own" "set own = row_own ?st r" by blast
  define g1 where "g1 = add_values ty (fset_of_list own) (g\<lparr>sg_pending := rest\<rparr>)"
  define g2 where "g2 = (if row_retains r then g1\<lparr>sg_full_mapper := finsert ty (sg_full_mapper g1)\<rparr> else g1)"
  define g3 where "g3 = g2\<lparr>sg_binders := fmupd ty (row_binders r) (sg_binders g2)\<rparr>"
  have "ty |\<in>| fmdom (sg_values g3)" by (simp add: g3_def g2_def g1_def add_values_def)
  from visit_children_spec [OF al this, of "row_binders r" "row_targets r"] obtain g' where
    g': "visit_children ty (row_binders r) (row_targets r) it g3 = (it, g')"
      "visited it ty (row_binders r) (row_targets r) g3 g'" by blast
  have run: "discover_node it ty (g\<lparr>sg_pending := rest\<rparr>) = Some (it, g')"
    using g'(1) own(1) n(1,3,4) [OF si]
    by (cases "row_retains r") (simp_all add: discover_node_def g3_def g2_def g1_def Let_def)
  have g3: "sg_pending g3 = rest" "sg_discovered g3 = sg_discovered g" "parents_of g3 = parents_of g"
      "sg_binders g3 = fmupd ty (row_binders r) (sg_binders g)" "fset (fmdom (sg_values g3)) = insert ty (fset (fmdom (sg_values g)))"
      "fset (sg_full_mapper g3) = fset (sg_full_mapper g) \<union> (if row_retains r then {ty} else {})"
      "val g3 t = (if t = ty then row_own ?st r else val g t)" for t
    using val_missing [OF fresh(1)]
    by (auto simp: g3_def g2_def g1_def add_values_def parents_of_def fun_eq_iff val_def fset_of_list.rep_eq own(2))
  define U where "U = uncached it (row_targets r)"
  from g'(2) obtain news where news: "sg_pending g' = news @ rest" "distinct news" "set news = U - ?D"
    by (auto simp: visited_def g3 U_def)
  have D': "fset (sg_discovered g') = ?D \<union> U" using g'(2) by (simp add: visited_def g3 U_def)
  have U: "st_row ?st c \<noteq> None" if "c \<in> U" for c
    using closed_row [OF closed r] that by (simp add: U_def uncached_def)
  have P: "processed g' = insert ty (processed g)"
    using ty inv pend by (auto simp: processed_def D' news discovery_inv_def)
  have vis: "sg_binders g' = fmupd ty (row_binders r) (sg_binders g)"
      "fset (fmdom (sg_values g')) = insert ty (processed g)"
      "val g' t = (if t = ty then row_own ?st r \<union> cached_values it (row_binders r) (row_targets r) else val g t)"
      "fset (sg_full_mapper g') = fset (sg_full_mapper g) \<union> (if row_retains r \<or> cached_full it (row_targets r) then {ty} else {})"
      "set (parents_of g' c) = set (parents_of g c) \<union> (if c \<in> U then {ty} else {})" for t c
    using g'(2) inv by (auto simp: visited_def g3 U_def discovery_inv_def)
  have done_ty: "node_done it g' ty"
    using r vis(3) [of ty] vis(4) fresh(2) by (auto simp: node_done_def vis(1) D' U_def)
  have old: "node_done it g' t" if "t \<in> processed g" for t
  proof -
    have "node_done it g t" "t \<noteq> ty" using that inv fresh(3) by (auto simp: discovery_inv_def)
    then show ?thesis using vis(3) [of t] vis(4) by (auto simp: node_done_def vis(1) D')
  qed
  have "discovery_inv it root g'"
    unfolding discovery_inv_def P vis(2)
  proof (intro conjI allI impI ballI)
    show "distinct (sg_pending g')" using inv pend ty news by (auto simp: discovery_inv_def)
    show "set (sg_pending g') \<subseteq> fset (sg_discovered g')" using inv pend by (auto simp: discovery_inv_def news D')
    show "root |\<in>| sg_discovered g'" using inv D' by (auto simp: discovery_inv_def)
    show "st_row ?st t \<noteq> None" if "t |\<in>| sg_discovered g'" for t
      using that inv U D' by (auto simp: discovery_inv_def)
    show "node_done it g' t" if "t \<in> insert ty (processed g)" for t using that done_ty old by auto
    show "fset (fmdom (sg_binders g')) = insert ty (processed g)" using inv by (simp add: vis(1) discovery_inv_def)
    show "fset (sg_full_mapper g') \<subseteq> insert ty (processed g)" using inv by (auto simp: vis(4) discovery_inv_def)
    show "set (parents_of g' c) =
        {t \<in> insert ty (processed g). \<exists>r. st_row ?st t = Some r \<and> c \<in> uncached it (row_targets r)}" for c
      using inv r fresh(3) by (auto simp: vis(5) discovery_inv_def U_def)
  qed simp
  moreover have "fset (sg_discovered g') = ?D \<longrightarrow> sg_pending g' = rest"
  proof
    assume same: "fset (sg_discovered g') = ?D"
    have "U \<subseteq> ?D" by (metis D' same Un_upper2)
    then have "set news = {}" by (simp add: news(3))
    then show "sg_pending g' = rest" using news(1) by simp
  qed
  ultimately show ?thesis using run D' by blast
qed

lemma discover_returns:
  assumes "aligned it = it" "closed_store (it_store it)" "discovery_inv it root g"
  shows "\<exists>g'. discover it g = Some (it, g') \<and> discovery_inv it root g' \<and> sg_pending g' = []"
  using assms(3)
proof (induction "(2 ^ 32 - card (fset (sg_discovered g)), length (sg_pending g))" arbitrary: g
    rule: wf_induct_rule [OF wf_lex_prod [OF wf_less_than wf_less_than]])
  case 1
  show ?case
  proof (cases "sg_pending g")
    case Nil
    then show ?thesis using 1(2) by (subst discover.simps) simp
  next
    case (Cons ty rest)
    from discover_node_step [OF assms(1,2) 1(2) Cons] obtain g' where
      g': "discover_node it ty (g\<lparr>sg_pending := rest\<rparr>) = Some (it, g')" "discovery_inv it root g'"
        "fset (sg_discovered g) \<subseteq> fset (sg_discovered g')"
        "fset (sg_discovered g') = fset (sg_discovered g) \<Longrightarrow> sg_pending g' = rest" by blast
    have "card (fset (sg_discovered g')) \<le> card (UNIV :: type_id set)" by (rule card_mono) simp_all
    then have bound: "card (fset (sg_discovered g')) \<le> 2 ^ 32" by (simp add: card_word)
    have "((2 ^ 32 - card (fset (sg_discovered g')), length (sg_pending g')),
        (2 ^ 32 - card (fset (sg_discovered g)), length (sg_pending g))) \<in> less_than <*lex*> less_than"
    proof (cases "fset (sg_discovered g') = fset (sg_discovered g)")
      case True
      then show ?thesis using g'(4) Cons by simp
    next
      case False
      then have "card (fset (sg_discovered g)) < card (fset (sg_discovered g'))"
        using g'(3) by (intro psubset_card_mono) auto
      with bound have "2 ^ 32 - card (fset (sg_discovered g')) < 2 ^ 32 - card (fset (sg_discovered g))"
        by (intro diff_less_mono2) simp_all
      then show ?thesis by simp
    qed
    from 1(1) [OF this g'(2)] obtain g'' where "discover it g' = Some (it, g'')" "discovery_inv it root g''"
      "sg_pending g'' = []" by blast
    then show ?thesis using g'(1) Cons by (subst discover.simps) simp
  qed
qed

section \<open>Propagation reaches the fixed point\<close>

definition full_of :: "summary_graph \<Rightarrow> type_id set" where
  "full_of g = fset (sg_full_mapper g)"

text \<open>The types whose value or mapper flag a set of edges changes.\<close>

definition fed :: "(type_id \<Rightarrow> type_param_id list) \<Rightarrow> type_param_id set \<Rightarrow> bool \<Rightarrow> type_id list \<Rightarrow> summary_graph \<Rightarrow> type_id set" where
  "fed bs ps full xs g = {x \<in> set xs. \<not> ps - set (bs x) \<subseteq> val g x \<or> full \<and> x \<notin> full_of g}"

definition fed_graph :: "(type_id \<Rightarrow> type_param_id list) \<Rightarrow> type_param_id set \<Rightarrow> bool \<Rightarrow> type_id list \<Rightarrow> summary_graph \<Rightarrow> summary_graph \<Rightarrow> bool" where
  "fed_graph bs ps full xs g g' \<longleftrightarrow>
     sg_discovered g' = sg_discovered g \<and> sg_parents g' = sg_parents g \<and> sg_binders g' = sg_binders g \<and>
     (\<forall>t. val g' t = val g t \<union> (if t \<in> set xs then ps - set (bs t) else {})) \<and>
     full_of g' = full_of g \<union> (if full then set xs else {})"

lemma feed_parents_spec:
  assumes "\<And>x. x \<in> set xs \<Longrightarrow> fmlookup (sg_binders (pg_graph pg)) x = Some (bs x)"
  shows "\<exists>pg' news. feed_parents ps full xs pg = Some pg' \<and> fed_graph bs (fset ps) full xs (pg_graph pg) (pg_graph pg') \<and>
    pg_propagate pg' = news @ pg_propagate pg \<and> distinct news \<and>
    set news = fed bs (fset ps) full xs (pg_graph pg) - fset (pg_queued pg) \<and>
    fset (pg_queued pg') = fset (pg_queued pg) \<union> set news"
  using assms
proof (induction xs arbitrary: pg)
  case Nil
  show ?case by (simp add: fed_graph_def fed_def)
next
  case (Cons x xs)
  let ?g = "pg_graph pg"
  define new where "new = entry_or {||} (sg_values ?g) x |\<union>| ffilter (\<lambda>p. p \<notin> set (bs x)) ps"
  define g1 where "g1 = ?g\<lparr>sg_values := fmupd x new (sg_values ?g),
    sg_full_mapper := (if full then finsert x (sg_full_mapper ?g) else sg_full_mapper ?g)\<rparr>"
  define changed where "changed \<longleftrightarrow> new \<noteq> entry_or {||} (sg_values ?g) x \<or> full \<and> x |\<notin>| sg_full_mapper ?g"
  define pg1 where "pg1 = (if changed \<and> x |\<notin>| pg_queued pg
    then pg\<lparr>pg_graph := g1, pg_queued := finsert x (pg_queued pg), pg_propagate := x # pg_propagate pg\<rparr>
    else pg\<lparr>pg_graph := g1\<rparr>)"
  have b: "fmlookup (sg_binders ?g) x = Some (bs x)" using Cons.prems by simp
  have run: "feed_parent ps full x pg = Some pg1"
    by (simp add: feed_parent_def b pg1_def g1_def new_def changed_def Let_def)
  have new: "fset new = val ?g x \<union> (fset ps - set (bs x))" by (auto simp: new_def val_def)
  have ch: "changed \<longleftrightarrow> x \<in> fed bs (fset ps) full (x # xs) ?g"
    using new by (auto simp: changed_def fed_def val_def full_of_def fset_inject [symmetric])
  have pg1: "pg_graph pg1 = g1" by (simp add: pg1_def)
  have g1: "fed_graph bs (fset ps) full [x] ?g g1"
    using new by (auto simp: fed_graph_def g1_def val_def full_of_def)
  from Cons.IH [of pg1] Cons.prems obtain pg' news where
    pg': "feed_parents ps full xs pg1 = Some pg'" "fed_graph bs (fset ps) full xs g1 (pg_graph pg')"
      "pg_propagate pg' = news @ pg_propagate pg1" "distinct news"
      "set news = fed bs (fset ps) full xs g1 - fset (pg_queued pg1)"
      "fset (pg_queued pg') = fset (pg_queued pg1) \<union> set news"
    by (auto simp: pg1 g1_def)
  have fed: "fed bs (fset ps) full xs g1 = fed bs (fset ps) full (x # xs) ?g - {x}"
    using g1 by (auto simp: fed_def fed_graph_def split: if_splits)
  have fg: "fed_graph bs (fset ps) full (x # xs) ?g (pg_graph pg')"
    using g1 pg'(2) by (auto simp: fed_graph_def)
  show ?case
  proof (cases "changed \<and> x |\<notin>| pg_queued pg")
    case True
    then have "pg_propagate pg' = (news @ [x]) @ pg_propagate pg" "distinct (news @ [x])"
        "set (news @ [x]) = fed bs (fset ps) full (x # xs) ?g - fset (pg_queued pg)"
        "fset (pg_queued pg') = fset (pg_queued pg) \<union> set (news @ [x])"
      using pg' ch by (auto simp: pg1_def fed)
    then show ?thesis using run pg'(1) fg by (intro exI [of _ pg'] exI [of _ "news @ [x]"]) simp
  next
    case False
    then have "pg_propagate pg' = news @ pg_propagate pg"
        "set news = fed bs (fset ps) full (x # xs) ?g - fset (pg_queued pg)"
        "fset (pg_queued pg') = fset (pg_queued pg) \<union> set news"
      using pg' ch by (auto simp: pg1_def fed)
    then show ?thesis using run pg'(1,4) fg by (intro exI [of _ pg'] exI [of _ news]) simp
  qed
qed

definition binders_at :: "store \<Rightarrow> type_id \<Rightarrow> type_param_id list" where
  "binders_at st t = (case st_row st t of None \<Rightarrow> [] | Some r \<Rightarrow> row_binders r)"

definition node_sound :: "interner \<Rightarrow> summary_graph \<Rightarrow> type_id \<Rightarrow> bool" where
  "node_sound it g t \<longleftrightarrow> (\<exists>r. st_row (it_store it) t = Some r \<and>
     row_own (it_store it) r \<union> cached_values it (row_binders r) (row_targets r) \<subseteq> val g t \<and>
     val g t \<subseteq> {p. free_in (it_store it) p t} \<and>
     fmlookup (sg_binders g) t = Some (row_binders r) \<and>
     (row_retains r \<or> cached_full it (row_targets r) \<longrightarrow> t \<in> full_of g) \<and>
     (t \<in> full_of g \<longrightarrow> retains (it_store it) t) \<and>
     uncached it (row_targets r) \<subseteq> fset (sg_discovered g))"

definition edge_closed :: "interner \<Rightarrow> summary_graph \<Rightarrow> type_id \<Rightarrow> bool" where
  "edge_closed it g c \<longleftrightarrow> (\<forall>t \<in> set (parents_of g c).
     val g c - set (binders_at (it_store it) t) \<subseteq> val g t \<and> (c \<in> full_of g \<longrightarrow> t \<in> full_of g))"

definition propagation_inv :: "interner \<Rightarrow> propagation \<Rightarrow> bool" where
  "propagation_inv it pg \<longleftrightarrow> (let g = pg_graph pg in
     set (pg_propagate pg) = fset (pg_queued pg) \<and> distinct (pg_propagate pg) \<and>
     (\<forall>t. t |\<in>| sg_discovered g \<longrightarrow> node_sound it g t) \<and>
     (\<forall>c. c |\<in>| sg_discovered g \<longrightarrow> c |\<notin>| pg_queued pg \<longrightarrow> edge_closed it g c) \<and>
     fset (pg_queued pg) \<subseteq> fset (sg_discovered g) \<and>
     (\<forall>c. set (parents_of g c) =
        {t \<in> fset (sg_discovered g). \<exists>r. st_row (it_store it) t = Some r \<and> c \<in> uncached it (row_targets r)}))"

text \<open>The facts still missing from the graph: a number that every change lowers.\<close>

definition missing :: "summary_graph \<Rightarrow> (type_id \<times> type_param_id option) set" where
  "missing g = {(t, Some p) | t p. p \<notin> val g t} \<union> {(t, None) | t. t \<notin> full_of g}"

lemma missing_fed:
  assumes "fed_graph bs ps full xs g g'"
  shows "missing g' \<subseteq> missing g" "fed bs ps full xs g \<noteq> {} \<Longrightarrow> missing g' \<subset> missing g"
proof -
  show sub: "missing g' \<subseteq> missing g" using assms by (auto simp: fed_graph_def missing_def)
  assume "fed bs ps full xs g \<noteq> {}"
  then obtain x where x: "x \<in> set xs" "\<not> ps - set (bs x) \<subseteq> val g x \<or> full \<and> x \<notin> full_of g" by (auto simp: fed_def)
  from x(2) have "\<exists>m \<in> missing g. m \<notin> missing g'"
  proof
    assume "\<not> ps - set (bs x) \<subseteq> val g x"
    then obtain p where "p \<in> ps - set (bs x)" "p \<notin> val g x" by blast
    then show ?thesis using assms x(1) by (intro bexI [of _ "(x, Some p)"]) (auto simp: missing_def fed_graph_def)
  next
    assume "full \<and> x \<notin> full_of g"
    then show ?thesis using assms x(1) by (intro bexI [of _ "(x, None)"]) (auto simp: missing_def fed_graph_def)
  qed
  then show "missing g' \<subset> missing g" using sub by blast
qed

lemma cached_free:
  assumes "summaries_exact it" "aligned it = it" "st_row (it_store it) t = Some r"
  shows "cached_values it (row_binders r) (row_targets r) \<subseteq> {p. free_in (it_store it) p t}"
    "cached_full it (row_targets r) \<Longrightarrow> retains (it_store it) t"
proof -
  note ex = cached_exact [OF assms(1), unfolded assms(2)]
  show "cached_values it (row_binders r) (row_targets r) \<subseteq> {p. free_in (it_store it) p t}"
    using free_in.child [OF assms(3)] ex by (fastforce simp: cached_values_def exact_params_def)
  show "cached_full it (row_targets r) \<Longrightarrow> retains (it_store it) t"
    using retains.below [OF assms(3)] ex by (fastforce simp: cached_full_def exact_mode_def)
qed

lemma initial_propagation_inv:
  assumes "summaries_exact it" "aligned it = it" "discovery_inv it root g" "sg_pending g = []"
  shows "propagation_inv it (initial_propagation g)"
proof -
  have D: "processed g = fset (sg_discovered g)" using assms(4) by (simp add: processed_def)
  have dom: "fset (fmdom (sg_values g)) = fset (sg_discovered g)" using assms(3) D by (simp add: discovery_inv_def)
  have sound: "node_sound it g t" if t: "t |\<in>| sg_discovered g" for t
  proof -
    have "node_done it g t" using assms(3) t D by (auto simp: discovery_inv_def)
    then obtain r where r: "st_row (it_store it) t = Some r" "val g t = row_own (it_store it) r \<union> cached_values it (row_binders r) (row_targets r)"
      "fmlookup (sg_binders g) t = Some (row_binders r)"
      "t |\<in>| sg_full_mapper g \<longleftrightarrow> row_retains r \<or> cached_full it (row_targets r)"
      "uncached it (row_targets r) \<subseteq> fset (sg_discovered g)" by (auto simp: node_done_def)
    then show ?thesis using cached_free [OF assms(1,2) r(1)] free_in.own [OF r(1)] retains.here [OF r(1)]
      by (auto simp: node_sound_def full_of_def)
  qed
  have idle: "edge_closed it g c" if "c |\<in>| sg_discovered g" "entry_or {||} (sg_values g) c = {||}" "c |\<notin>| sg_full_mapper g" for c
    using that by (simp add: edge_closed_def val_def full_of_def)
  have full: "fset (sg_full_mapper g) \<subseteq> fset (sg_discovered g)" using assms(3) D by (simp add: discovery_inv_def)
  have q: "fset (fset_of_list (filter P (sorted_list_of_fset (fmdom (sg_values g))))) = {t \<in> fset (sg_discovered g). P t}" for P
    using dom by (auto simp: fset_of_list.rep_eq)
  show ?thesis
    using assms(3) sound idle D dom
    by (auto simp: propagation_inv_def initial_propagation_def Let_def discovery_inv_def fset_of_list.rep_eq
        sorted_list_of_fset.rep_eq)
qed

lemma node_sound_fed:
  assumes sound: "\<And>t. t |\<in>| sg_discovered g \<Longrightarrow> node_sound it g t"
    and par: "\<And>t. t \<in> set xs \<Longrightarrow> \<exists>r. st_row (it_store it) t = Some r \<and> c \<in> set (row_targets r)"
    and c: "c |\<in>| sg_discovered g" and full: "full \<longrightarrow> c \<in> full_of g"
    and fg: "fed_graph (binders_at (it_store it)) (val g c) full xs g g'" and t: "t |\<in>| sg_discovered g"
  shows "node_sound it g' t"
proof -
  from sound [OF t] obtain r where r: "st_row (it_store it) t = Some r" and n: "node_sound it g t"
    by (auto simp: node_sound_def)
  have b: "binders_at (it_store it) t = row_binders r" by (simp add: binders_at_def r)
  have cf: "val g c \<subseteq> {p. free_in (it_store it) p c}" "c \<in> full_of g \<Longrightarrow> retains (it_store it) c"
    using sound [OF c] by (auto simp: node_sound_def)
  have new: "val g c - set (row_binders r) \<subseteq> {p. free_in (it_store it) p t}"
      "c \<in> full_of g \<Longrightarrow> retains (it_store it) t" if "t \<in> set xs"
    using par [OF that] r cf free_in.child [OF r] retains.below [OF r] by auto
  have v: "val g' t = val g t \<union> (if t \<in> set xs then val g c - set (row_binders r) else {})"
      "full_of g' = full_of g \<union> (if full then set xs else {})" "sg_binders g' = sg_binders g"
      "sg_discovered g' = sg_discovered g" using fg by (simp_all add: fed_graph_def b)
  have "val g' t \<subseteq> {p. free_in (it_store it) p t}" using n r new(1) by (auto simp: v node_sound_def split: if_splits)
  moreover have "t \<in> full_of g' \<longrightarrow> retains (it_store it) t" using n r new(2) full by (auto simp: v node_sound_def split: if_splits)
  ultimately show ?thesis using n r by (auto simp: node_sound_def v)
qed

lemma propagate_step:
  assumes inv: "propagation_inv it pg" and top: "pg_propagate pg = c # rest"
  shows "\<exists>pg'. feed_parents (entry_or {||} (sg_values (pg_graph pg)) c) (c |\<in>| sg_full_mapper (pg_graph pg))
      (entry_or [] (sg_parents (pg_graph pg)) c) (pg\<lparr>pg_propagate := rest, pg_queued := pg_queued pg |-| {|c|}\<rparr>) = Some pg' \<and>
    propagation_inv it pg' \<and> sg_discovered (pg_graph pg') = sg_discovered (pg_graph pg) \<and>
    (missing (pg_graph pg') \<subset> missing (pg_graph pg) \<or> missing (pg_graph pg') \<subseteq> missing (pg_graph pg) \<and> pg_propagate pg' = rest)"
proof -
  let ?g = "pg_graph pg" and ?st = "it_store it"
  let ?ps = "entry_or {||} (sg_values ?g) c" and ?full = "c |\<in>| sg_full_mapper ?g" and ?xs = "parents_of ?g c"
  let ?pg = "pg\<lparr>pg_propagate := rest, pg_queued := pg_queued pg |-| {|c|}\<rparr>" and ?bs = "binders_at ?st"
  have c: "c |\<in>| sg_discovered ?g" and q: "set rest = fset (pg_queued pg) - {c}" "distinct rest" "c \<notin> set rest"
    using inv top by (auto simp: propagation_inv_def Let_def)
  have sound: "node_sound it ?g t" if "t |\<in>| sg_discovered ?g" for t using inv that by (simp add: propagation_inv_def Let_def)
  have edges: "set (parents_of ?g x) =
      {t \<in> fset (sg_discovered ?g). \<exists>r. st_row ?st t = Some r \<and> x \<in> uncached it (row_targets r)}" for x
    using inv by (simp add: propagation_inv_def Let_def)
  have par: "\<exists>r. st_row ?st t = Some r \<and> c \<in> set (row_targets r)" "t |\<in>| sg_discovered ?g" if "t \<in> set ?xs" for t
    using that edges [of c] by (auto simp: uncached_def)
  have bs: "fmlookup (sg_binders (pg_graph ?pg)) x = Some (?bs x)" if "x \<in> set ?xs" for x
    using sound [OF par(2) [OF that]] by (auto simp: node_sound_def binders_at_def)
  note spec = feed_parents_spec [of ?xs ?pg ?bs ?ps ?full, OF bs]
  from spec obtain pg' news where
    pg': "feed_parents ?ps ?full ?xs ?pg = Some pg'" "fed_graph ?bs (val ?g c) ?full ?xs ?g (pg_graph pg')"
      "pg_propagate pg' = news @ rest" "distinct news"
      "set news = fed ?bs (val ?g c) ?full ?xs ?g - (fset (pg_queued pg) - {c})"
      "fset (pg_queued pg') = fset (pg_queued pg) - {c} \<union> set news"
    unfolding val_def by auto
  let ?g' = "pg_graph pg'"
  have full: "?full \<longleftrightarrow> c \<in> full_of ?g" by (simp add: full_of_def)
  have same: "sg_discovered ?g' = sg_discovered ?g" "parents_of ?g' = parents_of ?g"
    using pg'(2) by (simp_all add: fed_graph_def parents_of_def fun_eq_iff)
  have sound': "node_sound it ?g' t" if "t |\<in>| sg_discovered ?g" for t
    using node_sound_fed [OF sound par(1) c _ pg'(2) that] full by blast
  have grow: "val ?g x \<subseteq> val ?g' x" "full_of ?g \<subseteq> full_of ?g'" for x using pg'(2) by (auto simp: fed_graph_def)
  have quiet: "val ?g' x = val ?g x" "x \<in> full_of ?g' \<longleftrightarrow> x \<in> full_of ?g" if "x \<notin> fed ?bs (val ?g c) ?full ?xs ?g" for x
    using that pg'(2) by (auto simp: fed_graph_def fed_def)
  have closed: "edge_closed it ?g' x" if x: "x |\<in>| sg_discovered ?g" "x |\<notin>| pg_queued pg'" for x
  proof (cases "x = c")
    case True
    have "c \<notin> fed ?bs (val ?g c) ?full ?xs ?g"
      by (auto simp: fed_def full)
    from quiet [OF this] True show ?thesis
      using pg'(2) full by (auto simp: edge_closed_def same fed_graph_def)
  next
    case False
    have nf: "x \<notin> fed ?bs (val ?g c) ?full ?xs ?g" "x |\<notin>| pg_queued pg" using x pg'(5,6) False by auto
    have "edge_closed it ?g x" using inv x(1) nf(2) by (simp add: propagation_inv_def Let_def)
    then show ?thesis using quiet [OF nf(1)] grow by (fastforce simp: edge_closed_def same)
  qed
  have "fed ?bs (val ?g c) ?full ?xs ?g \<subseteq> fset (sg_discovered ?g)" using par(2) by (auto simp: fed_def)
  then have "propagation_inv it pg'"
    using inv q pg'(3-6) sound' closed edges
    by (auto simp: propagation_inv_def Let_def same)
  moreover have "missing ?g' \<subset> missing ?g \<or> missing ?g' \<subseteq> missing ?g \<and> pg_propagate pg' = rest"
  proof (cases "fed ?bs (val ?g c) ?full ?xs ?g = {}")
    case True
    then have "news = []" using pg'(5) by simp
    then show ?thesis using missing_fed(1) [OF pg'(2)] pg'(3) by simp
  qed (use missing_fed(2) [OF pg'(2)] in blast)
  ultimately show ?thesis using pg'(1) same by (auto simp: parents_of_def)
qed

lemma propagate_returns:
  assumes "propagation_inv it pg"
  shows "\<exists>pg'. propagate pg = Some pg' \<and> propagation_inv it pg' \<and> pg_propagate pg' = [] \<and>
    sg_discovered (pg_graph pg') = sg_discovered (pg_graph pg)"
  using assms
proof (induction "(card (missing (pg_graph pg)), length (pg_propagate pg))" arbitrary: pg
    rule: wf_induct_rule [OF wf_lex_prod [OF wf_less_than wf_less_than]])
  case 1
  show ?case
  proof (cases "pg_propagate pg")
    case Nil
    then show ?thesis using 1(2) by (subst propagate.simps) simp
  next
    case (Cons c rest)
    from propagate_step [OF 1(2) Cons] obtain pg' where
      pg': "feed_parents (entry_or {||} (sg_values (pg_graph pg)) c) (c |\<in>| sg_full_mapper (pg_graph pg))
          (entry_or [] (sg_parents (pg_graph pg)) c) (pg\<lparr>pg_propagate := rest, pg_queued := pg_queued pg |-| {|c|}\<rparr>) = Some pg'"
        "propagation_inv it pg'" "sg_discovered (pg_graph pg') = sg_discovered (pg_graph pg)"
      and m: "missing (pg_graph pg') \<subset> missing (pg_graph pg) \<or>
        missing (pg_graph pg') \<subseteq> missing (pg_graph pg) \<and> pg_propagate pg' = rest" by blast
    have fin: "finite (missing (pg_graph pg))" by simp
    have "((card (missing (pg_graph pg')), length (pg_propagate pg')), (card (missing (pg_graph pg)), length (pg_propagate pg)))
        \<in> less_than <*lex*> less_than"
      using m psubset_card_mono [OF fin, of "missing (pg_graph pg')"] card_mono [OF fin, of "missing (pg_graph pg')"] Cons
      by (auto simp: le_less)
    from 1(1) [OF this pg'(2)] pg'(1,3) Cons show ?thesis by (subst propagate.simps) (auto simp: Let_def)
  qed
qed

section \<open>The summaries are exact\<close>

lemma closed_exact:
  assumes ex: "summaries_exact it" and al: "aligned it = it"
    and inv: "propagation_inv it pg" "pg_propagate pg = []" and t: "t |\<in>| sg_discovered (pg_graph pg)"
  shows "val (pg_graph pg) t = {p. free_in (it_store it) p t}" "t \<in> full_of (pg_graph pg) \<longleftrightarrow> retains (it_store it) t"
proof -
  let ?g = "pg_graph pg" and ?st = "it_store it"
  have sound: "node_sound it ?g x" if "x |\<in>| sg_discovered ?g" for x using inv that by (simp add: propagation_inv_def Let_def)
  have "fset (pg_queued pg) = {}" using inv by (auto simp: propagation_inv_def Let_def)
  then have closed: "edge_closed it ?g x" if "x |\<in>| sg_discovered ?g" for x
    using inv that by (auto simp: propagation_inv_def Let_def)
  have flow: "c |\<in>| sg_discovered ?g \<and> val ?g c - set (row_binders r) \<subseteq> val ?g x \<and> (c \<in> full_of ?g \<longrightarrow> x \<in> full_of ?g)"
    if "x |\<in>| sg_discovered ?g" "st_row ?st x = Some r" "c \<in> set (row_targets r)" "cached_in it c = None" for x r c
  proof -
    have c: "c \<in> uncached it (row_targets r)" using that by (simp add: uncached_def)
    then have cd: "c |\<in>| sg_discovered ?g" using sound [OF that(1)] that(2) by (auto simp: node_sound_def)
    have x: "x \<in> set (parents_of ?g c)" using inv(1) that(1,2) c by (auto simp: propagation_inv_def Let_def)
    have "binders_at ?st x = row_binders r" using that(2) by (simp add: binders_at_def)
    then show ?thesis using bspec [OF closed [OF cd, unfolded edge_closed_def] x] cd by simp
  qed
  note exc = cached_exact [OF ex, unfolded al]
  have "p \<in> val ?g x" if "free_in ?st p x" "x |\<in>| sg_discovered ?g" for p x
    using that
  proof (induction rule: free_in.induct)
    case (own x r)
    then show ?case using sound [of x] by (auto simp: node_sound_def)
  next
    case (child x r c)
    show ?case
    proof (cases "cached_in it c")
      case None
      then show ?thesis using flow [OF child.prems child.hyps(1,2)] child.IH child.hyps(4) by blast
    next
      case (Some fk)
      obtain f k where fk: "fk = (f, k)" by fastforce
      have "p \<in> set f" using exc [of c f k] Some child.hyps(3) by (simp add: fk exact_params_def)
      then have "p \<in> cached_values it (row_binders r) (row_targets r)"
        using child.hyps(2,4) Some by (auto simp: cached_values_def fk)
      then show ?thesis using sound [OF child.prems] child.hyps(1) by (auto simp: node_sound_def)
    qed
  qed
  then show "val ?g t = {p. free_in ?st p t}" using sound [OF t] t by (auto simp: node_sound_def)
  have "x \<in> full_of ?g" if "retains ?st x" "x |\<in>| sg_discovered ?g" for x
    using that
  proof (induction rule: retains.induct)
    case (here x r)
    then show ?case using sound [of x] by (auto simp: node_sound_def)
  next
    case (below x r c)
    show ?case
    proof (cases "cached_in it c")
      case None
      then show ?thesis using flow [OF below.prems below.hyps(1,2)] below.IH by blast
    next
      case (Some fk)
      obtain f k where fk: "fk = (f, k)" by fastforce
      have "k = Mode_FullMap" using exc [of c f k] Some below.hyps(3) by (simp add: fk exact_mode_def)
      then have "cached_full it (row_targets r)" using below.hyps(2) Some by (auto simp: cached_full_def fk)
      then show ?thesis using sound [OF below.prems] below.hyps(1) by (auto simp: node_sound_def)
    qed
  qed
  then show "t \<in> full_of ?g \<longleftrightarrow> retains ?st t" using sound [OF t] t by (auto simp: node_sound_def)
qed

lemma summary_of_exact: "st_row st t \<noteq> None \<Longrightarrow> val g t = {p. free_in st p t} \<Longrightarrow> exact_params st t (summary_of g t)"
  by (simp add: exact_params_def summary_of_def val_def sorted_list_of_fset.rep_eq)

lemma key_mode_exact: "st_row st t \<noteq> None \<Longrightarrow> t \<in> full_of g \<longleftrightarrow> retains st t \<Longrightarrow> exact_mode st t (key_mode_in g t)"
  by (simp add: exact_mode_def key_mode_in_def full_of_def)

text \<open>Only the two caches change.\<close>

definition same_but_summaries :: "interner \<Rightarrow> interner \<Rightarrow> bool" where
  "same_but_summaries it it' \<longleftrightarrow>
     it' = it\<lparr>it_free_param_summaries := it_free_param_summaries it', it_application_key_modes := it_application_key_modes it'\<rparr>"

lemma same_but_summaries_fields:
  assumes "same_but_summaries it it'"
  shows "it_store it' = it_store it" "it_well_known it' = it_well_known it" "it_dedup it' = it_dedup it"
    "it_dedup_base it' = it_dedup_base it" "it_reserved_types it' = it_reserved_types it"
    "it_reserved_types_base it' = it_reserved_types_base it"
    "it_clean_application_results it' = it_clean_application_results it"
    "it_declared_recipe_base it' = it_declared_recipe_base it" "it_declared_recipe_local it' = it_declared_recipe_local it"
  by (subst assms [unfolded same_but_summaries_def], simp)+

text \<open>The sealed parts of the caches are those of the aligned caches.\<close>

definition bases_kept :: "interner \<Rightarrow> interner \<Rightarrow> bool" where
  "bases_kept it it' \<longleftrightarrow>
     fp_base (it_free_param_summaries it') = fp_base (it_free_param_summaries (aligned it)) \<and>
     gc_base (it_application_key_modes it') = gc_base (it_application_key_modes (aligned it))"

lemma publish_exact:
  assumes ex: "summaries_exact it" and al: "aligned it = it"
    and s: "\<And>t f. (t, f) \<in> set fs \<Longrightarrow> exact_params (it_store it) t f"
    and m: "\<And>t k. (t, k) \<in> set ks \<Longrightarrow> exact_mode (it_store it) t k"
  defines "it' \<equiv> publish_application_key_modes (publish_free_param_summaries it fs) ks"
  shows "summaries_exact it' \<and> same_but_summaries it it' \<and> aligned it' = it' \<and> bases_kept it it'"
proof -
  have ids: "fp_graph_identity (it_free_param_summaries it) = st_semantic_graph_identity (it_store it)"
      "gc_graph_identity (it_application_key_modes it) = st_semantic_graph_identity (it_store it)"
    by (subst al [symmetric], simp add: aligned_def fp_align_with_def gc_align_with_def)+
  then have it': "it' = it\<lparr>it_free_param_summaries := fp_insert_batch (it_free_param_summaries it) fs,
      it_application_key_modes := gc_insert_batch (it_application_key_modes it) ks\<rparr>"
    by (simp add: it'_def publish_application_key_modes_def publish_free_param_summaries_def fp_align_with_def gc_align_with_def)
  have keep: "fp_graph_identity (fp_insert_batch c fs) = fp_graph_identity c" for c
    unfolding fp_insert_batch_def by (induction fs arbitrary: c) (auto simp: fp_insert_def)
  have base: "fp_base (fp_insert_batch c fs) = fp_base c" for c
    unfolding fp_insert_batch_def by (induction fs arbitrary: c) (auto simp: fp_insert_def)
  have base2: "gc_base (gc_insert_batch d ks) = gc_base d" for d
    unfolding gc_insert_batch_def by (induction ks arbitrary: d) (auto simp: gc_insert_def)
  have keep2: "gc_graph_identity (gc_insert_batch d ks) = gc_graph_identity d" for d
    unfolding gc_insert_batch_def by (induction ks arbitrary: d) (auto simp: gc_insert_def)
  have al': "aligned it' = it'" using ids by (simp add: aligned_def it' fp_align_with_def gc_align_with_def keep keep2)
  have "summaries_exact it'"
    unfolding summaries_exact_def al'
    using ex s m by (auto simp: it' fp_insert_batch_get gc_insert_batch_get summaries_exact_def al dest: map_of_SomeD split: option.splits)
  with al' show ?thesis by (simp add: same_but_summaries_def it' bases_kept_def al base base2)
qed

text \<open>
  The computation returns on every closed store, its answer is exact, and it leaves the caches
  exact and everything else alone.
\<close>

lemma compute_summaries:
  assumes ex: "summaries_exact it" and closed: "closed_store (it_store it)" and root: "st_row (it_store it) root \<noteq> None"
  shows "\<exists>s it'. compute_application_summaries it root = Some (s, it') \<and>
    exact_params (it_store it) root (as_free_params s) \<and> exact_mode (it_store it) root (as_key_mode s) \<and>
    summaries_exact it' \<and> same_but_summaries it it' \<and> aligned it' = it' \<and> bases_kept it it'"
proof -
  let ?a = "aligned it"
  have al: "aligned ?a = ?a" and st: "it_store ?a = it_store it" by simp_all
  have exa: "summaries_exact ?a" using ex by (simp add: summaries_exact_def)
  have same: "same_but_summaries it ?a" by (simp add: same_but_summaries_def aligned_def)
  show ?thesis
  proof (cases "cached_in ?a root")
    case (Some fk)
    then show ?thesis using cached_exact [OF ex, of root "fst fk" "snd fk"] exa same
      by (auto simp: bases_kept_def compute_application_summaries_def cached_summary_aligned split: prod.split)
  next
    case None
    from discover_returns [OF al _ start_inv] closed root obtain g where
      g: "discover ?a (start_graph root) = Some (?a, g)" "discovery_inv ?a root g" "sg_pending g = []"
      unfolding st by blast
    from propagate_returns [OF initial_propagation_inv [OF exa al g(2,3)]] obtain pg where
      pg: "propagate (initial_propagation g) = Some pg" "propagation_inv ?a pg" "pg_propagate pg = []"
        "sg_discovered (pg_graph pg) = sg_discovered g" by (auto simp: initial_propagation_def Let_def)
    have fix': "val (pg_graph pg) t = {p. free_in (it_store it) p t}" "t \<in> full_of (pg_graph pg) \<longleftrightarrow> retains (it_store it) t"
      if "t |\<in>| sg_discovered g" for t
      using closed_exact [OF exa al pg(2,3), of t] that pg(4) by simp_all
    have r: "root |\<in>| sg_discovered g" using g(2) by (simp add: discovery_inv_def)
    define tys where "tys = sorted_list_of_fset (sg_discovered (pg_graph pg))"
    have tys: "set tys = fset (sg_discovered g)" by (simp add: tys_def pg(4))
    define it' where "it' = publish_application_key_modes
      (publish_free_param_summaries ?a (map (\<lambda>ty. (ty, summary_of (pg_graph pg) ty)) tys))
      (map (\<lambda>ty. (ty, key_mode_in (pg_graph pg) ty)) tys)"
    have rows: "st_row (it_store it) t \<noteq> None" if "t |\<in>| sg_discovered g" for t
      using g(2) that by (simp add: discovery_inv_def)
    have published: "summaries_exact it' \<and> same_but_summaries ?a it' \<and> aligned it' = it' \<and> bases_kept ?a it'"
      unfolding it'_def
      by (rule publish_exact [OF exa al])
        (use fix' rows in \<open>auto simp: tys st intro!: summary_of_exact key_mode_exact\<close>)
    then have "summaries_exact it'" "same_but_summaries it it'" "aligned it' = it'"
      using same by (simp_all add: same_but_summaries_def aligned_def)
    moreover have "bases_kept it it'" using published by (simp add: bases_kept_def)
    moreover have "compute_application_summaries it root =
        Some (\<lparr>as_free_params = summary_of (pg_graph pg) root, as_key_mode = key_mode_in (pg_graph pg) root\<rparr>, it')"
      by (simp add: compute_application_summaries_def cached_summary_aligned None g(1) pg(1) Let_def it'_def tys_def)
    moreover have "exact_params (it_store it) root (summary_of (pg_graph pg) root)"
        "exact_mode (it_store it) root (key_mode_in (pg_graph pg) root)"
      using fix' [OF r] root by (simp_all add: summary_of_exact key_mode_exact)
    ultimately show ?thesis by auto
  qed
qed

lemma derived_free_params_spec:
  assumes "summaries_exact it" "closed_store (it_store it)" "st_row (it_store it) root \<noteq> None"
  shows "\<exists>f it'. derived_free_params it root = Some (f, it') \<and> exact_params (it_store it) root f \<and>
    summaries_exact it' \<and> same_but_summaries it it' \<and> aligned it' = it' \<and> bases_kept it it'"
  using compute_summaries [OF assms] by (auto simp: derived_free_params_def)

end
