(* ===== verification/References.thy ===== *)
theory References
  imports Substitute_Summary "HOL-Library.Product_Lexorder"
begin

text \<open>
  Crate \<^verbatim>\<open>typokat-types\<close>, module \<^verbatim>\<open>types/intern/references.rs\<close>: the projection of every identity edge the
  store holds as rows \<open>(owner domain, target domain, field, owner, target)\<close>, sorted. The side-column
  flag of \<open>store_reference_records_from\<close> is set by tests only and is modelled at its other value.

  Shown: on a well-formed store the projection returns, it is sorted, and it lists exactly the edges
  of the recipes, the rows and the side columns; the type operands it lists for an owner are those
  that substitution walks, and the base of an instantiation.
\<close>

section \<open>Records\<close>

type_synonym reference_record = "u8 \<times> u8 \<times> u8 \<times> u32 \<times> u32"

definition CONTAINER_DOMAIN :: u8 where "CONTAINER_DOMAIN = 0"
definition TYPE_DOMAIN :: u8 where "TYPE_DOMAIN = 1"
definition TYPE_PARAM_DOMAIN :: u8 where "TYPE_PARAM_DOMAIN = 2"
definition CLASS_DOMAIN :: u8 where "CLASS_DOMAIN = 3"
definition DECLARED_RECIPE_DOMAIN :: u8 where "DECLARED_RECIPE_DOMAIN = 10"

definition TYPE_OPERAND_FIELD :: u8 where "TYPE_OPERAND_FIELD = 0"
definition TYPE_PARAM_IDENTITY_FIELD :: u8 where "TYPE_PARAM_IDENTITY_FIELD = 1"
definition CLASS_IDENTITY_FIELD :: u8 where "CLASS_IDENTITY_FIELD = 2"
definition CONSTRAINT_FIELD :: u8 where "CONSTRAINT_FIELD = 3"
definition DEFAULT_FIELD :: u8 where "DEFAULT_FIELD = 4"
definition DECLARING_CLASS_FIELD :: u8 where "DECLARING_CLASS_FIELD = 5"
definition DECLARED_RECIPE_FIELD :: u8 where "DECLARED_RECIPE_FIELD = 6"

definition RECIPE_TYPE_FIELD :: u8 where "RECIPE_TYPE_FIELD = 0"
definition RECIPE_PARAMETER_FIELD :: u8 where "RECIPE_PARAMETER_FIELD = 1"
definition RECIPE_CHILD_FIELD :: u8 where "RECIPE_CHILD_FIELD = 2"
definition RECIPE_FREE_PARAMETER_FIELD :: u8 where "RECIPE_FREE_PARAMETER_FIELD = 3"
definition ROW_IDENTITY_FIELD :: u8 where "ROW_IDENTITY_FIELD = 31"

definition CONSTRAINT_OWNER_FIELD :: u8 where "CONSTRAINT_OWNER_FIELD = 6"
definition CONSTRAINT_TARGET_FIELD :: u8 where "CONSTRAINT_TARGET_FIELD = 7"
definition FROZEN_TYPE_PARAM_FIELD :: u8 where "FROZEN_TYPE_PARAM_FIELD = 8"
definition TEMPLATE_NAME_TYPE_FIELD :: u8 where "TEMPLATE_NAME_TYPE_FIELD = 9"

lemmas domain_defs = CONTAINER_DOMAIN_def TYPE_DOMAIN_def TYPE_PARAM_DOMAIN_def CLASS_DOMAIN_def DECLARED_RECIPE_DOMAIN_def

definition reference :: "u8 \<Rightarrow> u8 \<Rightarrow> u8 \<Rightarrow> u32 \<Rightarrow> u32 \<Rightarrow> reference_record" where
  "reference owner_domain target_domain field owner target = (owner_domain, target_domain, field, owner, target)"

definition type_operand :: "type_id \<Rightarrow> type_id \<Rightarrow> reference_record" where
  "type_operand owner target = reference TYPE_DOMAIN TYPE_DOMAIN TYPE_OPERAND_FIELD owner target"

definition type_param_identity :: "type_id \<Rightarrow> type_param_id \<Rightarrow> reference_record" where
  "type_param_identity owner target = reference TYPE_DOMAIN TYPE_PARAM_DOMAIN TYPE_PARAM_IDENTITY_FIELD owner target"

definition class_identity :: "type_id \<Rightarrow> u8 \<Rightarrow> class_id \<Rightarrow> reference_record" where
  "class_identity owner field target = reference TYPE_DOMAIN CLASS_DOMAIN field owner target"

lemmas record_defs = reference_def type_operand_def type_param_identity_def class_identity_def

section \<open>Recipes\<close>

fun recipe_node_records :: "declared_recipe_id \<Rightarrow> declared_recipe_node \<Rightarrow> reference_record list" where
  "recipe_node_records i (Recipe_Type ty) = [reference DECLARED_RECIPE_DOMAIN TYPE_DOMAIN RECIPE_TYPE_FIELD i ty]"
| "recipe_node_records i (Recipe_Array child) =
     [reference DECLARED_RECIPE_DOMAIN DECLARED_RECIPE_DOMAIN RECIPE_CHILD_FIELD i child]"
| "recipe_node_records i (Recipe_Readonly child) =
     [reference DECLARED_RECIPE_DOMAIN DECLARED_RECIPE_DOMAIN RECIPE_CHILD_FIELD i child]"
| "recipe_node_records i (Recipe_Tuple elements rest) =
     map (reference DECLARED_RECIPE_DOMAIN DECLARED_RECIPE_DOMAIN RECIPE_CHILD_FIELD i) elements @
     (case rest of None \<Rightarrow> []
      | Some (_, child) \<Rightarrow> [reference DECLARED_RECIPE_DOMAIN DECLARED_RECIPE_DOMAIN RECIPE_CHILD_FIELD i child])"
| "recipe_node_records i (Recipe_Application template parameters arguments) =
     [reference DECLARED_RECIPE_DOMAIN TYPE_DOMAIN RECIPE_TYPE_FIELD i template] @
     map (reference DECLARED_RECIPE_DOMAIN TYPE_PARAM_DOMAIN RECIPE_PARAMETER_FIELD i) parameters @
     map (reference DECLARED_RECIPE_DOMAIN DECLARED_RECIPE_DOMAIN RECIPE_CHILD_FIELD i) arguments"

definition recipe_records :: "declared_recipe_id \<times> declared_type_recipe \<Rightarrow> reference_record list" where
  "recipe_records = (\<lambda>(i, recipe).
     [reference DECLARED_RECIPE_DOMAIN DECLARED_RECIPE_DOMAIN ROW_IDENTITY_FIELD i i] @
     recipe_node_records i (dr_node recipe) @
     map (reference DECLARED_RECIPE_DOMAIN TYPE_PARAM_DOMAIN RECIPE_FREE_PARAMETER_FIELD i) (dr_free_params recipe))"

section \<open>Rows\<close>

type_synonym records_result = "string + reference_record list"

text \<open>A payload that the tag promises; None is the panic of an accessor.\<close>

definition payload_records ::
    "string \<Rightarrow> 'a option option \<Rightarrow> ('a \<Rightarrow> reference_record list) \<Rightarrow> records_result option" where
  "payload_records message found f = map_option (\<lambda>x. case x of None \<Rightarrow> Inl message | Some y \<Rightarrow> Inr (f y)) found"

definition owner_records :: "store \<Rightarrow> type_id \<Rightarrow> records_result option" where
  "owner_records st owner = do {
     tg \<leftarrow> tag st owner;
     (case tg of
        Tag_Intrinsic \<Rightarrow> Some (Inr []) | Tag_Literal \<Rightarrow> Some (Inr []) | Tag_Infer \<Rightarrow> Some (Inr [])
      | Tag_MappedValue \<Rightarrow> Some (Inr [])
      | Tag_Object \<Rightarrow> payload_records ''validated object payload is missing'' (object_type_of st owner) (\<lambda>ob.
          concat (map (\<lambda>p. [type_operand owner (pr_ty p)] @ map (type_operand owner) (opt_ids (pr_write_ty p)) @
            map (class_identity owner DECLARING_CLASS_FIELD) (opt_ids (pr_declaring_class p))) (ob_properties ob)) @
          map (type_operand owner) (opt_ids (ob_string_index ob)) @ map (type_operand owner) (opt_ids (ob_number_index ob)) @
          map (type_operand owner) (ob_call_signatures ob) @ map (type_operand owner) (ob_construct_signatures ob))
      | Tag_Union \<Rightarrow> payload_records ''validated union payload is missing'' (union_members st owner)
          (map (type_operand owner))
      | Tag_Intersection \<Rightarrow> payload_records ''validated intersection payload is missing'' (intersection_members st owner)
          (map (type_operand owner))
      | Tag_Function \<Rightarrow> payload_records ''validated function payload is missing'' (function_type_of st owner) (\<lambda>f.
          concat (map (\<lambda>g. [type_param_identity owner (gp_id g)] @
            map (reference TYPE_DOMAIN TYPE_DOMAIN CONSTRAINT_FIELD owner) (opt_ids (gp_constraint g)) @
            map (reference TYPE_DOMAIN TYPE_DOMAIN DEFAULT_FIELD owner) (opt_ids (gp_default g))) (fn_type_params f)) @
          map (type_operand owner) (opt_ids (fn_receiver f)) @
          map (\<lambda>p. type_operand owner (pa_ty p)) (fn_params f) @ [type_operand owner (fn_ret f)])
      | Tag_TypeParam \<Rightarrow> payload_records ''validated type parameter payload is missing'' (type_param_of st owner)
          (\<lambda>p. [type_param_identity owner (tp_id p)])
      | Tag_Array \<Rightarrow> payload_records ''validated array payload is missing'' (array_type_of st owner)
          (\<lambda>e. [type_operand owner e])
      | Tag_Tuple \<Rightarrow> payload_records ''validated tuple payload is missing'' (tuple_type_of st owner) (\<lambda>tu.
          map (type_operand owner) (tu_elements tu) @ map (type_operand owner) (opt_ids (map_option tr_ty (tu_rest tu))))
      | Tag_Readonly \<Rightarrow> payload_records ''validated readonly payload is missing'' (readonly_operand st owner)
          (\<lambda>t. [type_operand owner t])
      | Tag_Conditional \<Rightarrow> payload_records ''validated conditional payload is missing'' (conditional_type_of st owner)
          (\<lambda>c. map (type_operand owner) [co_check c, co_extends_ty c, co_true_branch c, co_false_branch c])
      | Tag_Instantiation \<Rightarrow> payload_records ''validated instantiation payload is missing'' (instantiation_type_of st owner)
          (\<lambda>i. [type_operand owner (in_base i)] @
             concat (map (\<lambda>(p, a). [type_param_identity owner p, type_operand owner a]) (in_args i)))
      | Tag_Mapped \<Rightarrow> payload_records ''validated mapped payload is missing'' (mapped_type_of st owner)
          (\<lambda>m. [type_operand owner (ma_key_source m), type_operand owner (ma_value_template m)] @
             map (type_operand owner) (opt_ids (ma_modifiers_source m)))
      | Tag_Template \<Rightarrow> payload_records ''validated template payload is missing'' (template_type_of st owner)
          (\<lambda>te. map (type_operand owner) (te_holes te))
      | Tag_Keyof \<Rightarrow> payload_records ''validated keyof payload is missing'' (keyof_operand st owner)
          (\<lambda>t. [type_operand owner t])
      | Tag_ClassInstance \<Rightarrow> payload_records ''validated class instance payload is missing'' (class_instance_type_of st owner)
          (\<lambda>c. [class_identity owner CLASS_IDENTITY_FIELD (ci_class c)] @ map (type_operand owner) (ci_args c))
      | Tag_DeferredIndexedAccess \<Rightarrow> payload_records ''validated deferred indexed access payload is missing''
          (deferred_indexed_access_type_of st owner) (\<lambda>d. [type_operand owner (di_object d), type_operand owner (di_index d)])
      | Tag_Declared \<Rightarrow> payload_records ''validated declared payload is missing'' (declared_type_of st owner)
          (\<lambda>d. [reference TYPE_DOMAIN DECLARED_RECIPE_DOMAIN DECLARED_RECIPE_FIELD owner (de_recipe d)] @
             concat (map (\<lambda>(p, v). [type_param_identity owner p, type_operand owner v]) (de_mapper d))))
   }"

fun records_of_owners :: "store \<Rightarrow> nat list \<Rightarrow> records_result option" where
  "records_of_owners st [] = Some (Inr [])"
| "records_of_owners st (raw_owner # owners) =
     (case u32_try_from raw_owner of
        None \<Rightarrow> Some (Inl ''TypeId exceeds u32'')
      | Some owner \<Rightarrow> do {
          here \<leftarrow> owner_records st owner;
          (case here of
             Inl e \<Rightarrow> Some (Inl e)
           | Inr rs \<Rightarrow> map_option (map_sum id ((@) rs)) (records_of_owners st owners))
        })"

section \<open>Side columns\<close>

text \<open>One or two records per indexed entry of a column.\<close>

fun column_records :: "string \<Rightarrow> (u32 \<Rightarrow> 'a \<Rightarrow> reference_record list) \<Rightarrow> (nat \<times> 'a) list \<Rightarrow> records_result" where
  "column_records too_long f [] = Inr []"
| "column_records too_long f ((index, x) # xs) =
     (case u32_try_from index of
        None \<Rightarrow> Inl too_long
      | Some owner \<Rightarrow> map_sum id ((@) (f owner x)) (column_records too_long f xs))"

definition constraint_records :: "store \<Rightarrow> records_result" where
  "constraint_records st = column_records ''constraint row index exceeds u32''
     (\<lambda>owner (parameter, constraint).
        [reference CONTAINER_DOMAIN TYPE_PARAM_DOMAIN CONSTRAINT_OWNER_FIELD owner parameter,
         reference CONTAINER_DOMAIN TYPE_DOMAIN CONSTRAINT_TARGET_FIELD owner constraint])
     (enumerate 0 (all_type_param_constraints st))"

definition frozen_records :: "store \<Rightarrow> records_result" where
  "frozen_records st = column_records ''frozen parameter index exceeds u32''
     (\<lambda>owner parameter. [reference CONTAINER_DOMAIN TYPE_PARAM_DOMAIN FROZEN_TYPE_PARAM_FIELD owner parameter])
     (enumerate 0 (all_frozen_type_params st))"

definition template_name_records :: "store \<Rightarrow> records_result" where
  "template_name_records st = column_records ''template-name row index exceeds u32''
     (\<lambda>owner ty. [reference CONTAINER_DOMAIN TYPE_DOMAIN TEMPLATE_NAME_TYPE_FIELD owner ty])
     (enumerate 0 (sorted_list_of_fset (all_template_name_ids st)))"

section \<open>The projection\<close>

definition store_reference_records_from :: "interner \<Rightarrow> nat \<Rightarrow> records_result option" where
  "store_reference_records_from it start = do {
     let st = it_store it;
     let recipes = concat (map recipe_records (all_declared_recipes st));
     rows \<leftarrow> records_of_owners st [start..<store_len st];
     Some (case (rows, constraint_records st, frozen_records st, template_name_records st) of
         (Inl e, _) \<Rightarrow> Inl e
       | (_, Inl e, _) \<Rightarrow> Inl e
       | (_, _, Inl e, _) \<Rightarrow> Inl e
       | (_, _, _, Inl e) \<Rightarrow> Inl e
       | (Inr rows, Inr constraints, Inr frozen, Inr names) \<Rightarrow> Inr (sort (recipes @ rows @ constraints @ frozen @ names)))
   }"

definition typed_reference_records_for_replay_generation :: "interner \<Rightarrow> records_result option" where
  "typed_reference_records_for_replay_generation it = store_reference_records_from it 0"


section \<open>What the projection lists\<close>

text \<open>The types a row refers to: the graph of substitution and the base of an instantiation.\<close>

definition row_refs :: "ty_row \<Rightarrow> type_id list" where
  "row_refs r = row_targets r @ (case r of Row_Instantiation i \<Rightarrow> [in_base i] | _ \<Rightarrow> [])"

text \<open>The recipes a row refers to.\<close>

definition row_recipes :: "ty_row \<Rightarrow> declared_recipe_id list" where
  "row_recipes r = (case r of Row_Declared d \<Rightarrow> [de_recipe d] | _ \<Rightarrow> [])"

definition lists_row :: "type_id \<Rightarrow> ty_row \<Rightarrow> reference_record list \<Rightarrow> bool" where
  "lists_row owner r rs \<longleftrightarrow>
     (\<forall>t. (\<exists>f. (TYPE_DOMAIN, TYPE_DOMAIN, f, owner, t) \<in> set rs) \<longleftrightarrow> t \<in> set (row_refs r)) \<and>
     (\<forall>i. (\<exists>f. (TYPE_DOMAIN, DECLARED_RECIPE_DOMAIN, f, owner, i) \<in> set rs) \<longleftrightarrow> i \<in> set (row_recipes r)) \<and>
     (\<forall>x \<in> set rs. \<exists>d f t. x = (TYPE_DOMAIN, d, f, owner, t))"

lemma set_opt_ids [simp]: "set (opt_ids x) = set_option x"
  by (cases x) (simp_all add: opt_ids_def)

lemma owner_records_row:
  assumes inv: "store_inv st" and row: "st_row st owner = Some r"
  shows "\<exists>rs. owner_records st owner = Some (Inr rs) \<and> lists_row owner r rs"
proof -
  note acc = accessor_rows [OF inv, of owner, unfolded row]
  note defs = lists_row_def row_refs_def row_recipes_def record_defs domain_defs set_opt_ids
  show ?thesis
  proof (cases r)
    case (Row_Object ob)
    show ?thesis by (simp add: owner_records_def payload_records_def acc Row_Object)
      (fastforce simp: defs image_iff ex_disj_distrib bex_disj_distrib)
  next
    case (Row_Function f)
    show ?thesis by (simp add: owner_records_def payload_records_def acc Row_Function)
      (fastforce simp: defs image_iff ex_disj_distrib bex_disj_distrib)
  next
    case (Row_Instantiation i)
    show ?thesis by (simp add: owner_records_def payload_records_def acc Row_Instantiation)
      (fastforce simp: defs image_iff ex_disj_distrib bex_disj_distrib case_prod_beta)
  next
    case (Row_Declared d)
    show ?thesis by (simp add: owner_records_def payload_records_def acc Row_Declared)
      (fastforce simp: defs image_iff ex_disj_distrib bex_disj_distrib case_prod_beta)
  qed (simp add: owner_records_def payload_records_def acc; auto simp: defs split: option.splits)+
qed

lemma records_of_owners_rows:
  assumes inv: "store_inv st" and len: "store_len st \<le> 2 ^ 32" and owners: "\<forall>n \<in> set ns. n < store_len st"
  shows "\<exists>rs. records_of_owners st ns = Some (Inr rs) \<and>
    set rs = (\<Union>n \<in> set ns. \<Union>rs \<in> {rs. owner_records st (word_of_nat n) = Some (Inr rs)}. set rs)"
  using owners
proof (induction ns)
  case (Cons n ns)
  have n: "n < store_len st" "n < 2 ^ 32" using Cons.prems len by auto
  then have u: "u32_try_from n = Some (word_of_nat n)" "unat (word_of_nat n :: u32) = n"
    by (simp_all add: u32_try_from_def unat_of_nat take_bit_nat_eq_self_iff)
  obtain r where "st_row st (word_of_nat n) = Some r" using n(1) by (auto simp: u nth_opt_def)
  from owner_records_row [OF inv this] obtain rs where rs: "owner_records st (word_of_nat n) = Some (Inr rs)" by blast
  from Cons obtain rest where "records_of_owners st ns = Some (Inr rest)"
    "set rest = (\<Union>n \<in> set ns. \<Union>rs \<in> {rs. owner_records st (word_of_nat n) = Some (Inr rs)}. set rs)" by auto
  then show ?case using rs by (simp add: u)
qed simp

lemma column_records_all:
  assumes "\<forall>(i, x) \<in> set xs. i < 2 ^ 32"
  shows "\<exists>rs. column_records too_long f xs = Inr rs \<and> set rs = (\<Union>(i, x) \<in> set xs. set (f (word_of_nat i) x))"
  using assms by (induction xs) (auto simp: u32_try_from_def)

text \<open>A column keyed by 32-bit ids has fewer than \<open>2^32\<close> rows to number.\<close>

lemma distinct_u32_length: "distinct (xs :: u32 list) \<Longrightarrow> length xs \<le> 2 ^ 32"
  using card_mono [of UNIV "set xs"] by (simp add: distinct_card card_word)

lemma enumerate_bound: "length xs \<le> 2 ^ 32 \<Longrightarrow> \<forall>(i, x) \<in> set (enumerate 0 xs). i < 2 ^ 32"
  by (auto simp: in_set_enumerate_eq)

lemma sorted_fmap_keys: "distinct (map fst (sorted_list_of_fmap m))"
  unfolding sorted_list_of_fmap_def by (simp add: comp_def sorted_list_of_fset.rep_eq)

lemma column_sizes:
  "length (all_type_param_constraints st) \<le> 2 ^ 32" "length (all_frozen_type_params st) \<le> 2 ^ 32"
  "length (sorted_list_of_fset (all_template_name_ids st)) \<le> 2 ^ 32"
proof -
  show "length (all_type_param_constraints st) \<le> 2 ^ 32"
    using distinct_u32_length [OF sorted_fmap_keys] by (simp add: all_type_param_constraints_def)
  show "length (all_frozen_type_params st) \<le> 2 ^ 32" "length (sorted_list_of_fset (all_template_name_ids st)) \<le> 2 ^ 32"
    by (rule distinct_u32_length; simp add: all_frozen_type_params_def sorted_list_of_fset.rep_eq)+
qed

lemma projection_returns:
  assumes inv: "interner_inv fx it"
  shows "\<exists>rs rows cs fs ns. typed_reference_records_for_replay_generation it = Some (Inr rs) \<and> sorted rs \<and>
    set rs = (\<Union>x \<in> set (all_declared_recipes (it_store it)). set (recipe_records x)) \<union> set rows \<union> set cs \<union> set fs \<union> set ns \<and>
    records_of_owners (it_store it) [0..<store_len (it_store it)] = Some (Inr rows) \<and>
    constraint_records (it_store it) = Inr cs \<and> frozen_records (it_store it) = Inr fs \<and>
    template_name_records (it_store it) = Inr ns"
proof -
  have s: "store_inv (it_store it)" "store_len (it_store it) \<le> 2 ^ 32" using inv by (simp_all add: interner_inv_def)
  from records_of_owners_rows [OF s, of "[0..<store_len (it_store it)]"] obtain rows where
    rows: "records_of_owners (it_store it) [0..<store_len (it_store it)] = Some (Inr rows)" by auto
  note col = column_records_all [OF enumerate_bound]
  obtain cs where cs: "constraint_records (it_store it) = Inr cs"
    using col [OF column_sizes(1)] by (fastforce simp: constraint_records_def)
  obtain fs where fs: "frozen_records (it_store it) = Inr fs"
    using col [OF column_sizes(2)] by (fastforce simp: frozen_records_def)
  obtain ns where ns: "template_name_records (it_store it) = Inr ns"
    using col [OF column_sizes(3)] by (fastforce simp: template_name_records_def)
  show ?thesis
    by (intro exI [of _ "sort (concat (map recipe_records (all_declared_recipes (it_store it))) @ rows @ cs @ fs @ ns)"]
        exI [of _ rows] exI [of _ cs] exI [of _ fs] exI [of _ ns])
      (auto simp: typed_reference_records_for_replay_generation_def store_reference_records_from_def rows cs fs ns)
qed

text \<open>The types and the recipes a recipe node mentions.\<close>

fun node_types :: "declared_recipe_node \<Rightarrow> type_id list" where
  "node_types (Recipe_Type ty) = [ty]"
| "node_types (Recipe_Application template _ _) = [template]"
| "node_types _ = []"

fun node_children :: "declared_recipe_node \<Rightarrow> declared_recipe_id list" where
  "node_children (Recipe_Type _) = []"
| "node_children (Recipe_Array child) = [child]"
| "node_children (Recipe_Readonly child) = [child]"
| "node_children (Recipe_Tuple elements rest) = elements @ opt_ids (map_option snd rest)"
| "node_children (Recipe_Application _ _ arguments) = arguments"

abbreviation recipe_list :: "store \<Rightarrow> declared_type_recipe list" where
  "recipe_list st \<equiv> lv_list (st_declared_recipes st)"

lemma recipe_node_targets:
  "(DECLARED_RECIPE_DOMAIN, TYPE_DOMAIN, f, o', t) \<in> set (recipe_node_records i node) \<longleftrightarrow>
     f = RECIPE_TYPE_FIELD \<and> o' = i \<and> t \<in> set (node_types node)"
  "(DECLARED_RECIPE_DOMAIN, DECLARED_RECIPE_DOMAIN, f, o', c) \<in> set (recipe_node_records i node) \<longleftrightarrow>
     f = RECIPE_CHILD_FIELD \<and> o' = i \<and> c \<in> set (node_children node)"
  "x \<in> set (recipe_node_records i node) \<Longrightarrow> fst x = DECLARED_RECIPE_DOMAIN"
  by (cases node; auto simp: reference_def domain_defs split: option.splits)+

lemma recipe_records_targets:
  "(DECLARED_RECIPE_DOMAIN, TYPE_DOMAIN, f, o', t) \<in> set (recipe_records (i, recipe)) \<longleftrightarrow>
     f = RECIPE_TYPE_FIELD \<and> o' = i \<and> t \<in> set (node_types (dr_node recipe))"
  "(DECLARED_RECIPE_DOMAIN, DECLARED_RECIPE_DOMAIN, RECIPE_CHILD_FIELD, o', c) \<in> set (recipe_records (i, recipe)) \<longleftrightarrow>
     o' = i \<and> c \<in> set (node_children (dr_node recipe))"
  "x \<in> set (recipe_records (i, recipe)) \<Longrightarrow> fst x = DECLARED_RECIPE_DOMAIN"
  using recipe_node_targets(3)
  by (auto simp: recipe_records_def recipe_node_targets reference_def RECIPE_CHILD_FIELD_def ROW_IDENTITY_FIELD_def
      RECIPE_FREE_PARAMETER_FIELD_def)
    (simp_all add: domain_defs)

lemma row_records_targets:
  assumes inv: "interner_inv fx it" and rows: "records_of_owners (it_store it) [0..<store_len (it_store it)] = Some (Inr rows)"
  shows "(\<exists>f. (TYPE_DOMAIN, TYPE_DOMAIN, f, owner, t) \<in> set rows) \<longleftrightarrow> (\<exists>r. row_in it owner = Some r \<and> t \<in> set (row_refs r))"
    "(\<exists>f. (TYPE_DOMAIN, DECLARED_RECIPE_DOMAIN, f, owner, i) \<in> set rows) \<longleftrightarrow> (\<exists>r. row_in it owner = Some r \<and> i \<in> set (row_recipes r))"
    "x \<in> set rows \<Longrightarrow> fst x = TYPE_DOMAIN"
proof -
  let ?st = "it_store it"
  have s: "store_inv ?st" "store_len ?st \<le> 2 ^ 32" using inv by (simp_all add: interner_inv_def)
  from records_of_owners_rows [OF s, of "[0..<store_len ?st]"] rows have
    set: "set rows = (\<Union>n \<in> {0..<store_len ?st}. \<Union>rs \<in> {rs. owner_records ?st (word_of_nat n) = Some (Inr rs)}. set rs)" by auto
  have own: "\<exists>rs. owner_records ?st (word_of_nat n) = Some (Inr rs) \<and> lists_row (word_of_nat n) (store_rows ?st ! n) rs"
    if "n < store_len ?st" for n
  proof -
    have "unat (word_of_nat n :: u32) = n" using that s(2) by (simp add: unat_of_nat take_bit_nat_eq_self_iff)
    then show ?thesis using owner_records_row [OF s(1), of "word_of_nat n" "store_rows ?st ! n"] that by (simp add: nth_opt_def)
  qed
  show "x \<in> set rows \<Longrightarrow> fst x = TYPE_DOMAIN" unfolding set using own by (fastforce simp: lists_row_def)
  have at: "x \<in> set rows \<longleftrightarrow> (\<exists>r rs. row_in it owner = Some r \<and> owner_records ?st owner = Some (Inr rs) \<and> lists_row owner r rs \<and> x \<in> set rs)"
    if "x = (TYPE_DOMAIN, d, f, owner, t)" for x d f t
  proof
    assume "x \<in> set rows"
    then obtain n rs where n: "n < store_len ?st" "owner_records ?st (word_of_nat n) = Some (Inr rs)" "x \<in> set rs"
      unfolding set by auto
    with own [OF n(1)] have l: "lists_row (word_of_nat n) (store_rows ?st ! n) rs" by simp
    then have "owner = word_of_nat n" using n(3) that by (auto simp: lists_row_def)
    moreover have "unat (word_of_nat n :: u32) = n" using n(1) s(2) by (simp add: unat_of_nat take_bit_nat_eq_self_iff)
    ultimately show "\<exists>r rs. row_in it owner = Some r \<and> owner_records ?st owner = Some (Inr rs) \<and> lists_row owner r rs \<and> x \<in> set rs"
      using n l by (auto simp: row_in_def nth_opt_def)
  next
    assume "\<exists>r rs. row_in it owner = Some r \<and> owner_records ?st owner = Some (Inr rs) \<and> lists_row owner r rs \<and> x \<in> set rs"
    then show "x \<in> set rows" unfolding set
      by (auto simp: row_in_def nth_opt_def intro!: bexI [of _ "unat owner"] split: if_splits)
  qed
  have row: "row_in it owner = Some r \<Longrightarrow> \<exists>rs. owner_records ?st owner = Some (Inr rs) \<and> lists_row owner r rs" for r
    using owner_records_row [OF s(1), of owner r] by (simp add: row_in_def)
  show "(\<exists>f. (TYPE_DOMAIN, TYPE_DOMAIN, f, owner, t) \<in> set rows) \<longleftrightarrow> (\<exists>r. row_in it owner = Some r \<and> t \<in> set (row_refs r))"
    "(\<exists>f. (TYPE_DOMAIN, DECLARED_RECIPE_DOMAIN, f, owner, i) \<in> set rows) \<longleftrightarrow> (\<exists>r. row_in it owner = Some r \<and> i \<in> set (row_recipes r))"
    unfolding at [OF refl] using row by (fastforce simp: lists_row_def)+
qed

lemma side_maps_lookup:
  assumes "store_inv st"
  shows "fmlookup (lm_iter (st_type_param_constraints st)) = type_param_constraint st"
    "fmlookup (lm_iter (st_template_names st)) = template_name st"
  using assms lm_iter_lookup
  by (auto simp: store_inv_def columns_inv_def side_maps_inv_def plain_map_def fun_eq_iff type_param_constraint_def template_name_def)

lemma constraint_list: "store_inv st \<Longrightarrow> set (all_type_param_constraints st) = {(p, c). type_param_constraint st p = Some c}"
  unfolding all_type_param_constraints_def
  using map_of_eq_Some_iff [OF sorted_fmap_keys, of "lm_iter (st_type_param_constraints st)"]
  by (auto simp: side_maps_lookup)

lemma enumerate_mem: "x \<in> set xs \<longleftrightarrow> (\<exists>i. (i, x) \<in> set (enumerate 0 xs))"
  using map_snd_enumerate [of 0 xs] by (metis (no_types, lifting) image_iff list.set_map prod.collapse snd_conv)

lemma side_records:
  shows "constraint_records st = Inr cs \<Longrightarrow> set cs = (\<Union>(i, p, c) \<in> set (enumerate 0 (all_type_param_constraints st)).
      {(CONTAINER_DOMAIN, TYPE_PARAM_DOMAIN, CONSTRAINT_OWNER_FIELD, word_of_nat i, p),
       (CONTAINER_DOMAIN, TYPE_DOMAIN, CONSTRAINT_TARGET_FIELD, word_of_nat i, c)})"
    "frozen_records st = Inr fs \<Longrightarrow> set fs = (\<Union>(i, p) \<in> set (enumerate 0 (all_frozen_type_params st)).
      {(CONTAINER_DOMAIN, TYPE_PARAM_DOMAIN, FROZEN_TYPE_PARAM_FIELD, word_of_nat i, p)})"
    "template_name_records st = Inr ns \<Longrightarrow> set ns = (\<Union>(i, t) \<in> set (enumerate 0 (sorted_list_of_fset (all_template_name_ids st))).
      {(CONTAINER_DOMAIN, TYPE_DOMAIN, TEMPLATE_NAME_TYPE_FIELD, word_of_nat i, t)})"
proof -
  note col = column_records_all [OF enumerate_bound]
  show "constraint_records st = Inr cs \<Longrightarrow> set cs = (\<Union>(i, p, c) \<in> set (enumerate 0 (all_type_param_constraints st)).
      {(CONTAINER_DOMAIN, TYPE_PARAM_DOMAIN, CONSTRAINT_OWNER_FIELD, word_of_nat i, p),
       (CONTAINER_DOMAIN, TYPE_DOMAIN, CONSTRAINT_TARGET_FIELD, word_of_nat i, c)})"
    using col [OF column_sizes(1), of "''constraint row index exceeds u32''" "\<lambda>owner (parameter, constraint).
        [reference CONTAINER_DOMAIN TYPE_PARAM_DOMAIN CONSTRAINT_OWNER_FIELD owner parameter,
         reference CONTAINER_DOMAIN TYPE_DOMAIN CONSTRAINT_TARGET_FIELD owner constraint]" st]
    by (auto simp: constraint_records_def reference_def)
  show "frozen_records st = Inr fs \<Longrightarrow> set fs = (\<Union>(i, p) \<in> set (enumerate 0 (all_frozen_type_params st)).
      {(CONTAINER_DOMAIN, TYPE_PARAM_DOMAIN, FROZEN_TYPE_PARAM_FIELD, word_of_nat i, p)})"
    using col [OF column_sizes(2), of "''frozen parameter index exceeds u32''"
      "\<lambda>owner parameter. [reference CONTAINER_DOMAIN TYPE_PARAM_DOMAIN FROZEN_TYPE_PARAM_FIELD owner parameter]" st]
    by (auto simp: frozen_records_def reference_def)
  show "template_name_records st = Inr ns \<Longrightarrow> set ns = (\<Union>(i, t) \<in> set (enumerate 0 (sorted_list_of_fset (all_template_name_ids st))).
      {(CONTAINER_DOMAIN, TYPE_DOMAIN, TEMPLATE_NAME_TYPE_FIELD, word_of_nat i, t)})"
    using col [OF column_sizes(3), of "''template-name row index exceeds u32''"
      "\<lambda>owner ty. [reference CONTAINER_DOMAIN TYPE_DOMAIN TEMPLATE_NAME_TYPE_FIELD owner ty]" st]
    by (auto simp: template_name_records_def reference_def)
qed

text \<open>The types that some identity edge of the store points at.\<close>

definition referenced_types :: "store \<Rightarrow> type_id set" where
  "referenced_types st =
     (\<Union>r \<in> set (store_rows st). set (row_refs r)) \<union> (\<Union>recipe \<in> set (recipe_list st). set (node_types (dr_node recipe))) \<union>
     {c. \<exists>p. type_param_constraint st p = Some c} \<union> {t. template_name st t \<noteq> None}"

lemma named_types: "store_inv st \<Longrightarrow> set (sorted_list_of_fset (all_template_name_ids st)) = {t. template_name st t \<noteq> None}"
  by (auto simp: all_template_name_ids_def fmdom_lookup side_maps_lookup)

lemma rows_refs: "(\<exists>owner r. row_in it owner = Some r \<and> t \<in> set (row_refs r)) \<longleftrightarrow> (\<exists>r \<in> set (store_rows (it_store it)). t \<in> set (row_refs r))"
  if "store_len (it_store it) \<le> 2 ^ 32"
proof
  assume "\<exists>r \<in> set (store_rows (it_store it)). t \<in> set (row_refs r)"
  then obtain r where r: "r \<in> set (store_rows (it_store it))" "t \<in> set (row_refs r)" by blast
  from r(1) obtain n where n: "n < store_len (it_store it)" "t \<in> set (row_refs (store_rows (it_store it) ! n))"
    using r(2) by (metis in_set_conv_nth length_store_rows)
  then have "unat (word_of_nat n :: u32) = n" using that by (simp add: unat_of_nat take_bit_nat_eq_self_iff)
  then show "\<exists>owner r. row_in it owner = Some r \<and> t \<in> set (row_refs r)"
    using n by (intro exI [of _ "word_of_nat n"]) (simp add: row_in_def nth_opt_def)
qed (auto simp: row_in_def nth_opt_def split: if_splits)

lemma recipe_listed: "(\<exists>i. (i, recipe) \<in> set (all_declared_recipes st)) \<longleftrightarrow> recipe \<in> set (recipe_list st)"
  unfolding enumerate_mem [of recipe "recipe_list st"] by (force simp: all_declared_recipes_def)

lemma projection_targets:
  assumes inv: "interner_inv fx it" and run: "typed_reference_records_for_replay_generation it = Some (Inr rs)"
  shows "(\<exists>f. (TYPE_DOMAIN, TYPE_DOMAIN, f, owner, t) \<in> set rs) \<longleftrightarrow> (\<exists>r. row_in it owner = Some r \<and> t \<in> set (row_refs r))"
    "{t. \<exists>d f owner. (d, TYPE_DOMAIN, f, owner, t) \<in> set rs} = referenced_types (it_store it)"
    "sorted rs"
proof -
  let ?st = "it_store it"
  from projection_returns [OF inv] run obtain rows cs fs ns where
    set: "set rs = (\<Union>x \<in> set (all_declared_recipes ?st). set (recipe_records x)) \<union> set rows \<union> set cs \<union> set fs \<union> set ns"
    and p: "records_of_owners ?st [0..<store_len ?st] = Some (Inr rows)"
      "constraint_records ?st = Inr cs" "frozen_records ?st = Inr fs" "template_name_records ?st = Inr ns" and srt: "sorted rs"
    by auto
  show "sorted rs" by (rule srt)
  have s: "store_inv ?st" "store_len ?st \<le> 2 ^ 32" using inv by (simp_all add: interner_inv_def)
  note row = row_records_targets [OF inv p(1)] and side = side_records(1) [OF p(2)] side_records(2) [OF p(3)] side_records(3) [OF p(4)]
  have sd: "fst x = CONTAINER_DOMAIN" if "x \<in> set cs \<or> x \<in> set fs \<or> x \<in> set ns" for x using that by (auto simp: side)
  have rd: "fst x = DECLARED_RECIPE_DOMAIN" if "x \<in> set (recipe_records y)" for x y
    using that recipe_records_targets(3) by (cases y) blast
  have ty: "(TYPE_DOMAIN, x) \<in> set rs \<longleftrightarrow> (TYPE_DOMAIN, x) \<in> set rows" for x
    unfolding set using sd [of "(TYPE_DOMAIN, x)"] rd [of "(TYPE_DOMAIN, x)"] by (auto simp: domain_defs)
  have re: "(DECLARED_RECIPE_DOMAIN, x) \<in> set rs \<longleftrightarrow> (\<exists>y \<in> set (all_declared_recipes ?st). (DECLARED_RECIPE_DOMAIN, x) \<in> set (recipe_records y))" for x
    unfolding set using sd [of "(DECLARED_RECIPE_DOMAIN, x)"] row(3) [of "(DECLARED_RECIPE_DOMAIN, x)"] by (auto simp: domain_defs)
  have co: "(CONTAINER_DOMAIN, x) \<in> set rs \<longleftrightarrow> (CONTAINER_DOMAIN, x) \<in> set cs \<union> set fs \<union> set ns" for x
    unfolding set using rd [of "(CONTAINER_DOMAIN, x)"] row(3) [of "(CONTAINER_DOMAIN, x)"] by (auto simp: domain_defs)
  have only: "d \<in> {TYPE_DOMAIN, DECLARED_RECIPE_DOMAIN, CONTAINER_DOMAIN}" if "(d, x) \<in> set rs" for d x
    using that sd [of "(d, x)"] rd [of "(d, x)"] row(3) [of "(d, x)"] unfolding set by auto
  show t1: "(\<exists>f. (TYPE_DOMAIN, TYPE_DOMAIN, f, owner, t) \<in> set rs) \<longleftrightarrow> (\<exists>r. row_in it owner = Some r \<and> t \<in> set (row_refs r))" for owner t
    unfolding ty by (rule row(1))
  have a: "(\<exists>f owner. (TYPE_DOMAIN, TYPE_DOMAIN, f, owner, t) \<in> set rs) \<longleftrightarrow> (\<exists>r \<in> set (store_rows ?st). t \<in> set (row_refs r))" for t
    using t1 rows_refs [OF s(2)] by metis
  have b: "(\<exists>f i. (DECLARED_RECIPE_DOMAIN, TYPE_DOMAIN, f, i, t) \<in> set rs) \<longleftrightarrow> (\<exists>recipe \<in> set (recipe_list ?st). t \<in> set (node_types (dr_node recipe)))" for t
  proof -
    have "(\<exists>f i. (DECLARED_RECIPE_DOMAIN, TYPE_DOMAIN, f, i, t) \<in> set rs) \<longleftrightarrow>
        (\<exists>i recipe. (i, recipe) \<in> set (all_declared_recipes ?st) \<and> t \<in> set (node_types (dr_node recipe)))"
      unfolding re Bex_def split_paired_Ex by (auto simp: recipe_records_targets(1))
    then show ?thesis using recipe_listed [of _ ?st] by blast
  qed
  have c: "(\<exists>f i. (CONTAINER_DOMAIN, TYPE_DOMAIN, f, i, t) \<in> set rs) \<longleftrightarrow> (\<exists>p. type_param_constraint ?st p = Some t) \<or> template_name ?st t \<noteq> None" for t
  proof -
    have "(\<exists>p. type_param_constraint ?st p = Some t) \<longleftrightarrow> (\<exists>p. (p, t) \<in> set (all_type_param_constraints ?st))"
      by (simp add: constraint_list [OF s(1)])
    then have c: "(\<exists>p. type_param_constraint ?st p = Some t) \<longleftrightarrow> (\<exists>i p. (i, p, t) \<in> set (enumerate 0 (all_type_param_constraints ?st)))"
      using enumerate_mem [of _ "all_type_param_constraints ?st"] by metis
    moreover have "template_name ?st t \<noteq> None \<longleftrightarrow> t \<in> set (sorted_list_of_fset (all_template_name_ids ?st))"
      by (simp only: named_types [OF s(1)] mem_Collect_eq)
    then have "template_name ?st t \<noteq> None \<longleftrightarrow> (\<exists>i. (i, t) \<in> set (enumerate 0 (sorted_list_of_fset (all_template_name_ids ?st))))"
      using enumerate_mem [of t "sorted_list_of_fset (all_template_name_ids ?st)"] by simp
    moreover have "(\<exists>f i. (CONTAINER_DOMAIN, TYPE_DOMAIN, f, i, t) \<in> set rs) \<longleftrightarrow>
        (\<exists>i p. (i, p, t) \<in> set (enumerate 0 (all_type_param_constraints ?st))) \<or>
        (\<exists>i. (i, t) \<in> set (enumerate 0 (sorted_list_of_fset (all_template_name_ids ?st))))"
      unfolding co side by (simp add: domain_defs Bex_def split_paired_Ex ex_disj_distrib)
    ultimately show ?thesis by simp
  qed
  have "(\<exists>d f owner. (d, TYPE_DOMAIN, f, owner, t) \<in> set rs) \<longleftrightarrow> (\<exists>f owner. (TYPE_DOMAIN, TYPE_DOMAIN, f, owner, t) \<in> set rs) \<or>
      (\<exists>f i. (DECLARED_RECIPE_DOMAIN, TYPE_DOMAIN, f, i, t) \<in> set rs) \<or> (\<exists>f i. (CONTAINER_DOMAIN, TYPE_DOMAIN, f, i, t) \<in> set rs)" for t
    using only by fast
  then show "{t. \<exists>d f owner. (d, TYPE_DOMAIN, f, owner, t) \<in> set rs} = referenced_types ?st"
    unfolding a b c by (auto simp: referenced_types_def)
qed

end
