(* ===== verification/Session.thy ===== *)
theory Session
  imports Declared Relation_Properties
begin

text \<open>
  A session: one interner, used by every component. The operations of the interner, the interning of
  recipes and the summaries of substitution run on it in any order; its callers pass only ids it has
  given them. Shown: every identity edge of a session's store points into the store, the operands
  that are followed without a visited set are older than their owner, the caches of summaries stay
  exact, and the relation engine runs on it: it returns and its verdicts are right. This theory has the
  invariant and the operations, \<open>Session_Steps\<close> that every operation keeps it, \<open>Session_Properties\<close> what
  follows.
\<close>

section \<open>What the operations leave alone\<close>

definition side_of :: "store \<Rightarrow> declared_type_recipe layered_vec \<times> (type_param_id, type_id) layered_map \<times> (type_id, string) layered_map" where
  "side_of s = (st_declared_recipes s, st_type_param_constraints s, st_template_names s)"

definition caches_of :: "interner \<Rightarrow> free_param_summary_cache \<times> (type_id, application_key_mode) derived_graph_cache \<times>
    (declared_type_recipe, declared_recipe_id) fmap \<times> (declared_type_recipe, declared_recipe_id) fmap" where
  "caches_of it = (it_free_param_summaries it, it_application_key_modes it, it_declared_recipe_base it, it_declared_recipe_local it)"

definition untouched :: "interner \<Rightarrow> interner \<Rightarrow> bool" where
  "untouched it it' \<longleftrightarrow> side_of (it_store it') = side_of (it_store it) \<and> caches_of it' = caches_of it \<and>
     st_semantic_graph_identity (it_store it') = st_semantic_graph_identity (it_store it)"

lemma untouched_refl [simp]: "untouched it it"
  by (simp add: untouched_def)

definition side_kept :: "(store \<Rightarrow> (type_id \<times> store) option) \<Rightarrow> bool" where
  "side_kept push_row \<longleftrightarrow> (\<forall>s tid s'. push_row s = Some (tid, s') \<longrightarrow>
     side_of s' = side_of s \<and> st_semantic_graph_identity s' = st_semantic_graph_identity s)"

lemma hash_cons_untouched:
  "side_kept push_row \<Longrightarrow> hash_cons fx key eq push_row it = Some (tid, it') \<Longrightarrow> untouched it it'"
  by (auto simp: hash_cons_def side_kept_def untouched_def caches_of_def Let_def split: option.splits bind_splits)

lemma push_side:
  "side_of (snd (push s t fl p)) = side_of s"
  "st_semantic_graph_identity (snd (push s t fl p)) = st_semantic_graph_identity s"
  by (simp_all add: push_def side_of_def)

lemma pushes_side_kept:
  "side_kept (\<lambda>s. Some (push_intrinsic s k fl))" "side_kept (\<lambda>s. Some (push_literal s v fl))"
  "side_kept (\<lambda>s. Some (push_object s ob fl))" "side_kept (\<lambda>s. Some (push_function s f fl))"
  "side_kept (\<lambda>s. Some (push_union s ms fl))" "side_kept (\<lambda>s. Some (push_intersection s ms fl))"
  "side_kept (\<lambda>s. Some (push_type_param s p fl))" "side_kept (\<lambda>s. Some (push_array s e fl))"
  "side_kept (\<lambda>s. Some (push_tuple s tu fl))" "side_kept (\<lambda>s. Some (push_readonly s e fl))"
  "side_kept (\<lambda>s. Some (push_conditional s c fl))" "side_kept (\<lambda>s. Some (push_instantiation s i fl))"
  "side_kept (\<lambda>s. Some (push_infer s n fl))" "side_kept (\<lambda>s. Some (push_mapped s m fl))"
  "side_kept (\<lambda>s. Some (push_mapped_value s fl))" "side_kept (\<lambda>s. Some (push_template s te fl))"
  "side_kept (\<lambda>s. Some (push_keyof s e fl))" "side_kept (\<lambda>s. push_class_instance s ci fl)"
  "side_kept (\<lambda>s. push_deferred_indexed_access s di fl)" "side_kept (\<lambda>s. push_declared s de fl)"
  by (auto simp: side_kept_def side_of_def push_def push_intrinsic_def push_literal_def push_object_def push_function_def
      push_union_def push_intersection_def push_type_param_def push_array_def push_tuple_def push_readonly_def
      push_conditional_def push_instantiation_def push_infer_def push_mapped_def push_mapped_value_def push_template_def
      push_keyof_def push_class_instance_def push_deferred_indexed_access_def push_declared_def Let_def
      split: option.splits bind_splits prod.splits if_splits)

lemma request_untouched: "run_request fx it req = Some (tid, it') \<Longrightarrow> untouched it it'"
  by (cases req) (auto simp: intern_defs Let_def intro: hash_cons_untouched pushes_side_kept)

lemma set_rows_untouched:
  "intern_union_members fx it ms = Some (tid, it') \<Longrightarrow> untouched it it'"
  "intern_intersection_members fx it ms = Some (tid, it') \<Longrightarrow> untouched it it'"
  by (auto simp: intern_union_members_def intern_intersection_members_def intro: hash_cons_untouched pushes_side_kept)

lemma declared_untouched: "intern_declared fx it recipe mapper = Some (tid, it') \<Longrightarrow> untouched it it'"
  by (auto simp: intern_declared_def Let_def intro: hash_cons_untouched pushes_side_kept split: bind_splits)

lemma reserve_untouched:
  "untouched it (snd (reserve_object it))" "untouched it (snd (reserve_conditional it))" "untouched it (snd (reserve_mapped it))"
proof -
  have r: "untouched it (snd (register_reserved_type (it\<lparr>it_store := s\<rparr>) tid kind))"
    if "side_of s = side_of (it_store it)" "st_semantic_graph_identity s = st_semantic_graph_identity (it_store it)" for s tid kind
    using that by (simp add: untouched_def register_reserved_type_def caches_of_def)
  show "untouched it (snd (reserve_object it))" "untouched it (snd (reserve_conditional it))" "untouched it (snd (reserve_mapped it))"
    using pushes_side_kept(3,11,14) unfolding side_kept_def
    by (auto simp: reserve_object_def reserve_conditional_def reserve_mapped_def intro!: r split: prod.split)
qed

text \<open>An operation that may also replace rows: the graph gets a new identity.\<close>

definition mutated :: "interner \<Rightarrow> interner \<Rightarrow> bool" where
  "mutated it it' \<longleftrightarrow> side_of (it_store it') = side_of (it_store it) \<and> caches_of it' = caches_of it \<and>
     st_semantic_graph_identity (it_store it) < st_semantic_graph_identity (it_store it')"

lemma write_fill_side:
  "write_fill s fill = Some s' \<Longrightarrow> side_of s' = side_of s \<and> st_semantic_graph_identity s' = st_semantic_graph_identity s"
  by (cases fill)
    (auto simp: write_fill_def set_object_def set_conditional_def set_mapped_def side_of_def split: bind_splits if_splits)

lemma write_fills_untouched: "write_fills it fills = Some it' \<Longrightarrow> untouched it it'"
proof (induction fills arbitrary: it)
  case (Cons f fills)
  from Cons.prems obtain s rt where s: "write_fill (it_store it) f = Some s" "fmlookup (it_reserved_types it) (fill_target f) = Some rt"
    and rest: "write_fills (it\<lparr>it_store := s, it_reserved_types :=
       fmupd (fill_target f) (rt\<lparr>rt_state := State_Frozen\<rparr>) (it_reserved_types it)\<rparr>) fills = Some it'"
    by (auto split: bind_splits)
  from Cons.IH [OF rest] write_fill_side [OF s(1)] show ?case by (simp add: untouched_def caches_of_def)
qed simp

lemma fill_mutated:
  assumes "fill_reserved_type_batch it fills = Some (err, it')"
  shows "it' = it \<or> mutated it it'"
proof -
  consider "it' = it" | "write_fills (it\<lparr>it_store := mark_semantic_graph_mutation (it_store it)\<rparr>) (map canonical_fill fills) = Some it'"
    using assms by (auto simp: fill_reserved_type_batch_def Let_def split: option.splits bind_splits if_splits)
  then show ?thesis
  proof cases
    case 2
    from write_fills_untouched [OF this] show ?thesis
      by (simp add: mutated_def untouched_def mark_semantic_graph_mutation_def side_of_def caches_of_def)
  qed simp
qed

lemma promote_untouched:
  "promote_caller_certified_acyclic_reserved_object fx it tid = Some (res, it') \<Longrightarrow> untouched it it'"
  by (auto simp: promote_caller_certified_acyclic_reserved_object_def Let_def untouched_def caches_of_def
      split: if_splits option.splits bind_splits)

text \<open>The side columns of a store that has been sealed or forked read as before.\<close>

definition same_reading :: "store \<Rightarrow> store \<Rightarrow> bool" where
  "same_reading s s' \<longleftrightarrow> recipe_list s' = recipe_list s \<and> type_param_constraint s' = type_param_constraint s \<and>
     template_name s' = template_name s"

lemma side_same_reading: "side_of s' = side_of s \<Longrightarrow> same_reading s s'"
  by (simp add: side_of_def same_reading_def type_param_constraint_def [abs_def] template_name_def [abs_def])

lemma store_freeze_reading:
  assumes inv: "store_inv s" and freeze: "store_freeze_as_base s = Inr s'"
  shows "same_reading s s'" "st_semantic_graph_identity s' = st_semantic_graph_identity s"
proof -
  have maps: "lm_inv (st_type_param_constraints s)" "lm_inv (st_template_names s)"
    using inv by (simp_all add: store_inv_def side_maps_inv_def plain_map_def)
  from freeze have open_: "\<not> lv_sealed (st_tag s)" by (auto simp: store_freeze_as_base_def)
  show "same_reading s s'" "st_semantic_graph_identity s' = st_semantic_graph_identity s"
    by (rule store_freeze_frozen [OF inv open_],
        use freeze lm_freeze_get [OF maps(1)] lm_freeze_get [OF maps(2)] in
          \<open>simp add: same_reading_def frozen_store_def column_frozen type_param_constraint_def [abs_def] template_name_def [abs_def]\<close>)+
qed

lemma store_fork_reading:
  assumes inv: "store_inv s" and fork: "store_fork_delta s = Inr d"
  shows "same_reading s d" "st_semantic_graph_identity d = Suc (st_semantic_graph_identity s)"
proof -
  have "same_reading s d \<and> st_semantic_graph_identity d = Suc (st_semantic_graph_identity s)"
  proof (rule store_fork_frozen [OF inv fork])
    fix names constraints templates frozen
    assume d: "d = frozen_store s names constraints templates frozen (Suc (st_semantic_graph_identity s)) (st_sealed_type_param_ids s)"
      and maps: "lm_fork_delta (st_type_param_constraints s) = Inr constraints" "lm_fork_delta (st_template_names s) = Inr templates"
    show ?thesis
      using lm_fork_get [OF maps(1)] lm_fork_get [OF maps(2)]
      by (simp add: d same_reading_def frozen_store_def column_frozen type_param_constraint_def [abs_def] template_name_def [abs_def])
  qed
  then show "same_reading s d" "st_semantic_graph_identity d = Suc (st_semantic_graph_identity s)" by simp_all
qed

section \<open>The invariant of a session\<close>

abbreviation valid :: "interner \<Rightarrow> type_id \<Rightarrow> bool" where
  "valid it t \<equiv> row_in it t \<noteq> None"

text \<open>What a row may hold: types and recipes of the interner, and older types where no visited set is kept.\<close>

definition row_closed :: "interner \<Rightarrow> ty_row \<Rightarrow> bool" where
  "row_closed it r \<longleftrightarrow> (\<forall>c \<in> set (row_refs r). valid it c) \<and>
     (\<forall>k \<in> set (row_recipes r). unat k < length (recipe_list (it_store it)))"

definition rows_closed :: "interner \<Rightarrow> bool" where
  "rows_closed it \<longleftrightarrow> (\<forall>i r. row_in it i = Some r \<longrightarrow> row_closed it r \<and> (\<forall>c \<in> set (row_older r). c < i))"

definition side_closed :: "interner \<Rightarrow> bool" where
  "side_closed it \<longleftrightarrow> (\<forall>p c. type_param_constraint (it_store it) p = Some c \<longrightarrow> valid it c) \<and>
     (\<forall>t. template_name (it_store it) t \<noteq> None \<longrightarrow> valid it t)"

definition recipe_index :: "interner \<Rightarrow> declared_type_recipe \<Rightarrow> declared_recipe_id option" where
  "recipe_index it recipe = (case fmlookup (it_declared_recipe_local it) recipe of
     Some i \<Rightarrow> Some i | None \<Rightarrow> fmlookup (it_declared_recipe_base it) recipe)"

definition recipes_closed :: "interner \<Rightarrow> bool" where
  "recipes_closed it \<longleftrightarrow> (let rs = recipe_list (it_store it) in length rs \<le> 2 ^ 32 \<and>
     (\<forall>i < length rs. (\<forall>t \<in> set (node_types (dr_node (rs ! i))). valid it t) \<and>
        (\<forall>c \<in> set (node_children (dr_node (rs ! i))). unat c < i)) \<and>
     (\<forall>recipe i. recipe_index it recipe = Some i \<longrightarrow> nth_opt rs (unat i) = Some recipe))"

text \<open>
  The caches are not ahead of the graph, what alignment leaves of them is exact, and so are their
  sealed parts, which survive alignment and forking, over a base that is closed in itself.
\<close>

definition caches_exact :: "interner \<Rightarrow> bool" where
  "caches_exact it \<longleftrightarrow>
     fp_graph_identity (it_free_param_summaries it) \<le> st_semantic_graph_identity (it_store it) \<and>
     gc_graph_identity (it_application_key_modes it) \<le> st_semantic_graph_identity (it_store it) \<and>
     summaries_exact it \<and>
     (\<forall>ty f. fmlookup (fp_base (it_free_param_summaries it)) ty = Some f \<longrightarrow>
        unat ty < store_base_len (it_store it) \<and> exact_params (it_store it) ty f) \<and>
     (\<forall>ty k. fmlookup (gc_base (it_application_key_modes it)) ty = Some k \<longrightarrow>
        unat ty < store_base_len (it_store it) \<and> exact_mode (it_store it) ty k) \<and>
     (\<forall>i r c. row_in it i = Some r \<longrightarrow> unat i < store_base_len (it_store it) \<longrightarrow> c \<in> set (row_targets r) \<longrightarrow>
        unat c < store_base_len (it_store it))"

definition session_inv :: "hasher \<Rightarrow> interner \<Rightarrow> bool" where
  "session_inv fx it \<longleftrightarrow> machine_inv fx it \<and> rows_closed it \<and> side_closed it \<and> recipes_closed it \<and> caches_exact it"

text \<open>Free parameters and retained mappers depend on the rows that can be reached.\<close>

lemma region_agrees:
  assumes rows: "\<And>t. t \<in> A \<Longrightarrow> st_row st' t = st_row st t"
    and closed: "\<And>t r c. t \<in> A \<Longrightarrow> st_row st t = Some r \<Longrightarrow> c \<in> set (row_targets r) \<Longrightarrow> c \<in> A"
    and own: "\<And>t r. t \<in> A \<Longrightarrow> st_row st t = Some r \<Longrightarrow> row_own st' r = row_own st r"
    and t: "t \<in> A"
  shows "free_in st' p t \<longleftrightarrow> free_in st p t" "retains st' t \<longleftrightarrow> retains st t"
proof -
  have "free_in st p t" if "free_in st' p t" "t \<in> A" for t
    using that
  proof (induction rule: free_in.induct)
    case (own t r)
    then show ?case using rows assms(3) free_in.own by metis
  next
    case (child t r c)
    then show ?case using rows closed free_in.child by metis
  qed
  moreover have "free_in st' p t" if "free_in st p t" "t \<in> A" for t
    using that
  proof (induction rule: free_in.induct)
    case (own t r)
    then show ?case using rows assms(3) free_in.own by metis
  next
    case (child t r c)
    then show ?case using rows closed free_in.child by metis
  qed
  ultimately show "free_in st' p t \<longleftrightarrow> free_in st p t" using t by blast
  have "retains st t" if "retains st' t" "t \<in> A" for t
    using that by (induction rule: retains.induct) (metis rows retains.here, metis rows closed retains.below)
  moreover have "retains st' t" if "retains st t" "t \<in> A" for t
    using that by (induction rule: retains.induct) (metis rows retains.here, metis rows closed retains.below)
  ultimately show "retains st' t \<longleftrightarrow> retains st t" using t by blast
qed

lemma exact_region:
  assumes "\<And>t. t \<in> A \<Longrightarrow> st_row st' t = st_row st t"
    "\<And>t r c. t \<in> A \<Longrightarrow> st_row st t = Some r \<Longrightarrow> c \<in> set (row_targets r) \<Longrightarrow> c \<in> A"
    "\<And>t r. t \<in> A \<Longrightarrow> st_row st t = Some r \<Longrightarrow> row_own st' r = row_own st r" "t \<in> A"
  shows "exact_params st' t f \<longleftrightarrow> exact_params st t f" "exact_mode st' t k \<longleftrightarrow> exact_mode st t k"
  using region_agrees [OF assms] assms(1) [OF assms(4)] by (simp_all add: exact_params_def exact_mode_def)

lemma row_own_recipes:
  assumes "\<forall>k \<in> set (row_recipes r). unat k < length (recipe_list st)" "recipe_list st' = recipe_list st @ news"
  shows "row_own st' r = row_own st r"
  using assms by (cases r) (simp_all add: row_recipes_def declared_recipe_def lv_get_list nth_opt_append)

lemma row_older_refs: "set (row_older r) \<subseteq> set (row_refs r)"
  by (cases r) (auto simp: row_refs_def opt_ids_def opt_list_def split: option.splits)

lemma row_in_st_row: "row_in it t = st_row (it_store it) t"
  by (simp add: row_in_def)

lemma valid_iff: "valid it t \<longleftrightarrow> unat t < store_len (it_store it)"
  by (simp add: row_in_def nth_opt_def)

lemma base_valid: "unat i < store_base_len (it_store it) \<Longrightarrow> valid it i"
  by (simp add: row_in_def nth_opt_def store_base_len_def store_len_def layered_defs)

text \<open>The summaries that alignment keeps in both interners.\<close>

lemma aligned_caches:
  assumes "caches_of it' = caches_of it"
    "st_semantic_graph_identity (it_store it') = st_semantic_graph_identity (it_store it)"
  shows "it_free_param_summaries (aligned it') = it_free_param_summaries (aligned it)"
    "it_application_key_modes (aligned it') = it_application_key_modes (aligned it)"
  using assms by (simp_all add: aligned_def caches_of_def)

lemma outdated_caches:
  assumes "fp_graph_identity (it_free_param_summaries it) < st_semantic_graph_identity (it_store it)"
    "gc_graph_identity (it_application_key_modes it) < st_semantic_graph_identity (it_store it)"
  shows "fp_get (it_free_param_summaries (aligned it)) ty = None"
    "gc_get (it_application_key_modes (aligned it)) ty = fmlookup (gc_base (it_application_key_modes it)) ty"
  using assms by (simp_all add: aligned_def fp_align_with_def gc_align_with_def fp_get_def gc_get_def)

lemma session_stepI:
  assumes inv: "session_inv fx it" and inv': "machine_inv fx it'"
    and keep: "\<And>i. valid it i \<Longrightarrow> valid it' i"
    and rows: "\<And>i r. row_in it' i = Some r \<Longrightarrow> row_in it i = Some r \<or>
      row_closed it r \<and> (row_in it i = None \<or> row_older r = [])"
    and recipes: "recipe_list (it_store it') = recipe_list (it_store it)" and caches: "caches_of it' = caches_of it"
    and side: "side_closed it'"
    and base: "store_base_len (it_store it') = store_base_len (it_store it)"
      "\<And>i. unat i < store_base_len (it_store it) \<Longrightarrow> row_in it' i = row_in it i"
    and ident: "st_semantic_graph_identity (it_store it') = st_semantic_graph_identity (it_store it) \<and>
        (\<forall>i. valid it i \<longrightarrow> row_in it' i = row_in it i) \<or>
      st_semantic_graph_identity (it_store it) < st_semantic_graph_identity (it_store it')"
  shows "session_inv fx it'"
proof -
  have rc: "rows_closed it" "recipes_closed it" "caches_exact it" using inv by (simp_all add: session_inv_def)
  have closed: "row_closed it' r" if "row_closed it r" for r
    using that keep recipes by (auto simp: row_closed_def)
  have newer: "c < i" if "valid it c" "row_in it i = None" for c i
    using that by (simp add: valid_iff nth_opt_eq_None row_in_def word_less_nat_alt)
  have "rows_closed it'"
    unfolding rows_closed_def
  proof (intro allI impI conjI ballI)
    fix i r assume r: "row_in it' i = Some r"
    from rows [OF r] show "row_closed it' r" using rc(1) closed by (auto simp: rows_closed_def)
    fix c assume c: "c \<in> set (row_older r)"
    from rows [OF r] show "c < i"
    proof
      assume "row_in it i = Some r"
      then show ?thesis using rc(1) c by (auto simp: rows_closed_def)
    next
      assume new: "row_closed it r \<and> (row_in it i = None \<or> row_older r = [])"
      then have "valid it c" using c row_older_refs by (auto simp: row_closed_def)
      then show ?thesis using new c newer by auto
    qed
  qed
  moreover have "recipe_index it' = recipe_index it"
    using caches by (simp add: recipe_index_def fun_eq_iff caches_of_def split: option.split)
  then have "recipes_closed it'" using rc(2) keep recipes by (simp add: recipes_closed_def Let_def)
  moreover have "caches_exact it'"
  proof -
    let ?B = "{t. unat t < store_base_len (it_store it)}"
    have own: "row_own (it_store it') r = row_own (it_store it) r" if "st_row (it_store it) t = Some r" for t r
      by (rule row_own_recipes [where news = "[]"])
        (use rc(1) that recipes in \<open>auto simp: rows_closed_def row_closed_def row_in_st_row\<close>)
    have bclosed: "c \<in> ?B" if "t \<in> ?B" "st_row (it_store it) t = Some r" "c \<in> set (row_targets r)" for t r c
      using rc(3) that by (auto simp: caches_exact_def row_in_st_row)
    have bex: "exact_params (it_store it') t f \<longleftrightarrow> exact_params (it_store it) t f"
        "exact_mode (it_store it') t k \<longleftrightarrow> exact_mode (it_store it) t k" if "t \<in> ?B" for t f k
      by (rule exact_region [where A = ?B]; use base(2) bclosed own that in \<open>auto simp: row_in_st_row\<close>)+
    have bases: "fp_base (it_free_param_summaries it') = fp_base (it_free_param_summaries it)"
        "gc_base (it_application_key_modes it') = gc_base (it_application_key_modes it)"
        "fp_graph_identity (it_free_param_summaries it') = fp_graph_identity (it_free_param_summaries it)"
        "gc_graph_identity (it_application_key_modes it') = gc_graph_identity (it_application_key_modes it)"
      using caches by (simp_all add: caches_of_def)
    have "summaries_exact it'"
      using ident
    proof
      assume same: "st_semantic_graph_identity (it_store it') = st_semantic_graph_identity (it_store it) \<and>
        (\<forall>i. valid it i \<longrightarrow> row_in it' i = row_in it i)"
      let ?A = "{t. valid it t}"
      have "c \<in> ?A" if "st_row (it_store it) t = Some r" "c \<in> set (row_targets r)" for t r c
        using rc(1) that by (auto simp: rows_closed_def row_closed_def row_refs_def row_in_st_row)
      then have ex: "exact_params (it_store it') t f \<longleftrightarrow> exact_params (it_store it) t f"
          "exact_mode (it_store it') t k \<longleftrightarrow> exact_mode (it_store it) t k" if "valid it t" for t f k
        by (intro exact_region [where A = ?A]; use same own that in \<open>auto simp: row_in_st_row\<close>)+
      have carry: "exact_params (it_store it) t f \<Longrightarrow> exact_params (it_store it') t f"
          "exact_mode (it_store it) t k \<Longrightarrow> exact_mode (it_store it') t k" for t f k
        using ex(1) [of t f] ex(2) [of t k] by (auto simp: exact_params_def exact_mode_def row_in_st_row)
      have ac: "it_free_param_summaries (aligned it') = it_free_param_summaries (aligned it)"
          "it_application_key_modes (aligned it') = it_application_key_modes (aligned it)"
        using aligned_caches [OF caches] same by blast+
      show ?thesis unfolding summaries_exact_def ac
        using rc(3) carry by (auto simp: caches_exact_def summaries_exact_def)
    next
      assume lt: "st_semantic_graph_identity (it_store it) < st_semantic_graph_identity (it_store it')"
      have "fp_graph_identity (it_free_param_summaries it') < st_semantic_graph_identity (it_store it')"
          "gc_graph_identity (it_application_key_modes it') < st_semantic_graph_identity (it_store it')"
        using rc(3) lt bases by (auto simp: caches_exact_def)
      note out = outdated_caches [OF this]
      show ?thesis unfolding summaries_exact_def out bases
        using rc(3) bex by (auto simp: caches_exact_def)
    qed
    moreover have "st_semantic_graph_identity (it_store it) \<le> st_semantic_graph_identity (it_store it')" using ident by auto
    ultimately show ?thesis
      using rc(3) bex base unfolding caches_exact_def bases by auto
  qed
  ultimately show ?thesis using inv' side by (simp add: session_inv_def)
qed

section \<open>The operations of a session\<close>

datatype session_op =
    Session_Op interner_op
  | Session_Recipe declared_recipe_node
  | Session_Summaries type_id

fun run_session :: "hasher \<Rightarrow> interner \<Rightarrow> session_op \<Rightarrow> interner option" where
  "run_session fx it (Session_Op op) = run_op fx it op"
| "run_session fx it (Session_Recipe node) = map_option snd (intern_declared_recipe it node)"
| "run_session fx it (Session_Summaries ty) = map_option snd (compute_application_summaries it ty)"

text \<open>The ids an operation hands to the interner. Publishing summaries is left to their computation.\<close>

fun op_refs :: "interner_op \<Rightarrow> type_id list" where
  "op_refs (Op_Intern req) = row_refs (request_row req)"
| "op_refs (Op_Declared _ mapper) = map snd mapper"
| "op_refs (Op_Fill fills) = concat (map (\<lambda>f. row_refs (fill_row f)) fills)"
| "op_refs (Op_SetConstraint _ c) = [c]"
| "op_refs _ = []"

fun publishes_summaries :: "interner_op \<Rightarrow> bool" where
  "publishes_summaries (Op_PublishSummaries _) = True"
| "publishes_summaries (Op_PublishKeyModes _) = True"
| "publishes_summaries _ = False"

fun node_shaped :: "declared_recipe_node \<Rightarrow> bool" where
  "node_shaped (Recipe_Tuple elements (Some (position, _))) \<longleftrightarrow> position \<le> length elements"
| "node_shaped (Recipe_Application _ parameters arguments) \<longleftrightarrow> length parameters = length arguments \<and> distinct parameters"
| "node_shaped _ \<longleftrightarrow> True"

abbreviation node_ok :: "interner \<Rightarrow> declared_recipe_node \<Rightarrow> bool" where
  "node_ok it node \<equiv> node_shaped node \<and> list_all (valid it) (node_types node) \<and>
     list_all (\<lambda>c. unat c < length (recipe_list (it_store it))) (node_children node)"

fun session_ok :: "interner \<Rightarrow> session_op \<Rightarrow> bool" where
  "session_ok it (Session_Op op) \<longleftrightarrow> op_ok it op \<and> list_all (valid it) (op_refs op) \<and> \<not> publishes_summaries op"
| "session_ok it (Session_Recipe node) \<longleftrightarrow> node_ok it node \<and> length (recipe_list (it_store it)) < 2 ^ 32"
| "session_ok it (Session_Summaries ty) \<longleftrightarrow> valid it ty"

lemma side_closed_reading:
  assumes "side_closed it" "same_reading (it_store it) (it_store it')" "\<And>i. valid it i \<Longrightarrow> valid it' i"
  shows "side_closed it'"
  using assms unfolding side_closed_def same_reading_def by metis

lemma untouched_reading: "untouched it it' \<Longrightarrow> same_reading (it_store it) (it_store it')"
  by (rule side_same_reading) (simp add: untouched_def)

lemma key_refs:
  assumes "row_key r' = row_key r"
  shows "row_refs r' = row_refs r" "row_recipes r' = row_recipes r"
proof -
  have "row_refs r' = row_refs r \<and> row_recipes r' = row_recipes r"
    using assms by (cases r; cases r') (simp_all add: row_refs_def row_recipes_def object_key_def)
  then show "row_refs r' = row_refs r" "row_recipes r' = row_recipes r" by simp_all
qed

end
