(* ===== verification/Session_Steps.thy ===== *)
theory Session_Steps
  imports Session
begin

text \<open>
  Every operation of a session keeps its invariant: the steps that append a row, reservations and
  their fills, the side columns, the caches, sealing and forking, recipes and summaries. Then the
  reachable sessions, which never panic.
\<close>

text \<open>Steps that append at most one row.\<close>

lemma grown_session:
  assumes inv: "session_inv fx it" and inv': "machine_inv fx it'" and un: "untouched it it'"
    and keep: "\<And>i r. row_in it i = Some r \<Longrightarrow> row_in it' i = Some r"
    and new: "\<And>i r. row_in it' i = Some r \<Longrightarrow> row_in it i = None \<Longrightarrow> row_closed it r"
    and base: "store_base_len (it_store it') = store_base_len (it_store it)"
  shows "session_inv fx it'"
proof (rule session_stepI [OF inv inv'])
  have same: "row_in it' i = row_in it i" if "valid it i" for i using keep that by fastforce
  show "valid it' i" if "valid it i" for i using same [OF that] that by simp
  show "row_in it i = Some r \<or> row_closed it r \<and> (row_in it i = None \<or> row_older r = [])" if "row_in it' i = Some r" for i r
    using that new [OF that] keep by (cases "row_in it i") fastforce+
  show "recipe_list (it_store it') = recipe_list (it_store it)" "caches_of it' = caches_of it"
    using un by (simp_all add: untouched_def side_of_def)
  show "side_closed it'"
    by (rule side_closed_reading [OF _ untouched_reading [OF un]]) (use inv same in \<open>auto simp: session_inv_def\<close>)
  show "store_base_len (it_store it') = store_base_len (it_store it)" by (rule base)
  show "row_in it' i = row_in it i" if "unat i < store_base_len (it_store it)" for i
    by (rule same [OF base_valid [OF that]])
  show "st_semantic_graph_identity (it_store it') = st_semantic_graph_identity (it_store it) \<and>
      (\<forall>i. valid it i \<longrightarrow> row_in it' i = row_in it i) \<or>
      st_semantic_graph_identity (it_store it) < st_semantic_graph_identity (it_store it')"
    using un same by (simp add: untouched_def)
qed

lemma consed_session:
  assumes inv: "session_inv fx it" and inv': "machine_inv fx it'" and un: "untouched it it'"
    and hc: "hash_consed fx it r tid it'" and r: "row_closed it r"
  shows "session_inv fx it'"
proof (rule grown_session [OF inv inv' un])
  show "row_in it' i = Some x" if "row_in it i = Some x" for i x by (rule hash_consed_keeps [OF hc that])
  show "store_base_len (it_store it') = store_base_len (it_store it)" using hc by (simp add: hash_consed_def)
  show "row_closed it x" if x: "row_in it' i = Some x" "row_in it i = None" for i x
    using hc
  proof (cases rule: hash_consed_rows)
    case (added r')
    have "x = r'" using x added(1) by (auto simp: row_in_def nth_opt_append nth_opt_eq_None nth_opt_eq_Some nth_append split: if_splits)
    then show ?thesis using r key_refs [OF added(3)] by (simp add: row_closed_def)
  qed (use x in simp)
qed

lemma sort_properties_refs: "set (row_refs (Row_Object (sort_properties ob))) = set (row_refs (Row_Object ob))"
  by (simp add: row_refs_def sort_properties_def)

lemma dedup_by_param_subset: "set (dedup_by_param xs) \<subseteq> set xs"
  by (induction xs rule: dedup_by_param.induct) auto

lemma intern_session:
  assumes inv: "session_inv fx it" and ok: "session_ok it (Session_Op (Op_Intern req))"
    and run: "run_op fx it (Op_Intern req) = Some it'" and inv': "machine_inv fx it'"
  shows "session_inv fx it'"
proof -
  have "interner_inv fx it" "store_len (it_store it) < 2 ^ 32"
    using inv ok by (auto simp: session_inv_def machine_inv_def)
  from request_interned [OF this, of req] run obtain tid where
    hc: "run_request fx it req = Some (tid, it')" "hash_consed fx it (request_row req) tid it'" by fastforce
  have "row_recipes (request_row req) = []" by (cases req) (simp_all add: row_recipes_def)
  then have "row_closed it (request_row req)" using ok by (simp add: row_closed_def list_all_iff)
  then show ?thesis using consed_session [OF inv inv' request_untouched [OF hc(1)] hc(2)] by blast
qed

lemma declared_session:
  assumes inv: "session_inv fx it" and ok: "session_ok it (Session_Op (Op_Declared recipe mapper))"
    and run: "run_op fx it (Op_Declared recipe mapper) = Some it'" and inv': "machine_inv fx it'"
  shows "session_inv fx it'"
proof -
  have i: "interner_inv fx it" "store_len (it_store it) < 2 ^ 32"
    using inv ok by (auto simp: session_inv_def machine_inv_def)
  from ok obtain e where e: "declared_recipe (it_store it) recipe = Some e" by auto
  let ?m = "dedup_by_param (sort_key fst (filter (\<lambda>(p, _). p \<in> set (dr_free_params e)) mapper))"
  let ?d = "\<lparr>de_recipe = recipe, de_mapper = ?m\<rparr>"
  have "\<exists>tid it'. hash_cons fx (row_key (Row_Declared ?d))
      (\<lambda>s tid. map_option (\<lambda>d. d = Some ?d) (declared_type_of s tid)) (\<lambda>s. push_declared s ?d flags_empty) it =
        Some (tid, it') \<and> hash_consed fx it (Row_Declared ?d) tid it'"
    by (rule hash_cons_plain [OF i constructor_compares(18) constructor_appends(18)]) simp_all
  then obtain tid where hc: "intern_declared fx it recipe mapper = Some (tid, it')" "hash_consed fx it (Row_Declared ?d) tid it'"
    using run by (auto simp: intern_declared_def e Let_def)
  have "set ?m \<subseteq> set mapper" using dedup_by_param_subset [of "sort_key fst (filter (\<lambda>(p, _). p \<in> set (dr_free_params e)) mapper)"] by auto
  then have "row_closed it (Row_Declared ?d)"
    using ok e by (auto simp: row_closed_def row_refs_def row_recipes_def list_all_iff declared_recipe_def lv_get_list nth_opt_eq_Some)
  then show ?thesis using consed_session [OF inv inv' declared_untouched [OF hc(1)] hc(2)] by blast
qed

text \<open>What a union or an intersection returns is the interner it got, or one row over its members.\<close>

lemma union_session:
  assumes inv: "session_inv fx it" and ok: "session_ok it (Session_Op (Op_Union ms))"
    and run: "run_op fx it (Op_Union ms) = Some it'" and inv': "machine_inv fx it'"
  shows "session_inv fx it'"
proof -
  have i: "interner_inv fx it" "sets_inv it" "store_len (it_store it) < 2 ^ 32" and ms: "\<forall>m \<in> set ms. valid it m"
    using inv ok by (auto simp: session_inv_def machine_inv_def list_all_iff)
  let ?M = "\<Union>m \<in> set ms. union_expand it m"
  define flat where "flat = sorted_list_of_set (?M - {wk_never (it_well_known it)})"
  have fin: "finite ?M" by (auto simp: expand_def split: option.splits)
  have fl: "members_flat it union_row" using i(2) by (simp add: sets_inv_def)
  have mem: "valid it x" if "x \<in> set flat" for x
    using that ms expand_flat [OF fl set_accessors(1) [OF i(1)]] fin unfolding flat_def by fastforce
  have "union_type fx it ms = union_of_set fx it ?M" by (rule union_refines_set [OF i(1,2) ms])
  then obtain tid where "it' = it \<or> 2 \<le> length flat \<and> intern_union_members fx it flat = Some (tid, it')"
    using run unfolding union_of_set_def Let_def flat_def [symmetric]
    by (auto split: if_splits list.splits)
  then show ?thesis
  proof (elim disjE conjE)
    assume long: "2 \<le> length flat" and new: "intern_union_members fx it flat = Some (tid, it')"
    have "hash_consed fx it (Row_Union flat) tid it'"
      using intern_union_members_spec [OF i(1,3) _ long] new by (fastforce simp: flat_def strict_sorted_def)
    moreover have "row_closed it (Row_Union flat)" using mem by (simp add: row_closed_def row_refs_def row_recipes_def)
    ultimately show ?thesis using consed_session [OF inv inv' set_rows_untouched(1) [OF new]] by blast
  qed (use inv in simp)
qed

lemma intersection_session:
  assumes inv: "session_inv fx it" and ok: "session_ok it (Session_Op (Op_Intersection ms))"
    and run: "run_op fx it (Op_Intersection ms) = Some it'" and inv': "machine_inv fx it'"
  shows "session_inv fx it'"
proof -
  have i: "interner_inv fx it" "sets_inv it" "store_len (it_store it) < 2 ^ 32" and ms: "\<forall>m \<in> set ms. valid it m"
    using inv ok by (auto simp: session_inv_def machine_inv_def list_all_iff)
  let ?M = "\<Union>m \<in> set ms. intersection_expand it m"
  define flat where "flat = sorted_list_of_set (?M - {wk_unknown (it_well_known it)})"
  have fin: "finite ?M" by (auto simp: expand_def split: option.splits)
  have fl: "members_flat it intersection_row" using i(2) by (simp add: sets_inv_def)
  have mem: "valid it x" if "x \<in> set flat" for x
    using that ms expand_flat [OF fl set_accessors(2) [OF i(1)]] fin unfolding flat_def by fastforce
  have "intersection_type fx it ms = intersection_of_set fx it ?M" by (rule intersection_refines_set [OF i(1,2) ms])
  then obtain tid where "it' = it \<or> 2 \<le> length flat \<and> intern_intersection_members fx it flat = Some (tid, it')"
    using run unfolding intersection_of_set_def Let_def flat_def [symmetric]
    by (auto split: if_splits list.splits)
  then show ?thesis
  proof (elim disjE conjE)
    assume long: "2 \<le> length flat" and new: "intern_intersection_members fx it flat = Some (tid, it')"
    have sorted: "strict_sorted flat" by (simp add: flat_def strict_sorted_def)
    have "\<exists>tid it'. intern_intersection_members fx it flat = Some (tid, it') \<and> hash_consed fx it (Row_Intersection flat) tid it'"
      unfolding intern_intersection_members_def
      by (rule hash_cons_plain [OF i(1,3) constructor_compares(20) constructor_appends(20)]) (use long sorted in simp_all)
    then have "hash_consed fx it (Row_Intersection flat) tid it'" using new by auto
    moreover have "row_closed it (Row_Intersection flat)" using mem by (simp add: row_closed_def row_refs_def row_recipes_def)
    ultimately show ?thesis using consed_session [OF inv inv' set_rows_untouched(2) [OF new]] by blast
  qed (use inv in simp)
qed

text \<open>Reservations and their fills.\<close>

lemma well_known_valid: "machine_inv fx it \<Longrightarrow> valid it (wk_error (it_well_known it))"
  using well_known_row [of it Kind_Error] by (simp add: machine_inv_def)

lemma placeholder_closed:
  assumes "machine_inv fx it"
  shows "row_closed it (Row_Object object_default)" "row_closed it (Row_Conditional (error_conditional (it_well_known it) b))"
    "row_closed it (Row_Mapped (error_mapped (it_well_known it)))"
  using well_known_valid [OF assms]
  by (simp_all add: row_closed_def row_refs_def row_recipes_def object_default_def error_conditional_def error_mapped_def opt_ids_def)

lemma reserve_session:
  assumes inv: "session_inv fx it" and ok: "store_len (it_store it) < 2 ^ 32"
  shows "machine_inv fx (snd (reserve_object it)) \<Longrightarrow> session_inv fx (snd (reserve_object it))"
    "machine_inv fx (snd (reserve_conditional it)) \<Longrightarrow> session_inv fx (snd (reserve_conditional it))"
    "machine_inv fx (snd (reserve_mapped it)) \<Longrightarrow> session_inv fx (snd (reserve_mapped it))"
proof -
  have m: "machine_inv fx it" using inv by (simp add: session_inv_def)
  have i: "interner_inv fx it" and s: "store_inv (it_store it)" using m by (simp_all add: machine_inv_def interner_inv_def)
  note p = push_rows [OF s ok]
  have step: "session_inv fx (snd (register_reserved_type (it\<lparr>it_store := s'\<rparr>) tid kind))"
    if app: "row_appended (it_store it) tid s' r" and r: "canonical_row r" "row_kind r = Some kind" "row_closed it r"
      and un: "untouched it (snd (register_reserved_type (it\<lparr>it_store := s'\<rparr>) tid kind))"
      and inv': "machine_inv fx (snd (register_reserved_type (it\<lparr>it_store := s'\<rparr>) tid kind))" for tid s' r kind
  proof (rule grown_session [OF inv inv' un])
    note rows = append_reserved [OF i ok app r(1,2)]
    have fresh: "row_in it tid = None"
      using appended_row(2) [OF app ok] row_in_less [of it tid] by (cases "row_in it tid") auto
    show "row_in (snd (register_reserved_type (it\<lparr>it_store := s'\<rparr>) tid kind)) i = Some x" if "row_in it i = Some x" for i x
      using rows fresh that by (cases "i = tid") auto
    show "row_closed it x" if "row_in (snd (register_reserved_type (it\<lparr>it_store := s'\<rparr>) tid kind)) i = Some x" "row_in it i = None" for i x
      using rows that r(3) by (cases "i = tid") auto
    show "store_base_len (it_store (snd (register_reserved_type (it\<lparr>it_store := s'\<rparr>) tid kind))) = store_base_len (it_store it)"
      using app by (simp add: row_appended_def register_reserved_type_def)
  qed
  show "machine_inv fx (snd (reserve_object it)) \<Longrightarrow> session_inv fx (snd (reserve_object it))"
    using step [OF p(7) [of object_default flags_empty], of Reserved_Object] reserve_untouched(1) [of it] placeholder_closed(1) [OF m]
    by (simp add: reserve_object_def case_prod_beta object_default_def)
  show "machine_inv fx (snd (reserve_conditional it)) \<Longrightarrow> session_inv fx (snd (reserve_conditional it))"
    using step [OF p(13) [of "error_conditional (it_well_known it) False" flags_empty], of Reserved_Conditional]
      reserve_untouched(2) [of it] placeholder_closed(2) [OF m]
    by (simp add: reserve_conditional_def case_prod_beta)
  show "machine_inv fx (snd (reserve_mapped it)) \<Longrightarrow> session_inv fx (snd (reserve_mapped it))"
    using step [OF p(15) [of "error_mapped (it_well_known it)" flags_empty], of Reserved_Mapped]
      reserve_untouched(3) [of it] placeholder_closed(3) [OF m]
    by (simp add: reserve_mapped_def case_prod_beta)
qed

lemma write_fill_tag: "write_fill s f = Some s' \<Longrightarrow> st_tag s' = st_tag s"
  by (cases f) (auto simp: write_fill_def set_object_def set_conditional_def set_mapped_def split: bind_splits if_splits)

lemma write_fills_tag: "write_fills it fills = Some it' \<Longrightarrow> st_tag (it_store it') = st_tag (it_store it)"
proof (induction fills arbitrary: it)
  case (Cons f fills)
  from Cons.prems obtain s rt where s: "write_fill (it_store it) f = Some s"
    and rest: "write_fills (it\<lparr>it_store := s, it_reserved_types :=
       fmupd (fill_target f) (rt\<lparr>rt_state := State_Frozen\<rparr>) (it_reserved_types it)\<rparr>) fills = Some it'"
    by (auto split: bind_splits)
  from Cons.IH [OF rest] write_fill_tag [OF s] show ?case by simp
qed simp

lemma fill_base_len:
  assumes "fill_reserved_type_batch it fills = Some (err, it')"
  shows "store_base_len (it_store it') = store_base_len (it_store it)"
proof -
  consider "it' = it" | "write_fills (it\<lparr>it_store := mark_semantic_graph_mutation (it_store it)\<rparr>) (map canonical_fill fills) = Some it'"
    using assms by (auto simp: fill_reserved_type_batch_def Let_def split: option.splits bind_splits if_splits)
  then show ?thesis
    by cases (auto dest!: write_fills_tag simp: store_base_len_def mark_semantic_graph_mutation_def)
qed

lemma fill_session:
  assumes inv: "session_inv fx it" and run: "fill_reserved_type_batch it fills = Some (err, it')" and inv': "machine_inv fx it'"
    and refs: "\<And>f. f \<in> set fills \<Longrightarrow> row_closed it (fill_row f)"
  shows "session_inv fx it'"
proof (cases "it' = it")
  case False
  have i: "interner_inv fx it" using inv by (simp add: session_inv_def machine_inv_def)
  have mut: "mutated it it'" using fill_mutated [OF run] False by blast
  from fill_batch_spec [OF i, of fills] run False have
    rows: "\<And>i. row_in it' i = (case fill_at fills i of Some f \<Rightarrow> Some (fill_row (canonical_fill f)) | None \<Rightarrow> row_in it i)"
    and ready: "\<forall>f \<in> set fills. fill_ready it f" by (auto simp: list_all_iff split: if_splits)
  have at: "f \<in> set fills \<and> fill_target f = i" if "fill_at fills i = Some f" for i f
    using that by (auto simp: fill_at_def find_Some_iff)
  have closed: "row_closed it (fill_row (canonical_fill f))" "row_older (fill_row (canonical_fill f)) = []" if "f \<in> set fills" for f
  proof -
    show "row_closed it (fill_row (canonical_fill f))"
      using refs [OF that] by (cases f) (auto simp: row_closed_def sort_properties_refs row_recipes_def)
    show "row_older (fill_row (canonical_fill f)) = []" by (cases f) simp_all
  qed
  have target: "valid it (fill_target f)" "store_base_len (it_store it) \<le> unat (fill_target f)" if "f \<in> set fills" for f
  proof -
    have "fill_ready it f" using ready that by blast
    then show "valid it (fill_target f)" using fill_ready_pending(2) [OF i] by fastforce
    show "store_base_len (it_store it) \<le> unat (fill_target f)"
      using \<open>fill_ready it f\<close> i by (auto simp: fill_ready_def interner_inv_def reserved_inv_def)
  qed
  show ?thesis
  proof (rule session_stepI [OF inv inv'])
    show keep: "valid it' i" if "valid it i" for i using rows [of i] that by (auto split: option.splits)
    show "row_in it i = Some r \<or> row_closed it r \<and> (row_in it i = None \<or> row_older r = [])" if "row_in it' i = Some r" for i r
      using that rows [of i] at [of i] closed by (auto split: option.splits)
    show "recipe_list (it_store it') = recipe_list (it_store it)" "caches_of it' = caches_of it"
      using mut by (simp_all add: mutated_def side_of_def)
    show "side_closed it'"
      by (rule side_closed_reading [of it, OF _ side_same_reading]) (use inv mut keep in \<open>auto simp: session_inv_def mutated_def\<close>)
    show "store_base_len (it_store it') = store_base_len (it_store it)" by (rule fill_base_len [OF run])
    show "row_in it' i = row_in it i" if "unat i < store_base_len (it_store it)" for i
      using rows [of i] at [of i] target(2) that by (fastforce split: option.splits)
    show "st_semantic_graph_identity (it_store it') = st_semantic_graph_identity (it_store it) \<and>
        (\<forall>i. valid it i \<longrightarrow> row_in it' i = row_in it i) \<or>
        st_semantic_graph_identity (it_store it) < st_semantic_graph_identity (it_store it')"
      using mut by (simp add: mutated_def)
  qed
qed (use inv in simp)

text \<open>Steps on the side columns.\<close>

lemma side_session:
  assumes inv: "session_inv fx it" and inv': "machine_inv fx (it\<lparr>it_store := s\<rparr>)"
    and s: "store_rows s = store_rows (it_store it)" "st_tag s = st_tag (it_store it)"
      "st_declared_recipes s = st_declared_recipes (it_store it)"
      "st_semantic_graph_identity (it_store it) \<le> st_semantic_graph_identity s"
    and side: "side_closed (it\<lparr>it_store := s\<rparr>)"
  shows "session_inv fx (it\<lparr>it_store := s\<rparr>)"
proof (rule session_stepI [OF inv inv'])
  have same: "row_in (it\<lparr>it_store := s\<rparr>) = row_in it" using s(1) by (simp add: row_in_def fun_eq_iff)
  show "valid (it\<lparr>it_store := s\<rparr>) i" if "valid it i" for i using that same by simp
  show "row_in it i = Some r \<or> row_closed it r \<and> (row_in it i = None \<or> row_older r = [])"
    if "row_in (it\<lparr>it_store := s\<rparr>) i = Some r" for i r using that same by simp
  show "st_semantic_graph_identity (it_store (it\<lparr>it_store := s\<rparr>)) = st_semantic_graph_identity (it_store it) \<and>
      (\<forall>i. valid it i \<longrightarrow> row_in (it\<lparr>it_store := s\<rparr>) i = row_in it i) \<or>
      st_semantic_graph_identity (it_store it) < st_semantic_graph_identity (it_store (it\<lparr>it_store := s\<rparr>))"
    using s(4) same by auto
  show "row_in (it\<lparr>it_store := s\<rparr>) i = row_in it i" for i using same by simp
qed (use s side in \<open>simp_all add: caches_of_def store_base_len_def\<close>)

lemma side_closed_update:
  assumes "side_closed it" "store_rows s = store_rows (it_store it)"
    "\<And>p c. type_param_constraint s p = Some c \<Longrightarrow> type_param_constraint (it_store it) p = Some c \<or> valid it c"
    "\<And>t. template_name s t \<noteq> None \<Longrightarrow> template_name (it_store it) t \<noteq> None \<or> valid it t"
  shows "side_closed (it\<lparr>it_store := s\<rparr>)"
proof -
  have row: "row_in (it\<lparr>it_store := s\<rparr>) = row_in it" using assms(2) by (simp add: row_in_def fun_eq_iff)
  have st: "it_store (it\<lparr>it_store := s\<rparr>) = s" by simp
  show ?thesis using assms(1,3,4) unfolding side_closed_def row st by metis
qed

lemma constraint_ops_frame:
  "set_type_param_constraint s p c = (ok, s') \<Longrightarrow> st_tag s' = st_tag s \<and> st_declared_recipes s' = st_declared_recipes s \<and>
     st_template_names s' = st_template_names s \<and> st_semantic_graph_identity s \<le> st_semantic_graph_identity s'"
  "remove_type_param_constraint s p = (ok, s') \<Longrightarrow> st_tag s' = st_tag s \<and> st_declared_recipes s' = st_declared_recipes s \<and>
     st_template_names s' = st_template_names s \<and> st_semantic_graph_identity s \<le> st_semantic_graph_identity s'"
  "freeze_type_param_metadata s xs = (err, s') \<Longrightarrow> st_tag s' = st_tag s \<and> st_declared_recipes s' = st_declared_recipes s \<and>
     st_template_names s' = st_template_names s \<and> st_semantic_graph_identity s \<le> st_semantic_graph_identity s' \<and>
     st_type_param_constraints s' = st_type_param_constraints s"
  by (auto simp: set_type_param_constraint_def remove_type_param_constraint_def freeze_type_param_metadata_def
      mark_semantic_graph_mutation_def Let_def split: if_splits sum.splits prod.splits option.splits)

lemma set_template_name_cases:
  "set_template_name s tid name = s \<or> unat tid < store_len s \<and>
     (\<exists>prev m. lm_insert_local (st_template_names s) tid name = Inr (prev, m) \<and> set_template_name s tid name = s\<lparr>st_template_names := m\<rparr>)"
  by (cases "lm_insert_local (st_template_names s) tid name") (simp_all add: set_template_name_def not_le split: prod.split)

lemma side_ops_session:
  assumes inv: "session_inv fx it"
  shows "valid it c \<Longrightarrow> run_op fx it (Op_SetConstraint p c) = Some it' \<Longrightarrow> machine_inv fx it' \<Longrightarrow> session_inv fx it'"
    "run_op fx it (Op_RemoveConstraint p) = Some it' \<Longrightarrow> machine_inv fx it' \<Longrightarrow> session_inv fx it'"
    "run_op fx it (Op_FreezeParams xs) = Some it' \<Longrightarrow> machine_inv fx it' \<Longrightarrow> session_inv fx it'"
    "run_op fx it (Op_SetTemplateName tid name) = Some it' \<Longrightarrow> machine_inv fx it' \<Longrightarrow> session_inv fx it'"
proof -
  have s: "store_inv (it_store it)" and sc: "side_closed it"
    using inv by (simp_all add: session_inv_def machine_inv_def interner_inv_def)
  have named: "template_name s' t \<noteq> None \<Longrightarrow> template_name (it_store it) t \<noteq> None \<or> valid it t"
    if "st_template_names s' = st_template_names (it_store it)" for s' t using that by (simp add: template_name_def)
  show "session_inv fx it'" if c: "valid it c" and run: "run_op fx it (Op_SetConstraint p c) = Some it'" and inv': "machine_inv fx it'"
  proof -
    obtain ok s' where s': "set_type_param_constraint (it_store it) p c = (ok, s')"
        "if ok then type_param_constraint s' = (type_param_constraint (it_store it))(p \<mapsto> c) else s' = it_store it"
        "store_rows s' = store_rows (it_store it)" using set_constraint_spec [OF s, of p c] by blast
    have it': "it' = it\<lparr>it_store := s'\<rparr>" using run s'(1) by (simp add: interner_set_type_param_constraint_def)
    note f = constraint_ops_frame(1) [OF s'(1)]
    have "side_closed (it\<lparr>it_store := s'\<rparr>)"
      using s'(2) c f named by (intro side_closed_update [OF sc s'(3)]) (auto split: if_splits)
    then show ?thesis using side_session [OF inv inv' [unfolded it'] s'(3)] f it' by simp
  qed
  show "session_inv fx it'" if run: "run_op fx it (Op_RemoveConstraint p) = Some it'" and inv': "machine_inv fx it'"
  proof -
    obtain ok s' where s': "remove_type_param_constraint (it_store it) p = (ok, s')"
        "if ok then type_param_constraint s' = (type_param_constraint (it_store it))(p := None) else s' = it_store it"
        "store_rows s' = store_rows (it_store it)" using remove_constraint_spec [OF s, of p] by blast
    have it': "it' = it\<lparr>it_store := s'\<rparr>" using run s'(1) by (simp add: interner_remove_type_param_constraint_def)
    note f = constraint_ops_frame(2) [OF s'(1)]
    have "side_closed (it\<lparr>it_store := s'\<rparr>)"
      using s'(2) f named by (intro side_closed_update [OF sc s'(3)]) (auto split: if_splits)
    then show ?thesis using side_session [OF inv inv' [unfolded it'] s'(3)] f it' by simp
  qed
  show "session_inv fx it'" if run: "run_op fx it (Op_FreezeParams xs) = Some it'" and inv': "machine_inv fx it'"
  proof -
    obtain err s' where s': "freeze_type_param_metadata (it_store it) xs = (err, s')"
        "store_rows s' = store_rows (it_store it)" using freeze_metadata_spec [OF s, of xs] by blast
    have it': "it' = it\<lparr>it_store := s'\<rparr>" using run s'(1) by (simp add: interner_freeze_type_param_metadata_def)
    note f = constraint_ops_frame(3) [OF s'(1)]
    have "side_closed (it\<lparr>it_store := s'\<rparr>)"
      using f named by (intro side_closed_update [OF sc s'(2)]) (auto simp: type_param_constraint_def)
    then show ?thesis using side_session [OF inv inv' [unfolded it'] s'(2)] f it' by simp
  qed
  show "session_inv fx it'" if run: "run_op fx it (Op_SetTemplateName tid name) = Some it'" and inv': "machine_inv fx it'"
  proof (cases "it' = it")
    case False
    let ?s = "set_template_name (it_store it) tid name"
    have it': "it' = it\<lparr>it_store := ?s\<rparr>" using run False by (auto simp: interner_set_template_name_def split: option.splits if_splits)
    then have "?s \<noteq> it_store it" using False by auto
    then obtain prev m where m: "lm_insert_local (st_template_names (it_store it)) tid name = Inr (prev, m)"
        "?s = (it_store it)\<lparr>st_template_names := m\<rparr>" "unat tid < store_len (it_store it)"
      using set_template_name_cases [of "it_store it" tid name] by blast
    have lm: "lm_inv (st_template_names (it_store it))" using s by (simp add: store_inv_def side_maps_inv_def plain_map_def)
    have "lm_get m = (lm_get (st_template_names (it_store it)))(tid \<mapsto> name)" using lm_insert_get [OF lm m(1)] by blast
    moreover have "valid it tid" using m(3) by (simp add: row_in_def nth_opt_def)
    ultimately have "side_closed (it\<lparr>it_store := ?s\<rparr>)"
      by (intro side_closed_update [OF sc set_template_name_keeps(2) [OF s]])
        (auto simp: m(2) template_name_def type_param_constraint_def split: if_splits)
    then show ?thesis
      using side_session [OF inv inv' [unfolded it'] set_template_name_keeps(2,3) [OF s]] it' by (simp add: m(2))
  qed (use inv in simp)
qed

text \<open>Steps on the caches.\<close>

lemma caches_session:
  assumes inv: "session_inv fx it" and inv': "machine_inv fx it'" and st: "it_store it' = it_store it"
    and recipes: "it_declared_recipe_base it' = it_declared_recipe_base it" "it_declared_recipe_local it' = it_declared_recipe_local it"
    and fp: "it_free_param_summaries it' = it_free_param_summaries it \<or>
      it_free_param_summaries it' = fp_align_with (it_free_param_summaries it) (st_semantic_graph_identity (it_store it))"
    and gc: "it_application_key_modes it' = it_application_key_modes it \<or>
      it_application_key_modes it' = gc_align_with (it_application_key_modes it) (st_semantic_graph_identity (it_store it))"
  shows "session_inv fx it'"
proof -
  have row: "row_in it' = row_in it" by (simp add: row_in_def fun_eq_iff st)
  have index: "recipe_index it' = recipe_index it"
    using recipes by (simp add: recipe_index_def fun_eq_iff split: option.split)
  have al: "it_free_param_summaries (aligned it') = it_free_param_summaries (aligned it)"
      "it_application_key_modes (aligned it') = it_application_key_modes (aligned it)"
    using fp gc by (auto simp: aligned_def st fp_align_with_def gc_align_with_def)
  have base: "fmlookup (fp_base (it_free_param_summaries it')) ty = Some f \<Longrightarrow> fmlookup (fp_base (it_free_param_summaries it)) ty = Some f"
      "gc_base (it_application_key_modes it') = gc_base (it_application_key_modes it)" for ty f
    using fp gc by (auto simp: fp_align_with_def gc_align_with_def split: if_splits)
  have le: "fp_graph_identity (it_free_param_summaries it') \<le> st_semantic_graph_identity (it_store it)"
      "gc_graph_identity (it_application_key_modes it') \<le> st_semantic_graph_identity (it_store it)"
    using fp gc inv by (auto simp: session_inv_def caches_exact_def fp_align_with_def gc_align_with_def)
  have "caches_exact it'"
    using inv base le unfolding session_inv_def caches_exact_def summaries_exact_def al row st by auto
  moreover have "rows_closed it'" "side_closed it'" "recipes_closed it'"
    using inv unfolding session_inv_def rows_closed_def row_closed_def side_closed_def recipes_closed_def Let_def row st index by auto
  ultimately show ?thesis using inv' by (simp add: session_inv_def)
qed

lemma cache_ops_session:
  assumes inv: "session_inv fx it" and inv': "machine_inv fx it'" and run: "run_op fx it op = Some it'"
    and op: "op \<in> {Op_FreeParamSummary ty, Op_ApplicationKeyMode ty, Op_DeferredKeyof ty, Op_PublishDeferredKeyof ty b,
      Op_CleanApplication key, Op_PublishCleanApplication key ty, Op_InternDerivation n ty i cs, Op_CompleteDerivation d ty i cs,
      Op_BeginQuery, Op_EndQuery}"
  shows "session_inv fx it'"
  by (rule caches_session [OF inv inv'])
    (use run op in \<open>auto simp: free_param_summary_def application_key_mode_of_def deferred_keyof_result_def
       publish_deferred_keyof_result_def clean_application_result_def publish_clean_application_result_def
       intern_derivation_def complete_derivation_def begin_occurrence_query_def end_occurrence_query_def Let_def case_prod_beta\<close>)

lemma promote_session:
  assumes inv: "session_inv fx it" and inv': "machine_inv fx it'"
    and run: "promote_caller_certified_acyclic_reserved_object fx it tid = Some (res, it')"
  shows "session_inv fx it'"
  using promote_keeps(2) [OF run] promote_untouched [OF run]
  by (intro caches_session [OF inv inv']) (simp_all add: untouched_def caches_of_def)

lemma align_session:
  assumes "session_inv fx it" "machine_inv fx (interner_align it)"
  shows "session_inv fx (interner_align it)"
  by (rule caches_session [OF assms]) (simp_all add: interner_align_def Let_def)

text \<open>
  An interner over the same rows whose sealed summaries are among those known before: sealing makes
  the whole store the base, forking starts an empty suffix over it.
\<close>

lemma rebased_session:
  assumes inv: "session_inv fx it" and inv': "machine_inv fx it'"
    and rows: "store_rows (it_store it') = store_rows (it_store it)" and read: "same_reading (it_store it) (it_store it')"
    and base: "store_base_len (it_store it') = store_len (it_store it')"
    and index: "recipe_index it' = recipe_index it"
    and ids: "fp_graph_identity (it_free_param_summaries it') = st_semantic_graph_identity (it_store it')"
      "gc_graph_identity (it_application_key_modes it') = st_semantic_graph_identity (it_store it')"
    and local: "fp_local (it_free_param_summaries it') = fmempty" "gc_local (it_application_key_modes it') = fmempty"
    and fp: "\<And>ty f. fmlookup (fp_base (it_free_param_summaries it')) ty = Some f \<Longrightarrow> exact_params (it_store it) ty f"
    and gc: "\<And>ty k. fmlookup (gc_base (it_application_key_modes it')) ty = Some k \<Longrightarrow> exact_mode (it_store it) ty k"
  shows "session_inv fx it'"
proof -
  have row: "row_in it' = row_in it" by (simp add: row_in_def fun_eq_iff rows)
  have rl: "recipe_list (it_store it') = recipe_list (it_store it)" using read by (simp add: same_reading_def)
  have own: "row_own (it_store it') r = row_own (it_store it) r" for r
    using rl by (cases r) (simp_all add: declared_recipe_def lv_get_list)
  have ex: "exact_params (it_store it') t f \<longleftrightarrow> exact_params (it_store it) t f"
      "exact_mode (it_store it') t k \<longleftrightarrow> exact_mode (it_store it) t k" for t f k
    by (rule exact_region [where A = UNIV]; simp add: rows own)+
  have al: "aligned it' = it'" using ids by (simp add: aligned_def fp_align_with_def gc_align_with_def)
  have sum: "summaries_exact it'"
    unfolding summaries_exact_def al using fp gc local by (auto simp: fp_get_def gc_get_def ex)
  have closed: "rows_closed it'" "recipes_closed it'"
    using inv unfolding session_inv_def rows_closed_def row_closed_def recipes_closed_def Let_def row rl index by auto
  have len: "store_len (it_store it') = length (store_rows (it_store it'))" by simp
  have val: "exact_params (it_store it) ty f \<Longrightarrow> unat ty < store_base_len (it_store it')"
      "exact_mode (it_store it) ty k \<Longrightarrow> unat ty < store_base_len (it_store it')" for ty f k
    using rows by (auto simp: exact_params_def exact_mode_def base len nth_opt_def simp del: length_store_rows split: if_splits)
  have "unat c < store_base_len (it_store it')" if "row_in it' i = Some r" "c \<in> set (row_targets r)" for i r c
    using that closed(1) unfolding base rows_closed_def row_closed_def row_refs_def
    by (fastforce simp: valid_iff [symmetric] simp del: not_None_eq)
  moreover have "unat ty < store_base_len (it_store it') \<and> exact_params (it_store it') ty f"
    if "fmlookup (fp_base (it_free_param_summaries it')) ty = Some f" for ty f
    using fp [OF that] val(1) by (simp add: ex)
  moreover have "unat ty < store_base_len (it_store it') \<and> exact_mode (it_store it') ty k"
    if "fmlookup (gc_base (it_application_key_modes it')) ty = Some k" for ty k
    using gc [OF that] val(2) by (simp add: ex)
  ultimately have "caches_exact it'" using sum ids unfolding caches_exact_def by simp
  moreover have "side_closed it'"
    by (rule side_closed_reading [OF _ read]) (use inv row in \<open>auto simp: session_inv_def\<close>)
  ultimately show ?thesis using closed inv' by (simp add: session_inv_def)
qed


text \<open>Sealing: the summaries that alignment leaves become the sealed ones.\<close>

lemma freeze_session:
  assumes inv: "session_inv fx it" and inv': "machine_inv fx (snd (interner_freeze_as_base it))"
  shows "session_inv fx (snd (interner_freeze_as_base it))"
proof -
  let ?sealed = "it_dedup_base it \<noteq> fmempty \<or> it_reserved_types_base it \<noteq> fmempty \<or> it_declared_recipe_base it \<noteq> fmempty"
  let ?open = "fmpred (\<lambda>_ reserved. rt_state reserved \<noteq> State_Pending) (it_reserved_types it)"
  have m: "machine_inv fx it" and si: "store_inv (it_store it)" using inv by (simp_all add: session_inv_def machine_inv_def interner_inv_def)
  have st: "it_store (interner_align it) = it_store it" by (simp add: interner_align_def Let_def)
  show ?thesis
  proof (cases "\<exists>s. \<not> ?sealed \<and> ?open \<and> store_freeze_as_base (it_store it) = Inr s")
    case False
    then have "snd (interner_freeze_as_base it) = it \<or> snd (interner_freeze_as_base it) = interner_align it"
      unfolding interner_freeze_as_base_def
      by (cases "?sealed"; cases "?open"; cases "store_freeze_as_base (it_store it)") (simp_all add: Let_def st)
    then show ?thesis using inv align_session [OF inv] align_step [OF m] by auto
  next
    case True
    then obtain s where s: "\<not> ?sealed" "?open" "store_freeze_as_base (it_store it) = Inr s" by blast
    then have "\<not> lv_sealed (st_tag (it_store it))" by (auto simp: store_freeze_as_base_def)
    from store_freeze_rows [OF si this] s(3) have rows: "store_rows s = store_rows (it_store it)"
      "store_base_len s = store_len (it_store it)" by auto
    then have len: "store_len s = store_len (it_store it)" by (metis length_store_rows)
    note read = store_freeze_reading [OF si s(3)]
    define b where "b = snd (interner_freeze_as_base it)"
    have fp: "it_free_param_summaries b = fp_freeze_as_base (it_free_param_summaries (aligned it))"
      and gc: "it_application_key_modes b = gc_freeze_as_base (it_application_key_modes (aligned it))"
      and b: "it_store b = s" "it_declared_recipe_base b = it_declared_recipe_local it" "it_declared_recipe_local b = fmempty"
      using s unfolding b_def interner_freeze_as_base_def by (simp_all add: Let_def interner_align_def aligned_def)
    have sum: "summaries_exact it" using inv by (simp add: session_inv_def caches_exact_def)
    have "session_inv fx b"
    proof (rule rebased_session [OF inv inv' [folded b_def]])
      show "recipe_index b = recipe_index it"
        using s(1) by (simp add: recipe_index_def fun_eq_iff b split: option.split)
      show "exact_params (it_store it) ty f" if "fmlookup (fp_base (it_free_param_summaries b)) ty = Some f" for ty f
        using that sum fp_freeze_get [of "it_free_param_summaries (aligned it)"]
        by (auto simp: summaries_exact_def fp fp_get_def fp_freeze_as_base_def fun_eq_iff)
      show "exact_mode (it_store it) ty k" if "fmlookup (gc_base (it_application_key_modes b)) ty = Some k" for ty k
        using that sum gc_freeze_get [of "it_application_key_modes (aligned it)"]
        by (auto simp: summaries_exact_def gc gc_get_def gc_freeze_as_base_def fun_eq_iff)
    qed (use rows len read in \<open>simp_all add: b fp gc fp_freeze_as_base_def gc_freeze_as_base_def aligned_def
        fp_align_with_def gc_align_with_def\<close>)
    then show ?thesis by (simp add: b_def)
  qed
qed

lemma fork_session:
  assumes inv: "session_inv fx it" and fork: "interner_fork_delta it = Inr d" and inv': "machine_inv fx d"
  shows "session_inv fx d"
proof -
  have si: "store_inv (it_store it)" using inv by (simp add: session_inv_def machine_inv_def interner_inv_def)
  from fork obtain s where s: "store_fork_delta (it_store it) = Inr s" "it_store d = s"
    and d: "it_free_param_summaries d = fp_fork_delta (it_free_param_summaries it) (st_semantic_graph_identity s)"
      "it_application_key_modes d = gc_fork_delta (it_application_key_modes it) (st_semantic_graph_identity s)"
      "recipe_index d = recipe_index it"
    by (auto simp: interner_fork_delta_def and_then_eq_Inr Let_def recipe_index_def fun_eq_iff split: if_splits)
  note rows = store_fork_rows [OF si s(1)]
  have len: "store_len s = store_len (it_store it)" using rows by (metis length_store_rows)
  have ex: "caches_exact it" using inv by (simp add: session_inv_def)
  show ?thesis
    by (rule rebased_session [OF inv inv'])
      (use rows len store_fork_reading [OF si s(1)] ex in
        \<open>auto simp: s(2) d fp_fork_delta_def gc_fork_delta_def caches_exact_def\<close>)
qed


text \<open>The summaries of substitution, and the recipes whose free parameters they give.\<close>

lemma row_listed:
  assumes inv: "session_inv fx it" and r: "r \<in> set (store_rows (it_store it))"
  shows "\<exists>i. row_in it i = Some r"
proof -
  from r obtain i where "i < store_len (it_store it)" "store_rows (it_store it) ! i = r" by (auto simp: in_set_conv_nth)
  then have "row_in it (word_of_nat i) = Some r"
    using inv by (simp add: session_inv_def machine_inv_def interner_inv_def row_in_def nth_opt_def unat_of_nat take_bit_nat_eq_self_iff)
  then show ?thesis by blast
qed

lemma session_closed:
  assumes inv: "session_inv fx it"
  shows "closed_store (it_store it)"
proof -
  have i: "store_inv (it_store it)" and rc: "rows_closed it"
    using inv by (simp_all add: session_inv_def machine_inv_def interner_inv_def)
  have "unat c < store_len (it_store it)" if r: "r \<in> set (store_rows (it_store it))" and c: "c \<in> set (row_targets r)" for r c
  proof -
    obtain i where "row_in it i = Some r" using row_listed [OF inv r] by blast
    then have "valid it c" using rc c by (auto simp: rows_closed_def row_closed_def row_refs_def)
    then show ?thesis by (simp only: valid_iff)
  qed
  then show ?thesis using i by (simp add: closed_store_def list_all_iff)
qed

lemma same_summaries: "same_but_summaries it it"
  by (simp add: same_but_summaries_def)

lemma summarised_session:
  assumes inv: "session_inv fx it" and ex: "summaries_exact it'" and same: "same_but_summaries it it'"
    and al: "aligned it' = it'" and base: "bases_kept it it'"
  shows "session_inv fx it'"
proof -
  note f = same_but_summaries_fields [OF same]
  have row: "row_in it' = row_in it" by (simp add: row_in_def fun_eq_iff f)
  have index: "recipe_index it' = recipe_index it" by (simp add: recipe_index_def fun_eq_iff f split: option.split)
  have "machine_inv fx it'"
    using same_store_step [of fx it it'] inv f by (simp add: session_inv_def machine_inv_def interner_inv_def)
  moreover have "rows_closed it'" "side_closed it'" "recipes_closed it'"
    using inv unfolding session_inv_def rows_closed_def row_closed_def side_closed_def recipes_closed_def Let_def row f index by auto
  moreover have "fp_graph_identity (it_free_param_summaries it') = st_semantic_graph_identity (it_store it)"
      "gc_graph_identity (it_application_key_modes it') = st_semantic_graph_identity (it_store it)"
    by (subst al [symmetric], simp add: aligned_def fp_align_with_def gc_align_with_def f)+
  moreover have "fmlookup (fp_base (it_free_param_summaries it)) ty = Some x"
    if "fmlookup (fp_base (it_free_param_summaries it')) ty = Some x" for ty x
    using that base by (simp add: bases_kept_def aligned_def fp_align_with_def split: if_splits)
  moreover have "gc_base (it_application_key_modes it') = gc_base (it_application_key_modes it)"
    using base by (simp add: bases_kept_def aligned_def gc_align_with_def)
  ultimately show ?thesis
    using inv ex unfolding session_inv_def caches_exact_def row f by simp
qed

lemma summaries_session:
  assumes inv: "session_inv fx it" and ty: "valid it ty"
  shows "\<exists>s it'. compute_application_summaries it ty = Some (s, it') \<and> session_inv fx it' \<and> same_but_summaries it it' \<and>
    exact_params (it_store it) ty (as_free_params s) \<and> exact_mode (it_store it) ty (as_key_mode s)"
proof -
  have "summaries_exact it" "st_row (it_store it) ty \<noteq> None"
    using inv ty by (simp_all add: session_inv_def caches_exact_def row_in_st_row)
  from compute_summaries [OF this(1) session_closed [OF inv] this(2)] summarised_session [OF inv] show ?thesis by blast
qed

lemma free_params_session:
  assumes "session_inv fx it" "valid it ty"
  shows "\<exists>f it'. derived_free_params it ty = Some (f, it') \<and> session_inv fx it' \<and> same_but_summaries it it' \<and>
    exact_params (it_store it) ty f"
  using summaries_session [OF assms] by (auto simp: derived_free_params_def)

text \<open>The free parameters of a node, given those of its child recipes.\<close>

fun node_frees :: "store \<Rightarrow> declared_recipe_node \<Rightarrow> type_param_id set" where
  "node_frees st (Recipe_Type ty) = {p. free_in st p ty}"
| "node_frees st (Recipe_Application template parameters arguments) =
     {p. free_in st p template \<and> p \<notin> set parameters} \<union> (\<Union>c \<in> set arguments. set (recipe_free_params st c))"
| "node_frees st node = (\<Union>c \<in> set (node_children node). set (recipe_free_params st c))"

lemma derive_session:
  assumes inv: "session_inv fx it" and ok: "node_ok it node"
  shows "\<exists>f it'. derive_declared_recipe_free_params it node = Some (f, it') \<and> session_inv fx it' \<and> same_but_summaries it it' \<and>
    sorted_wrt (<) f \<and> set f = node_frees (it_store it) node"
proof -
  have "\<exists>f it'. node_free_params it node = Some (f, it') \<and> session_inv fx it' \<and> same_but_summaries it it' \<and>
      set f = node_frees (it_store it) node"
  proof (cases node)
    case (Recipe_Type ty)
    then show ?thesis using free_params_session [OF inv, of ty] ok by (auto simp: exact_params_def)
  next
    case (Recipe_Application template parameters arguments)
    then obtain f it' where f: "derived_free_params it template = Some (f, it')" "session_inv fx it'" "same_but_summaries it it'"
        "exact_params (it_store it) template f"
      using free_params_session [OF inv, of template] ok by auto
    then show ?thesis
      using ok Recipe_Application same_but_summaries_fields(1) [OF f(3)] by (auto simp: exact_params_def)
  next
    case (Recipe_Tuple elements rest)
    then show ?thesis using inv ok same_summaries
      by (cases rest) (auto simp: opt_ids_def)
  qed (use inv same_summaries in auto)
  then show ?thesis
    by (auto simp: derive_declared_recipe_free_params_def strict_sorted_iff sorted_remdups_adj_distinct)
qed


lemma pushed_recipe_session:
  assumes inv: "session_inv fx it" and ok: "session_ok it (Session_Recipe node)"
    and recipe: "dr_node recipe = node" "recipe_index it recipe = None"
    and push: "push_declared_recipe (it_store it) recipe = Some (i, s)"
    and it': "it' = it\<lparr>it_store := s, it_declared_recipe_local := fmupd recipe i (it_declared_recipe_local it)\<rparr>"
  shows "session_inv fx it'" "unat i = length (recipe_list (it_store it))" "recipe_list s = recipe_list (it_store it) @ [recipe]"
    "store_rows s = store_rows (it_store it)"
proof -
  let ?rs = "recipe_list (it_store it)"
  have s: "store_inv (it_store it)" and m: "machine_inv fx it" using inv by (simp_all add: session_inv_def machine_inv_def interner_inv_def)
  have len: "lv_len (st_declared_recipes (it_store it)) = length ?rs" by (simp add: length_lv_list)
  have i: "unat i = length ?rs"
    using push ok by (auto simp: push_declared_recipe_def u32_try_from_def len unat_of_len_u32 split: bind_splits if_splits)
  have st: "s = (it_store it)\<lparr>st_declared_recipes := snd (lv_push_local (st_declared_recipes (it_store it)) recipe)\<rparr>"
    using push by (auto simp: push_declared_recipe_def split: bind_splits)
  have rl: "recipe_list s = ?rs @ [recipe]" by (simp add: st lv_list_push)
  show "unat i = length ?rs" "recipe_list s = ?rs @ [recipe]" by (fact i, fact rl)
  have same: "same_rows (it_store it) s"
    using s unfolding store_inv_def by (auto simp: same_rows_def st fun_eq_iff all_tags tables_inv_def column_push)
  show rows: "store_rows s = store_rows (it_store it)" by (rule same_rows_keep(1) [OF same])
  have row: "row_in it' = row_in it" by (simp add: row_in_def fun_eq_iff it' rows)
  have rc: "rows_closed it" "recipes_closed it" "caches_exact it" using inv by (simp_all add: session_inv_def)
  have own: "row_own s r = row_own (it_store it) r" if "st_row (it_store it) t = Some r" for t r
    by (rule row_own_recipes [OF _ rl]) (use rc(1) that in \<open>auto simp: rows_closed_def row_closed_def row_in_st_row\<close>)
  have ex: "exact_params s t f \<longleftrightarrow> exact_params (it_store it) t f" "exact_mode s t k \<longleftrightarrow> exact_mode (it_store it) t k" for t f k
    by (rule exact_region [where A = UNIV]; use own in \<open>auto simp: rows\<close>)+
  have si: "store_inv s"
    by (rule same_rows_keep(5) [OF same s]) (use s in \<open>simp add: store_inv_def side_maps_inv_def st\<close>)
  have "machine_inv fx it'"
    by (rule conjunct1, rule same_store_step [OF m]) (use si rows in \<open>simp_all add: it' st store_base_len_def\<close>)
  moreover have "rows_closed it'"
    using rc(1) unfolding rows_closed_def row_closed_def row by (auto simp: it' rl less_Suc_eq)
  moreover have "side_closed it'"
    using inv unfolding session_inv_def side_closed_def row by (auto simp: it' st type_param_constraint_def template_name_def)
  moreover have "recipes_closed it'"
  proof -
    have "recipe_index it' x = (if x = recipe then Some i else recipe_index it x)" for x
      by (simp add: recipe_index_def it' split: option.split)
    then have "nth_opt (?rs @ [recipe]) (unat j) = Some x" if "recipe_index it' x = Some j" for x j
      using that rc(2) i unfolding recipes_closed_def Let_def
      by (fastforce simp: nth_opt_def nth_append split: if_splits)
    moreover have "(\<forall>t \<in> set (node_types (dr_node ((?rs @ [recipe]) ! j))). valid it t) \<and>
        (\<forall>c \<in> set (node_children (dr_node ((?rs @ [recipe]) ! j))). unat c < j)" if "j < Suc (length ?rs)" for j
      using that rc(2) ok recipe by (auto simp: recipes_closed_def Let_def nth_append less_Suc_eq list_all_iff)
    ultimately show ?thesis
      using ok unfolding recipes_closed_def Let_def row by (simp add: it' rl)
  qed
  moreover have "caches_exact it'"
  proof -
    have al: "it_free_param_summaries (aligned it') = it_free_param_summaries (aligned it)"
        "it_application_key_modes (aligned it') = it_application_key_modes (aligned it)"
      by (simp_all add: aligned_def it' st)
    have f: "it_store it' = s" "it_free_param_summaries it' = it_free_param_summaries it"
        "it_application_key_modes it' = it_application_key_modes it" "store_base_len s = store_base_len (it_store it)"
        "st_semantic_graph_identity s = st_semantic_graph_identity (it_store it)"
      by (simp_all add: it' st store_base_len_def)
    show ?thesis using rc(3) unfolding caches_exact_def summaries_exact_def al row f ex by simp
  qed
  ultimately show "session_inv fx it'" by (simp add: session_inv_def)
qed


text \<open>
  Interning a recipe returns; the id it returns has the node with exactly its free parameters; what
  was interned before is found again; and the session goes on.
\<close>

lemma recipe_session:
  assumes inv: "session_inv fx it" and ok: "session_ok it (Session_Recipe node)"
  shows "\<exists>i it'. intern_declared_recipe it node = Some (i, it') \<and> session_inv fx it' \<and> store_rows (it_store it') = store_rows (it_store it) \<and>
    (\<exists>r. declared_recipe (it_store it') i = Some r \<and> dr_node r = node \<and> sorted_wrt (<) (dr_free_params r) \<and>
      set (dr_free_params r) = node_frees (it_store it) node \<and> recipe_index it' r = Some i \<and>
      (recipe_index it r = Some i \<and> it_store it' = it_store it \<or>
       unat i = length (recipe_list (it_store it)) \<and> recipe_list (it_store it') = recipe_list (it_store it) @ [r]))"
proof -
  have "node_ok it node" using ok by simp
  from derive_session [OF inv this] obtain f it1 where f: "derive_declared_recipe_free_params it node = Some (f, it1)" "session_inv fx it1"
      "same_but_summaries it it1" "sorted_wrt (<) f" "set f = node_frees (it_store it) node" by blast
  note same = same_but_summaries_fields [OF f(3)]
  let ?r = "\<lparr>dr_node = node, dr_free_params = f\<rparr>"
  have ix: "recipe_index it1 ?r = recipe_index it ?r" by (simp add: recipe_index_def same split: option.split)
  show ?thesis
  proof (cases "recipe_index it1 ?r")
    case (Some i)
    then have "intern_declared_recipe it node = Some (i, it1)"
      by (simp add: intern_declared_recipe_def f(1) recipe_index_def)
    moreover have "declared_recipe (it_store it1) i = Some ?r"
      using f(2) Some by (simp add: session_inv_def recipes_closed_def Let_def declared_recipe_def lv_get_list)
    ultimately show ?thesis using f Some ix by (intro exI [of _ i] exI [of _ it1]) (simp add: same)
  next
    case None
    have ok1: "session_ok it1 (Session_Recipe node)" using ok by (simp add: same row_in_def)
    then obtain i s where push: "push_declared_recipe (it_store it1) ?r = Some (i, s)"
      by (auto simp: push_declared_recipe_def u32_try_from_def length_lv_list)
    let ?it = "it1\<lparr>it_store := s, it_declared_recipe_local := fmupd ?r i (it_declared_recipe_local it1)\<rparr>"
    have run: "intern_declared_recipe it node = Some (i, ?it)"
      using None by (simp add: intern_declared_recipe_def f(1) recipe_index_def push split: option.splits)
    note new = pushed_recipe_session [OF f(2) ok1 _ None push refl, simplified]
    have "declared_recipe s i = Some ?r"
      by (simp add: declared_recipe_def lv_get_list new nth_opt_def)
    then show ?thesis using run new f same by (intro exI [of _ i] exI [of _ ?it]) (simp add: recipe_index_def)
  qed
qed

section \<open>Reachable sessions\<close>

lemma op_session:
  assumes inv: "session_inv fx it" and ok: "session_ok it (Session_Op op)" and run: "run_op fx it op = Some it'"
  shows "session_inv fx it'"
proof -
  have m: "machine_inv fx it" and opok: "op_ok it op" using inv ok by (simp_all add: session_inv_def)
  have m': "machine_inv fx it'" using op_step [OF m opok] run by (auto simp: op_correct_def)
  have fill: "session_inv fx it'" if "map_option snd (fill_reserved_type_batch it fills) = Some it'"
      "\<And>f. f \<in> set fills \<Longrightarrow> row_closed it (fill_row f)" for fills
    using that fill_session [OF inv _ m'] by auto
  note placeholder = placeholder_closed [OF m]
  show ?thesis
  proof (cases op)
    case (Op_Intern req)
    then show ?thesis using intern_session [OF inv _ _ m'] ok run by blast
  next
    case (Op_Union ms)
    then show ?thesis using union_session [OF inv _ _ m'] ok run by blast
  next
    case (Op_Intersection ms)
    then show ?thesis using intersection_session [OF inv _ _ m'] ok run by blast
  next
    case (Op_Declared recipe mapper)
    then show ?thesis using declared_session [OF inv _ _ m'] ok run by blast
  next
    case (Op_Fill fills)
    have "row_closed it (fill_row f)" if "f \<in> set fills" for f
      using ok that Op_Fill by (cases f) (auto simp: list_all_iff row_closed_def row_recipes_def)
    then show ?thesis using fill run Op_Fill by auto
  next
    case (Op_AbandonObject tid)
    then show ?thesis using fill [of "[Fill_Object tid object_default]"] run placeholder
      by (simp add: abandon_reserved_object_def)
  next
    case (Op_PoisonConditional tid)
    then show ?thesis using fill [of "[Fill_Conditional tid (error_conditional (it_well_known it) True)]"] run placeholder
      by (simp add: poison_reserved_conditional_def)
  next
    case (Op_PoisonMapped tid)
    then show ?thesis using fill [of "[Fill_Mapped tid (error_mapped (it_well_known it))]"] run placeholder
      by (simp add: poison_reserved_mapped_def)
  next
    case (Op_SetConstraint p c)
    then show ?thesis using side_ops_session(1) [OF inv _ _ m'] ok run by simp
  next
    case (Op_RemoveConstraint p)
    then show ?thesis using side_ops_session(2) [OF inv _ m'] run by blast
  next
    case (Op_FreezeParams ps)
    then show ?thesis using side_ops_session(3) [OF inv _ m'] run by blast
  next
    case (Op_SetTemplateName tid name)
    then show ?thesis using side_ops_session(4) [OF inv _ m'] run by blast
  next
    case (Op_Promote tid)
    then show ?thesis using promote_session [OF inv m'] run by auto
  next
    case Op_Fork
    then show ?thesis using run inv m' fork_session [OF inv] by (auto split: sum.splits)
  next
    case Op_Freeze
    then show ?thesis using run m' freeze_session [OF inv] by auto
  qed (use ok run m' opok reserve_session [OF inv] in \<open>simp_all\<close>; use cache_ops_session [OF inv m' run] in blast)+
qed


inductive session :: "hasher \<Rightarrow> interner \<Rightarrow> bool" for fx where
  start: "with_intrinsics fx = Some it \<Longrightarrow> session fx it"
| continue: "session fx it \<Longrightarrow> session_ok it op \<Longrightarrow> run_session fx it op = Some it' \<Longrightarrow> session fx it'"

inductive_cases sessionE: "session fx it"

text \<open>No operation of a session panics.\<close>

lemma session_progress:
  assumes inv: "session_inv fx it" and ok: "session_ok it op"
  shows "\<exists>it'. run_session fx it op = Some it' \<and> session_inv fx it'"
proof (cases op)
  case (Session_Op o')
  have "op_correct fx it o'" using inv ok Session_Op by (intro op_step) (simp_all add: session_inv_def)
  then show ?thesis using op_session [OF inv] ok Session_Op by (auto simp: op_correct_def)
next
  case (Session_Recipe node)
  then show ?thesis using recipe_session [OF inv] ok by fastforce
next
  case (Session_Summaries ty)
  then show ?thesis using summaries_session [OF inv] ok by fastforce
qed

lemma untouched_trans: "untouched a b \<Longrightarrow> untouched b c \<Longrightarrow> untouched a c"
  by (simp add: untouched_def)

lemma intrinsics_untouched: "intern_intrinsics fx it ks = Some (xs, it') \<Longrightarrow> untouched it it'"
proof (induction ks arbitrary: it xs)
  case (Cons k ks)
  from Cons.prems obtain tid it1 ys where "intern_intrinsic fx it k = Some (tid, it1)" "intern_intrinsics fx it1 ks = Some (ys, it')"
    by (auto split: bind_splits)
  moreover from this(1) have "untouched it it1" using request_untouched [of fx it "Req_Intrinsic k"] by simp
  ultimately show ?case using Cons.IH untouched_trans by blast
qed simp

lemma untouched_start: "with_intrinsics fx = Some it \<Longrightarrow> untouched empty_interner it"
  by (auto simp: with_intrinsics_def untouched_def caches_of_def dest!: intrinsics_untouched split: bind_splits)

lemma start_session:
  assumes "with_intrinsics fx = Some it"
  shows "session_inv fx it"
proof -
  note start = with_intrinsics_inv [OF assms]
  have rows: "\<exists>k. r = Row_Intrinsic k" if "row_in it i = Some r" for i r
    using that start(3) by (auto simp: row_in_def nth_opt_def split: if_splits)
  have "rows_closed it" using rows by (fastforce simp: rows_closed_def row_closed_def row_refs_def row_recipes_def)
  moreover from untouched_start [OF assms] have
    un: "st_declared_recipes (it_store it) = lv_default" "st_type_param_constraints (it_store it) = lm_default"
      "st_template_names (it_store it) = lm_default" "st_semantic_graph_identity (it_store it) = 0"
      "it_free_param_summaries it = fp_new 0" "it_application_key_modes it = gc_new 0"
      "it_declared_recipe_base it = fmempty" "it_declared_recipe_local it = fmempty"
    by (simp_all add: untouched_def side_of_def caches_of_def empty_interner_def store_new_def)
  moreover have "side_closed it" "recipes_closed it"
    by (simp_all add: side_closed_def recipes_closed_def Let_def un recipe_index_def type_param_constraint_def template_name_def)
  moreover have "caches_exact it"
    using rows by (fastforce simp: caches_exact_def summaries_exact_def aligned_def un fp_get_def gc_get_def
        fp_align_with_def gc_align_with_def fp_new_def gc_new_def)
  ultimately show ?thesis using start(1) by (simp add: session_inv_def)
qed

lemma session_session_inv: "session fx it \<Longrightarrow> session_inv fx it"
  by (induction rule: session.induct) (use start_session session_progress in fastforce)+

lemma session_parts:
  assumes "session_inv fx it"
  shows "interner_inv fx it" "sets_inv it" "well_known_inv it" "rows_closed it" "store_inv (it_store it)"
  using assms by (simp_all add: session_inv_def machine_inv_def interner_inv_def)

end
