(* ===== verification/Session_Properties.thy ===== *)
theory Session_Properties
  imports Session_Steps Interner_Properties
begin

text \<open>
  What holds in every session: the components that share the interner compose. The reference
  projection is closed and complete, the summaries are exact and so is what the caches answer,
  recipes are interned and validated, and the relation engine decides.
\<close>

section \<open>A concrete session\<close>

definition next_session :: "interner \<Rightarrow> session_op \<Rightarrow> interner" where
  "next_session it op = the (run_session (\<lambda>_. 0) it op)"

lemma next_session:
  assumes "session (\<lambda>_. 0) it" "session_ok it op"
  shows "session (\<lambda>_. 0) (next_session it op)" "run_session (\<lambda>_. 0) it op = Some (next_session it op)"
proof -
  from session_progress [OF session_session_inv [OF assms(1)] assms(2)]
  show run: "run_session (\<lambda>_. 0) it op = Some (next_session it op)" by (auto simp: next_session_def)
  show "session (\<lambda>_. 0) (next_session it op)" by (rule session.continue [OF assms run])
qed

definition session_param :: interner where
  "session_param = next_session initial (Session_Op (Op_Intern (Req_TypeParam 7 ''T'')))"

definition session_array :: interner where
  "session_array = next_session session_param (Session_Op (Op_Intern (Req_Array 19)))"

lemma session_samples:
  "store_len (it_store session_param) = 20 \<and> row_in session_param 19 \<noteq> None"
  "let it = session_array in store_len (it_store it) = 21 \<and>
     row_in it 19 = Some (Row_TypeParam \<lparr>tp_id = 7, tp_name = ''T''\<rparr>) \<and> row_in it 20 = Some (Row_Array 19)"
  by code_simp+

lemma session_array_session: "session (\<lambda>_. 0) session_array"
proof -
  have "session_ok initial (Session_Op (Op_Intern (Req_TypeParam 7 ''T'')))" by (simp add: initial_len row_refs_def)
  from next_session(1) [OF session.start [OF initial_start] this] have "session (\<lambda>_. 0) session_param" by (simp add: session_param_def)
  moreover have "session_ok session_param (Session_Op (Op_Intern (Req_Array 19)))"
    using session_samples(1) by (simp add: row_refs_def)
  ultimately show ?thesis unfolding session_array_def by (rule next_session(1))
qed

lemma session_array_recipes: "recipe_list (it_store session_array) = []"
  by code_simp

lemma session_array_rows:
  "row_in session_array 19 = Some (Row_TypeParam \<lparr>tp_id = 7, tp_name = ''T''\<rparr>)" "row_in session_array 20 = Some (Row_Array 19)"
  using session_samples(2) by (simp_all add: Let_def)

section \<open>Sessions do not panic\<close>

lemma referenced_valid:
  assumes inv: "session_inv fx it" and t: "t \<in> referenced_types (it_store it)"
  shows "row_in it t \<noteq> None"
proof -
  have closed: "rows_closed it" "side_closed it" "recipes_closed it" using inv by (simp_all add: session_inv_def)
  from t consider r where "r \<in> set (store_rows (it_store it))" "t \<in> set (row_refs r)"
    | i where "i < length (recipe_list (it_store it))" "t \<in> set (node_types (dr_node (recipe_list (it_store it) ! i)))"
    | p where "type_param_constraint (it_store it) p = Some t" | "template_name (it_store it) t \<noteq> None"
    unfolding referenced_types_def by (auto simp: in_set_conv_nth [of _ "recipe_list _"])
  then show ?thesis
  proof cases
    case 1
    then obtain i where "row_in it i = Some r" using row_listed [OF inv] by blast
    then show ?thesis using closed(1) 1(2) by (auto simp: rows_closed_def row_closed_def)
  qed (use closed in \<open>auto simp: side_closed_def recipes_closed_def Let_def\<close>)
qed

text \<open>
  C16: a session never gets stuck. Whatever the order of interning, unions, reservations and their
  publication, side columns, cache traffic, sealing and forking, recipes and summaries, an
  operation whose operands are ids of the session returns, and every id in the store, in the recipes
  and in the side columns stays an id of the session.
\<close>

theorem session_never_stuck:
  assumes "session fx it" "session_ok it op"
  shows "\<exists>it'. run_session fx it op = Some it' \<and> session fx it' \<and>
    (\<forall>t \<in> referenced_types (it_store it'). row_in it' t \<noteq> None)"
proof -
  obtain it' where it': "run_session fx it op = Some it'" "session_inv fx it'"
    using session_progress [OF session_session_inv [OF assms(1)] assms(2)] by blast
  then show ?thesis using session.continue [OF assms it'(1)] referenced_valid by blast
qed

theorem session_never_stuck_witness:
  "\<exists>it'. run_session (\<lambda>_. 0) session_array (Session_Recipe (Recipe_Type 20)) = Some it' \<and> session (\<lambda>_. 0) it'"
proof -
  have "session_ok session_array (Session_Recipe (Recipe_Type 20))"
    using session_array_rows session_array_recipes by simp
  then show ?thesis using session_never_stuck [OF session_array_session, of "Session_Recipe (Recipe_Type 20)"] by blast
qed

section \<open>The projection of references\<close>

text \<open>
  C20: the sorted projection of identity edges that a sealed library is validated against. It returns on
  every session; a row has an edge to a type exactly when the type is one of its operands, the base of
  an instantiation included; the types it mentions are exactly those that rows, recipes,
  constraints and template names refer to, all of them rows of the store.
\<close>

theorem session_references:
  assumes "session fx it"
  shows "\<exists>rs. typed_reference_records_for_replay_generation it = Some (Inr rs) \<and> sorted rs \<and>
    (\<forall>owner t. (\<exists>f. (TYPE_DOMAIN, TYPE_DOMAIN, f, owner, t) \<in> set rs) \<longleftrightarrow>
       (\<exists>r. row_in it owner = Some r \<and> t \<in> set (row_refs r))) \<and>
    {t. \<exists>d f owner. (d, TYPE_DOMAIN, f, owner, t) \<in> set rs} = referenced_types (it_store it) \<and>
    (\<forall>d f owner t. (d, TYPE_DOMAIN, f, owner, t) \<in> set rs \<longrightarrow> row_in it t \<noteq> None)"
proof -
  have inv: "session_inv fx it" by (rule session_session_inv [OF assms])
  then have i: "interner_inv fx it" by (simp add: session_inv_def machine_inv_def)
  from projection_returns [OF i] obtain rs where run: "typed_reference_records_for_replay_generation it = Some (Inr rs)" by blast
  note p = projection_targets [OF i run]
  then have "\<forall>d f owner t. (d, TYPE_DOMAIN, f, owner, t) \<in> set rs \<longrightarrow> row_in it t \<noteq> None"
    using referenced_valid [OF inv] by blast
  then show ?thesis using run p by blast
qed

theorem session_references_witness:
  "\<exists>rs f. typed_reference_records_for_replay_generation session_array = Some (Inr rs) \<and> (TYPE_DOMAIN, TYPE_DOMAIN, f, 20, 19) \<in> set rs"
proof -
  obtain rs where rs: "typed_reference_records_for_replay_generation session_array = Some (Inr rs)"
      "\<And>owner t. (\<exists>f. (TYPE_DOMAIN, TYPE_DOMAIN, f, owner, t) \<in> set rs) \<longleftrightarrow>
         (\<exists>r. row_in session_array owner = Some r \<and> t \<in> set (row_refs r))"
    using session_references [OF session_array_session] by blast
  from rs(2) [of 20 19] have "\<exists>f. (TYPE_DOMAIN, TYPE_DOMAIN, f, 20, 19) \<in> set rs"
    by (simp add: session_array_rows row_refs_def)
  then show ?thesis using rs(1) by blast
qed

section \<open>Summaries\<close>

text \<open>
  C17: the free parameters and the key mode of a type. The worklist computation returns on every type of
  a session, cyclic ones included; its parameters are sorted and are exactly those that occur outside
  their binders below the type, and it asks for the full mapper exactly when a deferred node below
  the type retains one.
\<close>

theorem application_summary_exact:
  assumes "session fx it" "row_in it ty \<noteq> None"
  shows "\<exists>s it'. compute_application_summaries it ty = Some (s, it') \<and> session fx it' \<and>
    sorted (as_free_params s) \<and> distinct (as_free_params s) \<and>
    set (as_free_params s) = {p. free_in (it_store it) p ty} \<and>
    (as_key_mode s = Mode_FullMap \<longleftrightarrow> retains (it_store it) ty)"
proof -
  obtain s it' where s: "compute_application_summaries it ty = Some (s, it')" "exact_params (it_store it) ty (as_free_params s)"
      "exact_mode (it_store it) ty (as_key_mode s)"
    using summaries_session [OF session_session_inv [OF assms(1)] assms(2)] by blast
  then have "run_session fx it (Session_Summaries ty) = Some it'" by simp
  then have "session fx it'" using session.continue [OF assms(1), of "Session_Summaries ty"] assms(2) by simp
  then show ?thesis using s by (auto simp: exact_params_def exact_mode_def)
qed

lemma array_free: "free_in (it_store session_array) p 20 \<longleftrightarrow> p = 7" "\<not> retains (it_store session_array) 20"
proof -
  have rows: "st_row (it_store session_array) 19 = Some (Row_TypeParam \<lparr>tp_id = 7, tp_name = ''T''\<rparr>)"
      "st_row (it_store session_array) 20 = Some (Row_Array 19)"
    using session_array_rows by (simp_all add: row_in_st_row)
  have "free_in (it_store session_array) p 19 \<longleftrightarrow> p = 7" for p
    by (subst free_in.simps) (auto simp: rows [simplified])
  then show "free_in (it_store session_array) p 20 \<longleftrightarrow> p = 7"
    by (subst free_in.simps) (auto simp: rows [simplified])
  have "\<not> retains (it_store session_array) 19" by (subst retains.simps) (simp add: rows [simplified])
  then show "\<not> retains (it_store session_array) 20" by (subst retains.simps) (simp add: rows [simplified])
qed

theorem application_summary_exact_witness:
  "\<exists>s it'. compute_application_summaries session_array 20 = Some (s, it') \<and> set (as_free_params s) = {7} \<and>
     as_key_mode s = Mode_RelevantOnly"
proof -
  obtain s it' where s: "compute_application_summaries session_array 20 = Some (s, it')"
      "set (as_free_params s) = {p. free_in (it_store session_array) p 20}"
      "as_key_mode s = Mode_FullMap \<longleftrightarrow> retains (it_store session_array) 20"
    using application_summary_exact [OF session_array_session, of 20] session_array_rows by auto
  then show ?thesis by (cases "as_key_mode s") (auto simp: array_free)
qed

text \<open>
  C18: what the caches answer. Whatever was computed before, through fills that gave reserved rows their
  bodies, sealing and forking, an answer of the free-parameter cache or of the key-mode cache is the
  one a fresh computation would give on the present graph.
\<close>

theorem session_caches_exact:
  assumes "session fx it"
  shows "(fst (free_param_summary it ty) = Some f \<longrightarrow>
      row_in it ty \<noteq> None \<and> sorted f \<and> distinct f \<and> set f = {p. free_in (it_store it) p ty}) \<and>
    (fst (application_key_mode_of it ty) = Some k \<longrightarrow> row_in it ty \<noteq> None \<and> (k = Mode_FullMap \<longleftrightarrow> retains (it_store it) ty))"
proof -
  have "summaries_exact it" using session_session_inv [OF assms] by (simp add: session_inv_def caches_exact_def)
  then show ?thesis
    by (auto simp: summaries_exact_def aligned_def free_param_summary_def application_key_mode_of_def Let_def
        exact_params_def exact_mode_def row_in_st_row)
qed

theorem session_caches_exact_witness:
  "\<exists>it' f. fst (free_param_summary it' 20) = Some f \<and> set f = {7}"
proof -
  have valid: "session_ok session_array (Session_Summaries 20)" using session_array_rows by simp
  let ?it = "next_session session_array (Session_Summaries 20)"
  have "case fst (free_param_summary ?it 20) of None \<Rightarrow> False | Some f \<Rightarrow> True" by code_simp
  then obtain f where f: "fst (free_param_summary ?it 20) = Some f" by (auto split: option.splits)
  obtain s where "compute_application_summaries session_array 20 = Some (s, ?it)" "same_but_summaries session_array ?it"
    using next_session(2) [OF session_array_session valid] summaries_session [OF session_session_inv [OF session_array_session], of 20]
      session_array_rows by auto
  then have "set f = {7}"
    using session_caches_exact [OF next_session(1) [OF session_array_session valid], of 20 f] f same_but_summaries_fields(1)
    by (auto simp: array_free)
  then show ?thesis using f by blast
qed


section \<open>Declaration recipes\<close>

text \<open>The children of a recipe are older than it, so a traversal never meets an active recipe.\<close>

lemma validate_older:
  assumes closed: "recipes_closed it"
  shows "unat i < length (recipe_list (it_store it)) \<Longrightarrow> (\<And>a. a |\<in>| active \<Longrightarrow> unat i < unat a) \<Longrightarrow>
    validate_declared_recipe (it_store it) active i = None"
proof (induction "unat i" arbitrary: i active rule: less_induct)
  case less
  let ?rs = "recipe_list (it_store it)"
  have r: "declared_recipe (it_store it) i = Some (?rs ! unat i)"
    using less.prems(1) by (simp add: declared_recipe_def lv_get_list nth_opt_def)
  have older: "unat c < unat i" if "c \<in> set (node_children (dr_node (?rs ! unat i)))" for c
    using closed less.prems(1) that by (auto simp: recipes_closed_def Let_def)
  have "validate_declared_recipe (it_store it) (finsert i active) c = None" if "c \<in> set (node_children (dr_node (?rs ! unat i)))" for c
    using older [OF that] less.prems by (intro less.hyps) (fastforce dest: less_trans)+
  then have "validate_declared_recipes (it_store it) (finsert i active) cs = None" if "set cs \<subseteq> set (node_children (dr_node (?rs ! unat i)))" for cs
    using that by (induction cs) simp_all
  moreover have "i |\<notin>| active" using less.prems(2) by blast
  ultimately show ?case by (simp add: traversal_enter_def r)
qed

text \<open>Recipes appended to a store do not change the free parameters of what it had.\<close>

lemma node_frees_kept:
  assumes inv: "session_inv fx it" and ok: "node_ok it node"
    and rows: "store_rows (it_store it') = store_rows (it_store it)"
    and recipes: "recipe_list (it_store it') = recipe_list (it_store it) @ news"
  shows "node_frees (it_store it') node = node_frees (it_store it) node"
proof -
  have own: "row_own (it_store it') r = row_own (it_store it) r" if "st_row (it_store it) t = Some r" for t r
    by (rule row_own_recipes [OF _ recipes]) (use inv that in \<open>auto simp: session_inv_def rows_closed_def row_closed_def row_in_st_row\<close>)
  have free: "free_in (it_store it') p t \<longleftrightarrow> free_in (it_store it) p t" for p t
    by (rule region_agrees [where A = UNIV]) (use own in \<open>auto simp: rows\<close>)
  have child: "recipe_free_params (it_store it') c = recipe_free_params (it_store it) c" if "c \<in> set (node_children node)" for c
    using ok that by (simp add: recipe_free_params_def declared_recipe_def lv_get_list recipes list_all_iff nth_opt_append)
  show ?thesis using child by (cases node) (auto simp: free)
qed

text \<open>
  C21: interning a declaration recipe returns; the id names the node with exactly its free parameters,
  sorted; the traversal that guards materialization against cycles accepts it; and interning the
  node again gives the same id.
\<close>

theorem recipe_interned:
  assumes "session fx it" "session_ok it (Session_Recipe node)"
  shows "\<exists>i it' r. intern_declared_recipe it node = Some (i, it') \<and> session fx it' \<and>
    declared_recipe (it_store it') i = Some r \<and> dr_node r = node \<and> sorted_wrt (<) (dr_free_params r) \<and>
    set (dr_free_params r) = node_frees (it_store it) node \<and>
    validate_declared_recipe (it_store it') {||} i = None \<and>
    (\<exists>it''. intern_declared_recipe it' node = Some (i, it'') \<and> it_store it'' = it_store it')"
proof -
  have inv: "session_inv fx it" by (rule session_session_inv [OF assms(1)])
  obtain i it' r where r: "intern_declared_recipe it node = Some (i, it')" "session_inv fx it'" "store_rows (it_store it') = store_rows (it_store it)"
      "declared_recipe (it_store it') i = Some r" "dr_node r = node" "sorted_wrt (<) (dr_free_params r)"
      "set (dr_free_params r) = node_frees (it_store it) node" "recipe_index it' r = Some i"
      "it_store it' = it_store it \<or> recipe_list (it_store it') = recipe_list (it_store it) @ [r]"
    using recipe_session [OF inv assms(2)] by blast
  have s': "session fx it'" using session.continue [OF assms] r(1) by simp
  have closed: "recipes_closed it'" using r(2) by (simp add: session_inv_def)
  have "unat i < length (recipe_list (it_store it'))" using r(4) by (simp add: declared_recipe_def lv_get_list nth_opt_eq_Some)
  then have val: "validate_declared_recipe (it_store it') {||} i = None" by (intro validate_older [OF closed]) simp_all
  have frees: "node_frees (it_store it') node = node_frees (it_store it) node"
    using r(9) node_frees_kept [OF inv _ r(3)] assms(2) by auto
  have "row_in it' = row_in it" using r(3) by (simp add: row_in_def fun_eq_iff)
  then have ok': "node_ok it' node" using assms(2) r(9) by (auto simp: list_all_iff)
  obtain f it1 where f: "derive_declared_recipe_free_params it' node = Some (f, it1)" "same_but_summaries it' it1"
      "sorted_wrt (<) f" "set f = node_frees (it_store it') node"
    using derive_session [OF r(2) ok'] by blast
  have "f = dr_free_params r" using f(3,4) r(6,7) frees by (metis strict_sorted_equal)
  then have "\<lparr>dr_node = node, dr_free_params = f\<rparr> = r" using r(5) by simp
  then have "intern_declared_recipe it' node = Some (i, it1)"
    using f(1) r(8) same_but_summaries_fields [OF f(2)] by (simp add: intern_declared_recipe_def recipe_index_def split: option.splits)
  then show ?thesis using r s' val same_but_summaries_fields(1) [OF f(2)] by metis
qed


theorem recipe_interned_witness:
  "\<exists>i it' r. intern_declared_recipe session_array (Recipe_Type 20) = Some (i, it') \<and>
     declared_recipe (it_store it') i = Some r \<and> set (dr_free_params r) = {7}"
proof -
  have "session_ok session_array (Session_Recipe (Recipe_Type 20))"
    using session_array_rows session_array_recipes by simp
  from recipe_interned [OF session_array_session this] show ?thesis by (auto simp: array_free)
qed

section \<open>The relation engine on a session\<close>

definition session_env :: "interner \<Rightarrow> normalization option \<Rightarrow> float_text \<Rightarrow> relate_env" where
  "session_env it provider floats = \<lparr>re_store = it_store it, re_well_known = it_well_known it,
     re_normalization = provider, re_float_text = floats\<rparr>"

text \<open>What the provider of normal forms answers are types of the interner.\<close>

definition answers_in :: "interner \<Rightarrow> relate_env \<Rightarrow> bool" where
  "answers_in it env \<longleftrightarrow>
     (\<forall>t u. row_in it t \<noteq> None \<longrightarrow> normalized env t = Inr u \<longrightarrow> row_in it u \<noteq> None) \<and>
     (\<forall>t u. row_in it t \<noteq> None \<longrightarrow> apparent_surface_of env t = Surface_Ready u \<longrightarrow> row_in it u \<noteq> None)"

lemma children_refs: "set (row_children r) \<subseteq> set (row_refs r)"
  by (cases r) (auto simp: row_refs_def object_children_def opt_ids_def opt_list_def split: option.splits)

lemma intrinsic_id_known: "intrinsic_id wk k = well_known_of wk k"
  by (cases k) simp_all

locale session_arena =
  fixes fx :: hasher and it :: interner and provider :: "normalization option" and floats :: float_text
  assumes live: "session fx it"
    and monomorphic: "list_all row_monomorphic (store_rows (it_store it))"
    and answers: "answers_in it (session_env it provider floats)"
begin

lemma session_rows_closed: "closed_rows (store_rows (it_store it))"
proof -
  have inv: "session_inv fx it" by (rule session_session_inv [OF live])
  then have rc: "rows_closed it" and len: "store_len (it_store it) \<le> 2 ^ 32"
    by (simp_all add: session_inv_def machine_inv_def interner_inv_def)
  have "(\<forall>c \<in> set (row_children r). unat c < store_len (it_store it)) \<and> (\<forall>c \<in> set (row_older r). unat c < i)"
    if "i < store_len (it_store it)" "r = store_rows (it_store it) ! i" for i r
  proof -
    have "unat (word_of_nat i :: u32) = i" using that(1) len by (simp add: unat_of_len_u32)
    moreover from this have "row_in it (word_of_nat i) = Some r" using that by (simp add: row_in_def nth_opt_def)
    ultimately show ?thesis
      using rc children_refs [of r] unfolding rows_closed_def row_closed_def valid_iff by (metis subsetD word_less_nat_alt)
  qed
  then show ?thesis
    using monomorphic by (auto simp: closed_rows_def list_all_iff in_set_enumerate_eq)
qed

lemma session_env_closed: "closed_env (session_env it provider floats)"
proof -
  have inv: "session_inv fx it" by (rule session_session_inv [OF live])
  then have i: "store_inv (it_store it)" and wk: "well_known_inv it" and side: "side_closed it"
    by (simp_all add: session_inv_def machine_inv_def interner_inv_def)
  have known: "t \<in> ids (session_env it provider floats) \<longleftrightarrow> row_in it t \<noteq> None" for t
    unfolding valid_iff by (simp add: ids_def session_env_def)
  have "row_in it (intrinsic_id (it_well_known it) k) \<noteq> None" for k
    using wk by (simp add: well_known_inv_def intrinsic_id_known)
  moreover have st: "re_store (session_env it provider floats) = it_store it"
      "re_well_known (session_env it provider floats) = it_well_known it" by (simp_all add: session_env_def)
  moreover have "\<forall>p c. type_param_constraint (it_store it) p = Some c \<longrightarrow> row_in it c \<noteq> None"
    using side by (simp add: side_closed_def)
  ultimately show ?thesis
    using i session_rows_closed answers unfolding closed_env_def known answers_in_def st by blast
qed

end

sublocale session_arena \<subseteq> engine: arena "session_env it provider floats"
  by unfold_locales (rule session_env_closed)

context session_arena
begin

lemma session_ids: "t \<in> ids (session_env it provider floats) \<longleftrightarrow> row_in it t \<noteq> None"
  unfolding valid_iff by (simp add: ids_def session_env_def)

lemma session_verdict:
  assumes "row_in it src \<noteq> None" "row_in it tgt \<noteq> None" "valid_cache (related_keys (session_env it provider floats) False) cache"
  shows "\<exists>m. \<forall>n\<ge>m. \<exists>r rl'. relate n (session_env it provider floats) src tgt kind w {} (relater_planned cache) = Answer (r, {}, rl') \<and>
    (is_yes r \<longleftrightarrow> related (session_env it provider floats) False src tgt kind)"
  using engine.verdict_eventually [OF assms(1,2) [folded session_ids] planned_start(1) [OF assms(3)] planned_start(2), of kind w] by blast

lemma session_answer:
  assumes "row_in it src \<noteq> None" "row_in it tgt \<noteq> None" "relate n (session_env it provider floats) src tgt kind w {} (relater_planned rc_new) = Answer (r, x, y)"
  shows "is_yes r \<longleftrightarrow> related (session_env it provider floats) False src tgt kind"
  using engine.verdict(1) [OF assms(1,2) [folded session_ids] planned_start(1) [OF new_cache_valid] planned_start(2) assms(3)] .

end

text \<open>
  C19: the relation engine over a session. Whatever built the arena, once it holds no generic signature
  and the provider answers with types of the arena, a planned query on two of its types returns with
  enough fuel, cyclic types included, and its verdict is the one of the greatest fixed point of the
  structural rules.
\<close>

theorem session_relation_decides:
  assumes "session fx it" "list_all row_monomorphic (store_rows (it_store it))"
    and "answers_in it (session_env it provider floats)"
    and "row_in it src \<noteq> None" "row_in it tgt \<noteq> None"
    and "valid_cache (related_keys (session_env it provider floats) False) cache"
  shows "\<exists>m. \<forall>n\<ge>m. \<exists>r rl'. relate n (session_env it provider floats) src tgt kind w {} (relater_planned cache) = Answer (r, {}, rl') \<and>
    (is_yes r \<longleftrightarrow> related (session_env it provider floats) False src tgt kind)"
proof -
  have "session_arena fx it provider floats" using assms(1-3) by unfold_locales
  from session_arena.session_verdict [OF this assms(4-6)] show ?thesis .
qed

definition no_floats :: float_text where
  "no_floats = \<lparr>ft_parse = (\<lambda>_. None), ft_display = (\<lambda>_. []), ft_format_finite = (\<lambda>_. [])\<rparr>"

lemma array_monomorphic: "list_all row_monomorphic (store_rows (it_store session_array))"
  by code_simp

lemma array_answers: "answers_in session_array (session_env session_array None no_floats)"
  by (simp add: answers_in_def normalized_def apparent_surface_of_def session_env_def)

interpretation array_session: session_arena "\<lambda>_. 0" session_array None no_floats
  by unfold_locales (rule session_array_session array_monomorphic array_answers)+

theorem session_relation_decides_witness:
  "\<exists>m. \<forall>n\<ge>m. \<exists>r rl'. relate n (session_env session_array None no_floats) 20 1 Rel_Assignable True {} (relater_planned rc_new) =
     Answer (r, {}, rl') \<and> is_yes r"
proof -
  have "verdict_of (relate 3 (session_env session_array None no_floats) 20 1 Rel_Assignable True {} (relater_planned rc_new)) = Some True"
    by code_simp
  then obtain r x y where run: "relate 3 (session_env session_array None no_floats) 20 1 Rel_Assignable True {} (relater_planned rc_new) =
      Answer (r, x, y)" "is_yes r" using verdict_of_Some by blast
  have valid: "row_in session_array 20 \<noteq> None" "row_in session_array 1 \<noteq> None"
    using session_array_rows session_samples(2) unfolding valid_iff by (simp_all add: Let_def)
  from array_session.session_answer [OF valid run(1)]
  show ?thesis
    using run(2) session_relation_decides [OF session_array_session array_monomorphic array_answers valid new_cache_valid, of Rel_Assignable True]
    by simp
qed

end
