(* ===== verification/Published_Classes.thy ===== *)
theory Published_Classes
  imports Relation_Program
begin

text \<open>
  Crate \<^verbatim>\<open>typokat-types\<close>, module \<^verbatim>\<open>class_semantics.rs\<close>: the registry of published classes. Three layered
  maps hold the final state of every class, the surface of a published one and the cause of a
  poisoned one; a registry is one map from classes to terminals, and the layers, forks and
  replacements refine it.
\<close>

section \<open>Data\<close>

record published_class_surface =
  ps_class :: class_id
  ps_type_params :: "type_param_id list"
  ps_instance_template :: type_id
  ps_static_template :: type_id
  ps_constructor_template :: "type_id option"

datatype published_class_poison = Poison_Heritage | Poison_Initializer | Poison_Surface

datatype canonical_published_class_terminal =
    Terminal_Ready published_class_surface
  | Terminal_HeritagePoison
  | Terminal_InitializerPoison
  | Terminal_SurfacePoison

datatype owned_published_class_terminal =
    Owned_Ready published_class_surface
  | Owned_Poisoned published_class_poison

datatype 'a demand_outcome = Demand_Ready 'a | Demand_Exhausted exhaustion

text \<open>An \<open>Arc\<close> identity is a number; a call that allocates one gets it as an argument.\<close>

record published_classes =
  pc_states :: "(class_id, class_construction_state) layered_map"
  pc_surfaces :: "(class_id, published_class_surface) layered_map"
  pc_poison :: "(class_id, published_class_poison) layered_map"
  pc_identity :: nat

section \<open>Operations\<close>

definition pc_empty :: "nat \<Rightarrow> published_classes" where
  "pc_empty fresh = \<lparr>pc_states = lm_default, pc_surfaces = lm_default, pc_poison = lm_default, pc_identity = fresh\<rparr>"

definition fmvalues_count :: "('v \<Rightarrow> bool) \<Rightarrow> ('k, 'v) fmap \<Rightarrow> nat" where
  "fmvalues_count p m = fmsize (fmfilter (\<lambda>k. p (the (fmlookup m k))) m)"

definition from_publication ::
    "nat \<Rightarrow> (class_id, class_construction_state) fmap \<Rightarrow> (class_id, published_class_surface) fmap \<Rightarrow>
     (class_id, published_class_poison) fmap \<Rightarrow> published_classes option" where
  "from_publication fresh states surfaces poison =
     (let every_final = fmpred (\<lambda>_ state. state = Class_Published \<or> state = Class_Poisoned) states;
          every_published_has_surface = fmpred (\<lambda>c state. state \<noteq> Class_Published \<or> c |\<in>| fmdom surfaces) states;
          every_poisoned_has_cause = fmpred (\<lambda>c state. state \<noteq> Class_Poisoned \<or> c |\<in>| fmdom poison) states;
          exact_surface_set = fmsize surfaces = fmvalues_count (\<lambda>state. state = Class_Published) states \<and>
            fmpred (\<lambda>c surface. fmlookup states c = Some Class_Published \<and> ps_class surface = c) surfaces;
          exact_poison_set = fmsize poison = fmvalues_count (\<lambda>state. state = Class_Poisoned) states \<and>
            fmpred (\<lambda>c _. fmlookup states c = Some Class_Poisoned) poison
      in if every_final \<and> every_published_has_surface \<and> every_poisoned_has_cause \<and> exact_surface_set \<and> exact_poison_set
         then Some \<lparr>pc_states = lm_from states, pc_surfaces = lm_from surfaces, pc_poison = lm_from poison, pc_identity = fresh\<rparr>
         else None)"

definition pc_require :: "published_classes \<Rightarrow> class_id \<Rightarrow> unit demand_outcome" where
  "pc_require pc c =
     (case lm_get (pc_states pc) c of
        Some Class_Published \<Rightarrow> Demand_Ready ()
      | Some Class_Poisoned \<Rightarrow>
          (case lm_get (pc_poison pc) c of
             Some Poison_Initializer \<Rightarrow> Demand_Exhausted (Exhaust_ClassInitializerPoison c)
           | Some Poison_Surface \<Rightarrow> Demand_Exhausted (Exhaust_ClassSurfacePoison c)
           | _ \<Rightarrow> Demand_Exhausted (Exhaust_ClassHeritagePoison c))
      | Some state \<Rightarrow> Demand_Exhausted (Exhaust_ClassNotPublished c state)
      | None \<Rightarrow> Demand_Exhausted (Exhaust_ClassNotPublished c Class_Pending))"

definition pc_published_class :: "published_classes \<Rightarrow> class_id \<Rightarrow> published_class_surface demand_outcome" where
  "pc_published_class pc c =
     (case pc_require pc c of
        Demand_Ready _ \<Rightarrow>
          (case lm_get (pc_surfaces pc) c of
             Some surface \<Rightarrow> Demand_Ready surface
           | None \<Rightarrow> Demand_Exhausted (Exhaust_ClassNotPublished c Class_Built))
      | Demand_Exhausted reason \<Rightarrow> Demand_Exhausted reason)"

text \<open>The keys of a layered map in the order of their ids.\<close>

definition lm_sorted_keys :: "(class_id, 'v) layered_map \<Rightarrow> class_id list" where
  "lm_sorted_keys m = sorted_list_of_fset (fmdom (lm_iter m))"

definition canonical_terminal :: "published_classes \<Rightarrow> class_id \<Rightarrow> canonical_published_class_terminal option" where
  "canonical_terminal pc c = do {
     state \<leftarrow> lm_get (pc_states pc) c;
     (case state of
        Class_Published \<Rightarrow> do { surface \<leftarrow> lm_get (pc_surfaces pc) c; Some (Terminal_Ready surface) }
      | Class_Poisoned \<Rightarrow> do {
          cause \<leftarrow> lm_get (pc_poison pc) c;
          Some (case cause of Poison_Heritage \<Rightarrow> Terminal_HeritagePoison
            | Poison_Initializer \<Rightarrow> Terminal_InitializerPoison | Poison_Surface \<Rightarrow> Terminal_SurfacePoison)
        }
      | _ \<Rightarrow> None)
   }"

fun each_terminal :: "(class_id \<Rightarrow> 't option) \<Rightarrow> class_id list \<Rightarrow> (class_id \<times> 't) list option" where
  "each_terminal f [] = Some []"
| "each_terminal f (c # cs) = do { t \<leftarrow> f c; ts \<leftarrow> each_terminal f cs; Some ((c, t) # ts) }"

definition canonical_terminals :: "published_classes \<Rightarrow> (class_id \<times> canonical_published_class_terminal) list option" where
  "canonical_terminals pc = each_terminal (canonical_terminal pc) (lm_sorted_keys (pc_states pc))"

fun owned_terminal :: "canonical_published_class_terminal \<Rightarrow> owned_published_class_terminal" where
  "owned_terminal (Terminal_Ready surface) = Owned_Ready surface"
| "owned_terminal Terminal_HeritagePoison = Owned_Poisoned Poison_Heritage"
| "owned_terminal Terminal_InitializerPoison = Owned_Poisoned Poison_Initializer"
| "owned_terminal Terminal_SurfacePoison = Owned_Poisoned Poison_Surface"

definition owned_terminals :: "published_classes \<Rightarrow> (class_id \<times> owned_published_class_terminal) list option" where
  "owned_terminals pc = map_option (map (\<lambda>(c, t). (c, owned_terminal t))) (canonical_terminals pc)"

fun strictly_ordered :: "(class_id \<times> 't) list \<Rightarrow> bool" where
  "strictly_ordered (a # b # rest) \<longleftrightarrow> fst a < fst b \<and> strictly_ordered (b # rest)"
| "strictly_ordered _ \<longleftrightarrow> True"

type_synonym publication_maps =
  "(class_id, class_construction_state) fmap \<times> (class_id, published_class_surface) fmap \<times>
   (class_id, published_class_poison) fmap"

fun add_terminals :: "(class_id \<times> owned_published_class_terminal) list \<Rightarrow> publication_maps \<Rightarrow> string + publication_maps" where
  "add_terminals [] maps = Inr maps"
| "add_terminals ((c, Owned_Ready surface) # rest) (states, surfaces, poison) =
     (if ps_class surface \<noteq> c then Inl ''owned class surface owns a different class id''
      else add_terminals rest (fmupd c Class_Published states, fmupd c surface surfaces, poison))"
| "add_terminals ((c, Owned_Poisoned cause) # rest) (states, surfaces, poison) =
     add_terminals rest (fmupd c Class_Poisoned states, surfaces, fmupd c cause poison)"

definition from_owned_terminals ::
    "nat \<Rightarrow> (class_id \<times> owned_published_class_terminal) list \<Rightarrow> string + published_classes" where
  "from_owned_terminals fresh terminals =
     (if \<not> strictly_ordered terminals then Inl ''owned class terminals are not strictly ordered''
      else and_then (add_terminals terminals (fmempty, fmempty, fmempty)) (\<lambda>(states, surfaces, poison).
        case from_publication fresh states surfaces poison of
          None \<Rightarrow> Inl ''owned class publication is not terminal''
        | Some pc \<Rightarrow> Inr pc))"

text \<open>\<open>insert_local(..).ok()?\<close> over the entries of another map.\<close>

fun lm_absorb :: "(class_id \<Rightarrow> 'v option) \<Rightarrow> class_id list \<Rightarrow> (class_id, 'v) layered_map \<Rightarrow> (class_id, 'v) layered_map option" where
  "lm_absorb entry [] m = Some m"
| "lm_absorb entry (c # cs) m = do {
     v \<leftarrow> entry c;
     (case lm_insert_local m c v of Inl _ \<Rightarrow> None | Inr (_, m') \<Rightarrow> lm_absorb entry cs m')
   }"

definition lm_overlaps :: "('k, 'v) layered_map \<Rightarrow> ('k, 'v) layered_map \<Rightarrow> bool" where
  "lm_overlaps m ext \<longleftrightarrow> \<not> fBall (fmdom (lm_iter ext)) (\<lambda>k. \<not> lm_contains_key m k)"

definition pc_extend :: "nat \<Rightarrow> published_classes \<Rightarrow> published_classes \<Rightarrow> published_classes option" where
  "pc_extend fresh pc ext =
     (if lm_overlaps (pc_states pc) (pc_states ext) \<or> lm_overlaps (pc_surfaces pc) (pc_surfaces ext) \<or>
         lm_overlaps (pc_poison pc) (pc_poison ext)
      then None
      else do {
        states \<leftarrow> lm_absorb (lm_get (pc_states ext)) (lm_sorted_keys (pc_states ext)) (pc_states pc);
        surfaces \<leftarrow> lm_absorb (lm_get (pc_surfaces ext)) (lm_sorted_keys (pc_surfaces ext)) (pc_surfaces pc);
        poison \<leftarrow> lm_absorb (lm_get (pc_poison ext)) (lm_sorted_keys (pc_poison ext)) (pc_poison pc);
        Some \<lparr>pc_states = states, pc_surfaces = surfaces, pc_poison = poison, pc_identity = fresh\<rparr>
      })"

definition pc_freeze_as_base :: "published_classes \<Rightarrow> string + published_classes" where
  "pc_freeze_as_base pc =
     and_then (lm_freeze_as_base (pc_states pc)) (\<lambda>states.
     and_then (lm_freeze_as_base (pc_surfaces pc)) (\<lambda>surfaces.
     and_then (lm_freeze_as_base (pc_poison pc)) (\<lambda>poison.
       Inr (pc\<lparr>pc_states := states, pc_surfaces := surfaces, pc_poison := poison\<rparr>))))"

definition pc_fork_delta :: "published_classes \<Rightarrow> string + published_classes" where
  "pc_fork_delta pc =
     and_then (lm_fork_delta (pc_states pc)) (\<lambda>states.
     and_then (lm_fork_delta (pc_surfaces pc)) (\<lambda>surfaces.
     and_then (lm_fork_delta (pc_poison pc)) (\<lambda>poison.
       Inr \<lparr>pc_states = states, pc_surfaces = surfaces, pc_poison = poison, pc_identity = pc_identity pc\<rparr>)))"

definition pc_fork_sparse_delta :: "nat \<Rightarrow> published_classes \<Rightarrow> string + published_classes" where
  "pc_fork_sparse_delta fresh pc =
     and_then (lm_fork_sparse_delta (pc_states pc)) (\<lambda>states.
     and_then (lm_fork_sparse_delta (pc_surfaces pc)) (\<lambda>surfaces.
     and_then (lm_fork_sparse_delta (pc_poison pc)) (\<lambda>poison.
       Inr \<lparr>pc_states = states, pc_surfaces = surfaces, pc_poison = poison, pc_identity = fresh\<rparr>)))"

definition replace_published_surface :: "nat \<Rightarrow> published_classes \<Rightarrow> published_class_surface \<Rightarrow> string + published_classes" where
  "replace_published_surface fresh pc surface =
     (let c = ps_class surface in
      if \<not> lm_prefix_overrides_enabled (pc_states pc) \<or> \<not> lm_prefix_overrides_enabled (pc_surfaces pc) \<or>
         (case pc_published_class pc c of Demand_Ready _ \<Rightarrow> False | Demand_Exhausted _ \<Rightarrow> True)
      then Inl ''class surface replacement requires a published sparse prefix''
      else and_then (lm_insert_local (pc_states pc) c Class_Published) (\<lambda>(_, states).
           and_then (lm_insert_local (pc_surfaces pc) c surface) (\<lambda>(_, surfaces).
             Inr (pc\<lparr>pc_states := states, pc_surfaces := surfaces, pc_identity := fresh\<rparr>))))"


section \<open>The registry as one map\<close>

definition registry :: "published_classes \<Rightarrow> class_id \<rightharpoonup> owned_published_class_terminal" where
  "registry pc c = (case lm_get (pc_states pc) c of
     Some Class_Published \<Rightarrow> map_option Owned_Ready (lm_get (pc_surfaces pc) c)
   | Some Class_Poisoned \<Rightarrow> map_option Owned_Poisoned (lm_get (pc_poison pc) c)
   | _ \<Rightarrow> None)"

definition consistent ::
    "(class_id \<rightharpoonup> class_construction_state) \<Rightarrow> (class_id \<rightharpoonup> published_class_surface) \<Rightarrow>
     (class_id \<rightharpoonup> published_class_poison) \<Rightarrow> class_id \<Rightarrow> bool" where
  "consistent states surfaces poison c \<longleftrightarrow>
     states c \<in> {None, Some Class_Published, Some Class_Poisoned} \<and>
     (surfaces c \<noteq> None \<longleftrightarrow> states c = Some Class_Published) \<and>
     (poison c \<noteq> None \<longleftrightarrow> states c = Some Class_Poisoned) \<and>
     (\<forall>s. surfaces c = Some s \<longrightarrow> ps_class s = c)"

definition unremoved :: "('k, 'v) layered_map \<Rightarrow> bool" where
  "unremoved m \<longleftrightarrow> lm_inv m \<and> lm_removed m = {||}"

definition terminal :: "published_classes \<Rightarrow> bool" where
  "terminal pc \<longleftrightarrow> unremoved (pc_states pc) \<and> unremoved (pc_surfaces pc) \<and> unremoved (pc_poison pc) \<and>
     (\<forall>c. consistent (lm_get (pc_states pc)) (lm_get (pc_surfaces pc)) (lm_get (pc_poison pc)) c)"

lemma lm_from_get: "lm_get (lm_from m) = fmlookup m" "unremoved (lm_from m)"
  by (auto simp: lm_from_def lm_get_def unremoved_def lm_inv_def lm_ok_def fun_eq_iff split: option.split)

lemma lm_sorted_keys_set:
  assumes "lm_inv m"
  shows "set (lm_sorted_keys m) = {c. lm_get m c \<noteq> None}" "sorted (lm_sorted_keys m)" "distinct (lm_sorted_keys m)"
  using lm_iter_lookup [OF assms] by (auto simp: lm_sorted_keys_def fmdom_lookup sorted_list_of_fset.rep_eq)

lemma lm_overlaps_get:
  assumes "lm_inv m" "lm_inv ext"
  shows "lm_overlaps m ext \<longleftrightarrow> (\<exists>c. lm_get m c \<noteq> None \<and> lm_get ext c \<noteq> None)"
  using assms by (auto simp: lm_overlaps_def lm_contains_key_get fmdom_lookup lm_iter_lookup)

lemma plain_insert:
  assumes "unremoved m" "lm_get m c = None"
  shows "\<exists>m'. lm_insert_local m c v = Inr (None, m') \<and> unremoved m' \<and> lm_get m' = (lm_get m)(c \<mapsto> v)"
proof -
  have "fmlookup (lm_base m) c = None"
    using assms by (auto simp: unremoved_def lm_get_def split: option.splits)
  then have "lm_insert_local m c v = Inr (fmlookup (lm_local m) c, m\<lparr>lm_local := fmupd c v (lm_local m)\<rparr>)"
    by (simp add: lm_insert_local_def fmdom_lookup)
  with lm_insert_get [OF _ this] assms show ?thesis by (auto simp: unremoved_def)
qed

lemma lm_absorb_spec:
  assumes "unremoved m" "distinct cs" "\<And>c. c \<in> set cs \<Longrightarrow> entry c \<noteq> None \<and> lm_get m c = None"
  shows "\<exists>m'. lm_absorb entry cs m = Some m' \<and> unremoved m' \<and> lm_get m' = (\<lambda>c. if c \<in> set cs then entry c else lm_get m c)"
  using assms
proof (induction cs arbitrary: m)
  case (Cons c cs)
  from Cons.prems(3) [of c] obtain v where v: "entry c = Some v" "lm_get m c = None" by auto
  from plain_insert [OF Cons.prems(1) v(2)] obtain m1 where
    m1: "lm_insert_local m c v = Inr (None, m1)" "unremoved m1" "lm_get m1 = (lm_get m)(c \<mapsto> v)" by blast
  have "entry x \<noteq> None \<and> lm_get m1 x = None" if "x \<in> set cs" for x
    using that Cons.prems(2,3) m1(3) by auto
  from Cons.IH [OF m1(2) _ this] Cons.prems(2) obtain m' where
    "lm_absorb entry cs m1 = Some m'" "unremoved m'" "lm_get m' = (\<lambda>x. if x \<in> set cs then entry x else lm_get m1 x)" by auto
  with v m1 show ?case by (auto simp: fun_eq_iff)
qed simp

lemma absorb_map:
  assumes "unremoved m" "unremoved ext" "\<not> lm_overlaps m ext"
  shows "\<exists>m'. lm_absorb (lm_get ext) (lm_sorted_keys ext) m = Some m' \<and> unremoved m' \<and> lm_get m' = lm_get m ++ lm_get ext"
proof -
  have inv: "lm_inv m" "lm_inv ext" using assms by (simp_all add: unremoved_def)
  from lm_absorb_spec [OF assms(1) lm_sorted_keys_set(3) [OF inv(2)], of "lm_get ext"] obtain m' where
    "lm_absorb (lm_get ext) (lm_sorted_keys ext) m = Some m'" "unremoved m'"
    "lm_get m' = (\<lambda>c. if c \<in> set (lm_sorted_keys ext) then lm_get ext c else lm_get m c)"
    using assms(3) lm_sorted_keys_set(1) [OF inv(2)] lm_overlaps_get [OF inv] by blast
  moreover have "(\<lambda>c. if c \<in> set (lm_sorted_keys ext) then lm_get ext c else lm_get m c) = lm_get m ++ lm_get ext"
    using lm_sorted_keys_set(1) [OF inv(2)] by (auto simp: fun_eq_iff map_add_def split: option.splits)
  ultimately show ?thesis by simp
qed

lemma registry_dom:
  assumes "terminal pc"
  shows "registry pc c \<noteq> None \<longleftrightarrow> lm_get (pc_states pc) c \<noteq> None"
proof -
  have "consistent (lm_get (pc_states pc)) (lm_get (pc_surfaces pc)) (lm_get (pc_poison pc)) c"
    using assms by (simp add: terminal_def)
  then show ?thesis by (auto simp: consistent_def registry_def split: option.splits class_construction_state.splits)
qed

lemma terminal_parts:
  assumes "terminal pc"
  shows "lm_get (pc_states pc) c = (case registry pc c of None \<Rightarrow> None | Some (Owned_Ready _) \<Rightarrow> Some Class_Published
      | Some (Owned_Poisoned _) \<Rightarrow> Some Class_Poisoned)"
    and "lm_get (pc_surfaces pc) c = (case registry pc c of Some (Owned_Ready s) \<Rightarrow> Some s | _ \<Rightarrow> None)"
    and "lm_get (pc_poison pc) c = (case registry pc c of Some (Owned_Poisoned p) \<Rightarrow> Some p | _ \<Rightarrow> None)"
    and "registry pc c = Some (Owned_Ready s) \<Longrightarrow> ps_class s = c"
proof -
  have "consistent (lm_get (pc_states pc)) (lm_get (pc_surfaces pc)) (lm_get (pc_poison pc)) c"
    using assms by (simp add: terminal_def)
  then show "lm_get (pc_states pc) c = (case registry pc c of None \<Rightarrow> None | Some (Owned_Ready _) \<Rightarrow> Some Class_Published
      | Some (Owned_Poisoned _) \<Rightarrow> Some Class_Poisoned)"
    and "lm_get (pc_surfaces pc) c = (case registry pc c of Some (Owned_Ready s) \<Rightarrow> Some s | _ \<Rightarrow> None)"
    and "lm_get (pc_poison pc) c = (case registry pc c of Some (Owned_Poisoned p) \<Rightarrow> Some p | _ \<Rightarrow> None)"
    and "registry pc c = Some (Owned_Ready s) \<Longrightarrow> ps_class s = c"
    by (auto simp: consistent_def registry_def split: option.splits class_construction_state.splits)
qed

lemma extend_spec:
  assumes "terminal a" "terminal b"
  shows "if dom (registry a) \<inter> dom (registry b) \<noteq> {} then pc_extend fresh a b = None
    else \<exists>pc. pc_extend fresh a b = Some pc \<and> terminal pc \<and> registry pc = registry a ++ registry b \<and> pc_identity pc = fresh"
proof -
  have pa: "unremoved (pc_states a)" "unremoved (pc_surfaces a)" "unremoved (pc_poison a)"
    and pb: "unremoved (pc_states b)" "unremoved (pc_surfaces b)" "unremoved (pc_poison b)"
    using assms by (simp_all add: terminal_def)
  note inv = pa [unfolded unremoved_def, THEN conjunct1] pb [unfolded unremoved_def, THEN conjunct1]
  note ga = terminal_parts [OF assms(1)] and gb = terminal_parts [OF assms(2)]
  have ov: "lm_overlaps (pc_states a) (pc_states b) \<longleftrightarrow> dom (registry a) \<inter> dom (registry b) \<noteq> {}"
    using lm_overlaps_get [OF inv(1,4)] registry_dom [OF assms(1)] registry_dom [OF assms(2)] by (auto simp: dom_def)
  show ?thesis
  proof (cases "dom (registry a) \<inter> dom (registry b) \<noteq> {}")
    case True
    with ov show ?thesis by (simp add: pc_extend_def)
  next
    case disj: False
    have dj: "registry a c = None \<or> registry b c = None" for c using disj by (auto simp: dom_def)
    have "\<not> lm_overlaps (pc_surfaces a) (pc_surfaces b)" "\<not> lm_overlaps (pc_poison a) (pc_poison b)"
      using lm_overlaps_get [OF inv(2,5)] lm_overlaps_get [OF inv(3,6)] ga(2,3) gb(2,3) dj by (metis option.simps(4))+
    with ov disj absorb_map [OF pa(1) pb(1)] absorb_map [OF pa(2) pb(2)] absorb_map [OF pa(3) pb(3)]
    obtain st su po where ext: "pc_extend fresh a b = Some \<lparr>pc_states = st, pc_surfaces = su, pc_poison = po, pc_identity = fresh\<rparr>"
      and pl: "unremoved st" "unremoved su" "unremoved po"
      and g: "lm_get st = lm_get (pc_states a) ++ lm_get (pc_states b)"
        "lm_get su = lm_get (pc_surfaces a) ++ lm_get (pc_surfaces b)" "lm_get po = lm_get (pc_poison a) ++ lm_get (pc_poison b)"
      by (auto simp: pc_extend_def)
    have "consistent (lm_get st) (lm_get su) (lm_get po) c" for c
      using dj [of c] ga [of c] gb [of c]
      by (auto simp: consistent_def g map_add_def split: option.splits owned_published_class_terminal.splits)
    with pl have "terminal \<lparr>pc_states = st, pc_surfaces = su, pc_poison = po, pc_identity = fresh\<rparr>" by (simp add: terminal_def)
    moreover have "registry \<lparr>pc_states = st, pc_surfaces = su, pc_poison = po, pc_identity = fresh\<rparr> c = (registry a ++ registry b) c" for c
      using dj [of c] ga(1-3) [of c] gb(1-3) [of c]
      by (auto simp: registry_def [of "\<lparr>pc_states = _, pc_surfaces = _, pc_poison = _, pc_identity = _\<rparr>"] g map_add_def
          split: option.splits owned_published_class_terminal.splits)
    ultimately show ?thesis using ext disj by auto
  qed
qed


section \<open>Operations keep the registry terminal\<close>

lemma from_publication_terminal:
  assumes "from_publication fresh states surfaces poison = Some pc"
  shows "terminal pc" "lm_get (pc_states pc) = fmlookup states" "lm_get (pc_surfaces pc) = fmlookup surfaces"
    "lm_get (pc_poison pc) = fmlookup poison" "pc_identity pc = fresh"
proof -
  from assms have pc: "pc = \<lparr>pc_states = lm_from states, pc_surfaces = lm_from surfaces, pc_poison = lm_from poison, pc_identity = fresh\<rparr>"
    and ok: "fmpred (\<lambda>_ state. state = Class_Published \<or> state = Class_Poisoned) states"
      "fmpred (\<lambda>c state. state \<noteq> Class_Published \<or> c |\<in>| fmdom surfaces) states"
      "fmpred (\<lambda>c state. state \<noteq> Class_Poisoned \<or> c |\<in>| fmdom poison) states"
      "fmpred (\<lambda>c surface. fmlookup states c = Some Class_Published \<and> ps_class surface = c) surfaces"
      "fmpred (\<lambda>c _. fmlookup states c = Some Class_Poisoned) poison"
    by (auto simp: from_publication_def Let_def split: if_splits)
  have "consistent (fmlookup states) (fmlookup surfaces) (fmlookup poison) c" for c
    using fmpredD [OF ok(1), of c] fmpredD [OF ok(2), of c] fmpredD [OF ok(3), of c] fmpredD [OF ok(4), of c] fmpredD [OF ok(5), of c]
    by (cases "fmlookup states c"; cases "fmlookup surfaces c"; cases "fmlookup poison c") (auto simp: consistent_def fmdom_lookup)
  then show "terminal pc" by (simp add: pc terminal_def lm_from_get)
  show "lm_get (pc_states pc) = fmlookup states" "lm_get (pc_surfaces pc) = fmlookup surfaces"
    "lm_get (pc_poison pc) = fmlookup poison" "pc_identity pc = fresh" by (simp_all add: pc lm_from_get)
qed

lemma fmvalues_count_dom:
  assumes "\<And>c. fmlookup m c \<noteq> None \<longleftrightarrow> (\<exists>v. fmlookup states c = Some v \<and> p v)"
  shows "fmsize m = fmvalues_count p states"
proof -
  have "fmdom m = fmdom (fmfilter (\<lambda>k. p (the (fmlookup states k))) states)"
    using assms by (auto simp: fset_eq_iff fmdom_lookup)
  then show ?thesis by (simp add: fmvalues_count_def fmsize_def)
qed

lemma from_publication_accepts:
  assumes "\<And>c. consistent (fmlookup states) (fmlookup surfaces) (fmlookup poison) c"
  shows "\<exists>pc. from_publication fresh states surfaces poison = Some pc"
proof -
  have st: "fmlookup states c = Some v \<Longrightarrow> v = Class_Published \<or> v = Class_Poisoned"
    and su: "fmlookup surfaces c \<noteq> None \<longleftrightarrow> fmlookup states c = Some Class_Published"
    and po: "fmlookup poison c \<noteq> None \<longleftrightarrow> fmlookup states c = Some Class_Poisoned"
    and own: "fmlookup surfaces c = Some s \<Longrightarrow> ps_class s = c" for c v s
    using assms [of c] by (auto simp: consistent_def)
  have "fmsize surfaces = fmvalues_count (\<lambda>state. state = Class_Published) states"
    "fmsize poison = fmvalues_count (\<lambda>state. state = Class_Poisoned) states"
    by (rule fmvalues_count_dom, simp only: su, blast, rule fmvalues_count_dom, simp only: po, blast)
  moreover have "fmpred (\<lambda>_ state. state = Class_Published \<or> state = Class_Poisoned) states"
    by (rule fmpredI) (rule st)
  moreover have "fmpred (\<lambda>c state. state \<noteq> Class_Published \<or> c |\<in>| fmdom surfaces) states"
    "fmpred (\<lambda>c state. state \<noteq> Class_Poisoned \<or> c |\<in>| fmdom poison) states"
    by (auto intro!: fmpredI simp: fmdom_lookup su po simp del: not_None_eq)
  moreover have "fmpred (\<lambda>c surface. fmlookup states c = Some Class_Published \<and> ps_class surface = c) surfaces"
    by (rule fmpredI) (use su own in \<open>metis option.distinct(1)\<close>)
  moreover have "fmpred (\<lambda>c _. fmlookup states c = Some Class_Poisoned) poison"
    by (rule fmpredI) (use po in \<open>metis option.distinct(1)\<close>)
  ultimately show ?thesis by (simp add: from_publication_def)
qed

lemma same_lookups_terminal:
  assumes "terminal pc" "unremoved st" "unremoved su" "unremoved po"
    "lm_get st = lm_get (pc_states pc)" "lm_get su = lm_get (pc_surfaces pc)" "lm_get po = lm_get (pc_poison pc)"
  shows "terminal \<lparr>pc_states = st, pc_surfaces = su, pc_poison = po, pc_identity = i\<rparr>"
    and "registry \<lparr>pc_states = st, pc_surfaces = su, pc_poison = po, pc_identity = i\<rparr> = registry pc"
proof -
  show "terminal \<lparr>pc_states = st, pc_surfaces = su, pc_poison = po, pc_identity = i\<rparr>" using assms by (simp add: terminal_def)
  show "registry \<lparr>pc_states = st, pc_surfaces = su, pc_poison = po, pc_identity = i\<rparr> = registry pc"
    by (rule ext) (simp add: registry_def assms split: option.split class_construction_state.split)
qed

lemma unremoved_freeze: "unremoved m \<Longrightarrow> lm_freeze_as_base m = Inr w \<Longrightarrow> unremoved w \<and> lm_get w = lm_get m"
  using lm_freeze_get [of m w] by (auto simp: unremoved_def lm_freeze_as_base_def split: if_splits)

lemma unremoved_fork: "lm_fork_delta m = Inr w \<Longrightarrow> unremoved w \<and> lm_get w = lm_get m"
  using lm_fork_get [of m w] by (auto simp: unremoved_def lm_fork_delta_def split: if_splits)

lemma unremoved_sparse: "lm_fork_sparse_delta m = Inr w \<Longrightarrow> unremoved w \<and> lm_get w = lm_get m"
proof -
  assume "lm_fork_sparse_delta m = Inr w"
  then obtain z where z: "lm_fork_delta m = Inr z" "w = z\<lparr>lm_prefix_overrides_enabled := True\<rparr>"
    by (auto simp: lm_fork_sparse_delta_def and_then_eq_Inr)
  have "lm_get w = lm_get z" by (rule ext) (simp add: z(2) lm_get_def split: option.split)
  moreover have "unremoved z \<Longrightarrow> unremoved w" by (auto simp: z(2) unremoved_def lm_inv_def lm_ok_def)
  ultimately show ?thesis using unremoved_fork [OF z(1)] by simp
qed

lemma freeze_terminal:
  assumes "terminal pc" "pc_freeze_as_base pc = Inr pc'"
  shows "terminal pc'" "registry pc' = registry pc"
proof -
  from assms(2) obtain st su po where f: "lm_freeze_as_base (pc_states pc) = Inr st" "lm_freeze_as_base (pc_surfaces pc) = Inr su"
      "lm_freeze_as_base (pc_poison pc) = Inr po" and pc': "pc' = \<lparr>pc_states = st, pc_surfaces = su, pc_poison = po, pc_identity = pc_identity pc\<rparr>"
    by (auto simp: pc_freeze_as_base_def and_then_eq_Inr)
  have "unremoved (pc_states pc)" "unremoved (pc_surfaces pc)" "unremoved (pc_poison pc)" using assms(1) by (simp_all add: terminal_def)
  with unremoved_freeze f have "unremoved st" "unremoved su" "unremoved po"
    "lm_get st = lm_get (pc_states pc)" "lm_get su = lm_get (pc_surfaces pc)" "lm_get po = lm_get (pc_poison pc)" by blast+
  with same_lookups_terminal [OF assms(1)] show "terminal pc'" "registry pc' = registry pc" unfolding pc' by blast+
qed

lemma fork_terminal:
  assumes "terminal pc"
  shows "pc_fork_delta pc = Inr pc' \<Longrightarrow> terminal pc' \<and> registry pc' = registry pc"
    and "pc_fork_sparse_delta fresh pc = Inr pc' \<Longrightarrow> terminal pc' \<and> registry pc' = registry pc"
  using same_lookups_terminal [OF assms]
  by (auto simp: pc_fork_delta_def pc_fork_sparse_delta_def and_then_eq_Inr dest!: unremoved_fork unremoved_sparse)

lemma published_class_spec:
  assumes "terminal pc"
  shows "pc_published_class pc c = (case registry pc c of
     None \<Rightarrow> Demand_Exhausted (Exhaust_ClassNotPublished c Class_Pending)
   | Some (Owned_Ready s) \<Rightarrow> Demand_Ready s
   | Some (Owned_Poisoned Poison_Heritage) \<Rightarrow> Demand_Exhausted (Exhaust_ClassHeritagePoison c)
   | Some (Owned_Poisoned Poison_Initializer) \<Rightarrow> Demand_Exhausted (Exhaust_ClassInitializerPoison c)
   | Some (Owned_Poisoned Poison_Surface) \<Rightarrow> Demand_Exhausted (Exhaust_ClassSurfacePoison c))"
  using terminal_parts(1-3) [OF assms, of c]
  by (simp add: pc_published_class_def pc_require_def split: option.split owned_published_class_terminal.split published_class_poison.split)

lemma replace_terminal:
  assumes t: "terminal pc" and r: "replace_published_surface fresh pc surface = Inr pc'"
  shows "terminal pc'" "registry pc' = (registry pc)(ps_class surface \<mapsto> Owned_Ready surface)"
proof -
  let ?c = "ps_class surface"
  from r obtain p1 st p2 su where
    en: "lm_prefix_overrides_enabled (pc_states pc)" "lm_prefix_overrides_enabled (pc_surfaces pc)"
    and rd: "\<exists>s. pc_published_class pc ?c = Demand_Ready s"
    and ins: "lm_insert_local (pc_states pc) ?c Class_Published = Inr (p1, st)" "lm_insert_local (pc_surfaces pc) ?c surface = Inr (p2, su)"
    and pc': "pc' = pc\<lparr>pc_states := st, pc_surfaces := su, pc_identity := fresh\<rparr>"
    by (auto simp: replace_published_surface_def Let_def and_then_eq_Inr split: if_splits demand_outcome.splits)
  have un: "unremoved (pc_states pc)" "unremoved (pc_surfaces pc)" using t by (simp_all add: terminal_def)
  have st: "unremoved st" "lm_get st = (lm_get (pc_states pc))(?c \<mapsto> Class_Published)"
    and su: "unremoved su" "lm_get su = (lm_get (pc_surfaces pc))(?c \<mapsto> surface)"
    using lm_insert_get [OF _ ins(1)] lm_insert_get [OF _ ins(2)] un ins
    by (auto simp: unremoved_def lm_insert_local_def Let_def split: if_splits)
  from rd obtain s where "registry pc ?c = Some (Owned_Ready s)"
    by (auto simp: published_class_spec [OF t] split: option.splits owned_published_class_terminal.splits published_class_poison.splits)
  then have old: "lm_get (pc_states pc) ?c = Some Class_Published" "lm_get (pc_poison pc) ?c = None"
    by (simp_all add: terminal_parts [OF t])
  show "terminal pc'"
    using t st su old by (auto simp: pc' terminal_def consistent_def)
  show "registry pc' = (registry pc)(?c \<mapsto> Owned_Ready surface)"
    using st(2) su(2) by (intro ext) (simp add: pc' registry_def split: option.split class_construction_state.split)
qed

text \<open>Every registry the operations can build.\<close>

inductive publication :: "published_classes \<Rightarrow> bool" where
  pub_empty: "publication (pc_empty fresh)"
| pub_new: "from_publication fresh states surfaces poison = Some pc \<Longrightarrow> publication pc"
| pub_extend: "publication a \<Longrightarrow> publication b \<Longrightarrow> pc_extend fresh a b = Some pc \<Longrightarrow> publication pc"
| pub_freeze: "publication a \<Longrightarrow> pc_freeze_as_base a = Inr pc \<Longrightarrow> publication pc"
| pub_fork: "publication a \<Longrightarrow> pc_fork_delta a = Inr pc \<Longrightarrow> publication pc"
| pub_sparse: "publication a \<Longrightarrow> pc_fork_sparse_delta fresh a = Inr pc \<Longrightarrow> publication pc"
| pub_replace: "publication a \<Longrightarrow> replace_published_surface fresh a surface = Inr pc \<Longrightarrow> publication pc"

lemma publication_terminal: "publication pc \<Longrightarrow> terminal pc"
proof (induction rule: publication.induct)
  case (pub_empty fresh)
  show ?case by (simp add: pc_empty_def terminal_def consistent_def unremoved_def, simp add: lm_default_def)
next
  case (pub_extend a b fresh pc)
  with extend_spec [of a b fresh] show ?case by (auto split: if_splits)
qed (use from_publication_terminal(1) freeze_terminal(1) fork_terminal replace_terminal(1) in blast)+

section \<open>Terminals\<close>

lemma each_terminal_total:
  assumes "\<And>c. c \<in> set cs \<Longrightarrow> f c = Some (g c)"
  shows "each_terminal f cs = Some (map (\<lambda>c. (c, g c)) cs)"
  using assms by (induction cs) auto

lemma canonical_terminal_registry:
  assumes "terminal pc"
  shows "map_option owned_terminal (canonical_terminal pc c) = registry pc c"
  using terminal_parts(1-3) [OF assms, of c]
  by (auto simp: canonical_terminal_def split: option.splits owned_published_class_terminal.splits published_class_poison.splits)

lemma owned_terminals_registry:
  assumes t: "terminal pc"
  shows "owned_terminals pc = Some (map (\<lambda>c. (c, the (registry pc c))) (lm_sorted_keys (pc_states pc)))"
proof -
  have inv: "lm_inv (pc_states pc)" using t by (simp add: terminal_def unremoved_def)
  have reg: "canonical_terminal pc c = Some (the (canonical_terminal pc c)) \<and>
      owned_terminal (the (canonical_terminal pc c)) = the (registry pc c)" if "c \<in> set (lm_sorted_keys (pc_states pc))" for c
  proof -
    have "registry pc c \<noteq> None" using that lm_sorted_keys_set(1) [OF inv] registry_dom [OF t] by simp
    then show ?thesis using canonical_terminal_registry [OF t, of c] by (cases "canonical_terminal pc c") auto
  qed
  then show ?thesis
    using each_terminal_total [of "lm_sorted_keys (pc_states pc)" "canonical_terminal pc" "\<lambda>c. the (canonical_terminal pc c)"]
    by (simp add: owned_terminals_def canonical_terminals_def)
qed

lemma strictly_ordered_map: "sorted cs \<Longrightarrow> distinct cs \<Longrightarrow> strictly_ordered (map (\<lambda>c. (c, f c)) cs)"
  by (induction cs rule: induct_list012) auto

definition maps_of :: "(class_id \<rightharpoonup> owned_published_class_terminal) \<Rightarrow> publication_maps \<Rightarrow> bool" where
  "maps_of reg maps \<longleftrightarrow> (case maps of (states, surfaces, poison) \<Rightarrow>
     (\<forall>c. fmlookup states c = (case reg c of None \<Rightarrow> None | Some (Owned_Ready _) \<Rightarrow> Some Class_Published
        | Some (Owned_Poisoned _) \<Rightarrow> Some Class_Poisoned) \<and>
      fmlookup surfaces c = (case reg c of Some (Owned_Ready s) \<Rightarrow> Some s | _ \<Rightarrow> None) \<and>
      fmlookup poison c = (case reg c of Some (Owned_Poisoned p) \<Rightarrow> Some p | _ \<Rightarrow> None)))"

definition owns_itself :: "class_id \<Rightarrow> owned_published_class_terminal \<Rightarrow> bool" where
  "owns_itself c t \<longleftrightarrow> (case t of Owned_Ready s \<Rightarrow> ps_class s = c | Owned_Poisoned _ \<Rightarrow> True)"

lemma map_add_cons: "c \<notin> fst ` set rest \<Longrightarrow> reg(c \<mapsto> t) ++ map_of rest = reg ++ map_of ((c, t) # rest)"
  by (simp add: map_add_upd_left dom_map_of_conv_image_fst)

lemma add_terminals_spec:
  assumes "maps_of reg maps" "\<And>c t. (c, t) \<in> set ts \<Longrightarrow> owns_itself c t \<and> c \<notin> dom reg" "distinct (map fst ts)"
  shows "\<exists>maps'. add_terminals ts maps = Inr maps' \<and> maps_of (reg ++ map_of ts) maps'"
  using assms
proof (induction ts maps arbitrary: reg rule: add_terminals.induct)
  case (1 maps)
  then show ?case by simp
next
  case (2 c surface rest states surfaces poison)
  let ?reg = "reg(c \<mapsto> Owned_Ready surface)"
  have cls: "\<not> ps_class surface \<noteq> c" "reg c = None" using "2.prems"(2) [of c "Owned_Ready surface"] by (auto simp: owns_itself_def)
  have m: "maps_of ?reg (fmupd c Class_Published states, fmupd c surface surfaces, poison)"
    using "2.prems"(1) cls(2) by (auto simp: maps_of_def)
  have rest: "owns_itself d t \<and> d \<notin> dom ?reg" if "(d, t) \<in> set rest" for d t
    using "2.prems"(2) [of d t] "2.prems"(3) that by force
  have d: "distinct (map fst rest)" "c \<notin> fst ` set rest" using "2.prems"(3) by simp_all
  from "2.IH" [OF cls(1) m rest d(1)] cls(1) show ?case
    unfolding map_add_cons [OF d(2)] add_terminals.simps by (simp only: if_False)
next
  case (3 c cause rest states surfaces poison)
  let ?reg = "reg(c \<mapsto> Owned_Poisoned cause)"
  have cls: "reg c = None" using "3.prems"(2) [of c "Owned_Poisoned cause"] by auto
  have m: "maps_of ?reg (fmupd c Class_Poisoned states, surfaces, fmupd c cause poison)"
    using "3.prems"(1) cls by (auto simp: maps_of_def)
  have rest: "owns_itself d t \<and> d \<notin> dom ?reg" if "(d, t) \<in> set rest" for d t
    using "3.prems"(2) [of d t] "3.prems"(3) that by force
  have d: "distinct (map fst rest)" "c \<notin> fst ` set rest" using "3.prems"(3) by simp_all
  from "3.IH" [OF m rest d(1)] show ?case unfolding map_add_cons [OF d(2)] add_terminals.simps .
qed

lemma terminals_restore:
  assumes ts: "strictly_ordered ts" "distinct (map fst ts)" "\<And>c t. (c, t) \<in> set ts \<Longrightarrow> owns_itself c t"
  shows "\<exists>pc. from_owned_terminals fresh ts = Inr pc \<and> terminal pc \<and> registry pc = map_of ts"
proof -
  have "maps_of Map.empty (fmempty, fmempty, fmempty)" by (simp add: maps_of_def)
  from add_terminals_spec [OF this, of ts] ts obtain states surfaces poison where
    a: "add_terminals ts (fmempty, fmempty, fmempty) = Inr (states, surfaces, poison)"
    and m: "maps_of (map_of ts) (states, surfaces, poison)" by auto
  have own: "ps_class s = c" if "map_of ts c = Some (Owned_Ready s)" for c s
    using ts(3) [OF map_of_SomeD [OF that]] by (simp add: owns_itself_def)
  have "consistent (fmlookup states) (fmlookup surfaces) (fmlookup poison) c" for c
    using m own [of c] by (auto simp: maps_of_def consistent_def split: option.splits owned_published_class_terminal.splits)
  from from_publication_accepts [OF this] obtain pc where pc: "from_publication fresh states surfaces poison = Some pc" by blast
  note l = from_publication_terminal [OF pc]
  have "registry pc c = map_of ts c" for c
    using m l(2-4) by (auto simp: maps_of_def registry_def split: option.splits owned_published_class_terminal.splits)
  then have "registry pc = map_of ts" by blast
  with a ts(1) pc l(1) show ?thesis by (auto simp: from_owned_terminals_def)
qed

lemma owned_terminals_laws:
  assumes "terminal pc" "owned_terminals pc = Some ts"
  shows "strictly_ordered ts" "distinct (map fst ts)" "map_of ts = registry pc" "\<And>c t. (c, t) \<in> set ts \<Longrightarrow> owns_itself c t"
proof -
  let ?cs = "lm_sorted_keys (pc_states pc)"
  have inv: "lm_inv (pc_states pc)" using assms(1) by (simp add: terminal_def unremoved_def)
  have ts: "ts = map (\<lambda>c. (c, the (registry pc c))) ?cs" using assms owned_terminals_registry by simp
  show "strictly_ordered ts" using strictly_ordered_map lm_sorted_keys_set(2,3) [OF inv] by (simp add: ts)
  have "map fst ts = ?cs" by (simp add: ts comp_def)
  then show "distinct (map fst ts)" using lm_sorted_keys_set(3) [OF inv] by simp
  have dom: "c \<in> set ?cs \<longleftrightarrow> registry pc c \<noteq> None" for c
    using lm_sorted_keys_set(1) [OF inv] registry_dom [OF assms(1)] by simp
  show "map_of ts = registry pc"
    unfolding ts map_of_map_restrict using dom by (intro ext) (auto simp: restrict_map_def)
  show "owns_itself c t" if "(c, t) \<in> set ts" for c t
    using that dom terminal_parts(4) [OF assms(1), of c] by (auto simp: ts owns_itself_def split: owned_published_class_terminal.split)
qed


section \<open>Properties\<close>

text \<open>
  C26: the registry of published classes. Whatever sequence of publications, extensions, freezes,
  forks and surface replacements built it, every class in it is final, and \<open>published_class\<close> answers
  by one map from classes to terminals: the surface of a published class (which owns that very
  class), the poison of a poisoned one, and "not published, pending" for any other class.
\<close>

theorem published_class_answers:
  assumes "publication pc"
  shows "pc_published_class pc c = (case registry pc c of
       None \<Rightarrow> Demand_Exhausted (Exhaust_ClassNotPublished c Class_Pending)
     | Some (Owned_Ready s) \<Rightarrow> Demand_Ready s
     | Some (Owned_Poisoned Poison_Heritage) \<Rightarrow> Demand_Exhausted (Exhaust_ClassHeritagePoison c)
     | Some (Owned_Poisoned Poison_Initializer) \<Rightarrow> Demand_Exhausted (Exhaust_ClassInitializerPoison c)
     | Some (Owned_Poisoned Poison_Surface) \<Rightarrow> Demand_Exhausted (Exhaust_ClassSurfacePoison c)) \<and>
    (\<forall>s. pc_published_class pc c = Demand_Ready s \<longrightarrow> ps_class s = c) \<and>
    lm_get (pc_states pc) c \<in> {None, Some Class_Published, Some Class_Poisoned}"
proof -
  have t: "terminal pc" by (rule publication_terminal [OF assms])
  have "ps_class s = c" if "pc_published_class pc c = Demand_Ready s" for s
    using that terminal_parts(4) [OF t, of c s]
    by (auto simp: published_class_spec [OF t] split: option.splits owned_published_class_terminal.splits published_class_poison.splits)
  moreover have "consistent (lm_get (pc_states pc)) (lm_get (pc_surfaces pc)) (lm_get (pc_poison pc)) c" using t by (simp add: terminal_def)
  ultimately show ?thesis using published_class_spec [OF t, of c] by (simp add: consistent_def)
qed

definition sample_publication :: published_classes where
  "sample_publication = \<lparr>pc_states = lm_from (fmap_of_list [(2, Class_Published), (7, Class_Poisoned)]),
     pc_surfaces = lm_from (fmap_of_list [(2, \<lparr>ps_class = 2, ps_type_params = [11], ps_instance_template = 13,
       ps_static_template = 17, ps_constructor_template = Some 19\<rparr>)]),
     pc_poison = lm_from (fmap_of_list [(7, Poison_Initializer)]), pc_identity = 0\<rparr>"

lemma sample_publication_reached: "publication sample_publication"
proof -
  let ?s = "fmap_of_list [(2 :: class_id, Class_Published), (7, Class_Poisoned)]"
    and ?u = "fmap_of_list [(2 :: class_id, \<lparr>ps_class = 2, ps_type_params = [11], ps_instance_template = 13,
       ps_static_template = 17, ps_constructor_template = Some 19\<rparr>)]"
    and ?p = "fmap_of_list [(7 :: class_id, Poison_Initializer)]"
  have "consistent (fmlookup ?s) (fmlookup ?u) (fmlookup ?p) c" for c
    by (simp add: consistent_def fmlookup_of_list)
  from from_publication_accepts [OF this, of 0] obtain pc where pc: "from_publication 0 ?s ?u ?p = Some pc" by blast
  then have "pc = sample_publication" by (simp add: from_publication_def sample_publication_def Let_def split: if_splits)
  with pub_new [OF pc] show ?thesis by simp
qed

theorem published_class_answers_witness:
  "pc_published_class sample_publication 7 = Demand_Exhausted (Exhaust_ClassInitializerPoison 7) \<and>
   pc_published_class sample_publication 3 = Demand_Exhausted (Exhaust_ClassNotPublished 3 Class_Pending)"
  using published_class_answers [OF sample_publication_reached, of 7] published_class_answers [OF sample_publication_reached, of 3]
  by (simp add: registry_def sample_publication_def lm_from_get fmlookup_of_list)

text \<open>
  C27: a registry survives its decomposition. The owned terminals of a registry list every class
  once, in strictly increasing order of ids, and rebuilding a registry from them succeeds and gives
  a registry with the same terminals, which decomposes into the same list.
\<close>

theorem owned_terminals_roundtrip:
  assumes "publication pc"
  shows "\<exists>ts pc'. owned_terminals pc = Some ts \<and> strictly_ordered ts \<and> map_of ts = registry pc \<and>
    from_owned_terminals fresh ts = Inr pc' \<and> registry pc' = registry pc \<and> owned_terminals pc' = Some ts"
proof -
  have t: "terminal pc" by (rule publication_terminal [OF assms])
  obtain ts where ts: "owned_terminals pc = Some ts" using owned_terminals_registry [OF t] by blast
  note laws = owned_terminals_laws [OF t ts]
  from terminals_restore [OF laws(1,2,4)] obtain pc' where
    pc': "from_owned_terminals fresh ts = Inr pc'" "terminal pc'" "registry pc' = map_of ts" by blast
  have same: "registry pc' = registry pc" using pc'(3) laws(3) by simp
  have inv: "lm_inv (pc_states pc)" "lm_inv (pc_states pc')" using t pc'(2) by (simp_all add: terminal_def unremoved_def)
  have "set (lm_sorted_keys (pc_states pc')) = set (lm_sorted_keys (pc_states pc))"
    unfolding lm_sorted_keys_set(1) [OF inv(1)] lm_sorted_keys_set(1) [OF inv(2)]
    using registry_dom [OF t] registry_dom [OF pc'(2)] by (simp only: same)
  then have "lm_sorted_keys (pc_states pc') = lm_sorted_keys (pc_states pc)"
    using lm_sorted_keys_set(2,3) [OF inv(1)] lm_sorted_keys_set(2,3) [OF inv(2)] by (intro sorted_distinct_set_unique)
  then have "owned_terminals pc' = Some ts" using ts owned_terminals_registry [OF t] owned_terminals_registry [OF pc'(2)] by (simp add: same)
  with ts laws(1,3) pc'(1) same show ?thesis by blast
qed

theorem owned_terminals_roundtrip_witness:
  "\<exists>ts pc'. owned_terminals sample_publication = Some ts \<and> from_owned_terminals 1 ts = Inr pc' \<and>
     registry pc' 7 = Some (Owned_Poisoned Poison_Initializer)"
proof -
  have "registry sample_publication 7 = Some (Owned_Poisoned Poison_Initializer)"
    by (simp add: registry_def sample_publication_def lm_from_get fmlookup_of_list)
  with owned_terminals_roundtrip [OF sample_publication_reached, of 1] show ?thesis by auto
qed

text \<open>
  Extending a registry. Two registries that share no class combine, with the sealed layers of
  the first left in place: the result answers by the union of the two maps and has a new identity.
  If they share a class nothing is combined.
\<close>

theorem extend_unites:
  assumes "publication a" "publication b"
  shows "if dom (registry a) \<inter> dom (registry b) \<noteq> {} then pc_extend fresh a b = None
    else \<exists>pc. pc_extend fresh a b = Some pc \<and> registry pc = registry a ++ registry b \<and> pc_identity pc = fresh"
  using extend_spec [OF publication_terminal publication_terminal, OF assms, of fresh] by (auto split: if_splits)

theorem extend_unites_witness:
  "pc_extend 5 sample_publication sample_publication = None \<and>
   (\<exists>pc. pc_extend 5 sample_publication (pc_empty 4) = Some pc \<and> registry pc 3 = None)"
proof -
  have two: "registry sample_publication 7 \<noteq> None" "registry sample_publication 3 = None" "registry (pc_empty 4) c = None" for c
    by (simp_all add: registry_def sample_publication_def pc_empty_def lm_from_get fmlookup_of_list)
  have "dom (registry sample_publication) \<noteq> {}" "dom (registry (pc_empty 4)) = {}" using two by (auto simp: dom_def)
  with extend_unites [OF sample_publication_reached sample_publication_reached, of 5]
    extend_unites [OF sample_publication_reached pub_empty, of 4 5] two(2,3)
  show ?thesis by (auto simp: map_add_def)
qed

end
