(* ===== verification/Query_State.thy ===== *)
theory Query_State
  imports Published_Classes Session_Steps
begin

text \<open>
  Crate \<^verbatim>\<open>typokat-check\<close>, module \<^verbatim>\<open>check/query/mod.rs\<close>: the durable state of the semantic queries, its
  nested transactions with an undo journal, and the check that a query reaches published classes
  only. A rolled back transaction leaves the memos as they were; the layered verdict cache follows
  only if the context was not reset inside a transaction committed below it.
\<close>

section \<open>Data\<close>

record generic_native_surface =
  gn_template :: type_id
  gn_parameter :: type_param_id

record library_object_relation_context =
  lo_object :: type_id
  lo_array :: generic_native_surface
  lo_readonly_array :: generic_native_surface
  lo_string :: type_id
  lo_number :: type_id
  lo_boolean :: type_id
  lo_callable_function :: type_id

definition library_object_relation_context_new ::
    "type_id \<Rightarrow> type_id \<times> type_param_id \<Rightarrow> type_id \<times> type_param_id \<Rightarrow> type_id \<Rightarrow> type_id \<Rightarrow> type_id \<Rightarrow> type_id \<Rightarrow>
     library_object_relation_context" where
  "library_object_relation_context_new object array readonly_array str num bool callable =
     \<lparr>lo_object = object, lo_array = \<lparr>gn_template = fst array, gn_parameter = snd array\<rparr>,
      lo_readonly_array = \<lparr>gn_template = fst readonly_array, gn_parameter = snd readonly_array\<rparr>,
      lo_string = str, lo_number = num, lo_boolean = bool, lo_callable_function = callable\<rparr>"

type_synonym completed_identity_key = "type_id \<times> type_id"

datatype completed_relation_operation = Operation_Assignable

record completed_relation_key =
  ck_src :: type_id
  ck_tgt :: type_id
  ck_operation :: completed_relation_operation

definition completed_assignable :: "type_id \<Rightarrow> type_id \<Rightarrow> completed_relation_key" where
  "completed_assignable src tgt = \<lparr>ck_src = src, ck_tgt = tgt, ck_operation = Operation_Assignable\<rparr>"

datatype completed_relation_outcome = Completed_Yes | Completed_No reason_chain

fun completed_from_outcome :: "relation_outcome \<Rightarrow> completed_relation_outcome option" where
  "completed_from_outcome Outcome_Yes = Some Completed_Yes"
| "completed_from_outcome (Outcome_No reason) = Some (Completed_No reason)"
| "completed_from_outcome (Outcome_Exhausted _) = None"

fun completed_outcome :: "completed_relation_outcome \<Rightarrow> relation_outcome" where
  "completed_outcome Completed_Yes = Outcome_Yes"
| "completed_outcome (Completed_No reason) = Outcome_No reason"

record reset_semantic_context =
  rs_projection_memo :: "(type_id, type_id) fmap"
  rs_evaluation_memo :: "(type_id, type_id) fmap"
  rs_completed_identities :: "(completed_identity_key, bool) fmap"
  rs_relation_cache :: relation_cache
  rs_completed_relations :: "(completed_relation_key, completed_relation_outcome) fmap"
  rs_no_candidates :: "completed_relation_key fset"
  rs_publication_clean :: "type_id fset"
  rs_store_identity :: "nat option"
  rs_snapshot_identity :: "nat option"

datatype semantic_query_undo =
    Undo_ProjectionMemo type_id "type_id option"
  | Undo_EvaluationMemo type_id "type_id option"
  | Undo_CompletedIdentity completed_identity_key "bool option"
  | Undo_CompletedRelation completed_relation_key "completed_relation_outcome option"
  | Undo_NoCandidateInserted completed_relation_key
  | Undo_NoCandidateRemoved completed_relation_key
  | Undo_PublicationClean type_id
  | Undo_ContextReset reset_semantic_context

record semantic_query_state =
  qs_projection_memo :: "(type_id, type_id) fmap"
  qs_evaluation_memo :: "(type_id, type_id) fmap"
  qs_completed_identities :: "(completed_identity_key, bool) fmap"
  qs_relation_cache :: relation_cache
  qs_completed_relations :: "(completed_relation_key, completed_relation_outcome) fmap"
  qs_no_candidates :: "completed_relation_key fset"
  qs_publication_clean :: "type_id fset"
  qs_store_identity :: "nat option"
  qs_snapshot_identity :: "nat option"
  qs_array_lacks_then :: bool
  qs_library_context :: "library_object_relation_context option"
  qs_journal :: "semantic_query_undo list"
  qs_savepoints :: "nat list"

definition qs_default :: semantic_query_state where
  "qs_default = \<lparr>qs_projection_memo = fmempty, qs_evaluation_memo = fmempty, qs_completed_identities = fmempty,
     qs_relation_cache = rc_new, qs_completed_relations = fmempty, qs_no_candidates = {||}, qs_publication_clean = {||},
     qs_store_identity = None, qs_snapshot_identity = None, qs_array_lacks_then = False, qs_library_context = None,
     qs_journal = [], qs_savepoints = []\<rparr>"

section \<open>Operations\<close>

text \<open>Dropping every memo when one of the two session-wide settings changes; ignored in a transaction.\<close>

definition qs_cleared :: "semantic_query_state \<Rightarrow> semantic_query_state" where
  "qs_cleared st = st\<lparr>qs_projection_memo := fmempty, qs_evaluation_memo := fmempty, qs_completed_identities := fmempty,
     qs_relation_cache := rc_new, qs_completed_relations := fmempty, qs_no_candidates := {||}, qs_publication_clean := {||},
     qs_store_identity := None, qs_snapshot_identity := None, qs_journal := []\<rparr>"

definition set_array_definitely_lacks_then :: "semantic_query_state \<Rightarrow> bool \<Rightarrow> semantic_query_state" where
  "set_array_definitely_lacks_then st value =
     (if qs_array_lacks_then st = value \<or> qs_savepoints st \<noteq> [] then st
      else (qs_cleared st)\<lparr>qs_array_lacks_then := value\<rparr>)"

definition set_library_object_context ::
    "semantic_query_state \<Rightarrow> library_object_relation_context option \<Rightarrow> semantic_query_state" where
  "set_library_object_context st value =
     (if qs_library_context st = value \<or> qs_savepoints st \<noteq> [] then st
      else (qs_cleared st)\<lparr>qs_library_context := value\<rparr>)"

definition qs_savepoint :: "semantic_query_state \<Rightarrow> semantic_query_state" where
  "qs_savepoint st = st\<lparr>qs_savepoints := qs_savepoints st @ [length (qs_journal st)],
     qs_relation_cache := rc_savepoint (qs_relation_cache st)\<rparr>"

definition qs_commit :: "semantic_query_state \<Rightarrow> semantic_query_state option" where
  "qs_commit st =
     (if qs_savepoints st = [] then None
      else do {
        let st = st\<lparr>qs_savepoints := butlast (qs_savepoints st)\<rparr>;
        cache \<leftarrow> rc_commit (qs_relation_cache st);
        let st = st\<lparr>qs_relation_cache := cache\<rparr>;
        Some (if qs_savepoints st = [] then st\<lparr>qs_journal := []\<rparr> else st)
      })"

definition restore_entry :: "('k, 'v) fmap \<Rightarrow> 'k \<Rightarrow> 'v option \<Rightarrow> ('k, 'v) fmap" where
  "restore_entry m k previous = (case previous of Some v \<Rightarrow> fmupd k v m | None \<Rightarrow> fmdrop k m)"

fun qs_undo :: "semantic_query_undo \<Rightarrow> semantic_query_state \<Rightarrow> semantic_query_state" where
  "qs_undo (Undo_ProjectionMemo key previous) st =
     st\<lparr>qs_projection_memo := restore_entry (qs_projection_memo st) key previous\<rparr>"
| "qs_undo (Undo_EvaluationMemo key previous) st =
     st\<lparr>qs_evaluation_memo := restore_entry (qs_evaluation_memo st) key previous\<rparr>"
| "qs_undo (Undo_CompletedIdentity key previous) st =
     st\<lparr>qs_completed_identities := restore_entry (qs_completed_identities st) key previous\<rparr>"
| "qs_undo (Undo_CompletedRelation key previous) st =
     st\<lparr>qs_completed_relations := restore_entry (qs_completed_relations st) key previous\<rparr>"
| "qs_undo (Undo_NoCandidateInserted key) st = st\<lparr>qs_no_candidates := qs_no_candidates st |-| {|key|}\<rparr>"
| "qs_undo (Undo_NoCandidateRemoved key) st = st\<lparr>qs_no_candidates := finsert key (qs_no_candidates st)\<rparr>"
| "qs_undo (Undo_PublicationClean ty) st = st\<lparr>qs_publication_clean := qs_publication_clean st |-| {|ty|}\<rparr>"
| "qs_undo (Undo_ContextReset reset) st =
     st\<lparr>qs_projection_memo := rs_projection_memo reset, qs_evaluation_memo := rs_evaluation_memo reset,
        qs_completed_identities := rs_completed_identities reset, qs_relation_cache := rs_relation_cache reset,
        qs_completed_relations := rs_completed_relations reset, qs_no_candidates := rs_no_candidates reset,
        qs_publication_clean := rs_publication_clean reset, qs_store_identity := rs_store_identity reset,
        qs_snapshot_identity := rs_snapshot_identity reset\<rparr>"

lemma qs_undo_journal [simp]: "qs_journal (qs_undo u st) = qs_journal st" "qs_savepoints (qs_undo u st) = qs_savepoints st"
  by (cases u; simp)+

text \<open>The loop of \<open>rollback\<close>: pop and undo while the journal is longer than the mark.\<close>

function qs_unwind :: "nat \<Rightarrow> semantic_query_state \<Rightarrow> semantic_query_state" where
  "qs_unwind mark st =
     (if mark < length (qs_journal st)
      then qs_unwind mark (qs_undo (last (qs_journal st)) (st\<lparr>qs_journal := butlast (qs_journal st)\<rparr>))
      else st)"
  by pat_completeness auto
termination by (relation "measure (\<lambda>(mark, st). length (qs_journal st))") auto

declare qs_unwind.simps [simp del]

definition qs_rollback :: "semantic_query_state \<Rightarrow> semantic_query_state option" where
  "qs_rollback st =
     (if qs_savepoints st = [] then None
      else do {
        let mark = last (qs_savepoints st);
        let st = qs_unwind mark (st\<lparr>qs_savepoints := butlast (qs_savepoints st)\<rparr>);
        cache \<leftarrow> rc_rollback (qs_relation_cache st);
        Some (st\<lparr>qs_relation_cache := cache\<rparr>)
      })"

definition qs_record :: "semantic_query_undo \<Rightarrow> semantic_query_state \<Rightarrow> semantic_query_state" where
  "qs_record u st = (if qs_savepoints st \<noteq> [] then st\<lparr>qs_journal := qs_journal st @ [u]\<rparr> else st)"

definition qs_speculative :: "semantic_query_state \<Rightarrow> bool" where
  "qs_speculative st \<longleftrightarrow> qs_savepoints st \<noteq> []"

text \<open>
  Pending writes come from a hash map: a list of its entries, each key once, in whatever order the
  map yields them.
\<close>

definition commit_cache_entries ::
    "(type_id \<times> type_id) list \<Rightarrow> (type_id \<times> type_id) list \<Rightarrow> semantic_query_state \<Rightarrow> semantic_query_state" where
  "commit_cache_entries projection evaluator st =
     (let st = (if qs_speculative st
           then st\<lparr>qs_journal := qs_journal st
             @ map (\<lambda>(key, _). Undo_ProjectionMemo key (fmlookup (qs_projection_memo st) key)) projection
             @ map (\<lambda>(key, _). Undo_EvaluationMemo key (fmlookup (qs_evaluation_memo st) key)) evaluator\<rparr>
           else st)
      in st\<lparr>qs_projection_memo := fold (\<lambda>(k, v). fmupd k v) projection (qs_projection_memo st),
            qs_evaluation_memo := fold (\<lambda>(k, v). fmupd k v) evaluator (qs_evaluation_memo st)\<rparr>)"

definition remember_identity :: "completed_identity_key \<Rightarrow> bool \<Rightarrow> semantic_query_state \<Rightarrow> semantic_query_state" where
  "remember_identity key identical st =
     (let previous = fmlookup (qs_completed_identities st) key
      in qs_record (Undo_CompletedIdentity key previous)
           (st\<lparr>qs_completed_identities := fmupd key identical (qs_completed_identities st)\<rparr>))"

definition remember_relation ::
    "completed_relation_key \<Rightarrow> completed_relation_outcome \<Rightarrow> semantic_query_state \<Rightarrow> semantic_query_state" where
  "remember_relation key completed st =
     (let previous = fmlookup (qs_completed_relations st) key
      in qs_record (Undo_CompletedRelation key previous)
           (st\<lparr>qs_completed_relations := fmupd key completed (qs_completed_relations st)\<rparr>))"

definition take_relation_no_candidate :: "completed_relation_key \<Rightarrow> semantic_query_state \<Rightarrow> bool \<times> semantic_query_state" where
  "take_relation_no_candidate key st =
     (let removed = key |\<in>| qs_no_candidates st;
          st' = st\<lparr>qs_no_candidates := qs_no_candidates st |-| {|key|}\<rparr>
      in (removed, if removed then qs_record (Undo_NoCandidateRemoved key) st' else st'))"

definition insert_relation_no_candidate :: "completed_relation_key \<Rightarrow> semantic_query_state \<Rightarrow> semantic_query_state" where
  "insert_relation_no_candidate key st =
     (let st' = st\<lparr>qs_no_candidates := finsert key (qs_no_candidates st)\<rparr>
      in if key |\<notin>| qs_no_candidates st then qs_record (Undo_NoCandidateInserted key) st' else st')"

text \<open>The first denial of a relation is only a candidate; the second one is remembered.\<close>

definition remember_completed_relation ::
    "completed_relation_key \<Rightarrow> relation_outcome \<Rightarrow> semantic_query_state \<Rightarrow> semantic_query_state" where
  "remember_completed_relation key outcome st =
     (let is_no = (case outcome of Outcome_No _ \<Rightarrow> True | _ \<Rightarrow> False);
          (taken, st1) = (if is_no then take_relation_no_candidate key st else (True, st))
      in if is_no \<and> \<not> taken then insert_relation_no_candidate key st1
         else case completed_from_outcome outcome of
           None \<Rightarrow> st1
         | Some completed \<Rightarrow>
             if key |\<in>| fmdom (qs_completed_relations st1) then st1 else remember_relation key completed st1)"

fun mark_each_clean :: "type_id list \<Rightarrow> semantic_query_state \<Rightarrow> semantic_query_state" where
  "mark_each_clean [] st = st"
| "mark_each_clean (ty # seen) st =
     mark_each_clean seen
       (if ty |\<notin>| qs_publication_clean st
        then st\<lparr>qs_publication_clean := finsert ty (qs_publication_clean st),
                qs_journal := qs_journal st @ [Undo_PublicationClean ty]\<rparr>
        else st)"

definition mark_publication_clean :: "type_id list \<Rightarrow> semantic_query_state \<Rightarrow> semantic_query_state" where
  "mark_publication_clean seen st =
     (if \<not> qs_speculative st then st\<lparr>qs_publication_clean := qs_publication_clean st |\<union>| fset_of_list seen\<rparr>
      else mark_each_clean seen st)"

definition reset_context :: "nat \<Rightarrow> nat \<Rightarrow> semantic_query_state \<Rightarrow> semantic_query_state" where
  "reset_context store_identity publication_identity st =
     (let cleared_cache = (rc_savepoint ^^ length (qs_savepoints st)) rc_new;
          reset = \<lparr>rs_projection_memo = qs_projection_memo st, rs_evaluation_memo = qs_evaluation_memo st,
            rs_completed_identities = qs_completed_identities st, rs_relation_cache = qs_relation_cache st,
            rs_completed_relations = qs_completed_relations st, rs_no_candidates = qs_no_candidates st,
            rs_publication_clean = qs_publication_clean st, rs_store_identity = qs_store_identity st,
            rs_snapshot_identity = qs_snapshot_identity st\<rparr>;
          st = st\<lparr>qs_projection_memo := fmempty, qs_evaluation_memo := fmempty, qs_completed_identities := fmempty,
            qs_relation_cache := cleared_cache, qs_completed_relations := fmempty, qs_no_candidates := {||},
            qs_publication_clean := {||}, qs_store_identity := None, qs_snapshot_identity := None\<rparr>;
          st = qs_record (Undo_ContextReset reset) st
      in st\<lparr>qs_store_identity := Some store_identity, qs_snapshot_identity := Some publication_identity\<rparr>)"

definition refresh_context :: "nat \<Rightarrow> nat \<Rightarrow> semantic_query_state \<Rightarrow> semantic_query_state" where
  "refresh_context store_identity publication_identity st =
     (if qs_store_identity st \<noteq> Some store_identity \<or> qs_snapshot_identity st \<noteq> Some publication_identity
      then reset_context store_identity publication_identity st else st)"

definition refresh_semantic_context :: "store \<Rightarrow> published_classes \<Rightarrow> semantic_query_state \<Rightarrow> semantic_query_state" where
  "refresh_semantic_context s published st =
     refresh_context (st_semantic_graph_identity s) (pc_identity published) st"


section \<open>Transactions\<close>

text \<open>What a query writes, and nested transactions over it.\<close>

datatype query_write =
    Write_Entries "(type_id \<times> type_id) list" "(type_id \<times> type_id) list"
  | Write_Identity completed_identity_key bool
  | Write_Relation completed_relation_key relation_outcome
  | Write_Clean "type_id list"
  | Write_Refresh nat nat
  | Write_Verdicts relation_cache

fun run_write :: "query_write \<Rightarrow> semantic_query_state \<Rightarrow> semantic_query_state" where
  "run_write (Write_Entries projection evaluator) st = commit_cache_entries projection evaluator st"
| "run_write (Write_Identity key identical) st = remember_identity key identical st"
| "run_write (Write_Relation key outcome) st = remember_completed_relation key outcome st"
| "run_write (Write_Clean seen) st = mark_publication_clean seen st"
| "run_write (Write_Refresh store_identity publication_identity) st = refresh_context store_identity publication_identity st"
| "run_write (Write_Verdicts decided) st = st\<lparr>qs_relation_cache := rc_promote (qs_relation_cache st) decided\<rparr>"

datatype query_script =
    Query_Write query_write
  | Query_Commit "query_script list"
  | Query_Rollback "query_script list"

fun run_query :: "query_script \<Rightarrow> semantic_query_state \<Rightarrow> semantic_query_state option"
  and run_queries :: "query_script list \<Rightarrow> semantic_query_state \<Rightarrow> semantic_query_state option" where
  "run_query (Query_Write w) st = Some (run_write w st)"
| "run_query (Query_Commit ss) st = do { st \<leftarrow> run_queries ss (qs_savepoint st); qs_commit st }"
| "run_query (Query_Rollback ss) st = do { st \<leftarrow> run_queries ss (qs_savepoint st); qs_rollback st }"
| "run_queries [] st = Some st"
| "run_queries (s # ss) st = do { st \<leftarrow> run_query s st; run_queries ss st }"

text \<open>The state without its journal, its savepoints and its verdict cache, and the undoing of a journal on it.\<close>

definition durable :: "semantic_query_state \<Rightarrow> semantic_query_state" where
  "durable st = st\<lparr>qs_relation_cache := rc_new, qs_journal := [], qs_savepoints := []\<rparr>"

definition undone :: "semantic_query_undo list \<Rightarrow> semantic_query_state \<Rightarrow> semantic_query_state" where
  "undone J st = fold qs_undo (rev J) st"

lemma undone_append: "undone (J @ K) st = undone J (undone K st)"
  by (simp add: undone_def)

lemma undone_Nil [simp]: "undone [] st = st"
  by (simp add: undone_def)

lemma undone_single [simp]: "undone [u] st = qs_undo u st"
  by (simp add: undone_def)

lemma durable_undo: "durable (qs_undo u st) = durable (qs_undo u (durable st))"
  by (cases u) (simp_all add: durable_def)

lemma durable_idem [simp]: "durable (durable st) = durable st"
  by (simp add: durable_def)

lemma durable_undone: "durable (undone J st) = durable (undone J (durable st))"
proof (induction J arbitrary: st rule: rev_induct)
  case (snoc u J)
  have "durable (undone J (qs_undo u st)) = durable (undone J (durable (qs_undo u st)))" by (rule snoc)
  also have "\<dots> = durable (undone J (durable (qs_undo u (durable st))))" by (simp only: durable_undo [of u st])
  also have "\<dots> = durable (undone J (qs_undo u (durable st)))" by (rule snoc [symmetric])
  finally show ?case by (simp add: undone_append)
qed simp

text \<open>The verdict cache a journal restores: that of its oldest reset, if it has one.\<close>

fun resets :: "semantic_query_undo list \<Rightarrow> relation_cache list" where
  "resets [] = []"
| "resets (Undo_ContextReset r # J) = rs_relation_cache r # resets J"
| "resets (_ # J) = resets J"

lemma resets_append [simp]: "resets (J @ K) = resets J @ resets K"
  by (induction J rule: resets.induct) simp_all

definition cache_undone :: "semantic_query_undo list \<Rightarrow> relation_cache \<Rightarrow> relation_cache" where
  "cache_undone J c = (case resets J of [] \<Rightarrow> c | c' # _ \<Rightarrow> c')"

lemma undone_cache: "qs_relation_cache (undone J st) = cache_undone J (qs_relation_cache st)"
proof (induction J arbitrary: st)
  case (Cons u J)
  have "undone (u # J) st = qs_undo u (undone J st)" by (simp add: undone_def)
  with Cons show ?case by (cases u) (simp_all add: cache_undone_def)
qed (simp add: cache_undone_def)

lemma undone_fields [simp]: "qs_journal (undone J st) = qs_journal st" "qs_savepoints (undone J st) = qs_savepoints st"
  by (induction J arbitrary: st rule: rev_induct) (simp_all add: undone_append)

lemma unwind_undone:
  "qs_journal st = J @ K \<Longrightarrow> qs_unwind (length J) st = (undone K st)\<lparr>qs_journal := J\<rparr>"
proof (induction K arbitrary: st rule: rev_induct)
  case Nil
  then have "st\<lparr>qs_journal := J\<rparr> = st" by simp
  with Nil show ?case by (simp add: qs_unwind.simps)
next
  case (snoc u K)
  let ?st = "qs_undo u (st\<lparr>qs_journal := J @ K\<rparr>)"
  have com: "undone K (qs_undo u (st\<lparr>qs_journal := X\<rparr>))\<lparr>qs_journal := J\<rparr> = undone K (qs_undo u st)\<lparr>qs_journal := J\<rparr>" for X
  proof -
    have upd: "qs_undo v (s\<lparr>qs_journal := X\<rparr>) = (qs_undo v s)\<lparr>qs_journal := X\<rparr>" for v s by (cases v) simp_all
    have "undone L (s\<lparr>qs_journal := X\<rparr>) = (undone L s)\<lparr>qs_journal := X\<rparr>" for L s
      by (induction L arbitrary: s rule: rev_induct) (simp_all add: undone_append upd)
    then show ?thesis by (simp add: upd)
  qed
  have "qs_unwind (length J) st = qs_unwind (length J) ?st"
    using snoc.prems by (subst qs_unwind.simps) (simp add: append_assoc [symmetric] del: append_assoc)
  also have "\<dots> = (undone K ?st)\<lparr>qs_journal := J\<rparr>" by (rule snoc.IH) simp
  finally show ?case by (simp add: com undone_append)
qed


lemma restore_all:
  "fmlookup (fold (\<lambda>k m. restore_entry m k (fmlookup m0 k)) ks m) x = (if x \<in> set ks then fmlookup m0 x else fmlookup m x)"
  by (induction ks arbitrary: m) (auto simp: restore_entry_def split: option.splits)

lemma fold_fmupd_other: "x \<notin> fst ` set kvs \<Longrightarrow> fmlookup (fold (\<lambda>(k, v). fmupd k v) kvs m) x = fmlookup m x"
  by (induction kvs arbitrary: m) auto

lemma restore_written:
  "fold (\<lambda>k m. restore_entry m k (fmlookup m0 k)) (rev (map fst kvs)) (fold (\<lambda>(k, v). fmupd k v) kvs m0) = m0"
  by (rule fmap_ext) (simp add: restore_all fold_fmupd_other)

lemma undone_projection:
  "undone (map (\<lambda>(key, _). Undo_ProjectionMemo key (fmlookup m0 key)) kvs) st =
     st\<lparr>qs_projection_memo := fold (\<lambda>k m. restore_entry m k (fmlookup m0 k)) (rev (map fst kvs)) (qs_projection_memo st)\<rparr>"
  by (induction kvs arbitrary: st rule: rev_induct) (auto simp: undone_append)

lemma undone_evaluation:
  "undone (map (\<lambda>(key, _). Undo_EvaluationMemo key (fmlookup m0 key)) kvs) st =
     st\<lparr>qs_evaluation_memo := fold (\<lambda>k m. restore_entry m k (fmlookup m0 k)) (rev (map fst kvs)) (qs_evaluation_memo st)\<rparr>"
  by (induction kvs arbitrary: st rule: rev_induct) (auto simp: undone_append)

lemma resets_entries [simp]:
  "resets (map (\<lambda>(key, _). Undo_ProjectionMemo key (f key)) kvs) = []"
  "resets (map (\<lambda>(key, _). Undo_EvaluationMemo key (f key)) kvs) = []"
  by (induction kvs) auto

text \<open>A write inside a transaction: it journals exactly what undoes it, and only a reset moves the verdict cache aside.\<close>

definition journaled :: "semantic_query_state \<Rightarrow> semantic_query_state \<Rightarrow> semantic_query_undo list \<Rightarrow> bool" where
  "journaled st st' J \<longleftrightarrow> qs_savepoints st' = qs_savepoints st \<and> qs_journal st' = qs_journal st @ J \<and>
     durable (undone J st') = durable st"

definition same_context :: "semantic_query_state \<Rightarrow> semantic_query_state \<Rightarrow> bool" where
  "same_context st st' \<longleftrightarrow> rc_base (qs_relation_cache st') = rc_base (qs_relation_cache st)"

lemma journaledI:
  assumes "qs_savepoints st' = qs_savepoints st" "qs_journal st' = qs_journal st @ J" "durable (undone J st') = durable st"
  shows "journaled st st' J"
  using assms by (simp add: journaled_def)

lemma entries_journaled:
  assumes "qs_savepoints st \<noteq> []"
  shows "\<exists>J. journaled st (commit_cache_entries projection evaluator st) J \<and> resets J = [] \<and>
    qs_relation_cache (commit_cache_entries projection evaluator st) = qs_relation_cache st"
proof -
  let ?J = "map (\<lambda>(key, _). Undo_ProjectionMemo key (fmlookup (qs_projection_memo st) key)) projection
    @ map (\<lambda>(key, _). Undo_EvaluationMemo key (fmlookup (qs_evaluation_memo st) key)) evaluator"
  have "journaled st (commit_cache_entries projection evaluator st) ?J"
    using assms
    by (intro journaledI) (simp_all add: commit_cache_entries_def qs_speculative_def Let_def undone_append undone_projection
        undone_evaluation restore_written durable_def)
  then show ?thesis using assms by (intro exI [of _ ?J]) (simp add: commit_cache_entries_def Let_def)
qed

lemma restore_fmupd: "restore_entry (fmupd k v m) k (fmlookup m k) = m"
  by (rule fmap_ext) (simp add: restore_entry_def split: option.split)

lemma identity_journaled:
  assumes "qs_savepoints st \<noteq> []"
  shows "\<exists>J. journaled st (remember_identity key b st) J \<and> resets J = [] \<and>
    qs_relation_cache (remember_identity key b st) = qs_relation_cache st"
  using assms
  by (intro exI [of _ "[Undo_CompletedIdentity key (fmlookup (qs_completed_identities st) key)]"])
     (simp add: journaled_def remember_identity_def qs_record_def Let_def durable_def restore_fmupd)

lemma remember_relation_journaled:
  assumes "qs_savepoints st \<noteq> []"
  shows "journaled st (remember_relation key c st) [Undo_CompletedRelation key (fmlookup (qs_completed_relations st) key)]"
    "qs_relation_cache (remember_relation key c st) = qs_relation_cache st"
  using assms by (simp_all add: journaled_def remember_relation_def qs_record_def Let_def durable_def restore_fmupd)

lemma journaled_trans:
  assumes "journaled a b J" "journaled b c K"
  shows "journaled a c (J @ K)"
proof -
  have "durable (undone J (undone K c)) = durable (undone J (durable (undone K c)))" by (rule durable_undone)
  also have "\<dots> = durable (undone J (durable b))" using assms(2) by (simp add: journaled_def)
  also have "\<dots> = durable (undone J b)" by (rule durable_undone [symmetric])
  finally show ?thesis using assms by (simp add: journaled_def undone_append)
qed

lemma journaled_refl: "journaled st st []"
  by (simp add: journaled_def)

lemma take_candidate_journaled:
  assumes "qs_savepoints st \<noteq> []"
  shows "\<exists>J. journaled st (snd (take_relation_no_candidate key st)) J \<and> resets J = [] \<and>
    qs_relation_cache (snd (take_relation_no_candidate key st)) = qs_relation_cache st"
proof (cases "key |\<in>| qs_no_candidates st")
  case True
  then have "finsert key (qs_no_candidates st |-| {|key|}) = qs_no_candidates st" by auto
  with True assms show ?thesis
    by (intro exI [of _ "[Undo_NoCandidateRemoved key]"])
       (simp add: journaled_def take_relation_no_candidate_def qs_record_def Let_def durable_def)
next
  case False
  then have "qs_no_candidates st |-| {|key|} = qs_no_candidates st" by auto
  with False show ?thesis
    by (intro exI [of _ "[]"]) (simp add: journaled_def take_relation_no_candidate_def Let_def durable_def)
qed

lemma insert_candidate_journaled:
  assumes "qs_savepoints st \<noteq> []"
  shows "\<exists>J. journaled st (insert_relation_no_candidate key st) J \<and> resets J = [] \<and>
    qs_relation_cache (insert_relation_no_candidate key st) = qs_relation_cache st"
proof (cases "key |\<in>| qs_no_candidates st")
  case True
  then have "finsert key (qs_no_candidates st) = qs_no_candidates st" by auto
  with True show ?thesis
    by (intro exI [of _ "[]"]) (simp add: journaled_def insert_relation_no_candidate_def Let_def durable_def)
next
  case False
  then have "finsert key (qs_no_candidates st) |-| {|key|} = qs_no_candidates st" by auto
  with False assms show ?thesis
    by (intro exI [of _ "[Undo_NoCandidateInserted key]"])
       (simp add: journaled_def insert_relation_no_candidate_def qs_record_def Let_def durable_def)
qed

lemma relation_journaled:
  assumes sp: "qs_savepoints st \<noteq> []"
  shows "\<exists>J. journaled st (remember_completed_relation key outcome st) J \<and> resets J = [] \<and>
    qs_relation_cache (remember_completed_relation key outcome st) = qs_relation_cache st"
proof -
  define st1 where "st1 = (case outcome of Outcome_No _ \<Rightarrow> snd (take_relation_no_candidate key st) | _ \<Rightarrow> st)"
  have "\<exists>J. journaled st st1 J \<and> resets J = [] \<and> qs_relation_cache st1 = qs_relation_cache st"
    using take_candidate_journaled [OF sp, of key] journaled_refl [of st] by (cases outcome) (auto simp: st1_def intro: exI [of _ "[]"])
  then obtain J where J: "journaled st st1 J" "resets J = []" "qs_relation_cache st1 = qs_relation_cache st" by blast
  have sp1: "qs_savepoints st1 \<noteq> []" using J(1) sp by (simp add: journaled_def)
  have "remember_completed_relation key outcome st \<in>
      {st1, insert_relation_no_candidate key st1} \<union> range (\<lambda>c. remember_relation key c st1)"
    by (cases outcome; cases "take_relation_no_candidate key st") (auto simp: remember_completed_relation_def st1_def Let_def)
  then consider "remember_completed_relation key outcome st = st1"
    | "remember_completed_relation key outcome st = insert_relation_no_candidate key st1"
    | c where "remember_completed_relation key outcome st = remember_relation key c st1" by blast
  then show ?thesis
  proof cases
    case 1
    with J show ?thesis by auto
  next
    case 2
    from insert_candidate_journaled [OF sp1] obtain K where "journaled st1 (insert_relation_no_candidate key st1) K"
      "resets K = []" "qs_relation_cache (insert_relation_no_candidate key st1) = qs_relation_cache st1" by blast
    with 2 J journaled_trans [OF J(1)] show ?thesis by (intro exI [of _ "J @ K"]) simp
  next
    case 3
    let ?u = "[Undo_CompletedRelation key (fmlookup (qs_completed_relations st1) key)]"
    from journaled_trans [OF J(1) remember_relation_journaled(1) [OF sp1]] 3 remember_relation_journaled(2) [OF sp1] J(2,3)
    show ?thesis by (intro exI [of _ "J @ ?u"]) simp
  qed
qed

lemma clean_journaled:
  assumes "qs_savepoints st \<noteq> []"
  shows "\<exists>J. journaled st (mark_each_clean seen st) J \<and> resets J = [] \<and> qs_relation_cache (mark_each_clean seen st) = qs_relation_cache st"
  using assms
proof (induction seen arbitrary: st)
  case Nil
  show ?case using journaled_refl by (intro exI [of _ "[]"]) simp
next
  case (Cons ty seen)
  show ?case
  proof (cases "ty |\<in>| qs_publication_clean st")
    case True
    with Cons show ?thesis by simp
  next
    case False
    let ?st = "st\<lparr>qs_publication_clean := finsert ty (qs_publication_clean st), qs_journal := qs_journal st @ [Undo_PublicationClean ty]\<rparr>"
    have "finsert ty (qs_publication_clean st) |-| {|ty|} = qs_publication_clean st" using False by auto
    then have one: "journaled st ?st [Undo_PublicationClean ty]" by (simp add: journaled_def durable_def)
    from Cons.IH [of ?st] Cons.prems obtain J where
      "journaled ?st (mark_each_clean seen ?st) J" "resets J = []" "qs_relation_cache (mark_each_clean seen ?st) = qs_relation_cache ?st" by auto
    with journaled_trans [OF one] False show ?thesis by (intro exI [of _ "[Undo_PublicationClean ty] @ J"]) simp
  qed
qed


fun rc_depth :: "relation_cache \<Rightarrow> nat" where
  "rc_depth (Cache_Layer None _) = 0"
| "rc_depth (Cache_Layer (Some b) _) = Suc (rc_depth b)"

lemma rc_depth_base: "rc_depth c = (case rc_base c of None \<Rightarrow> 0 | Some b \<Rightarrow> Suc (rc_depth b))"
  by (cases c rule: rc_depth.cases) simp_all

lemma rc_depth_steps [simp]: "rc_depth (rc_savepoint c) = Suc (rc_depth c)" "rc_depth ((rc_savepoint ^^ n) rc_new) = n"
  by (simp add: rc_savepoint_def, induction n) (simp_all add: rc_new_def rc_savepoint_def)

fun is_refresh :: "query_write \<Rightarrow> bool" where
  "is_refresh (Write_Refresh _ _) = True"
| "is_refresh _ = False"

lemma write_journaled:
  assumes sp: "qs_savepoints st \<noteq> []"
  shows "\<exists>J. journaled st (run_write w st) J \<and>
    (resets J = [] \<and> rc_base (qs_relation_cache (run_write w st)) = rc_base (qs_relation_cache st) \<or>
     resets J = [qs_relation_cache st] \<and> is_refresh w \<and> rc_depth (qs_relation_cache (run_write w st)) = length (qs_savepoints st))"
proof (cases w)
  case (Write_Refresh store_identity publication_identity)
  show ?thesis
  proof (cases "refresh_context store_identity publication_identity st = st")
    case True
    then show ?thesis using journaled_refl [of st] Write_Refresh by (intro exI [of _ "[]"]) simp
  next
    case False
    then have r: "run_write w st = reset_context store_identity publication_identity st"
      using Write_Refresh by (simp add: refresh_context_def split: if_splits)
    let ?r = "\<lparr>rs_projection_memo = qs_projection_memo st, rs_evaluation_memo = qs_evaluation_memo st,
            rs_completed_identities = qs_completed_identities st, rs_relation_cache = qs_relation_cache st,
            rs_completed_relations = qs_completed_relations st, rs_no_candidates = qs_no_candidates st,
            rs_publication_clean = qs_publication_clean st, rs_store_identity = qs_store_identity st,
            rs_snapshot_identity = qs_snapshot_identity st\<rparr>"
    show ?thesis unfolding r
      using sp Write_Refresh
      by (intro exI [of _ "[Undo_ContextReset ?r]"]) (simp add: journaled_def reset_context_def qs_record_def Let_def durable_def)
  qed
next
  case (Write_Verdicts decided)
  then show ?thesis by (intro exI [of _ "[]"]) (simp add: journaled_def durable_def rc_promote_def)
next
  case (Write_Clean seen)
  with clean_journaled [OF sp, of seen] sp show ?thesis by (auto simp: mark_publication_clean_def qs_speculative_def)
next
  case (Write_Entries projection evaluator)
  with entries_journaled [OF sp, of projection evaluator] show ?thesis by auto
next
  case (Write_Identity key b)
  with identity_journaled [OF sp, of key b] show ?thesis by auto
next
  case (Write_Relation key outcome)
  with relation_journaled [OF sp, of key outcome] show ?thesis by auto
qed

lemma mark_each_clean_frame: "qs_savepoints (mark_each_clean seen st) = qs_savepoints st"
  by (induction seen arbitrary: st) simp_all

lemma write_outside:
  assumes "qs_savepoints st = []"
  shows "qs_savepoints (run_write w st) = []" "qs_journal (run_write w st) = qs_journal st"
  using assms
  by (cases w; auto simp: commit_cache_entries_def remember_identity_def remember_completed_relation_def remember_relation_def
      take_relation_no_candidate_def insert_relation_no_candidate_def mark_publication_clean_def qs_speculative_def
      refresh_context_def reset_context_def qs_record_def Let_def split: relation_outcome.split option.split)+

text \<open>
  A script is settled when the context is not refreshed inside a transaction that is committed
  below the one that is rolled back.
\<close>

fun settled :: "bool \<Rightarrow> query_script \<Rightarrow> bool" where
  "settled committed (Query_Write w) \<longleftrightarrow> (committed \<longrightarrow> \<not> is_refresh w)"
| "settled committed (Query_Commit ss) \<longleftrightarrow> list_all (settled True) ss"
| "settled committed (Query_Rollback ss) \<longleftrightarrow> list_all (settled False) ss"

text \<open>There is a layer of the verdict cache for every savepoint, and a journal only with savepoints.\<close>

definition layered_state :: "semantic_query_state \<Rightarrow> bool" where
  "layered_state st \<longleftrightarrow> length (qs_savepoints st) \<le> rc_depth (qs_relation_cache st) \<and>
     (qs_savepoints st = [] \<longrightarrow> qs_journal st = [])"

definition stepped :: "bool \<Rightarrow> bool \<Rightarrow> semantic_query_state \<Rightarrow> semantic_query_state \<Rightarrow> bool" where
  "stepped committed ok st st' \<longleftrightarrow> layered_state st' \<and> qs_savepoints st' = qs_savepoints st \<and>
     (qs_savepoints st \<noteq> [] \<longrightarrow> (\<exists>J. journaled st st' J \<and> (\<forall>c \<in> set (resets J). length (qs_savepoints st) \<le> rc_depth c) \<and>
        (ok \<longrightarrow> rc_base (cache_undone J (qs_relation_cache st')) = rc_base (qs_relation_cache st) \<and> (committed \<longrightarrow> resets J = []))))"

lemma stepped_refl: "layered_state st \<Longrightarrow> stepped committed ok st st"
  using journaled_refl [of st] by (auto simp: stepped_def cache_undone_def intro!: exI [of _ "[]"])

lemma stepped_trans:
  assumes "stepped committed ok1 a b" "stepped committed ok2 b c"
  shows "stepped committed (ok1 \<and> ok2) a c"
proof (cases "qs_savepoints a = []")
  case True
  with assms show ?thesis by (simp add: stepped_def)
next
  case False
  with assms obtain J K where J: "journaled a b J" "\<forall>c \<in> set (resets J). length (qs_savepoints a) \<le> rc_depth c"
      "ok1 \<longrightarrow> rc_base (cache_undone J (qs_relation_cache b)) = rc_base (qs_relation_cache a) \<and> (committed \<longrightarrow> resets J = [])"
    and K: "journaled b c K" "\<forall>c \<in> set (resets K). length (qs_savepoints a) \<le> rc_depth c"
      "ok2 \<longrightarrow> rc_base (cache_undone K (qs_relation_cache c)) = rc_base (qs_relation_cache b) \<and> (committed \<longrightarrow> resets K = [])"
    unfolding stepped_def by metis
  have "rc_base (cache_undone (J @ K) (qs_relation_cache c)) = rc_base (qs_relation_cache a)" if "ok1" "ok2"
    using that J(3) K(3) by (cases "resets J"; cases "resets K") (auto simp: cache_undone_def)
  with journaled_trans [OF J(1) K(1)] J K assms show ?thesis
    unfolding stepped_def by (auto intro!: exI [of _ "J @ K"])
qed

lemma write_stepped:
  assumes "layered_state st"
  shows "stepped committed (settled committed (Query_Write w)) st (run_write w st)"
proof (cases "qs_savepoints st = []")
  case True
  with write_outside [of st w] assms show ?thesis by (simp add: stepped_def layered_state_def)
next
  case False
  from write_journaled [OF False, of w] obtain J where J: "journaled st (run_write w st) J"
    and c: "resets J = [] \<and> rc_base (qs_relation_cache (run_write w st)) = rc_base (qs_relation_cache st) \<or>
     resets J = [qs_relation_cache st] \<and> is_refresh w \<and> rc_depth (qs_relation_cache (run_write w st)) = length (qs_savepoints st)" by blast
  have "length (qs_savepoints st) \<le> rc_depth (qs_relation_cache (run_write w st))"
    using c assms by (auto simp: layered_state_def rc_depth_base)
  then have "layered_state (run_write w st)" using J False by (simp add: layered_state_def journaled_def)
  moreover have "\<forall>x \<in> set (resets J). length (qs_savepoints st) \<le> rc_depth x" using c assms by (auto simp: layered_state_def)
  moreover have "rc_base (cache_undone J (qs_relation_cache (run_write w st))) = rc_base (qs_relation_cache st)"
    using c by (auto simp: cache_undone_def)
  ultimately show ?thesis using J c unfolding stepped_def by (auto simp: journaled_def intro!: exI [of _ J])
qed


lemma savepoint_layered: "layered_state st \<Longrightarrow> layered_state (qs_savepoint st)"
  by (simp add: layered_state_def qs_savepoint_def)

lemma savepoint_fields [simp]:
  "qs_savepoints (qs_savepoint st) = qs_savepoints st @ [length (qs_journal st)]" "qs_journal (qs_savepoint st) = qs_journal st"
  "qs_relation_cache (qs_savepoint st) = rc_savepoint (qs_relation_cache st)" "durable (qs_savepoint st) = durable st"
  by (simp_all add: qs_savepoint_def durable_def)

lemma depth_pos: "Suc n \<le> rc_depth c \<Longrightarrow> \<exists>b. rc_base c = Some b \<and> n \<le> rc_depth b"
  by (cases c rule: rc_depth.cases) auto

lemma commit_stepped:
  assumes inv: "layered_state st" and body: "stepped True ok (qs_savepoint st) st1"
  shows "\<exists>st'. qs_commit st1 = Some st' \<and> stepped committed ok st st'"
proof -
  let ?n = "length (qs_savepoints st)"
  from body obtain J where J: "journaled (qs_savepoint st) st1 J" "\<forall>c \<in> set (resets J). Suc ?n \<le> rc_depth c"
    and ok: "ok \<longrightarrow> rc_base (cache_undone J (qs_relation_cache st1)) = Some (qs_relation_cache st) \<and> resets J = []"
    and lay: "layered_state st1" and sp: "qs_savepoints st1 = qs_savepoints st @ [length (qs_journal st)]"
    unfolding stepped_def by (auto simp: rc_savepoint_def)
  from lay sp obtain b where b: "rc_base (qs_relation_cache st1) = Some b" "?n \<le> rc_depth b"
    using depth_pos [of ?n "qs_relation_cache st1"] by (auto simp: layered_state_def)
  let ?c = "Cache_Layer (rc_base b) (rc_entries b ++\<^sub>f rc_entries (qs_relation_cache st1))"
  let ?st = "st1\<lparr>qs_savepoints := qs_savepoints st, qs_relation_cache := ?c\<rparr>"
  let ?st' = "if qs_savepoints st = [] then ?st\<lparr>qs_journal := []\<rparr> else ?st"
  have run: "qs_commit st1 = Some ?st'" using b(1) sp by (simp add: qs_commit_def rc_commit_def Let_def)
  have dep: "rc_depth ?c = rc_depth b" by (simp add: rc_depth_base [of b] rc_depth_base [of "Cache_Layer _ _"])
  have "durable (undone J st1) = durable st" "qs_journal st1 = qs_journal st @ J" using J(1) by (simp_all add: journaled_def)
  moreover have "durable (undone J ?st) = durable (undone J st1)"
    by (subst durable_undone, subst (2) durable_undone) (simp add: durable_def)
  ultimately have "journaled st ?st J" by (simp add: journaled_def)
  moreover have "rc_base (cache_undone J ?c) = rc_base (qs_relation_cache st)" if "ok"
    using ok that b(1) by (auto simp: cache_undone_def)
  ultimately have "stepped committed ok st ?st'"
    using inv b(2) dep J(2) ok unfolding stepped_def layered_state_def by (auto intro!: exI [of _ J])
  with run show ?thesis by blast
qed

lemma durable_same:
  "durable a = durable b \<Longrightarrow> qs_savepoints a = qs_savepoints b \<Longrightarrow>
    a\<lparr>qs_journal := qs_journal b, qs_relation_cache := c\<rparr> = b\<lparr>qs_relation_cache := c\<rparr>"
  by (cases a; cases b) (simp add: durable_def)

lemma rollback_restores_durable:
  assumes body: "stepped False ok (qs_savepoint st) st1"
  shows "\<exists>c. qs_rollback st1 = Some (st\<lparr>qs_relation_cache := c\<rparr>) \<and> length (qs_savepoints st) \<le> rc_depth c \<and>
    (ok \<longrightarrow> c = qs_relation_cache st)"
proof -
  let ?n = "length (qs_savepoints st)"
  from body obtain J where J: "journaled (qs_savepoint st) st1 J" "\<forall>c \<in> set (resets J). Suc ?n \<le> rc_depth c"
    and ok: "ok \<longrightarrow> rc_base (cache_undone J (qs_relation_cache st1)) = Some (qs_relation_cache st)"
    and lay: "layered_state st1" and sp: "qs_savepoints st1 = qs_savepoints st @ [length (qs_journal st)]"
    unfolding stepped_def by (auto simp: rc_savepoint_def)
  let ?c1 = "cache_undone J (qs_relation_cache st1)"
  have "Suc ?n \<le> rc_depth ?c1"
    using J(2) lay sp by (cases "resets J") (auto simp: cache_undone_def layered_state_def)
  from depth_pos [OF this] obtain c where c: "rc_base ?c1 = Some c" "?n \<le> rc_depth c" by blast
  let ?st = "st1\<lparr>qs_savepoints := qs_savepoints st\<rparr>"
  have jr: "qs_journal st1 = qs_journal st @ J" and du: "durable (undone J st1) = durable st"
    using J(1) by (simp_all add: journaled_def)
  have unw: "qs_unwind (length (qs_journal st)) ?st = (undone J ?st)\<lparr>qs_journal := qs_journal st\<rparr>"
    using unwind_undone [of ?st "qs_journal st" J] jr by simp
  have "durable (undone J ?st) = durable (undone J st1)"
    by (subst durable_undone, subst (2) durable_undone) (simp add: durable_def)
  then have "durable (undone J ?st) = durable st" using du by simp
  moreover have "qs_savepoints (undone J ?st) = qs_savepoints st" by simp
  ultimately have "(undone J ?st)\<lparr>qs_journal := qs_journal st, qs_relation_cache := c\<rparr> = st\<lparr>qs_relation_cache := c\<rparr>"
    by (rule durable_same)
  then have "qs_rollback st1 = Some (st\<lparr>qs_relation_cache := c\<rparr>)"
    using sp c(1) unw undone_cache [of J ?st] by (simp add: qs_rollback_def Let_def rc_rollback_def)
  then show ?thesis using c ok by auto
qed

lemma rollback_stepped:
  assumes inv: "layered_state st" and c: "length (qs_savepoints st) \<le> rc_depth c" "ok \<longrightarrow> c = qs_relation_cache st"
  shows "stepped committed ok st (st\<lparr>qs_relation_cache := c\<rparr>)"
  using inv c unfolding stepped_def layered_state_def
  by (auto simp: journaled_def durable_def cache_undone_def intro!: exI [of _ "[]"])

lemma scripts_stepped:
  "layered_state st \<Longrightarrow> \<exists>st'. run_query s st = Some st' \<and> stepped committed (settled committed s) st st'"
  "layered_state st \<Longrightarrow> \<exists>st'. run_queries ss st = Some st' \<and> stepped committed (list_all (settled committed) ss) st st'"
proof (induction s st and ss st arbitrary: committed and committed rule: run_query_run_queries.induct)
  case (1 w st)
  then show ?case using write_stepped by simp
next
  case (2 ss st)
  from "2.IH" [OF savepoint_layered [OF "2.prems"], of True] obtain st1 where
    st1: "run_queries ss (qs_savepoint st) = Some st1" "stepped True (list_all (settled True) ss) (qs_savepoint st) st1" by blast
  with commit_stepped [OF "2.prems" st1(2)] show ?case by simp
next
  case (3 ss st)
  from "3.IH" [OF savepoint_layered [OF "3.prems"], of False] obtain st1 where
    st1: "run_queries ss (qs_savepoint st) = Some st1" "stepped False (list_all (settled False) ss) (qs_savepoint st) st1" by blast
  with rollback_restores_durable [OF st1(2)] rollback_stepped [OF "3.prems"] show ?case by fastforce
next
  case (4 st)
  then show ?case using stepped_refl by simp
next
  case (5 s ss st)
  from "5.IH"(1) [OF "5.prems", of committed] obtain st1 where
    st1: "run_query s st = Some st1" "stepped committed (settled committed s) st st1" by blast
  then have "layered_state st1" by (simp add: stepped_def)
  from "5.IH"(2) [OF st1(1) this, of committed] obtain st2 where
    "run_queries ss st1 = Some st2" "stepped committed (list_all (settled committed) ss) st1 st2" by blast
  with st1 stepped_trans [OF st1(2)] show ?case by auto
qed

lemma default_layered: "layered_state qs_default"
  by (simp add: layered_state_def qs_default_def)


section \<open>Properties of transactions\<close>

text \<open>
  C23: transactions of the semantic-query state never panic and discard what they should. From a
  state with a layer of the verdict cache for every open savepoint, any script of writes and nested
  transactions runs to the end and leaves such a state with the same savepoints open; and when the
  whole script is rolled back, the memos, the completed identities and relations, the candidates,
  the clean set, the context identities and the journal are exactly what they were: only the
  verdict cache may differ.
\<close>

theorem query_rollback_discards:
  assumes "layered_state st"
  shows "\<exists>st' c. run_queries ss st = Some st' \<and> layered_state st' \<and> qs_savepoints st' = qs_savepoints st \<and>
    run_query (Query_Rollback ss) st = Some (st\<lparr>qs_relation_cache := c\<rparr>)"
proof -
  obtain st' where "run_queries ss st = Some st'" "stepped False (list_all (settled False) ss) st st'"
    using scripts_stepped(2) [OF assms, of ss False] by blast
  moreover obtain st1 where st1: "run_queries ss (qs_savepoint st) = Some st1"
      "stepped False (list_all (settled False) ss) (qs_savepoint st) st1"
    using scripts_stepped(2) [OF savepoint_layered [OF assms], of ss False] by blast
  moreover from rollback_restores_durable [OF st1(2)] obtain c where "qs_rollback st1 = Some (st\<lparr>qs_relation_cache := c\<rparr>)" by blast
  ultimately show ?thesis by (auto simp: stepped_def)
qed

theorem query_rollback_discards_witness:
  "\<exists>st' c. run_queries [Query_Write (Write_Refresh 1 2), Query_Commit [Query_Write (Write_Identity (3, 4) True)]] qs_default = Some st' \<and>
     run_query (Query_Rollback [Query_Write (Write_Refresh 1 2), Query_Commit [Query_Write (Write_Identity (3, 4) True)]]) qs_default =
       Some (qs_default\<lparr>qs_relation_cache := c\<rparr>)"
  using query_rollback_discards [OF default_layered, of "[Query_Write (Write_Refresh 1 2), Query_Commit [Query_Write (Write_Identity (3, 4) True)]]"]
  by blast

text \<open>
  C24: a rolled back transaction leaves no trace at all, the verdict cache included, if the context
  is never refreshed inside a transaction committed within it. Refreshes in the transaction itself,
  and in nested transactions that are rolled back, do no harm.
\<close>

theorem settled_rollback_restores:
  assumes "layered_state st" "list_all (settled False) ss"
  shows "run_query (Query_Rollback ss) st = Some st"
proof -
  obtain st1 where st1: "run_queries ss (qs_savepoint st) = Some st1"
      "stepped False (list_all (settled False) ss) (qs_savepoint st) st1"
    using scripts_stepped(2) [OF savepoint_layered [OF assms(1)], of ss False] by blast
  from rollback_restores_durable [OF st1(2)] assms(2) have "qs_rollback st1 = Some st" by auto
  with st1(1) show ?thesis by simp
qed

theorem settled_rollback_restores_witness:
  "run_query (Query_Rollback [Query_Write (Write_Refresh 1 2), Query_Commit [Query_Write (Write_Identity (3, 4) True)],
     Query_Rollback [Query_Write (Write_Refresh 5 2)]]) qs_default = Some qs_default"
  by (rule settled_rollback_restores [OF default_layered]) simp


end
