(* ===== verification/Query_Publication.thy ===== *)
theory Query_Publication
  imports Query_State Session_Properties
begin

text \<open>
  Crate \<^verbatim>\<open>typokat-check\<close>, module \<^verbatim>\<open>check/query/mod.rs\<close>: \<open>publication_exhaustion\<close>, the check made before a
  relation or identity query that every class application reachable from its roots is published. The
  walk keeps a visited set and skips types an earlier query found clean. It is proved to return and
  to answer exactly by reachability.
\<close>

section \<open>The walk\<close>

definition query_children :: "store \<Rightarrow> type_id \<Rightarrow> type_id list option" where
  "query_children st ty = do {
     tg \<leftarrow> tag st ty;
     (case tg of
        Tag_Object \<Rightarrow> children_of (object_type_of st ty) (\<lambda>ob.
          concat (map (\<lambda>p. pr_ty p # opt_ids (pr_write_ty p)) (ob_properties ob)) @
          opt_ids (ob_string_index ob) @ opt_ids (ob_number_index ob) @
          ob_call_signatures ob @ ob_construct_signatures ob)
      | Tag_Function \<Rightarrow> children_of (function_type_of st ty) (\<lambda>f.
          concat (map (\<lambda>g. opt_ids (gp_constraint g) @ opt_ids (gp_default g)) (fn_type_params f)) @
          opt_ids (fn_receiver f) @ map pa_ty (fn_params f) @ [fn_ret f])
      | Tag_TypeParam \<Rightarrow> children_of (type_param_of st ty) (\<lambda>p. opt_ids (type_param_constraint st (tp_id p)))
      | Tag_Union \<Rightarrow> children_of (union_members st ty) id
      | Tag_Intersection \<Rightarrow> children_of (intersection_members st ty) id
      | Tag_Array \<Rightarrow> children_of (array_type_of st ty) (\<lambda>e. [e])
      | Tag_Tuple \<Rightarrow> children_of (tuple_type_of st ty)
          (\<lambda>tu. tu_elements tu @ opt_ids (map_option tr_ty (tu_rest tu)))
      | Tag_Readonly \<Rightarrow> children_of (readonly_operand st ty) (\<lambda>t. [t])
      | Tag_Conditional \<Rightarrow> children_of (conditional_type_of st ty)
          (\<lambda>c. [co_check c, co_extends_ty c, co_true_branch c, co_false_branch c])
      | Tag_Instantiation \<Rightarrow> children_of (instantiation_type_of st ty) (\<lambda>i. in_base i # map snd (in_args i))
      | Tag_ClassInstance \<Rightarrow> children_of (class_instance_type_of st ty) ci_args
      | Tag_Mapped \<Rightarrow> children_of (mapped_type_of st ty)
          (\<lambda>m. [ma_key_source m, ma_value_template m] @ opt_ids (ma_modifiers_source m))
      | Tag_Template \<Rightarrow> children_of (template_type_of st ty) te_holes
      | Tag_Keyof \<Rightarrow> children_of (keyof_operand st ty) (\<lambda>t. [t])
      | Tag_DeferredIndexedAccess \<Rightarrow> children_of (deferred_indexed_access_type_of st ty)
          (\<lambda>d. [di_object d, di_index d])
      | Tag_Declared \<Rightarrow> children_of (declared_type_of st ty) (\<lambda>d. map snd (de_mapper d))
      | _ \<Rightarrow> Some [])
   }"

text \<open>Why a type itself blocks a query: an application of a class that is not published.\<close>

definition class_exhaustion :: "published_classes \<Rightarrow> class_instance_type option \<Rightarrow> exhaustion option" where
  "class_exhaustion published instance_ty =
     (case instance_ty of None \<Rightarrow> None
      | Some c \<Rightarrow> (case pc_published_class published (ci_class c) of Demand_Ready _ \<Rightarrow> None | Demand_Exhausted reason \<Rightarrow> Some reason))"

text \<open>The stack has its top in front; the set of visited types is the list of its insertions.\<close>

partial_function (option) publication_walk ::
    "store \<Rightarrow> published_classes \<Rightarrow> type_id fset \<Rightarrow> type_id list \<Rightarrow> type_id list \<Rightarrow> (exhaustion + type_id list) option" where [code]:
  "publication_walk st published clean stack seen =
     (case stack of
        [] \<Rightarrow> Some (Inr seen)
      | ty # stack \<Rightarrow>
          if ty |\<in>| clean \<or> ty \<in> set seen then publication_walk st published clean stack seen
          else do {
            instance_ty \<leftarrow> class_instance_type_of st ty;
            (case class_exhaustion published instance_ty of
               Some reason \<Rightarrow> Some (Inl reason)
             | None \<Rightarrow> do {
                 children \<leftarrow> query_children st ty;
                 publication_walk st published clean (rev children @ stack) (ty # seen)
               })
          })"

definition publication_exhaustion ::
    "store \<Rightarrow> type_id list \<Rightarrow> published_classes \<Rightarrow> semantic_query_state \<Rightarrow> (exhaustion option \<times> semantic_query_state) option" where
  "publication_exhaustion st roots published qs = do {
     let qs = refresh_semantic_context st published qs;
     found \<leftarrow> publication_walk st published (qs_publication_clean qs) (rev roots) [];
     Some (case found of Inl reason \<Rightarrow> (Some reason, qs) | Inr seen \<Rightarrow> (None, mark_publication_clean (rev seen) qs))
   }"

section \<open>Reachability\<close>

fun row_query_children :: "store \<Rightarrow> ty_row \<Rightarrow> type_id list" where
  "row_query_children st (Row_Function f) =
     concat (map (\<lambda>g. opt_ids (gp_constraint g) @ opt_ids (gp_default g)) (fn_type_params f)) @
     opt_ids (fn_receiver f) @ map pa_ty (fn_params f) @ [fn_ret f]"
| "row_query_children st (Row_TypeParam p) = opt_ids (type_param_constraint st (tp_id p))"
| "row_query_children st (Row_Instantiation i) = in_base i # map snd (in_args i)"
| "row_query_children st r = row_targets r"

lemma query_children_row:
  assumes "store_inv st" "st_row st t = Some r"
  shows "query_children st t = Some (row_query_children st r)"
  using assms accessor_rows [OF assms(1), of t] by (cases r) (simp_all add: query_children_def children_of_def)

lemma class_instance_row:
  assumes "store_inv st" "st_row st t = Some r"
  shows "class_instance_type_of st t = Some (case r of Row_ClassInstance c \<Rightarrow> Some c | _ \<Rightarrow> None)"
  using accessor_rows(11) [OF assms(1), of t] assms(2) by simp

definition asks :: "store \<Rightarrow> (type_id \<times> type_id) set" where
  "asks st = {(t, c). \<exists>r. st_row st t = Some r \<and> c \<in> set (row_query_children st r)}"

definition blocks :: "store \<Rightarrow> published_classes \<Rightarrow> type_id \<Rightarrow> exhaustion \<Rightarrow> bool" where
  "blocks st published t reason \<longleftrightarrow>
     (\<exists>c. st_row st t = Some (Row_ClassInstance c) \<and> pc_published_class published (ci_class c) = Demand_Exhausted reason)"

lemma query_children_valid:
  assumes inv: "session_inv fx it" and r: "row_in it t = Some r" and c: "c \<in> set (row_query_children (it_store it) r)"
  shows "valid it c"
proof -
  have "rows_closed it" and sc: "side_closed it" using inv by (simp_all add: session_inv_def)
  then have refs: "valid it x" if "x \<in> set (row_refs r)" for x using that r by (simp add: rows_closed_def row_closed_def)
  have "c \<in> set (row_refs r) \<or> (\<exists>p. type_param_constraint (it_store it) p = Some c)"
    using c by (cases r) (auto simp: row_refs_def opt_ids_def split: option.splits)
  then show ?thesis using refs sc unfolding side_closed_def by blast
qed

text \<open>
  What holds while the walk runs: everything visited is reachable and published, and what it asks
  for is visited, clean or on the stack.
\<close>

definition walked :: "interner \<Rightarrow> published_classes \<Rightarrow> type_id set \<Rightarrow> type_id list \<Rightarrow> type_id list \<Rightarrow> type_id list \<Rightarrow> bool" where
  "walked it published clean roots stack seen \<longleftrightarrow>
     (\<forall>t \<in> set stack \<union> set seen. valid it t \<and> (\<exists>root \<in> set roots. (root, t) \<in> (asks (it_store it))\<^sup>*)) \<and>
     (\<forall>t \<in> set seen. \<forall>reason. \<not> blocks (it_store it) published t reason) \<and>
     (\<forall>t \<in> set seen. \<forall>c. (t, c) \<in> asks (it_store it) \<longrightarrow> c \<in> set seen \<union> clean \<union> set stack) \<and>
     set roots \<subseteq> set seen \<union> clean \<union> set stack \<and> distinct seen"

definition clean_types :: "store \<Rightarrow> published_classes \<Rightarrow> type_id set \<Rightarrow> bool" where
  "clean_types st published clean \<longleftrightarrow>
     (\<forall>t \<in> clean. (\<forall>reason. \<not> blocks st published t reason) \<and> (\<forall>c. (t, c) \<in> asks st \<longrightarrow> c \<in> clean))"

lemma clean_reach: "(t, u) \<in> (asks st)\<^sup>* \<Longrightarrow> clean_types st published clean \<Longrightarrow> t \<in> clean \<Longrightarrow> u \<in> clean"
  by (induction rule: rtrancl_induct) (auto simp: clean_types_def)

lemma publication_walk_spec:
  assumes inv: "session_inv fx it" and clean: "clean_types (it_store it) published (fset clean)"
  shows "walked it published (fset clean) roots stack seen \<Longrightarrow>
    \<exists>found. publication_walk (it_store it) published clean stack seen = Some found \<and>
      (case found of
         Inl reason \<Rightarrow> \<exists>root \<in> set roots. \<exists>t. (root, t) \<in> (asks (it_store it))\<^sup>* \<and> blocks (it_store it) published t reason
       | Inr seen' \<Rightarrow> walked it published (fset clean) roots [] seen')"
proof (induction "card (UNIV :: type_id set) - length seen" arbitrary: stack seen rule: less_induct)
  case outer: less
  show ?case using outer.prems
  proof (induction stack)
    case Nil
    then show ?case by (subst publication_walk.simps) simp
  next
    case (Cons ty stack)
    have st: "store_inv (it_store it)" using session_parts(5) [OF inv] .
    show ?case
    proof (cases "ty |\<in>| clean \<or> ty \<in> set seen")
      case True
      then have "walked it published (fset clean) roots stack seen" using Cons.prems by (auto simp: walked_def)
      from Cons.IH [OF this] True show ?thesis by (subst publication_walk.simps) simp
    next
      case False
      from Cons.prems obtain r where r: "row_in it ty = Some r" by (auto simp: walked_def)
      then have r': "st_row (it_store it) ty = Some r" by (simp add: row_in_def)
      note acc = class_instance_row [OF st r'] query_children_row [OF st r']
      from Cons.prems obtain root where root: "root \<in> set roots" "(root, ty) \<in> (asks (it_store it))\<^sup>*" by (auto simp: walked_def)
      let ?inst = "case r of Row_ClassInstance c \<Rightarrow> Some c | _ \<Rightarrow> None"
      have blk: "blocks (it_store it) published ty reason \<longleftrightarrow> class_exhaustion published ?inst = Some reason" for reason
        using r' by (cases r) (auto simp: blocks_def class_exhaustion_def split: demand_outcome.splits)
      show ?thesis
      proof (cases "class_exhaustion published ?inst")
        case (Some reason)
        then show ?thesis using False acc blk root by (subst publication_walk.simps) auto
      next
        case None
        let ?cs = "row_query_children (it_store it) r"
        have edge: "(ty, c) \<in> asks (it_store it) \<longleftrightarrow> c \<in> set ?cs" for c using r' by (simp add: asks_def)
        have w: "walked it published (fset clean) roots (rev ?cs @ stack) (ty # seen)"
          unfolding walked_def
        proof (intro conjI)
          show "\<forall>t \<in> set (rev ?cs @ stack) \<union> set (ty # seen). valid it t \<and> (\<exists>root \<in> set roots. (root, t) \<in> (asks (it_store it))\<^sup>*)"
            using Cons.prems query_children_valid [OF inv r] root edge
            by (fastforce simp: walked_def intro: rtrancl.rtrancl_into_rtrancl)
        qed (use Cons.prems False None blk edge in \<open>auto simp: walked_def\<close>)
        have "length seen < card (UNIV :: type_id set)"
        proof -
          have "distinct (ty # seen)" using Cons.prems False by (simp add: walked_def)
          then have "card (set (ty # seen)) = Suc (length seen)" by (simp add: distinct_card [symmetric])
          moreover have "card (set (ty # seen)) \<le> card (UNIV :: type_id set)" by (rule card_mono) simp_all
          ultimately show ?thesis by simp
        qed
        then have "card (UNIV :: type_id set) - length (ty # seen) < card (UNIV :: type_id set) - length seen" by simp
        from outer.hyps [OF this w] show ?thesis using False acc None by (subst publication_walk.simps) simp
      qed
    qed
  qed
qed


lemma walked_clean:
  assumes "walked it published clean roots [] seen" "clean_types (it_store it) published clean"
  shows "clean_types (it_store it) published (clean \<union> set seen)" "set roots \<subseteq> clean \<union> set seen"
  using assms by (auto simp: walked_def clean_types_def)

section \<open>Correctness\<close>

text \<open>The clean set is exact for the context it was computed in.\<close>

definition clean_exact :: "store \<Rightarrow> published_classes \<Rightarrow> semantic_query_state \<Rightarrow> bool" where
  "clean_exact st published qs \<longleftrightarrow>
     (qs_store_identity qs = Some (st_semantic_graph_identity st) \<and> qs_snapshot_identity qs = Some (pc_identity published) \<longrightarrow>
      clean_types st published (fset (qs_publication_clean qs)))"

lemma refresh_clean:
  assumes "clean_exact st published qs"
  defines "qs' \<equiv> refresh_semantic_context st published qs"
  shows "qs_store_identity qs' = Some (st_semantic_graph_identity st)" "qs_snapshot_identity qs' = Some (pc_identity published)"
    "clean_types st published (fset (qs_publication_clean qs'))"
  using assms
  by (auto simp: refresh_semantic_context_def refresh_context_def reset_context_def qs_record_def Let_def clean_exact_def clean_types_def)

lemma mark_each_clean_fields:
  "fset (qs_publication_clean (mark_each_clean seen qs)) = fset (qs_publication_clean qs) \<union> set seen"
  "qs_store_identity (mark_each_clean seen qs) = qs_store_identity qs"
  "qs_snapshot_identity (mark_each_clean seen qs) = qs_snapshot_identity qs"
  by (induction seen arbitrary: qs) auto

lemma mark_publication_clean_fields:
  "fset (qs_publication_clean (mark_publication_clean seen qs)) = fset (qs_publication_clean qs) \<union> set seen"
  "qs_store_identity (mark_publication_clean seen qs) = qs_store_identity qs"
  "qs_snapshot_identity (mark_publication_clean seen qs) = qs_snapshot_identity qs"
  by (simp_all add: mark_publication_clean_def mark_each_clean_fields fset_of_list.rep_eq)

text \<open>
  C25: the publication check answers by reachability. On a session's arena and from a state whose
  clean set is exact, it returns; it answers "clean" if and only if no application of an unpublished
  or poisoned class can be reached from the roots, a reason it gives is the one of a reachable class,
  and the state it leaves has an exact clean set again, so that the shortcut never changes an answer.
\<close>

theorem publication_exhaustion_exact:
  assumes inv: "session_inv fx it" and roots: "\<forall>t \<in> set roots. row_in it t \<noteq> None"
    and exact: "clean_exact (it_store it) published qs"
  shows "\<exists>result qs'. publication_exhaustion (it_store it) roots published qs = Some (result, qs') \<and>
    (result = None \<longleftrightarrow> (\<forall>root \<in> set roots. \<forall>t reason. (root, t) \<in> (asks (it_store it))\<^sup>* \<longrightarrow> \<not> blocks (it_store it) published t reason)) \<and>
    (\<forall>reason. result = Some reason \<longrightarrow>
       (\<exists>root \<in> set roots. \<exists>t. (root, t) \<in> (asks (it_store it))\<^sup>* \<and> blocks (it_store it) published t reason)) \<and>
    clean_exact (it_store it) published qs'"
proof -
  let ?st = "it_store it"
  define qs1 where "qs1 = refresh_semantic_context ?st published qs"
  note fresh = refresh_clean [OF exact, folded qs1_def]
  have "walked it published (fset (qs_publication_clean qs1)) roots (rev roots) []"
    using roots by (auto simp: walked_def)
  from publication_walk_spec [OF inv fresh(3) this] obtain found where
    f: "publication_walk ?st published (qs_publication_clean qs1) (rev roots) [] = Some found"
    and c: "case found of Inl reason \<Rightarrow> \<exists>root \<in> set roots. \<exists>t. (root, t) \<in> (asks ?st)\<^sup>* \<and> blocks ?st published t reason
      | Inr seen' \<Rightarrow> walked it published (fset (qs_publication_clean qs1)) roots [] seen'" by blast
  show ?thesis
  proof (cases found)
    case (Inl reason)
    then have "publication_exhaustion ?st roots published qs = Some (Some reason, qs1)"
      using f by (simp add: publication_exhaustion_def qs1_def)
    with c Inl fresh show ?thesis by (auto simp: clean_exact_def)
  next
    case (Inr seen)
    let ?qs = "mark_publication_clean (rev seen) qs1" and ?C = "fset (qs_publication_clean qs1) \<union> set seen"
    have run: "publication_exhaustion ?st roots published qs = Some (None, ?qs)"
      using f Inr by (simp add: publication_exhaustion_def qs1_def)
    have w: "clean_types ?st published ?C" "set roots \<subseteq> ?C"
      using walked_clean [of it published "fset (qs_publication_clean qs1)" roots seen] c Inr fresh(3) by simp_all
    have "\<not> blocks ?st published t reason" if "root \<in> set roots" "(root, t) \<in> (asks ?st)\<^sup>*" for root t reason
      using clean_reach [OF that(2) w(1)] that(1) w by (auto simp: clean_types_def)
    moreover have "clean_exact ?st published ?qs" using w(1) by (simp add: clean_exact_def mark_publication_clean_fields)
    ultimately show ?thesis using run by blast
  qed
qed


section \<open>A session with a class application\<close>

text \<open>Interning a row no row matches appends it.\<close>

lemma next_session_appends:
  assumes s: "session (\<lambda>_. 0) it" and ok: "session_ok it (Session_Op (Op_Intern req))"
    and new: "\<And>r. r \<in> set (store_rows (it_store it)) \<Longrightarrow> \<not> row_matches r (request_row req)"
  shows "\<exists>r. row_key r = row_key (request_row req) \<and>
    store_rows (it_store (next_session it (Session_Op (Op_Intern req)))) = store_rows (it_store it) @ [r]"
proof -
  have i: "interner_inv (\<lambda>_. 0) it" "store_len (it_store it) < 2 ^ 32"
    using session_parts(1) [OF session_session_inv [OF s]] ok by simp_all
  from request_interned [OF i, of req] next_session(2) [OF s ok] obtain tid where
    "hash_consed (\<lambda>_. 0) it (request_row req) tid (next_session it (Session_Op (Op_Intern req)))" by auto
  then show ?thesis
  proof (cases rule: hash_consed_rows)
    case (found r')
    then have "r' \<in> set (store_rows (it_store it))" by (auto simp: row_in_def nth_opt_eq_Some)
    with new found(3) show ?thesis by blast
  qed blast
qed

definition session_class :: interner where
  "session_class = next_session initial (Session_Op (Op_Intern (Req_ClassInstance 7 [])))"

definition session_classes :: interner where
  "session_classes = next_session session_class (Session_Op (Op_Intern (Req_Array 19)))"

lemma session_class_rows:
  "session (\<lambda>_. 0) session_class"
  "store_rows (it_store session_class) = map Row_Intrinsic intrinsic_all @ [Row_ClassInstance \<lparr>ci_class = 7, ci_args = []\<rparr>]"
proof -
  have s: "session (\<lambda>_. 0) initial" by (rule session.start [OF initial_start])
  have ok: "session_ok initial (Session_Op (Op_Intern (Req_ClassInstance 7 [])))" by (simp add: initial_len row_refs_def)
  show "session (\<lambda>_. 0) session_class" unfolding session_class_def by (rule next_session(1) [OF s ok])
  have "\<not> row_matches r (request_row (Req_ClassInstance 7 []))" if "r \<in> set (store_rows (it_store initial))" for r
    using that by (auto simp: initial_facts(3) row_matches_def)
  from next_session_appends [OF s ok this] obtain r where
    r: "row_key r = row_key (Row_ClassInstance \<lparr>ci_class = 7, ci_args = []\<rparr>)"
      "store_rows (it_store session_class) = store_rows (it_store initial) @ [r]" by (auto simp: session_class_def)
  from r(1) have "r = Row_ClassInstance \<lparr>ci_class = 7, ci_args = []\<rparr>" by (cases r) (auto simp: object_key_def)
  with r(2) show "store_rows (it_store session_class) = map Row_Intrinsic intrinsic_all @ [Row_ClassInstance \<lparr>ci_class = 7, ci_args = []\<rparr>]"
    by (simp add: initial_facts(3))
qed

lemma session_classes_rows:
  "session (\<lambda>_. 0) session_classes" "row_in session_classes 19 = Some (Row_ClassInstance \<lparr>ci_class = 7, ci_args = []\<rparr>)"
  "row_in session_classes 20 = Some (Row_Array 19)"
proof -
  note rows = session_class_rows(2) and s = session_class_rows(1)
  have len: "store_len (it_store session_class) = 20" using arg_cong [OF rows, of length] by (simp add: intrinsic_all_def)
  have ok: "session_ok session_class (Session_Op (Op_Intern (Req_Array 19)))"
    by (simp add: row_refs_def len valid_iff del: not_None_eq)
  show "session (\<lambda>_. 0) session_classes" unfolding session_classes_def by (rule next_session(1) [OF s ok])
  have "\<not> row_matches r (request_row (Req_Array 19))" if "r \<in> set (store_rows (it_store session_class))" for r
    using that by (auto simp: rows row_matches_def)
  from next_session_appends [OF s ok this] obtain r where
    r: "row_key r = row_key (Row_Array 19)" "store_rows (it_store session_classes) = store_rows (it_store session_class) @ [r]"
    by (auto simp: session_classes_def)
  from r(1) have "r = Row_Array 19" by (cases r) (auto simp: object_key_def)
  with r(2) show "row_in session_classes 19 = Some (Row_ClassInstance \<lparr>ci_class = 7, ci_args = []\<rparr>)"
    "row_in session_classes 20 = Some (Row_Array 19)"
    by (simp_all add: row_in_def rows nth_opt_def intrinsic_all_def)
qed

theorem publication_exhaustion_exact_witness:
  "\<exists>qs'. publication_exhaustion (it_store session_classes) [20] sample_publication qs_default =
     Some (Some (Exhaust_ClassInitializerPoison 7), qs')"
proof -
  let ?st = "it_store session_classes"
  have rows: "st_row ?st 19 = Some (Row_ClassInstance \<lparr>ci_class = 7, ci_args = []\<rparr>)" "st_row ?st 20 = Some (Row_Array 19)"
    using session_classes_rows(2,3) by (simp_all add: row_in_st_row)
  have e20: "(20, c) \<in> asks ?st \<longleftrightarrow> c = 19" and e19: "(19, c) \<notin> asks ?st" for c by (simp_all add: asks_def rows [simplified])
  have reach: "(20, t) \<in> (asks ?st)\<^sup>* \<longleftrightarrow> t \<in> {20, 19}" for t
  proof
    show "(20, t) \<in> (asks ?st)\<^sup>* \<Longrightarrow> t \<in> {20, 19}" by (induction rule: rtrancl_induct) (use e20 e19 in auto)
    show "t \<in> {20, 19} \<Longrightarrow> (20, t) \<in> (asks ?st)\<^sup>*" using e20 by auto
  qed
  have pub: "pc_published_class sample_publication 7 = Demand_Exhausted (Exhaust_ClassInitializerPoison 7)"
    by (simp add: pc_published_class_def pc_require_def sample_publication_def lm_from_get fmlookup_of_list)
  have blk: "blocks ?st sample_publication t reason \<longleftrightarrow> t = 19 \<and> reason = Exhaust_ClassInitializerPoison 7" if "t \<in> {20, 19}" for t reason
    using that pub by (auto simp: blocks_def rows [simplified])
  have "clean_exact ?st sample_publication qs_default" by (simp add: clean_exact_def qs_default_def)
  moreover have "\<forall>t \<in> set [20]. row_in session_classes t \<noteq> None" using session_classes_rows(3) by simp
  ultimately obtain result qs' where
    r: "publication_exhaustion ?st [20] sample_publication qs_default = Some (result, qs')"
      "result = None \<longleftrightarrow> (\<forall>t reason. (20, t) \<in> (asks ?st)\<^sup>* \<longrightarrow> \<not> blocks ?st sample_publication t reason)"
      "\<forall>reason. result = Some reason \<longrightarrow> (\<exists>t. (20, t) \<in> (asks ?st)\<^sup>* \<and> blocks ?st sample_publication t reason)"
    using publication_exhaustion_exact [OF session_session_inv [OF session_classes_rows(1)], of "[20]" sample_publication qs_default] by auto
  have "result \<noteq> None" using r(2) reach [of 19] blk [of 19 "Exhaust_ClassInitializerPoison 7"] by auto
  then obtain reason where res: "result = Some reason" by blast
  with r(3) obtain t where "(20, t) \<in> (asks ?st)\<^sup>*" "blocks ?st sample_publication t reason" by blast
  then have "reason = Exhaust_ClassInitializerPoison 7" using reach [of t] blk [of t reason] by blast
  with r(1) res show ?thesis by blast
qed

end
