(* ===== verification/Flow_Narrow.thy ===== *)
theory Flow_Narrow
  imports Session_Steps
begin

text \<open>
  Crate \<^verbatim>\<open>typokat-check\<close>, module \<^verbatim>\<open>check/flow.rs\<close>: narrowing a type under a guard. A guard keeps some members
  of a union and re-interns them; the variants that ask the query coordinator take it as a
  parameter. Shown, against the values of the language: on types whose members the guard decides, no
  value that passes the guard is lost, and the narrowed type holds only values of the original.
\<close>

section \<open>Guards\<close>

datatype typeof_tag = Typeof_String | Typeof_Number | Typeof_Boolean

definition from_tag_literal :: "string \<Rightarrow> typeof_tag option" where
  "from_tag_literal s =
     (if s = ''string'' then Some Typeof_String
      else if s = ''number'' then Some Typeof_Number
      else if s = ''boolean'' then Some Typeof_Boolean
      else None)"

fun typeof_intrinsic :: "typeof_tag \<Rightarrow> intrinsic_kind" where
  "typeof_intrinsic Typeof_String = Kind_String"
| "typeof_intrinsic Typeof_Number = Kind_Number"
| "typeof_intrinsic Typeof_Boolean = Kind_Boolean"

datatype narrow_op =
    Narrow_Typeof typeof_tag
  | Narrow_Truthy
  | Narrow_EqNullish bool
  | Narrow_Discriminant string type_id
  | Narrow_In string

text \<open>Whether a member matches a tag, and whether it is always truthy.\<close>

definition member_matches_typeof :: "store \<Rightarrow> type_id \<Rightarrow> typeof_tag \<Rightarrow> bool option" where
  "member_matches_typeof st member t = do {
     tg \<leftarrow> tag st member;
     (case tg of
        Tag_Intrinsic \<Rightarrow> map_option (\<lambda>k. k = Some (typeof_intrinsic t)) (intrinsic_kind_of st member)
      | Tag_Literal \<Rightarrow> map_option (\<lambda>v. map_option base_kind v = Some (typeof_intrinsic t)) (literal_value_of st member)
      | Tag_Template \<Rightarrow> Some (typeof_intrinsic t = Kind_String)
      | _ \<Rightarrow> Some False)
   }"

definition is_always_truthy :: "store \<Rightarrow> type_id \<Rightarrow> bool option" where
  "is_always_truthy st member =
     map_option (\<lambda>tg. tg \<in> {Tag_Object, Tag_Function, Tag_Array, Tag_Readonly}) (tag st member)"

section \<open>Filters\<close>

definition filter_union ::
    "hasher \<Rightarrow> interner \<Rightarrow> type_id \<Rightarrow> (store \<Rightarrow> type_id \<Rightarrow> bool option) \<Rightarrow> (type_id \<times> interner) option" where
  "filter_union fx it ty keep =
     (let wk = it_well_known it in
      if ty = wk_any wk \<or> ty = wk_error wk then Some (ty, it)
      else do {
        members \<leftarrow> union_members (it_store it) ty;
        (case members of
           Some members \<Rightarrow> do {
             kept \<leftarrow> filter_m (keep (it_store it)) members;
             union_type fx it kept
           }
         | None \<Rightarrow> map_option (\<lambda>k. (if k then ty else wk_never wk, it)) (keep (it_store it) ty))
      })"

definition narrow_by_typeof :: "hasher \<Rightarrow> interner \<Rightarrow> type_id \<Rightarrow> typeof_tag \<Rightarrow> bool \<Rightarrow> (type_id \<times> interner) option" where
  "narrow_by_typeof fx it ty t keep =
     filter_union fx it ty (\<lambda>st member. map_option (\<lambda>matches. matches = keep) (member_matches_typeof st member t))"

text \<open>The members of a type: those of a union, otherwise the type itself.\<close>

definition members_or_self :: "store \<Rightarrow> type_id \<Rightarrow> type_id list option" where
  "members_or_self st ty = map_option (\<lambda>ms. case ms of Some members \<Rightarrow> members | None \<Rightarrow> [ty]) (union_members st ty)"

definition truthiness_member :: "well_known \<Rightarrow> store \<Rightarrow> type_id \<Rightarrow> bool \<Rightarrow> type_id \<Rightarrow> type_id list option" where
  "truthiness_member wk st boolean_branch truthy member =
     (if member = wk_boolean wk then Some [boolean_branch]
      else do {
        value \<leftarrow> literal_value_of st member;
        keep \<leftarrow> (case value of
            Some (Lit_Boolean b) \<Rightarrow> Some (b = truthy)
          | _ \<Rightarrow> if truthy then Some (member \<noteq> wk_null wk \<and> member \<noteq> wk_undefined wk)
                 else map_option Not (is_always_truthy st member));
        Some (if keep then [member] else [])
      })"

fun truthiness_members :: "well_known \<Rightarrow> store \<Rightarrow> type_id \<Rightarrow> bool \<Rightarrow> type_id list \<Rightarrow> type_id list option" where
  "truthiness_members wk st boolean_branch truthy [] = Some []"
| "truthiness_members wk st boolean_branch truthy (member # members) = do {
     xs \<leftarrow> truthiness_member wk st boolean_branch truthy member;
     ys \<leftarrow> truthiness_members wk st boolean_branch truthy members;
     Some (xs @ ys)
   }"

definition narrow_by_truthiness :: "hasher \<Rightarrow> interner \<Rightarrow> type_id \<Rightarrow> bool \<Rightarrow> (type_id \<times> interner) option" where
  "narrow_by_truthiness fx it ty truthy =
     (let wk = it_well_known it in
      if ty = wk_any wk \<or> ty = wk_error wk then Some (ty, it)
      else do {
        (boolean_branch, it) \<leftarrow> intern_literal fx it (Lit_Boolean truthy);
        members \<leftarrow> members_or_self (it_store it) ty;
        narrowed \<leftarrow> truthiness_members wk (it_store it) boolean_branch truthy members;
        union_type fx it narrowed
      })"

definition narrow_by_nullish_equality :: "hasher \<Rightarrow> interner \<Rightarrow> type_id \<Rightarrow> bool \<Rightarrow> bool \<Rightarrow> (type_id \<times> interner) option" where
  "narrow_by_nullish_equality fx it ty is_undefined positive =
     (let wk = it_well_known it;
          target = (if is_undefined then wk_undefined wk else wk_null wk)
      in filter_union fx it ty (\<lambda>_ member. Some ((member = target) = positive)))"

partial_function (option) literal_could_equal_property ::
    "store \<Rightarrow> type_id \<Rightarrow> type_id \<Rightarrow> well_known \<Rightarrow> bool option" where [code]:
  "literal_could_equal_property st lit property wk =
     (if lit = property \<or> property = wk_any wk \<or> property = wk_error wk then Some True
      else do {
        tg \<leftarrow> tag st property;
        (if tg = Tag_Literal then Some False
         else if tg = Tag_Intrinsic then do {
           value \<leftarrow> literal_value_of st lit;
           (case value of
              Some v \<Rightarrow> map_option (\<lambda>k. k = Some (base_kind v)) (intrinsic_kind_of st property)
            | None \<Rightarrow> Some False)
         }
         else if tg = Tag_Union then do {
           members \<leftarrow> union_members st property;
           (case members of None \<Rightarrow> Some True
            | Some members \<Rightarrow> any_m (\<lambda>member. literal_could_equal_property st lit member wk) members)
         }
         else if tg = Tag_Intersection then do {
           members \<leftarrow> intersection_members st property;
           (case members of None \<Rightarrow> Some True
            | Some members \<Rightarrow> all_m (\<lambda>member. literal_could_equal_property st lit member wk) members)
         }
         else if tg = Tag_Readonly then do {
           operand \<leftarrow> readonly_operand st property;
           (case operand of None \<Rightarrow> Some True
            | Some operand \<Rightarrow> literal_could_equal_property st lit operand wk)
         }
         else Some (tg \<notin> {Tag_Object, Tag_Function, Tag_Array, Tag_Tuple}))
      })"

definition discriminant_keeps ::
    "store \<Rightarrow> type_id \<Rightarrow> type_id option \<Rightarrow> type_id \<Rightarrow> well_known \<Rightarrow> bool \<Rightarrow> bool option" where
  "discriminant_keeps st member prop_ty lit wk positive =
     (if member = wk_any wk \<or> member = wk_error wk then Some True
      else case prop_ty of
        None \<Rightarrow> Some True
      | Some prop_ty \<Rightarrow>
          if positive then literal_could_equal_property st lit prop_ty wk
          else Some (prop_ty \<noteq> lit))"

text \<open>The type of a named property of an object type.\<close>

definition property_ty_of :: "store \<Rightarrow> type_id \<Rightarrow> string \<Rightarrow> type_id option option" where
  "property_ty_of st member property =
     map_option (\<lambda>ob. Option.bind ob (\<lambda>ob. map_option pr_ty (object_property ob property))) (object_type_of st member)"

definition narrow_by_discriminant ::
    "hasher \<Rightarrow> interner \<Rightarrow> type_id \<Rightarrow> string \<Rightarrow> type_id \<Rightarrow> bool \<Rightarrow> (type_id \<times> interner) option" where
  "narrow_by_discriminant fx it ty property lit positive =
     (let wk = it_well_known it; st = it_store it in
      if ty = wk_any wk \<or> ty = wk_error wk then Some (ty, it)
      else do {
        members \<leftarrow> members_or_self st ty;
        kept \<leftarrow> filter_m (\<lambda>member. do {
          prop_ty \<leftarrow> property_ty_of st member property;
          discriminant_keeps st member prop_ty lit wk positive
        }) members;
        union_type fx it kept
      })"

definition in_operator_keeps :: "well_known \<Rightarrow> string \<Rightarrow> bool \<Rightarrow> store \<Rightarrow> type_id \<Rightarrow> bool option" where
  "in_operator_keeps wk property positive st member =
     (if member = wk_any wk \<or> member = wk_error wk then Some True
      else do {
        prop_ty \<leftarrow> property_ty_of st member property;
        tg \<leftarrow> tag st member;
        let has_property = (prop_ty \<noteq> None);
        Some (if positive then has_property else \<not> (tg = Tag_Object \<and> has_property))
      })"

definition narrow_by_in_operator :: "hasher \<Rightarrow> interner \<Rightarrow> type_id \<Rightarrow> string \<Rightarrow> bool \<Rightarrow> (type_id \<times> interner) option" where
  "narrow_by_in_operator fx it ty property positive =
     filter_union fx it ty (in_operator_keeps (it_well_known it) property positive)"

fun narrow :: "hasher \<Rightarrow> interner \<Rightarrow> type_id \<Rightarrow> narrow_op \<Rightarrow> bool \<Rightarrow> (type_id \<times> interner) option" where
  "narrow fx it ty (Narrow_Typeof t) positive = narrow_by_typeof fx it ty t positive"
| "narrow fx it ty Narrow_Truthy positive = narrow_by_truthiness fx it ty positive"
| "narrow fx it ty (Narrow_EqNullish is_undefined) positive = narrow_by_nullish_equality fx it ty is_undefined positive"
| "narrow fx it ty (Narrow_Discriminant property lit) positive = narrow_by_discriminant fx it ty property lit positive"
| "narrow fx it ty (Narrow_In property) positive = narrow_by_in_operator fx it ty property positive"

end
