(* ===== verification/Flow_Values.thy ===== *)
theory Flow_Values
  imports Flow_Narrow
begin

text \<open>
  The values of the language as the members of types, and what the guards of
  \<^verbatim>\<open>check/flow.rs\<close> mean on them. A type of the interner stands for a set of values: the primitives by
  kind, literals by strict equality, unions and intersections by their members, objects by the
  values of their properties in a heap. Types the model does not evaluate (type parameters, deferred
  rows) hold every value.
\<close>

section \<open>Values of a type\<close>

type_synonym js_heap = "js_value \<Rightarrow> string \<Rightarrow> js_value option"

fun kind_holds :: "intrinsic_kind \<Rightarrow> js_value \<Rightarrow> bool" where
  "kind_holds Kind_Null v \<longleftrightarrow> v = Val_Null"
| "kind_holds Kind_Undefined v \<longleftrightarrow> v = Val_Undefined"
| "kind_holds Kind_Void v \<longleftrightarrow> v = Val_Undefined"
| "kind_holds Kind_Never v \<longleftrightarrow> False"
| "kind_holds Kind_Boolean v \<longleftrightarrow> value_domain v = Domain_Boolean"
| "kind_holds Kind_Number v \<longleftrightarrow> value_domain v = Domain_Number"
| "kind_holds Kind_String v \<longleftrightarrow> value_domain v = Domain_String"
| "kind_holds Kind_BigInt v \<longleftrightarrow> value_domain v = Domain_BigInt"
| "kind_holds Kind_Symbol v \<longleftrightarrow> value_domain v = Domain_Symbol"
| "kind_holds Kind_Object v \<longleftrightarrow> value_domain v = Domain_NonPrimitive"
| "kind_holds _ v \<longleftrightarrow> True"

definition property_holds :: "(js_value \<Rightarrow> type_id \<Rightarrow> bool) \<Rightarrow> js_heap \<Rightarrow> js_value \<Rightarrow> property_type \<Rightarrow> bool" where
  "property_holds P h v p \<longleftrightarrow> (case key_as_string (pr_key p) of None \<Rightarrow> True
     | Some name \<Rightarrow> (case h v name of None \<Rightarrow> pr_optional p | Some w \<Rightarrow> P w (pr_ty p)))"

fun row_holds :: "(js_value \<Rightarrow> type_id \<Rightarrow> bool) \<Rightarrow> js_heap \<Rightarrow> js_value \<Rightarrow> ty_row \<Rightarrow> bool" where
  "row_holds P h v (Row_Intrinsic k) \<longleftrightarrow> kind_holds k v"
| "row_holds P h v (Row_Literal l) \<longleftrightarrow> equals_literal v l"
| "row_holds P h v (Row_Union ms) \<longleftrightarrow> (\<exists>m \<in> set ms. P v m)"
| "row_holds P h v (Row_Intersection ms) \<longleftrightarrow> (\<forall>m \<in> set ms. P v m)"
| "row_holds P h v (Row_Object ob) \<longleftrightarrow> value_domain v = Domain_NonPrimitive \<and> (\<forall>p \<in> set (ob_properties ob). property_holds P h v p)"
| "row_holds P h v (Row_Function _) \<longleftrightarrow> value_domain v = Domain_NonPrimitive"
| "row_holds P h v (Row_Array _) \<longleftrightarrow> value_domain v = Domain_NonPrimitive"
| "row_holds P h v (Row_Tuple _) \<longleftrightarrow> value_domain v = Domain_NonPrimitive"
| "row_holds P h v (Row_Readonly _) \<longleftrightarrow> value_domain v = Domain_NonPrimitive"
| "row_holds P h v (Row_Template _) \<longleftrightarrow> value_domain v = Domain_String"
| "row_holds P h v _ \<longleftrightarrow> True"

lemma row_holds_mono [mono]: "(\<And>w t. P w t \<longrightarrow> Q w t) \<Longrightarrow> row_holds P h v r \<longrightarrow> row_holds Q h v r"
  by (cases r) (auto simp: property_holds_def split: option.splits)

coinductive value_in :: "interner \<Rightarrow> js_heap \<Rightarrow> js_value \<Rightarrow> type_id \<Rightarrow> bool" for it h where
  value_inI: "row_in it t = Some r \<Longrightarrow> row_holds (value_in it h) h v r \<Longrightarrow> value_in it h v t"

inductive_simps value_in_iff: "value_in it h v t"

lemma value_in_row: "row_in it t = Some r \<Longrightarrow> value_in it h v t \<longleftrightarrow> row_holds (value_in it h) h v r"
  by (subst value_in_iff) simp

lemma property_holds_child:
  "property_holds P h v p \<Longrightarrow> (\<And>w. P w (pr_ty p) \<Longrightarrow> Q w (pr_ty p)) \<Longrightarrow> property_holds Q h v p"
  by (auto simp: property_holds_def split: option.splits)

lemma row_holds_children:
  assumes "row_holds P h v r" "\<And>w c. c \<in> set (row_targets r) \<Longrightarrow> P w c \<Longrightarrow> Q w c"
  shows "row_holds Q h v r"
proof (cases r)
  case (Row_Object ob)
  have "property_holds Q h v p" if "p \<in> set (ob_properties ob)" "property_holds P h v p" for p
    using that(2) by (rule property_holds_child) (use that(1) assms(2) Row_Object in auto)
  with assms(1) Row_Object show ?thesis by simp
qed (use assms in auto)

text \<open>The values of a type depend only on the rows the type reaches.\<close>

definition rows_kept :: "interner \<Rightarrow> interner \<Rightarrow> bool" where
  "rows_kept it it' \<longleftrightarrow> (\<forall>i r. row_in it i = Some r \<longrightarrow> row_in it' i = Some r)"

lemma rows_closed_target: "rows_closed it \<Longrightarrow> row_in it t = Some r \<Longrightarrow> c \<in> set (row_targets r) \<Longrightarrow> valid it c"
  unfolding rows_closed_def row_closed_def row_refs_def by fastforce

lemma value_in_kept:
  assumes closed: "rows_closed it" and keep: "rows_kept it it'" and t: "valid it t"
  shows "value_in it' h v t \<longleftrightarrow> value_in it h v t"
proof
  assume "value_in it' h v t"
  with t show "value_in it h v t"
  proof (coinduction arbitrary: v t rule: value_in.coinduct)
    case (value_in v t)
    then obtain r where r: "row_in it t = Some r" by blast
    with keep have "row_in it' t = Some r" by (simp add: rows_kept_def)
    with value_in have "row_holds (value_in it' h) h v r" by (simp add: value_in_row)
    then have "row_holds (\<lambda>w c. (\<exists>v t. w = v \<and> c = t \<and> valid it t \<and> value_in it' h v t) \<or> value_in it h w c) h v r"
      by (rule row_holds_children) (use rows_closed_target [OF closed r] in blast)
    with r show ?case by auto
  qed
next
  assume "value_in it h v t"
  then show "value_in it' h v t"
  proof (coinduction arbitrary: v t rule: value_in.coinduct)
    case (value_in v t)
    then obtain r where r: "row_in it t = Some r" "row_holds (value_in it h) h v r" by (auto simp: value_in_iff [of it h v t])
    from r(2) have "row_holds (\<lambda>w c. (\<exists>v t. w = v \<and> c = t \<and> value_in it h v t) \<or> value_in it' h w c) h v r"
      by (rule row_holds_children) blast
    with r(1) keep show ?case by (auto simp: rows_kept_def)
  qed
qed


section \<open>Growing the interner\<close>

definition grown :: "hasher \<Rightarrow> interner \<Rightarrow> interner \<Rightarrow> bool" where
  "grown fx it it' \<longleftrightarrow> session_inv fx it' \<and> it_well_known it' = it_well_known it \<and> rows_kept it it' \<and>
     store_len (it_store it) \<le> store_len (it_store it')"

lemma grown_refl: "session_inv fx it \<Longrightarrow> grown fx it it"
  by (simp add: grown_def rows_kept_def)

lemma grown_trans: "grown fx a b \<Longrightarrow> grown fx b c \<Longrightarrow> grown fx a c"
  by (auto simp: grown_def rows_kept_def)

lemma grown_valid: "grown fx it it' \<Longrightarrow> valid it t \<Longrightarrow> valid it' t"
  by (auto simp: grown_def rows_kept_def)

lemma grown_row: "grown fx it it' \<Longrightarrow> row_in it t = Some r \<Longrightarrow> row_in it' t = Some r"
  by (simp add: grown_def rows_kept_def)

lemma grown_values: "session_inv fx it \<Longrightarrow> grown fx it it' \<Longrightarrow> valid it t \<Longrightarrow> value_in it' h v t \<longleftrightarrow> value_in it h v t"
  by (rule value_in_kept) (simp_all add: session_parts grown_def)

lemma rows_kept_len:
  assumes "session_inv fx it" "rows_kept it it'"
  shows "store_len (it_store it) \<le> store_len (it_store it')"
proof (cases "store_len (it_store it)")
  case (Suc n)
  have "n < 2 ^ 32" using assms(1) Suc by (simp add: session_inv_def machine_inv_def interner_inv_def)
  then have "unat (word_of_nat n :: type_id) = n" by (simp add: unat_of_nat take_bit_nat_eq_self_iff)
  moreover from this Suc have "valid it (word_of_nat n)" by (simp only: valid_iff)
  then have "valid it' (word_of_nat n)" using assms(2) by (auto simp: rows_kept_def)
  ultimately show ?thesis using Suc by (simp only: valid_iff)
qed simp

text \<open>The members of a type, and the rows they may have.\<close>

definition members_are :: "interner \<Rightarrow> (ty_row \<Rightarrow> bool) \<Rightarrow> type_id \<Rightarrow> bool" where
  "members_are it R t \<longleftrightarrow> valid it t \<and> (t \<in> {wk_any (it_well_known it), wk_error (it_well_known it)} \<or>
     (\<forall>m \<in> union_set it t. \<exists>r. row_in it m = Some r \<and> R r))"

lemma wk_kinds:
  assumes "well_known_inv it"
  shows "row_in it (wk_any (it_well_known it)) = Some (Row_Intrinsic Kind_Any)"
    "row_in it (wk_error (it_well_known it)) = Some (Row_Intrinsic Kind_Error)"
    "row_in it (wk_never (it_well_known it)) = Some (Row_Intrinsic Kind_Never)"
    "row_in it (wk_unknown (it_well_known it)) = Some (Row_Intrinsic Kind_Unknown)"
    "row_in it (wk_null (it_well_known it)) = Some (Row_Intrinsic Kind_Null)"
    "row_in it (wk_undefined (it_well_known it)) = Some (Row_Intrinsic Kind_Undefined)"
    "row_in it (wk_boolean (it_well_known it)) = Some (Row_Intrinsic Kind_Boolean)"
  using assms [unfolded well_known_inv_def] by (metis well_known_of.simps)+

lemma expand_cases:
  assumes "session_inv fx it" "row_in it t = Some r"
  shows "union_expand it t = (case r of Row_Union ms \<Rightarrow> set ms | _ \<Rightarrow> {t})"
  using assms set_accessors(1) [OF session_parts(1) [OF assms(1)], of t]
  by (auto simp: expand_def union_row_def split: ty_row.splits)

lemma union_set_cases:
  assumes "session_inv fx it" "row_in it t = Some r"
  shows "union_set it t = (case r of Row_Union ms \<Rightarrow> set ms | Row_Intrinsic Kind_Never \<Rightarrow> union_set it t | _ \<Rightarrow> {t})"
  using expand_cases [OF assms] wk_kinds(3) [OF session_parts(3) [OF assms(1)]] assms(2)
  by (auto simp: union_set_def split: ty_row.splits intrinsic_kind.splits)

lemma union_member_plain:
  assumes inv: "session_inv fx it" and t: "row_in it t = Some (Row_Union ms)" and m: "m \<in> set ms"
  shows "\<exists>r. row_in it m = Some r \<and> union_row r = None"
proof -
  have fl: "members_flat it union_row" using session_parts(2) [OF inv] by (simp add: sets_inv_def)
  have "m \<in> union_expand it t" using expand_cases [OF inv t] m by simp
  then show ?thesis by (rule expand_flat [OF fl set_accessors(1) [OF session_parts(1) [OF inv]]]) (simp add: t)
qed

lemma values_of_members:
  assumes inv: "session_inv fx it" and t: "valid it t"
  shows "value_in it h v t \<longleftrightarrow> (\<exists>m \<in> union_set it t. value_in it h v m)"
proof -
  from t obtain r where r: "row_in it t = Some r" by blast
  have never: "\<not> value_in it h v (wk_never (it_well_known it))"
    using wk_kinds(3) [OF session_parts(3) [OF inv]] by (simp add: value_in_row)
  show ?thesis
    using never expand_cases [OF inv r] r by (cases r) (auto simp: union_set_def value_in_row)
qed


text \<open>The members a narrowing looks at.\<close>

definition member_list :: "interner \<Rightarrow> type_id \<Rightarrow> type_id list" where
  "member_list it ty = (case row_in it ty of Some (Row_Union ms) \<Rightarrow> ms | _ \<Rightarrow> [ty])"

lemma member_list_self:
  assumes "session_inv fx it" "valid it ty"
  shows "members_or_self (it_store it) ty = Some (member_list it ty)"
proof -
  from assms(2) obtain r where "row_in it ty = Some r" by blast
  then show ?thesis
    using set_accessors(1) [OF session_parts(1) [OF assms(1)], of ty]
    by (cases r) (simp_all add: members_or_self_def member_list_def union_row_def)
qed

lemma member_list_laws:
  assumes inv: "session_inv fx it" and ty: "valid it ty"
  shows "m \<in> set (member_list it ty) \<Longrightarrow> valid it m"
    and "value_in it h v ty \<longleftrightarrow> (\<exists>m \<in> set (member_list it ty). value_in it h v m)"
    and "m \<in> set (member_list it ty) \<Longrightarrow> union_set it m \<subseteq> union_set it ty"
proof -
  from ty obtain r where r: "row_in it ty = Some r" by blast
  show "m \<in> set (member_list it ty) \<Longrightarrow> valid it m"
    using rows_closed_target [OF session_parts(4) [OF inv] r] r by (cases r) (auto simp: member_list_def)
  show "value_in it h v ty \<longleftrightarrow> (\<exists>m \<in> set (member_list it ty). value_in it h v m)"
    using r by (cases r) (auto simp: member_list_def value_in_row)
  assume m: "m \<in> set (member_list it ty)"
  show "union_set it m \<subseteq> union_set it ty"
  proof (cases r)
    case (Row_Union ms)
    then have ms: "m \<in> set ms" "union_set it ty = set ms" using m r union_set_cases [OF inv r] by (simp_all add: member_list_def)
    from union_member_plain [OF inv r [unfolded Row_Union] ms(1)] obtain r' where
      r': "row_in it m = Some r'" "union_row r' = None" by blast
    with expand_cases [OF inv r'(1)] ms show ?thesis by (cases r') (auto simp: union_set_def union_row_def)
  qed (use m r in \<open>simp_all add: member_list_def\<close>)
qed

lemma members_are_member:
  assumes "session_inv fx it" "members_are it R ty" "ty \<notin> {wk_any (it_well_known it), wk_error (it_well_known it)}"
    "m \<in> set (member_list it ty)"
  shows "members_are it R m"
proof -
  have "valid it ty" using assms(2) by (simp add: members_are_def)
  from member_list_laws(1,3) [OF assms(1) this] assms(2-) show ?thesis unfolding members_are_def by blast
qed

lemma members_are_grown:
  assumes inv: "session_inv fx it" and g: "grown fx it it'" and t: "members_are it R t"
  shows "members_are it' R t"
proof -
  have wk: "it_well_known it' = it_well_known it" and inv': "session_inv fx it'" using g by (simp_all add: grown_def)
  from t obtain r where r: "row_in it t = Some r" by (auto simp: members_are_def)
  have "union_set it' t = union_set it t"
    using expand_cases [OF inv r] expand_cases [OF inv' grown_row [OF g r]] by (simp add: union_set_def wk)
  then show ?thesis using t grown_row [OF g] grown_valid [OF g] unfolding members_are_def wk by blast
qed

lemma union_values:
  assumes inv: "session_inv fx it" and cap: "store_len (it_store it) < 2 ^ 32" and ms: "\<forall>m \<in> set ms. valid it m"
  shows "\<exists>tid it'. union_type fx it ms = Some (tid, it') \<and> grown fx it it' \<and> valid it' tid \<and>
    (\<forall>h v. value_in it' h v tid \<longleftrightarrow> (\<exists>m \<in> set ms. value_in it h v m)) \<and>
    (\<forall>R. (\<forall>m \<in> set ms. members_are it R m) \<longrightarrow> members_are it' R tid)"
proof -
  let ?wk = "it_well_known it" and ?M = "\<Union>m \<in> set ms. union_expand it m"
  note wk = wk_kinds [OF session_parts(3) [OF inv]]
  from union_total [OF session_parts(1-3) [OF inv] cap ms] obtain tid it' where
    u: "union_type fx it ms = Some (tid, it')" "set_result fx it tid it'"
    and c: "if wk_any ?wk \<in> ?M \<or> wk_error ?wk \<in> ?M then tid = wk_any ?wk
      else if wk_unknown ?wk \<in> ?M then tid = wk_unknown ?wk else union_set it' tid = ?M - {wk_never ?wk}" by blast
  have "session_ok it (Session_Op (Op_Union ms))" using cap ms by (simp add: list_all_iff)
  from session_progress [OF inv this] u(1) have inv': "session_inv fx it'" by auto
  have g: "grown fx it it'" and tid: "valid it' tid"
    using u(2) inv' rows_kept_len [OF inv] by (auto simp: set_result_def grown_def rows_kept_def)
  note same = grown_values [OF inv g] and wk' = wk_kinds [OF session_parts(3) [OF inv']]
  have eqwk: "it_well_known it' = ?wk" using g by (simp add: grown_def)
  have mem: "value_in it h v m \<longleftrightarrow> (\<exists>x \<in> union_expand it m. value_in it h v x)" if "m \<in> set ms" for h v m
  proof -
    from that ms obtain r where "row_in it m = Some r" by blast
    with expand_cases [OF inv this] show ?thesis by (cases r) (auto simp: value_in_row)
  qed
  have xvalid: "valid it x" if "x \<in> ?M" for x
    using that ms expand_flat [OF _ set_accessors(1) [OF session_parts(1) [OF inv]], of x] session_parts(2) [OF inv]
    by (fastforce simp: sets_inv_def)
  have tops: "value_in it h v (wk_any ?wk)" "value_in it h v (wk_error ?wk)" "value_in it h v (wk_unknown ?wk)"
      "\<not> value_in it h v (wk_never ?wk)" for h v using wk by (simp_all add: value_in_row)
  have val: "value_in it' h v tid \<longleftrightarrow> (\<exists>m \<in> set ms. value_in it h v m)" for h v
  proof -
    have "value_in it' h v tid \<longleftrightarrow> (\<exists>x \<in> ?M. value_in it h v x)"
    proof (cases "wk_any ?wk \<in> ?M \<or> wk_error ?wk \<in> ?M \<or> wk_unknown ?wk \<in> ?M")
      case True
      with c have "tid = wk_any ?wk \<or> tid = wk_unknown ?wk" by (auto split: if_splits)
      then have "value_in it' h v tid" using tops(1,3) same wk(1,4) by auto
      moreover have "\<exists>x \<in> ?M. value_in it h v x" using True tops(1-3) [of h v] by metis
      ultimately show ?thesis by blast
    next
      case False
      then have "union_set it' tid = ?M - {wk_never ?wk}" using c by simp
      then have "value_in it' h v tid \<longleftrightarrow> (\<exists>x \<in> ?M - {wk_never ?wk}. value_in it' h v x)"
        using values_of_members [OF inv' tid, of h v] by simp
      also have "\<dots> \<longleftrightarrow> (\<exists>x \<in> ?M - {wk_never ?wk}. value_in it h v x)" using same [OF xvalid] by blast
      finally show ?thesis using tops(4) by blast
    qed
    also have "\<dots> \<longleftrightarrow> (\<exists>m \<in> set ms. value_in it h v m)" using mem by blast
    finally show ?thesis .
  qed
  have "members_are it' R tid" if R: "\<forall>m \<in> set ms. members_are it R m" for R
  proof -
    have *: "\<exists>r. row_in it x = Some r \<and> R r" if "x \<in> ?M" "wk_any ?wk \<notin> ?M" "wk_error ?wk \<notin> ?M" "x \<noteq> wk_never ?wk" for x
    proof -
      from that(1) obtain m where m: "m \<in> set ms" "x \<in> union_expand it m" by blast
      have "m \<notin> {wk_any ?wk, wk_error ?wk}" using m that(2,3) expand_cases [OF inv wk(1)] expand_cases [OF inv wk(2)] by auto
      moreover have "x \<in> union_set it m" using m(2) that(4) expand_cases [OF inv wk(3)] by (auto simp: union_set_def)
      ultimately show ?thesis using R m(1) by (auto simp: members_are_def)
    qed
    show ?thesis
    proof (cases "wk_any ?wk \<in> ?M \<or> wk_error ?wk \<in> ?M")
      case True
      with c tid show ?thesis by (simp add: members_are_def eqwk)
    next
      case False
      have "union_set it' (wk_unknown ?wk) = {wk_unknown ?wk}"
        using union_set_cases [OF inv' wk'(4)] by (simp add: eqwk)
      moreover have "wk_unknown ?wk \<noteq> wk_never ?wk" using wk(3,4) by auto
      ultimately have "union_set it' tid \<subseteq> ?M - {wk_never ?wk}" using c False by (auto split: if_splits)
      then have "\<exists>r. row_in it' x = Some r \<and> R r" if "x \<in> union_set it' tid" for x
        using subsetD [OF _ that] * [of x] False grown_row [OF g, of x] by blast
      then show ?thesis using tid by (simp add: members_are_def)
    qed
  qed
  with u(1) g tid val show ?thesis by blast
qed

lemma filter_m_total:
  assumes "\<And>m. m \<in> set ms \<Longrightarrow> p m = Some (k m)"
  shows "filter_m p ms = Some (filter k ms)"
  using assms by (induction ms) auto

lemma filter_union_values:
  assumes inv: "session_inv fx it" and cap: "store_len (it_store it) < 2 ^ 32" and ty: "valid it ty"
    and keep: "\<And>m. valid it m \<Longrightarrow> keep (it_store it) m = Some (k m)"
  defines "wk \<equiv> it_well_known it"
  shows "\<exists>tid it'. filter_union fx it ty keep = Some (tid, it') \<and> grown fx it it' \<and> valid it' tid \<and>
    (ty \<notin> {wk_any wk, wk_error wk} \<longrightarrow>
       (\<forall>h v. value_in it' h v tid \<longleftrightarrow> (\<exists>m \<in> union_set it ty. k m \<and> value_in it h v m))) \<and>
    (ty \<in> {wk_any wk, wk_error wk} \<longrightarrow> tid = ty) \<and>
    (\<forall>R. members_are it R ty \<longrightarrow> members_are it' R tid)"
proof -
  note wkk = wk_kinds [OF session_parts(3) [OF inv], folded wk_def]
  from ty obtain r where r: "row_in it ty = Some r" by blast
  have acc: "union_members (it_store it) ty = Some (union_row r)"
    using set_accessors(1) [OF session_parts(1) [OF inv], of ty] r by simp
  consider (top) "ty \<in> {wk_any wk, wk_error wk}"
    | (set) ms where "r = Row_Union ms" "ty \<notin> {wk_any wk, wk_error wk}"
    | (single) "union_row r = None" "ty \<notin> {wk_any wk, wk_error wk}"
    by (cases r) (auto simp: union_row_def)
  then show ?thesis
  proof cases
    case top
    then show ?thesis using grown_refl [OF inv] ty by (auto simp: filter_union_def Let_def wk_def)
  next
    case (set ms)
    have mv: "\<forall>m \<in> set ms. valid it m" using rows_closed_target [OF session_parts(4) [OF inv] r] set(1) by auto
    have ms: "union_set it ty = set ms" using union_set_cases [OF inv r] set(1) by simp
    have "filter_union fx it ty keep = union_type fx it (filter k ms)"
      using set acc filter_m_total [of ms "keep (it_store it)" k] keep mv by (simp add: filter_union_def Let_def wk_def union_row_def)
    moreover have "members_are it R m" if "members_are it R ty" "m \<in> set ms" for R m
      using members_are_member [OF inv that(1)] that(2) set(2) r set(1) by (simp add: wk_def member_list_def)
    moreover from mv have "\<forall>m \<in> set (filter k ms). valid it m" by simp
    from union_values [OF inv cap this] obtain tid it' where "union_type fx it (filter k ms) = Some (tid, it')"
        "grown fx it it'" "valid it' tid" "\<forall>h v. value_in it' h v tid \<longleftrightarrow> (\<exists>m \<in> set (filter k ms). value_in it h v m)"
        "\<forall>R. (\<forall>m \<in> set (filter k ms). members_are it R m) \<longrightarrow> members_are it' R tid" by blast
    ultimately show ?thesis using ms set(2) by (intro exI [of _ tid] exI [of _ it']) (simp add: Bex_def conj_assoc)
  next
    case (single)
    have "filter_union fx it ty keep = Some (if k ty then ty else wk_never wk, it)"
      using single acc keep [OF ty] by (simp add: filter_union_def Let_def wk_def)
    moreover have "valid it (wk_never wk)" "union_set it (wk_never wk) = {}" using wkk(3) by (simp_all add: union_set_def wk_def)
    moreover have "\<not> value_in it h v (wk_never wk)" for h v using wkk(3) by (simp add: value_in_row)
    moreover have "union_set it ty = (if ty = wk_never wk then {} else {ty})"
      using single(1) expand_cases [OF inv r] by (auto simp: union_set_def wk_def union_row_def split: ty_row.splits)
    ultimately show ?thesis using single(2) grown_refl [OF inv] ty by (auto simp: members_are_def)
  qed
qed


section \<open>Guards on values\<close>

fun truthy :: "js_value \<Rightarrow> bool" where
  "truthy Val_Null \<longleftrightarrow> False"
| "truthy Val_Undefined \<longleftrightarrow> False"
| "truthy (Val_Boolean b) \<longleftrightarrow> b"
| "truthy (Val_Number x) \<longleftrightarrow> \<not> f64_is_zero x \<and> \<not> f64_is_nan x"
| "truthy (Val_String s) \<longleftrightarrow> s \<noteq> []"
| "truthy (Val_BigInt n) \<longleftrightarrow> n \<noteq> 0"
| "truthy _ \<longleftrightarrow> True"

fun typeof_domain :: "typeof_tag \<Rightarrow> disjoint_domain" where
  "typeof_domain Typeof_String = Domain_String"
| "typeof_domain Typeof_Number = Domain_Number"
| "typeof_domain Typeof_Boolean = Domain_Boolean"

definition read_property :: "js_heap \<Rightarrow> js_value \<Rightarrow> string \<Rightarrow> js_value" where
  "read_property h v name = (case h v name of Some w \<Rightarrow> w | None \<Rightarrow> Val_Undefined)"

fun guard_passes :: "interner \<Rightarrow> js_heap \<Rightarrow> narrow_op \<Rightarrow> bool \<Rightarrow> js_value \<Rightarrow> bool" where
  "guard_passes it h (Narrow_Typeof t) positive v \<longleftrightarrow> (value_domain v = typeof_domain t) = positive"
| "guard_passes it h Narrow_Truthy positive v \<longleftrightarrow> truthy v = positive"
| "guard_passes it h (Narrow_EqNullish is_undefined) positive v \<longleftrightarrow>
     (v = (if is_undefined then Val_Undefined else Val_Null)) = positive"
| "guard_passes it h (Narrow_Discriminant property lit) positive v \<longleftrightarrow>
     (\<exists>l. row_in it lit = Some (Row_Literal l) \<and> equals_literal (read_property h v property) l = positive)"
| "guard_passes it h (Narrow_In property) positive v \<longleftrightarrow>
     value_domain v = Domain_NonPrimitive \<and> (h v property \<noteq> None) = positive"

text \<open>The rows whose members a guard decides: their values are known by kind.\<close>

fun row_decided :: "ty_row \<Rightarrow> bool" where
  "row_decided (Row_Intrinsic k) \<longleftrightarrow> k = Kind_Never \<or> intrinsic_domain k \<noteq> None"
| "row_decided (Row_Literal _) \<longleftrightarrow> True"
| "row_decided (Row_Object _) \<longleftrightarrow> True"
| "row_decided (Row_Function _) \<longleftrightarrow> True"
| "row_decided (Row_Array _) \<longleftrightarrow> True"
| "row_decided (Row_Tuple _) \<longleftrightarrow> True"
| "row_decided (Row_Readonly _) \<longleftrightarrow> True"
| "row_decided (Row_Template _) \<longleftrightarrow> True"
| "row_decided _ \<longleftrightarrow> False"

fun guard_decides :: "narrow_op \<Rightarrow> bool \<Rightarrow> ty_row \<Rightarrow> bool" where
  "guard_decides (Narrow_Typeof _) positive r \<longleftrightarrow> positive \<longrightarrow> row_decided r"
| "guard_decides (Narrow_EqNullish _) positive r \<longleftrightarrow> positive \<longrightarrow> row_decided r \<and> r \<noteq> Row_Intrinsic Kind_Void"
| "guard_decides (Narrow_In name) positive r \<longleftrightarrow>
     (case r of
        Row_Object ob \<Rightarrow> (case object_property ob name of None \<Rightarrow> \<not> positive | Some p \<Rightarrow> positive \<or> \<not> pr_optional p)
      | Row_Intrinsic k \<Rightarrow> positive \<longrightarrow> row_decided r \<and> k \<noteq> Kind_Object
      | Row_Literal _ \<Rightarrow> True
      | Row_Template _ \<Rightarrow> True
      | _ \<Rightarrow> \<not> positive)"
| "guard_decides _ positive r \<longleftrightarrow> True"

lemma literal_row_domain: "equals_literal v l \<Longrightarrow> value_domain v = literal_domain l"
  by (cases v; cases l) auto

lemma base_kind_domain: "base_kind l = typeof_intrinsic t \<longleftrightarrow> literal_domain l = typeof_domain t"
  by (cases l; cases t) auto

lemma kind_holds_domain: "kind_holds k v \<Longrightarrow> intrinsic_domain k = Some d \<Longrightarrow> value_domain v = d"
  by (cases k) auto

lemma intrinsic_domain_typeof: "intrinsic_domain k = Some (typeof_domain t) \<longleftrightarrow> k = typeof_intrinsic t"
  by (cases k; cases t) auto

text \<open>What the member tests read off a row.\<close>

fun typeof_row :: "typeof_tag \<Rightarrow> ty_row \<Rightarrow> bool" where
  "typeof_row t (Row_Intrinsic k) \<longleftrightarrow> k = typeof_intrinsic t"
| "typeof_row t (Row_Literal l) \<longleftrightarrow> base_kind l = typeof_intrinsic t"
| "typeof_row t (Row_Template _) \<longleftrightarrow> typeof_intrinsic t = Kind_String"
| "typeof_row t _ \<longleftrightarrow> False"

lemma member_matches_typeof_row:
  assumes "session_inv fx it" "row_in it m = Some r"
  shows "member_matches_typeof (it_store it) m t = Some (typeof_row t r)"
  using accessor_rows(1-3) [OF session_parts(5) [OF assms(1)], of m] assms(2)
  by (cases r) (simp_all add: member_matches_typeof_def row_in_def)

lemma typeof_row_values:
  assumes "row_holds P h v r"
  shows "typeof_row t r \<Longrightarrow> value_domain v = typeof_domain t"
    and "row_decided r \<Longrightarrow> value_domain v = typeof_domain t \<Longrightarrow> typeof_row t r"
proof -
  have lit: "value_domain v = typeof_domain t \<longleftrightarrow> base_kind l = typeof_intrinsic t" if "r = Row_Literal l" for l
    using that assms literal_row_domain [of v l] by (simp add: base_kind_domain)
  show "typeof_row t r \<Longrightarrow> value_domain v = typeof_domain t"
    using assms lit by (cases r; cases t) simp_all
  show "row_decided r \<Longrightarrow> value_domain v = typeof_domain t \<Longrightarrow> typeof_row t r"
  proof (cases r)
    case (Row_Intrinsic k)
    then show "row_decided r \<Longrightarrow> value_domain v = typeof_domain t \<Longrightarrow> typeof_row t r"
      using assms by (cases k; cases t) simp_all
  qed (use assms lit in \<open>cases t; simp\<close>)+
qed

definition truthy_row :: "ty_row \<Rightarrow> bool" where
  "truthy_row r \<longleftrightarrow> row_tag r \<in> {Tag_Object, Tag_Function, Tag_Array, Tag_Readonly}"

lemma is_always_truthy_row:
  assumes "session_inv fx it" "row_in it m = Some r"
  shows "is_always_truthy (it_store it) m = Some (truthy_row r)"
  using accessor_rows(1) [OF session_parts(5) [OF assms(1)], of m] assms(2)
  by (simp add: is_always_truthy_def row_in_def truthy_row_def)

lemma truthy_row_values: "truthy_row r \<Longrightarrow> row_holds P h v r \<Longrightarrow> truthy v"
  by (cases r; cases v) (simp_all add: truthy_row_def)

text \<open>Intrinsic rows are never reserved, so they are the well-known ones.\<close>

lemma intrinsic_row_id:
  assumes inv: "session_inv fx it" and t: "row_in it t = Some (Row_Intrinsic k)"
  shows "t = well_known_of (it_well_known it) k"
proof -
  have res: "\<not> contains_reserved_type it x" if "row_in it x = Some (Row_Intrinsic k)" for x
  proof -
    have "reserved_inv it" using session_parts(1) [OF inv] by (simp add: interner_inv_def)
    then show ?thesis using that by (fastforce simp: contains_reserved_type_def reserved_type_of_def reserved_inv_def split: option.splits)
  qed
  have w: "row_in it (well_known_of (it_well_known it) k) = Some (Row_Intrinsic k)"
    using session_parts(3) [OF inv] by (simp add: well_known_inv_def)
  show ?thesis by (rule same_key_same_id [OF session_parts(1) [OF inv] t w res [OF t] res [OF w]]) (simp_all add: row_is_nan_def)
qed


section \<open>Narrowing keeps what passes the guard\<close>

text \<open>
  A narrowing result: the interner has only grown, every value of the type that passes the guard is
  a value of the result, the result has no other values than the type, and its members are members
  of the type or boolean literals.
\<close>

definition narrowed :: "hasher \<Rightarrow> interner \<Rightarrow> type_id \<Rightarrow> (js_heap \<Rightarrow> js_value \<Rightarrow> bool) \<Rightarrow> type_id \<Rightarrow> interner \<Rightarrow> bool" where
  "narrowed fx it ty G t it' \<longleftrightarrow> grown fx it it' \<and> valid it' t \<and>
     (\<forall>h v. value_in it h v ty \<and> G h v \<longrightarrow> value_in it' h v t) \<and>
     (\<forall>h v. value_in it' h v t \<longrightarrow> value_in it h v ty) \<and>
     (\<forall>R. members_are it R ty \<and> (\<forall>b. R (Row_Literal (Lit_Boolean b))) \<longrightarrow> members_are it' R t)"

lemma filter_narrows:
  assumes inv: "session_inv fx it" and cap: "store_len (it_store it) < 2 ^ 32" and ty: "valid it ty"
    and keep: "\<And>m. valid it m \<Longrightarrow> keep (it_store it) m = Some (k m)"
    and lost: "\<And>m h v. ty \<notin> {wk_any (it_well_known it), wk_error (it_well_known it)} \<Longrightarrow> m \<in> union_set it ty \<Longrightarrow>
      valid it m \<Longrightarrow> value_in it h v m \<Longrightarrow> G h v \<Longrightarrow> k m"
  shows "\<exists>t it'. filter_union fx it ty keep = Some (t, it') \<and> narrowed fx it ty G t it'"
proof -
  let ?top = "ty \<in> {wk_any (it_well_known it), wk_error (it_well_known it)}"
  from filter_union_values [where keep = keep, OF inv cap ty keep] obtain t it' where
    f: "filter_union fx it ty keep = Some (t, it')" "grown fx it it'" "valid it' t"
      "\<forall>R. members_are it R ty \<longrightarrow> members_are it' R t"
    and val: "\<not> ?top \<Longrightarrow> value_in it' h v t \<longleftrightarrow> (\<exists>m \<in> union_set it ty. k m \<and> value_in it h v m)"
    and top: "?top \<Longrightarrow> t = ty" for h v by blast
  note mem = values_of_members [OF inv ty]
  have mv: "valid it m" if "m \<in> union_set it ty" "value_in it h v m" for m h v
    using that(2) by (auto simp: value_in_iff [of it h v m])
  have keeps: "value_in it' h v t" if "value_in it h v ty" "G h v" for h v
  proof (cases ?top)
    case True
    with top that(1) grown_values [OF inv f(2) ty] show ?thesis by simp
  next
    case False
    from that(1) mem obtain m where "m \<in> union_set it ty" "value_in it h v m" by blast
    with lost [OF False this(1) mv [OF this] this(2) that(2)] val [OF False] show ?thesis by blast
  qed
  have "value_in it h v ty" if "value_in it' h v t" for h v
  proof (cases ?top)
    case True
    with top that grown_values [OF inv f(2) ty] show ?thesis by simp
  next
    case False
    with val [OF False] that mem show ?thesis by blast
  qed
  with f keeps show ?thesis unfolding narrowed_def by blast
qed

lemma member_decided:
  "members_are it R ty \<Longrightarrow> ty \<notin> {wk_any (it_well_known it), wk_error (it_well_known it)} \<Longrightarrow> m \<in> union_set it ty \<Longrightarrow>
    row_in it m = Some r \<Longrightarrow> R r"
  by (auto simp: members_are_def)

lemma narrow_by_typeof_sound:
  assumes inv: "session_inv fx it" and cap: "store_len (it_store it) < 2 ^ 32"
    and ty: "members_are it (guard_decides (Narrow_Typeof t) positive) ty"
  shows "\<exists>n it'. narrow_by_typeof fx it ty t positive = Some (n, it') \<and>
    narrowed fx it ty (\<lambda>h. guard_passes it h (Narrow_Typeof t) positive) n it'"
  unfolding narrow_by_typeof_def
proof (rule filter_narrows [OF inv cap, where k = "\<lambda>m. typeof_row t (the (row_in it m)) = positive"])
  show "valid it ty" using ty by (simp add: members_are_def)
  fix m assume m: "valid it m"
  then obtain r where r: "row_in it m = Some r" by blast
  then show "map_option (\<lambda>matches. matches = positive) (member_matches_typeof (it_store it) m t) =
      Some (typeof_row t (the (row_in it m)) = positive)" by (simp add: member_matches_typeof_row [OF inv])
  fix h v
  assume "ty \<notin> {wk_any (it_well_known it), wk_error (it_well_known it)}" "m \<in> union_set it ty"
    and v: "value_in it h v m" "guard_passes it h (Narrow_Typeof t) positive v"
  then have "guard_decides (Narrow_Typeof t) positive r" using member_decided [OF ty] r by blast
  moreover have "row_holds (value_in it h) h v r" using v(1) r by (simp add: value_in_row)
  ultimately show "typeof_row t (the (row_in it m)) = positive"
    using typeof_row_values [of "value_in it h" h v r t] v(2) r by auto
qed

lemma narrow_by_nullish_sound:
  assumes inv: "session_inv fx it" and cap: "store_len (it_store it) < 2 ^ 32"
    and ty: "members_are it (guard_decides (Narrow_EqNullish u) positive) ty"
  shows "\<exists>n it'. narrow_by_nullish_equality fx it ty u positive = Some (n, it') \<and>
    narrowed fx it ty (\<lambda>h. guard_passes it h (Narrow_EqNullish u) positive) n it'"
  unfolding narrow_by_nullish_equality_def Let_def
proof (rule filter_narrows [OF inv cap, where k = "\<lambda>m. (m = (if u then wk_undefined (it_well_known it) else wk_null (it_well_known it))) = positive"])
  show "valid it ty" using ty by (simp add: members_are_def)
  fix m h v
  assume m: "valid it m" and dec: "ty \<notin> {wk_any (it_well_known it), wk_error (it_well_known it)}" "m \<in> union_set it ty"
    and v: "value_in it h v m" "guard_passes it h (Narrow_EqNullish u) positive v"
  from m obtain r where r: "row_in it m = Some r" by blast
  have d: "guard_decides (Narrow_EqNullish u) positive r" by (rule member_decided [OF ty dec r])
  have hold: "row_holds (value_in it h) h v r" using v(1) r by (simp add: value_in_row)
  note wk = wk_kinds [OF session_parts(3) [OF inv]]
  show "(m = (if u then wk_undefined (it_well_known it) else wk_null (it_well_known it))) = positive"
  proof (cases positive)
    case True
    have "r = Row_Intrinsic (if u then Kind_Undefined else Kind_Null)"
    proof (cases r)
      case (Row_Intrinsic k)
      then show ?thesis using hold d v(2) True by (cases k) (auto split: if_splits)
    next
      case (Row_Literal l)
      then show ?thesis using hold v(2) True by (cases l) (auto split: if_splits)
    qed (use hold d v(2) True in \<open>auto split: if_splits\<close>)
    then show ?thesis using intrinsic_row_id [OF inv, of m] r True by (cases u) fastforce+
  next
    case False
    then show ?thesis using v(2) hold r wk(5,6) by auto
  qed
qed simp


definition in_row :: "string \<Rightarrow> bool \<Rightarrow> ty_row \<Rightarrow> bool" where
  "in_row name positive r \<longleftrightarrow>
     (case r of Row_Object ob \<Rightarrow> (object_property ob name \<noteq> None) = positive
      | Row_Intrinsic Kind_Any \<Rightarrow> True | Row_Intrinsic Kind_Error \<Rightarrow> True | _ \<Rightarrow> \<not> positive)"

lemma in_operator_keeps_row:
  assumes inv: "session_inv fx it" and r: "row_in it m = Some r"
  shows "in_operator_keeps (it_well_known it) name positive (it_store it) m = Some (in_row name positive r)"
proof -
  note wk = wk_kinds(1,2) [OF session_parts(3) [OF inv]]
  have top: "m = wk_any (it_well_known it) \<or> m = wk_error (it_well_known it) \<longleftrightarrow>
      r = Row_Intrinsic Kind_Any \<or> r = Row_Intrinsic Kind_Error"
    using r wk intrinsic_row_id [OF inv, of m Kind_Any] intrinsic_row_id [OF inv, of m Kind_Error] by auto
  note acc = accessor_rows(1,4) [OF session_parts(5) [OF inv], of m, folded row_in_def]
  show ?thesis
    using top acc r
    by (cases r) (auto simp: in_operator_keeps_def property_ty_of_def in_row_def Let_def split: intrinsic_kind.splits)
qed

lemma object_property_holds:
  assumes "row_holds P h v (Row_Object ob)" "object_property ob name = Some p"
  shows "h v name = None \<Longrightarrow> pr_optional p" and "h v name = Some w \<Longrightarrow> P w (pr_ty p)"
proof -
  from assms(2) have p: "p \<in> set (ob_properties ob)" "key_as_string (pr_key p) = Some name"
    by (auto simp: object_property_def find_Some_iff)
  with assms(1) have "property_holds P h v p" by simp
  with p(2) show "h v name = None \<Longrightarrow> pr_optional p" and "h v name = Some w \<Longrightarrow> P w (pr_ty p)"
    by (auto simp: property_holds_def)
qed

lemma in_row_values:
  assumes hold: "row_holds P h v r" and dec: "guard_decides (Narrow_In name) positive r"
    and v: "guard_passes it h (Narrow_In name) positive v"
  shows "in_row name positive r"
proof (cases r)
  case (Row_Object ob)
  then show ?thesis
    using object_property_holds(1) [of P h v ob name] hold dec v by (cases "object_property ob name") (auto simp: in_row_def)
next
  case (Row_Intrinsic k)
  then show ?thesis using hold dec v by (cases k) (auto simp: in_row_def)
next
  case (Row_Literal l)
  then show ?thesis using hold literal_row_domain [of v l] v by (cases l) (auto simp: in_row_def)
qed (use hold dec v in \<open>auto simp: in_row_def\<close>)

lemma narrow_by_in_sound:
  assumes inv: "session_inv fx it" and cap: "store_len (it_store it) < 2 ^ 32"
    and ty: "members_are it (guard_decides (Narrow_In name) positive) ty"
  shows "\<exists>n it'. narrow_by_in_operator fx it ty name positive = Some (n, it') \<and>
    narrowed fx it ty (\<lambda>h. guard_passes it h (Narrow_In name) positive) n it'"
  unfolding narrow_by_in_operator_def
proof (rule filter_narrows [OF inv cap, where k = "\<lambda>m. in_row name positive (the (row_in it m))"])
  show "valid it ty" using ty by (simp add: members_are_def)
  fix m assume "valid it m"
  then obtain r where r: "row_in it m = Some r" by blast
  then show "in_operator_keeps (it_well_known it) name positive (it_store it) m = Some (in_row name positive (the (row_in it m)))"
    by (simp add: in_operator_keeps_row [OF inv])
  fix h v
  assume dec: "ty \<notin> {wk_any (it_well_known it), wk_error (it_well_known it)}" "m \<in> union_set it ty"
    and v: "value_in it h v m" "guard_passes it h (Narrow_In name) positive v"
  have "row_holds (value_in it h) h v r" using v(1) r by (simp add: value_in_row)
  from in_row_values [OF this member_decided [OF ty dec r] v(2)] r
  show "in_row name positive (the (row_in it m))" by simp
qed

section \<open>Truthiness\<close>

lemma intern_boolean:
  assumes inv: "session_inv fx it" and cap: "store_len (it_store it) < 2 ^ 32"
  shows "\<exists>b it'. intern_literal fx it (Lit_Boolean t) = Some (b, it') \<and> grown fx it it' \<and>
    store_len (it_store it') \<le> Suc (store_len (it_store it)) \<and> row_in it' b = Some (Row_Literal (Lit_Boolean t))"
proof -
  let ?req = "Req_Literal (Lit_Boolean t)"
  from request_interned [OF session_parts(1) [OF inv] cap, of ?req] obtain b it' where
    q: "run_request fx it ?req = Some (b, it')" "hash_consed fx it (Row_Literal (Lit_Boolean t)) b it'" by auto
  have ok: "session_ok it (Session_Op (Op_Intern ?req))" using cap by (simp add: row_refs_def)
  have inv': "session_inv fx it'" using session_progress [OF inv ok] q(1) by auto
  have keep: "rows_kept it it'" using hash_consed_keeps [OF q(2)] by (simp add: rows_kept_def)
  have wk: "it_well_known it' = it_well_known it" using q(2) by (simp add: hash_consed_def)
  have "row_in it' b = Some (Row_Literal (Lit_Boolean t))"
    using q(2)
  proof (cases rule: hash_consed_rows)
    case (found r')
    then show ?thesis by (cases r') (auto simp: row_matches_def elim: literal_eq.elims)
  next
    case (added r')
    then show ?thesis by (simp add: row_key_literal)
  qed
  with q inv' keep wk rows_kept_len [OF inv keep] hash_consed_len [OF q(2)] show ?thesis by (auto simp: grown_def)
qed

definition truthiness_row :: "bool \<Rightarrow> ty_row \<Rightarrow> bool" where
  "truthiness_row positive r \<longleftrightarrow>
     (case r of Row_Literal (Lit_Boolean b) \<Rightarrow> b = positive
      | _ \<Rightarrow> if positive then r \<notin> {Row_Intrinsic Kind_Null, Row_Intrinsic Kind_Undefined} else \<not> truthy_row r)"

lemma truthiness_member_row:
  assumes inv: "session_inv fx it" and r: "row_in it m = Some r"
  shows "truthiness_member (it_well_known it) (it_store it) b positive m =
    Some (if r = Row_Intrinsic Kind_Boolean then [b] else if truthiness_row positive r then [m] else [])"
proof -
  note wk = wk_kinds(5-7) [OF session_parts(3) [OF inv]]
  have ids: "m = wk_boolean (it_well_known it) \<longleftrightarrow> r = Row_Intrinsic Kind_Boolean"
      "m = wk_null (it_well_known it) \<longleftrightarrow> r = Row_Intrinsic Kind_Null"
      "m = wk_undefined (it_well_known it) \<longleftrightarrow> r = Row_Intrinsic Kind_Undefined"
    using r wk intrinsic_row_id [OF inv, of m Kind_Boolean] intrinsic_row_id [OF inv, of m Kind_Null]
      intrinsic_row_id [OF inv, of m Kind_Undefined] by auto
  have lit: "literal_value_of (it_store it) m = Some (row_literal r)"
    using accessor_rows(3) [OF session_parts(5) [OF inv], of m, folded row_in_def] r by (simp add: row_literal_def)
  show ?thesis
    using lit is_always_truthy_row [OF inv r] ids r
    by (cases r) (auto simp: truthiness_member_def truthiness_row_def row_literal_def split: literal_value.splits)
qed

lemma truthiness_members_total:
  assumes "\<And>m. m \<in> set ms \<Longrightarrow> truthiness_member wk st b positive m = Some (f m)"
  shows "truthiness_members wk st b positive ms = Some (concat (map f ms))"
  using assms by (induction ms) auto


lemma truthiness_row_values:
  assumes "row_holds P h v r" "truthy v = positive" "\<not> truthiness_row positive r"
  shows False
proof (cases r)
  case (Row_Literal l)
  then show ?thesis using assms by (cases l; cases v) (auto simp: truthiness_row_def truthy_row_def split: if_splits)
next
  case (Row_Intrinsic k)
  then show ?thesis using assms by (cases k) (auto simp: truthiness_row_def truthy_row_def split: if_splits)
qed (use assms truthy_row_values [of r P h v] in \<open>auto simp: truthiness_row_def split: if_splits\<close>)

definition room :: "interner \<Rightarrow> bool" where
  "room it \<longleftrightarrow> Suc (store_len (it_store it)) < 2 ^ 32"

text \<open>The members truthiness keeps, with the boolean branch for \<open>boolean\<close>.\<close>

definition truthiness_kept :: "interner \<Rightarrow> bool \<Rightarrow> type_id \<Rightarrow> type_id \<Rightarrow> type_id list" where
  "truthiness_kept it positive b m = (if row_in it m = Some (Row_Intrinsic Kind_Boolean) then [b]
     else if truthiness_row positive (the (row_in it m)) then [m] else [])"

lemma truthiness_kept_values:
  assumes "row_in it b = Some (Row_Literal (Lit_Boolean positive))" "valid it m"
  shows "value_in it h v m \<Longrightarrow> truthy v = positive \<Longrightarrow> \<exists>x \<in> set (truthiness_kept it positive b m). value_in it h v x"
    and "x \<in> set (truthiness_kept it positive b m) \<Longrightarrow> value_in it h v x \<Longrightarrow> value_in it h v m"
proof -
  from assms(2) obtain r where r: "row_in it m = Some r" by blast
  have b: "value_in it h v b \<longleftrightarrow> v = Val_Boolean positive" for v using assms(1) by (cases v) (simp_all add: value_in_row)
  show "\<exists>x \<in> set (truthiness_kept it positive b m). value_in it h v x" if v: "value_in it h v m" "truthy v = positive"
  proof -
    have hold: "row_holds (value_in it h) h v r" using v(1) r by (simp add: value_in_row)
    show ?thesis
    proof (cases "r = Row_Intrinsic Kind_Boolean")
      case True
      then have "v = Val_Boolean positive" using hold v(2) by (cases v) simp_all
      with b True r show ?thesis by (simp add: truthiness_kept_def)
    next
      case False
      with truthiness_row_values [OF hold v(2)] v(1) r show ?thesis by (auto simp: truthiness_kept_def)
    qed
  qed
  show "x \<in> set (truthiness_kept it positive b m) \<Longrightarrow> value_in it h v x \<Longrightarrow> value_in it h v m"
    using b r by (auto simp: truthiness_kept_def value_in_row split: if_splits)
qed

lemma narrow_by_truthiness_sound:
  assumes inv: "session_inv fx it" and cap: "room it" and ty: "valid it ty"
  shows "\<exists>n it'. narrow_by_truthiness fx it ty positive = Some (n, it') \<and>
    narrowed fx it ty (\<lambda>h. guard_passes it h Narrow_Truthy positive) n it'"
proof (cases "ty \<in> {wk_any (it_well_known it), wk_error (it_well_known it)}")
  case True
  then show ?thesis using grown_refl [OF inv] ty by (auto simp: narrow_by_truthiness_def narrowed_def Let_def)
next
  case top: False
  from intern_boolean [OF inv, of positive] cap obtain b it1 where
    b: "intern_literal fx it (Lit_Boolean positive) = Some (b, it1)" and g1: "grown fx it it1"
    and cap1: "store_len (it_store it1) < 2 ^ 32" and brow: "row_in it1 b = Some (Row_Literal (Lit_Boolean positive))"
    by (fastforce simp: room_def)
  have inv1: "session_inv fx it1" and wk1: "it_well_known it1 = it_well_known it" using g1 by (simp_all add: grown_def)
  have ty1: "valid it1 ty" by (rule grown_valid [OF g1 ty])
  define ms where "ms = member_list it1 ty"
  note laws = member_list_laws [OF inv1 ty1, folded ms_def]
  define kept where "kept = concat (map (truthiness_kept it1 positive b) ms)"
  have tm: "truthiness_members (it_well_known it) (it_store it1) b positive ms = Some kept"
    unfolding kept_def
  proof (rule truthiness_members_total)
    fix m assume "m \<in> set ms"
    then obtain x where x: "row_in it1 m = Some x" using laws(1) by blast
    with truthiness_member_row [OF inv1 x, of b positive]
    show "truthiness_member (it_well_known it) (it_store it1) b positive m = Some (truthiness_kept it1 positive b m)"
      by (simp add: wk1 truthiness_kept_def)
  qed
  have kin: "x \<in> set kept \<longleftrightarrow> (\<exists>m \<in> set ms. x \<in> set (truthiness_kept it1 positive b m))" for x by (simp add: kept_def)
  have kcases: "x = b \<or> x \<in> set ms" if "x \<in> set kept" for x using that kin by (auto simp: truthiness_kept_def split: if_splits)
  then have kv: "\<forall>x \<in> set kept. valid it1 x" using brow laws(1) by fastforce
  from union_values [OF inv1 cap1 kv] obtain n it2 where
    u: "union_type fx it1 kept = Some (n, it2)" and g2: "grown fx it1 it2" and n: "valid it2 n"
    and uv: "\<And>h v. value_in it2 h v n \<longleftrightarrow> (\<exists>m \<in> set kept. value_in it1 h v m)"
    and um: "\<And>R. \<forall>m \<in> set kept. members_are it1 R m \<Longrightarrow> members_are it2 R n" by blast
  have same: "value_in it1 h v ty \<longleftrightarrow> value_in it h v ty" for h v by (rule grown_values [OF inv g1 ty])
  have "value_in it2 h v n" if "value_in it h v ty" "truthy v = positive" for h v
    using that(1) unfolding same [symmetric] laws(2) uv using truthiness_kept_values(1) [OF brow laws(1) _ that(2)] kin by blast
  moreover have "value_in it h v ty" if "value_in it2 h v n" for h v
    using that unfolding same [symmetric] laws(2) uv using truthiness_kept_values(2) [OF brow laws(1)] kin by blast
  moreover have "members_are it2 R n" if R: "members_are it R ty" "\<forall>b. R (Row_Literal (Lit_Boolean b))" for R
  proof (rule um, rule ballI)
    fix x assume "x \<in> set kept"
    then consider "x = b" | "x \<in> set ms" using kcases by blast
    then show "members_are it1 R x"
    proof cases
      case 1
      then show ?thesis using brow R(2) union_set_cases [OF inv1 brow] by (simp add: members_are_def)
    next
      case 2
      then show ?thesis using members_are_member [OF inv1 members_are_grown [OF inv g1 R(1)]] top by (simp add: wk1 ms_def)
    qed
  qed
  moreover have "narrow_by_truthiness fx it ty positive = Some (n, it2)"
    using top b member_list_self [OF inv1 ty1] tm u by (simp add: narrow_by_truthiness_def Let_def ms_def)
  ultimately show ?thesis using grown_trans [OF g1 g2] n by (auto simp: narrowed_def)
qed

lemma narrow_sound:
  assumes inv: "session_inv fx it" and cap: "room it" and ty: "members_are it (guard_decides op positive) ty"
    and op: "\<forall>name lit. op \<noteq> Narrow_Discriminant name lit"
  shows "\<exists>n it'. narrow fx it ty op positive = Some (n, it') \<and> narrowed fx it ty (\<lambda>h. guard_passes it h op positive) n it'"
proof -
  have v: "valid it ty" and c: "store_len (it_store it) < 2 ^ 32" using ty cap by (simp_all add: members_are_def room_def)
  show ?thesis
  proof (cases op)
    case (Narrow_Typeof t)
    with narrow_by_typeof_sound [OF inv c] ty show ?thesis by simp
  next
    case Narrow_Truthy
    with narrow_by_truthiness_sound [OF inv cap v] show ?thesis by simp
  next
    case (Narrow_EqNullish u)
    with narrow_by_nullish_sound [OF inv c] ty show ?thesis by simp
  next
    case (Narrow_In name)
    with narrow_by_in_sound [OF inv c] ty show ?thesis by simp
  qed (use op in simp)
qed

end
