(* ===== verification/Flow_Query.thy ===== *)
theory Flow_Query
  imports Flow_Values Query_Publication
begin

text \<open>
  Crate \<^verbatim>\<open>typokat-check\<close>, module \<^verbatim>\<open>check/flow.rs\<close>: the narrowing the checker uses. Discriminant and
  \<open>in\<close> guards ask the query coordinator, whose two calls are parameters; every guard runs in a
  transaction of the query state that is committed when the guard is decided and rolled back when it
  is exhausted. The other guards do not ask and are sound without a hypothesis on the coordinator.
\<close>

section \<open>The coordinator\<close>

text \<open>What a call on a coordinator can change: the interner, the query state, the next type parameter.\<close>

record flow_context =
  fc_interner :: interner
  fc_queries :: semantic_query_state
  fc_next_type_param :: u32

record coordinator =
  cr_demand :: "flow_context \<Rightarrow> type_id \<Rightarrow> (type_id demand_outcome \<times> flow_context) option"
  cr_is_assignable :: "flow_context \<Rightarrow> type_id \<Rightarrow> type_id \<Rightarrow> (relation_outcome \<times> flow_context) option"

section \<open>Narrowing with queries\<close>

text \<open>Following the constraints of type parameters; a parameter met twice ends the loop.\<close>

partial_function (option) apparent_walk :: "store \<Rightarrow> type_id \<Rightarrow> type_param_id fset \<Rightarrow> type_id option" where [code]:
  "apparent_walk st current seen = do {
     tg \<leftarrow> tag st current;
     (if tg \<noteq> Tag_TypeParam then Some current
      else do {
        parameter \<leftarrow> type_param_of st current;
        (case parameter of None \<Rightarrow> Some current
         | Some p \<Rightarrow>
             if tp_id p |\<in>| seen then Some current
             else case type_param_constraint st (tp_id p) of None \<Rightarrow> Some current
               | Some ct \<Rightarrow> apparent_walk st ct (finsert (tp_id p) seen))
      })
   }"

definition flow_apparent_type :: "interner \<Rightarrow> type_id \<Rightarrow> type_id option" where
  "flow_apparent_type it ty = apparent_walk (it_store it) ty {||}"

definition is_query_owned_shape :: "interner \<Rightarrow> type_id \<Rightarrow> bool option" where
  "is_query_owned_shape it ty =
     map_option (\<lambda>tg. tg \<in> {Tag_TypeParam, Tag_Conditional, Tag_Instantiation, Tag_ClassInstance, Tag_Infer, Tag_Mapped,
       Tag_MappedValue, Tag_Keyof, Tag_DeferredIndexedAccess}) (tag (it_store it) ty)"

definition discriminant_keeps_query ::
    "coordinator \<Rightarrow> flow_context \<Rightarrow> type_id \<Rightarrow> type_id option \<Rightarrow> type_id \<Rightarrow> well_known \<Rightarrow> bool \<Rightarrow>
     (bool demand_outcome \<times> flow_context) option" where
  "discriminant_keeps_query cr ctx member prop_ty lit wk positive =
     (if member = wk_any wk \<or> member = wk_error wk then Some (Demand_Ready True, ctx)
      else case prop_ty of
        None \<Rightarrow> Some (Demand_Ready True, ctx)
      | Some prop_ty \<Rightarrow>
          if \<not> positive then Some (Demand_Ready (prop_ty \<noteq> lit), ctx)
          else do {
            (outcome, ctx) \<leftarrow> cr_is_assignable cr ctx lit prop_ty;
            Some (case outcome of Outcome_Yes \<Rightarrow> Demand_Ready True | Outcome_No _ \<Rightarrow> Demand_Ready False
              | Outcome_Exhausted reason \<Rightarrow> Demand_Exhausted reason, ctx)
          })"

definition discriminant_member_query ::
    "coordinator \<Rightarrow> well_known \<Rightarrow> string \<Rightarrow> type_id \<Rightarrow> bool \<Rightarrow> type_id \<Rightarrow> flow_context \<Rightarrow>
     (bool demand_outcome \<times> flow_context) option" where
  "discriminant_member_query cr wk property lit positive member ctx = do {
     apparent \<leftarrow> flow_apparent_type (fc_interner ctx) member;
     (demanded, ctx) \<leftarrow> cr_demand cr ctx apparent;
     (case demanded of
        Demand_Exhausted reason \<Rightarrow> Some (Demand_Exhausted reason, ctx)
      | Demand_Ready demanded \<Rightarrow> do {
          prop_ty \<leftarrow> property_ty_of (it_store (fc_interner ctx)) demanded property;
          discriminant_keeps_query cr ctx demanded prop_ty lit wk positive
        })
   }"

definition in_member_query ::
    "coordinator \<Rightarrow> well_known \<Rightarrow> string \<Rightarrow> bool \<Rightarrow> type_id \<Rightarrow> flow_context \<Rightarrow> (bool demand_outcome \<times> flow_context) option" where
  "in_member_query cr wk property positive member ctx =
     (if member = wk_any wk \<or> member = wk_error wk then Some (Demand_Ready True, ctx)
      else do {
        apparent \<leftarrow> flow_apparent_type (fc_interner ctx) member;
        (demanded, ctx) \<leftarrow> cr_demand cr ctx apparent;
        (case demanded of
           Demand_Exhausted reason \<Rightarrow> Some (Demand_Exhausted reason, ctx)
         | Demand_Ready demanded \<Rightarrow> do {
             object \<leftarrow> object_type_of (it_store (fc_interner ctx)) demanded;
             owned \<leftarrow> is_query_owned_shape (fc_interner ctx) demanded;
             Some (Demand_Ready (case object of
                 Some object \<Rightarrow> (object_property object property \<noteq> None) = positive
               | None \<Rightarrow> if owned then True else \<not> positive), ctx)
           })
      })"

text \<open>The loop over the members: a member is retained, dropped, or ends the whole narrowing.\<close>

fun filter_members_query ::
    "(type_id \<Rightarrow> flow_context \<Rightarrow> (bool demand_outcome \<times> flow_context) option) \<Rightarrow> type_id list \<Rightarrow> flow_context \<Rightarrow>
     (type_id list demand_outcome \<times> flow_context) option" where
  "filter_members_query keeps [] ctx = Some (Demand_Ready [], ctx)"
| "filter_members_query keeps (member # members) ctx = do {
     (decision, ctx) \<leftarrow> keeps member ctx;
     (case decision of
        Demand_Exhausted reason \<Rightarrow> Some (Demand_Exhausted reason, ctx)
      | Demand_Ready keep \<Rightarrow> do {
          (rest, ctx) \<leftarrow> filter_members_query keeps members ctx;
          Some (case rest of Demand_Exhausted reason \<Rightarrow> Demand_Exhausted reason
            | Demand_Ready retained \<Rightarrow> Demand_Ready (if keep then member # retained else retained), ctx)
        })
   }"

definition narrow_members_query ::
    "hasher \<Rightarrow> (type_id \<Rightarrow> flow_context \<Rightarrow> (bool demand_outcome \<times> flow_context) option) \<Rightarrow> flow_context \<Rightarrow> type_id \<Rightarrow>
     (type_id demand_outcome \<times> flow_context) option" where
  "narrow_members_query fx keeps ctx ty =
     (let wk = it_well_known (fc_interner ctx) in
      if ty = wk_any wk \<or> ty = wk_error wk then Some (Demand_Ready ty, ctx)
      else do {
        members \<leftarrow> members_or_self (it_store (fc_interner ctx)) ty;
        (retained, ctx) \<leftarrow> filter_members_query keeps members ctx;
        (case retained of
           Demand_Exhausted reason \<Rightarrow> Some (Demand_Exhausted reason, ctx)
         | Demand_Ready retained \<Rightarrow> do {
             (t, it) \<leftarrow> union_type fx (fc_interner ctx) retained;
             Some (Demand_Ready t, ctx\<lparr>fc_interner := it\<rparr>)
           })
      })"

definition narrow_by_discriminant_query ::
    "hasher \<Rightarrow> coordinator \<Rightarrow> flow_context \<Rightarrow> type_id \<Rightarrow> string \<Rightarrow> type_id \<Rightarrow> bool \<Rightarrow>
     (type_id demand_outcome \<times> flow_context) option" where
  "narrow_by_discriminant_query fx cr ctx ty property lit positive =
     narrow_members_query fx (discriminant_member_query cr (it_well_known (fc_interner ctx)) property lit positive) ctx ty"

definition narrow_by_in_operator_query ::
    "hasher \<Rightarrow> coordinator \<Rightarrow> flow_context \<Rightarrow> type_id \<Rightarrow> string \<Rightarrow> bool \<Rightarrow> (type_id demand_outcome \<times> flow_context) option" where
  "narrow_by_in_operator_query fx cr ctx ty property positive =
     narrow_members_query fx (in_member_query cr (it_well_known (fc_interner ctx)) property positive) ctx ty"

definition narrow_query ::
    "hasher \<Rightarrow> coordinator \<Rightarrow> flow_context \<Rightarrow> type_id \<Rightarrow> narrow_op \<Rightarrow> bool \<Rightarrow> (type_id demand_outcome \<times> flow_context) option" where
  "narrow_query fx cr ctx ty op positive = do {
     let ctx = ctx\<lparr>fc_queries := qs_savepoint (fc_queries ctx)\<rparr>;
     (outcome, ctx) \<leftarrow> (case op of
         Narrow_Discriminant property lit \<Rightarrow> narrow_by_discriminant_query fx cr ctx ty property lit positive
       | Narrow_In property \<Rightarrow> narrow_by_in_operator_query fx cr ctx ty property positive
       | _ \<Rightarrow> do {
           (t, it) \<leftarrow> narrow fx (fc_interner ctx) ty op positive;
           Some (Demand_Ready t, ctx\<lparr>fc_interner := it\<rparr>)
         });
     qs \<leftarrow> (case outcome of Demand_Ready _ \<Rightarrow> qs_commit (fc_queries ctx) | Demand_Exhausted _ \<Rightarrow> qs_rollback (fc_queries ctx));
     Some (outcome, ctx\<lparr>fc_queries := qs\<rparr>)
   }"

section \<open>Guards that ask nothing\<close>

fun asks_nothing :: "narrow_op \<Rightarrow> bool" where
  "asks_nothing (Narrow_Discriminant _ _) = False"
| "asks_nothing (Narrow_In _) = False"
| "asks_nothing _ = True"

lemma empty_transaction:
  assumes "layered_state qs"
  shows "\<exists>qs'. qs_commit (qs_savepoint qs) = Some qs' \<and> layered_state qs' \<and> qs_savepoints qs' = qs_savepoints qs"
proof -
  from scripts_stepped(1) [OF assms, of "Query_Commit []" False] show ?thesis by (auto simp: stepped_def)
qed

lemma narrow_query_sound:
  assumes inv: "session_inv fx (fc_interner ctx)" and lay: "layered_state (fc_queries ctx)" and cap: "room (fc_interner ctx)"
    and ty: "members_are (fc_interner ctx) (guard_decides op positive) ty" and op: "asks_nothing op"
  shows "\<exists>n ctx'. narrow_query fx cr ctx ty op positive = Some (Demand_Ready n, ctx') \<and> layered_state (fc_queries ctx') \<and>
    narrowed fx (fc_interner ctx) ty (\<lambda>h. guard_passes (fc_interner ctx) h op positive) n (fc_interner ctx')"
proof -
  have "\<forall>name lit. op \<noteq> Narrow_Discriminant name lit" using op by auto
  from narrow_sound [OF inv cap ty this] obtain n it' where
    n: "narrow fx (fc_interner ctx) ty op positive = Some (n, it')"
      "narrowed fx (fc_interner ctx) ty (\<lambda>h. guard_passes (fc_interner ctx) h op positive) n it'" by blast
  from empty_transaction [OF lay] obtain qs' where "qs_commit (qs_savepoint (fc_queries ctx)) = Some qs'" "layered_state qs'" by blast
  with n op have "narrow_query fx cr ctx ty op positive =
      Some (Demand_Ready n, ctx\<lparr>fc_interner := it', fc_queries := qs'\<rparr>)"
    by (cases op) (simp_all add: narrow_query_def Let_def)
  then show ?thesis using n(2) \<open>layered_state qs'\<close> by auto
qed

end
