(* ===== verification/Flow_Graph.thy ===== *)
theory Flow_Graph
  imports Flow_Query
begin

text \<open>
  Crate \<^verbatim>\<open>typokat-check\<close>, modules \<^verbatim>\<open>check/flow.rs\<close> and \<^verbatim>\<open>check/checker/flowgraph\<close>: the nodes of the
  control-flow graph, the functions that add them, and the backward walk that resolves the type of a
  symbol at a node. The walk keeps an explicit stack and a scratch table, memoizes across calls
  outside loops, and resolves a loop label by one unrolling with a provisional type. Its recursion is
  bounded by a fuel argument.
\<close>

section \<open>Nodes\<close>

type_synonym flow_node_id = u32
type_synonym symbol_id = u32

definition FLOW_UNREACHABLE :: flow_node_id where
  "FLOW_UNREACHABLE = 0"

definition FLOW_START :: flow_node_id where
  "FLOW_START = 1"

datatype flow_node =
    Flow_Unreachable
  | Flow_Start
  | Flow_Assignment symbol_id "type_id option" flow_node_id
  | Flow_Condition symbol_id narrow_op bool flow_node_id
  | Flow_BranchLabel "flow_node_id list"
  | Flow_LoopLabel "flow_node_id list" "flow_node_id list"

record guard_fact =
  gf_symbol :: symbol_id
  gf_op :: narrow_op
  gf_then_positive :: bool

text \<open>The part of the checker pass that flow resolution reads and writes.\<close>

record flow_state =
  fs_nodes :: "flow_node list"
  fs_memo :: "(flow_node_id \<times> symbol_id, type_id) fmap"
  fs_provisional :: "(flow_node_id \<times> symbol_id, type_id) fmap"
  fs_loop_depth :: u32
  fs_context :: flow_context

abbreviation fs_interner :: "flow_state \<Rightarrow> interner" where
  "fs_interner st \<equiv> fc_interner (fs_context st)"

definition flow_node_at :: "flow_node list \<Rightarrow> flow_node_id \<Rightarrow> flow_node option" where
  "flow_node_at nodes n = nth_opt nodes (unat n)"

section \<open>Construction\<close>

definition new_flow :: "flow_node \<Rightarrow> flow_state \<Rightarrow> flow_node_id \<times> flow_state" where
  "new_flow node st = (word_of_nat (length (fs_nodes st)), st\<lparr>fs_nodes := fs_nodes st @ [node]\<rparr>)"

definition flow_condition :: "flow_node_id \<Rightarrow> guard_fact option \<Rightarrow> bool \<Rightarrow> flow_state \<Rightarrow> flow_node_id \<times> flow_state" where
  "flow_condition antecedent found then_branch st =
     (if antecedent = FLOW_UNREACHABLE then (FLOW_UNREACHABLE, st)
      else case found of
        Some found \<Rightarrow>
          let positive = (if then_branch then gf_then_positive found else \<not> gf_then_positive found)
          in new_flow (Flow_Condition (gf_symbol found) (gf_op found) positive antecedent) st
      | None \<Rightarrow> (antecedent, st))"

definition flow_join :: "flow_node_id list \<Rightarrow> flow_state \<Rightarrow> flow_node_id \<times> flow_state" where
  "flow_join antecedents st =
     (let live = remdups_adj (sort (filter (\<lambda>a. a \<noteq> FLOW_UNREACHABLE) antecedents)) in
      case live of
        [] \<Rightarrow> (FLOW_UNREACHABLE, st)
      | [only] \<Rightarrow> (only, st)
      | _ \<Rightarrow> new_flow (Flow_BranchLabel live) st)"

definition add_back_edge :: "flow_node_id \<Rightarrow> flow_node_id \<Rightarrow> flow_state \<Rightarrow> flow_state" where
  "add_back_edge label edge st =
     (if edge = FLOW_UNREACHABLE then st
      else case flow_node_at (fs_nodes st) label of
        Some (Flow_LoopLabel pre back) \<Rightarrow> st\<lparr>fs_nodes := (fs_nodes st)[unat label := Flow_LoopLabel pre (back @ [edge])]\<rparr>
      | _ \<Rightarrow> st)"

text \<open>The entry of a \<open>switch\<close> clause: one literal for a \<open>case\<close>, the complement of all for \<open>default\<close>.\<close>

fun switch_default_chain :: "symbol_id \<Rightarrow> string \<Rightarrow> type_id list \<Rightarrow> flow_node_id \<Rightarrow> flow_state \<Rightarrow> flow_node_id \<times> flow_state" where
  "switch_default_chain symbol property [] node st = (node, st)"
| "switch_default_chain symbol property (lit # lits) node st =
     (let (node, st) = new_flow (Flow_Condition symbol (Narrow_Discriminant property lit) False node) st
      in switch_default_chain symbol property lits node st)"

definition switch_case_entry ::
    "flow_node_id \<Rightarrow> (symbol_id \<times> string) option \<Rightarrow> bool \<Rightarrow> type_id option \<Rightarrow> type_id list \<Rightarrow> flow_state \<Rightarrow>
     flow_node_id \<times> flow_state" where
  "switch_case_entry pre discr has_test label case_labels st =
     (if pre = FLOW_UNREACHABLE then (FLOW_UNREACHABLE, st)
      else case discr of
        None \<Rightarrow> (pre, st)
      | Some (symbol, property) \<Rightarrow>
          (case (has_test, label) of
             (True, Some lit) \<Rightarrow> new_flow (Flow_Condition symbol (Narrow_Discriminant property lit) True pre) st
           | (False, _) \<Rightarrow> switch_default_chain symbol property case_labels pre st
           | (True, None) \<Rightarrow> (pre, st)))"

section \<open>Resolution\<close>

text \<open>The declared type of a symbol, which the binder and the declaration tables supply, is a parameter.\<close>

type_synonym declared_types = "symbol_id \<Rightarrow> type_id"

datatype flow_step =
    Step_Terminal type_id
  | Step_Assignment symbol_id "type_id option" flow_node_id
  | Step_Condition symbol_id narrow_op bool flow_node_id
  | Step_Branch "flow_node_id list"
  | Step_Loop

definition flow_step_of :: "flow_state \<Rightarrow> flow_node_id \<Rightarrow> flow_step" where
  "flow_step_of st node =
     (case flow_node_at (fs_nodes st) node of
        Some (Flow_Assignment symbol assigned antecedent) \<Rightarrow> Step_Assignment symbol assigned antecedent
      | Some (Flow_Condition symbol op positive antecedent) \<Rightarrow> Step_Condition symbol op positive antecedent
      | Some (Flow_BranchLabel antecedents) \<Rightarrow> Step_Branch antecedents
      | Some (Flow_LoopLabel _ _) \<Rightarrow> Step_Loop
      | _ \<Rightarrow> Step_Terminal (wk_error (it_well_known (fs_interner st))))"

definition flow_lookup_cached :: "declared_types \<Rightarrow> flow_state \<Rightarrow> flow_node_id \<Rightarrow> symbol_id \<Rightarrow> type_id option" where
  "flow_lookup_cached declared st node symbol =
     (if node = FLOW_START \<or> node = FLOW_UNREACHABLE then Some (declared symbol)
      else case fmlookup (fs_provisional st) (node, symbol) of
        Some t \<Rightarrow> Some t
      | None \<Rightarrow> fmlookup (fs_memo st) (node, symbol))"

type_synonym scratch = "(flow_node_id, type_id) fmap"

definition scratch_or_cached :: "declared_types \<Rightarrow> flow_state \<Rightarrow> scratch \<Rightarrow> flow_node_id \<Rightarrow> symbol_id \<Rightarrow> type_id option" where
  "scratch_or_cached declared st scratch node symbol =
     (case fmlookup scratch node of Some t \<Rightarrow> Some t | None \<Rightarrow> flow_lookup_cached declared st node symbol)"

definition flow_set :: "scratch \<Rightarrow> flow_node_id \<Rightarrow> symbol_id \<Rightarrow> type_id \<Rightarrow> flow_state \<Rightarrow> scratch \<times> flow_state" where
  "flow_set scratch node symbol ty st =
     (fmupd node ty scratch,
      if fs_loop_depth st = 0 then st\<lparr>fs_memo := fmupd (node, symbol) ty (fs_memo st)\<rparr> else st)"

text \<open>A run returns, panics in some state (the arena is full) or uses up its fuel.\<close>

datatype 'a walk = Out_Of_Fuel | Panics flow_state | Returns 'a

fun and_walk :: "'a walk \<Rightarrow> ('a \<Rightarrow> 'b walk) \<Rightarrow> 'b walk" where
  "and_walk (Returns x) f = f x"
| "and_walk (Panics st) f = Panics st"
| "and_walk Out_Of_Fuel f = Out_Of_Fuel"

definition or_panic :: "flow_state \<Rightarrow> 'a option \<Rightarrow> ('a \<Rightarrow> 'b walk) \<Rightarrow> 'b walk" where
  "or_panic st x f = (case x of None \<Rightarrow> Panics st | Some y \<Rightarrow> f y)"

type_synonym walker = "flow_node_id list \<Rightarrow> scratch \<Rightarrow> flow_state \<Rightarrow> (scratch \<times> flow_state) walk"

definition resolve_with :: "declared_types \<Rightarrow> walker \<Rightarrow> flow_node_id \<Rightarrow> symbol_id \<Rightarrow> flow_state \<Rightarrow> (type_id \<times> flow_state) walk" where
  "resolve_with declared walker flow symbol st =
     (case flow_lookup_cached declared st flow symbol of
        Some t \<Rightarrow> Returns (t, st)
      | None \<Rightarrow> and_walk (walker [flow] fmempty st) (\<lambda>(scratch, st).
          Returns (case fmlookup scratch flow of Some t \<Rightarrow> t | None \<Rightarrow> declared symbol, st)))"

fun resolve_each ::
    "(flow_node_id \<Rightarrow> flow_state \<Rightarrow> (type_id \<times> flow_state) walk) \<Rightarrow> flow_node_id list \<Rightarrow> flow_state \<Rightarrow>
     (type_id list \<times> flow_state) walk" where
  "resolve_each resolve [] st = Returns ([], st)"
| "resolve_each resolve (a # as) st =
     and_walk (resolve a st) (\<lambda>(t, st). and_walk (resolve_each resolve as st) (\<lambda>(ts, st). Returns (t # ts, st)))"

definition union_in :: "hasher \<Rightarrow> type_id list \<Rightarrow> flow_state \<Rightarrow> (type_id \<Rightarrow> flow_state \<Rightarrow> 'a walk) \<Rightarrow> 'a walk" where
  "union_in fx parts st f = or_panic st (union_type fx (fs_interner st) parts) (\<lambda>(t, it).
     f t (st\<lparr>fs_context := (fs_context st)\<lparr>fc_interner := it\<rparr>\<rparr>))"

definition resolve_loop_label ::
    "hasher \<Rightarrow> declared_types \<Rightarrow> walker \<Rightarrow> flow_node_id \<Rightarrow> symbol_id \<Rightarrow> flow_state \<Rightarrow> (type_id \<times> flow_state) walk" where
  "resolve_loop_label fx declared walker label symbol st =
     (case fmlookup (fs_provisional st) (label, symbol) of
        Some t \<Rightarrow> Returns (t, st)
      | None \<Rightarrow>
     (case (if fs_loop_depth st = 0 then fmlookup (fs_memo st) (label, symbol) else None) of
        Some t \<Rightarrow> Returns (t, st)
      | None \<Rightarrow>
     (case flow_node_at (fs_nodes st) label of
        Some (Flow_LoopLabel pre back) \<Rightarrow>
          (let st = st\<lparr>fs_loop_depth := fs_loop_depth st + 1,
                      fs_provisional := fmupd (label, symbol) (declared symbol) (fs_provisional st)\<rparr>
           in and_walk (resolve_each (\<lambda>a. resolve_with declared walker a symbol) pre st) (\<lambda>(pre_parts, st).
              union_in fx pre_parts st (\<lambda>seed st.
                let st = st\<lparr>fs_provisional := fmupd (label, symbol) seed (fs_provisional st)\<rparr>
                in and_walk (resolve_each (\<lambda>a. resolve_with declared walker a symbol) back st) (\<lambda>(back_parts, st).
                   let st = st\<lparr>fs_provisional := fmdrop (label, symbol) (fs_provisional st),
                              fs_loop_depth := fs_loop_depth st - 1\<rparr>
                   in union_in fx (seed # back_parts) st (\<lambda>result st.
                        Returns (result, if fs_loop_depth st = 0
                          then st\<lparr>fs_memo := fmupd (label, symbol) result (fs_memo st)\<rparr> else st))))))
      | _ \<Rightarrow> Returns (declared symbol, st))))"

fun resolve_walk ::
    "hasher \<Rightarrow> coordinator \<Rightarrow> declared_types \<Rightarrow> symbol_id \<Rightarrow> nat \<Rightarrow> walker" where
  "resolve_walk fx cr declared symbol 0 stack scratch st = Out_Of_Fuel"
| "resolve_walk fx cr declared symbol (Suc fuel) stack scratch st =
     (case stack of
        [] \<Rightarrow> Returns (scratch, st)
      | node # rest \<Rightarrow>
     (if node |\<in>| fmdom scratch then resolve_walk fx cr declared symbol fuel rest scratch st
      else
     (case flow_lookup_cached declared st node symbol of
        Some t \<Rightarrow> resolve_walk fx cr declared symbol fuel rest (fmupd node t scratch) st
      | None \<Rightarrow>
     (let settle = (\<lambda>t st. case flow_set scratch node symbol t st of
            (scratch, st) \<Rightarrow> resolve_walk fx cr declared symbol fuel rest scratch st);
          visit = (\<lambda>a. resolve_walk fx cr declared symbol fuel (a # stack) scratch st)
      in
      case flow_step_of st node of
        Step_Terminal t \<Rightarrow> settle t st
      | Step_Assignment target assigned antecedent \<Rightarrow>
          if target = symbol then settle (case assigned of Some t \<Rightarrow> t | None \<Rightarrow> declared symbol) st
          else (case scratch_or_cached declared st scratch antecedent symbol of
                  Some base \<Rightarrow> settle base st
                | None \<Rightarrow> visit antecedent)
      | Step_Condition guard_symbol op positive antecedent \<Rightarrow>
          (case scratch_or_cached declared st scratch antecedent symbol of
             None \<Rightarrow> visit antecedent
           | Some base \<Rightarrow>
               if guard_symbol = symbol then
                 or_panic st (narrow_query fx cr (fs_context st) base op positive) (\<lambda>(outcome, ctx).
                   settle (case outcome of Demand_Ready n \<Rightarrow> n | Demand_Exhausted _ \<Rightarrow> base) (st\<lparr>fs_context := ctx\<rparr>))
               else settle base st)
      | Step_Branch antecedents \<Rightarrow>
          (case find (\<lambda>a. scratch_or_cached declared st scratch a symbol = None) antecedents of
             Some a \<Rightarrow> visit a
           | None \<Rightarrow>
               union_in fx (map (\<lambda>a. case scratch_or_cached declared st scratch a symbol of Some t \<Rightarrow> t | None \<Rightarrow> declared symbol)
                 antecedents) st settle)
      | Step_Loop \<Rightarrow>
          and_walk (resolve_loop_label fx declared (resolve_walk fx cr declared symbol fuel) node symbol st) (\<lambda>(t, st).
            resolve_walk fx cr declared symbol fuel rest (fmupd node t scratch) st)))))"

definition resolve_narrowed_type ::
    "hasher \<Rightarrow> coordinator \<Rightarrow> declared_types \<Rightarrow> nat \<Rightarrow> flow_node_id \<Rightarrow> symbol_id \<Rightarrow> flow_state \<Rightarrow> (type_id \<times> flow_state) walk" where
  "resolve_narrowed_type fx cr declared fuel flow symbol st =
     resolve_with declared (resolve_walk fx cr declared symbol fuel) flow symbol st"

end
