(* ===== verification/Flow_Sound.thy ===== *)
theory Flow_Sound
  imports Flow_Graph
begin

text \<open>
  The meaning of a flow graph and the soundness of resolution. A value reaches a node along the edges
  of the graph, unchanged, past the guards it satisfies; the type resolved at a node holds every value
  that reaches it. The provisional type of a loop label is a source of values while the label is
  resolved, and one unrolling is enough because a value that comes round a loop reached its label
  before.
\<close>

section \<open>Values that reach a node\<close>

inductive reaches ::
    "flow_node list \<Rightarrow> symbol_id \<Rightarrow> (type_id \<Rightarrow> js_value set) \<Rightarrow> (narrow_op \<Rightarrow> bool \<Rightarrow> js_value \<Rightarrow> bool) \<Rightarrow> type_id \<Rightarrow>
     (flow_node_id \<rightharpoonup> js_value set) \<Rightarrow> flow_node_id \<Rightarrow> js_value \<Rightarrow> bool"
  for nodes symb sem passes dty Q where
  start: "Q FLOW_START = None \<Longrightarrow> v \<in> sem dty \<Longrightarrow> reaches nodes symb sem passes dty Q FLOW_START v"
| source: "Q n = Some V \<Longrightarrow> v \<in> V \<Longrightarrow> reaches nodes symb sem passes dty Q n v"
| assigned: "Q n = None \<Longrightarrow> flow_node_at nodes n = Some (Flow_Assignment symb a p) \<Longrightarrow>
    v \<in> sem (case a of Some t \<Rightarrow> t | None \<Rightarrow> dty) \<Longrightarrow> reaches nodes symb sem passes dty Q n v"
| passed: "Q n = None \<Longrightarrow> flow_node_at nodes n = Some (Flow_Assignment s a p) \<Longrightarrow> s \<noteq> symb \<Longrightarrow>
    reaches nodes symb sem passes dty Q p v \<Longrightarrow> reaches nodes symb sem passes dty Q n v"
| guarded: "Q n = None \<Longrightarrow> flow_node_at nodes n = Some (Flow_Condition symb op positive p) \<Longrightarrow>
    reaches nodes symb sem passes dty Q p v \<Longrightarrow> passes op positive v \<Longrightarrow> reaches nodes symb sem passes dty Q n v"
| unguarded: "Q n = None \<Longrightarrow> flow_node_at nodes n = Some (Flow_Condition s op positive p) \<Longrightarrow> s \<noteq> symb \<Longrightarrow>
    reaches nodes symb sem passes dty Q p v \<Longrightarrow> reaches nodes symb sem passes dty Q n v"
| joined: "Q n = None \<Longrightarrow> flow_node_at nodes n = Some (Flow_BranchLabel as) \<Longrightarrow> a \<in> set as \<Longrightarrow>
    reaches nodes symb sem passes dty Q a v \<Longrightarrow> reaches nodes symb sem passes dty Q n v"
| looped: "Q n = None \<Longrightarrow> flow_node_at nodes n = Some (Flow_LoopLabel pre back) \<Longrightarrow> a \<in> set pre \<union> set back \<Longrightarrow>
    reaches nodes symb sem passes dty Q a v \<Longrightarrow> reaches nodes symb sem passes dty Q n v"

inductive_simps reaches_iff: "reaches nodes symb sem passes dty Q n v"

text \<open>Sources that hold only values that reach them anyway add nothing.\<close>

lemma reaches_sources:
  assumes "\<And>l V v. Q l = Some V \<Longrightarrow> v \<in> V \<Longrightarrow> reaches nodes symb sem passes dty Map.empty l v"
  shows "reaches nodes symb sem passes dty Q n v \<Longrightarrow> reaches nodes symb sem passes dty Map.empty n v"
  by (induction rule: reaches.induct) (use assms in \<open>auto intro: reaches.intros\<close>)

text \<open>
  A value that reaches a node either does so without passing the label, whatever the label's source,
  or is among the values collected at the label's own edges.
\<close>

lemma reaches_cut:
  assumes l: "Q l = None" "flow_node_at nodes l = Some (Flow_LoopLabel pre back)" "l \<noteq> FLOW_START"
    and X: "\<And>a v. a \<in> set pre \<union> set back \<Longrightarrow> (\<And>Y. reaches nodes symb sem passes dty (Q(l \<mapsto> Y)) a v) \<Longrightarrow> v \<in> X"
  shows "reaches nodes symb sem passes dty Q n v \<Longrightarrow> v \<in> X \<or> (\<forall>Y. reaches nodes symb sem passes dty (Q(l \<mapsto> Y)) n v)"
proof (induction rule: reaches.induct)
  case (start v)
  then show ?case using l(3) by (auto intro!: reaches.start)
next
  case (source n V v)
  then have "n \<noteq> l" using l(1) by auto
  then show ?case using source by (auto intro!: reaches.source)
next
  case (assigned n a p v)
  then have "n \<noteq> l" using l(2) by auto
  then show ?case using assigned by (auto intro!: reaches.assigned)
next
  case (passed n s a p v)
  then have "n \<noteq> l" using l(2) by auto
  then show ?case using passed by (metis (no_types, lifting) fun_upd_other reaches.passed)
next
  case (guarded n op positive p v)
  then have "n \<noteq> l" using l(2) by auto
  then show ?case using guarded by (metis (no_types, lifting) fun_upd_other reaches.guarded)
next
  case (unguarded n s op positive p v)
  then have "n \<noteq> l" using l(2) by auto
  then show ?case using unguarded by (metis (no_types, lifting) fun_upd_other reaches.unguarded)
next
  case (joined n as a v)
  then have "n \<noteq> l" using l(2) by auto
  then show ?case using joined by (metis (no_types, lifting) fun_upd_other reaches.joined)
next
  case (looped n pre' back' a v)
  show ?case
  proof (cases "n = l")
    case True
    then have "a \<in> set pre \<union> set back" using looped l(2) by auto
    then show ?thesis using looped.IH X by blast
  next
    case False
    then show ?thesis using looped by (metis (no_types, lifting) fun_upd_other reaches.looped)
  qed
qed

lemma reaches_label:
  assumes l: "Q l = None" "flow_node_at nodes l = Some (Flow_LoopLabel pre back)" "l \<noteq> FLOW_START"
    and X: "\<And>a v. a \<in> set pre \<union> set back \<Longrightarrow> (\<And>Y. reaches nodes symb sem passes dty (Q(l \<mapsto> Y)) a v) \<Longrightarrow> v \<in> X"
    and v: "reaches nodes symb sem passes dty Q l v"
  shows "v \<in> X"
proof -
  from v obtain a where "a \<in> set pre \<union> set back" "reaches nodes symb sem passes dty Q a v"
    using l by (auto simp: reaches_iff [of nodes symb sem passes dty Q l v])
  moreover have "v \<in> X \<or> (\<forall>Y. reaches nodes symb sem passes dty (Q(l \<mapsto> Y)) a v)" if "reaches nodes symb sem passes dty Q a v" for a
    by (rule reaches_cut [where Q = Q, OF l _ that]) (rule X)
  ultimately show ?thesis using X by blast
qed

section \<open>Graphs the checker builds\<close>

text \<open>
  The two sentinels are in place, other nodes refer to nodes of the graph, and the antecedents of all
  but loop labels are older.
\<close>

fun node_ok :: "nat \<Rightarrow> nat \<Rightarrow> flow_node \<Rightarrow> bool" where
  "node_ok len i Flow_Unreachable \<longleftrightarrow> i = 0"
| "node_ok len i Flow_Start \<longleftrightarrow> i = 1"
| "node_ok len i (Flow_Assignment _ _ a) \<longleftrightarrow> unat a < i"
| "node_ok len i (Flow_Condition _ _ _ a) \<longleftrightarrow> unat a < i"
| "node_ok len i (Flow_BranchLabel as) \<longleftrightarrow> list_all (\<lambda>a. unat a < i) as"
| "node_ok len i (Flow_LoopLabel pre back) \<longleftrightarrow> list_all (\<lambda>a. unat a < len) (pre @ back)"

definition graph_ok :: "flow_node list \<Rightarrow> bool" where
  "graph_ok nodes \<longleftrightarrow> 2 \<le> length nodes \<and> length nodes < 2 ^ 32 \<and> nodes ! 0 = Flow_Unreachable \<and> nodes ! 1 = Flow_Start \<and>
     list_all (\<lambda>(i, n). node_ok (length nodes) i n) (enumerate 0 nodes)"

text \<open>The rows every guard on the symbol decides, and the types that may occur.\<close>

definition guards_decide :: "flow_node list \<Rightarrow> symbol_id \<Rightarrow> ty_row \<Rightarrow> bool" where
  "guards_decide nodes symb r \<longleftrightarrow>
     list_all (\<lambda>n. case n of Flow_Condition s op positive _ \<Rightarrow> s = symb \<longrightarrow> guard_decides op positive r | _ \<Rightarrow> True) nodes"

definition guards_plain :: "flow_node list \<Rightarrow> symbol_id \<Rightarrow> bool" where
  "guards_plain nodes symb \<longleftrightarrow> list_all (\<lambda>n. case n of Flow_Condition s op _ _ \<Rightarrow> s = symb \<longrightarrow> asks_nothing op | _ \<Rightarrow> True) nodes"

definition types_decided :: "interner \<Rightarrow> flow_node list \<Rightarrow> symbol_id \<Rightarrow> type_id \<Rightarrow> bool" where
  "types_decided it nodes symb dty \<longleftrightarrow> members_are it (guards_decide nodes symb) dty \<and>
     (\<forall>n \<in> set nodes. \<forall>t p. n = Flow_Assignment symb (Some t) p \<longrightarrow> members_are it (guards_decide nodes symb) t)"

lemma graph_okD:
  assumes "graph_ok nodes" "flow_node_at nodes n = Some x"
  shows "node_ok (length nodes) (unat n) x" "unat n < length nodes"
proof -
  have n: "unat n < length nodes" "nodes ! unat n = x" using assms(2) by (auto simp: flow_node_at_def nth_opt_eq_Some)
  then have "(unat n, x) \<in> set (enumerate 0 nodes)" by (simp add: in_set_enumerate_eq)
  with assms(1) show "node_ok (length nodes) (unat n) x" by (auto simp: graph_ok_def list_all_iff)
  show "unat n < length nodes" by (rule n(1))
qed

lemma boolean_decided: "guards_plain nodes symb \<Longrightarrow> guards_decide nodes symb (Row_Literal (Lit_Boolean b))"
  unfolding guards_plain_def guards_decide_def list_all_iff
proof (intro ballI)
  fix n assume *: "\<forall>n \<in> set nodes. case n of Flow_Condition s op _ _ \<Rightarrow> s = symb \<longrightarrow> asks_nothing op | _ \<Rightarrow> True" and "n \<in> set nodes"
  then have "case n of Flow_Condition s op _ _ \<Rightarrow> s = symb \<longrightarrow> asks_nothing op | _ \<Rightarrow> True" by blast
  then show "case n of Flow_Condition s op positive _ \<Rightarrow> s = symb \<longrightarrow> guard_decides op positive (Row_Literal (Lit_Boolean b)) | _ \<Rightarrow> True"
    by (cases n) (auto elim: asks_nothing.elims split: flow_node.splits)
qed

section \<open>The arena only grows\<close>

lemma hash_cons_len:
  assumes "hash_cons fx key eq push_row it = Some (t, it')" "\<And>s x s'. push_row s = Some (x, s') \<Longrightarrow> store_len s' = Suc (store_len s)"
  shows "store_len (it_store it) \<le> store_len (it_store it')"
  using assms by (auto simp: hash_cons_def Let_def split: Option.bind_splits option.splits if_splits prod.splits)

lemma push_len:
  "push_union s ms fl = (x, s') \<Longrightarrow> store_len s' = Suc (store_len s)"
  "push_literal s l fl = (x, s') \<Longrightarrow> store_len s' = Suc (store_len s)"
  by (auto simp: push_union_def push_literal_def Let_def store_len_push store_len_def push_def row_simps)

lemma union_len: "union_type fx it ms = Some (t, it') \<Longrightarrow> store_len (it_store it) \<le> store_len (it_store it')"
  by (auto simp: union_type_def intern_union_members_def Let_def push_len(1) elim!: hash_cons_len
      split: Option.bind_splits if_splits list.splits)

lemma literal_len: "intern_literal fx it l = Some (t, it') \<Longrightarrow> store_len (it_store it) \<le> store_len (it_store it')"
  unfolding intern_literal_def by (erule hash_cons_len) (auto simp: push_len(2))

lemma filter_union_len: "filter_union fx it ty keep = Some (t, it') \<Longrightarrow> store_len (it_store it) \<le> store_len (it_store it')"
  by (auto simp: filter_union_def Let_def dest: union_len split: Option.bind_splits if_splits option.splits)

lemma truthiness_len: "narrow_by_truthiness fx it ty positive = Some (t, it') \<Longrightarrow> store_len (it_store it) \<le> store_len (it_store it')"
  by (fastforce simp: narrow_by_truthiness_def Let_def dest: union_len literal_len split: Option.bind_splits if_splits)

lemma narrow_len:
  "narrow_by_typeof fx it ty tg positive = Some (t, it') \<Longrightarrow> store_len (it_store it) \<le> store_len (it_store it')"
  "narrow_by_nullish_equality fx it ty u positive = Some (t, it') \<Longrightarrow> store_len (it_store it) \<le> store_len (it_store it')"
  by (auto simp: narrow_by_typeof_def narrow_by_nullish_equality_def Let_def dest: filter_union_len)

lemma narrow_query_len:
  assumes "layered_state (fc_queries ctx)" "asks_nothing op" "narrow_query fx cr ctx ty op positive = Some (r, ctx')"
  shows "layered_state (fc_queries ctx') \<and> store_len (it_store (fc_interner ctx)) \<le> store_len (it_store (fc_interner ctx')) \<and>
    (\<exists>n. r = Demand_Ready n)"
proof -
  from empty_transaction [OF assms(1)] obtain qs' where "qs_commit (qs_savepoint (fc_queries ctx)) = Some qs'" "layered_state qs'" by blast
  with assms(2,3) show ?thesis
    by (cases op) (auto simp: narrow_query_def Let_def elim!: narrow_len truthiness_len split: Option.bind_splits)
qed

section \<open>Running the walk\<close>

locale flow_run =
  fixes fx :: hasher and cr :: coordinator and declared :: declared_types and nodes :: "flow_node list"
    and symb :: symbol_id and it0 :: interner and h :: js_heap
  assumes arena: "session_inv fx it0" and graph: "graph_ok nodes" and plain: "guards_plain nodes symb"
    and typed: "types_decided it0 nodes symb (declared symb)"
begin

definition R :: "ty_row \<Rightarrow> bool" where
  "R = guards_decide nodes symb"

definition vals :: "interner \<Rightarrow> type_id \<Rightarrow> js_value set" where
  "vals it t = {v. value_in it h v t}"

definition reach :: "(flow_node_id \<rightharpoonup> js_value set) \<Rightarrow> flow_node_id \<Rightarrow> js_value \<Rightarrow> bool" where
  "reach = reaches nodes symb (vals it0) (guard_passes it0 h) (declared symb)"

definition sources :: "flow_state \<Rightarrow> flow_node_id \<rightharpoonup> js_value set" where
  "sources st l = map_option (\<lambda>t. vals (fs_interner st) t \<inter> {v. reach Map.empty l v}) (fmlookup (fs_provisional st) (l, symb))"

definition roomy :: "flow_state \<Rightarrow> bool" where
  "roomy st \<longleftrightarrow> room (fs_interner st)"

definition good :: "flow_state \<Rightarrow> type_id \<Rightarrow> bool" where
  "good st t \<longleftrightarrow> members_are (fs_interner st) R t"

definition covers :: "flow_state \<Rightarrow> flow_node_id \<Rightarrow> type_id \<Rightarrow> bool" where
  "covers st n t \<longleftrightarrow> (roomy st \<longrightarrow> good st t \<and> (\<forall>v. reach (sources st) n v \<longrightarrow> v \<in> vals (fs_interner st) t))"

definition is_label :: "flow_node_id \<Rightarrow> bool" where
  "is_label l \<longleftrightarrow> (\<exists>pre back. flow_node_at nodes l = Some (Flow_LoopLabel pre back))"

definition shape_inv :: "flow_state \<Rightarrow> bool" where
  "shape_inv st \<longleftrightarrow> fs_nodes st = nodes \<and> layered_state (fc_queries (fs_context st)) \<and>
     unat (fs_loop_depth st) = fcard (fmdom (fs_provisional st)) \<and>
     (\<forall>k t. fmlookup (fs_provisional st) k = Some t \<longrightarrow> snd k = symb \<and> is_label (fst k))"

definition types_inv :: "flow_state \<Rightarrow> bool" where
  "types_inv st \<longleftrightarrow> grown fx it0 (fs_interner st) \<and> (\<forall>k t. fmlookup (fs_provisional st) k = Some t \<longrightarrow> good st t) \<and>
     (\<forall>n t. fmlookup (fs_memo st) (n, symb) = Some t \<longrightarrow> good st t \<and> (\<forall>v. reach Map.empty n v \<longrightarrow> v \<in> vals (fs_interner st) t))"

definition run_inv :: "flow_state \<Rightarrow> bool" where
  "run_inv st \<longleftrightarrow> shape_inv st \<and> (roomy st \<longrightarrow> types_inv st)"

definition later :: "flow_state \<Rightarrow> flow_state \<Rightarrow> bool" where
  "later st st' \<longleftrightarrow> store_len (it_store (fs_interner st)) \<le> store_len (it_store (fs_interner st')) \<and>
     (roomy st' \<longrightarrow> grown fx (fs_interner st) (fs_interner st'))"

definition after :: "flow_state \<Rightarrow> flow_state \<Rightarrow> bool" where
  "after st st' \<longleftrightarrow> run_inv st' \<and> fs_provisional st' = fs_provisional st \<and> fs_loop_depth st' = fs_loop_depth st \<and> later st st'"

definition gives :: "('a \<Rightarrow> flow_state \<Rightarrow> bool) \<Rightarrow> ('a \<times> flow_state) walk \<Rightarrow> bool" where
  "gives P r \<longleftrightarrow> (case r of Out_Of_Fuel \<Rightarrow> False | Panics st \<Rightarrow> \<not> roomy st | Returns (x, st) \<Rightarrow> P x st)"

lemma gives_return [simp]: "gives P (Returns (x, st)) \<longleftrightarrow> P x st"
  by (simp add: gives_def)

lemma gives_bind:
  "gives P r \<Longrightarrow> (\<And>x st. P x st \<Longrightarrow> gives P' (f (x, st))) \<Longrightarrow> gives P' (and_walk r f)"
  by (cases r) (auto simp: gives_def)

lemma gives_mono: "gives P r \<Longrightarrow> (\<And>x st. P x st \<Longrightarrow> P' x st) \<Longrightarrow> gives P' r"
  by (auto simp: gives_def split: walk.splits)

lemma later_roomy: "later st st' \<Longrightarrow> roomy st' \<Longrightarrow> roomy st"
  by (auto simp: later_def roomy_def room_def)

lemma later_trans: "later a b \<Longrightarrow> later b c \<Longrightarrow> later a c"
  using later_roomy [of b c] by (auto simp: later_def intro: grown_trans)

lemma run_session: "run_inv st \<Longrightarrow> roomy st \<Longrightarrow> session_inv fx (fs_interner st)"
  by (simp add: run_inv_def types_inv_def grown_def)

lemma later_refl: "run_inv st \<Longrightarrow> later st st"
  using run_session [of st] by (simp add: later_def grown_refl)

lemma after_refl: "run_inv st \<Longrightarrow> after st st"
  using later_refl by (simp add: after_def)

lemma after_trans: "after a b \<Longrightarrow> after b c \<Longrightarrow> after a c"
  using later_trans by (auto simp: after_def)

lemma vals_grown: "session_inv fx it \<Longrightarrow> grown fx it it' \<Longrightarrow> valid it t \<Longrightarrow> vals it' t = vals it t"
  by (simp add: vals_def grown_values)

lemma good_valid: "good st t \<Longrightarrow> valid (fs_interner st) t"
  unfolding good_def members_are_def by (rule conjunct1)

lemma good_later:
  assumes "run_inv st" "later st st'" "roomy st'" "good st t"
  shows "good st' t" "vals (fs_interner st') t = vals (fs_interner st) t"
proof -
  have s: "session_inv fx (fs_interner st)" "grown fx (fs_interner st) (fs_interner st')"
    using run_session later_roomy assms by (auto simp: later_def)
  show "good st' t" using members_are_grown [OF s] assms(4) by (simp add: good_def)
  show "vals (fs_interner st') t = vals (fs_interner st) t" by (rule vals_grown [OF s good_valid [OF assms(4)]])
qed

lemma provisional_good: "run_inv st \<Longrightarrow> roomy st \<Longrightarrow> fmlookup (fs_provisional st) k = Some t \<Longrightarrow> good st t"
  unfolding run_inv_def types_inv_def by blast

lemma provisional_label: "run_inv st \<Longrightarrow> fmlookup (fs_provisional st) (l, s) = Some t \<Longrightarrow> s = symb \<and> is_label l"
  by (fastforce simp: run_inv_def shape_inv_def)

lemma sources_later:
  assumes "run_inv st" "later st st'" "roomy st'" "fs_provisional st' = fs_provisional st"
  shows "sources st' = sources st"
proof
  fix l
  show "sources st' l = sources st l"
  proof (cases "fmlookup (fs_provisional st) (l, symb)")
    case (Some t)
    with good_later(2) [OF assms(1-3)] provisional_good assms later_roomy show ?thesis by (simp add: sources_def)
  qed (simp add: sources_def assms(4))
qed

lemma covers_after: "run_inv st \<Longrightarrow> after st st' \<Longrightarrow> covers st n t \<Longrightarrow> covers st' n t"
  using good_later [of st st' t] later_roomy [of st st'] sources_later [of st st'] by (simp add: covers_def after_def)

lemma reach_sources: "reach (sources st) n v \<Longrightarrow> reach Map.empty n v"
  unfolding reach_def by (rule reaches_sources) (auto simp: sources_def reach_def split: option.splits)

lemma old_type:
  assumes "run_inv st" "roomy st" "members_are it0 R t"
  shows "good st t" "vals (fs_interner st) t = vals it0 t"
proof -
  have g: "grown fx it0 (fs_interner st)" using assms by (simp add: run_inv_def types_inv_def)
  show "good st t" using members_are_grown [OF arena g assms(3)] by (simp add: good_def)
  have "valid it0 t" using assms(3) unfolding members_are_def by (rule conjunct1)
  then show "vals (fs_interner st) t = vals it0 t" by (rule vals_grown [OF arena g])
qed

lemma declared_decided: "members_are it0 R (declared symb)"
  using typed by (simp add: types_decided_def R_def)

lemma sentinel_nodes: "flow_node_at nodes FLOW_START = Some Flow_Start" "flow_node_at nodes FLOW_UNREACHABLE = Some Flow_Unreachable"
  using graph by (auto simp: graph_ok_def flow_node_at_def nth_opt_def FLOW_START_def FLOW_UNREACHABLE_def)

lemma label_not_sentinel: "is_label l \<Longrightarrow> l \<noteq> FLOW_START \<and> l \<noteq> FLOW_UNREACHABLE"
  using sentinel_nodes by (auto simp: is_label_def)

lemma no_source: "fmlookup (fs_provisional st) (n, symb) = None \<Longrightarrow> sources st n = None"
  by (simp add: sources_def)

lemma sentinel_source: "run_inv st \<Longrightarrow> n = FLOW_START \<or> n = FLOW_UNREACHABLE \<Longrightarrow> sources st n = None"
  using provisional_label [of st n symb] label_not_sentinel [of n] no_source [of st n] by (cases "fmlookup (fs_provisional st) (n, symb)") auto

text \<open>Where a value that reaches a node without a source comes from.\<close>

definition comes_from :: "flow_state \<Rightarrow> flow_node \<Rightarrow> js_value \<Rightarrow> bool" where
  "comes_from st x v \<longleftrightarrow> (case x of
     Flow_Unreachable \<Rightarrow> False
   | Flow_Start \<Rightarrow> v \<in> vals it0 (declared symb)
   | Flow_Assignment s a p \<Rightarrow> if s = symb then v \<in> vals it0 (case a of Some t \<Rightarrow> t | None \<Rightarrow> declared symb) else reach (sources st) p v
   | Flow_Condition s op positive p \<Rightarrow> reach (sources st) p v \<and> (s = symb \<longrightarrow> guard_passes it0 h op positive v)
   | Flow_BranchLabel as \<Rightarrow> \<exists>a \<in> set as. reach (sources st) a v
   | Flow_LoopLabel pre back \<Rightarrow> \<exists>a \<in> set pre \<union> set back. reach (sources st) a v)"

lemma reach_from:
  assumes "reach (sources st) n v" "sources st n = None" "flow_node_at nodes n = Some x"
  shows "comes_from st x v"
  using assms(1) unfolding reach_def
  by (cases rule: reaches.cases) (use assms(2,3) sentinel_nodes(1) in \<open>simp_all add: comes_from_def reach_def, blast+\<close>)

lemma lookup_covers:
  assumes st: "run_inv st" and t: "flow_lookup_cached declared st n symb = Some t"
  shows "covers st n t"
  unfolding covers_def
proof (intro impI)
  assume r: "roomy st"
  note dec = old_type [OF st r declared_decided]
  consider "n = FLOW_START \<or> n = FLOW_UNREACHABLE" "t = declared symb"
    | "fmlookup (fs_provisional st) (n, symb) = Some t" | "fmlookup (fs_memo st) (n, symb) = Some t"
    using t unfolding flow_lookup_cached_def
    by (cases "fmlookup (fs_provisional st) (n, symb)"; cases "n = FLOW_START \<or> n = FLOW_UNREACHABLE"; simp)
  then show "good st t \<and> (\<forall>v. reach (sources st) n v \<longrightarrow> v \<in> vals (fs_interner st) t)"
  proof cases
    case 1
    have "v \<in> vals it0 (declared symb)" if "reach (sources st) n v" for v
      using 1(1) reach_from [OF that sentinel_source [OF st 1(1)]] sentinel_nodes by (auto simp: comes_from_def)
    with 1(2) dec show ?thesis by simp
  next
    case 2
    then have "sources st n = Some (vals (fs_interner st) t \<inter> {v. reach Map.empty n v})" by (simp add: sources_def)
    then have "v \<in> vals (fs_interner st) t" if "reach (sources st) n v" for v
      using that unfolding reach_def by (subst (asm) reaches_iff) auto
    with 2 provisional_good [OF st r] show ?thesis by blast
  next
    case 3
    with st r reach_sources [of st n] show ?thesis by (auto simp: run_inv_def types_inv_def)
  qed
qed

section \<open>Steps of the walk\<close>

definition free_labels :: "flow_state \<Rightarrow> nat" where
  "free_labels st = card {l. is_label l \<and> fmlookup (fs_provisional st) (l, symb) = None}"

definition scratch_ok :: "flow_state \<Rightarrow> scratch \<Rightarrow> bool" where
  "scratch_ok st scr \<longleftrightarrow> (\<forall>n t. fmlookup scr n = Some t \<longrightarrow> unat n < length nodes \<and> covers st n t)"

lemma finite_nodes: "finite {n :: flow_node_id. unat n < length nodes}"
  by (rule inj_on_finite [of unat _ "{..<length nodes}"]) (auto simp: inj_on_def word_unat_eq_iff)

lemma card_nodes: "card {n :: flow_node_id. unat n < length nodes} \<le> length nodes"
  using card_inj_on_le [of unat "{n :: flow_node_id. unat n < length nodes}" "{..<length nodes}"] by (auto simp: inj_on_def word_unat_eq_iff)

lemma label_id: "is_label l \<Longrightarrow> unat l < length nodes"
  using graph_okD [OF graph] by (auto simp: is_label_def)

lemma finite_labels: "finite {l. is_label l \<and> P l}"
  by (rule finite_subset [OF _ finite_nodes]) (auto dest: label_id)

lemma scratch_ok_upd:
  "scratch_ok st scr \<Longrightarrow> run_inv st \<Longrightarrow> after st st' \<Longrightarrow> unat n < length nodes \<Longrightarrow> covers st' n t \<Longrightarrow> scratch_ok st' (fmupd n t scr)"
  using covers_after [of st st'] by (auto simp: scratch_ok_def)

lemma lookup_scratch:
  "scratch_ok st scr \<Longrightarrow> run_inv st \<Longrightarrow> scratch_or_cached declared st scr n symb = Some t \<Longrightarrow> covers st n t"
  using lookup_covers by (auto simp: scratch_or_cached_def scratch_ok_def split: option.splits)

text \<open>Settling a node: its type goes to the scratch table and, outside loops, to the memo.\<close>

lemma memo_ok:
  assumes st: "run_inv st" and n: "covers st n t" and z: "fs_loop_depth st = 0"
  shows "after st (st\<lparr>fs_memo := fmupd (n, symb) t (fs_memo st)\<rparr>)"
proof -
  let ?st = "st\<lparr>fs_memo := fmupd (n, symb) t (fs_memo st)\<rparr>"
  have "fcard (fmdom (fs_provisional st)) = 0" using st z by (simp add: run_inv_def shape_inv_def)
  then have "fs_provisional st = fmempty" by (simp add: fmdom'_alt_def fcard_0_eq fmap_ext)
  then have "sources st = Map.empty" by (auto simp: sources_def)
  then have *: "good st t \<and> (\<forall>v. reach Map.empty n v \<longrightarrow> v \<in> vals (fs_interner st) t)" if "roomy st"
    using n that by (simp add: covers_def)
  have same: "good ?st = good st" "roomy ?st = roomy st" by (auto simp: good_def roomy_def)
  have "shape_inv ?st" using st by (simp add: run_inv_def shape_inv_def)
  moreover have "types_inv ?st" if "roomy st"
    using st that * [OF that] unfolding types_inv_def same run_inv_def by simp
  ultimately have "run_inv ?st" by (simp add: run_inv_def same)
  with later_refl [OF st] same show ?thesis by (simp add: after_def later_def)
qed

lemma settle_ok:
  assumes "run_inv st" "covers st n t" "flow_set scr n symb t st = (scr', st')"
  shows "after st st'" "scr' = fmupd n t scr" "covers st' n t"
proof -
  have st': "st' = (if fs_loop_depth st = 0 then st\<lparr>fs_memo := fmupd (n, symb) t (fs_memo st)\<rparr> else st)"
    using assms(3) by (simp add: flow_set_def)
  show a: "after st st'" using memo_ok [OF assms(1,2)] after_refl [OF assms(1)] st' by simp
  show "scr' = fmupd n t scr" using assms(3) by (simp add: flow_set_def)
  show "covers st' n t" by (rule covers_after [OF assms(1) a assms(2)])
qed

text \<open>New contexts: the interner and the query state change, the tables stay.\<close>

lemma context_after:
  assumes st: "run_inv st" and lay: "layered_state (fc_queries ctx)"
    and len: "store_len (it_store (fs_interner st)) \<le> store_len (it_store (fc_interner ctx))"
    and g: "room (fc_interner ctx) \<Longrightarrow> grown fx (fs_interner st) (fc_interner ctx)"
  shows "after st (st\<lparr>fs_context := ctx\<rparr>)"
proof -
  let ?st = "st\<lparr>fs_context := ctx\<rparr>"
  have later: "later st ?st" using len g by (simp add: later_def roomy_def)
  have "types_inv ?st" if r: "roomy ?st"
  proof -
    note up = good_later [OF st later r]
    have t: "types_inv st" using st later_roomy [OF later r] by (simp add: run_inv_def)
    then have "grown fx it0 (fs_interner ?st)" using later r unfolding types_inv_def later_def by (blast intro: grown_trans)
    then show ?thesis using t up by (auto simp: types_inv_def)
  qed
  moreover have "shape_inv ?st" using st lay by (simp add: run_inv_def shape_inv_def)
  ultimately show ?thesis using later by (simp add: after_def run_inv_def)
qed

lemma union_gives:
  assumes st: "run_inv st" and parts: "\<And>p. roomy st \<Longrightarrow> p \<in> set parts \<Longrightarrow> good st p"
    and cont: "\<And>t st'. after st st' \<Longrightarrow>
      (roomy st' \<Longrightarrow> good st' t \<and> vals (fs_interner st') t = (\<Union>p \<in> set parts. vals (fs_interner st) p)) \<Longrightarrow> gives P (f t st')"
  shows "gives P (union_in fx parts st f)"
proof -
  have u: "\<exists>t it'. union_type fx (fs_interner st) parts = Some (t, it') \<and> grown fx (fs_interner st) it' \<and> members_are it' R t \<and>
      vals it' t = (\<Union>p \<in> set parts. vals (fs_interner st) p)" if r: "roomy st"
  proof -
    have cap: "store_len (it_store (fs_interner st)) < 2 ^ 32" using r by (simp add: roomy_def room_def)
    have p: "\<forall>m \<in> set parts. valid (fs_interner st) m" using parts [OF r] good_valid by blast
    have m: "\<forall>m \<in> set parts. members_are (fs_interner st) R m" using parts [OF r] by (simp add: good_def)
    from union_values [OF run_session [OF st r] cap p] obtain t it' where
      t: "union_type fx (fs_interner st) parts = Some (t, it')" "grown fx (fs_interner st) it'"
      and v: "\<And>v. value_in it' h v t \<longleftrightarrow> (\<exists>m \<in> set parts. value_in (fs_interner st) h v m)"
      and R: "(\<forall>m \<in> set parts. members_are (fs_interner st) R m) \<longrightarrow> members_are it' R t" by blast
    have "vals it' t = (\<Union>p \<in> set parts. vals (fs_interner st) p)" using v by (auto simp: vals_def)
    with t R m show ?thesis by blast
  qed
  show ?thesis
  proof (cases "union_type fx (fs_interner st) parts")
    case None
    with u have "\<not> roomy st" by auto
    with None show ?thesis by (simp add: union_in_def or_panic_def gives_def)
  next
    case (Some r)
    then obtain t it' where eq: "union_type fx (fs_interner st) parts = Some (t, it')" by (cases r) auto
    let ?ctx = "(fs_context st)\<lparr>fc_interner := it'\<rparr>"
    have len: "store_len (it_store (fs_interner st)) \<le> store_len (it_store it')" by (rule union_len [OF eq])
    then have roomy: "roomy st" if "room it'" using that by (auto simp: roomy_def room_def)
    have "after st (st\<lparr>fs_context := ?ctx\<rparr>)"
    proof (rule context_after [OF st])
      show "layered_state (fc_queries ?ctx)" using st by (simp add: run_inv_def shape_inv_def)
    qed (use len u eq roomy in auto)
    then have "gives P (f t (st\<lparr>fs_context := ?ctx\<rparr>))"
      by (rule cont) (use u eq roomy in \<open>auto simp: good_def roomy_def\<close>)
    with eq show ?thesis by (simp add: union_in_def or_panic_def)
  qed
qed

lemma narrow_gives:
  assumes st: "run_inv st" and base: "covers st p base" and n: "sources st n = None"
    and node: "flow_node_at nodes n = Some (Flow_Condition symb op positive p)"
    and cont: "\<And>t ctx. after st (st\<lparr>fs_context := ctx\<rparr>) \<Longrightarrow> covers (st\<lparr>fs_context := ctx\<rparr>) n t \<Longrightarrow>
      gives P (f (Demand_Ready t, ctx))"
  shows "gives P (or_panic st (narrow_query fx cr (fs_context st) base op positive) f)"
proof -
  let ?ctx = "fs_context st" and ?it = "fs_interner st"
  have mem: "Flow_Condition symb op positive p \<in> set nodes"
    using node nth_mem [of "unat n" nodes] by (simp add: flow_node_at_def nth_opt_eq_Some)
  have op: "asks_nothing op" using plain mem by (auto simp: guards_plain_def list_all_iff)
  have decides: "R r \<Longrightarrow> guard_decides op positive r" for r using mem by (auto simp: R_def guards_decide_def list_all_iff)
  have lay: "layered_state (fc_queries ?ctx)" using st by (simp add: run_inv_def shape_inv_def)
  have ok: "\<exists>t ctx. narrow_query fx cr ?ctx base op positive = Some (Demand_Ready t, ctx) \<and>
      narrowed fx ?it base (\<lambda>h. guard_passes ?it h op positive) t (fc_interner ctx)" if r: "roomy st"
  proof -
    have "members_are ?it (guard_decides op positive) base"
      using base r decides unfolding covers_def good_def members_are_def by blast
    with narrow_query_sound [OF run_session [OF st r] lay _ _ op] r show ?thesis unfolding roomy_def by blast
  qed
  show ?thesis
  proof (cases "narrow_query fx cr ?ctx base op positive")
    case None
    with ok have "\<not> roomy st" by auto
    with None show ?thesis by (simp add: or_panic_def gives_def)
  next
    case (Some out)
    then obtain x ctx where eq: "narrow_query fx cr ?ctx base op positive = Some (x, ctx)" by (cases out) auto
    from narrow_query_len [OF lay op this] obtain t where
      len: "layered_state (fc_queries ctx)" "store_len (it_store ?it) \<le> store_len (it_store (fc_interner ctx))" and x: "x = Demand_Ready t"
      by blast
    have roomy: "roomy st" if "room (fc_interner ctx)" using that len(2) by (auto simp: roomy_def room_def)
    have nar: "narrowed fx ?it base (\<lambda>h. guard_passes ?it h op positive) t (fc_interner ctx)" if "room (fc_interner ctx)"
      using ok [OF roomy [OF that]] eq x by auto
    have a: "after st (st\<lparr>fs_context := ctx\<rparr>)"
      by (rule context_after [OF st len]) (use nar in \<open>auto simp: narrowed_def\<close>)
    have "covers (st\<lparr>fs_context := ctx\<rparr>) n t"
      unfolding covers_def
    proof (intro impI conjI allI)
      let ?st = "st\<lparr>fs_context := ctx\<rparr>"
      assume r: "roomy ?st"
      note nr = nar [OF r [unfolded roomy_def, simplified]]
      have rst: "roomy st" using r a later_roomy by (auto simp: after_def)
      have "R (Row_Literal (Lit_Boolean b))" for b unfolding R_def by (rule boolean_decided [OF plain])
      then show "good ?st t" using nr base rst by (auto simp: narrowed_def covers_def good_def)
      fix v assume "reach (sources ?st) n v"
      then have "reach (sources st) n v" using sources_later [OF st _ r] a by (simp add: after_def)
      from reach_from [OF this n node] have v: "reach (sources st) p v" "guard_passes it0 h op positive v" by (simp_all add: comes_from_def)
      have "guard_passes ?it h op positive v"
        using v(2) op by (cases op) simp_all
      moreover have "v \<in> vals ?it base" using v(1) base rst by (simp add: covers_def)
      ultimately show "v \<in> vals (fs_interner ?st) t" using nr by (simp add: narrowed_def vals_def)
    qed
    from cont [OF a this] eq x show ?thesis by (simp add: or_panic_def)
  qed
qed

section \<open>Loop labels\<close>

definition walker_ok :: "nat \<Rightarrow> walker \<Rightarrow> bool" where
  "walker_ok k W \<longleftrightarrow> (\<forall>st n. run_inv st \<and> free_labels st \<le> k \<and> unat n < length nodes \<longrightarrow>
     gives (\<lambda>scr st'. after st st' \<and> scratch_ok st' scr \<and> n |\<in>| fmdom scr) (W [n] fmempty st))"

lemma after_run: "after st st' \<Longrightarrow> run_inv st'"
  by (simp add: after_def)

lemma free_after: "after st st' \<Longrightarrow> free_labels st' = free_labels st"
  by (simp add: after_def free_labels_def)

lemma resolve_with_ok:
  assumes W: "walker_ok k W" and st: "run_inv st" "free_labels st \<le> k" and n: "unat n < length nodes"
  shows "gives (\<lambda>t st'. after st st' \<and> covers st' n t) (resolve_with declared W n symb st)"
proof (cases "flow_lookup_cached declared st n symb")
  case (Some t)
  then show ?thesis using lookup_covers [OF st(1)] after_refl [OF st(1)] by (simp add: resolve_with_def)
next
  case None
  from W st n have "gives (\<lambda>scr st'. after st st' \<and> scratch_ok st' scr \<and> n |\<in>| fmdom scr) (W [n] fmempty st)" by (simp add: walker_ok_def)
  with None show ?thesis
    by (auto simp: resolve_with_def scratch_ok_def fmlookup_dom_iff elim!: gives_bind)
qed

lemma resolve_each_ok:
  assumes W: "walker_ok k W"
  shows "run_inv st \<Longrightarrow> free_labels st \<le> k \<Longrightarrow> \<forall>a \<in> set as. unat a < length nodes \<Longrightarrow>
    gives (\<lambda>ts st'. after st st' \<and> list_all2 (covers st') as ts) (resolve_each (\<lambda>a. resolve_with declared W a symb) as st)"
proof (induction as arbitrary: st)
  case (Cons a as)
  have step: "gives (\<lambda>ts st'. after st st' \<and> list_all2 (covers st') (a # as) ts)
      (and_walk (resolve_each (\<lambda>a. resolve_with declared W a symb) as st1) (\<lambda>(ts, st). Returns (t # ts, st)))"
    if 1: "after st st1 \<and> covers st1 a t" for t st1
  proof -
    have "gives (\<lambda>ts st'. after st1 st' \<and> list_all2 (covers st') as ts) (resolve_each (\<lambda>a. resolve_with declared W a symb) as st1)"
      using 1 Cons.prems by (intro Cons.IH) (auto simp: after_run free_after)
    then show ?thesis
      by (rule gives_bind) (use 1 in \<open>auto intro: after_trans covers_after [OF after_run]\<close>)
  qed
  have "gives (\<lambda>t st'. after st st' \<and> covers st' a t) (resolve_with declared W a symb st)"
    by (rule resolve_with_ok [OF W Cons.prems(1,2)]) (use Cons.prems(3) in simp)
  then show ?case unfolding resolve_each.simps by (rule gives_bind) (use step in simp)
qed (simp add: after_refl)

lemma provisional_card:
  assumes "\<And>k t. fmlookup q k = Some t \<Longrightarrow> snd k = symb \<and> is_label (fst k)"
  shows "fcard (fmdom q) \<le> length nodes"
proof -
  have k: "snd x = symb \<and> is_label (fst x)" if "x \<in> fset (fmdom q)" for x
    using that assms unfolding fmlookup_dom_iff by blast
  then have "inj_on fst (fset (fmdom q))" unfolding inj_on_def prod_eq_iff by simp
  moreover have "fst ` fset (fmdom q) \<subseteq> {n. unat n < length nodes}" using k label_id by auto
  ultimately have "card (fset (fmdom q)) \<le> card {n :: flow_node_id. unat n < length nodes}"
    by (rule card_inj_on_le [OF _ _ finite_nodes])
  with card_nodes show ?thesis by (simp add: fcard.rep_eq)
qed

lemma provisional_run:
  assumes st: "run_inv st" and same: "fs_nodes st' = fs_nodes st" "fs_memo st' = fs_memo st" "fs_context st' = fs_context st"
    and depth: "unat (fs_loop_depth st') = fcard (fmdom (fs_provisional st'))"
    and p: "\<And>k t. fmlookup (fs_provisional st') k = Some t \<Longrightarrow> snd k = symb \<and> is_label (fst k) \<and> (roomy st \<longrightarrow> good st t)"
  shows "run_inv st'"
proof -
  have eq: "roomy st' = roomy st" "good st' = good st" by (auto simp: roomy_def good_def same)
  have "shape_inv st'" using st depth p by (auto simp: run_inv_def shape_inv_def same)
  moreover have "types_inv st'" if "roomy st" using st p that unfolding run_inv_def types_inv_def eq same by blast
  ultimately show ?thesis by (simp add: run_inv_def eq)
qed

lemma enter_label:
  assumes st: "run_inv st" and l: "is_label l" "fmlookup (fs_provisional st) (l, symb) = None"
    and st1: "st1 = st\<lparr>fs_loop_depth := fs_loop_depth st + 1, fs_provisional := fmupd (l, symb) (declared symb) (fs_provisional st)\<rparr>"
  shows "run_inv st1" "Suc (free_labels st1) = free_labels st"
proof -
  have p: "snd k = symb \<and> is_label (fst k) \<and> (roomy st \<longrightarrow> good st t)" if "fmlookup (fs_provisional st1) k = Some t" for k t
  proof (cases "k = (l, symb)")
    case True
    with that l st1 old_type(1) [OF st _ declared_decided] show ?thesis by simp
  next
    case False
    with that have "fmlookup (fs_provisional st) k = Some t" by (simp add: st1)
    with provisional_good [OF st] provisional_label [OF st] show ?thesis by (cases k) auto
  qed
  have "(l, symb) |\<notin>| fmdom (fs_provisional st)" using l(2) by (simp add: fmdom_notI)
  then have c: "fcard (fmdom (fs_provisional st1)) = Suc (fcard (fmdom (fs_provisional st)))"
    by (simp add: st1 fcard_finsert_disjoint)
  have "fcard (fmdom (fs_provisional st1)) < 2 ^ 32"
    using provisional_card [of "fs_provisional st1"] p graph by (fastforce simp: graph_ok_def)
  moreover have "unat (fs_loop_depth st) = fcard (fmdom (fs_provisional st))" using st by (simp add: run_inv_def shape_inv_def)
  ultimately have "unat (fs_loop_depth st1) = fcard (fmdom (fs_provisional st1))"
    using c by (simp add: st1 unat_word_ariths)
  then show "run_inv st1" by (intro provisional_run [OF st]) (use p in \<open>simp_all add: st1\<close>)
  have "{x. is_label x \<and> fmlookup (fs_provisional st1) (x, symb) = None} = {x. is_label x \<and> fmlookup (fs_provisional st) (x, symb) = None} - {l}"
    by (auto simp: st1)
  then show "Suc (free_labels st1) = free_labels st"
    using l card_Suc_Diff1 [OF finite_labels, of l] by (simp only: free_labels_def) simp
qed

lemma seed_label:
  assumes st: "run_inv st" and p: "fmlookup (fs_provisional st) (l, symb) = Some t" and s: "roomy st \<Longrightarrow> good st seed"
    and st4: "st4 = st\<lparr>fs_provisional := fmupd (l, symb) seed (fs_provisional st)\<rparr>"
  shows "run_inv st4" "free_labels st4 = free_labels st"
proof -
  have "fmdom (fs_provisional st4) = fmdom (fs_provisional st)" using p by (auto simp: st4 fmlookup_dom_iff)
  moreover have "unat (fs_loop_depth st) = fcard (fmdom (fs_provisional st))" using st by (simp add: run_inv_def shape_inv_def)
  ultimately show "run_inv st4"
  proof (intro provisional_run [OF st])
    fix k x assume "fmlookup (fs_provisional st4) k = Some x"
    then consider "k = (l, symb)" "x = seed" | "fmlookup (fs_provisional st) k = Some x"
      unfolding st4 by (cases "k = (l, symb)") simp_all
    then show "snd k = symb \<and> is_label (fst k) \<and> (roomy st \<longrightarrow> good st x)"
      using provisional_good [OF st] provisional_label [OF st] provisional_label [OF st p] s by cases (simp, cases k, auto)
  qed (simp_all add: st4)
  show "free_labels st4 = free_labels st" using p by (auto simp: free_labels_def st4 intro!: arg_cong [where f = card])
qed

lemma leave_label:
  assumes st: "run_inv st" and p: "fmlookup (fs_provisional st) (l, symb) = Some t"
    and st6: "st6 = st\<lparr>fs_provisional := fmdrop (l, symb) (fs_provisional st), fs_loop_depth := fs_loop_depth st - 1\<rparr>"
  shows "run_inv st6"
proof (rule provisional_run [OF st])
  have mem: "(l, symb) |\<in>| fmdom (fs_provisional st)" using p by (simp add: fmlookup_dom_iff)
  then have "fcard (fmdom (fs_provisional st)) = Suc (fcard (fmdom (fs_provisional st6)))"
    using fcard_Suc_fminus1 [OF mem] by (simp add: st6 fmdom_drop fset_eq_iff)
  moreover have d: "unat (fs_loop_depth st) = fcard (fmdom (fs_provisional st))" using st by (simp add: run_inv_def shape_inv_def)
  ultimately show "unat (fs_loop_depth st6) = fcard (fmdom (fs_provisional st6))"
    by (simp add: st6 unat_minus_one unat_eq_0 [symmetric])
  fix k x assume "fmlookup (fs_provisional st6) k = Some x"
  then show "snd k = symb \<and> is_label (fst k) \<and> (roomy st \<longrightarrow> good st x)"
    using provisional_good [OF st] provisional_label [OF st] by (cases k; cases "k = (l, symb)") (simp_all add: st6)
qed (simp_all add: st6)

text \<open>
  The unrolling: with the label's edges resolved once, every value that reaches the label is in the
  union of the seed and the back edges' types.
\<close>

lemma part_good: "list_all2 (covers st) as ts \<Longrightarrow> roomy st \<Longrightarrow> p \<in> set ts \<Longrightarrow> good st p"
  by (auto simp: covers_def list_all2_conv_all_nth in_set_conv_nth)

lemma part_covers:
  "list_all2 (covers st) as ts \<Longrightarrow> roomy st \<Longrightarrow> a \<in> set as \<Longrightarrow> reach (sources st) a v \<Longrightarrow>
    \<exists>p \<in> set ts. v \<in> vals (fs_interner st) p"
  by (fastforce simp: covers_def list_all2_conv_all_nth in_set_conv_nth)

lemma label_source:
  assumes "fs_context st' = fs_context st" "fs_provisional st' = fmupd (l, symb) t q" "fmdrop (l, symb) (fs_provisional st) = fmdrop (l, symb) q"
  shows "\<exists>Y. sources st' = (sources st)(l \<mapsto> Y)"
proof -
  have "fmlookup q (n, symb) = fmlookup (fs_provisional st) (n, symb)" if "n \<noteq> l" for n
    using arg_cong [OF assms(3), of "\<lambda>m. fmlookup m (n, symb)"] that by simp
  then have "sources st' = (sources st)(l \<mapsto> vals (fs_interner st) t \<inter> {v. reach Map.empty l v})"
    by (auto simp: sources_def assms(1,2))
  then show ?thesis ..
qed

lemma unrolled:
  assumes l: "flow_node_at nodes l = Some (Flow_LoopLabel pre back)" "Q l = None"
    and pre: "\<And>a v. a \<in> set pre \<Longrightarrow> reach (Q(l \<mapsto> Y)) a v \<Longrightarrow> v \<in> X"
    and bk: "\<And>a v. a \<in> set back \<Longrightarrow> reach (Q(l \<mapsto> Z)) a v \<Longrightarrow> v \<in> X"
    and v: "reach Q l v"
  shows "v \<in> X"
proof -
  have "l \<noteq> FLOW_START" using label_not_sentinel l(1) by (auto simp: is_label_def)
  then show ?thesis using reaches_label [OF l(2,1) _ _ v [unfolded reach_def], of X] pre bk unfolding reach_def by blast
qed

lemma later_context: "fs_context a = fs_context a' \<Longrightarrow> fs_context b = fs_context b' \<Longrightarrow> later a b \<longleftrightarrow> later a' b'"
  by (simp add: later_def roomy_def)

lemma same_context: "fs_context a = fs_context b \<Longrightarrow> good a = good b \<and> roomy a = roomy b"
  by (auto simp: good_def roomy_def)

lemma unroll_label:
  assumes st: "run_inv st" and l: "flow_node_at nodes l = Some (Flow_LoopLabel pre back)" "fmlookup (fs_provisional st) (l, symb) = None"
    and st1: "st1 = st\<lparr>fs_loop_depth := fs_loop_depth st + 1, fs_provisional := fmupd (l, symb) (declared symb) (fs_provisional st)\<rparr>"
    and 2: "run_inv st1" "after st1 st2" "list_all2 (covers st2) pre pre_parts"
    and 3: "after st2 st3" "roomy st3 \<longrightarrow> good st3 seed \<and> vals (fs_interner st3) seed = (\<Union>x \<in> set pre_parts. vals (fs_interner st2) x)"
    and st4: "st4 = st3\<lparr>fs_provisional := fmupd (l, symb) seed (fs_provisional st3)\<rparr>"
    and 5: "run_inv st4" "after st4 st5" "list_all2 (covers st5) back back_parts"
    and st6: "st6 = st5\<lparr>fs_provisional := fmdrop (l, symb) (fs_provisional st5), fs_loop_depth := fs_loop_depth st5 - 1\<rparr>"
    and run6: "run_inv st6"
  shows "after st st6" "roomy st6 \<Longrightarrow> x \<in> set (seed # back_parts) \<Longrightarrow> good st6 x"
    and "roomy st6 \<Longrightarrow> reach (sources st6) l v \<Longrightarrow> v \<in> (\<Union>x \<in> set (seed # back_parts). vals (fs_interner st6) x)"
proof -
  note tables = after_def st1 st4 st6
  have "fmlookup (fs_provisional st6) = fmlookup (fs_provisional st)" using 2 3 5 l(2) by (auto simp: tables)
  then have p6: "fs_provisional st6 = fs_provisional st" by (simp add: fmlookup_inject)
  have l13: "later st1 st3" using after_trans [OF 2(2) 3(1)] by (simp add: after_def)
  have l36: "later st3 st6" using 5(2) later_context [of st4 st3 st5 st6] by (simp add: after_def st4 st6)
  have l06: "later st st6" using later_trans [OF l13 l36] later_context [of st1 st st6 st6] by (simp add: st1)
  show a6: "after st st6" using run6 p6 l06 2 3 5 by (simp add: tables)
  have c65: "good st6 = good st5" "roomy st6 = roomy st5" using same_context [of st6 st5] by (simp_all add: st6)
  {
    assume r6: "roomy st6"
    then have r: "roomy st5" "roomy st3" "roomy st2" "roomy st"
      using c65 later_roomy [OF l36] later_roomy [OF l06] later_roomy [of st2 st3] 3(1) by (auto simp: after_def)
    note seed = mp [OF 3(2) r(2)]
    note seed6 = good_later [OF after_run [OF 3(1)] l36 r6 conjunct1 [OF seed]]
    show "good st6 x" if "x \<in> set (seed # back_parts)" using that seed6(1) part_good [OF 5(3) r(1)] c65 by auto
    obtain Y where Y: "sources st1 = (sources st)(l \<mapsto> Y)" using label_source [of st1 st l] by (auto simp: st1)
    have s3: "sources st2 = sources st1" "sources st3 = sources st2"
      using sources_later [OF 2(1) _ r(3)] sources_later [OF after_run [OF 2(2)] _ r(2)] 2(2) 3(1) by (auto simp: after_def)
    obtain Z where "sources st4 = (sources st3)(l \<mapsto> Z)" using label_source [of st4 st3 l] by (auto simp: st4)
    moreover have "sources st5 = sources st4" using sources_later [OF 5(1) _ r(1)] 5(2) by (auto simp: after_def)
    ultimately have Z: "sources st5 = (sources st)(l \<mapsto> Z)" using s3 Y by simp
    have s6: "sources st6 = sources st" by (rule sources_later [OF st l06 r6 p6])
    show "v \<in> (\<Union>x \<in> set (seed # back_parts). vals (fs_interner st6) x)" if v: "reach (sources st6) l v"
    proof (rule unrolled [OF l(1) no_source [OF l(2)] _ _ v [unfolded s6], of Y _ Z])
      show "w \<in> (\<Union>x \<in> set (seed # back_parts). vals (fs_interner st6) x)" if "a \<in> set pre" "reach ((sources st)(l \<mapsto> Y)) a w" for a w
        using part_covers [OF 2(3) r(3) that(1)] that(2) seed seed6(2) by (auto simp: s3(1) Y)
      show "w \<in> (\<Union>x \<in> set (seed # back_parts). vals (fs_interner st6) x)" if "a \<in> set back" "reach ((sources st)(l \<mapsto> Z)) a w" for a w
        using part_covers [OF 5(3) r(1) that(1)] that(2) by (auto simp: Z st6)
    qed
  }
qed

lemma loop_body_ok:
  assumes W: "walker_ok k W" and st: "run_inv st" and free: "free_labels st \<le> Suc k"
    and l: "flow_node_at nodes l = Some (Flow_LoopLabel pre back)" and p: "fmlookup (fs_provisional st) (l, symb) = None"
    and st1: "st1 = st\<lparr>fs_loop_depth := fs_loop_depth st + 1, fs_provisional := fmupd (l, symb) (declared symb) (fs_provisional st)\<rparr>"
  shows "gives (\<lambda>t st'. after st st' \<and> covers st' l t)
    (and_walk (resolve_each (\<lambda>a. resolve_with declared W a symb) pre st1) (\<lambda>(pre_parts, st).
      union_in fx pre_parts st (\<lambda>seed st.
        let st = st\<lparr>fs_provisional := fmupd (l, symb) seed (fs_provisional st)\<rparr>
        in and_walk (resolve_each (\<lambda>a. resolve_with declared W a symb) back st) (\<lambda>(back_parts, st).
           let st = st\<lparr>fs_provisional := fmdrop (l, symb) (fs_provisional st), fs_loop_depth := fs_loop_depth st - 1\<rparr>
           in union_in fx (seed # back_parts) st (\<lambda>result st.
                Returns (result, if fs_loop_depth st = 0
                  then st\<lparr>fs_memo := fmupd (l, symb) result (fs_memo st)\<rparr> else st))))))"
proof -
  have lab: "is_label l" using l by (auto simp: is_label_def)
  note enter = enter_label [OF st lab p st1]
  have ids: "\<forall>a \<in> set pre. unat a < length nodes" "\<forall>a \<in> set back. unat a < length nodes"
    using graph_okD(1) [OF graph l] by (auto simp: list_all_iff)
  have free1: "free_labels st1 \<le> k" using enter(2) free by simp
  show ?thesis
  proof (rule gives_bind [OF resolve_each_ok [OF W enter(1) free1 ids(1)]], unfold prod.case, rule union_gives)
    fix pre_parts st2 assume 2: "after st1 st2 \<and> list_all2 (covers st2) pre pre_parts"
    show "run_inv st2" using 2 after_run by blast
    show "good st2 x" if "roomy st2" "x \<in> set pre_parts" for x using 2 part_good that by blast
    fix seed st3 assume 3: "after st2 st3"
      and seed: "roomy st3 \<Longrightarrow> good st3 seed \<and> vals (fs_interner st3) seed = (\<Union>x \<in> set pre_parts. vals (fs_interner st2) x)"
    have p3: "fmlookup (fs_provisional st3) (l, symb) = Some (declared symb)" using 2 3 by (simp add: after_def st1)
    define st4 where "st4 = st3\<lparr>fs_provisional := fmupd (l, symb) seed (fs_provisional st3)\<rparr>"
    have run4: "run_inv st4" "free_labels st4 \<le> k"
      using seed_label [OF after_run [OF 3] p3 _ st4_def] seed free1 2 3 free_after by auto
    show "gives (\<lambda>t st'. after st st' \<and> covers st' l t)
       (let st = st3\<lparr>fs_provisional := fmupd (l, symb) seed (fs_provisional st3)\<rparr>
        in and_walk (resolve_each (\<lambda>a. resolve_with declared W a symb) back st) (\<lambda>(back_parts, st).
           let st = st\<lparr>fs_provisional := fmdrop (l, symb) (fs_provisional st), fs_loop_depth := fs_loop_depth st - 1\<rparr>
           in union_in fx (seed # back_parts) st (\<lambda>result st.
                Returns (result, if fs_loop_depth st = 0
                  then st\<lparr>fs_memo := fmupd (l, symb) result (fs_memo st)\<rparr> else st))))"
      unfolding st4_def [symmetric] Let_def
    proof (rule gives_bind [OF resolve_each_ok [OF W run4 ids(2)]], unfold prod.case)
      fix back_parts st5 assume 5: "after st4 st5 \<and> list_all2 (covers st5) back back_parts"
      define st6 where "st6 = st5\<lparr>fs_provisional := fmdrop (l, symb) (fs_provisional st5), fs_loop_depth := fs_loop_depth st5 - 1\<rparr>"
      have run5: "run_inv st5" using 5 after_run by blast
      have p5: "fmlookup (fs_provisional st5) (l, symb) = Some seed" using 5 by (simp add: after_def st4_def)
      note run6 = leave_label [OF run5 p5 st6_def]
      show "gives (\<lambda>t st'. after st st' \<and> covers st' l t)
        (union_in fx (seed # back_parts) (st5\<lparr>fs_provisional := fmdrop (l, symb) (fs_provisional st5), fs_loop_depth := fs_loop_depth st5 - 1\<rparr>)
          (\<lambda>result st. Returns (result, if fs_loop_depth st = 0 then st\<lparr>fs_memo := fmupd (l, symb) result (fs_memo st)\<rparr> else st)))"
        unfolding st6_def [symmetric]
      proof (rule union_gives [OF run6])
        have seed': "roomy st3 \<longrightarrow> good st3 seed \<and> vals (fs_interner st3) seed = (\<Union>x \<in> set pre_parts. vals (fs_interner st2) x)"
          using seed by blast
        note u = unroll_label [OF st l p st1 enter(1) conjunct1 [OF 2] conjunct2 [OF 2] 3 seed' st4_def run4(1) conjunct1 [OF 5] conjunct2 [OF 5] st6_def run6]
        show "good st6 x" if "roomy st6" "x \<in> set (seed # back_parts)" for x by (rule u(2) [OF that])
        fix t st7 assume 7: "after st6 st7" and t: "roomy st7 \<Longrightarrow> good st7 t \<and>
          vals (fs_interner st7) t = (\<Union>x \<in> set (seed # back_parts). vals (fs_interner st6) x)"
        have a7: "after st st7" by (rule after_trans [OF u(1) 7])
        have "covers st7 l t"
          unfolding covers_def
        proof (intro impI conjI allI)
          assume r: "roomy st7"
          then have r6: "roomy st6" and s: "sources st7 = sources st6"
            using 7 later_roomy sources_later [OF run6] by (auto simp: after_def)
          show "good st7 t" using t [OF r] ..
          show "v \<in> vals (fs_interner st7) t" if "reach (sources st7) l v" for v
            using u(3) [OF r6] that s t [OF r] by simp
        qed
        with a7 memo_ok [OF after_run [OF 7] this] covers_after [OF after_run [OF 7]]
        show "gives (\<lambda>t st'. after st st' \<and> covers st' l t)
          (Returns (t, if fs_loop_depth st7 = 0 then st7\<lparr>fs_memo := fmupd (l, symb) t (fs_memo st7)\<rparr> else st7))"
          by (auto intro: after_trans)
      qed
    qed
  qed
qed

lemma loop_ok:
  assumes W: "walker_ok k W" and st: "run_inv st" and free: "free_labels st \<le> Suc k"
    and l: "flow_node_at nodes l = Some (Flow_LoopLabel pre back)" and p: "fmlookup (fs_provisional st) (l, symb) = None"
  shows "gives (\<lambda>t st'. after st st' \<and> covers st' l t) (resolve_loop_label fx declared W l symb st)"
proof (cases "if fs_loop_depth st = 0 then fmlookup (fs_memo st) (l, symb) else None")
  case (Some t)
  have "is_label l" using l by (auto simp: is_label_def)
  from label_not_sentinel [OF this] Some p have "flow_lookup_cached declared st l symb = Some t"
    by (simp add: flow_lookup_cached_def split: if_splits)
  with Some p lookup_covers [OF st] after_refl [OF st] show ?thesis
    by (simp add: resolve_loop_label_def)
next
  case None
  have n: "fs_nodes st = nodes" using st by (simp add: run_inv_def shape_inv_def)
  show ?thesis
    unfolding resolve_loop_label_def p None n l option.case flow_node.case
    using loop_body_ok [OF W st free l p refl] by (simp only: Let_def)
qed

section \<open>The walk\<close>

definition stack_ok :: "flow_node_id list \<Rightarrow> scratch \<Rightarrow> bool" where
  "stack_ok stack scr \<longleftrightarrow> sorted_wrt (<) stack \<and> (\<forall>n \<in> set stack. unat n < length nodes \<and> n |\<notin>| fmdom scr)"

definition work :: "flow_node_id list \<Rightarrow> scratch \<Rightarrow> nat" where
  "work stack scr = 2 * length nodes - (2 * fcard (fmdom scr) + length stack)"

lemma work_bound:
  assumes "stack_ok (n # rest) scr" "scratch_ok st scr"
  shows "2 * fcard (fmdom scr) + length (n # rest) < 2 * length nodes"
proof -
  let ?stack = "n # rest"
  have d: "distinct ?stack" using assms(1) strict_sorted_imp_sorted by (auto simp: stack_ok_def strict_sorted_iff simp flip: sorted_wrt.simps)
  have sub: "fset (fmdom scr) \<union> set ?stack \<subseteq> {n. unat n < length nodes}"
    using assms unfolding stack_ok_def scratch_ok_def by (auto simp: fmlookup_dom_iff)
  have "fset (fmdom scr) \<inter> set ?stack = {}" using assms(1) by (auto simp: stack_ok_def)
  then have "card (fset (fmdom scr)) + length ?stack = card (fset (fmdom scr) \<union> set ?stack)"
    using distinct_card [OF d] by (simp only: card_Un_disjoint finite_fset List.finite_set)
  also have "\<dots> \<le> length nodes" using card_mono [OF finite_nodes sub] card_nodes by (rule order_trans)
  finally show ?thesis by (simp add: fcard.rep_eq)
qed

lemma work_settle:
  assumes "stack_ok (n # rest) scr" "scratch_ok st scr"
  shows "stack_ok rest (fmupd n t scr)" "work rest (fmupd n t scr) < work (n # rest) scr"
proof -
  have n: "n |\<notin>| fmdom scr" "n \<notin> set rest" using assms(1) by (auto simp: stack_ok_def)
  then show "stack_ok rest (fmupd n t scr)" using assms(1) by (auto simp: stack_ok_def)
  show "work rest (fmupd n t scr) < work (n # rest) scr"
    using work_bound [OF assms] n(1) by (simp add: work_def fcard_finsert_disjoint)
qed

lemma work_visit:
  assumes s: "stack_ok (n # rest) scr" "scratch_ok st scr" and a: "unat a < unat n" "fmlookup scr a = None"
  shows "stack_ok (a # n # rest) scr" "work (a # n # rest) scr < work (n # rest) scr"
proof -
  have "a < x" if "x \<in> set (n # rest)" for x
    using that s(1) a(1) by (auto simp: stack_ok_def word_less_nat_alt)
  then show "stack_ok (a # n # rest) scr" using s(1) a by (auto simp: stack_ok_def fmdom_notI)
  show "work (a # n # rest) scr < work (n # rest) scr"
    using work_bound [OF s] by (simp add: work_def)
qed

definition walked :: "flow_state \<Rightarrow> flow_node_id set \<Rightarrow> (scratch \<times> flow_state) walk \<Rightarrow> bool" where
  "walked st want r \<longleftrightarrow> gives (\<lambda>scr' st'. after st st' \<and> scratch_ok st' scr' \<and> want \<subseteq> fset (fmdom scr')) r"

lemma walked_after: "walked st' want' r \<Longrightarrow> after st st' \<Longrightarrow> want \<subseteq> want' \<Longrightarrow> walked st want r"
  unfolding walked_def by (erule gives_mono) (auto intro: after_trans)

lemma node_kind:
  assumes st: "run_inv st" and n: "unat n < length nodes" and none: "flow_lookup_cached declared st n symb = None"
  shows "\<exists>x. flow_node_at nodes n = Some x \<and> x \<noteq> Flow_Unreachable \<and> x \<noteq> Flow_Start"
    and "fs_nodes st = nodes" "sources st n = None" "fmlookup (fs_provisional st) (n, symb) = None"
proof -
  show "fs_nodes st = nodes" using st by (simp add: run_inv_def shape_inv_def)
  have s: "n \<noteq> FLOW_START" "n \<noteq> FLOW_UNREACHABLE" using none by (auto simp: flow_lookup_cached_def)
  show p: "fmlookup (fs_provisional st) (n, symb) = None" using none s by (simp add: flow_lookup_cached_def split: option.splits)
  show "sources st n = None" by (rule no_source [OF p])
  have at: "flow_node_at nodes n = Some (nodes ! unat n)" using n by (simp add: flow_node_at_def nth_opt_def)
  have "nodes ! unat n \<noteq> Flow_Unreachable \<and> nodes ! unat n \<noteq> Flow_Start"
    using graph_okD(1) [OF graph at] s by (auto simp: FLOW_START_def FLOW_UNREACHABLE_def word_unat_eq_iff)
  with at show "\<exists>x. flow_node_at nodes n = Some x \<and> x \<noteq> Flow_Unreachable \<and> x \<noteq> Flow_Start" by blast
qed

definition runs :: "nat \<Rightarrow> nat \<Rightarrow> nat \<Rightarrow> walker \<Rightarrow> bool" where
  "runs k b fuel F \<longleftrightarrow> (\<forall>stack scr st. run_inv st \<and> free_labels st \<le> k \<and> stack_ok stack scr \<and> scratch_ok st scr \<and>
     b + work stack scr < fuel \<longrightarrow> walked st (set stack \<union> fset (fmdom scr)) (F stack scr st))"

lemma runsD:
  "runs k b fuel F \<Longrightarrow> run_inv st \<Longrightarrow> free_labels st \<le> k \<Longrightarrow> stack_ok stack scr \<Longrightarrow> scratch_ok st scr \<Longrightarrow>
    b + work stack scr < fuel \<Longrightarrow> walked st (set stack \<union> fset (fmdom scr)) (F stack scr st)"
  unfolding runs_def by blast

lemma settle_walk:
  assumes IH: "runs k b fuel F"
    and st: "run_inv st" "free_labels st \<le> k" "scratch_ok st scr" and stack: "stack_ok (n # rest) scr"
    and fuel: "b + work (n # rest) scr < Suc fuel" and st1: "after st st1" "covers st1 n t"
  shows "walked st (set (n # rest) \<union> fset (fmdom scr)) (F rest (fmupd n t scr) st1)"
    and "walked st (set (n # rest) \<union> fset (fmdom scr)) (case flow_set scr n symb t st1 of (scr, st) \<Rightarrow> F rest scr st)"
proof -
  have n: "unat n < length nodes" using stack by (simp add: stack_ok_def)
  note w = work_settle [OF stack st(3), of t]
  have go: "walked st (set (n # rest) \<union> fset (fmdom scr)) (F rest (fmupd n t scr) st2)" if 2: "after st1 st2" "covers st2 n t" for st2
  proof (rule walked_after [OF runsD [OF IH]])
    have a: "after st st2" by (rule after_trans [OF st1(1) 2(1)])
    show "run_inv st2" "after st st2" using a after_run by blast+
    show "free_labels st2 \<le> k" using free_after [OF a] st(2) by simp
    show "scratch_ok st2 (fmupd n t scr)" by (rule scratch_ok_upd [OF st(3,1) a n 2(2)])
    show "stack_ok rest (fmupd n t scr)" "b + work rest (fmupd n t scr) < fuel" using w fuel by simp_all
  qed auto
  show "walked st (set (n # rest) \<union> fset (fmdom scr)) (F rest (fmupd n t scr) st1)"
    by (rule go [OF after_refl [OF after_run [OF st1(1)]] st1(2)])
  obtain scr' st2 where set: "flow_set scr n symb t st1 = (scr', st2)" by (cases "flow_set scr n symb t st1")
  from settle_ok [OF after_run [OF st1(1)] st1(2) this] go [of st2] set
  show "walked st (set (n # rest) \<union> fset (fmdom scr)) (case flow_set scr n symb t st1 of (scr, st) \<Rightarrow> F rest scr st)" by simp
qed

lemma visit_walk:
  assumes IH: "runs k b fuel F"
    and st: "run_inv st" "free_labels st \<le> k" "scratch_ok st scr" and stack: "stack_ok (n # rest) scr"
    and fuel: "b + work (n # rest) scr < Suc fuel" and a: "unat a < unat n" "scratch_or_cached declared st scr a symb = None"
  shows "walked st (set (n # rest) \<union> fset (fmdom scr)) (F (a # n # rest) scr st)"
proof -
  have "fmlookup scr a = None" using a(2) by (simp add: scratch_or_cached_def split: option.splits)
  note w = work_visit [OF stack st(3) a(1) this]
  have "walked st (set (a # n # rest) \<union> fset (fmdom scr)) (F (a # n # rest) scr st)"
    by (rule runsD [OF IH st(1,2) w(1) st(3)]) (use w(2) fuel in simp)
  then show ?thesis by (rule walked_after [OF _ after_refl [OF st(1)]]) auto
qed

lemma covers_same:
  "covers st p t \<Longrightarrow> (\<And>v. reach (sources st) n v \<Longrightarrow> reach (sources st) p v) \<Longrightarrow> covers st n t"
  by (auto simp: covers_def)

lemma assigned_covers:
  assumes st: "run_inv st" and n: "sources st n = None" "flow_node_at nodes n = Some (Flow_Assignment symb a p)"
  shows "covers st n (case a of Some t \<Rightarrow> t | None \<Rightarrow> declared symb)"
proof -
  have "Flow_Assignment symb a p \<in> set nodes" using n(2) nth_mem [of "unat n" nodes] by (simp add: flow_node_at_def nth_opt_eq_Some)
  then have "members_are it0 R (case a of Some t \<Rightarrow> t | None \<Rightarrow> declared symb)"
    using typed declared_decided by (cases a) (auto simp: types_decided_def R_def)
  from old_type [OF st _ this] reach_from [OF _ n] show ?thesis by (auto simp: covers_def comes_from_def)
qed

lemma joined_covers:
  assumes st': "after st st'" "run_inv st" and n: "sources st n = None" "flow_node_at nodes n = Some (Flow_BranchLabel as)"
    and parts: "list_all2 (covers st) as ts"
    and t: "roomy st' \<Longrightarrow> good st' t \<and> vals (fs_interner st') t = (\<Union>p \<in> set ts. vals (fs_interner st) p)"
  shows "covers st' n t"
  unfolding covers_def
proof (intro impI conjI allI)
  assume r: "roomy st'"
  then have rst: "roomy st" and s: "sources st' = sources st" using st' later_roomy sources_later by (auto simp: after_def)
  show "good st' t" using t [OF r] ..
  show "v \<in> vals (fs_interner st') t" if "reach (sources st') n v" for v
  proof -
    from reach_from [OF that [unfolded s] n] obtain a where "a \<in> set as" "reach (sources st) a v" by (auto simp: comes_from_def)
    with part_covers [OF parts rst] t [OF r] show ?thesis by auto
  qed
qed

text \<open>What the walk does at a node whose type is not known yet.\<close>

definition node_step :: "flow_state \<Rightarrow> scratch \<Rightarrow> flow_node_id \<Rightarrow> flow_node_id list \<Rightarrow> walker \<Rightarrow> flow_node \<Rightarrow> (scratch \<times> flow_state) walk" where
  "node_step st scr n rest F x =
     (let settle = (\<lambda>t st. case flow_set scr n symb t st of (scr, st) \<Rightarrow> F rest scr st);
          visit = (\<lambda>a. F (a # n # rest) scr st)
      in case x of
        Flow_Assignment s a p \<Rightarrow>
          if s = symb then settle (case a of Some t \<Rightarrow> t | None \<Rightarrow> declared symb) st
          else (case scratch_or_cached declared st scr p symb of Some t \<Rightarrow> settle t st | None \<Rightarrow> visit p)
      | Flow_Condition s op positive p \<Rightarrow>
          (case scratch_or_cached declared st scr p symb of
             None \<Rightarrow> visit p
           | Some t \<Rightarrow> if s = symb then or_panic st (narrow_query fx cr (fs_context st) t op positive) (\<lambda>(outcome, ctx).
                 settle (case outcome of Demand_Ready n \<Rightarrow> n | Demand_Exhausted _ \<Rightarrow> t) (st\<lparr>fs_context := ctx\<rparr>))
               else settle t st)
      | Flow_BranchLabel as \<Rightarrow>
          (case find (\<lambda>a. scratch_or_cached declared st scr a symb = None) as of
             Some a \<Rightarrow> visit a
           | None \<Rightarrow> union_in fx (map (\<lambda>a. case scratch_or_cached declared st scr a symb of Some t \<Rightarrow> t | None \<Rightarrow> declared symb) as) st settle)
      | _ \<Rightarrow> and_walk (resolve_loop_label fx declared F n symb st) (\<lambda>(t, st). F rest (fmupd n t scr) st))"

text \<open>A turn of the walk: the invariants hold, the fuel suffices and the node on top is not known yet.\<close>

definition turn :: "nat \<Rightarrow> nat \<Rightarrow> nat \<Rightarrow> walker \<Rightarrow> flow_state \<Rightarrow> scratch \<Rightarrow> flow_node_id \<Rightarrow> flow_node_id list \<Rightarrow> bool" where
  "turn k b fuel F st scr n rest \<longleftrightarrow> runs k b fuel F \<and> run_inv st \<and> free_labels st \<le> k \<and> scratch_ok st scr \<and>
     stack_ok (n # rest) scr \<and> b + work (n # rest) scr < Suc fuel"

lemma turn_settle:
  assumes "turn k b fuel F st scr n rest" "after st st1" "covers st1 n t"
  shows "walked st (set (n # rest) \<union> fset (fmdom scr)) (F rest (fmupd n t scr) st1)"
    and "walked st (set (n # rest) \<union> fset (fmdom scr)) (case flow_set scr n symb t st1 of (scr, st) \<Rightarrow> F rest scr st)"
  using settle_walk [of k b fuel F st scr n rest st1 t] assms by (simp_all add: turn_def)

lemma turn_visit:
  assumes "turn k b fuel F st scr n rest" "unat a < unat n" "scratch_or_cached declared st scr a symb = None"
  shows "walked st (set (n # rest) \<union> fset (fmdom scr)) (F (a # n # rest) scr st)"
  using visit_walk [of k b fuel F st scr n rest a] assms by (simp add: turn_def)

lemma turn_base: "turn k b fuel F st scr n rest \<Longrightarrow> scratch_or_cached declared st scr p symb = Some t \<Longrightarrow> covers st p t"
  using lookup_scratch [of st scr p t] by (simp add: turn_def)

lemma turn_run: "turn k b fuel F st scr n rest \<Longrightarrow> run_inv st \<and> after st st"
  using after_refl by (simp add: turn_def)

lemma step_assignment:
  assumes t: "turn k b fuel F st scr n rest" and n: "sources st n = None" "flow_node_at nodes n = Some (Flow_Assignment s a p)"
  shows "walked st (set (n # rest) \<union> fset (fmdom scr)) (node_step st scr n rest F (Flow_Assignment s a p))"
proof (cases "s = symb")
  case True
  then show ?thesis using turn_settle(2) [OF t _ assigned_covers] turn_run [OF t] n by (simp add: node_step_def)
next
  case False
  have p: "unat p < unat n" using graph_okD(1) [OF graph n(2)] by simp
  have "covers st n x" if "scratch_or_cached declared st scr p symb = Some x" for x
    using covers_same [OF turn_base [OF t that], of n] reach_from [OF _ n] False by (simp add: comes_from_def)
  then show ?thesis using turn_settle(2) [OF t] turn_run [OF t] turn_visit [OF t p] False
    by (cases "scratch_or_cached declared st scr p symb") (simp_all add: node_step_def)
qed

lemma step_condition:
  assumes t: "turn k b fuel F st scr n rest" and n: "sources st n = None" "flow_node_at nodes n = Some (Flow_Condition s op positive p)"
  shows "walked st (set (n # rest) \<union> fset (fmdom scr)) (node_step st scr n rest F (Flow_Condition s op positive p))" (is "walked _ ?D _")
proof (cases "scratch_or_cached declared st scr p symb")
  case None
  have "unat p < unat n" using graph_okD(1) [OF graph n(2)] by simp
  from turn_visit [OF t this None] None show ?thesis by (simp add: node_step_def)
next
  case (Some x)
  note base = turn_base [OF t Some]
  show ?thesis
  proof (cases "s = symb")
    case True
    have "walked st ?D (or_panic st (narrow_query fx cr (fs_context st) x op positive) (\<lambda>(outcome, ctx).
        case flow_set scr n symb (case outcome of Demand_Ready n \<Rightarrow> n | Demand_Exhausted _ \<Rightarrow> x) (st\<lparr>fs_context := ctx\<rparr>) of
          (scratch, st) \<Rightarrow> F rest scratch st))"
      unfolding walked_def
      by (rule narrow_gives [OF conjunct1 [OF turn_run [OF t]] base n(1) n(2) [unfolded True]])
        (use turn_settle(2) [OF t] in \<open>simp add: walked_def\<close>)
    then show ?thesis using Some True by (simp add: node_step_def)
  next
    case False
    then have "covers st n x" using covers_same [OF base, of n] reach_from [OF _ n] by (simp add: comes_from_def)
    then show ?thesis using turn_settle(2) [OF t] turn_run [OF t] Some False by (simp add: node_step_def)
  qed
qed

lemma known_parts:
  assumes "turn k b fuel F st scr n rest" "find (\<lambda>a. scratch_or_cached declared st scr a symb = None) as = None"
  shows "list_all2 (covers st) as (map (\<lambda>a. case scratch_or_cached declared st scr a symb of Some t \<Rightarrow> t | None \<Rightarrow> declared symb) as)"
  unfolding list_all2_map2
proof (rule list.rel_refl_strong)
  fix a assume "a \<in> set as"
  with assms(2) obtain t where "scratch_or_cached declared st scr a symb = Some t" by (auto simp: find_None_iff)
  with turn_base [OF assms(1) this] show "covers st a (case scratch_or_cached declared st scr a symb of Some t \<Rightarrow> t | None \<Rightarrow> declared symb)" by simp
qed

lemma step_branch:
  assumes t: "turn k b fuel F st scr n rest" and n: "sources st n = None" "flow_node_at nodes n = Some (Flow_BranchLabel as)"
  shows "walked st (set (n # rest) \<union> fset (fmdom scr)) (node_step st scr n rest F (Flow_BranchLabel as))" (is "walked _ ?D _")
proof (cases "find (\<lambda>a. scratch_or_cached declared st scr a symb = None) as")
  case (Some a)
  then have "unat a < unat n" "scratch_or_cached declared st scr a symb = None"
    using graph_okD(1) [OF graph n(2)] by (auto simp: find_Some_iff list_all_iff)
  from turn_visit [OF t this] show ?thesis using Some by (simp add: node_step_def)
next
  case None
  let ?ts = "map (\<lambda>a. case scratch_or_cached declared st scr a symb of Some t \<Rightarrow> t | None \<Rightarrow> declared symb) as"
  note st = conjunct1 [OF turn_run [OF t]] and parts = known_parts [OF t None]
  have "walked st ?D (union_in fx ?ts st (\<lambda>t st. case flow_set scr n symb t st of (scratch, st) \<Rightarrow> F rest scratch st))"
    unfolding walked_def
  proof (rule union_gives [OF st], fold walked_def)
    show "good st p" if "roomy st" "p \<in> set ?ts" for p by (rule part_good [OF parts that])
  next
    fix x st' assume a: "after st st'" and x: "roomy st' \<Longrightarrow> good st' x \<and>
      vals (fs_interner st') x = (\<Union>p \<in> set ?ts. vals (fs_interner st) p)"
    show "walked st ?D (case flow_set scr n symb x st' of (scratch, st) \<Rightarrow> F rest scratch st)"
      by (rule turn_settle(2) [OF t a joined_covers [OF a st n parts x]])
  qed
  then show ?thesis using None by (simp add: node_step_def)
qed

lemma step_loop:
  assumes t: "turn k b fuel F st scr n rest" and loops: "\<And>j. k = Suc j \<Longrightarrow> walker_ok j F"
    and n: "fmlookup (fs_provisional st) (n, symb) = None" "flow_node_at nodes n = Some (Flow_LoopLabel pre back)"
  shows "walked st (set (n # rest) \<union> fset (fmdom scr)) (node_step st scr n rest F (Flow_LoopLabel pre back))" (is "walked _ ?D _")
proof -
  have "is_label n" using n(2) by (auto simp: is_label_def)
  with n(1) have "free_labels st \<noteq> 0" using finite_labels by (auto simp: free_labels_def card_eq_0_iff)
  then obtain j where k: "k = Suc j" "free_labels st \<le> Suc j" using t by (cases k) (auto simp: turn_def)
  have "walked st ?D (and_walk (resolve_loop_label fx declared F n symb st) (\<lambda>(t, st). F rest (fmupd n t scr) st))"
    unfolding walked_def
    by (rule gives_bind [OF loop_ok [OF loops [OF k(1)] conjunct1 [OF turn_run [OF t]] k(2) n(2,1)]])
      (use turn_settle(1) [OF t] in \<open>auto simp: walked_def\<close>)
  then show ?thesis by (simp add: node_step_def)
qed

lemma walk_step:
  assumes t: "turn k b fuel (resolve_walk fx cr declared symb fuel) st scr n rest"
    and loops: "\<And>j. k = Suc j \<Longrightarrow> walker_ok j (resolve_walk fx cr declared symb fuel)"
  shows "walked st (set (n # rest) \<union> fset (fmdom scr)) (resolve_walk fx cr declared symb (Suc fuel) (n # rest) scr st)"
proof -
  have out: "n |\<notin>| fmdom scr" and id: "unat n < length nodes" and st: "run_inv st" using t by (auto simp: turn_def stack_ok_def)
  show ?thesis
  proof (cases "flow_lookup_cached declared st n symb")
    case (Some x)
    with turn_settle(1) [OF t conjunct2 [OF turn_run [OF t]] lookup_covers [OF st Some]] out show ?thesis by simp
  next
    case None
    note kind = node_kind [OF st id None]
    from kind(1) obtain x where at: "flow_node_at nodes n = Some x" and x: "x \<noteq> Flow_Unreachable" "x \<noteq> Flow_Start" by blast
    have "resolve_walk fx cr declared symb (Suc fuel) (n # rest) scr st = node_step st scr n rest (resolve_walk fx cr declared symb fuel) x"
      using out None kind(2) at x by (cases x) (simp_all add: node_step_def flow_step_of_def Let_def)
    then show ?thesis
      using at x step_assignment [OF t kind(3)] step_condition [OF t kind(3)] step_branch [OF t kind(3)] step_loop [OF t loops kind(4)]
      by (cases x) simp_all
  qed
qed

lemma walk_runs:
  assumes loops: "\<And>j f. k = Suc j \<Longrightarrow> b \<le> f \<Longrightarrow> walker_ok j (resolve_walk fx cr declared symb f)"
  shows "runs k b fuel (resolve_walk fx cr declared symb fuel)"
proof (induction fuel)
  case (Suc fuel)
  show ?case
    unfolding runs_def
  proof (intro allI impI)
    fix stack scr st
    assume a: "run_inv st \<and> free_labels st \<le> k \<and> stack_ok stack scr \<and> scratch_ok st scr \<and> b + work stack scr < Suc fuel"
    show "walked st (set stack \<union> fset (fmdom scr)) (resolve_walk fx cr declared symb (Suc fuel) stack scr st)"
    proof (cases stack)
      case Nil
      with a after_refl [of st] show ?thesis by (simp add: walked_def)
    next
      case (Cons n rest)
      show ?thesis
        unfolding Cons by (rule walk_step [of k b]) (use a Suc.IH loops Cons in \<open>simp_all add: turn_def\<close>)
    qed
  qed
qed (simp add: runs_def)

definition enough :: "nat \<Rightarrow> nat" where
  "enough k = Suc k * (2 * length nodes + 1)"

lemma runs_walker:
  assumes "runs k b fuel F" "b + 2 * length nodes < fuel"
  shows "walker_ok k F"
  unfolding walker_ok_def
proof (intro allI impI)
  fix st and n :: flow_node_id assume a: "run_inv st \<and> free_labels st \<le> k \<and> unat n < length nodes"
  have "walked st (set [n] \<union> fset (fmdom (fmempty :: scratch))) (F [n] fmempty st)"
    by (rule runsD [OF assms(1)]) (use a assms(2) in \<open>simp_all add: stack_ok_def scratch_ok_def work_def\<close>)
  then show "gives (\<lambda>scr st'. after st st' \<and> scratch_ok st' scr \<and> n |\<in>| fmdom scr) (F [n] fmempty st)" by (simp add: walked_def)
qed

lemma walker_runs: "enough k \<le> fuel \<Longrightarrow> walker_ok k (resolve_walk fx cr declared symb fuel)"
proof (induction k arbitrary: fuel)
  case 0
  have "runs 0 0 fuel (resolve_walk fx cr declared symb fuel)" by (rule walk_runs) simp
  then show ?case by (rule runs_walker) (use 0 in \<open>simp add: enough_def\<close>)
next
  case (Suc k)
  have "runs (Suc k) (enough k) fuel (resolve_walk fx cr declared symb fuel)" by (rule walk_runs) (use Suc.IH in simp)
  then show ?case by (rule runs_walker) (use Suc.prems in \<open>simp add: enough_def\<close>)
qed

lemma resolve_ok:
  assumes st: "run_inv st" and n: "unat n < length nodes" and fuel: "enough (length nodes) \<le> fuel"
  shows "gives (\<lambda>t st'. after st st' \<and> covers st' n t) (resolve_narrowed_type fx cr declared fuel n symb st)"
proof -
  have "free_labels st \<le> card {n :: flow_node_id. unat n < length nodes}"
    unfolding free_labels_def by (rule card_mono [OF finite_nodes]) (auto dest: label_id)
  with card_nodes have "free_labels st \<le> length nodes" by (rule order_trans [rotated])
  then show ?thesis unfolding resolve_narrowed_type_def by (rule resolve_with_ok [OF walker_runs [OF fuel] st _ n])
qed

end

end
