(* ===== verification/Flow_Properties.thy ===== *)
theory Flow_Properties
  imports Flow_Sound
begin

text \<open>
  The properties of flow analysis: narrowing keeps every value that passes the guard, the functions
  that build the graph keep it well formed, and resolution returns a type that holds every value that
  reaches the node.
\<close>

section \<open>Resolution is sound and returns\<close>

text \<open>
  The state between queries: no label is being resolved, and the memo holds, for the symbol, types
  that cover the values of its nodes.
\<close>

definition reaching :: "declared_types \<Rightarrow> symbol_id \<Rightarrow> js_heap \<Rightarrow> flow_state \<Rightarrow> flow_node_id \<Rightarrow> js_value \<Rightarrow> bool" where
  "reaching declared symb h st = reaches (fs_nodes st) symb (\<lambda>t. {v. value_in (fs_interner st) h v t})
     (guard_passes (fs_interner st) h) (declared symb) Map.empty"

definition memo_sound :: "declared_types \<Rightarrow> symbol_id \<Rightarrow> js_heap \<Rightarrow> flow_state \<Rightarrow> bool" where
  "memo_sound declared symb h st \<longleftrightarrow> (\<forall>n t. fmlookup (fs_memo st) (n, symb) = Some t \<longrightarrow>
     members_are (fs_interner st) (guards_decide (fs_nodes st) symb) t \<and>
     (\<forall>v. reaching declared symb h st n v \<longrightarrow> value_in (fs_interner st) h v t))"

definition flow_ready :: "hasher \<Rightarrow> declared_types \<Rightarrow> symbol_id \<Rightarrow> js_heap \<Rightarrow> flow_state \<Rightarrow> bool" where
  "flow_ready fx declared symb h st \<longleftrightarrow> session_inv fx (fs_interner st) \<and> graph_ok (fs_nodes st) \<and> guards_plain (fs_nodes st) symb \<and>
     types_decided (fs_interner st) (fs_nodes st) symb (declared symb) \<and> layered_state (fc_queries (fs_context st)) \<and>
     fs_loop_depth st = 0 \<and> fs_provisional st = fmempty \<and> memo_sound declared symb h st"

lemma flow_ready_run: "flow_ready fx declared symb h st \<Longrightarrow> flow_run fx declared (fs_nodes st) symb (fs_interner st)"
  by (simp add: flow_ready_def flow_run_def)

lemma reaches_cong:
  assumes "sem' dty = sem dty" "\<And>a p. Flow_Assignment symb (Some a) p \<in> set nodes \<Longrightarrow> sem' a = sem a"
    "\<And>op positive p v. Flow_Condition symb op positive p \<in> set nodes \<Longrightarrow> passes op positive v \<Longrightarrow> passes' op positive v"
  shows "reaches nodes symb sem passes dty Q n v \<Longrightarrow> reaches nodes symb sem' passes' dty Q n v"
proof (induction rule: reaches.induct)
  case (assigned n a p v)
  have "Flow_Assignment symb a p \<in> set nodes" using assigned(2) nth_mem [of "unat n" nodes] by (simp add: flow_node_at_def nth_opt_eq_Some)
  then show ?case using assigned assms(1,2) by (intro reaches.assigned) (auto split: option.splits)
next
  case (guarded n op positive p v)
  have "Flow_Condition symb op positive p \<in> set nodes" using guarded(2) nth_mem [of "unat n" nodes] by (simp add: flow_node_at_def nth_opt_eq_Some)
  from assms(3) [OF this guarded(4)] show ?case by (rule reaches.guarded [OF guarded(1,2,5)])
next
  case (source n V v)
  then show ?case by (rule reaches.source)
next
  case (passed n s a p v)
  show ?case by (rule reaches.passed [OF passed(1-3,5)])
next
  case (unguarded n s op positive p v)
  show ?case by (rule reaches.unguarded [OF unguarded(1-3,5)])
next
  case (joined n as a v)
  show ?case by (rule reaches.joined [OF joined(1-3,5)])
next
  case (looped n pre bk a v)
  show ?case by (rule reaches.looped [OF looped(1-3,5)])
qed (auto intro!: reaches.start simp: assms(1))

lemma plain_passes: "asks_nothing op \<Longrightarrow> guard_passes it h op positive v \<longleftrightarrow> guard_passes it' h op positive v"
  by (cases op) simp_all

lemma types_decided_grown:
  "session_inv fx it \<Longrightarrow> grown fx it it' \<Longrightarrow> types_decided it nodes symb dty \<Longrightarrow> types_decided it' nodes symb dty"
  using members_are_grown unfolding types_decided_def by blast

lemma reaching_grown:
  assumes ready: "flow_ready fx declared symb h st" and g: "grown fx (fs_interner st) (fs_interner st')" and nodes: "fs_nodes st' = fs_nodes st"
  shows "reaching declared symb h st' n v \<Longrightarrow> reaching declared symb h st n v"
  unfolding reaching_def nodes
proof (erule reaches_cong [rotated -1])
  have inv: "session_inv fx (fs_interner st)" and typed: "types_decided (fs_interner st) (fs_nodes st) symb (declared symb)"
    and plain: "guards_plain (fs_nodes st) symb" using ready by (simp_all add: flow_ready_def)
  have same: "{v. value_in (fs_interner st) h v t} = {v. value_in (fs_interner st') h v t}"
    if "members_are (fs_interner st) (guards_decide (fs_nodes st) symb) t" for t
    using grown_values [OF inv g, of t h] that unfolding members_are_def by blast
  show "{v. value_in (fs_interner st) h v (declared symb)} = {v. value_in (fs_interner st') h v (declared symb)}"
    by (rule same) (use typed in \<open>simp add: types_decided_def\<close>)
  show "{v. value_in (fs_interner st) h v a} = {v. value_in (fs_interner st') h v a}"
    if "Flow_Assignment symb (Some a) p \<in> set (fs_nodes st)" for a p
    by (rule same) (use typed that in \<open>auto simp: types_decided_def\<close>)
  show "guard_passes (fs_interner st) h op positive v"
    if "Flow_Condition symb op positive p \<in> set (fs_nodes st)" "guard_passes (fs_interner st') h op positive v" for op positive p v
  proof -
    have "asks_nothing op" using plain that(1) by (auto simp: guards_plain_def list_all_iff)
    from plain_passes [OF this] that(2) show ?thesis by blast
  qed
qed

context flow_run
begin

lemma reach_reaching: "fs_nodes st = nodes \<Longrightarrow> fs_interner st = it0 \<Longrightarrow> reach Map.empty = reaching declared symb h st"
  by (simp add: reach_def reaching_def vals_def [abs_def])

lemma ready_run: "flow_ready fx declared symb h st \<Longrightarrow> fs_nodes st = nodes \<Longrightarrow> fs_interner st = it0 \<Longrightarrow> run_inv st"
  using reach_reaching [of st]
  by (simp add: flow_ready_def run_inv_def shape_inv_def types_inv_def grown_refl memo_sound_def good_def R_def vals_def)

lemma run_ready:
  assumes ready: "flow_ready fx declared symb h st" "fs_nodes st = nodes" "fs_interner st = it0"
    and a: "after st st'" and r: "roomy st'"
  shows "flow_ready fx declared symb h st' \<and> fs_nodes st' = fs_nodes st"
proof -
  have g: "grown fx (fs_interner st) (fs_interner st')" and n: "fs_nodes st' = nodes" and t: "types_inv st'"
    using a r by (simp_all add: after_def later_def run_inv_def shape_inv_def)
  have "memo_sound declared symb h st'"
    using t reaching_grown [OF ready(1) g] n ready(2) reach_reaching [OF ready(2,3)]
    by (simp add: memo_sound_def types_inv_def good_def R_def vals_def)
  moreover have "types_decided (fs_interner st') nodes symb (declared symb)"
    using types_decided_grown [OF arena] g typed ready(3) by simp
  ultimately show ?thesis using a g n ready by (simp add: flow_ready_def after_def run_inv_def shape_inv_def grown_def)
qed

lemma resolve_final:
  assumes ready: "flow_ready fx declared symb h st" "fs_nodes st = nodes" "fs_interner st = it0"
    and n: "unat n < length nodes" and fuel: "enough (length nodes) \<le> fuel"
  shows "gives (\<lambda>t st'. roomy st' \<longrightarrow> flow_ready fx declared symb h st' \<and> fs_nodes st' = fs_nodes st \<and>
    (\<forall>v. reaching declared symb h st n v \<longrightarrow> value_in (fs_interner st') h v t))
    (resolve_narrowed_type fx cr declared fuel n symb st)"
proof (rule gives_mono [OF resolve_ok [OF ready_run [OF ready] n fuel]], intro impI)
  fix t st' assume a: "after st st' \<and> covers st' n t" and r: "roomy st'"
  have "sources st' = Map.empty" using a ready(1) by (auto simp: sources_def after_def flow_ready_def)
  then show "flow_ready fx declared symb h st' \<and> fs_nodes st' = fs_nodes st \<and>
      (\<forall>v. reaching declared symb h st n v \<longrightarrow> value_in (fs_interner st') h v t)"
    using run_ready [OF ready conjunct1 [OF a] r] a r reach_reaching [OF ready(2,3)] by (simp add: covers_def vals_def)
qed

end

text \<open>Every ready state is a run: the laws of the walk hold on its own graph and interner.\<close>

locale ready_flow =
  fixes fx :: hasher and cr :: coordinator and declared :: declared_types and symb :: symbol_id and h :: js_heap and st :: flow_state
  assumes ready: "flow_ready fx declared symb h st"

sublocale ready_flow \<subseteq> run: flow_run fx cr declared "fs_nodes st" symb "fs_interner st" h
  by (rule flow_ready_run [OF ready])

context ready_flow
begin

lemma resolve_returns:
  assumes "unat flow < length (fs_nodes st)" "Suc (length (fs_nodes st)) * (2 * length (fs_nodes st) + 1) \<le> fuel"
  shows "case resolve_narrowed_type fx cr declared fuel flow symb st of
      Out_Of_Fuel \<Rightarrow> False
    | Panics st' \<Rightarrow> \<not> room (fs_interner st')
    | Returns (t, st') \<Rightarrow> room (fs_interner st') \<longrightarrow> flow_ready fx declared symb h st' \<and> fs_nodes st' = fs_nodes st \<and>
        (\<forall>v. reaching declared symb h st flow v \<longrightarrow> value_in (fs_interner st') h v t)"
  using run.resolve_final [OF ready refl refl assms(1), of fuel] assms(2)
  by (auto simp: run.enough_def run.gives_def run.roomy_def split: walk.splits)

end

text \<open>
  C9: resolving the narrowed type of a symbol at a flow node returns, given fuel for every node and
  loop label, unless the arena runs out of identifiers; the type it returns holds every value of the
  symbol that can reach the node past its guards, assignments, joins and loops, and the state it
  leaves is ready again: its memo is sound and no provisional loop type remains.
\<close>

theorem resolve_sound:
  assumes "flow_ready fx declared symbol h st" "unat flow < length (fs_nodes st)"
    and "Suc (length (fs_nodes st)) * (2 * length (fs_nodes st) + 1) \<le> fuel"
  shows "case resolve_narrowed_type fx cr declared fuel flow symbol st of
      Out_Of_Fuel \<Rightarrow> False
    | Panics st' \<Rightarrow> \<not> room (fs_interner st')
    | Returns (t, st') \<Rightarrow> room (fs_interner st') \<longrightarrow> flow_ready fx declared symbol h st' \<and> fs_nodes st' = fs_nodes st \<and>
        (\<forall>v. reaching declared symbol h st flow v \<longrightarrow> value_in (fs_interner st') h v t)"
  using ready_flow.resolve_returns [OF ready_flow.intro [OF assms(1)] assms(2,3)] .

section \<open>Building the graph\<close>

text \<open>
  The graphs the checker can build: from the two sentinels, by the functions of
  \<^verbatim>\<open>flowgraph/nodes.rs\<close> on nodes that exist.
\<close>

definition flow_id :: "flow_state \<Rightarrow> flow_node_id \<Rightarrow> bool" where
  "flow_id st n \<longleftrightarrow> unat n < length (fs_nodes st)"

definition flow_room :: "nat \<Rightarrow> flow_state \<Rightarrow> bool" where
  "flow_room k st \<longleftrightarrow> length (fs_nodes st) + k < 2 ^ 32"

inductive flow_built :: "flow_state \<Rightarrow> bool" where
  sentinels: "fs_nodes st = [Flow_Unreachable, Flow_Start] \<Longrightarrow> flow_built st"
| assignment: "flow_built st \<Longrightarrow> flow_id st a \<Longrightarrow> flow_room 1 st \<Longrightarrow> flow_built (snd (new_flow (Flow_Assignment s t a) st))"
| label: "flow_built st \<Longrightarrow> flow_id st a \<Longrightarrow> flow_room 1 st \<Longrightarrow> flow_built (snd (new_flow (Flow_LoopLabel [a] []) st))"
| condition: "flow_built st \<Longrightarrow> flow_id st a \<Longrightarrow> flow_room 1 st \<Longrightarrow> flow_built (snd (flow_condition a g branch st))"
| join: "flow_built st \<Longrightarrow> list_all (flow_id st) as \<Longrightarrow> flow_room 1 st \<Longrightarrow> flow_built (snd (flow_join as st))"
| back_edge: "flow_built st \<Longrightarrow> flow_id st a \<Longrightarrow> flow_built (add_back_edge l a st)"
| switch: "flow_built st \<Longrightarrow> flow_id st a \<Longrightarrow> flow_room (Suc (length lits)) st \<Longrightarrow>
    flow_built (snd (switch_case_entry a discr has_test lit lits st))"

text \<open>Appending a node whose antecedents exist; loop labels may refer to any node.\<close>

lemma node_ok_mono: "node_ok len i n \<Longrightarrow> len \<le> len' \<Longrightarrow> node_ok len' i n"
  by (cases n) (auto simp: list_all_iff intro: less_le_trans)

lemma graph_ok_iff: "graph_ok nodes \<longleftrightarrow> 2 \<le> length nodes \<and> length nodes < 2 ^ 32 \<and> nodes ! 0 = Flow_Unreachable \<and>
    nodes ! 1 = Flow_Start \<and> (\<forall>i < length nodes. node_ok (length nodes) i (nodes ! i))"
  by (auto simp: graph_ok_def list_all_iff in_set_enumerate_eq)

lemma graph_ok_append:
  assumes "graph_ok nodes" "Suc (length nodes) < 2 ^ 32" "node_ok (Suc (length nodes)) (length nodes) n"
  shows "graph_ok (nodes @ [n])"
proof -
  have "node_ok (Suc (length nodes)) i (nodes ! i)" if "i < length nodes" for i
    using assms(1) that node_ok_mono [of "length nodes" i "nodes ! i"] by (simp add: graph_ok_iff)
  with assms show ?thesis by (auto simp: graph_ok_iff nth_append less_Suc_eq)
qed

lemma add_back_edge_ok:
  assumes g: "graph_ok (fs_nodes st)" and a: "flow_id st a"
  shows "graph_ok (fs_nodes (add_back_edge l a st))"
proof (cases "\<exists>pre back. flow_node_at (fs_nodes st) l = Some (Flow_LoopLabel pre back) \<and> a \<noteq> FLOW_UNREACHABLE")
  case True
  then obtain pre b where l: "flow_node_at (fs_nodes st) l = Some (Flow_LoopLabel pre b)" "a \<noteq> FLOW_UNREACHABLE" by blast
  have node: "node_ok (length (fs_nodes st)) (unat l) (Flow_LoopLabel pre (b @ [a]))"
    using graph_okD(1) [OF g l(1)] a by (simp add: flow_id_def)
  have at: "fs_nodes st ! unat l = Flow_LoopLabel pre b" using l(1) by (auto simp: flow_node_at_def nth_opt_eq_Some)
  have "unat l \<noteq> 0" using g at by (cases "unat l = 0") (simp_all add: graph_ok_iff)
  moreover have "unat l \<noteq> 1" using g at by (cases "unat l = 1") (simp_all add: graph_ok_iff)
  moreover have "node_ok (length (fs_nodes st)) i ((fs_nodes st)[unat l := Flow_LoopLabel pre (b @ [a])] ! i)"
    if "i < length (fs_nodes st)" for i
    using g node that by (cases "i = unat l") (simp_all add: graph_ok_iff)
  ultimately show ?thesis using g l by (simp add: add_back_edge_def graph_ok_iff)
qed (use g in \<open>auto simp: add_back_edge_def split: option.splits flow_node.splits\<close>)

lemma new_flow_ok:
  assumes "graph_ok (fs_nodes st)" "flow_room 1 st" "node_ok (Suc (length (fs_nodes st))) (length (fs_nodes st)) n"
    "new_flow n st = (x, st')"
  shows "graph_ok (fs_nodes st')" "length (fs_nodes st') = Suc (length (fs_nodes st))" "flow_id st' x"
proof -
  have st': "st' = st\<lparr>fs_nodes := fs_nodes st @ [n]\<rparr>" and x: "x = word_of_nat (length (fs_nodes st))"
    using assms(4) by (simp_all add: new_flow_def)
  show "graph_ok (fs_nodes st')" using graph_ok_append [OF assms(1) _ assms(3)] assms(2) by (simp add: st' flow_room_def)
  show "length (fs_nodes st') = Suc (length (fs_nodes st))" by (simp add: st')
  show "flow_id st' x" using assms(2) by (simp add: flow_id_def st' x flow_room_def unat_of_nat take_bit_nat_eq_self)
qed

lemma switch_chain_ok:
  assumes "graph_ok (fs_nodes st)" "flow_id st node" "flow_room (length lits) st" "switch_default_chain s name lits node st = (x, st')"
  shows "graph_ok (fs_nodes st') \<and> flow_id st' x"
  using assms
proof (induction lits arbitrary: node st)
  case (Cons lit lits)
  obtain y st1 where y: "new_flow (Flow_Condition s (Narrow_Discriminant name lit) False node) st = (y, st1)"
    by (cases "new_flow (Flow_Condition s (Narrow_Discriminant name lit) False node) st")
  have "flow_room 1 st" using Cons.prems(3) by (simp add: flow_room_def)
  note ok = new_flow_ok [OF Cons.prems(1) this _ y]
  have "node_ok (Suc (length (fs_nodes st))) (length (fs_nodes st)) (Flow_Condition s (Narrow_Discriminant name lit) False node)"
    using Cons.prems(2) by (simp add: flow_id_def)
  with ok Cons.prems(3,4) y show ?case by (intro Cons.IH [of st1 y]) (auto simp: flow_room_def)
qed simp

lemma switch_ok:
  assumes g: "graph_ok (fs_nodes st)" and a: "flow_id st a" and r: "flow_room (Suc (length lits)) st"
  shows "graph_ok (fs_nodes (snd (switch_case_entry a discr has_test lit lits st)))"
proof -
  have one: "flow_room 1 st" and all: "flow_room (length lits) st" using r by (simp_all add: flow_room_def)
  have c: "graph_ok (fs_nodes (snd (new_flow (Flow_Condition s op positive a) st)))" for s op positive
    by (rule new_flow_ok(1) [OF g one _ surjective_pairing]) (use a in \<open>simp add: flow_id_def\<close>)
  have d: "graph_ok (fs_nodes (snd (switch_default_chain s name lits a st)))" for s name
    using switch_chain_ok [OF g a all surjective_pairing] by blast
  show ?thesis
    using g c d by (auto simp: switch_case_entry_def split: option.splits bool.splits)
qed

lemma flow_join_live:
  assumes "list_all (flow_id st) as"
  shows "list_all (flow_id st) (remdups_adj (sort (filter (\<lambda>a. a \<noteq> FLOW_UNREACHABLE) as)))"
  using assms by (auto simp: list_all_iff)

text \<open>
  C11: every flow graph the checker builds from the sentinels, by assignments, guards, joins, loop
  labels, back edges and switch clauses on existing nodes, is well formed: ids stay in range and only
  loop labels refer forward, which is what the walk's termination and soundness need.
\<close>

theorem flow_built_graph_ok:
  assumes "flow_built st"
  shows "graph_ok (fs_nodes st)"
  using assms
proof (induction rule: flow_built.induct)
  case (sentinels st)
  then show ?case by (simp add: graph_ok_def)
next
  case (assignment st a s t)
  then show ?case using new_flow_ok(1) [OF assignment.IH assignment.hyps(3) _ surjective_pairing] by (simp add: flow_id_def)
next
  case (label st a)
  then show ?case using new_flow_ok(1) [OF label.IH label.hyps(3) _ surjective_pairing] by (simp add: flow_id_def)
next
  case (condition st a g branch)
  then show ?case using new_flow_ok(1) [OF condition.IH condition.hyps(3) _ surjective_pairing]
    by (auto simp: flow_condition_def flow_id_def Let_def split: option.splits)
next
  case (join st as)
  note new = new_flow_ok(1) [OF join.IH join.hyps(3) _ surjective_pairing, of "Flow_BranchLabel (remdups_adj (sort (filter (\<lambda>a. a \<noteq> FLOW_UNREACHABLE) as)))"]
  show ?case using new join.IH flow_join_live [OF join.hyps(2)]
    by (auto simp: flow_join_def flow_id_def [abs_def] Let_def split: list.splits)
next
  case (back_edge st a l)
  then show ?case by (intro add_back_edge_ok)
next
  case (switch st a lits discr has_test lit)
  then show ?case by (intro switch_ok)
qed

section \<open>Narrowing\<close>


text \<open>
  C40: the else branch of an \<open>in\<close> guard drops an object type that declares the property even when
  the property is optional: narrowing gives \<open>never\<close>, although an object without the property is a
  value of the type and passes the guard.
\<close>

theorem in_else_drops_optional:
  assumes inv: "session_inv fx it" and row: "row_in it ty = Some (Row_Object ob)"
    and pq: "object_property ob name = Some p" and optional: "\<forall>q \<in> set (ob_properties ob). pr_optional q"
  shows "narrow fx it ty (Narrow_In name) False = Some (wk_never (it_well_known it), it) \<and>
    (\<exists>h v. value_in it h v ty \<and> guard_passes it h (Narrow_In name) False v)"
proof -
  note wk = wk_kinds(1,2) [OF session_parts(3) [OF inv]]
  have top: "ty \<noteq> wk_any (it_well_known it)" "ty \<noteq> wk_error (it_well_known it)" using wk row by auto
  have "union_members (it_store it) ty = Some None"
    using set_accessors(1) [OF session_parts(1) [OF inv], of ty] row by (simp add: union_row_def)
  then have "narrow fx it ty (Narrow_In name) False = Some (wk_never (it_well_known it), it)"
    using top in_operator_keeps_row [OF inv row, of name False] pq
    by (simp add: narrow_by_in_operator_def filter_union_def Let_def in_row_def)
  moreover have "value_in it (\<lambda>_ _. None) (Val_Object 0) ty"
    using row optional by (simp add: value_in_row property_holds_def split: option.splits)
  moreover have "guard_passes it (\<lambda>_ _. None) (Narrow_In name) False (Val_Object 0)" by simp
  ultimately show ?thesis by blast
qed

section \<open>Samples\<close>

text \<open>A loop \<open>while (x) {}\<close> over a boolean: the label, the guard into the body, the guard past it.\<close>

definition loop_nodes :: "flow_node list" where
  "loop_nodes = [Flow_Unreachable, Flow_Start, Flow_LoopLabel [1] [3], Flow_Condition 7 Narrow_Truthy True 2,
     Flow_Condition 7 Narrow_Truthy False 2]"

definition sample_context :: "interner \<Rightarrow> flow_context" where
  "sample_context it = \<lparr>fc_interner = it, fc_queries = qs_default, fc_next_type_param = 0\<rparr>"

definition loop_state :: "flow_node list \<Rightarrow> flow_state" where
  "loop_state nodes = \<lparr>fs_nodes = nodes, fs_memo = fmempty, fs_provisional = fmempty, fs_loop_depth = 0,
     fs_context = sample_context initial\<rparr>"

definition sample_declared :: declared_types where
  "sample_declared s = intrinsic_code Kind_Boolean"

definition silent :: coordinator where
  "silent = \<lparr>cr_demand = (\<lambda>ctx t. Some (Demand_Ready t, ctx)), cr_is_assignable = (\<lambda>ctx s t. None)\<rparr>"

lemma initial_session_inv: "session_inv (\<lambda>_. 0) initial"
  by (rule session_session_inv [OF session.start [OF initial_start]])

lemma boolean_members: "(\<And>r. R r) \<Longrightarrow> members_are initial R (intrinsic_code Kind_Boolean)"
  using initial_row [of Kind_Boolean] union_set_cases [OF initial_session_inv initial_row [of Kind_Boolean]]
  by (simp add: members_are_def del: intrinsic_code.simps)

lemma loop_ready: "flow_ready (\<lambda>_. 0) sample_declared 7 h (loop_state loop_nodes)"
proof -
  have R: "guards_decide loop_nodes 7 r" for r by (simp add: guards_decide_def loop_nodes_def)
  have "types_decided initial loop_nodes 7 (sample_declared 7)"
    unfolding types_decided_def sample_declared_def using boolean_members [OF R] by (auto simp: loop_nodes_def)
  moreover have "graph_ok loop_nodes" "guards_plain loop_nodes 7" by (simp_all add: graph_ok_def guards_plain_def loop_nodes_def)
  ultimately show ?thesis
    using initial_session_inv default_layered by (simp add: flow_ready_def loop_state_def sample_context_def memo_sound_def)
qed

interpretation loop_flow: ready_flow "\<lambda>_. 0" silent sample_declared 7 "\<lambda>_ _. None" "loop_state loop_nodes"
  by unfold_locales (rule loop_ready)

lemma past_loop: "reaching sample_declared 7 h (loop_state loop_nodes) 4 (Val_Boolean False)"
proof -
  let ?R = "reaching sample_declared 7 h (loop_state loop_nodes)"
  have "value_in initial h (Val_Boolean False) (intrinsic_code Kind_Boolean)"
    using initial_row [of Kind_Boolean] by (simp add: value_in_row del: intrinsic_code.simps)
  then have 1: "?R 1 (Val_Boolean False)"
    using reaches.start [of Map.empty "Val_Boolean False"]
    by (simp add: reaching_def loop_state_def sample_context_def sample_declared_def FLOW_START_def del: intrinsic_code.simps)
  have 2: "?R 2 (Val_Boolean False)"
    unfolding reaching_def by (rule reaches.looped [OF _ _ _ 1 [unfolded reaching_def]])
      (simp, simp add: loop_state_def loop_nodes_def flow_node_at_def nth_opt_def, simp)
  show ?thesis
    unfolding reaching_def by (rule reaches.guarded [where op = Narrow_Truthy and positive = False, OF _ _ 2 [unfolded reaching_def]])
      (simp_all add: loop_state_def loop_nodes_def flow_node_at_def nth_opt_def)
qed

theorem resolve_sound_witness:
  "flow_ready (\<lambda>_. 0) sample_declared 7 (\<lambda>_ _. None) (loop_state loop_nodes) \<and>
   (case resolve_narrowed_type (\<lambda>_. 0) silent sample_declared 66 4 7 (loop_state loop_nodes) of
      Out_Of_Fuel \<Rightarrow> False
    | Panics st' \<Rightarrow> \<not> room (fs_interner st')
    | Returns (t, st') \<Rightarrow> room (fs_interner st') \<longrightarrow> value_in (fs_interner st') (\<lambda>_ _. None) (Val_Boolean False) t)"
  using resolve_sound [OF loop_ready [of "\<lambda>_ _. None"], of 4 66 silent] loop_ready past_loop [of "\<lambda>_ _. None"]
  by (auto simp: loop_state_def loop_nodes_def split: walk.splits)

theorem flow_built_graph_ok_witness:
  "graph_ok [Flow_Unreachable, Flow_Start, Flow_LoopLabel [1] [3], Flow_Condition 7 Narrow_Truthy True 2]"
proof -
  let ?g = "Some \<lparr>gf_symbol = 7, gf_op = Narrow_Truthy, gf_then_positive = True\<rparr>"
  define st0 st1 st2 where st: "st0 = loop_state [Flow_Unreachable, Flow_Start]" "st1 = snd (new_flow (Flow_LoopLabel [1] []) st0)"
    "st2 = snd (flow_condition 2 ?g True st1)"
  note defs = st loop_state_def new_flow_def flow_condition_def flow_id_def flow_room_def FLOW_UNREACHABLE_def
  have "flow_built st1" unfolding st(2) by (rule flow_built.label [OF flow_built.sentinels]) (simp_all add: defs)
  then have "flow_built st2" unfolding st(3) by (rule flow_built.condition) (simp_all add: defs)
  then have "flow_built (add_back_edge 2 3 st2)" by (rule flow_built.back_edge) (simp add: defs)
  from flow_built_graph_ok [OF this] show ?thesis
    by (simp add: defs add_back_edge_def flow_node_at_def nth_opt_def)
qed


definition optional_object :: object_type where
  "optional_object = object_default\<lparr>ob_properties := [(property_public ''a'' (intrinsic_code Kind_String))\<lparr>pr_optional := True\<rparr>]\<rparr>"

definition session_optional :: interner where
  "session_optional = next_session initial (Session_Op (Op_Intern (Req_Object optional_object)))"

lemma session_optional_facts:
  "session_inv (\<lambda>_. 0) session_optional" "row_in session_optional 19 = Some (Row_Object optional_object)"
proof -
  let ?req = "Req_Object optional_object"
  have s: "session (\<lambda>_. 0) initial" by (rule session.start [OF initial_start])
  have sorted: "sort_properties optional_object = optional_object" by (simp add: sort_properties_def optional_object_def)
  have "valid initial (intrinsic_code Kind_String)" using initial_row [of Kind_String] by simp
  then have ok: "session_ok initial (Session_Op (Op_Intern ?req))"
    by (simp add: initial_len row_refs_def sort_properties_def optional_object_def object_default_def property_public_def opt_ids_def del: intrinsic_code.simps)
  show "session_inv (\<lambda>_. 0) session_optional"
    unfolding session_optional_def by (rule session_session_inv [OF next_session(1) [OF s ok]])
  have "\<not> row_matches r (request_row ?req)" if "r \<in> set (store_rows (it_store initial))" for r
    using that by (auto simp: initial_facts(3) row_matches_def object_key_def)
  from next_session_appends [OF s ok this] obtain r where
    r: "row_key r = row_key (Row_Object optional_object)" "store_rows (it_store session_optional) = store_rows (it_store initial) @ [r]"
    by (auto simp: session_optional_def sorted)
  from r(1) have "r = Row_Object optional_object" by (cases r) (auto simp: object_key_def)
  with r(2) show "row_in session_optional 19 = Some (Row_Object optional_object)"
    by (simp add: row_in_def initial_facts(3) nth_opt_def intrinsic_all_def)
qed

theorem in_else_drops_optional_witness:
  "narrow (\<lambda>_. 0) session_optional 19 (Narrow_In ''a'') False = Some (wk_never (it_well_known session_optional), session_optional) \<and>
   (\<exists>h v. value_in session_optional h v 19 \<and> guard_passes session_optional h (Narrow_In ''a'') False v)"
proof (rule in_else_drops_optional [OF session_optional_facts])
  show "object_property optional_object ''a'' = Some ((property_public ''a'' (intrinsic_code Kind_String))\<lparr>pr_optional := True\<rparr>)" by code_simp
  show "\<forall>q \<in> set (ob_properties optional_object). pr_optional q" by (simp add: optional_object_def)
qed

end
