(* ===== verification/Spec2Isabelle.thy ===== *)
theory Spec2Isabelle
  imports Core_Span Layered Store_Columns Structural_Hash Graph_Cache Interner_Properties Relation_Cache Relation_Properties
    Session_Properties Published_Classes Query_Publication Flow_Properties
begin

text \<open>
  A verification development for typokat, a TypeScript type checker written in Rust.

  \<^bold>\<open>The program.\<close> A run loads a project (crate \<^verbatim>\<open>typokat-frontend\<close>), binds names (\<^verbatim>\<open>typokat-binder\<close>), checks
  statements and expressions (\<^verbatim>\<open>typokat-check\<close>) and reports (\<^verbatim>\<open>typokat-diagnostics\<close>). All of it rests on
  the type representation of \<^verbatim>\<open>typokat-types\<close>: types are rows of an append-only arena, addressed by a
  32-bit id, and hash-consed so that comparing ids compares structure. The relation engine of
  \<^verbatim>\<open>typokat-relate\<close> decides assignability over that arena and keeps its verdicts in a cache with
  savepoints; semantic queries run it inside transactions; flow analysis narrows the types of
  symbols by the guards a value has passed. The bundled libraries are compiled once, sealed as a
  base, and every user program is a fork over that base.

  \<^bold>\<open>Theories.\<close>
  \<^item> \<^verbatim>\<open>Prelude\<close>: machine words, indexing with bounds, monadic search, the shared lemmas.
  \<^item> \<^verbatim>\<open>Core_Span\<close>: \<^verbatim>\<open>typokat-core/src/span.rs\<close>, offsets to lines and columns.
  \<^item> \<^verbatim>\<open>Layered\<close>: \<^verbatim>\<open>types/layered.rs\<close>, vectors, maps and sets with a sealed base, overrides and a local suffix;
    the interfaces \<open>append_sequence\<close> and \<open>guarded_map\<close> with their interpretations.
  \<^item> \<^verbatim>\<open>Repr\<close>: \<^verbatim>\<open>types/repr.rs\<close>, the data of every kind of type; floats as 64-bit words with IEEE equality.
  \<^item> \<^verbatim>\<open>Store\<close>, \<^verbatim>\<open>Store_Rows\<close>, \<^verbatim>\<open>Store_Columns\<close>: \<^verbatim>\<open>types/store.rs\<close>, the columnar arena; its abstraction as a list
    of rows, the invariant of the columns, and every operation as an operation on that list.
  \<^item> \<^verbatim>\<open>Structural_Hash\<close>: \<^verbatim>\<open>types/hash.rs\<close>, the writes a key makes to the hasher, as a prefix code.
  \<^item> \<^verbatim>\<open>Graph_Cache\<close>: the caches derived from the type graph and the derivation store of \<^verbatim>\<open>types/intern/mod.rs\<close>.
  \<^item> \<^verbatim>\<open>Interner\<close>: \<^verbatim>\<open>types/intern\<close>, the interner and its operations. \<^verbatim>\<open>Interner_Laws\<close>: its invariant and
    hash-consing. \<^verbatim>\<open>Interner_Reserve\<close>: reservations, publication, promotion, sealing and forking.
    \<^verbatim>\<open>Set_Types\<close>: unions, intersections and disjointness. \<^verbatim>\<open>Interner_Machine\<close>: the interner as a state
    machine over all operations. \<^verbatim>\<open>Interner_Properties\<close>: the properties and their witnesses.
  \<^item> \<^verbatim>\<open>Relation_Cache\<close>: \<^verbatim>\<open>typokat-relate/src/relate/cache.rs\<close>, behind the interface \<open>speculative_cache\<close>.
  \<^item> \<^verbatim>\<open>Relation_Program\<close>, \<^verbatim>\<open>Relation_Shapes\<close>, \<^verbatim>\<open>Relation_Rules\<close>, \<^verbatim>\<open>Relation_Engine\<close>: \<^verbatim>\<open>relate/relation\<close>, the monad of
    a run, the accessors, the structural rules and the driver with its assume-true stack.
    \<^verbatim>\<open>Relation_Closed\<close>, \<^verbatim>\<open>Relation_Fine\<close>, \<^verbatim>\<open>Relation_Sound\<close>, \<^verbatim>\<open>Relation_Meaning\<close>, \<^verbatim>\<open>Relation_Sample\<close>,
    \<^verbatim>\<open>Relation_Properties\<close>: the arenas a query may run on (the locales \<open>arena\<close> and \<open>plain_arena\<close>), the relation
    as a greatest fixed point of the rules, soundness, exactness and termination.
  \<^item> \<^verbatim>\<open>Substitute_Summary\<close>: \<^verbatim>\<open>types/substitute/mod.rs\<close>, the worklist computation of free parameters and key
    modes. \<^verbatim>\<open>References\<close>: \<^verbatim>\<open>types/intern/references.rs\<close>. \<^verbatim>\<open>Declared\<close>: recipes of \<^verbatim>\<open>types/intern/declared.rs\<close>.
  \<^item> \<^verbatim>\<open>Session\<close>, \<^verbatim>\<open>Session_Steps\<close>, \<^verbatim>\<open>Session_Properties\<close>: one interner used by all of these operations together;
    the locale \<open>session_arena\<close> joins a session to the relation engine.
  \<^item> \<^verbatim>\<open>Published_Classes\<close>: \<^verbatim>\<open>typokat-types/src/class_semantics.rs\<close>, the registry of published classes.
  \<^item> \<^verbatim>\<open>Query_State\<close>, \<^verbatim>\<open>Query_Publication\<close>: \<^verbatim>\<open>typokat-check/src/check/query/mod.rs\<close>, the journaled state of semantic
    queries and the scan for unpublished classes.
  \<^item> \<^verbatim>\<open>Flow_Narrow\<close>, \<^verbatim>\<open>Flow_Query\<close>: \<^verbatim>\<open>check/flow.rs\<close>, narrowing by a guard, without and with queries. \<^verbatim>\<open>Flow_Values\<close>:
    the values of a type and what guards mean on them. \<^verbatim>\<open>Flow_Graph\<close>: \<^verbatim>\<open>check/checker/flowgraph\<close>, the
    nodes, their constructors and the backward walk. \<^verbatim>\<open>Flow_Sound\<close>: the values that reach a node and the
    locale \<open>flow_run\<close>, in which the walk is shown to cover them. \<^verbatim>\<open>Flow_Properties\<close>: the properties;
    \<open>ready_flow\<close> makes every state between queries an instance of \<open>flow_run\<close>.

  \<^bold>\<open>Correspondence.\<close> A struct is a record with prefixed fields, an enum a datatype, a type id a 32-bit
  word. An operation takes the state and returns the new one with its result. The option around a
  result is a panic (an index out of range, a failed \<open>expect\<close>); errors the code returns are values of
  their own datatypes. Hash maps are finite maps; the order in which they are iterated is not
  observable in the modelled operations. The third-party hasher is the parameter \<open>fx\<close> of everything
  that hashes, and nothing is assumed of it: the theorems hold for every function, and the
  witnesses use a constant one. The \<open>Arc\<close> that identifies a version of the type graph is a counter.
  The query coordinator that narrowing calls and the declared types of symbols are parameters of
  the flow model.

  \<^bold>\<open>What is shown.\<close> Every reachable interner satisfies the invariant and no operation panics on it; ids
  are canonical and never change meaning; interning, unions and intersections return canonical
  results; publishing recursive types is atomic; sealing and forking are transparent; the arena,
  the layered containers and the verdict cache refine a list and maps; the hashed writes determine
  the key. A relation query on a closed arena without generic signatures returns, its verdict is the
  greatest fixed point of the structural rules, and no cache or earlier query changes it. The
  summaries of substitution are the least fixed points they are meant to be, in every session. The
  class registry answers by one map and survives export; a rolled back query restores every table,
  and the verdict cache too unless a committed layer reset its context. Narrowing by the guards that
  ask no query keeps every value that passes; every graph the constructors build is well formed, and
  resolution returns a type that holds every value that reaches the node, loops included, and leaves
  a sound memo.

  \<^bold>\<open>Limits of the statements.\<close> The relation is characterised on arenas whose function types have no type
  parameters (\<open>closed_env\<close> and its restriction to plain rows). Resolution is shown for symbols whose
  guards ask nothing of the coordinator (\<open>typeof\<close>, truthiness, null equality) and whose types have
  members the guards decide (\<open>types_decided\<close>): a \<open>typeof\<close> guard on \<open>unknown\<close> or on a type parameter is
  outside it.

  \<^bold>\<open>Bounds and fuel.\<close> Appending a row needs fewer than \<open>2^32\<close> rows before it, the range of the ids; it is the
  hypothesis of the theorems about appending operations, part of \<open>op_ok\<close>, and \<open>room\<close> in the flow model,
  where a result is claimed as long as the arena left has room. \<open>flatten\<close>, \<open>definitely_disjoint\<close>, the
  publication scan and the walks of substitution are partial functions proved to return. The
  relation engine and the flow walk take fuel: \<open>relate_terminates\<close> gives fuel that is enough for every
  pair, and the walk needs \<open>(n + 1) * (2 * n + 1)\<close> for a graph of \<open>n\<close> nodes, since a call settles each node
  at most once and loop labels nest at most \<open>n\<close> deep.

  \<^bold>\<open>Not modelled.\<close> The rewriting of types by substitution and the materialisation of recipes; the planning
  of projections and evaluations by the query coordinator; the binder, the checker and the statement
  traversal that builds the flow graph, all over the syntax tree of the third-party parser; module
  loading, diagnostics, the bundled libraries and the driver; test-only probes; float formatting.
\<close>

end
